(* ===== verification/Rust_Prelude.thy ===== *)
theory Rust_Prelude
  imports Main "HOL-Library.List_Lexorder"
begin

text \<open>
  What every component of the model shares: the value types of the Rust sources (strings as
  lists of Unicode scalar values, \<open>Result\<close> as a sum, \<open>u64\<close> and \<open>usize\<close> arithmetic with
  its checked and saturating forms), and the string operations of the standard library the sources
  call. The interfaces of the stateful components are the locales of theory
  \<open>Interfaces\<close>.

  A Rust \<open>&str\<close> is a sequence of Unicode scalar values stored as UTF-8. A \<open>rstr\<close> is that
  sequence; byte lengths and byte offsets are computed by \<open>utf8_len\<close>. UTF-8 order of the
  bytes is the order of the scalar values, so \<open>str::cmp\<close> is the lexicographic order of
  \<open>HOL-Library.List_Lexorder\<close>.
\<close>

section \<open>Results\<close>

named_theorems res_simps "equations of the result combinators"

fun and_then :: "'e + 'a \<Rightarrow> ('a \<Rightarrow> 'e + 'b) \<Rightarrow> 'e + 'b" where
  "and_then (Inl e) f = Inl e"
| "and_then (Inr x) f = f x"

fun map_err :: "('e \<Rightarrow> 'f) \<Rightarrow> 'e + 'a \<Rightarrow> 'f + 'a" where
  "map_err f (Inl e) = Inl (f e)"
| "map_err f (Inr x) = Inr x"

fun is_ok :: "'e + 'a \<Rightarrow> bool" where
  "is_ok (Inl e) = False"
| "is_ok (Inr x) = True"

fun ok_or :: "'a option \<Rightarrow> 'e \<Rightarrow> 'e + 'a" where
  "ok_or None e = Inl e"
| "ok_or (Some x) e = Inr x"

text \<open>A \<open>for\<close> loop whose body is \<open>check(x)?\<close>: the first error ends it.\<close>

fun check_each :: "('a \<Rightarrow> 'e + unit) \<Rightarrow> 'a list \<Rightarrow> 'e + unit" where
  "check_each f [] = Inr ()"
| "check_each f (x # xs) = and_then (f x) (\<lambda>_. check_each f xs)"

text \<open>\<open>iter().map(f).collect::<Result<Vec<_>, _>>()\<close>.\<close>

fun try_collect :: "('a \<Rightarrow> 'e + 'b) \<Rightarrow> 'a list \<Rightarrow> 'e + 'b list" where
  "try_collect f [] = Inr []"
| "try_collect f (x # xs) =
     and_then (f x) (\<lambda>y. and_then (try_collect f xs) (\<lambda>ys. Inr (y # ys)))"

lemma and_then_Inr [res_simps]:
  "and_then r f = Inr y \<longleftrightarrow> (\<exists>x. r = Inr x \<and> f x = Inr y)"
  by (cases r) auto

lemma and_then_Inl [res_simps]:
  "and_then r f = Inl e \<longleftrightarrow> r = Inl e \<or> (\<exists>x. r = Inr x \<and> f x = Inl e)"
  by (cases r) auto

lemma map_err_Inr [res_simps]: "map_err f r = Inr x \<longleftrightarrow> r = Inr x"
  by (cases r) auto

lemma ok_or_Inr [res_simps]: "ok_or x e = Inr y \<longleftrightarrow> x = Some y"
  by (cases x) auto

lemma is_ok_iff: "is_ok r \<longleftrightarrow> (\<exists>x. r = Inr x)"
  by (cases r) auto

lemma check_each_Inr [res_simps]:
  "check_each f xs = Inr u \<longleftrightarrow> (\<forall>x \<in> set xs. f x = Inr ())"
  by (induction xs) (auto simp: res_simps)

lemma try_collect_Inr [res_simps]:
  "try_collect f xs = Inr ys \<longleftrightarrow> list_all2 (\<lambda>x y. f x = Inr y) xs ys"
  by (induction xs arbitrary: ys) (auto simp: res_simps list_all2_Cons1)

section \<open>Unsigned machine integers\<close>

text \<open>
  \<open>u64\<close>, \<open>u32\<close>, \<open>u16\<close>, \<open>u8\<close> and \<open>usize\<close> (64 bits on the supported targets) are
  natural numbers; every operation writes its bound out.
\<close>

definition u64_max :: nat where "u64_max = 18446744073709551615"

definition u32_max :: nat where "u32_max = 4294967295"

definition usize_max :: nat where "usize_max = 18446744073709551615"

definition u64_checked_add :: "nat \<Rightarrow> nat \<Rightarrow> nat option" where
  "u64_checked_add a b = (if a + b \<le> u64_max then Some (a + b) else None)"

definition u64_saturating_add :: "nat \<Rightarrow> nat \<Rightarrow> nat" where
  "u64_saturating_add a b = min u64_max (a + b)"

definition u32_saturating_add :: "nat \<Rightarrow> nat \<Rightarrow> nat" where
  "u32_saturating_add a b = min u32_max (a + b)"

definition usize_saturating_add :: "nat \<Rightarrow> nat \<Rightarrow> nat" where
  "usize_saturating_add a b = min usize_max (a + b)"

definition usize_saturating_mul :: "nat \<Rightarrow> nat \<Rightarrow> nat" where
  "usize_saturating_mul a b = min usize_max (a * b)"

text \<open>\<open>saturating_sub\<close> on an unsigned integer is the truncated subtraction of \<open>nat\<close>.\<close>

definition saturating_sub :: "nat \<Rightarrow> nat \<Rightarrow> nat" where
  "saturating_sub a b = a - b"

definition div_ceil :: "nat \<Rightarrow> nat \<Rightarrow> nat" where
  "div_ceil a b = (a + b - 1) div b"

lemma u64_checked_add_Some:
  "u64_checked_add a b = Some c \<longleftrightarrow> c = a + b \<and> a + b \<le> u64_max"
  by (auto simp: u64_checked_add_def)

lemma usize_saturating_add_id: "a + b \<le> usize_max \<Longrightarrow> usize_saturating_add a b = a + b"
  by (simp add: usize_saturating_add_def)

lemma u64_saturating_add_mono: "a \<le> u64_max \<Longrightarrow> a \<le> u64_saturating_add a b"
  by (simp add: u64_saturating_add_def)

lemma u64_saturating_add_bound: "u64_saturating_add a b \<le> u64_max"
  by (simp add: u64_saturating_add_def)

section \<open>Strings\<close>

type_synonym rchar = nat
type_synonym rstr = "nat list"

text \<open>A source literal: its ASCII characters as scalar values.\<close>

definition lit :: "string \<Rightarrow> rstr" where
  "lit s = map of_char s"

lemma lit_Nil [simp]: "lit [] = []"
  by (simp add: lit_def)

lemma lit_Cons: "lit (c # cs) = of_char c # lit cs"
  by (simp add: lit_def)

lemma lit_append: "lit (s @ t) = lit s @ lit t"
  by (simp add: lit_def)

lemma lit_inject: "lit s = lit t \<longleftrightarrow> s = t"
proof
  assume "lit s = lit t"
  then show "s = t"
    unfolding lit_def by (rule map_injective) (auto intro: injI)
qed simp

lemma lit_empty_iff [simp]: "lit s = [] \<longleftrightarrow> s = []" "[] = lit s \<longleftrightarrow> s = []"
  by (auto simp: lit_def)

definition utf8_len :: "rchar \<Rightarrow> nat" where
  "utf8_len c = (if c < 128 then 1 else if c < 2048 then 2 else if c < 65536 then 3 else 4)"

text \<open>\<open>str::len\<close>: the number of UTF-8 bytes.\<close>

definition str_len :: "rstr \<Rightarrow> nat" where
  "str_len s = sum_list (map utf8_len s)"

lemma utf8_len_pos [simp]: "0 < utf8_len c"
  by (simp add: utf8_len_def)

lemma utf8_len_ge1 [simp]: "Suc 0 \<le> utf8_len c"
  by (simp add: utf8_len_def)

lemma utf8_len_le4: "utf8_len c \<le> 4"
  by (simp add: utf8_len_def)

lemma utf8_len_ascii: "c < 128 \<Longrightarrow> utf8_len c = 1"
  by (simp add: utf8_len_def)

lemma str_len_Nil [simp]: "str_len [] = 0"
  by (simp add: str_len_def)

lemma str_len_Cons [simp]: "str_len (c # s) = utf8_len c + str_len s"
  by (simp add: str_len_def)

lemma str_len_append [simp]: "str_len (s @ t) = str_len s + str_len t"
  by (simp add: str_len_def)

lemma str_len_eq_0 [simp]: "str_len s = 0 \<longleftrightarrow> s = []"
  by (cases s) auto

lemma length_le_str_len: "length s \<le> str_len s"
proof (induction s)
  case (Cons c s)
  from add_mono [OF utf8_len_ge1 [of c] Cons] show ?case by simp
qed simp

lemma str_len_ascii: "list_all (\<lambda>c. c < 128) s \<Longrightarrow> str_len s = length s"
  by (induction s) (auto simp: utf8_len_ascii)

text \<open>\<open>str::is_char_boundary\<close>: the byte offsets between characters and at the two ends.\<close>

fun is_char_boundary :: "rstr \<Rightarrow> nat \<Rightarrow> bool" where
  "is_char_boundary [] n = (n = 0)"
| "is_char_boundary (c # cs) n =
     (n = 0 \<or> utf8_len c \<le> n \<and> is_char_boundary cs (n - utf8_len c))"

lemma is_char_boundary_split:
  "is_char_boundary s n \<longleftrightarrow> (\<exists>a b. s = a @ b \<and> str_len a = n)"
proof (induction s arbitrary: n)
  case (Cons c cs)
  show ?case
  proof
    assume "is_char_boundary (c # cs) n"
    then consider "n = 0" | "utf8_len c \<le> n" "is_char_boundary cs (n - utf8_len c)" by auto
    then show "\<exists>a b. c # cs = a @ b \<and> str_len a = n"
    proof cases
      case 1
      then show ?thesis by (intro exI [of _ "[]"] exI [of _ "c # cs"]) simp
    next
      case 2
      then obtain a b where "cs = a @ b" "str_len a = n - utf8_len c" using Cons.IH by blast
      with 2(1) show ?thesis by (intro exI [of _ "c # a"] exI [of _ b]) simp
    qed
  next
    assume "\<exists>a b. c # cs = a @ b \<and> str_len a = n"
    then obtain a b where ab: "c # cs = a @ b" "str_len a = n" by blast
    show "is_char_boundary (c # cs) n"
    proof (cases a)
      case Nil
      with ab(2) have "n = 0" by simp
      then show ?thesis by simp
    next
      case (Cons d a')
      with ab have "cs = a' @ b" "str_len a' = n - utf8_len c" "utf8_len c \<le> n" by auto
      with Cons.IH show ?thesis by auto
    qed
  qed
qed auto

lemma is_char_boundary_le: "is_char_boundary s n \<Longrightarrow> n \<le> str_len s"
  by (auto simp: is_char_boundary_split)

text \<open>\<open>char::is_whitespace\<close>: the Unicode property \<open>White_Space\<close>.\<close>

definition is_whitespace :: "rchar \<Rightarrow> bool" where
  "is_whitespace c \<longleftrightarrow>
     9 \<le> c \<and> c \<le> 13 \<or> c = 32 \<or> c = 133 \<or> c = 160 \<or> c = 5760 \<or>
     8192 \<le> c \<and> c \<le> 8202 \<or> c = 8232 \<or> c = 8233 \<or> c = 8239 \<or> c = 8287 \<or> c = 12288"

text \<open>\<open>char::is_control\<close>: the general category \<open>Cc\<close>.\<close>

definition is_control :: "rchar \<Rightarrow> bool" where
  "is_control c \<longleftrightarrow> c < 32 \<or> 127 \<le> c \<and> c \<le> 159"

definition is_ascii_lowercase :: "rchar \<Rightarrow> bool" where
  "is_ascii_lowercase c \<longleftrightarrow> 97 \<le> c \<and> c \<le> 122"

definition is_ascii_uppercase :: "rchar \<Rightarrow> bool" where
  "is_ascii_uppercase c \<longleftrightarrow> 65 \<le> c \<and> c \<le> 90"

definition is_ascii_digit :: "rchar \<Rightarrow> bool" where
  "is_ascii_digit c \<longleftrightarrow> 48 \<le> c \<and> c \<le> 57"

definition is_ascii_alphanumeric :: "rchar \<Rightarrow> bool" where
  "is_ascii_alphanumeric c \<longleftrightarrow>
     is_ascii_digit c \<or> is_ascii_lowercase c \<or> is_ascii_uppercase c"

definition to_ascii_lowercase :: "rchar \<Rightarrow> rchar" where
  "to_ascii_lowercase c = (if is_ascii_uppercase c then c + 32 else c)"

definition eq_ignore_ascii_case :: "rstr \<Rightarrow> rstr \<Rightarrow> bool" where
  "eq_ignore_ascii_case s t \<longleftrightarrow> map to_ascii_lowercase s = map to_ascii_lowercase t"

definition trim_start :: "rstr \<Rightarrow> rstr" where
  "trim_start s = dropWhile is_whitespace s"

definition trim_end :: "rstr \<Rightarrow> rstr" where
  "trim_end s = rev (dropWhile is_whitespace (rev s))"

definition trim :: "rstr \<Rightarrow> rstr" where
  "trim s = trim_end (trim_start s)"

text \<open>\<open>str::split_whitespace\<close>: the maximal runs of non-whitespace characters.\<close>

fun split_ws_aux :: "rstr \<Rightarrow> rstr \<Rightarrow> rstr list" where
  "split_ws_aux acc [] = (if acc = [] then [] else [rev acc])"
| "split_ws_aux acc (c # cs) =
     (if is_whitespace c
      then (if acc = [] then split_ws_aux [] cs else rev acc # split_ws_aux [] cs)
      else split_ws_aux (c # acc) cs)"

definition split_whitespace :: "rstr \<Rightarrow> rstr list" where
  "split_whitespace s = split_ws_aux [] s"

text \<open>\<open>str::split_once\<close> at the first occurrence of a character.\<close>

fun split_once :: "rchar \<Rightarrow> rstr \<Rightarrow> (rstr \<times> rstr) option" where
  "split_once d [] = None"
| "split_once d (c # cs) =
     (if c = d then Some ([], cs)
      else map_option (\<lambda>(a, b). (c # a, b)) (split_once d cs))"

fun strip_prefix :: "rstr \<Rightarrow> rstr \<Rightarrow> rstr option" where
  "strip_prefix [] s = Some s"
| "strip_prefix (p # ps) [] = None"
| "strip_prefix (p # ps) (c # cs) = (if p = c then strip_prefix ps cs else None)"

definition strip_suffix :: "rstr \<Rightarrow> rstr \<Rightarrow> rstr option" where
  "strip_suffix p s = map_option rev (strip_prefix (rev p) (rev s))"

definition starts_with :: "rstr \<Rightarrow> rstr \<Rightarrow> bool" where
  "starts_with s p \<longleftrightarrow> strip_prefix p s \<noteq> None"

lemma strip_prefix_Some: "strip_prefix p s = Some r \<longleftrightarrow> s = p @ r"
  by (induction p s rule: strip_prefix.induct) auto

lemma strip_suffix_Some: "strip_suffix p s = Some r \<longleftrightarrow> s = r @ p"
proof -
  have "strip_suffix p s = Some r \<longleftrightarrow> strip_prefix (rev p) (rev s) = Some (rev r)"
    by (auto simp: strip_suffix_def)
  then show ?thesis by (simp add: strip_prefix_Some rev_swap)
qed

lemma split_once_Some:
  "split_once d s = Some (a, b) \<longleftrightarrow> s = a @ d # b \<and> d \<notin> set a"
proof (induction s arbitrary: a)
  case Nil
  then show ?case by simp
next
  case (Cons c cs)
  then show ?case by (cases a) auto
qed

lemma split_ws_aux_word:
  assumes "\<forall>c \<in> set w. \<not> is_whitespace c"
  shows "split_ws_aux acc (w @ s) = split_ws_aux (rev w @ acc) s"
  using assms by (induction w arbitrary: acc) auto

lemma split_ws_aux_fields:
  "f \<in> set (split_ws_aux acc s) \<Longrightarrow> \<forall>c \<in> set acc. \<not> is_whitespace c \<Longrightarrow>
   f \<noteq> [] \<and> (\<forall>c \<in> set f. \<not> is_whitespace c)"
proof (induction acc s rule: split_ws_aux.induct)
  case (1 acc)
  then show ?case by (cases "acc = []") simp_all
next
  case (2 acc c cs)
  note IHs = 2(1-3) and f = 2(4) and acc = 2(5)
  show ?case
  proof (cases "is_whitespace c")
    case ws: True
    show ?thesis
    proof (cases "acc = []")
      case True
      with ws f have "f \<in> set (split_ws_aux [] cs)" by simp
      then show ?thesis by (rule IHs(1) [OF ws True]) simp
    next
      case False
      with ws f consider "f = rev acc" | "f \<in> set (split_ws_aux [] cs)" by auto
      then show ?thesis
      proof cases
        case 1
        with False acc show ?thesis by simp
      next
        case 2
        then show ?thesis by (rule IHs(2) [OF ws False]) simp
      qed
    qed
  next
    case False
    with f have "f \<in> set (split_ws_aux (c # acc) cs)" by simp
    then show ?thesis by (rule IHs(3) [OF False]) (use False acc in simp)
  qed
qed

lemma split_whitespace_fields:
  "f \<in> set (split_whitespace s) \<Longrightarrow> f \<noteq> [] \<and> (\<forall>c \<in> set f. \<not> is_whitespace c)"
  unfolding split_whitespace_def by (rule split_ws_aux_fields) auto

lemma trim_id:
  assumes "s = [] \<or> \<not> is_whitespace (hd s) \<and> \<not> is_whitespace (last s)"
  shows "trim s = s"
proof (cases "s = []")
  case True
  then show ?thesis by (simp add: trim_def trim_start_def trim_end_def)
next
  case False
  with assms have "dropWhile is_whitespace s = s" by (cases s) auto
  moreover have "dropWhile is_whitespace (rev s) = rev s"
    using False assms by (cases s rule: rev_cases) auto
  ultimately show ?thesis by (simp add: trim_def trim_start_def trim_end_def)
qed

section \<open>Decimal integers\<close>

definition digit_value :: "rchar \<Rightarrow> nat" where
  "digit_value c = c - 48"

fun decimal_value :: "nat \<Rightarrow> rstr \<Rightarrow> nat" where
  "decimal_value acc [] = acc"
| "decimal_value acc (c # cs) = decimal_value (10 * acc + digit_value c) cs"

text \<open>
  \<open>str::parse::<u64>()\<close> and its narrower forms: one optional plus sign, at least one digit,
  digits only, and the value within the type.
\<close>

definition strip_plus :: "rstr \<Rightarrow> rstr" where
  "strip_plus s = (case s of c # cs \<Rightarrow> if c = 43 then cs else s | [] \<Rightarrow> [])"

definition parse_unsigned :: "nat \<Rightarrow> rstr \<Rightarrow> nat option" where
  "parse_unsigned bound s =
     (let ds = strip_plus s
      in if ds = [] \<or> \<not> list_all is_ascii_digit ds then None
         else if decimal_value 0 ds \<le> bound then Some (decimal_value 0 ds) else None)"

definition parse_u64 :: "rstr \<Rightarrow> nat option" where
  "parse_u64 = parse_unsigned u64_max"

definition parse_u32 :: "rstr \<Rightarrow> nat option" where
  "parse_u32 = parse_unsigned u32_max"

definition parse_u8 :: "rstr \<Rightarrow> nat option" where
  "parse_u8 = parse_unsigned 255"

text \<open>\<open>Display\<close> of an unsigned integer.\<close>

fun show_nat :: "nat \<Rightarrow> rstr" where
  "show_nat n = (if n < 10 then [48 + n] else show_nat (n div 10) @ [48 + n mod 10])"

declare show_nat.simps [simp del]

lemma decimal_value_snoc: "decimal_value acc (ds @ [c]) = 10 * decimal_value acc ds + digit_value c"
  by (induction ds arbitrary: acc) auto

lemma show_nat_digits: "list_all is_ascii_digit (show_nat n) \<and> show_nat n \<noteq> []"
proof (induction n rule: show_nat.induct)
  case (1 n)
  have d: "is_ascii_digit (48 + n mod 10)" by (simp add: is_ascii_digit_def)
  show ?case
  proof (cases "n < 10")
    case True
    then show ?thesis by (simp add: show_nat.simps [of n] is_ascii_digit_def)
  next
    case False
    with 1 d show ?thesis by (simp add: show_nat.simps [of n])
  qed
qed

lemma decimal_value_show: "decimal_value 0 (show_nat n) = n"
proof (induction n rule: show_nat.induct)
  case (1 n)
  show ?case
  proof (cases "n < 10")
    case True
    then show ?thesis by (subst show_nat.simps) (simp add: digit_value_def)
  next
    case False
    with 1 have "decimal_value 0 (show_nat (n div 10)) = n div 10" by simp
    with False show ?thesis
      by (subst show_nat.simps) (simp add: decimal_value_snoc digit_value_def)
  qed
qed

lemma parse_unsigned_show: "n \<le> bound \<Longrightarrow> parse_unsigned bound (show_nat n) = Some n"
proof -
  have "strip_plus (show_nat n) = show_nat n"
    using show_nat_digits [of n]
    by (cases "show_nat n") (auto simp: strip_plus_def is_ascii_digit_def)
  then show "n \<le> bound \<Longrightarrow> ?thesis"
    using show_nat_digits [of n] by (simp add: parse_unsigned_def decimal_value_show)
qed

lemma parse_unsigned_bound: "parse_unsigned bound s = Some n \<Longrightarrow> n \<le> bound"
  by (auto simp: parse_unsigned_def Let_def split: if_splits)

end
