(* ===== verification/Interfaces.thy ===== *)
theory Interfaces
  imports Rust_Prelude
begin

text \<open>
  The contracts several components share, as locales. A component's theory interprets the ones
  it provides on its own definitions, and its properties rest on the interpreted lemmas.

  \<^item> \<open>invariant_machine\<close>: operations that keep a well-formedness invariant, so every run does.
  \<^item> \<open>clocked_machine\<close>: a generation counter that no operation turns back.
  \<^item> \<open>generation_gate\<close>: registration keyed by a client generation, with idempotent retries.
\<close>

locale invariant_machine =
  fixes step :: "'op \<Rightarrow> 's \<Rightarrow> 's"
    and inv :: "'s \<Rightarrow> bool"
  assumes inv_step: "inv s \<Longrightarrow> inv (step op s)"
begin

lemma inv_run: "inv s \<Longrightarrow> inv (fold step ops s)"
  by (induction ops arbitrary: s) (auto intro: inv_step)

end

locale clocked_machine =
  fixes step :: "'op \<Rightarrow> 's \<Rightarrow> 's"
    and clock :: "'s \<Rightarrow> nat"
  assumes clock_step: "clock s \<le> clock (step op s)"
begin

lemma clock_run: "clock s \<le> clock (fold step ops s)"
proof (induction ops arbitrary: s)
  case (Cons op ops)
  have "clock s \<le> clock (step op s)" by (rule clock_step)
  also have "\<dots> \<le> clock (fold step ops (step op s))" by (rule Cons.IH)
  finally show ?case by simp
qed simp

lemma clock_run_prefix: "clock (fold step xs s) \<le> clock (fold step (xs @ ys) s)"
  by (simp add: clock_run)

end

text \<open>
  A registration replaces the content of a registry when its generation is newer, is refused
  when it is older, and at the current generation is accepted only with the same content.
\<close>

locale generation_gate =
  fixes register :: "nat \<Rightarrow> 'p \<Rightarrow> 's \<Rightarrow> 'e + 's"
    and generation :: "'s \<Rightarrow> nat"
    and configured :: "'s \<Rightarrow> bool"
    and content :: "'s \<Rightarrow> 'c"
  assumes not_older: "register g p s = Inr s' \<Longrightarrow> generation s \<le> g \<and> generation s' = g"
    and stays_configured: "register g p s = Inr s' \<Longrightarrow> configured s'"
    and same_generation:
      "register g p s = Inr s' \<Longrightarrow> configured s \<Longrightarrow> generation s = g \<Longrightarrow> content s' = content s"
begin

definition deliver :: "'s \<Rightarrow> nat \<times> 'p \<Rightarrow> 's" where
  "deliver s r = (case register (fst r) (snd r) s of Inl e \<Rightarrow> s | Inr s' \<Rightarrow> s')"

lemma deliver_induct:
  "Q s \<Longrightarrow> (\<And>s'. register (fst r) (snd r) s = Inr s' \<Longrightarrow> Q s') \<Longrightarrow> Q (deliver s r)"
  by (simp add: deliver_def split: sum.split)

lemma deliver_generation: "generation s \<le> generation (deliver s r)"
  by (auto simp: deliver_def split: sum.splits dest: not_older)

lemma deliver_configured: "configured s \<Longrightarrow> configured (deliver s r)"
  by (auto simp: deliver_def split: sum.splits dest: stays_configured)

lemma deliver_same_generation:
  assumes "configured s" "generation (deliver s r) = generation s"
  shows "content (deliver s r) = content s"
proof (cases "register (fst r) (snd r) s")
  case (Inl e)
  then show ?thesis by (simp add: deliver_def)
next
  case (Inr s')
  with assms(2) have "generation s' = generation s" by (simp add: deliver_def)
  with not_older [OF Inr] same_generation [OF Inr assms(1)] Inr show ?thesis
    by (simp add: deliver_def)
qed

lemma run_generation: "generation s \<le> generation (foldl deliver s rs)"
proof (induction rs arbitrary: s)
  case (Cons r rs)
  from deliver_generation [of s r] Cons.IH [of "deliver s r"] show ?case
    by (simp del: One_nat_def)
qed simp

lemma run_configured: "configured s \<Longrightarrow> configured (foldl deliver s rs)"
  by (induction rs arbitrary: s) (auto intro: deliver_configured)

text \<open>While the generation stands still, so does the content.\<close>

lemma run_same_generation:
  "configured s \<Longrightarrow> generation (foldl deliver s rs) = generation s \<Longrightarrow>
   content (foldl deliver s rs) = content s"
proof (induction rs arbitrary: s)
  case (Cons r rs)
  let ?s = "deliver s r"
  have le: "generation s \<le> generation ?s" "generation ?s \<le> generation (foldl deliver ?s rs)"
    by (rule deliver_generation, rule run_generation)
  with Cons.prems(2) have eq: "generation ?s = generation s" by simp
  have "content (foldl deliver ?s rs) = content ?s"
    using Cons.prems eq by (intro Cons.IH deliver_configured) simp_all
  also have "\<dots> = content s" by (rule deliver_same_generation [OF Cons.prems(1) eq])
  finally show ?case by simp
qed simp

text \<open>
  A request that was accepted once changes nothing when it arrives again, whatever was
  delivered in between: it is stale, a conflict, or the content already stored.
\<close>

lemma replay_absorbed:
  assumes "register g p s = Inr s'"
  shows "content (deliver (foldl deliver s' rs) (g, p)) = content (foldl deliver s' rs)"
proof (cases "register g p (foldl deliver s' rs)")
  case (Inl e)
  then show ?thesis by (simp add: deliver_def)
next
  case (Inr s'')
  have "generation s' = g" "configured s'"
    using not_older [OF assms] stays_configured [OF assms] by auto
  then have "generation (foldl deliver s' rs) = g"
    using not_older [OF Inr] run_generation [of s' rs] by simp
  with same_generation [OF Inr run_configured [OF \<open>configured s'\<close>]] Inr show ?thesis
    by (simp add: deliver_def)
qed

end

end
