(* ===== verification/Work_Queue.thy ===== *)
theory Work_Queue
  imports Interfaces "HOL-Library.Multiset" "HOL-Library.Sublist"
begin

text \<open>
  The bounded handoff from the protocol loop to the synthesis worker
  (\<open>omnivox-cli/src/work_queue.rs\<close>). The mutex-protected \<open>QueueState\<close> is a record that every
  operation takes and returns; the trait \<open>BoundedWork\<close> is a record of the four functions the
  queue calls.
\<close>

section \<open>The trait and the queue's types\<close>

record 'w bounded_work =
  queued_payload_bytes :: "'w \<Rightarrow> nat"
  work_generation :: "'w \<Rightarrow> nat"
  is_replaceable :: "'w \<Rightarrow> bool"
  shares_replacement_domain :: "'w \<Rightarrow> 'w \<Rightarrow> bool"

record work_queue_limits =
  max_items :: nat
  max_payload_bytes :: nat

datatype retirement_reason =
  Replaced | EvictedForCapacity | StaleGeneration | Saturated | ReceiverClosed

datatype 'w retired_work = RetiredWork (rw_work: 'w) (rw_reason: retirement_reason)

record 'w enqueue_outcome =
  accepted :: bool
  retired :: "'w retired_work list"

datatype 'w queued_work = QueuedWork (qw_payload_bytes: nat) (qw_work: 'w)

record 'w queue_state =
  entries :: "'w queued_work list"
  payload_bytes :: nat
  sender_closed :: bool
  receiver_alive :: bool

section \<open>Operations\<close>

text \<open>\<open>bounded_work_queue\<close>: both limits are asserted positive (\<open>None\<close> is the panic).\<close>

definition bounded_work_queue :: "work_queue_limits \<Rightarrow> 'w queue_state option" where
  "bounded_work_queue limits =
     (if 0 < max_items limits \<and> 0 < max_payload_bytes limits
      then Some \<lparr>entries = [], payload_bytes = 0, sender_closed = False, receiver_alive = True\<rparr>
      else None)"

definition exceeds_limits :: "nat \<Rightarrow> nat \<Rightarrow> work_queue_limits \<Rightarrow> bool" where
  "exceeds_limits items bytes limits \<longleftrightarrow>
     max_items limits < items \<or> max_payload_bytes limits < bytes"

definition rejected :: "'w \<Rightarrow> retirement_reason \<Rightarrow> 'w enqueue_outcome" where
  "rejected work reason = \<lparr>accepted = False, retired = [RetiredWork work reason]\<rparr>"

text \<open>
  The first loop of \<open>try_send_with_commit\<close> flags every queued member of the new request's
  replacement domain and takes it off the projected totals.
\<close>

fun flag_replaced ::
    "'w bounded_work \<Rightarrow> 'w \<Rightarrow> 'w queued_work list \<Rightarrow> nat \<Rightarrow> nat \<Rightarrow> bool list \<times> nat \<times> nat" where
  "flag_replaced bw work [] items bytes = ([], items, bytes)"
| "flag_replaced bw work (queued # qs) items bytes =
     (if shares_replacement_domain bw work (qw_work queued)
      then let (fs, i, b) = flag_replaced bw work qs (saturating_sub items 1)
                              (saturating_sub bytes (qw_payload_bytes queued))
           in (True # fs, i, b)
      else let (fs, i, b) = flag_replaced bw work qs items bytes in (False # fs, i, b))"

text \<open>
  The second loop, entered only over the limits, flags further replaceable work in queue order
  and breaks as soon as the projection fits.
\<close>

fun flag_evicted ::
    "'w bounded_work \<Rightarrow> work_queue_limits \<Rightarrow> 'w queued_work list \<Rightarrow> bool list \<Rightarrow> nat \<Rightarrow> nat \<Rightarrow>
     bool list \<times> nat \<times> nat" where
  "flag_evicted bw limits (queued # qs) (f # fs) items bytes =
     (if \<not> f \<and> is_replaceable bw (qw_work queued)
      then let items' = saturating_sub items 1;
               bytes' = saturating_sub bytes (qw_payload_bytes queued)
           in if \<not> exceeds_limits items' bytes' limits then (True # fs, items', bytes')
              else let (r, i, b) = flag_evicted bw limits qs fs items' bytes'
                   in (True # r, i, b)
      else let (r, i, b) = flag_evicted bw limits qs fs items bytes in (f # r, i, b))"
| "flag_evicted bw limits _ fs items bytes = (fs, items, bytes)"

definition kept_entries :: "bool list \<Rightarrow> 'w queued_work list \<Rightarrow> 'w queued_work list" where
  "kept_entries fs qs = map snd (filter (\<lambda>p. \<not> fst p) (zip fs qs))"

definition retired_entries ::
    "'w bounded_work \<Rightarrow> 'w \<Rightarrow> bool list \<Rightarrow> 'w queued_work list \<Rightarrow> 'w retired_work list" where
  "retired_entries bw work fs qs =
     map (\<lambda>p. RetiredWork (qw_work (snd p))
                (if shares_replacement_domain bw work (qw_work (snd p)) then Replaced
                 else EvictedForCapacity))
       (filter fst (zip fs qs))"

definition try_send_with_commit ::
    "'w bounded_work \<Rightarrow> work_queue_limits \<Rightarrow> ('w \<Rightarrow> 'w) \<Rightarrow> 'w \<Rightarrow> 'w queue_state \<Rightarrow>
     'w enqueue_outcome \<times> 'w queue_state" where
  "try_send_with_commit bw limits commit work state =
     (let payload = queued_payload_bytes bw work
      in if \<not> receiver_alive state then (rejected work ReceiverClosed, state)
         else if max_payload_bytes limits < payload then (rejected work Saturated, state)
         else
           let (fs1, items1, bytes1) =
                 flag_replaced bw work (entries state)
                   (usize_saturating_add (length (entries state)) 1)
                   (usize_saturating_add (payload_bytes state) payload);
               (fs2, items2, bytes2) =
                 (if exceeds_limits items1 bytes1 limits
                  then flag_evicted bw limits (entries state) fs1 items1 bytes1
                  else (fs1, items1, bytes1))
           in if exceeds_limits items2 bytes2 limits then (rejected work Saturated, state)
              else (\<lparr>accepted = True, retired = retired_entries bw work fs2 (entries state)\<rparr>,
                    state\<lparr>entries := kept_entries fs2 (entries state) @
                                      [QueuedWork payload (commit work)],
                          payload_bytes := bytes2\<rparr>))"

definition retire_before_generation ::
    "'w bounded_work \<Rightarrow> nat \<Rightarrow> 'w queue_state \<Rightarrow> 'w retired_work list \<times> 'w queue_state" where
  "retire_before_generation bw minimum state =
     (let stale = (\<lambda>q. work_generation bw (qw_work q) < minimum);
          kept = filter (\<lambda>q. \<not> stale q) (entries state)
      in (map (\<lambda>q. RetiredWork (qw_work q) StaleGeneration) (filter stale (entries state)),
          state\<lparr>entries := kept,
                payload_bytes :=
                  foldl (\<lambda>b q. usize_saturating_add b (qw_payload_bytes q)) 0 kept\<rparr>))"

text \<open>
  One pass of the loop of \<open>recv\<close>: \<open>Waiting\<close> is the condition-variable wait, after which
  the loop looks again at whatever the queue then holds.
\<close>

datatype 'w recv_result = Received 'w | Disconnected | Waiting

definition recv :: "'w queue_state \<Rightarrow> 'w recv_result \<times> 'w queue_state" where
  "recv state =
     (case entries state of
        queued # qs \<Rightarrow>
          (Received (qw_work queued),
           state\<lparr>entries := qs,
                 payload_bytes := saturating_sub (payload_bytes state) (qw_payload_bytes queued)\<rparr>)
      | [] \<Rightarrow> if sender_closed state then (Disconnected, state) else (Waiting, state))"

definition drop_sender :: "'w queue_state \<Rightarrow> 'w queue_state" where
  "drop_sender state = state\<lparr>sender_closed := True\<rparr>"

definition drop_receiver :: "'w queue_state \<Rightarrow> 'w queue_state" where
  "drop_receiver state = state\<lparr>receiver_alive := False\<rparr>"

datatype 'w queue_op =
  TrySend "'w \<Rightarrow> 'w" 'w | RetireBefore nat | Recv | DropSender | DropReceiver

fun queue_step ::
    "'w bounded_work \<Rightarrow> work_queue_limits \<Rightarrow> 'w queue_op \<Rightarrow> 'w queue_state \<Rightarrow> 'w queue_state" where
  "queue_step bw limits (TrySend commit work) s = snd (try_send_with_commit bw limits commit work s)"
| "queue_step bw limits (RetireBefore g) s = snd (retire_before_generation bw g s)"
| "queue_step bw limits Recv s = snd (recv s)"
| "queue_step bw limits DropSender s = drop_sender s"
| "queue_step bw limits DropReceiver s = drop_receiver s"

section \<open>The flag passes\<close>

definition total_bytes :: "'w queued_work list \<Rightarrow> nat" where
  "total_bytes qs = sum_list (map qw_payload_bytes qs)"

lemma total_bytes_simps [simp]:
  "total_bytes [] = 0"
  "total_bytes (q # qs) = qw_payload_bytes q + total_bytes qs"
  "total_bytes (xs @ ys) = total_bytes xs + total_bytes ys"
  by (simp_all add: total_bytes_def)

lemma kept_entries_simps [simp]:
  "kept_entries [] qs = []"
  "kept_entries fs [] = []"
  "kept_entries (f # fs) (q # qs) = (if f then kept_entries fs qs else q # kept_entries fs qs)"
  by (simp_all add: kept_entries_def)

lemma retired_entries_simps [simp]:
  "retired_entries bw w [] qs = []"
  "retired_entries bw w fs [] = []"
  "retired_entries bw w (f # fs) (q # qs) =
     (if f then RetiredWork (qw_work q)
                  (if shares_replacement_domain bw w (qw_work q) then Replaced
                   else EvictedForCapacity) # retired_entries bw w fs qs
      else retired_entries bw w fs qs)"
  by (simp_all add: retired_entries_def)

lemma kept_entries_subseq: "length fs = length qs \<Longrightarrow> subseq (kept_entries fs qs) qs"
  by (induction fs qs rule: list_induct2) auto

lemma kept_retired_mset:
  "length fs = length qs \<Longrightarrow>
   mset (map qw_work qs) =
     mset (map qw_work (kept_entries fs qs)) + mset (map rw_work (retired_entries bw w fs qs))"
  by (induction fs qs rule: list_induct2) auto

lemma kept_entries_map: "kept_entries (map P qs) qs = filter (\<lambda>q. \<not> P q) qs"
  by (induction qs) auto

lemma flag_replaced_eq:
  "flag_replaced bw work qs (length qs + k) (total_bytes qs + p) =
     (map (\<lambda>q. shares_replacement_domain bw work (qw_work q)) qs,
      length (filter (\<lambda>q. \<not> shares_replacement_domain bw work (qw_work q)) qs) + k,
      total_bytes (filter (\<lambda>q. \<not> shares_replacement_domain bw work (qw_work q)) qs) + p)"
proof (induction qs arbitrary: k p)
  case (Cons q qs)
  from Cons.IH [of k p] Cons.IH [of "Suc k" "qw_payload_bytes q + p"] show ?case
    by (auto simp: saturating_sub_def ac_simps)
qed simp

text \<open>
  The second pass keeps the projection equal to what stays, flags replaceable work only, and
  ends either within the limits or with every replaceable entry flagged.
\<close>

fun flags_refine :: "('w \<Rightarrow> bool) \<Rightarrow> bool list \<Rightarrow> bool list \<Rightarrow> 'w queued_work list \<Rightarrow> bool" where
  "flags_refine P [] [] [] = True"
| "flags_refine P (f # fs) (f' # fs') (q # qs) =
     ((f' = f \<or> f' \<and> P (qw_work q)) \<and> flags_refine P fs fs' qs)"
| "flags_refine P _ _ _ = False"

lemma flags_refine_refl: "length fs = length qs \<Longrightarrow> flags_refine P fs fs qs"
  by (induction fs qs rule: list_induct2) auto

lemma flags_refine_length: "flags_refine P fs fs' qs \<Longrightarrow> length fs' = length qs \<and> length fs = length qs"
  by (induction P fs fs' qs rule: flags_refine.induct) auto

definition eviction_result ::
    "'w bounded_work \<Rightarrow> work_queue_limits \<Rightarrow> 'w queued_work list \<Rightarrow> bool list \<Rightarrow> nat \<Rightarrow> nat \<Rightarrow>
     bool list \<times> nat \<times> nat \<Rightarrow> bool" where
  "eviction_result bw limits qs fs k p r \<longleftrightarrow>
     (case r of (fs', i, b) \<Rightarrow>
        flags_refine (is_replaceable bw) fs fs' qs \<and>
        i = length (kept_entries fs' qs) + k \<and>
        b = total_bytes (kept_entries fs' qs) + p \<and>
        (\<not> exceeds_limits i b limits \<or>
         kept_entries fs' qs =
           filter (\<lambda>q. \<not> is_replaceable bw (qw_work q)) (kept_entries fs qs)))"

lemmas eviction_simps = eviction_result_def prod.case flags_refine.simps kept_entries_simps
  if_True if_False filter.simps simp_thms total_bytes_simps length_Cons add_Suc add_Suc_right

lemma eviction_result_flagged:
  "eviction_result bw limits qs fs k p (r, i, b) \<Longrightarrow>
   eviction_result bw limits (q # qs) (True # fs) k p (True # r, i, b)"
  by (auto simp only: eviction_simps)

lemma eviction_result_protected:
  "\<not> is_replaceable bw (qw_work q) \<Longrightarrow>
   eviction_result bw limits qs fs (Suc k) (qw_payload_bytes q + p) (r, i, b) \<Longrightarrow>
   eviction_result bw limits (q # qs) (False # fs) k p (False # r, i, b)"
  by (auto simp only: eviction_simps ac_simps)

lemma eviction_result_evicted:
  "is_replaceable bw (qw_work q) \<Longrightarrow> eviction_result bw limits qs fs k p (r, i, b) \<Longrightarrow>
   eviction_result bw limits (q # qs) (False # fs) k p (True # r, i, b)"
  by (auto simp only: eviction_simps)

lemma eviction_resultD:
  assumes "eviction_result bw limits qs fs k p (fs', i, b)"
  shows "flags_refine (is_replaceable bw) fs fs' qs"
    and "i = length (kept_entries fs' qs) + k"
    and "b = total_bytes (kept_entries fs' qs) + p"
    and "exceeds_limits i b limits \<Longrightarrow>
         kept_entries fs' qs =
           filter (\<lambda>q. \<not> is_replaceable bw (qw_work q)) (kept_entries fs qs)"
  using assms by (auto simp only: eviction_result_def prod.case)

lemma eviction_result_fits:
  "length fs = length qs \<Longrightarrow>
   \<not> exceeds_limits (length (kept_entries fs qs) + k) (total_bytes (kept_entries fs qs) + p) limits \<Longrightarrow>
   eviction_result bw limits qs fs k p
     (fs, length (kept_entries fs qs) + k, total_bytes (kept_entries fs qs) + p)"
  by (simp add: eviction_result_def flags_refine_refl)

lemma flag_evicted_result:
  "length fs = length qs \<Longrightarrow>
   eviction_result bw limits qs fs k p
     (flag_evicted bw limits qs fs (length (kept_entries fs qs) + k)
        (total_bytes (kept_entries fs qs) + p))"
proof (induction fs qs arbitrary: k p rule: list_induct2)
  case Nil
  then show ?case by (simp add: eviction_result_def)
next
  case (Cons f fs q qs)
  let ?n = "length (kept_entries fs qs)" and ?t = "total_bytes (kept_entries fs qs)"
  obtain r i b where e: "flag_evicted bw limits qs fs (?n + k) (?t + p) = (r, i, b)"
    using prod_cases3 by blast
  obtain r' i' b' where e':
      "flag_evicted bw limits qs fs (?n + Suc k) (?t + (qw_payload_bytes q + p)) = (r', i', b')"
    using prod_cases3 by blast
  note ih = Cons.IH [of k p, unfolded e]
    and ih' = Cons.IH [of "Suc k" "qw_payload_bytes q + p", unfolded e']
  show ?case
  proof (cases f)
    case True
    with e eviction_result_flagged [OF ih] show ?thesis by simp
  next
    case f: False
    show ?thesis
    proof (cases "is_replaceable bw (qw_work q)")
      case False
      have "?n + Suc k = Suc (?n + k)" "?t + (qw_payload_bytes q + p) = qw_payload_bytes q + ?t + p"
        by simp_all
      with f False e' eviction_result_protected [OF False ih'] show ?thesis by simp
    next
      case True
      note fits = eviction_result_evicted [OF True eviction_result_fits [OF Cons.hyps]]
      have "saturating_sub (Suc ?n + k) 1 = ?n + k"
        "saturating_sub (qw_payload_bytes q + ?t + p) (qw_payload_bytes q) = ?t + p"
        by (simp_all add: saturating_sub_def)
      with f True e eviction_result_evicted [OF True ih] fits show ?thesis
        by (simp add: Let_def)
    qed
  qed
qed

section \<open>Well-formed queues\<close>

text \<open>
  The bounds the constructor and the call sites establish: positive limits, and limits small
  enough that the projected totals do not saturate (the server's are 32 items and 32 MiB).
\<close>

definition limits_ok :: "work_queue_limits \<Rightarrow> bool" where
  "limits_ok limits \<longleftrightarrow>
     0 < max_items limits \<and> 0 < max_payload_bytes limits \<and>
     max_items limits < usize_max \<and> 2 * max_payload_bytes limits \<le> usize_max"

definition queue_inv :: "work_queue_limits \<Rightarrow> 'w queue_state \<Rightarrow> bool" where
  "queue_inv limits st \<longleftrightarrow>
     payload_bytes st = total_bytes (entries st) \<and>
     length (entries st) \<le> max_items limits \<and>
     payload_bytes st \<le> max_payload_bytes limits"

lemma subseq_subset: "subseq xs ys \<Longrightarrow> set xs \<subseteq> set ys"
  by (induction rule: list_emb.induct) auto

lemma total_bytes_subseq: "subseq xs ys \<Longrightarrow> total_bytes xs \<le> total_bytes ys"
  by (induction rule: list_emb.induct) auto

lemma flags_refine_protected:
  "flags_refine P fs fs' qs \<Longrightarrow>
   subseq (filter (\<lambda>q. \<not> P (qw_work q)) (kept_entries fs qs)) (kept_entries fs' qs)"
  by (induction P fs fs' qs rule: flags_refine.induct) auto

lemma flags_refine_kept:
  "flags_refine P fs fs' qs \<Longrightarrow> subseq (kept_entries fs' qs) (kept_entries fs qs)"
  by (induction P fs fs' qs rule: flags_refine.induct) auto

lemma retired_entries_reason:
  assumes "flags_refine (is_replaceable bw) fs fs' qs"
    and "fs = map (\<lambda>q. shares_replacement_domain bw work (qw_work q)) qs"
    and "r \<in> set (retired_entries bw work fs' qs)"
  shows "rw_reason r = Replaced \<and> shares_replacement_domain bw work (rw_work r) \<or>
         rw_reason r = EvictedForCapacity \<and> is_replaceable bw (rw_work r) \<and>
           \<not> shares_replacement_domain bw work (rw_work r)"
  using assms
proof (induction "is_replaceable bw" fs fs' qs rule: flags_refine.induct)
  case (2 f fs f' fs' q qs)
  then show ?case by (cases f') auto
qed auto

text \<open>What the two passes compute: one case for admission and for a full queue.\<close>

lemma try_send_admission:
  assumes inv: "queue_inv limits st" and ok: "limits_ok limits"
    and alive: "receiver_alive st"
    and fits: "queued_payload_bytes bw work \<le> max_payload_bytes limits"
  obtains fs i b where
    "eviction_result bw limits (entries st)
       (map (\<lambda>q. shares_replacement_domain bw work (qw_work q)) (entries st)) 1
       (queued_payload_bytes bw work) (fs, i, b)"
    and "try_send_with_commit bw limits commit work st =
       (if exceeds_limits i b limits then (rejected work Saturated, st)
        else (\<lparr>accepted = True, retired = retired_entries bw work fs (entries st)\<rparr>,
              st\<lparr>entries := kept_entries fs (entries st) @
                               [QueuedWork (queued_payload_bytes bw work) (commit work)],
                 payload_bytes := b\<rparr>))"
proof -
  let ?qs = "entries st" and ?p = "queued_payload_bytes bw work"
  let ?fs1 = "map (\<lambda>q. shares_replacement_domain bw work (qw_work q)) ?qs"
  let ?kept = "kept_entries ?fs1 ?qs"
  have sat: "usize_saturating_add (length ?qs) 1 = length ?qs + 1"
    "usize_saturating_add (payload_bytes st) ?p = total_bytes ?qs + ?p"
    using inv ok fits by (auto simp: usize_saturating_add_def queue_inv_def limits_ok_def)
  have first: "flag_replaced bw work ?qs (usize_saturating_add (length ?qs) 1)
      (usize_saturating_add (payload_bytes st) ?p) =
      (?fs1, length ?kept + 1, total_bytes ?kept + ?p)"
    unfolding sat flag_replaced_eq kept_entries_map ..
  obtain fs i b where second:
    "(if exceeds_limits (length ?kept + 1) (total_bytes ?kept + ?p) limits
      then flag_evicted bw limits ?qs ?fs1 (length ?kept + 1) (total_bytes ?kept + ?p)
      else (?fs1, length ?kept + 1, total_bytes ?kept + ?p)) = (fs, i, b)"
    using prod_cases3 by blast
  have "eviction_result bw limits ?qs ?fs1 1 ?p (fs, i, b)"
  proof (cases "exceeds_limits (length ?kept + 1) (total_bytes ?kept + ?p) limits")
    case True
    with second have "flag_evicted bw limits ?qs ?fs1 (length ?kept + 1) (total_bytes ?kept + ?p) =
        (fs, i, b)" by (simp only: if_True)
    then show ?thesis using flag_evicted_result [of ?fs1 ?qs bw limits 1 ?p] by (simp only: length_map)
  next
    case False
    with second have "(fs, i, b) = (?fs1, length ?kept + 1, total_bytes ?kept + ?p)"
      by (simp only: if_False)
    then show ?thesis using eviction_result_fits [OF _ False, of bw] by (simp only: length_map)
  qed
  moreover have "try_send_with_commit bw limits commit work st =
       (if exceeds_limits i b limits then (rejected work Saturated, st)
        else (\<lparr>accepted = True, retired = retired_entries bw work fs ?qs\<rparr>,
              st\<lparr>entries := kept_entries fs ?qs @ [QueuedWork ?p (commit work)],
                 payload_bytes := b\<rparr>))"
    using alive fits second unfolding try_send_with_commit_def Let_def first
    by (simp del: One_nat_def add_Suc_right)
  ultimately show thesis by (rule that)
qed

lemma try_send_closed:
  "\<not> receiver_alive st \<Longrightarrow>
   try_send_with_commit bw limits commit work st = (rejected work ReceiverClosed, st)"
  by (simp add: try_send_with_commit_def)

lemma try_send_oversized:
  "receiver_alive st \<Longrightarrow> max_payload_bytes limits < queued_payload_bytes bw work \<Longrightarrow>
   try_send_with_commit bw limits commit work st = (rejected work Saturated, st)"
  by (simp add: try_send_with_commit_def)

lemma try_send_inv:
  assumes "limits_ok limits" "queue_inv limits st"
  shows "queue_inv limits (snd (try_send_with_commit bw limits commit work st))"
proof (cases "receiver_alive st \<and> queued_payload_bytes bw work \<le> max_payload_bytes limits")
  case False
  with assms show ?thesis
    by (cases "receiver_alive st") (simp_all add: try_send_closed try_send_oversized)
next
  case True
  then obtain fs i b where
    ev: "eviction_result bw limits (entries st)
       (map (\<lambda>q. shares_replacement_domain bw work (qw_work q)) (entries st)) 1
       (queued_payload_bytes bw work) (fs, i, b)"
    and send: "try_send_with_commit bw limits commit work st =
       (if exceeds_limits i b limits then (rejected work Saturated, st)
        else (\<lparr>accepted = True, retired = retired_entries bw work fs (entries st)\<rparr>,
              st\<lparr>entries := kept_entries fs (entries st) @
                               [QueuedWork (queued_payload_bytes bw work) (commit work)],
                 payload_bytes := b\<rparr>))"
    using try_send_admission [OF assms(2,1)] by blast
  from eviction_resultD(2,3) [OF ev] assms send show ?thesis
    by (auto simp: queue_inv_def exceeds_limits_def)
qed

lemma foldl_saturating_total:
  "b + total_bytes qs \<le> usize_max \<Longrightarrow>
   foldl (\<lambda>b q. usize_saturating_add b (qw_payload_bytes q)) b qs = b + total_bytes qs"
  by (induction qs arbitrary: b) (auto simp: usize_saturating_add_def)

lemma retire_before_payload:
  assumes "limits_ok limits" "queue_inv limits st"
  shows "payload_bytes (snd (retire_before_generation bw g st)) =
         total_bytes (filter (\<lambda>q. \<not> work_generation bw (qw_work q) < g) (entries st))"
proof -
  let ?kept = "filter (\<lambda>q. \<not> work_generation bw (qw_work q) < g) (entries st)"
  have "total_bytes ?kept \<le> total_bytes (entries st)"
    by (rule total_bytes_subseq) (rule subseq_filter_left)
  with assms foldl_saturating_total [of 0 ?kept] show ?thesis
    by (simp add: retire_before_generation_def Let_def queue_inv_def limits_ok_def)
qed

lemma retire_before_inv:
  assumes "limits_ok limits" "queue_inv limits st"
  shows "queue_inv limits (snd (retire_before_generation bw g st))"
proof -
  let ?kept = "filter (\<lambda>q. \<not> work_generation bw (qw_work q) < g) (entries st)"
  have "total_bytes ?kept \<le> total_bytes (entries st)"
    by (rule total_bytes_subseq) (rule subseq_filter_left)
  moreover have "length ?kept \<le> max_items limits"
    using assms(2) length_filter_le order_trans unfolding queue_inv_def by blast
  moreover have "entries (snd (retire_before_generation bw g st)) = ?kept"
    by (simp add: retire_before_generation_def Let_def)
  ultimately show ?thesis
    using assms(2) retire_before_payload [OF assms, of bw g] by (simp add: queue_inv_def)
qed

lemma recv_inv: "queue_inv limits st \<Longrightarrow> queue_inv limits (snd (recv st))"
  by (auto simp: queue_inv_def recv_def saturating_sub_def split: list.splits)

lemma queue_step_inv:
  "limits_ok limits \<and> queue_inv limits st \<Longrightarrow>
   limits_ok limits \<and> queue_inv limits (queue_step bw limits op st)"
  by (cases op)
    (simp_all add: try_send_inv retire_before_inv recv_inv,
     simp_all add: drop_sender_def drop_receiver_def queue_inv_def)

interpretation wq: invariant_machine
  "queue_step bw limits" "\<lambda>st. limits_ok limits \<and> queue_inv limits st" for bw limits
  by unfold_locales (rule queue_step_inv)

section \<open>What admission promises\<close>

text \<open>
  The work that neither the replacement nor the eviction pass may touch: not of the new
  request's domain, and not replaceable.
\<close>

definition protected_entries ::
    "'w bounded_work \<Rightarrow> 'w \<Rightarrow> 'w queue_state \<Rightarrow> 'w queued_work list" where
  "protected_entries bw work st =
     filter (\<lambda>q. \<not> shares_replacement_domain bw work (qw_work q) \<and>
                 \<not> is_replaceable bw (qw_work q)) (entries st)"

lemma protected_kept:
  "eviction_result bw limits (entries st)
     (map (\<lambda>q. shares_replacement_domain bw work (qw_work q)) (entries st)) k p (fs, i, b) \<Longrightarrow>
   subseq (protected_entries bw work st) (kept_entries fs (entries st))"
  by (drule eviction_resultD(1), drule flags_refine_protected)
    (simp add: kept_entries_map protected_entries_def conj_commute)

lemma protected_only:
  assumes "eviction_result bw limits (entries st)
     (map (\<lambda>q. shares_replacement_domain bw work (qw_work q)) (entries st)) k p (fs, i, b)"
    and "exceeds_limits i b limits"
  shows "kept_entries fs (entries st) = protected_entries bw work st"
  using eviction_resultD(4) [OF assms]
  by (simp add: kept_entries_map protected_entries_def conj_commute)

lemma admission_iff_alive:
  assumes "queue_inv limits st" "limits_ok limits" "receiver_alive st"
    and "queued_payload_bytes bw work \<le> max_payload_bytes limits"
  shows "accepted (fst (try_send_with_commit bw limits commit work st)) \<longleftrightarrow>
         \<not> exceeds_limits (length (protected_entries bw work st) + 1)
             (total_bytes (protected_entries bw work st) + queued_payload_bytes bw work) limits"
proof -
  obtain fs i b where
    ev: "eviction_result bw limits (entries st)
       (map (\<lambda>q. shares_replacement_domain bw work (qw_work q)) (entries st)) 1
       (queued_payload_bytes bw work) (fs, i, b)"
    and send: "try_send_with_commit bw limits commit work st =
       (if exceeds_limits i b limits then (rejected work Saturated, st)
        else (\<lparr>accepted = True, retired = retired_entries bw work fs (entries st)\<rparr>,
              st\<lparr>entries := kept_entries fs (entries st) @
                               [QueuedWork (queued_payload_bytes bw work) (commit work)],
                 payload_bytes := b\<rparr>))"
    using try_send_admission [OF assms] by blast
  let ?prot = "protected_entries bw work st"
  have len: "length ?prot \<le> length (kept_entries fs (entries st))"
    and tot: "total_bytes ?prot \<le> total_bytes (kept_entries fs (entries st))"
    using protected_kept [OF ev] by (auto dest: list_emb_length total_bytes_subseq)
  note ib = eviction_resultD(2,3) [OF ev]
  have "exceeds_limits i b limits \<longleftrightarrow>
    exceeds_limits (length ?prot + 1) (total_bytes ?prot + queued_payload_bytes bw work) limits"
  proof
    assume e: "exceeds_limits i b limits"
    then show "exceeds_limits (length ?prot + 1)
        (total_bytes ?prot + queued_payload_bytes bw work) limits"
      unfolding ib protected_only [OF ev e] .
  qed (use len tot in \<open>auto simp: ib exceeds_limits_def\<close>)
  then show ?thesis by (simp add: send rejected_def)
qed

text \<open>
  C1: from a fresh queue, whatever sequence of sends (with any commit callback), generation
  interrupts, receives and handle drops is run, the queue never holds more items or payload
  bytes than its limits and its byte counter is exactly the sum of what it holds.
\<close>

theorem queue_run_bounded:
  assumes "limits_ok limits" and "bounded_work_queue limits = Some st"
  shows "queue_inv limits (fold (queue_step bw limits) ops st)"
proof -
  from assms have "limits_ok limits \<and> queue_inv limits st"
    by (auto simp: bounded_work_queue_def queue_inv_def split: if_splits)
  then show ?thesis using wq.inv_run [of limits st bw ops] by blast
qed

text \<open>
  C2: admission succeeds exactly when the receiver is alive, the request alone fits, and the
  request fits beside the protected work: replacing its own domain and evicting every other
  replaceable entry would make room. Nothing else can cause a rejection.
\<close>

theorem admission_iff:
  assumes "queue_inv limits st" and "limits_ok limits"
  shows "accepted (fst (try_send_with_commit bw limits commit work st)) \<longleftrightarrow>
         receiver_alive st \<and> queued_payload_bytes bw work \<le> max_payload_bytes limits \<and>
         length (protected_entries bw work st) + 1 \<le> max_items limits \<and>
         total_bytes (protected_entries bw work st) + queued_payload_bytes bw work
           \<le> max_payload_bytes limits"
proof (cases "receiver_alive st \<and> queued_payload_bytes bw work \<le> max_payload_bytes limits")
  case True
  then show ?thesis
    by (simp add: admission_iff_alive [OF assms] exceeds_limits_def not_less)
next
  case False
  then show ?thesis
    by (cases "receiver_alive st")
      (auto simp: try_send_closed try_send_oversized rejected_def not_le)
qed

lemma accepted_outcome:
  assumes "r = (if full then (rejected work reason, st)
                else (\<lparr>accepted = True, retired = gone\<rparr>, st\<lparr>entries := es, payload_bytes := b\<rparr>))"
    and "r = (outcome, st')" and "accepted outcome"
  shows "outcome = \<lparr>accepted = True, retired = gone\<rparr> \<and> entries st' = es \<and> \<not> full"
  using assms by (cases full) (auto simp: rejected_def)

lemma rejected_outcome:
  assumes "r = (if full then (rejected work reason, st)
                else (\<lparr>accepted = True, retired = gone\<rparr>, st\<lparr>entries := es, payload_bytes := b\<rparr>))"
    and "r = (outcome, st')" and "\<not> accepted outcome"
  shows "st' = st \<and> retired outcome = [RetiredWork work reason]"
  using assms by (cases full) (auto simp: rejected_def)

lemma accepted_alive:
  "accepted (fst (try_send_with_commit bw limits commit work st)) \<Longrightarrow>
   receiver_alive st \<and> queued_payload_bytes bw work \<le> max_payload_bytes limits"
  by (cases "receiver_alive st"; cases "queued_payload_bytes bw work \<le> max_payload_bytes limits")
    (auto simp: try_send_closed try_send_oversized rejected_def not_le)

lemma admission_outcome:
  assumes "queue_inv limits st" and "limits_ok limits"
    and "try_send_with_commit bw limits commit work st = (outcome, st')" and "accepted outcome"
  shows "\<exists>kept. entries st' = kept @ [QueuedWork (queued_payload_bytes bw work) (commit work)] \<and>
           subseq kept (entries st) \<and> subseq (protected_entries bw work st) kept \<and>
           (\<forall>q \<in> set kept. \<not> shares_replacement_domain bw work (qw_work q)) \<and>
           mset (map qw_work (entries st)) =
             mset (map qw_work kept) + mset (map rw_work (retired outcome)) \<and>
           (\<forall>r \<in> set (retired outcome).
              rw_reason r = Replaced \<and> shares_replacement_domain bw work (rw_work r) \<or>
              rw_reason r = EvictedForCapacity \<and> is_replaceable bw (rw_work r) \<and>
                \<not> shares_replacement_domain bw work (rw_work r))"
proof -
  let ?fs1 = "map (\<lambda>q. shares_replacement_domain bw work (qw_work q)) (entries st)"
  have "receiver_alive st \<and> queued_payload_bytes bw work \<le> max_payload_bytes limits"
    using accepted_alive [of bw limits commit work st] assms(3,4) by simp
  then obtain fs i b where
    ev: "eviction_result bw limits (entries st) ?fs1 1 (queued_payload_bytes bw work) (fs, i, b)"
    and send: "try_send_with_commit bw limits commit work st =
       (if exceeds_limits i b limits then (rejected work Saturated, st)
        else (\<lparr>accepted = True, retired = retired_entries bw work fs (entries st)\<rparr>,
              st\<lparr>entries := kept_entries fs (entries st) @
                               [QueuedWork (queued_payload_bytes bw work) (commit work)],
                 payload_bytes := b\<rparr>))"
    using try_send_admission [OF assms(1,2)] by blast
  let ?kept = "kept_entries fs (entries st)"
  note ref = eviction_resultD(1) [OF ev]
  have out: "outcome = \<lparr>accepted = True, retired = retired_entries bw work fs (entries st)\<rparr>"
    "entries st' = ?kept @ [QueuedWork (queued_payload_bytes bw work) (commit work)]"
    "\<not> exceeds_limits i b limits"
    using accepted_outcome [OF send assms(3,4)] by auto
  have len: "length fs = length (entries st)" using flags_refine_length [OF ref] by simp
  have "subseq ?kept (filter (\<lambda>q. \<not> shares_replacement_domain bw work (qw_work q)) (entries st))"
    using flags_refine_kept [OF ref] by (simp add: kept_entries_map)
  from subseq_subset [OF this]
  have "\<forall>q \<in> set ?kept. \<not> shares_replacement_domain bw work (qw_work q)" by auto
  moreover have "retired outcome = retired_entries bw work fs (entries st)" using out(1) by simp
  moreover note retired_entries_reason [OF ref refl]
  ultimately show ?thesis
    using out(2) kept_entries_subseq [OF len] protected_kept [OF ev] kept_retired_mset [OF len]
    by (intro exI [of _ ?kept] conjI) (simp_all only:, blast)
qed

text \<open>
  An accepted request leaves every protected entry queued in its order, is itself last
  and committed, retires only members of its own domain (reported as replaced) or other
  replaceable work (reported as evicted), leaves no queued member of its domain, and loses
  nothing: what was queued is what stays plus what is handed back.
\<close>

theorem admission_effect:
  assumes "queue_inv limits st" and "limits_ok limits"
    and "try_send_with_commit bw limits commit work st = (outcome, st')" and "accepted outcome"
  shows "\<exists>kept. entries st' = kept @ [QueuedWork (queued_payload_bytes bw work) (commit work)] \<and>
           subseq kept (entries st) \<and> subseq (protected_entries bw work st) kept \<and>
           (\<forall>q \<in> set kept. \<not> shares_replacement_domain bw work (qw_work q)) \<and>
           mset (map qw_work (entries st)) =
             mset (map qw_work kept) + mset (map rw_work (retired outcome)) \<and>
           (\<forall>r \<in> set (retired outcome).
              rw_reason r = Replaced \<and> shares_replacement_domain bw work (rw_work r) \<or>
              rw_reason r = EvictedForCapacity \<and> is_replaceable bw (rw_work r) \<and>
                \<not> shares_replacement_domain bw work (rw_work r))"
  by (rule admission_outcome [OF assms])

text \<open>
  A rejected request changes nothing: the queue is as it was, and the request alone is
  handed back, with the reason that the receiver is gone or that the queue is saturated.
\<close>

theorem rejection_effect:
  assumes "queue_inv limits st" and "limits_ok limits"
    and "try_send_with_commit bw limits commit work st = (outcome, st')" and "\<not> accepted outcome"
  shows "st' = st \<and>
         retired outcome =
           [RetiredWork work (if receiver_alive st then Saturated else ReceiverClosed)]"
proof (cases "receiver_alive st \<and> queued_payload_bytes bw work \<le> max_payload_bytes limits")
  case True
  then obtain fs i b where
    send: "try_send_with_commit bw limits commit work st =
       (if exceeds_limits i b limits then (rejected work Saturated, st)
        else (\<lparr>accepted = True, retired = retired_entries bw work fs (entries st)\<rparr>,
              st\<lparr>entries := kept_entries fs (entries st) @
                               [QueuedWork (queued_payload_bytes bw work) (commit work)],
                 payload_bytes := b\<rparr>))"
    using try_send_admission [OF assms(1,2)] by blast
  from rejected_outcome [OF send assms(3,4)] True show ?thesis by simp
next
  case False
  with assms(3) show ?thesis
    by (cases "receiver_alive st")
      (auto simp: try_send_closed try_send_oversized rejected_def not_le)
qed

text \<open>
  An interrupt at generation \<open>minimum\<close> removes from the queue exactly the older
  requests, hands exactly those back as stale in queue order, and leaves the others queued in
  their order.
\<close>

theorem interrupt_effect:
  assumes "queue_inv limits st" and "limits_ok limits"
    and "retire_before_generation bw minimum st = (gone, st')"
  shows "entries st' = filter (\<lambda>q. minimum \<le> work_generation bw (qw_work q)) (entries st) \<and>
         map rw_work gone =
           filter (\<lambda>w. work_generation bw w < minimum) (map qw_work (entries st)) \<and>
         (\<forall>r \<in> set gone. rw_reason r = StaleGeneration) \<and>
         payload_bytes st' = total_bytes (entries st')"
proof -
  have "entries st' = filter (\<lambda>q. minimum \<le> work_generation bw (qw_work q)) (entries st)"
    and "map rw_work gone = filter (\<lambda>w. work_generation bw w < minimum) (map qw_work (entries st))"
    and "\<forall>r \<in> set gone. rw_reason r = StaleGeneration"
    using assms(3) by (auto simp: retire_before_generation_def Let_def filter_map o_def not_less)
  with retire_before_payload [OF assms(2,1), of bw minimum] assms(3) show ?thesis
    by (simp add: not_less)
qed

text \<open>A number of receives in a row.\<close>

fun recv_all :: "nat \<Rightarrow> 'w queue_state \<Rightarrow> 'w recv_result list \<times> 'w queue_state" where
  "recv_all 0 st = ([], st)"
| "recv_all (Suc n) st =
     (let (r, st') = recv st; (rs, st'') = recv_all n st' in (r # rs, st''))"

text \<open>
  The receiver drains the queue in admission order, also after the sender is gone: as many
  receives as there are entries return the queued work front to back and leave it empty.
\<close>

theorem recv_fifo:
  "fst (recv_all (length (entries st)) st) = map (Received \<circ> qw_work) (entries st) \<and>
   entries (snd (recv_all (length (entries st)) st)) = []"
proof (induction "entries st" arbitrary: st)
  case Nil
  then show ?case by simp
next
  case (Cons q qs)
  let ?st = "snd (recv st)"
  have r: "fst (recv st) = Received (qw_work q)" "entries ?st = qs"
    using Cons.hyps(2) [symmetric] by (simp_all add: recv_def)
  from Cons.hyps(1) [of ?st] r(2) have
    "fst (recv_all (length qs) ?st) = map (Received \<circ> qw_work) qs"
    "entries (snd (recv_all (length qs) ?st)) = []" by simp_all
  then show ?case
    using Cons.hyps(2) [symmetric] r(1) by (simp add: split_def Let_def)
qed

section \<open>The theorems at concrete queues\<close>

text \<open>
  Work items for the witnesses: generation, payload bytes, and the domain of a replaceable
  item.
\<close>

definition sample_work :: "(nat \<times> nat \<times> nat option) bounded_work" where
  "sample_work =
     \<lparr>queued_payload_bytes = (\<lambda>w. fst (snd w)), work_generation = fst,
      is_replaceable = (\<lambda>w. snd (snd w) \<noteq> None),
      shares_replacement_domain = (\<lambda>v w. snd (snd v) \<noteq> None \<and> snd (snd v) = snd (snd w))\<rparr>"

definition sample_limits :: work_queue_limits where
  "sample_limits = \<lparr>max_items = 3, max_payload_bytes = 100\<rparr>"

definition sample_queue :: "(nat \<times> nat \<times> nat option) queue_state" where
  "sample_queue =
     \<lparr>entries = [QueuedWork 10 (1, 10, Some 7), QueuedWork 40 (1, 40, None),
                 QueuedWork 20 (2, 20, Some 8)],
      payload_bytes = 70, sender_closed = False, receiver_alive = True\<rparr>"

lemmas sample_defs = sample_work_def sample_limits_def sample_queue_def limits_ok_def
  queue_inv_def usize_max_def

lemmas send_defs = try_send_with_commit_def exceeds_limits_def usize_saturating_add_def
  saturating_sub_def rejected_def

lemma sample_ok: "limits_ok sample_limits" "queue_inv sample_limits sample_queue"
  by (simp_all add: sample_defs)

theorem queue_run_bounded_witness:
  "\<exists>st. bounded_work_queue sample_limits = Some st \<and>
     queue_inv sample_limits
       (fold (queue_step sample_work sample_limits)
          [TrySend id (1, 60, None), TrySend id (1, 60, None), Recv, RetireBefore 2] st)"
proof -
  obtain st :: "(nat \<times> nat \<times> nat option) queue_state"
    where st: "bounded_work_queue sample_limits = Some st"
    by (simp add: bounded_work_queue_def sample_defs)
  then show ?thesis using queue_run_bounded [OF sample_ok(1) st] by blast
qed

theorem admission_iff_witness:
  "accepted (fst (try_send_with_commit sample_work sample_limits id (3, 50, Some 7) sample_queue))"
  unfolding admission_iff [OF sample_ok(2,1)]
  by (simp add: sample_defs protected_entries_def)

end
