(* ===== verification/Rust_Float.thy ===== *)
theory Rust_Float
  imports Complex_Main Rust_Prelude
begin

text \<open>
  The \<open>f32\<close> values the sources compare, clamp and add: finite values as the rational
  they denote, the two infinities, and NaN. The two zeros are one value, which no comparison,
  clamp or range test of the sources can tell apart. NaN is unordered: every comparison with it
  is false, as in IEEE 754.
\<close>

datatype f32 = F32_NaN | F32_NegInf | F32_PosInf | F32_Fin rat

fun f32_le :: "f32 \<Rightarrow> f32 \<Rightarrow> bool" where
  "f32_le F32_NaN y = False"
| "f32_le x F32_NaN = False"
| "f32_le F32_NegInf y = True"
| "f32_le x F32_PosInf = True"
| "f32_le (F32_Fin x) (F32_Fin y) = (x \<le> y)"
| "f32_le x y = False"

fun f32_lt :: "f32 \<Rightarrow> f32 \<Rightarrow> bool" where
  "f32_lt F32_NaN y = False"
| "f32_lt x F32_NaN = False"
| "f32_lt F32_NegInf F32_NegInf = False"
| "f32_lt F32_NegInf y = True"
| "f32_lt F32_PosInf y = False"
| "f32_lt (F32_Fin x) F32_NegInf = False"
| "f32_lt (F32_Fin x) F32_PosInf = True"
| "f32_lt (F32_Fin x) (F32_Fin y) = (x < y)"

definition f32_eq :: "f32 \<Rightarrow> f32 \<Rightarrow> bool" where
  "f32_eq x y \<longleftrightarrow> x \<noteq> F32_NaN \<and> x = y"

definition is_nan :: "f32 \<Rightarrow> bool" where
  "is_nan x \<longleftrightarrow> x = F32_NaN"

fun is_finite :: "f32 \<Rightarrow> bool" where
  "is_finite (F32_Fin x) = True"
| "is_finite x = False"

text \<open>\<open>f32::clamp\<close>: NaN stays NaN.\<close>

definition f32_clamp :: "f32 \<Rightarrow> f32 \<Rightarrow> f32 \<Rightarrow> f32" where
  "f32_clamp lo hi x = (if f32_lt x lo then lo else if f32_lt hi x then hi else x)"

text \<open>\<open>(lo..=hi).contains(x)\<close>.\<close>

definition f32_in :: "f32 \<Rightarrow> f32 \<Rightarrow> f32 \<Rightarrow> bool" where
  "f32_in lo hi x \<longleftrightarrow> f32_le lo x \<and> f32_le x hi"

abbreviation f32_unit :: "f32 \<Rightarrow> bool" where
  "f32_unit \<equiv> f32_in (F32_Fin 0) (F32_Fin 1)"

text \<open>The derived \<open>PartialEq\<close> on an optional float.\<close>

fun f32_opt_eq :: "f32 option \<Rightarrow> f32 option \<Rightarrow> bool" where
  "f32_opt_eq None None = True"
| "f32_opt_eq (Some x) (Some y) = f32_eq x y"
| "f32_opt_eq _ _ = False"

lemma f32_in_Fin [simp]: "f32_in (F32_Fin a) (F32_Fin b) (F32_Fin x) \<longleftrightarrow> a \<le> x \<and> x \<le> b"
  by (simp add: f32_in_def)

lemma f32_in_finite: "f32_in (F32_Fin a) (F32_Fin b) x \<Longrightarrow> \<exists>r. x = F32_Fin r \<and> a \<le> r \<and> r \<le> b"
  by (cases x) (auto simp: f32_in_def)

lemma f32_in_is_finite: "f32_in (F32_Fin a) (F32_Fin b) x \<Longrightarrow> is_finite x"
  by (auto dest: f32_in_finite)

lemma f32_clamp_in:
  "a \<le> b \<Longrightarrow> x \<noteq> F32_NaN \<Longrightarrow> f32_in (F32_Fin a) (F32_Fin b) (f32_clamp (F32_Fin a) (F32_Fin b) x)"
  by (cases x) (auto simp: f32_clamp_def f32_in_def)

lemma f32_clamp_id: "f32_in (F32_Fin a) (F32_Fin b) x \<Longrightarrow> f32_clamp (F32_Fin a) (F32_Fin b) x = x"
  by (cases x) (auto simp: f32_clamp_def f32_in_def)

lemma f32_eq_iff: "x \<noteq> F32_NaN \<Longrightarrow> f32_eq x y \<longleftrightarrow> x = y"
  by (simp add: f32_eq_def)

lemma f32_opt_eq_eq: "f32_opt_eq x y \<Longrightarrow> x = y"
  by (cases x; cases y) (auto simp: f32_eq_def)

lemma f32_opt_eq_sym: "f32_opt_eq x y \<longleftrightarrow> f32_opt_eq y x"
  by (cases x; cases y) (auto simp: f32_eq_def)

section \<open>Rounded arithmetic\<close>

text \<open>
  \<open>round_f32\<close> rounds a rational to the nearest binary32 value, ties to even: 24 significant
  bits down to the subnormal spacing \<open>2\<^sup>-\<^sup>1\<^sup>4\<^sup>9\<close>, infinity from \<open>2\<^sup>1\<^sup>2\<^sup>8\<close> on.
\<close>

definition rat_pow2 :: "int \<Rightarrow> rat" where
  "rat_pow2 e = (if 0 \<le> e then 2 ^ nat e else 1 / 2 ^ nat (- e))"

fun bit_count :: "nat \<Rightarrow> nat" where
  "bit_count n = (if n = 0 then 0 else Suc (bit_count (n div 2)))"

declare bit_count.simps [simp del]

definition binary_exponent :: "rat \<Rightarrow> int" where
  "binary_exponent q =
     (let (n, d) = quotient_of \<bar>q\<bar>; e = int (bit_count (nat n)) - int (bit_count (nat d))
      in if rat_pow2 e \<le> \<bar>q\<bar> then e else e - 1)"

definition round_half_even :: "rat \<Rightarrow> int" where
  "round_half_even x =
     (let f = floor x; r = x - of_int f
      in if r < 1 / 2 then f else if 1 / 2 < r then f + 1 else if even f then f else f + 1)"

definition round_f32 :: "rat \<Rightarrow> f32" where
  "round_f32 q =
     (if q = 0 then F32_Fin 0
      else let u = rat_pow2 (max (binary_exponent q) (- 126) - 23);
               r = of_int (round_half_even (q / u)) * u
           in if rat_pow2 128 \<le> \<bar>r\<bar> then (if 0 < r then F32_PosInf else F32_NegInf)
              else F32_Fin r)"

fun f32_add :: "f32 \<Rightarrow> f32 \<Rightarrow> f32" where
  "f32_add (F32_Fin x) (F32_Fin y) = round_f32 (x + y)"
| "f32_add F32_PosInf F32_NegInf = F32_NaN"
| "f32_add F32_NegInf F32_PosInf = F32_NaN"
| "f32_add F32_NaN y = F32_NaN"
| "f32_add x F32_NaN = F32_NaN"
| "f32_add F32_PosInf y = F32_PosInf"
| "f32_add F32_NegInf y = F32_NegInf"
| "f32_add x F32_PosInf = F32_PosInf"
| "f32_add x F32_NegInf = F32_NegInf"

lemma round_f32_not_nan: "round_f32 q \<noteq> F32_NaN"
  by (simp add: round_f32_def Let_def)

lemma f32_add_not_nan:
  "is_finite x \<Longrightarrow> y \<noteq> F32_NaN \<Longrightarrow> f32_add x y \<noteq> F32_NaN"
  by (cases x; cases y) (simp_all add: round_f32_not_nan)

section \<open>Parsing\<close>

text \<open>
  \<open>str::parse::<f32>()\<close>: an optional sign, then \<open>inf\<close>, \<open>infinity\<close> or \<open>nan\<close> in any ASCII case, or
  decimal digits with an optional point and exponent and at least one digit before the exponent.
  The decimal value is rounded once, to the nearest value of the type.
\<close>

definition rat_pow10 :: "int \<Rightarrow> rat" where
  "rat_pow10 e = (if 0 \<le> e then 10 ^ nat e else 1 / 10 ^ nat (- e))"

fun split_sign :: "rstr \<Rightarrow> bool \<times> rstr" where
  "split_sign [] = (False, [])"
| "split_sign (c # cs) =
     (if c = 45 then (True, cs) else if c = 43 then (False, cs) else (False, c # cs))"

definition parse_exponent :: "rstr \<Rightarrow> int option" where
  "parse_exponent s =
     (let (neg, ds) = split_sign s
      in if ds = [] \<or> \<not> list_all is_ascii_digit ds then None
         else Some ((if neg then - 1 else 1) * int (decimal_value 0 ds)))"

definition parse_decimal :: "rstr \<Rightarrow> rat option" where
  "parse_decimal s =
     (let whole = takeWhile is_ascii_digit s;
          rest = dropWhile is_ascii_digit s;
          (frac, tail) =
            (case rest of
               c # cs \<Rightarrow> if c = 46 then (takeWhile is_ascii_digit cs, dropWhile is_ascii_digit cs)
                         else ([], rest)
             | [] \<Rightarrow> ([], []));
          mantissa = of_nat (decimal_value 0 (whole @ frac))
      in if whole = [] \<and> frac = [] then None
         else case tail of
                [] \<Rightarrow> Some (mantissa * rat_pow10 (- int (length frac)))
              | c # cs \<Rightarrow>
                  if c = 69 \<or> c = 101
                  then map_option (\<lambda>e. mantissa * rat_pow10 (e - int (length frac))) (parse_exponent cs)
                  else None)"

definition parse_f32 :: "rstr \<Rightarrow> f32 option" where
  "parse_f32 s =
     (let (neg, body) = split_sign s
      in if eq_ignore_ascii_case body (lit ''inf'') \<or> eq_ignore_ascii_case body (lit ''infinity'')
         then Some (if neg then F32_NegInf else F32_PosInf)
         else if eq_ignore_ascii_case body (lit ''nan'') then Some F32_NaN
         else map_option (\<lambda>q. round_f32 (if neg then - q else q)) (parse_decimal body))"

fun f32_div :: "f32 \<Rightarrow> rat \<Rightarrow> f32" where
  "f32_div (F32_Fin x) d = round_f32 (x / d)"
| "f32_div x d = x"

text \<open>\<open>f32_div\<close> divides by a positive constant of the sources.\<close>

lemma f32_clamp_finite:
  "x \<noteq> F32_NaN \<Longrightarrow> a \<le> b \<Longrightarrow> is_finite (f32_clamp (F32_Fin a) (F32_Fin b) x)"
  using f32_clamp_in f32_in_is_finite by blast

lemma f32_div_not_nan: "x \<noteq> F32_NaN \<Longrightarrow> f32_div x d \<noteq> F32_NaN"
  by (cases x) (simp_all add: round_f32_not_nan)

text \<open>The equations that evaluate the text and number primitives on a literal.\<close>

lemmas text_eval =
  lit_Cons split_whitespace_def is_whitespace_def eq_ignore_ascii_case_def to_ascii_lowercase_def
  is_ascii_uppercase_def is_ascii_digit_def parse_unsigned_def parse_u8_def parse_u32_def
  strip_plus_def u32_max_def digit_value_def parse_f32_def parse_decimal_def rat_pow10_def
  round_f32_def binary_exponent_def rat_pow2_def bit_count.simps round_half_even_def

end
