(* ===== verification/Frame_Timeline.thy ===== *)
theory Frame_Timeline
  imports Rust_Float "HOL-Library.Product_Lexorder" "HOL-Library.Multiset"
begin

text \<open>
  The engine-neutral timeline of \<open>omnivox-core/src/timeline.rs\<close>: bounded identifiers, actions
  resolved to source frames, the scheduler that places them on the output clock, and the
  piecewise source-to-output map it produces. Frames are \<open>u64\<close>: every addition of the source is
  checked, and so is every addition of the model.
\<close>

section \<open>Vocabulary\<close>

definition max_timeline_id_bytes :: nat where "max_timeline_id_bytes = 128"

datatype timeline_error =
  EmptyIdentifier string
| IdentifierTooLong string nat
| FrameOverflow
| SourceFrameOutOfBounds rstr nat nat
| EmptyAudioAction
| InvalidAudioVolume f32
| EffectAlreadyActive
| NoEffectToReplace
| NoEffectToEnd

definition validate_identifier :: "rstr \<Rightarrow> string \<Rightarrow> timeline_error + unit" where
  "validate_identifier value kind =
     (if value = [] then Inl (EmptyIdentifier kind)
      else if max_timeline_id_bytes < str_len value then Inl (IdentifierTooLong kind (str_len value))
      else Inr ())"

definition timeline_action_id :: "rstr \<Rightarrow> timeline_error + rstr" where
  "timeline_action_id value = and_then (validate_identifier value ''action'') (\<lambda>_. Inr value)"

definition effect_state_id :: "rstr \<Rightarrow> timeline_error + rstr" where
  "effect_state_id value = and_then (validate_identifier value ''effect state'') (\<lambda>_. Inr value)"

datatype action_affinity = Before | After

datatype presentation_position =
  SpanBoundary nat action_affinity
| TextOffset nat nat action_affinity

datatype audio_action_mode = Insert | Overlay

datatype effect_bus = Dry | Speech

datatype effect_state_change = Begin rstr | Replace rstr | End

datatype timeline_action_kind =
  Audio (audio_mode: audio_action_mode) (duration_frames: nat) (volume: f32) (bus: effect_bus)
| SemanticEvent
| EffectState effect_state_change

record timeline_action =
  ta_id :: rstr
  ta_position :: presentation_position
  ta_kind :: timeline_action_kind

record resolved_timeline_action =
  ra_action :: timeline_action
  ra_source_frame :: nat

record frame_insertion =
  fi_source_frame :: nat
  fi_output_frame :: nat
  fi_duration_frames :: nat

record frame_map =
  insertions :: "frame_insertion list"

record scheduled_action =
  sa_id :: rstr
  sa_source_frame :: nat
  sa_output_frame :: nat
  sa_kind :: timeline_action_kind
  effect_state_before :: "rstr option"
  effect_state_after :: "rstr option"

record scheduled_timeline =
  st_frame_map :: frame_map
  st_actions :: "scheduled_action list"
  primary_output_frames :: nat
  completion_frame :: nat

section \<open>The frame map\<close>

definition checked_frame :: "nat \<Rightarrow> nat \<Rightarrow> timeline_error + nat" where
  "checked_frame a b = ok_or (u64_checked_add a b) FrameOverflow"

fun fold_frames :: "frame_insertion list \<Rightarrow> nat \<Rightarrow> timeline_error + nat" where
  "fold_frames [] frame = Inr frame"
| "fold_frames (i # is) frame =
     and_then (checked_frame frame (fi_duration_frames i)) (fold_frames is)"

definition map_with :: "frame_map \<Rightarrow> nat \<Rightarrow> (frame_insertion \<Rightarrow> bool) \<Rightarrow> timeline_error + nat" where
  "map_with m source_frame included = fold_frames (filter included (insertions m)) source_frame"

definition map_before :: "frame_map \<Rightarrow> nat \<Rightarrow> timeline_error + nat" where
  "map_before m s = map_with m s (\<lambda>i. fi_source_frame i < s)"

definition map_after :: "frame_map \<Rightarrow> nat \<Rightarrow> timeline_error + nat" where
  "map_after m s = map_with m s (\<lambda>i. fi_source_frame i \<le> s)"

section \<open>The scheduler\<close>

definition end_frame :: "scheduled_action \<Rightarrow> timeline_error + nat" where
  "end_frame a =
     (case sa_kind a of
        Audio mode dur vol b \<Rightarrow> checked_frame (sa_output_frame a) dur
      | _ \<Rightarrow> Inr (sa_output_frame a))"

definition validate_action_kind :: "timeline_action_kind \<Rightarrow> timeline_error + unit" where
  "validate_action_kind kind =
     (case kind of
        Audio mode dur vol b \<Rightarrow>
          if dur = 0 then Inl EmptyAudioAction
          else if \<not> is_finite vol \<or> \<not> f32_unit vol then Inl (InvalidAudioVolume vol)
          else Inr ()
      | _ \<Rightarrow> Inr ())"

definition apply_effect_change ::
    "timeline_action_kind \<Rightarrow> rstr option \<Rightarrow> timeline_error + rstr option" where
  "apply_effect_change kind current =
     (case kind of
        EffectState (Begin s) \<Rightarrow>
          if current = None then Inr (Some s) else Inl EffectAlreadyActive
      | EffectState (Replace s) \<Rightarrow>
          if current \<noteq> None then Inr (Some s) else Inl NoEffectToReplace
      | EffectState End \<Rightarrow> if current \<noteq> None then Inr None else Inl NoEffectToEnd
      | _ \<Rightarrow> Inr current)"

text \<open>The variables of the scheduling loop.\<close>

record schedule_state =
  ss_frame_map :: frame_map
  ss_scheduled :: "scheduled_action list"
  ss_shift :: nat
  ss_effect :: "rstr option"
  ss_completion :: nat

definition schedule_one ::
    "nat \<Rightarrow> resolved_timeline_action \<Rightarrow> schedule_state \<Rightarrow> timeline_error + schedule_state" where
  "schedule_one primary ra st =
     (let act = ra_action ra; src = ra_source_frame ra
      in if primary < src then Inl (SourceFrameOutOfBounds (ta_id act) src primary)
         else
           and_then (validate_action_kind (ta_kind act)) (\<lambda>_.
           and_then (checked_frame src (ss_shift st)) (\<lambda>output.
           and_then (apply_effect_change (ta_kind act) (ss_effect st)) (\<lambda>after.
             let sa = \<lparr>sa_id = ta_id act, sa_source_frame = src, sa_output_frame = output,
                       sa_kind = ta_kind act, effect_state_before = ss_effect st,
                       effect_state_after = after\<rparr>
             in and_then (end_frame sa) (\<lambda>ending.
                  let completion = max (ss_completion st) ending
                  in case ta_kind act of
                       Audio Insert dur vol b \<Rightarrow>
                         and_then (checked_frame (ss_shift st) dur) (\<lambda>shift.
                           Inr \<lparr>ss_frame_map = \<lparr>insertions = insertions (ss_frame_map st) @
                                    [\<lparr>fi_source_frame = src, fi_output_frame = output,
                                      fi_duration_frames = dur\<rparr>]\<rparr>,
                                ss_scheduled = ss_scheduled st @ [sa], ss_shift = shift,
                                ss_effect = after, ss_completion = completion\<rparr>)
                     | _ \<Rightarrow>
                         Inr (st\<lparr>ss_scheduled := ss_scheduled st @ [sa], ss_effect := after,
                                 ss_completion := completion\<rparr>))))))"

fun schedule_all ::
    "nat \<Rightarrow> resolved_timeline_action list \<Rightarrow> schedule_state \<Rightarrow> timeline_error + schedule_state" where
  "schedule_all primary [] st = Inr st"
| "schedule_all primary (a # as) st =
     and_then (schedule_one primary a st) (schedule_all primary as)"

text \<open>\<open>sort_by_key\<close> on the source frame and the position in the input.\<close>

definition schedule_order :: "resolved_timeline_action list \<Rightarrow> resolved_timeline_action list" where
  "schedule_order actions =
     map snd (sort_key (\<lambda>p. (ra_source_frame (snd p), fst p)) (enumerate 0 actions))"

definition build_timeline ::
    "nat \<Rightarrow> resolved_timeline_action list \<Rightarrow> timeline_error + scheduled_timeline" where
  "build_timeline primary actions =
     and_then
       (schedule_all primary (schedule_order actions)
          \<lparr>ss_frame_map = \<lparr>insertions = []\<rparr>, ss_scheduled = [], ss_shift = 0, ss_effect = None,
           ss_completion = primary\<rparr>)
       (\<lambda>st. and_then (checked_frame primary (ss_shift st)) (\<lambda>total.
          Inr \<lparr>st_frame_map = ss_frame_map st, st_actions = ss_scheduled st,
               primary_output_frames = total, completion_frame = max (ss_completion st) total\<rparr>))"

definition unreached_action_ids :: "scheduled_timeline \<Rightarrow> nat \<Rightarrow> rstr list" where
  "unreached_action_ids t consumed =
     map sa_id (filter (\<lambda>a. consumed < sa_output_frame a) (st_actions t))"

fun is_audio :: "timeline_action_kind \<Rightarrow> bool" where
  "is_audio (Audio mode dur vol b) = True"
| "is_audio k = False"

definition active_audio_ids :: "scheduled_timeline \<Rightarrow> nat \<Rightarrow> rstr list" where
  "active_audio_ids t out =
     map sa_id
       (filter (\<lambda>a. is_audio (sa_kind a) \<and> sa_output_frame a \<le> out \<and>
                    (case end_frame a of Inr e \<Rightarrow> out < e | Inl _ \<Rightarrow> False))
          (st_actions t))"

section \<open>Stable order\<close>

lemma insort_indexed:
  "\<forall>q \<in> set ps. fst p \<le> fst q \<Longrightarrow>
   map snd (insort_key (\<lambda>p. (f (snd p) :: nat, fst p :: nat)) p ps) =
   insort_key f (snd p) (map snd ps)"
  by (induction ps) auto

lemma sort_indexed:
  "map snd (sort_key (\<lambda>p. (f (snd p) :: nat, fst p)) (enumerate n xs)) = sort_key f xs"
proof (induction xs arbitrary: n)
  case (Cons x xs)
  have "\<forall>q \<in> set (sort_key (\<lambda>p. (f (snd p), fst p)) (enumerate (Suc n) xs)). n \<le> fst q"
    by (auto simp: in_set_enumerate_eq)
  with Cons insort_indexed [of _ "(n, x)" f] show ?case by simp
qed simp

lemma schedule_order_eq: "schedule_order actions = sort_key ra_source_frame actions"
  by (simp add: schedule_order_def sort_indexed)

section \<open>What the loop computes\<close>

definition insert_frames :: "timeline_action_kind \<Rightarrow> nat" where
  "insert_frames k = (case k of Audio Insert dur vol b \<Rightarrow> dur | _ \<Rightarrow> 0)"

definition audio_frames :: "timeline_action_kind \<Rightarrow> nat" where
  "audio_frames k = (case k of Audio m dur vol b \<Rightarrow> dur | _ \<Rightarrow> 0)"

text \<open>The kinds the validation accepts, and the effect protocol.\<close>

definition kind_ok :: "timeline_action_kind \<Rightarrow> bool" where
  "kind_ok k = (case k of Audio m dur vol b \<Rightarrow> 0 < dur \<and> f32_unit vol | _ \<Rightarrow> True)"

fun change_ok :: "timeline_action_kind \<Rightarrow> rstr option \<Rightarrow> bool" where
  "change_ok (EffectState (Begin s)) e = (e = None)"
| "change_ok (EffectState (Replace s)) e = (e \<noteq> None)"
| "change_ok (EffectState End) e = (e \<noteq> None)"
| "change_ok k e = True"

fun effect_after :: "timeline_action_kind \<Rightarrow> rstr option \<Rightarrow> rstr option" where
  "effect_after (EffectState (Begin s)) e = Some s"
| "effect_after (EffectState (Replace s)) e = Some s"
| "effect_after (EffectState End) e = None"
| "effect_after k e = e"

abbreviation ra_kind :: "resolved_timeline_action \<Rightarrow> timeline_action_kind" where
  "ra_kind a \<equiv> ta_kind (ra_action a)"

text \<open>
  The reference placement: from a shift and an effect state, each action in order.
\<close>

fun place ::
    "nat \<Rightarrow> rstr option \<Rightarrow> resolved_timeline_action list \<Rightarrow> scheduled_action list" where
  "place shift e [] = []"
| "place shift e (a # as) =
     \<lparr>sa_id = ta_id (ra_action a), sa_source_frame = ra_source_frame a,
      sa_output_frame = ra_source_frame a + shift, sa_kind = ra_kind a,
      effect_state_before = e, effect_state_after = effect_after (ra_kind a) e\<rparr> #
     place (shift + insert_frames (ra_kind a)) (effect_after (ra_kind a) e) as"

definition sa_end :: "scheduled_action \<Rightarrow> nat" where
  "sa_end a = sa_output_frame a + audio_frames (sa_kind a)"

definition insertions_of :: "scheduled_action list \<Rightarrow> frame_insertion list" where
  "insertions_of as =
     map (\<lambda>a. \<lparr>fi_source_frame = sa_source_frame a, fi_output_frame = sa_output_frame a,
                 fi_duration_frames = audio_frames (sa_kind a)\<rparr>)
       (filter (\<lambda>a. is_audio (sa_kind a) \<and> audio_mode (sa_kind a) = Insert) as)"

fun place_ok :: "nat \<Rightarrow> nat \<Rightarrow> rstr option \<Rightarrow> resolved_timeline_action list \<Rightarrow> bool" where
  "place_ok primary shift e [] = True"
| "place_ok primary shift e (a # as) =
     (ra_source_frame a \<le> primary \<and> kind_ok (ra_kind a) \<and> change_ok (ra_kind a) e \<and>
      ra_source_frame a + shift + audio_frames (ra_kind a) \<le> u64_max \<and>
      shift + insert_frames (ra_kind a) \<le> u64_max \<and>
      place_ok primary (shift + insert_frames (ra_kind a)) (effect_after (ra_kind a) e) as)"

lemma checked_frame_Inr: "checked_frame a b = Inr c \<longleftrightarrow> c = a + b \<and> a + b \<le> u64_max"
  by (auto simp: checked_frame_def res_simps u64_checked_add_Some)

lemma validate_kind_Inr: "validate_action_kind k = Inr u \<longleftrightarrow> kind_ok k"
  by (auto simp: validate_action_kind_def kind_ok_def f32_in_is_finite
      split: timeline_action_kind.split)

lemma apply_effect_Inr:
  "apply_effect_change k e = Inr e' \<longleftrightarrow> change_ok k e \<and> e' = effect_after k e"
  by (cases "(k, e)" rule: change_ok.cases) (auto simp: apply_effect_change_def)

lemma end_frame_Inr: "end_frame a = Inr e \<longleftrightarrow> e = sa_end a \<and> (is_audio (sa_kind a) \<longrightarrow> e \<le> u64_max)"
  by (cases "sa_kind a") (auto simp: end_frame_def sa_end_def audio_frames_def checked_frame_Inr)

lemma frame_map_eta: "\<lparr>insertions = insertions m\<rparr> = m"
  by simp

definition placed :: "nat \<Rightarrow> rstr option \<Rightarrow> resolved_timeline_action \<Rightarrow> scheduled_action" where
  "placed shift e a =
     \<lparr>sa_id = ta_id (ra_action a), sa_source_frame = ra_source_frame a,
      sa_output_frame = ra_source_frame a + shift, sa_kind = ra_kind a,
      effect_state_before = e, effect_state_after = effect_after (ra_kind a) e\<rparr>"

lemma place_Cons [simp]:
  "place shift e (a # as) =
     placed shift e a # place (shift + insert_frames (ra_kind a)) (effect_after (ra_kind a) e) as"
  by (simp add: placed_def)

declare place.simps(2) [simp del]

lemma placed_simps [simp]:
  "sa_id (placed shift e a) = ta_id (ra_action a)"
  "sa_source_frame (placed shift e a) = ra_source_frame a"
  "sa_output_frame (placed shift e a) = ra_source_frame a + shift"
  "sa_kind (placed shift e a) = ra_kind a"
  "effect_state_before (placed shift e a) = e"
  "effect_state_after (placed shift e a) = effect_after (ra_kind a) e"
  by (simp_all add: placed_def)

definition after_one :: "resolved_timeline_action \<Rightarrow> schedule_state \<Rightarrow> schedule_state" where
  "after_one a st =
     (let sa = placed (ss_shift st) (ss_effect st) a
      in \<lparr>ss_frame_map = \<lparr>insertions = insertions (ss_frame_map st) @ insertions_of [sa]\<rparr>,
          ss_scheduled = ss_scheduled st @ [sa],
          ss_shift = ss_shift st + insert_frames (ra_kind a),
          ss_effect = effect_after (ra_kind a) (ss_effect st),
          ss_completion = max (ss_completion st) (sa_end sa)\<rparr>)"

lemma schedule_one_Inr:
  "schedule_one primary a st = Inr st' \<longleftrightarrow>
     ra_source_frame a \<le> primary \<and> kind_ok (ra_kind a) \<and> change_ok (ra_kind a) (ss_effect st) \<and>
     ra_source_frame a + ss_shift st + audio_frames (ra_kind a) \<le> u64_max \<and>
     ss_shift st + insert_frames (ra_kind a) \<le> u64_max \<and> st' = after_one a st"
proof (cases "ra_kind a")
  case (Audio mode dur vol b)
  then show ?thesis
    by (cases mode)
      (auto simp: schedule_one_def Let_def res_simps checked_frame_Inr validate_kind_Inr
        apply_effect_Inr end_frame_Inr after_one_def sa_end_def placed_def insertions_of_def
        insert_frames_def audio_frames_def not_less)
qed (auto simp: schedule_one_def Let_def res_simps checked_frame_Inr validate_kind_Inr
        apply_effect_Inr end_frame_Inr after_one_def sa_end_def placed_def insertions_of_def
        insert_frames_def audio_frames_def not_less)

definition total_inserted :: "resolved_timeline_action list \<Rightarrow> nat" where
  "total_inserted as = sum_list (map (insert_frames \<circ> ra_kind) as)"

lemma total_inserted_simps [simp]:
  "total_inserted [] = 0"
  "total_inserted (a # as) = insert_frames (ra_kind a) + total_inserted as"
  by (simp_all add: total_inserted_def)

lemma insertions_of_simps [simp]:
  "insertions_of [] = []"
  "insertions_of (xs @ ys) = insertions_of xs @ insertions_of ys"
  by (simp_all add: insertions_of_def)

lemma insertions_of_Cons: "insertions_of (x # xs) = insertions_of [x] @ insertions_of xs"
  by (simp add: insertions_of_def)

lemma schedule_all_Inr:
  "schedule_all primary as st = Inr st' \<longleftrightarrow>
     place_ok primary (ss_shift st) (ss_effect st) as \<and>
     ss_scheduled st' = ss_scheduled st @ place (ss_shift st) (ss_effect st) as \<and>
     insertions (ss_frame_map st') =
       insertions (ss_frame_map st) @ insertions_of (place (ss_shift st) (ss_effect st) as) \<and>
     ss_shift st' = ss_shift st + total_inserted as \<and>
     ss_effect st' = foldl (\<lambda>e a. effect_after (ra_kind a) e) (ss_effect st) as \<and>
     ss_completion st' =
       foldl max (ss_completion st) (map sa_end (place (ss_shift st) (ss_effect st) as))"
proof (induction as arbitrary: st)
  case Nil
  show ?case by (auto intro: schedule_state.equality frame_map.equality)
next
  case (Cons a as)
  have "schedule_all primary (a # as) st = Inr st' \<longleftrightarrow>
    ra_source_frame a \<le> primary \<and> kind_ok (ra_kind a) \<and> change_ok (ra_kind a) (ss_effect st) \<and>
     ra_source_frame a + ss_shift st + audio_frames (ra_kind a) \<le> u64_max \<and>
     ss_shift st + insert_frames (ra_kind a) \<le> u64_max \<and>
     schedule_all primary as (after_one a st) = Inr st'"
    by (auto simp: res_simps schedule_one_Inr)
  also have "\<dots> \<longleftrightarrow> place_ok primary (ss_shift st) (ss_effect st) (a # as) \<and>
     ss_scheduled st' = ss_scheduled st @ place (ss_shift st) (ss_effect st) (a # as) \<and>
     insertions (ss_frame_map st') =
       insertions (ss_frame_map st) @ insertions_of (place (ss_shift st) (ss_effect st) (a # as)) \<and>
     ss_shift st' = ss_shift st + total_inserted (a # as) \<and>
     ss_effect st' = foldl (\<lambda>e a. effect_after (ra_kind a) e) (ss_effect st) (a # as) \<and>
     ss_completion st' =
       foldl max (ss_completion st) (map sa_end (place (ss_shift st) (ss_effect st) (a # as)))"
    by (simp add: Cons.IH after_one_def Let_def add.assoc
        insertions_of_Cons [of "placed (ss_shift st) (ss_effect st) a" "place x y as" for x y])
  finally show ?case .
qed

section \<open>Accepted timelines\<close>

fun effects_ok :: "rstr option \<Rightarrow> timeline_action_kind list \<Rightarrow> bool" where
  "effects_ok e [] = True"
| "effects_ok e (k # ks) = (change_ok k e \<and> effects_ok (effect_after k e) ks)"

lemma place_ok_iff:
  "place_ok primary shift e as \<and> primary + shift + total_inserted as \<le> u64_max \<longleftrightarrow>
   list_all (\<lambda>a. ra_source_frame a \<le> primary \<and> kind_ok (ra_kind a)) as \<and>
   effects_ok e (map ra_kind as) \<and>
   list_all (\<lambda>x. sa_end x \<le> u64_max) (place shift e as) \<and>
   primary + shift + total_inserted as \<le> u64_max"
proof (induction as arbitrary: shift e)
  case (Cons a as)
  from Cons.IH [of "shift + insert_frames (ra_kind a)" "effect_after (ra_kind a) e"]
  show ?case by (auto simp: sa_end_def add.assoc)
qed simp

lemma build_Inr:
  "build_timeline primary actions = Inr t \<longleftrightarrow>
     (let as = sort_key ra_source_frame actions; xs = place 0 None as;
          total = primary + total_inserted as
      in place_ok primary 0 None as \<and> total \<le> u64_max \<and>
         t = \<lparr>st_frame_map = \<lparr>insertions = insertions_of xs\<rparr>, st_actions = xs,
              primary_output_frames = total,
              completion_frame = max (foldl max primary (map sa_end xs)) total\<rparr>)"
  (is "?l = ?r")
proof
  assume ?l
  then show ?r
    by (auto simp: build_timeline_def res_simps schedule_order_eq schedule_all_Inr
        checked_frame_Inr Let_def intro: scheduled_timeline.equality frame_map.equality)
next
  let ?as = "sort_key ra_source_frame actions"
  let ?xs = "place 0 None ?as"
  let ?st = "\<lparr>ss_frame_map = \<lparr>insertions = insertions_of ?xs\<rparr>, ss_scheduled = ?xs,
     ss_shift = total_inserted ?as,
     ss_effect = foldl (\<lambda>e a. effect_after (ra_kind a) e) None ?as,
     ss_completion = foldl max primary (map sa_end ?xs)\<rparr>"
  assume ?r
  then have "schedule_all primary ?as \<lparr>ss_frame_map = \<lparr>insertions = []\<rparr>, ss_scheduled = [],
      ss_shift = 0, ss_effect = None, ss_completion = primary\<rparr> = Inr ?st"
    by (simp add: schedule_all_Inr Let_def)
  with \<open>?r\<close> show ?l
    by (simp add: build_timeline_def schedule_order_eq res_simps checked_frame_Inr Let_def)
qed

lemma buildD:
  assumes "build_timeline primary actions = Inr t"
  shows "place_ok primary 0 None (sort_key ra_source_frame actions)"
    and "primary + total_inserted (sort_key ra_source_frame actions) \<le> u64_max"
    and "insertions (st_frame_map t) = insertions_of (st_actions t)"
    and "st_actions t = place 0 None (sort_key ra_source_frame actions)"
    and "primary_output_frames t = primary + total_inserted (sort_key ra_source_frame actions)"
    and "completion_frame t =
      max (foldl max primary (map sa_end (st_actions t))) (primary_output_frames t)"
  using assms by (simp_all add: build_Inr Let_def)

lemma total_inserted_mset: "total_inserted as = sum_mset (image_mset (insert_frames \<circ> ra_kind) (mset as))"
  by (simp add: total_inserted_def flip: sum_mset_sum_list)

lemma total_inserted_sort [simp]: "total_inserted (sort_key f as) = total_inserted as"
  by (simp add: total_inserted_mset)

lemma total_inserted_filter_sort [simp]:
  "total_inserted (filter P (sort_key f as)) = total_inserted (filter P as)"
  by (simp add: total_inserted_mset)

lemma list_all_sort [simp]: "list_all P (sort_key f as) = list_all P as"
  by (simp add: list_all_iff)

text \<open>
  A timeline is accepted exactly when every action lies within the primary frames and is
  well formed (positive duration, unit volume), the effect changes follow the begin, replace,
  end protocol in scheduled order, and neither the primary output nor the end of any action
  overflows the frame clock.
\<close>

theorem timeline_accepted_iff:
  "is_ok (build_timeline primary actions) \<longleftrightarrow>
     list_all (\<lambda>a. ra_source_frame a \<le> primary \<and> kind_ok (ra_kind a)) actions \<and>
     effects_ok None (map ra_kind (sort_key ra_source_frame actions)) \<and>
     list_all (\<lambda>x. sa_end x \<le> u64_max) (place 0 None (sort_key ra_source_frame actions)) \<and>
     primary + total_inserted actions \<le> u64_max"
  using place_ok_iff [of primary 0 None "sort_key ra_source_frame actions"]
  by (simp add: is_ok_iff build_Inr Let_def)

lemma place_ids: "map sa_id (place shift e as) = map (ta_id \<circ> ra_action) as"
  by (induction as arbitrary: shift e) auto

lemma length_place [simp]: "length (place shift e as) = length as"
  by (induction as arbitrary: shift e) auto

lemma place_output:
  "k < length as \<Longrightarrow>
   sa_output_frame (place shift e as ! k) =
     ra_source_frame (as ! k) + shift + total_inserted (take k as)"
  by (induction as arbitrary: shift e k) (auto simp: nth_Cons split: nat.split)

lemma place_source:
  "k < length as \<Longrightarrow> sa_source_frame (place shift e as ! k) = ra_source_frame (as ! k)"
  by (induction as arbitrary: shift e k) (auto simp: nth_Cons split: nat.split)

lemma foldl_max_Max: "foldl max (n :: nat) xs = Max (insert n (set xs))"
proof (induction xs arbitrary: n)
  case (Cons x xs)
  have "Max (insert (max n x) (set xs)) = Max (insert n (insert x (set xs)))"
    by (cases "xs = []") (auto simp: max.assoc max.commute)
  with Cons show ?case by simp
qed simp

lemma max_Max_insert:
  fixes p q :: nat
  assumes "p \<le> q" and "finite E"
  shows "max (Max (insert p E)) q = Max (insert q E)"
proof (cases "E = {}")
  case False
  have "max (max p m) q = max q m" for m using assms(1) by (simp add: max_def)
  then show ?thesis using False assms(2) by (simp only: Max_insert not_False_eq_True)
qed (use assms in simp)

lemma total_inserted_filter_le: "total_inserted (filter P as) \<le> total_inserted as"
  by (induction as) auto

lemma insertions_of_placed:
  "insertions_of [placed shift e a] =
     (if is_audio (ra_kind a) \<and> audio_mode (ra_kind a) = Insert
      then [\<lparr>fi_source_frame = ra_source_frame a, fi_output_frame = ra_source_frame a + shift,
             fi_duration_frames = insert_frames (ra_kind a)\<rparr>] else [])"
  by (cases "ra_kind a") (auto simp: insertions_of_def insert_frames_def audio_frames_def)

lemma insert_frames_0: "\<not> (is_audio k \<and> audio_mode k = Insert) \<Longrightarrow> insert_frames k = 0"
  by (cases k) (auto simp: insert_frames_def split: audio_action_mode.split)

lemma fold_frames_place:
  "s + total_inserted (filter (\<lambda>a. P (ra_source_frame a)) as) \<le> u64_max \<Longrightarrow>
   fold_frames (filter (\<lambda>i. P (fi_source_frame i)) (insertions_of (place shift e as))) s =
     Inr (s + total_inserted (filter (\<lambda>a. P (ra_source_frame a)) as))"
proof (induction as arbitrary: s shift e)
  case (Cons a as)
  let ?ins = "is_audio (ra_kind a) \<and> audio_mode (ra_kind a) = Insert"
  let ?xs = "place (shift + insert_frames (ra_kind a)) (effect_after (ra_kind a) e) as"
  have ins: "insertions_of (place shift e (a # as)) =
      insertions_of [placed shift e a] @ insertions_of ?xs"
    by (simp add: insertions_of_Cons [of "placed shift e a" ?xs])
  show ?case
  proof (cases "?ins \<and> P (ra_source_frame a)")
    case True
    with Cons.prems Cons.IH [of "s + insert_frames (ra_kind a)"] show ?thesis
      unfolding ins insertions_of_placed
      by (simp add: checked_frame_def u64_checked_add_def add.assoc)
  next
    case False
    with Cons.prems have le: "s + total_inserted (filter (\<lambda>a. P (ra_source_frame a)) as) \<le> u64_max"
      and eq: "total_inserted (filter (\<lambda>a. P (ra_source_frame a)) (a # as)) =
        total_inserted (filter (\<lambda>a. P (ra_source_frame a)) as)"
      using insert_frames_0 [of "ra_kind a"] by (auto split: if_splits)
    from False have "filter (\<lambda>i. P (fi_source_frame i)) (insertions_of [placed shift e a]) = []"
      unfolding insertions_of_placed by auto
    with Cons.IH [OF le] show ?thesis unfolding ins eq by simp
  qed
qed simp

text \<open>
  C5: an accepted timeline places the actions in order of source frame, equal frames in input
  order; the k-th is shifted by exactly the insertions scheduled before it; the primary output
  is the speech plus all insertions, and the timeline completes at the latest of the primary
  output and the ends of all its actions.
\<close>

theorem timeline_placement:
  assumes "build_timeline primary actions = Inr t"
  shows "map sa_id (st_actions t) =
           map (ta_id \<circ> ra_action) (sort_key ra_source_frame actions) \<and>
         map sa_output_frame (st_actions t) =
           map (\<lambda>k. ra_source_frame (sort_key ra_source_frame actions ! k) +
                    total_inserted (take k (sort_key ra_source_frame actions)))
             [0..<length actions] \<and>
         primary_output_frames t = primary + total_inserted actions \<and>
         completion_frame t = Max (set (primary_output_frames t # map sa_end (st_actions t)))"
proof -
  note b = buildD [OF assms]
  have "map sa_output_frame (st_actions t) =
      map (\<lambda>k. sa_output_frame (st_actions t ! k)) [0..<length actions]"
    by (rule nth_equalityI) (simp_all add: b(4))
  also have "\<dots> = map (\<lambda>k. ra_source_frame (sort_key ra_source_frame actions ! k) +
                    total_inserted (take k (sort_key ra_source_frame actions)))
             [0..<length actions]"
    by (rule map_cong) (simp_all add: b(4) place_output)
  finally have out: "map sa_output_frame (st_actions t) = \<dots>" .
  have "primary \<le> primary_output_frames t" by (simp add: b(5))
  then have "completion_frame t = Max (set (primary_output_frames t # map sa_end (st_actions t)))"
    unfolding b(6) foldl_max_Max list.set(2) by (rule max_Max_insert) simp
  with out b(4,5) place_ids show ?thesis by (intro conjI) (simp_all only: total_inserted_sort)
qed

lemma map_with_exact:
  assumes "build_timeline primary actions = Inr t" and "s \<le> primary"
  shows "map_with (st_frame_map t) s (\<lambda>i. P (fi_source_frame i)) =
      Inr (s + total_inserted (filter (\<lambda>a. P (ra_source_frame a)) actions))"
proof -
  note b = buildD [OF assms(1)]
  let ?as = "sort_key ra_source_frame actions"
  have "s + total_inserted (filter (\<lambda>a. P (ra_source_frame a)) ?as) \<le> u64_max"
    using assms(2) b(2) total_inserted_filter_le [of _ ?as] le_trans add_mono by blast
  with fold_frames_place [of s P ?as 0 None] show ?thesis
    by (simp add: map_with_def b(3,4))
qed

text \<open>
  The frame map of an accepted timeline sends each source frame of the speech to that frame
  plus all insertions strictly before it (\<open>map_before\<close>) or up to and including it
  (\<open>map_after\<close>), without overflow, and the order of the source frames is kept.
\<close>

theorem frame_map_exact:
  assumes "build_timeline primary actions = Inr t" and "s \<le> primary"
  shows "map_before (st_frame_map t) s =
           Inr (s + total_inserted (filter (\<lambda>a. ra_source_frame a < s) actions)) \<and>
         map_after (st_frame_map t) s =
           Inr (s + total_inserted (filter (\<lambda>a. ra_source_frame a \<le> s) actions))"
  unfolding map_before_def map_after_def by (intro conjI map_with_exact [OF assms])

lemma sorted_take_le:
  assumes "sorted (map f as)" "k < length as" "i < k"
  shows "f (as ! i) \<le> f (as ! k)"
  using assms sorted_iff_nth_mono [of "map f as"] by simp

lemma total_inserted_append [simp]:
  "total_inserted (xs @ ys) = total_inserted xs + total_inserted ys"
  by (induction xs) auto

text \<open>The insertions before an element of a sorted list, between the two filters.\<close>

lemma take_between_filters:
  assumes "sorted (map ra_source_frame as)" "k < length as"
  shows "total_inserted (filter (\<lambda>a. ra_source_frame a < ra_source_frame (as ! k)) as)
           \<le> total_inserted (take k as)"
    and "total_inserted (take k as)
           \<le> total_inserted (filter (\<lambda>a. ra_source_frame a \<le> ra_source_frame (as ! k)) as)"
proof -
  let ?s = "ra_source_frame (as ! k)"
  have split: "total_inserted (filter P as) =
      total_inserted (filter P (take k as)) + total_inserted (filter P (drop k as))" for P
    by (metis append_take_drop_id filter_append total_inserted_append)
  have "a \<in> set (take k as) \<Longrightarrow> ra_source_frame a \<le> ?s" for a
    using sorted_take_le [OF assms] by (auto simp: in_set_conv_nth)
  then have "filter (\<lambda>a. ra_source_frame a \<le> ?s) (take k as) = take k as"
    by (simp add: filter_id_conv)
  then show "total_inserted (take k as) \<le> total_inserted (filter (\<lambda>a. ra_source_frame a \<le> ?s) as)"
    by (simp add: split)
  have "a \<in> set (drop k as) \<Longrightarrow> ?s \<le> ra_source_frame a" for a
    using assms sorted_iff_nth_mono [of "map ra_source_frame as"]
    by (auto simp: in_set_conv_nth)
  then have "filter (\<lambda>a. ra_source_frame a < ?s) (drop k as) = []"
    by (fastforce simp: filter_empty_conv)
  then show "total_inserted (filter (\<lambda>a. ra_source_frame a < ?s) as) \<le> total_inserted (take k as)"
    by (simp add: split total_inserted_filter_le)
qed

text \<open>
  Every action lies on the output clock between the images of its source frame before and
  after the insertions anchored there.
\<close>

theorem action_between_maps:
  assumes "build_timeline primary actions = Inr t" and "x \<in> set (st_actions t)"
  shows "\<exists>b a. map_before (st_frame_map t) (sa_source_frame x) = Inr b \<and>
               map_after (st_frame_map t) (sa_source_frame x) = Inr a \<and>
               b \<le> sa_output_frame x \<and> sa_output_frame x \<le> a"
proof -
  note b = buildD [OF assms(1)]
  let ?as = "sort_key ra_source_frame actions"
  obtain k where k: "k < length ?as" "x = place 0 None ?as ! k"
    using assms(2) by (auto simp: b(4) in_set_conv_nth)
  have src: "sa_source_frame x = ra_source_frame (?as ! k)"
    using k place_source [of k ?as 0 None] by simp
  have "list_all (\<lambda>a. ra_source_frame a \<le> primary \<and> kind_ok (ra_kind a)) ?as"
    using place_ok_iff [of primary 0 None ?as] b(1,2) by simp
  then have "ra_source_frame (?as ! k) \<le> primary" using k(1) by (simp add: list_all_length)
  note maps = map_with_exact [OF assms(1) this]
  have "sorted (map ra_source_frame ?as)" by simp
  note bounds = take_between_filters [OF this k(1)]
  have "sa_output_frame x = ra_source_frame (?as ! k) + total_inserted (take k ?as)"
    using k place_output [of k ?as 0 None] by simp
  with bounds show ?thesis
    unfolding map_before_def map_after_def src
    by (simp add: maps [of "\<lambda>f. f < ra_source_frame (?as ! k)"]
        maps [of "\<lambda>f. f \<le> ra_source_frame (?as ! k)"])
qed

text \<open>What a scheduled effect change does to the state it finds.\<close>

definition effect_step_ok :: "scheduled_action \<Rightarrow> bool" where
  "effect_step_ok a =
     (case sa_kind a of
        EffectState (Begin s) \<Rightarrow> effect_state_before a = None \<and> effect_state_after a = Some s
      | EffectState (Replace s) \<Rightarrow> effect_state_before a \<noteq> None \<and> effect_state_after a = Some s
      | EffectState End \<Rightarrow> effect_state_before a \<noteq> None \<and> effect_state_after a = None
      | _ \<Rightarrow> effect_state_after a = effect_state_before a)"

lemma effect_step_placed: "change_ok (ra_kind a) e \<Longrightarrow> effect_step_ok (placed shift e a)"
  by (cases "(ra_kind a, e)" rule: change_ok.cases) (auto simp: effect_step_ok_def)

lemma place_effects:
  "effects_ok e (map ra_kind as) \<Longrightarrow>
   list_all effect_step_ok (place shift e as) \<and>
   map effect_state_before (place shift e as) =
     take (length as) (e # map effect_state_after (place shift e as))"
  by (induction as arbitrary: shift e) (auto simp: effect_step_placed)

text \<open>
  The effect snapshots of an accepted timeline form one chain from no effect: each action
  starts from the state its predecessor left, begins only when none is active, replaces and
  ends only an active one, and every other action leaves the state alone.
\<close>

theorem effect_snapshots_chain:
  assumes "build_timeline primary actions = Inr t"
  shows "list_all effect_step_ok (st_actions t) \<and>
         map effect_state_before (st_actions t) =
           take (length (st_actions t)) (None # map effect_state_after (st_actions t))"
proof -
  note b = buildD [OF assms]
  have "effects_ok None (map ra_kind (sort_key ra_source_frame actions))"
    using place_ok_iff [of primary 0 None "sort_key ra_source_frame actions"] b(1,2) by simp
  from place_effects [OF this, of 0] show ?thesis by (simp add: b(4))
qed

text \<open>
  When the clock reaches the completion frame of an accepted timeline, no action is still
  unreached and no audio is still sounding.
\<close>

theorem completion_is_final:
  assumes "build_timeline primary actions = Inr t"
  shows "unreached_action_ids t (completion_frame t) = [] \<and>
         active_audio_ids t (completion_frame t) = []"
proof -
  have ending: "sa_end x \<le> completion_frame t" if "x \<in> set (st_actions t)" for x
    using that by (auto simp: buildD(6) [OF assms] foldl_max_Max intro!: max.coboundedI1 Max_ge)
  have "sa_output_frame x \<le> completion_frame t" if "x \<in> set (st_actions t)" for x
    using ending [OF that] by (simp add: sa_end_def)
  with ending show ?thesis
    by (fastforce simp: unreached_action_ids_def active_audio_ids_def filter_empty_conv
        end_frame_Inr split: sum.splits)
qed

section \<open>The theorems at a concrete timeline\<close>

definition sample_action :: "string \<Rightarrow> nat \<Rightarrow> timeline_action_kind \<Rightarrow> resolved_timeline_action" where
  "sample_action name frame kind =
     \<lparr>ra_action = \<lparr>ta_id = lit name, ta_position = TextOffset 1 0 Before, ta_kind = kind\<rparr>,
      ra_source_frame = frame\<rparr>"

definition sample_actions :: "resolved_timeline_action list" where
  "sample_actions =
     [sample_action ''late'' 50 (Audio Overlay 30 (F32_Fin 1) Dry),
      sample_action ''chime'' 10 (Audio Insert 5 (F32_Fin (1/2)) Speech),
      sample_action ''on'' 10 (EffectState (Begin (lit ''echo''))),
      sample_action ''off'' 50 (EffectState End)]"

lemma sample_order:
  "sort_key ra_source_frame sample_actions =
     [sample_action ''chime'' 10 (Audio Insert 5 (F32_Fin (1/2)) Speech),
      sample_action ''on'' 10 (EffectState (Begin (lit ''echo''))),
      sample_action ''late'' 50 (Audio Overlay 30 (F32_Fin 1) Dry),
      sample_action ''off'' 50 (EffectState End)]"
  by (simp add: sample_actions_def sample_action_def)

definition sample_timeline :: scheduled_timeline where
  "sample_timeline =
     (let xs = place 0 None (sort_key ra_source_frame sample_actions)
      in \<lparr>st_frame_map = \<lparr>insertions = insertions_of xs\<rparr>, st_actions = xs,
          primary_output_frames = 60 + total_inserted (sort_key ra_source_frame sample_actions),
          completion_frame = max (foldl max 60 (map sa_end xs))
            (60 + total_inserted (sort_key ra_source_frame sample_actions))\<rparr>)"

lemma sample_action_simps [simp]:
  "ra_kind (sample_action n f k) = k" "ra_source_frame (sample_action n f k) = f"
  by (simp_all add: sample_action_def)

lemma sample_total: "total_inserted (sort_key ra_source_frame sample_actions) = 5"
  unfolding sample_order by (simp add: insert_frames_def)

lemma sample_built: "build_timeline 60 sample_actions = Inr sample_timeline"
proof -
  have "place_ok 60 0 None (sort_key ra_source_frame sample_actions)"
    unfolding sample_order
    by (simp add: kind_ok_def insert_frames_def audio_frames_def u64_max_def)
  moreover have "60 + total_inserted (sort_key ra_source_frame sample_actions) \<le> u64_max"
    unfolding sample_total by (simp add: u64_max_def)
  ultimately show ?thesis unfolding build_Inr sample_timeline_def Let_def by blast
qed

lemma sample_placed:
  "st_actions sample_timeline =
     [placed 0 None (sample_action ''chime'' 10 (Audio Insert 5 (F32_Fin (1/2)) Speech)),
      placed 5 None (sample_action ''on'' 10 (EffectState (Begin (lit ''echo'')))),
      placed 5 (Some (lit ''echo'')) (sample_action ''late'' 50 (Audio Overlay 30 (F32_Fin 1) Dry)),
      placed 5 (Some (lit ''echo'')) (sample_action ''off'' 50 (EffectState End))]"
  by (simp add: sample_timeline_def sample_order Let_def insert_frames_def)

lemma sample_completion: "completion_frame sample_timeline = 85"
proof -
  have "completion_frame sample_timeline =
      max (foldl max 60 (map sa_end (st_actions sample_timeline)))
        (60 + total_inserted (sort_key ra_source_frame sample_actions))"
    by (simp add: sample_timeline_def Let_def)
  also have "\<dots> = 85"
    unfolding sample_placed sample_order by (simp add: sa_end_def insert_frames_def audio_frames_def)
  finally show ?thesis .
qed

theorem timeline_placement_witness:
  "Max (set (primary_output_frames sample_timeline # map sa_end (st_actions sample_timeline))) = 85"
  using timeline_placement [OF sample_built] by (simp only: sample_completion)

end
