(* ===== verification/Contracts.thy ===== *)
theory Contracts
  imports Rust_Float "HOL-Library.Multiset"
begin

text \<open>
  The engine and voice vocabulary of \<open>omnivox-tts/src/contracts.rs\<close>: physical voice identity
  and its order, availability and health, capabilities, the normalized ACSS and post-synthesis
  styles with their clamping and degradation, text repertoires, engine descriptors with the
  lookup of an advertised or combined voice, and voice selectors.
\<close>

section \<open>Identity, availability and health\<close>

datatype physical_voice_id = PhysicalVoiceId (pv_engine_id: rstr) (pv_voice_id: rstr)

text \<open>The derived \<open>Ord\<close>: engine first, then voice, each in UTF-8 order.\<close>

instantiation physical_voice_id :: linorder
begin

definition less_eq_physical_voice_id :: "physical_voice_id \<Rightarrow> physical_voice_id \<Rightarrow> bool" where
  "less_eq_physical_voice_id v w \<longleftrightarrow>
     pv_engine_id v < pv_engine_id w \<or>
     pv_engine_id v = pv_engine_id w \<and> pv_voice_id v \<le> pv_voice_id w"

definition less_physical_voice_id :: "physical_voice_id \<Rightarrow> physical_voice_id \<Rightarrow> bool" where
  "less_physical_voice_id v w \<longleftrightarrow>
     pv_engine_id v < pv_engine_id w \<or>
     pv_engine_id v = pv_engine_id w \<and> pv_voice_id v < pv_voice_id w"

instance
  by standard
    (auto simp: less_eq_physical_voice_id_def less_physical_voice_id_def
      intro: physical_voice_id.expand)

end

datatype availability = Available | Unavailable rstr

fun is_available :: "availability \<Rightarrow> bool" where
  "is_available Available = True"
| "is_available (Unavailable reason) = False"

datatype engine_health = Healthy | Degraded rstr | Failed rstr

text \<open>A degraded engine may still synthesize.\<close>

fun health_can_synthesize :: "engine_health \<Rightarrow> bool" where
  "health_can_synthesize (Failed reason) = False"
| "health_can_synthesize h = True"

section \<open>Capabilities\<close>

datatype audio_output_mode = BufferedPcm | StreamingPcm | ExternalPlayback

datatype cancellation_support = CancelNone | PlaybackOnly | SynthesisAndPlayback

datatype concurrency_model = Serialized | Concurrent "nat option"

datatype anchor_support = AnchorNone | WordBoundary | AnchorExact

record marker_capabilities =
  mk_word :: bool
  mk_sentence :: bool
  mk_phoneme :: bool
  mk_native_index :: bool
  requested_anchors :: anchor_support

datatype acss_dimension = Rate | AveragePitch | PitchRange | Stress | Richness | Volume

datatype post_synthesis_dimension = Gain | LowPass | HighPass | Pan | Chorus | Reverb | Echo

record acss_capabilities =
  ac_rate :: bool
  ac_average_pitch :: bool
  ac_pitch_range :: bool
  ac_stress :: bool
  ac_richness :: bool
  ac_volume :: bool

fun acss_supports :: "acss_capabilities \<Rightarrow> acss_dimension \<Rightarrow> bool" where
  "acss_supports c Rate = ac_rate c"
| "acss_supports c AveragePitch = ac_average_pitch c"
| "acss_supports c PitchRange = ac_pitch_range c"
| "acss_supports c Stress = ac_stress c"
| "acss_supports c Richness = ac_richness c"
| "acss_supports c Volume = ac_volume c"

section \<open>Normalized styles\<close>

definition clamp_normalized :: "f32 \<Rightarrow> f32" where
  "clamp_normalized v = (if is_nan v then F32_Fin (1/2) else f32_clamp (F32_Fin 0) (F32_Fin 1) v)"

lemma clamp_normalized_unit: "f32_unit (clamp_normalized v)"
  by (auto simp: clamp_normalized_def is_nan_def intro: f32_clamp_in)

lemma clamp_normalized_id: "f32_unit v \<Longrightarrow> clamp_normalized v = v"
  by (auto simp: clamp_normalized_def is_nan_def f32_clamp_id dest: f32_in_finite)

record post_synthesis_style =
  ps_gain :: "f32 option"
  ps_low_pass :: "f32 option"
  ps_high_pass :: "f32 option"
  ps_pan :: "f32 option"
  ps_chorus :: "f32 option"
  ps_reverb :: "f32 option"
  ps_echo :: "f32 option"

definition ps_clamped :: "post_synthesis_style \<Rightarrow> post_synthesis_style" where
  "ps_clamped s =
     \<lparr>ps_gain = map_option clamp_normalized (ps_gain s),
      ps_low_pass = map_option clamp_normalized (ps_low_pass s),
      ps_high_pass = map_option clamp_normalized (ps_high_pass s),
      ps_pan = map_option clamp_normalized (ps_pan s),
      ps_chorus = map_option clamp_normalized (ps_chorus s),
      ps_reverb = map_option clamp_normalized (ps_reverb s),
      ps_echo = map_option clamp_normalized (ps_echo s)\<rparr>"

definition active_dimensions :: "post_synthesis_style \<Rightarrow> post_synthesis_dimension list" where
  "active_dimensions s =
     (if ps_gain s \<noteq> None then [Gain] else []) @
     (if ps_low_pass s \<noteq> None then [LowPass] else []) @
     (if ps_high_pass s \<noteq> None then [HighPass] else []) @
     (if ps_pan s \<noteq> None then [Pan] else []) @
     (if ps_chorus s \<noteq> None then [Chorus] else []) @
     (if ps_reverb s \<noteq> None then [Reverb] else []) @
     (if ps_echo s \<noteq> None then [Echo] else [])"

definition omit_post_synthesis ::
    "f32 option \<Rightarrow> 'd \<Rightarrow> 'd list \<Rightarrow> 'd list \<Rightarrow> f32 option \<times> 'd list" where
  "omit_post_synthesis value dimension supported omitted =
     (if value \<noteq> None \<and> dimension \<notin> set supported then (None, omitted @ [dimension])
      else (value, omitted))"

record post_synthesis_application =
  psa_style :: post_synthesis_style
  psa_omitted :: "post_synthesis_dimension list"

definition ps_degrade_for ::
    "post_synthesis_style \<Rightarrow> post_synthesis_dimension list \<Rightarrow> post_synthesis_application" where
  "ps_degrade_for style0 supported =
     (let s = ps_clamped style0;
          (gain, om) = omit_post_synthesis (ps_gain s) Gain supported [];
          (low_pass, om) = omit_post_synthesis (ps_low_pass s) LowPass supported om;
          (high_pass, om) = omit_post_synthesis (ps_high_pass s) HighPass supported om;
          (pan, om) = omit_post_synthesis (ps_pan s) Pan supported om;
          (chorus, om) = omit_post_synthesis (ps_chorus s) Chorus supported om;
          (reverb, om) = omit_post_synthesis (ps_reverb s) Reverb supported om;
          (echo, om) = omit_post_synthesis (ps_echo s) Echo supported om
      in \<lparr>psa_style = \<lparr>ps_gain = gain, ps_low_pass = low_pass, ps_high_pass = high_pass,
                       ps_pan = pan, ps_chorus = chorus, ps_reverb = reverb, ps_echo = echo\<rparr>,
          psa_omitted = om\<rparr>)"

definition buffered_post_synthesis_dimensions :: "post_synthesis_dimension list" where
  "buffered_post_synthesis_dimensions = [Gain, LowPass, HighPass, Pan, Chorus, Reverb, Echo]"

fun ps_dimension :: "post_synthesis_style \<Rightarrow> post_synthesis_dimension \<Rightarrow> f32 option" where
  "ps_dimension s Gain = ps_gain s"
| "ps_dimension s LowPass = ps_low_pass s"
| "ps_dimension s HighPass = ps_high_pass s"
| "ps_dimension s Pan = ps_pan s"
| "ps_dimension s Chorus = ps_chorus s"
| "ps_dimension s Reverb = ps_reverb s"
| "ps_dimension s Echo = ps_echo s"

record normalized_acss =
  na_rate :: "f32 option"
  na_average_pitch :: "f32 option"
  na_pitch_range :: "f32 option"
  na_stress :: "f32 option"
  na_richness :: "f32 option"
  na_volume :: "f32 option"

definition na_clamped :: "normalized_acss \<Rightarrow> normalized_acss" where
  "na_clamped s =
     \<lparr>na_rate = map_option clamp_normalized (na_rate s),
      na_average_pitch = map_option clamp_normalized (na_average_pitch s),
      na_pitch_range = map_option clamp_normalized (na_pitch_range s),
      na_stress = map_option clamp_normalized (na_stress s),
      na_richness = map_option clamp_normalized (na_richness s),
      na_volume = map_option clamp_normalized (na_volume s)\<rparr>"

definition omit_unsupported ::
    "f32 option \<Rightarrow> acss_dimension \<Rightarrow> acss_capabilities \<Rightarrow> acss_dimension list \<Rightarrow>
     f32 option \<times> acss_dimension list" where
  "omit_unsupported value dimension caps omitted =
     (if value \<noteq> None \<and> \<not> acss_supports caps dimension then (None, omitted @ [dimension])
      else (value, omitted))"

record acss_application =
  aa_style :: normalized_acss
  aa_omitted :: "acss_dimension list"

definition na_degrade_for :: "normalized_acss \<Rightarrow> acss_capabilities \<Rightarrow> acss_application" where
  "na_degrade_for style0 caps =
     (let s = na_clamped style0;
          (rate, om) = omit_unsupported (na_rate s) Rate caps [];
          (average_pitch, om) = omit_unsupported (na_average_pitch s) AveragePitch caps om;
          (pitch_range, om) = omit_unsupported (na_pitch_range s) PitchRange caps om;
          (stress, om) = omit_unsupported (na_stress s) Stress caps om;
          (richness, om) = omit_unsupported (na_richness s) Richness caps om;
          (volume, om) = omit_unsupported (na_volume s) Volume caps om
      in \<lparr>aa_style = \<lparr>na_rate = rate, na_average_pitch = average_pitch,
                      na_pitch_range = pitch_range, na_stress = stress,
                      na_richness = richness, na_volume = volume\<rparr>,
          aa_omitted = om\<rparr>)"

fun na_dimension :: "normalized_acss \<Rightarrow> acss_dimension \<Rightarrow> f32 option" where
  "na_dimension s Rate = na_rate s"
| "na_dimension s AveragePitch = na_average_pitch s"
| "na_dimension s PitchRange = na_pitch_range s"
| "na_dimension s Stress = na_stress s"
| "na_dimension s Richness = na_richness s"
| "na_dimension s Volume = na_volume s"

text \<open>\<open>base_rate + f32::from(offset) / 100.0\<close>, each operation rounded, then clamped.\<close>

definition apply_rate_offset :: "f32 \<Rightarrow> int \<Rightarrow> f32" where
  "apply_rate_offset base_rate offset =
     f32_clamp (F32_Fin 0) (F32_Fin 1) (f32_add base_rate (round_f32 (of_int offset / 100)))"

lemma apply_rate_offset_unit: "is_finite base \<Longrightarrow> f32_unit (apply_rate_offset base offset)"
  by (simp add: apply_rate_offset_def f32_clamp_in f32_add_not_nan round_f32_not_nan)

lemma omit_post_synthesis_eq:
  "omit_post_synthesis v d supported om =
     (if d \<in> set supported then v else None,
      om @ (if v \<noteq> None \<and> d \<notin> set supported then [d] else []))"
  by (auto simp: omit_post_synthesis_def)

lemma omit_unsupported_eq:
  "omit_unsupported v d caps om =
     (if acss_supports caps d then v else None,
      om @ (if v \<noteq> None \<and> \<not> acss_supports caps d then [d] else []))"
  by (auto simp: omit_unsupported_def)

section \<open>Text repertoires\<close>

datatype text_repertoire = UnknownText | Unicode | Windows1252 | Iso8859_1 | Koi8R

text \<open>
  The 27 characters of code page 1252 outside Latin-1, in the source's order.
\<close>

definition windows_1252_extra :: "rchar list" where
  "windows_1252_extra =
     [0x20ac, 0x201a, 0x0192, 0x201e, 0x2026, 0x2020, 0x2021, 0x02c6, 0x2030, 0x0160, 0x2039,
      0x0152, 0x017d, 0x2018, 0x2019, 0x201c, 0x201d, 0x2022, 0x2013, 0x2014, 0x02dc, 0x2122,
      0x0161, 0x203a, 0x0153, 0x017e, 0x0178]"

definition windows_1252_supports :: "rchar \<Rightarrow> bool" where
  "windows_1252_supports c \<longleftrightarrow>
     c < 128 \<or> 0xa0 \<le> c \<and> c \<le> 0xff \<or> c \<in> set windows_1252_extra"

fun supports_character :: "text_repertoire \<Rightarrow> rchar \<Rightarrow> bool" where
  "supports_character Unicode c = True"
| "supports_character Iso8859_1 c = (c \<le> 0xff)"
| "supports_character Windows1252 c = windows_1252_supports c"
| "supports_character Koi8R c =
     (c < 128 \<or> c = 0x401 \<or> c = 0x451 \<or> 0x410 \<le> c \<and> c \<le> 0x44f)"
| "supports_character UnknownText c = (c < 128)"

text \<open>\<open>char_indices().find(..)\<close>: the loop carries the byte offset of the character.\<close>

fun first_unsupported_from ::
    "text_repertoire \<Rightarrow> nat \<Rightarrow> rstr \<Rightarrow> (nat \<times> rchar) option" where
  "first_unsupported_from r offset [] = None"
| "first_unsupported_from r offset (c # cs) =
     (if \<not> supports_character r c then Some (offset, c)
      else first_unsupported_from r (offset + utf8_len c) cs)"

definition first_unsupported :: "text_repertoire \<Rightarrow> rstr \<Rightarrow> (nat \<times> rchar) option" where
  "first_unsupported r s = first_unsupported_from r 0 s"

definition supports_text :: "text_repertoire \<Rightarrow> rstr \<Rightarrow> bool" where
  "supports_text r s \<longleftrightarrow> first_unsupported r s = None"

lemma first_unsupported_from_None:
  "first_unsupported_from r n s = None \<longleftrightarrow> (\<forall>c \<in> set s. supports_character r c)"
  by (induction s arbitrary: n) auto

lemma first_unsupported_from_Some:
  "first_unsupported_from r n s = Some (off, c) \<Longrightarrow>
   \<exists>pre post. s = pre @ c # post \<and> off = n + str_len pre \<and>
     (\<forall>d \<in> set pre. supports_character r d) \<and> \<not> supports_character r c"
proof (induction s arbitrary: n)
  case (Cons d ds)
  show ?case
  proof (cases "supports_character r d")
    case True
    with Cons obtain pre post where "ds = pre @ c # post" "off = n + utf8_len d + str_len pre"
      "\<forall>d \<in> set pre. supports_character r d" "\<not> supports_character r c"
      by fastforce
    with True show ?thesis by (intro exI [of _ "d # pre"] exI [of _ post]) simp
  next
    case False
    with Cons.prems show ?thesis by (intro exI [of _ "[]"] exI [of _ ds]) simp
  qed
qed simp

lemma supports_text_iff: "supports_text r s \<longleftrightarrow> (\<forall>c \<in> set s. supports_character r c)"
  by (simp add: supports_text_def first_unsupported_def first_unsupported_from_None)

section \<open>Descriptors\<close>

record native_extension_descriptor =
  ne_id :: rstr
  ne_description :: rstr

record engine_capabilities =
  ec_acss :: acss_capabilities
  ec_audio_output :: audio_output_mode
  ec_cancellation :: cancellation_support
  ec_concurrency :: concurrency_model
  ec_markers :: marker_capabilities
  ec_language_switching :: bool
  ec_text_repertoire :: text_repertoire
  ec_post_synthesis_dimensions :: "post_synthesis_dimension list"
  ec_native_extensions :: "native_extension_descriptor list"

datatype voice_gender = Female | Male | Neutral

datatype voice_quality = Compact | Enhanced | Premium

record voice_info =
  vi_identifier :: rstr
  vi_name :: rstr
  vi_language :: rstr
  vi_quality :: voice_quality

record voice_descriptor =
  vd_id :: physical_voice_id
  vd_display_name :: rstr
  vd_language :: "rstr option"
  vd_gender :: "voice_gender option"
  vd_quality :: voice_quality
  vd_availability :: availability

definition from_voice_info :: "rstr \<Rightarrow> voice_info \<Rightarrow> voice_descriptor" where
  "from_voice_info engine_id voice =
     \<lparr>vd_id = PhysicalVoiceId engine_id (vi_identifier voice),
      vd_display_name = vi_name voice,
      vd_language = (if vi_language voice = [] then None else Some (vi_language voice)),
      vd_gender = None,
      vd_quality = vi_quality voice,
      vd_availability = Available\<rparr>"

record espeak_variant_descriptor =
  ev_id :: rstr
  ev_display_name :: rstr

text \<open>\<open>str::split\<close> on a set of separator characters.\<close>

fun split_on :: "(rchar \<Rightarrow> bool) \<Rightarrow> rstr \<Rightarrow> rstr list" where
  "split_on P [] = [[]]"
| "split_on P (c # cs) =
     (if P c then [] # split_on P cs
      else case split_on P cs of [] \<Rightarrow> [[c]] | w # ws \<Rightarrow> (c # w) # ws)"

definition safe_part :: "rstr \<Rightarrow> bool" where
  "safe_part p \<longleftrightarrow> p \<noteq> [] \<and> list_all (\<lambda>c. is_ascii_alphanumeric c \<or> c = 45 \<or> c = 95) p"

text \<open>\<open>safe\<close> tests bytes; no byte of a multi-byte character passes, so it tests characters.\<close>

definition valid_espeak_combination :: "rstr \<Rightarrow> bool" where
  "valid_espeak_combination vid =
     (case strip_prefix (lit ''espeak:'') vid of
        None \<Rightarrow> False
      | Some native \<Rightarrow>
          (case split_once 43 native of
             None \<Rightarrow> False
           | Some (base, variant) \<Rightarrow>
               str_len native \<le> 39 \<and>
               list_all safe_part (split_on (\<lambda>c. c = 47 \<or> c = 92) base) \<and>
               safe_part variant \<and> \<not> is_ascii_digit (hd variant)))"

record engine_descriptor =
  ed_id :: rstr
  ed_display_name :: rstr
  ed_version :: "rstr option"
  ed_availability :: availability
  ed_health :: engine_health
  ed_capabilities :: engine_capabilities
  ed_voices :: "voice_descriptor list"
  ed_default_voice_id :: "rstr option"
  ed_espeak_variants :: "espeak_variant_descriptor list"

text \<open>
  \<open>EngineDescriptor::voice\<close>: an advertised row first, then a bundled eSpeak combination of an
  advertised base voice and an advertised variant.
\<close>

definition combined_voice :: "engine_descriptor \<Rightarrow> rstr \<Rightarrow> voice_descriptor option" where
  "combined_voice d vid =
     (if ed_id d \<noteq> lit ''espeak'' \<or> \<not> valid_espeak_combination vid then None
      else
        (case split_once 43 vid of
           None \<Rightarrow> None
         | Some (base, suffix) \<Rightarrow>
             (case find (\<lambda>ev. ev_id ev = suffix) (ed_espeak_variants d) of
                None \<Rightarrow> None
              | Some variant \<Rightarrow>
                  (case find (\<lambda>v. pv_voice_id (vd_id v) = base) (ed_voices d) of
                     None \<Rightarrow> None
                   | Some v \<Rightarrow>
                       Some (v\<lparr>vd_id := PhysicalVoiceId (pv_engine_id (vd_id v)) vid,
                               vd_display_name :=
                                 vd_display_name v @ lit '' + '' @ ev_display_name variant,
                               vd_gender := None\<rparr>)))))"

definition descriptor_voice :: "engine_descriptor \<Rightarrow> rstr \<Rightarrow> voice_descriptor option" where
  "descriptor_voice d vid =
     (case find (\<lambda>v. pv_voice_id (vd_id v) = vid) (ed_voices d) of
        Some v \<Rightarrow> Some v
      | None \<Rightarrow> combined_voice d vid)"

definition default_acss_capabilities :: acss_capabilities where
  "default_acss_capabilities =
     \<lparr>ac_rate = False, ac_average_pitch = False, ac_pitch_range = False, ac_stress = False,
      ac_richness = False, ac_volume = False\<rparr>"

definition default_marker_capabilities :: marker_capabilities where
  "default_marker_capabilities =
     \<lparr>mk_word = False, mk_sentence = False, mk_phoneme = False, mk_native_index = False,
      requested_anchors = AnchorNone\<rparr>"

definition unavailable_engine :: "rstr \<Rightarrow> rstr \<Rightarrow> engine_descriptor" where
  "unavailable_engine eid reason =
     \<lparr>ed_id = eid, ed_display_name = eid, ed_version = None,
      ed_availability = Unavailable reason, ed_health = Failed reason,
      ed_capabilities =
        \<lparr>ec_acss = default_acss_capabilities, ec_audio_output = BufferedPcm,
         ec_cancellation = CancelNone, ec_concurrency = Serialized,
         ec_markers = default_marker_capabilities, ec_language_switching = False,
         ec_text_repertoire = UnknownText, ec_post_synthesis_dimensions = [],
         ec_native_extensions = []\<rparr>,
      ed_voices = [], ed_default_voice_id = None, ed_espeak_variants = []\<rparr>"

definition engine_can_synthesize :: "engine_descriptor \<Rightarrow> bool" where
  "engine_can_synthesize d \<longleftrightarrow>
     is_available (ed_availability d) \<and> health_can_synthesize (ed_health d)"

section \<open>Selectors and definitions\<close>

datatype voice_selector =
  Exact physical_voice_id
| EngineDefault rstr
| Properties "rstr option" "rstr option" "voice_gender option"

fun selector_engine_id :: "voice_selector \<Rightarrow> rstr option" where
  "selector_engine_id (Exact v) = Some (pv_engine_id v)"
| "selector_engine_id (EngineDefault e) = Some e"
| "selector_engine_id (Properties e l g) = e"

record logical_voice_definition =
  lv_id :: rstr
  lv_language :: "rstr option"
  lv_preferences :: "voice_selector list"
  lv_acss :: normalized_acss
  lv_effects :: post_synthesis_style

record fallback_policy =
  fp_preferred_engines :: "rstr list"
  fp_allow_same_language :: bool
  fp_global_default :: "voice_selector option"
  fp_fallback_engines :: "rstr list"

section \<open>Lookup and degradation\<close>

lemma find_id_Some: "find P xs = Some x \<Longrightarrow> x \<in> set xs \<and> P x"
  by (auto simp: find_Some_iff)

lemma find_unique:
  assumes "distinct (map f xs)" "x \<in> set xs"
  shows "find (\<lambda>y. f y = f x) xs = Some x"
  using assms by (induction xs) auto

lemma find_None_map: "find (\<lambda>y. f y = k) xs = None \<longleftrightarrow> k \<notin> f ` set xs"
  by (auto simp: find_None_iff)

lemma find_mset_cong:
  assumes "mset xs = mset ys" "distinct (map f xs)"
  shows "find (\<lambda>y. f y = k) xs = find (\<lambda>y. f y = k) ys"
proof (cases "find (\<lambda>y. f y = k) xs")
  case None
  from mset_eq_setD [OF assms(1)] None have "find (\<lambda>y. f y = k) ys = None"
    unfolding find_None_map by simp
  with None show ?thesis by simp
next
  case (Some x)
  then have x: "x \<in> set ys" "f x = k"
    using mset_eq_setD [OF assms(1)] find_id_Some [OF Some] by auto
  have "distinct (map f ys)" using assms by (metis mset_eq_imp_distinct_iff mset_map)
  from find_unique [OF this x(1)] x(2) Some show ?thesis by simp
qed

lemma combined_voice_Some:
  "combined_voice d vid = Some v \<longleftrightarrow>
     ed_id d = lit ''espeak'' \<and> valid_espeak_combination vid \<and>
     (\<exists>base suffix variant row.
        split_once 43 vid = Some (base, suffix) \<and>
        find (\<lambda>ev. ev_id ev = suffix) (ed_espeak_variants d) = Some variant \<and>
        find (\<lambda>v. pv_voice_id (vd_id v) = base) (ed_voices d) = Some row \<and>
        v = row\<lparr>vd_id := PhysicalVoiceId (pv_engine_id (vd_id row)) vid,
                vd_display_name := vd_display_name row @ lit '' + '' @ ev_display_name variant,
                vd_gender := None\<rparr>)"
  by (auto simp: combined_voice_def split: option.split)

lemma descriptor_voice_cases:
  assumes "descriptor_voice d vid = Some v"
  obtains (row) "v \<in> set (ed_voices d)" "pv_voice_id (vd_id v) = vid"
  | (combined) "combined_voice d vid = Some v"
      "find (\<lambda>v. pv_voice_id (vd_id v) = vid) (ed_voices d) = None"
  using assms by (auto simp: descriptor_voice_def split: option.splits dest: find_id_Some)

lemma descriptor_voice_id:
  assumes "descriptor_voice d vid = Some v"
  shows "pv_voice_id (vd_id v) = vid"
  using assms by (rule descriptor_voice_cases) (auto simp: combined_voice_Some)

lemma descriptor_voice_row:
  assumes "descriptor_voice d vid = Some v"
  shows "\<exists>row \<in> set (ed_voices d). vd_availability v = vd_availability row \<and>
           vd_language v = vd_language row \<and> pv_engine_id (vd_id v) = pv_engine_id (vd_id row)"
  using assms
  by (rule descriptor_voice_cases) (auto simp: combined_voice_Some dest!: find_id_Some)

lemma unit_option: "pred_option f32_unit (map_option clamp_normalized x)"
  by (auto simp: option.pred_set clamp_normalized_unit)

lemma map_clamp_twice:
  "map_option clamp_normalized (map_option clamp_normalized x) = map_option clamp_normalized x"
  by (cases x) (simp_all add: clamp_normalized_unit clamp_normalized_id)

lemma filter_singleton_if:
  "filter P (if b then [x] else []) = (if b \<and> P x then [x] else [])"
  by (cases b) auto

lemma ps_degrade_eq:
  "ps_degrade_for s sp =
     \<lparr>psa_style =
        (let keep = (\<lambda>d v. if d \<in> set sp then map_option clamp_normalized v else None)
         in \<lparr>ps_gain = keep Gain (ps_gain s), ps_low_pass = keep LowPass (ps_low_pass s),
             ps_high_pass = keep HighPass (ps_high_pass s), ps_pan = keep Pan (ps_pan s),
             ps_chorus = keep Chorus (ps_chorus s), ps_reverb = keep Reverb (ps_reverb s),
             ps_echo = keep Echo (ps_echo s)\<rparr>),
      psa_omitted = filter (\<lambda>d. d \<notin> set sp) (active_dimensions s)\<rparr>"
  unfolding ps_degrade_for_def ps_clamped_def omit_post_synthesis_eq active_dimensions_def
    Let_def prod.case filter_append filter_singleton_if append_Nil append_assoc
    post_synthesis_style.simps option.map_disc_iff
  by (rule refl)

lemma na_degrade_eq:
  "na_degrade_for s caps =
     \<lparr>aa_style =
        (let keep = (\<lambda>d v. if acss_supports caps d then map_option clamp_normalized v else None)
         in \<lparr>na_rate = keep Rate (na_rate s),
             na_average_pitch = keep AveragePitch (na_average_pitch s),
             na_pitch_range = keep PitchRange (na_pitch_range s),
             na_stress = keep Stress (na_stress s), na_richness = keep Richness (na_richness s),
             na_volume = keep Volume (na_volume s)\<rparr>),
      aa_omitted =
        filter (\<lambda>d. na_dimension s d \<noteq> None \<and> \<not> acss_supports caps d)
          [Rate, AveragePitch, PitchRange, Stress, Richness, Volume]\<rparr>"
proof -
  have cons: "filter P (x # xs) = (if P x then [x] else []) @ filter P xs" for P and x :: 'a and xs
    by simp
  show ?thesis
    unfolding na_degrade_for_def na_clamped_def omit_unsupported_eq Let_def prod.case cons
      append_Nil append_assoc normalized_acss.simps option.map_disc_iff na_dimension.simps
      filter.simps(1) append_Nil2
    by (rule refl)
qed

text \<open>
  Degrading a post-synthesis style keeps exactly the supported dimensions, each clamped into
  the unit range (NaN to the middle), and reports exactly the dimensions that were set and are
  not supported, in the fixed order of the dimensions.
\<close>

theorem ps_degrade_effect:
  "ps_dimension (psa_style (ps_degrade_for s supported)) d =
     (if d \<in> set supported then map_option clamp_normalized (ps_dimension s d) else None) \<and>
   pred_option f32_unit (ps_dimension (psa_style (ps_degrade_for s supported)) d) \<and>
   psa_omitted (ps_degrade_for s supported) =
     filter (\<lambda>d. d \<notin> set supported) (active_dimensions s)"
  unfolding ps_degrade_eq by (cases d) (simp_all add: Let_def unit_option)

text \<open>
  Degrading an ACSS style keeps exactly the dimensions the engine supports, each clamped,
  and reports exactly the set dimensions it leaves out; degrading the result again changes
  nothing and omits nothing.
\<close>

theorem na_degrade_effect:
  "na_dimension (aa_style (na_degrade_for s caps)) d =
     (if acss_supports caps d then map_option clamp_normalized (na_dimension s d) else None) \<and>
   (d \<in> set (aa_omitted (na_degrade_for s caps))) =
     (na_dimension s d \<noteq> None \<and> \<not> acss_supports caps d) \<and>
   na_degrade_for (aa_style (na_degrade_for s caps)) caps =
     \<lparr>aa_style = aa_style (na_degrade_for s caps), aa_omitted = []\<rparr>"
proof (intro conjI)
  let ?style = "aa_style (na_degrade_for s caps)"
  have dims: "na_dimension ?style d' =
     (if acss_supports caps d' then map_option clamp_normalized (na_dimension s d') else None)" for d'
    unfolding na_degrade_eq by (cases d') (simp_all add: Let_def)
  then show "na_dimension ?style d =
     (if acss_supports caps d then map_option clamp_normalized (na_dimension s d) else None)" .
  have "d \<in> set [Rate, AveragePitch, PitchRange, Stress, Richness, Volume]" by (cases d) simp_all
  then show "(d \<in> set (aa_omitted (na_degrade_for s caps))) =
     (na_dimension s d \<noteq> None \<and> \<not> acss_supports caps d)"
    unfolding na_degrade_eq acss_application.simps set_filter by blast
  have "aa_style (na_degrade_for ?style caps) = ?style"
    unfolding na_degrade_eq by (simp add: Let_def map_clamp_twice)
  moreover have "aa_omitted (na_degrade_for ?style caps) = []"
    unfolding na_degrade_eq [of ?style] acss_application.simps dims by (auto intro: filter_False)
  ultimately show "na_degrade_for ?style caps = \<lparr>aa_style = ?style, aa_omitted = []\<rparr>"
    by (intro acss_application.equality) simp_all
qed

text \<open>
  The character reported as unsupported is the first one the repertoire cannot encode, at
  its UTF-8 byte offset; no report means that every character can be encoded.
\<close>

theorem first_unsupported_spec:
  "case first_unsupported r s of
     None \<Rightarrow> list_all (supports_character r) s
   | Some (off, c) \<Rightarrow>
       \<exists>pre post. s = pre @ c # post \<and> off = str_len pre \<and>
         list_all (supports_character r) pre \<and> \<not> supports_character r c"
proof (cases "first_unsupported r s")
  case None
  with first_unsupported_from_None [of r 0 s] show ?thesis
    by (simp add: first_unsupported_def list_all_iff)
next
  case (Some p)
  obtain off c where p: "p = (off, c)" by (rule prod.exhaust)
  with Some have "first_unsupported_from r 0 s = Some (off, c)"
    by (simp add: first_unsupported_def)
  from first_unsupported_from_Some [OF this] Some p show ?thesis
    by (simp add: list_all_iff)
qed

end
