(* ===== verification/Synthesis.thy ===== *)
theory Synthesis
  imports Contracts
begin

text \<open>
  The synthesis contract of \<open>omnivox-tts/src/synthesis.rs\<close>: requests, results, the resolution of
  requested anchors and the validation every engine result passes before it is used, with the
  errors and settings of \<open>omnivox-tts/src/lib.rs\<close> and the style application of
  \<open>omnivox-cli/src/routing.rs\<close>. Audio is its interleaved samples; a cancellation token is an
  identity and is left to the callers that poll it.
\<close>

section \<open>Data\<close>

datatype tts_error =
  TtsVoiceNotFound rstr
| TtsSynthesisFailed rstr
| TtsNotAvailable
| TtsInvalidParameter rstr

fun tts_error_text :: "tts_error \<Rightarrow> rstr" where
  "tts_error_text (TtsVoiceNotFound m) = lit ''Voice not found: '' @ m"
| "tts_error_text (TtsSynthesisFailed m) = lit ''Synthesis failed: '' @ m"
| "tts_error_text TtsNotAvailable = lit ''Engine not available''"
| "tts_error_text (TtsInvalidParameter m) = lit ''Invalid parameter: '' @ m"

record tts_settings =
  se_voice :: rstr
  se_rate :: f32
  se_pitch :: f32
  se_volume :: f32

definition channels :: nat where "channels = 2"
definition standard_sample_rate :: nat where "standard_sample_rate = 44100"

record audio_buffer =
  ab_samples :: "f32 list"

definition frame_count :: "audio_buffer \<Rightarrow> nat" where
  "frame_count a = length (ab_samples a) div channels"

definition max_synthesis_anchors :: nat where "max_synthesis_anchors = 4096"
definition max_synthesis_anchor_id_bytes :: nat where "max_synthesis_anchor_id_bytes = 128"

datatype anchor_affinity = AffinityBefore | AffinityAfter

record requested_anchor =
  rq_id :: rstr
  rq_text_offset :: nat
  rq_affinity :: anchor_affinity

datatype anchor_resolution =
  ResolvedExact | ResolvedWordBoundary | ResolvedSpanBoundary | ResolvedOmitted

record resolved_anchor =
  ra_id :: rstr
  ra_frame_offset :: "nat option"
  ra_resolution :: anchor_resolution

datatype synthesis_marker_kind = WordMarker | SentenceMarker | PhonemeMarker | NativeIndexMarker

record synthesis_marker =
  sm_kind :: synthesis_marker_kind
  sm_frame_offset :: nat
  sm_text_start :: "nat option"
  sm_text_length :: "nat option"
  sm_value :: "rstr option"

record synthesis_request =
  sq_text :: rstr
  sq_settings :: tts_settings
  sq_normalized_acss :: normalized_acss
  sq_requested_voice :: "physical_voice_id option"
  sq_logical_voice_id :: "rstr option"
  sq_language :: "rstr option"
  sq_anchors :: "requested_anchor list"

record synthesis_result =
  sr_audio :: audio_buffer
  sr_engine_id :: rstr
  sr_actual_voice :: "physical_voice_id option"
  sr_markers :: "synthesis_marker list"
  sr_anchors :: "resolved_anchor list"
  sr_degraded_acss :: "acss_dimension list"

definition empty_acss :: normalized_acss where
  "empty_acss =
     \<lparr>na_rate = None, na_average_pitch = None, na_pitch_range = None, na_stress = None,
      na_richness = None, na_volume = None\<rparr>"

definition new_request :: "rstr \<Rightarrow> tts_settings \<Rightarrow> synthesis_request" where
  "new_request t settings =
     \<lparr>sq_text = t, sq_settings = settings, sq_normalized_acss = empty_acss,
      sq_requested_voice = None, sq_logical_voice_id = None, sq_language = None, sq_anchors = []\<rparr>"

definition with_normalized_acss :: "normalized_acss \<Rightarrow> synthesis_request \<Rightarrow> synthesis_request" where
  "with_normalized_acss style r = r\<lparr>sq_normalized_acss := na_clamped style\<rparr>"

definition voice_id_for_engine :: "synthesis_request \<Rightarrow> rstr \<Rightarrow> tts_error + rstr" where
  "voice_id_for_engine r engine_id =
     (case sq_requested_voice r of
        Some v \<Rightarrow>
          if pv_engine_id v \<noteq> engine_id
          then Inl (TtsInvalidParameter (lit ''request targets engine '' @ pv_engine_id v @
                                         lit '' but was sent to '' @ engine_id))
          else Inr (pv_voice_id v)
      | None \<Rightarrow> Inr (se_voice (sq_settings r)))"

section \<open>Resolving anchors\<close>

text \<open>\<open>Iterator::min_by_key\<close> keeps the first minimum, \<open>max_by_key\<close> the last maximum.\<close>

fun min_by_key :: "('a \<Rightarrow> 'k::linorder) \<Rightarrow> 'a list \<Rightarrow> 'a option" where
  "min_by_key f [] = None"
| "min_by_key f (x # xs) =
     (case min_by_key f xs of
        None \<Rightarrow> Some x | Some y \<Rightarrow> if f y < f x then Some y else Some x)"

fun max_by_key :: "('a \<Rightarrow> 'k::linorder) \<Rightarrow> 'a list \<Rightarrow> 'a option" where
  "max_by_key f [] = None"
| "max_by_key f (x # xs) =
     (case max_by_key f xs of
        None \<Rightarrow> Some x | Some y \<Rightarrow> if f y < f x then Some x else Some y)"

definition word_starts :: "synthesis_marker list \<Rightarrow> (nat \<times> nat) list" where
  "word_starts markers =
     List.map_filter (\<lambda>m. map_option (\<lambda>start. (start, sm_frame_offset m)) (sm_text_start m))
       (filter (\<lambda>m. sm_kind m = WordMarker) markers)"

definition approximate_at_word_boundary ::
    "requested_anchor \<Rightarrow> synthesis_marker list \<Rightarrow> nat \<Rightarrow> resolved_anchor option" where
  "approximate_at_word_boundary r markers frames =
     map_option
       (\<lambda>(start, frame).
          \<lparr>ra_id = rq_id r, ra_frame_offset = Some (min frame frames),
           ra_resolution = ResolvedWordBoundary\<rparr>)
       (case rq_affinity r of
          AffinityBefore \<Rightarrow>
            min_by_key fst (filter (\<lambda>(start, _). rq_text_offset r \<le> start) (word_starts markers))
        | AffinityAfter \<Rightarrow>
            max_by_key fst (filter (\<lambda>(start, _). start \<le> rq_text_offset r) (word_starts markers)))"

definition completed_anchor ::
    "anchor_support \<Rightarrow> synthesis_marker list \<Rightarrow> nat \<Rightarrow> requested_anchor \<Rightarrow> resolved_anchor" where
  "completed_anchor support markers frames r =
     (case (case support of
              AnchorNone \<Rightarrow> None
            | _ \<Rightarrow> approximate_at_word_boundary r markers frames) of
        Some a \<Rightarrow> a
      | None \<Rightarrow> \<lparr>ra_id = rq_id r, ra_frame_offset = None, ra_resolution = ResolvedOmitted\<rparr>)"

definition resolve_one ::
    "anchor_support \<Rightarrow> synthesis_marker list \<Rightarrow> nat \<Rightarrow> resolved_anchor list \<Rightarrow> requested_anchor \<Rightarrow>
     resolved_anchor list" where
  "resolve_one support markers frames anchors r =
     (if list_ex (\<lambda>a. ra_id a = rq_id r) anchors then anchors
      else anchors @ [completed_anchor support markers frames r])"

fun position_of :: "rstr list \<Rightarrow> rstr \<Rightarrow> nat option" where
  "position_of [] x = None"
| "position_of (y # ys) x = (if y = x then Some 0 else map_option Suc (position_of ys x))"

definition anchor_key :: "requested_anchor list \<Rightarrow> resolved_anchor \<Rightarrow> nat" where
  "anchor_key requested a =
     (case position_of (map rq_id requested) (ra_id a) of Some i \<Rightarrow> i | None \<Rightarrow> usize_max)"

definition resolve_anchors ::
    "synthesis_request \<Rightarrow> anchor_support \<Rightarrow> synthesis_result \<Rightarrow> synthesis_result" where
  "resolve_anchors r support result =
     result\<lparr>sr_anchors :=
       sort_key (anchor_key (sq_anchors r))
         (foldl (resolve_one support (sr_markers result) (frame_count (sr_audio result)))
            (sr_anchors result) (sq_anchors r))\<rparr>"

section \<open>Validation\<close>

definition invalid_result :: "rstr \<Rightarrow> tts_error" where
  "invalid_result m = TtsSynthesisFailed (lit ''invalid synthesis result: '' @ m)"

fun validate_requested_from ::
    "rstr \<Rightarrow> rstr set \<Rightarrow> requested_anchor list \<Rightarrow> tts_error + unit" where
  "validate_requested_from t seen [] = Inr ()"
| "validate_requested_from t seen (a # as) =
     (if rq_id a = [] \<or> max_synthesis_anchor_id_bytes < str_len (rq_id a)
      then Inl (TtsInvalidParameter (lit ''requested anchor ID is empty or too long''))
      else if rq_id a \<in> seen
      then Inl (TtsInvalidParameter (lit ''duplicate requested anchor ID: '' @ rq_id a))
      else if str_len t < rq_text_offset a \<or> \<not> is_char_boundary t (rq_text_offset a)
      then Inl (TtsInvalidParameter (lit ''requested anchor '' @ rq_id a @
                  lit '' is not a UTF-8 boundary in the synthesis text''))
      else validate_requested_from t (insert (rq_id a) seen) as)"

definition validate_requested_anchors :: "requested_anchor list \<Rightarrow> rstr \<Rightarrow> tts_error + unit" where
  "validate_requested_anchors anchors t =
     (if max_synthesis_anchors < length anchors
      then Inl (TtsInvalidParameter (lit ''synthesis request exceeds the '' @
                  show_nat max_synthesis_anchors @ lit ''-anchor limit''))
      else validate_requested_from t {} anchors)"

definition with_anchors ::
    "requested_anchor list \<Rightarrow> synthesis_request \<Rightarrow> tts_error + synthesis_request" where
  "with_anchors anchors r =
     and_then (validate_requested_anchors anchors (sq_text r)) (\<lambda>_. Inr (r\<lparr>sq_anchors := anchors\<rparr>))"

fun validate_resolved_from ::
    "requested_anchor list \<Rightarrow> nat \<Rightarrow> rstr set \<Rightarrow> resolved_anchor list \<Rightarrow> tts_error + unit" where
  "validate_resolved_from requested frames seen [] = Inr ()"
| "validate_resolved_from requested frames seen (a # as) =
     (if ra_id a \<in> seen \<or> \<not> list_ex (\<lambda>r. rq_id r = ra_id a) requested
      then Inl (invalid_result (lit ''unknown or duplicate resolved anchor ID: '' @ ra_id a))
      else
        (case (ra_resolution a = ResolvedOmitted, ra_frame_offset a) of
           (True, None) \<Rightarrow> validate_resolved_from requested frames (insert (ra_id a) seen) as
         | (False, Some offset) \<Rightarrow>
             if frames < offset
             then Inl (invalid_result (lit ''anchor offset '' @ show_nat offset @
                         lit '' exceeds audio frame count '' @ show_nat frames))
             else validate_resolved_from requested frames (insert (ra_id a) seen) as
         | _ \<Rightarrow> Inl (invalid_result (lit ''resolved anchor '' @ ra_id a @
                       lit '' has inconsistent omission state''))))"

definition validate_resolved_anchors ::
    "resolved_anchor list \<Rightarrow> requested_anchor list \<Rightarrow> nat \<Rightarrow> tts_error + unit" where
  "validate_resolved_anchors resolved requested frames =
     (if length resolved \<noteq> length requested
      then Inl (invalid_result (lit ''resolved '' @ show_nat (length resolved) @
                  lit '' anchors for '' @ show_nat (length requested) @ lit '' requests''))
      else validate_resolved_from requested frames {} resolved)"

definition validate_text_range :: "synthesis_marker \<Rightarrow> rstr \<Rightarrow> tts_error + unit" where
  "validate_text_range m t =
     (case (sm_text_start m, sm_text_length m) of
        (Some start, Some len) \<Rightarrow>
          and_then (ok_or (u64_checked_add start len)
                      (invalid_result (lit ''marker source range overflowed''))) (\<lambda>stop.
            let range = show_nat start @ lit ''..'' @ show_nat stop
            in if str_len t < stop
               then Inl (invalid_result (lit ''marker source range '' @ range @
                           lit '' exceeds text length '' @ show_nat (str_len t)))
               else if \<not> is_char_boundary t start \<or> \<not> is_char_boundary t stop
               then Inl (invalid_result (lit ''marker source range '' @ range @
                           lit '' is not on UTF-8 boundaries''))
               else Inr ())
      | (None, None) \<Rightarrow> Inr ()
      | _ \<Rightarrow> Inl (invalid_result (lit ''marker source range must contain both start and length'')))"

text \<open>
  The message of a voice mismatch prints the ids with \<open>Debug\<close> formatting; \<open>debug_voice\<close> gives
  the ids without the escapes.
\<close>

definition debug_voice :: "physical_voice_id \<Rightarrow> rstr" where
  "debug_voice v =
     lit ''PhysicalVoiceId { engine_id: '' @ pv_engine_id v @ lit '', voice_id: '' @ pv_voice_id v @
     lit '' }''"

definition debug_voice_option :: "physical_voice_id option \<Rightarrow> rstr" where
  "debug_voice_option v =
     (case v of None \<Rightarrow> lit ''None'' | Some v \<Rightarrow> lit ''Some('' @ debug_voice v @ lit '')'')"

definition validate_marker :: "nat \<Rightarrow> rstr \<Rightarrow> synthesis_marker \<Rightarrow> tts_error + unit" where
  "validate_marker frames t m =
     (if frames < sm_frame_offset m
      then Inl (invalid_result (lit ''marker offset '' @ show_nat (sm_frame_offset m) @
                  lit '' exceeds audio frame count '' @ show_nat frames))
      else validate_text_range m t)"

definition validate_result :: "synthesis_request \<Rightarrow> synthesis_result \<Rightarrow> tts_error + unit" where
  "validate_result r result =
     and_then (validate_requested_anchors (sq_anchors r) (sq_text r)) (\<lambda>_.
       if sr_engine_id result = [] then Inl (invalid_result (lit ''engine ID is empty''))
       else
         and_then
           (case sr_actual_voice result of
              Some v \<Rightarrow>
                if pv_engine_id v \<noteq> sr_engine_id result
                then Inl (invalid_result (lit ''actual voice engine '' @ pv_engine_id v @
                            lit '' does not match result engine '' @ sr_engine_id result))
                else Inr ()
            | None \<Rightarrow> Inr ()) (\<lambda>_.
         and_then
           (case sq_requested_voice r of
              Some v \<Rightarrow>
                if pv_engine_id v \<noteq> sr_engine_id result
                then Inl (invalid_result (lit ''result engine '' @ sr_engine_id result @
                            lit '' does not match requested engine '' @ pv_engine_id v))
                else if sr_actual_voice result \<noteq> Some v
                then Inl (invalid_result (lit ''actual voice '' @
                            debug_voice_option (sr_actual_voice result) @
                            lit '' does not match exact requested voice '' @ debug_voice v))
                else Inr ()
            | None \<Rightarrow> Inr ()) (\<lambda>_.
         and_then
           (check_each (validate_marker (frame_count (sr_audio result)) (sq_text r))
              (sr_markers result)) (\<lambda>_.
           validate_resolved_anchors (sr_anchors result) (sq_anchors r)
             (frame_count (sr_audio result))))))"

section \<open>The canonical clock\<close>

definition scale_frame_offset :: "nat \<Rightarrow> nat \<Rightarrow> nat \<Rightarrow> nat \<Rightarrow> nat" where
  "scale_frame_offset offset source_rate target_rate target_frames =
     (if source_rate = 0 then 0
      else
        (let numerator = offset * target_rate + source_rate div 2;
             scaled = numerator div source_rate
         in min (if scaled \<le> u64_max then scaled else u64_max) target_frames))"

definition rescale_timing :: "nat \<Rightarrow> synthesis_result \<Rightarrow> synthesis_result" where
  "rescale_timing source_rate result =
     (if source_rate = standard_sample_rate then result
      else
        let target_frames = frame_count (sr_audio result);
            scale = (\<lambda>n. scale_frame_offset n source_rate standard_sample_rate target_frames)
        in result\<lparr>sr_markers := map (\<lambda>m. m\<lparr>sm_frame_offset := scale (sm_frame_offset m)\<rparr>)
                                  (sr_markers result),
                  sr_anchors := map (\<lambda>a. a\<lparr>ra_frame_offset := map_option scale (ra_frame_offset a)\<rparr>)
                                  (sr_anchors result)\<rparr>)"

section \<open>Applying a style\<close>

definition pitch_levels :: "rat list" where
  "pitch_levels = [5/10, 6/10, 7/10, 8/10, 9/10, 1, 12/10, 14/10, 17/10, 2]"

fun f32_map2 :: "(rat \<Rightarrow> rat \<Rightarrow> rat) \<Rightarrow> f32 \<Rightarrow> f32 \<Rightarrow> f32" where
  "f32_map2 f (F32_Fin x) (F32_Fin y) = round_f32 (f x y)"
| "f32_map2 f x y = F32_NaN"

text \<open>Each operation rounds; \<open>f32_map2\<close> is only used on finite values here.\<close>

definition normalized_average_pitch :: "f32 \<Rightarrow> f32" where
  "normalized_average_pitch value =
     (case f32_map2 (*) (f32_clamp (F32_Fin 0) (F32_Fin 1) value) (F32_Fin 9) of
        F32_Fin position \<Rightarrow>
          let lower = nat \<lfloor>position\<rfloor>;
              upper = min (lower + 1) (length pitch_levels - 1);
              level = (\<lambda>i. round_f32 (pitch_levels ! i));
              fraction = round_f32 (position - of_nat lower)
          in f32_add (level lower) (f32_map2 (*) (f32_map2 (-) (level upper) (level lower)) fraction)
      | _ \<Rightarrow> F32_NaN)"

definition apply_normalized_acss :: "normalized_acss \<Rightarrow> tts_settings \<Rightarrow> tts_settings" where
  "apply_normalized_acss style s =
     (let s = (case na_rate style of None \<Rightarrow> s | Some r \<Rightarrow> s\<lparr>se_rate := r\<rparr>);
          s = (case na_average_pitch style of
                 None \<Rightarrow> s | Some p \<Rightarrow> s\<lparr>se_pitch := normalized_average_pitch p\<rparr>)
      in case na_volume style of None \<Rightarrow> s | Some v \<Rightarrow> s\<lparr>se_volume := v\<rparr>)"

section \<open>What validation guarantees\<close>

definition requested_anchor_ok :: "rstr \<Rightarrow> requested_anchor \<Rightarrow> bool" where
  "requested_anchor_ok t a \<longleftrightarrow>
     rq_id a \<noteq> [] \<and> str_len (rq_id a) \<le> 128 \<and> is_char_boundary t (rq_text_offset a)"

lemma validate_requested_from_Inr:
  "validate_requested_from t seen as = Inr () \<longleftrightarrow>
     (\<forall>a \<in> set as. requested_anchor_ok t a) \<and> distinct (map rq_id as) \<and>
     set (map rq_id as) \<inter> seen = {}"
  by (induction t seen as rule: validate_requested_from.induct)
    (auto simp: requested_anchor_ok_def max_synthesis_anchor_id_bytes_def dest: is_char_boundary_le)

lemma validate_requested_Inr:
  "validate_requested_anchors as t = Inr () \<longleftrightarrow>
     length as \<le> 4096 \<and> (\<forall>a \<in> set as. requested_anchor_ok t a) \<and> distinct (map rq_id as)"
  by (auto simp: validate_requested_anchors_def validate_requested_from_Inr max_synthesis_anchors_def)

definition resolved_anchor_ok :: "nat \<Rightarrow> resolved_anchor \<Rightarrow> bool" where
  "resolved_anchor_ok frames a \<longleftrightarrow>
     (case ra_frame_offset a of
        None \<Rightarrow> ra_resolution a = ResolvedOmitted
      | Some offset \<Rightarrow> ra_resolution a \<noteq> ResolvedOmitted \<and> offset \<le> frames)"

lemma validate_resolved_from_Cons:
  "validate_resolved_from requested frames seen (a # anchors) = Inr () \<longleftrightarrow>
     ra_id a \<notin> seen \<and> ra_id a \<in> rq_id ` set requested \<and> resolved_anchor_ok frames a \<and>
     validate_resolved_from requested frames (insert (ra_id a) seen) anchors = Inr ()"
proof -
  have "list_ex (\<lambda>r. rq_id r = ra_id a) requested \<longleftrightarrow> ra_id a \<in> rq_id ` set requested"
    unfolding list_ex_iff image_iff by metis
  then show ?thesis
    by (cases "ra_frame_offset a"; cases "ra_resolution a = ResolvedOmitted")
      (auto simp: resolved_anchor_ok_def)
qed

lemma validate_resolved_from_Inr:
  "validate_resolved_from requested frames seen anchors = Inr () \<longleftrightarrow>
     (\<forall>a \<in> set anchors. resolved_anchor_ok frames a \<and> ra_id a \<in> rq_id ` set requested) \<and>
     distinct (map ra_id anchors) \<and> set (map ra_id anchors) \<inter> seen = {}"
proof (induction anchors arbitrary: seen)
  case (Cons a anchors)
  show ?case unfolding validate_resolved_from_Cons Cons.IH by auto
qed simp

lemma validate_resolved_Inr:
  "validate_resolved_anchors as requested frames = Inr () \<longleftrightarrow>
     length as = length requested \<and>
     (\<forall>a \<in> set as. resolved_anchor_ok frames a \<and> ra_id a \<in> rq_id ` set requested) \<and>
     distinct (map ra_id as)"
  by (auto simp: validate_resolved_anchors_def validate_resolved_from_Inr)

section \<open>Anchor resolution\<close>

lemma position_of_None: "position_of ids x = None \<longleftrightarrow> x \<notin> set ids"
  by (induction ids) auto

lemma position_of_nth: "distinct ids \<Longrightarrow> i < length ids \<Longrightarrow> position_of ids (ids ! i) = Some i"
  by (induction ids arbitrary: i) (auto simp: nth_Cons split: nat.splits)

lemma completed_anchor_ok:
  "ra_id (completed_anchor support markers frames r) = rq_id r \<and>
   resolved_anchor_ok frames (completed_anchor support markers frames r)"
  by (auto simp: completed_anchor_def approximate_at_word_boundary_def resolved_anchor_ok_def
      split: option.split anchor_support.split)

lemma resolve_one_keeps: "set anchors \<subseteq> set (resolve_one support markers frames anchors r)"
  by (auto simp: resolve_one_def)

lemma resolve_one_id: "rq_id r \<in> ra_id ` set (resolve_one support markers frames anchors r)"
  using completed_anchor_ok [of support markers frames r]
  by (force simp: resolve_one_def list_ex_iff)

lemma resolve_all_keeps:
  "set anchors \<subseteq> set (foldl (resolve_one support markers frames) anchors rs)"
proof (induction rs arbitrary: anchors)
  case (Cons r rs)
  from resolve_one_keeps Cons.IH show ?case by (fastforce intro: order_trans)
qed simp

lemma resolve_all_ids:
  "rq_id ` set rs \<subseteq> ra_id ` set (foldl (resolve_one support markers frames) anchors rs)"
proof (induction rs arbitrary: anchors)
  case (Cons r rs)
  let ?as = "resolve_one support markers frames anchors r"
  have "rq_id r \<in> ra_id ` set (foldl (resolve_one support markers frames) ?as rs)"
    using resolve_one_id [of r support markers frames anchors]
      resolve_all_keeps [of ?as support markers frames rs] by blast
  with Cons.IH [of ?as] show ?case by simp
qed simp

lemma resolve_all_id:
  "rq_id ` set rs \<subseteq> ra_id ` set anchors \<Longrightarrow>
   foldl (resolve_one support markers frames) anchors rs = anchors"
proof (induction rs)
  case (Cons r rs)
  then have "list_ex (\<lambda>a. ra_id a = rq_id r) anchors" by (auto simp: list_ex_iff)
  with Cons show ?case by (simp add: resolve_one_def)
qed simp

lemma sort_key_again: "sort_key f (sort_key f xs) = sort_key f xs"
  by (rule sort_key_id_if_sorted) simp

lemma sorted_by_position:
  assumes "distinct ids" "distinct (map ra_id anchors)" "ra_id ` set anchors = set ids"
    and "sorted (map (\<lambda>a. case position_of ids (ra_id a) of Some i \<Rightarrow> i | None \<Rightarrow> usize_max) anchors)"
  shows "map ra_id anchors = ids"
proof -
  let ?p = "\<lambda>x. case position_of ids x of Some i \<Rightarrow> i | None \<Rightarrow> usize_max"
  have p: "map ?p ids = [0..<length ids]"
    by (rule nth_equalityI) (use assms(1) in \<open>simp_all add: position_of_nth\<close>)
  have inj: "inj_on ?p (set ids)"
    using p by (metis distinct_map distinct_upt)
  have "sorted (map ?p (map ra_id anchors))" using assms(4) by (simp add: o_def)
  moreover have "distinct (map ?p (map ra_id anchors))"
    using assms(2,3) inj by (subst distinct_map) simp
  moreover have "set (map ?p (map ra_id anchors)) = set (map ?p ids)" by (simp only: set_map assms(3))
  ultimately have "map ?p (map ra_id anchors) = map ?p ids"
    using p by (intro sorted_distinct_set_unique) auto
  then show ?thesis
    by (rule map_inj_on) (use inj assms(3) in auto)
qed

lemma resolve_anchors_ids:
  assumes "distinct (map rq_id (sq_anchors r))"
    and "distinct (map ra_id (sr_anchors (resolve_anchors r support result)))"
    and "ra_id ` set (sr_anchors (resolve_anchors r support result)) \<subseteq> rq_id ` set (sq_anchors r)"
  shows "map ra_id (sr_anchors (resolve_anchors r support result)) = map rq_id (sq_anchors r)"
proof (rule sorted_by_position)
  have "rq_id ` set (sq_anchors r) \<subseteq> ra_id ` set (sr_anchors (resolve_anchors r support result))"
    unfolding resolve_anchors_def using resolve_all_ids by simp
  with assms(3) show "ra_id ` set (sr_anchors (resolve_anchors r support result)) =
      set (map rq_id (sq_anchors r))"
    by simp
  have "sorted (map (anchor_key (sq_anchors r)) (sr_anchors (resolve_anchors r support result)))"
    by (simp add: resolve_anchors_def)
  then show "sorted (map (\<lambda>a. case position_of (map rq_id (sq_anchors r)) (ra_id a) of
      Some i \<Rightarrow> i | None \<Rightarrow> usize_max) (sr_anchors (resolve_anchors r support result)))"
    by (simp add: anchor_key_def [abs_def])
qed (use assms in simp_all)

lemma validate_result_Inr:
  "validate_result r result = Inr () \<longleftrightarrow>
     validate_requested_anchors (sq_anchors r) (sq_text r) = Inr () \<and> sr_engine_id result \<noteq> [] \<and>
     (\<forall>v. sr_actual_voice result = Some v \<longrightarrow> pv_engine_id v = sr_engine_id result) \<and>
     (\<forall>v. sq_requested_voice r = Some v \<longrightarrow> sr_actual_voice result = Some v) \<and>
     (\<forall>m \<in> set (sr_markers result).
        validate_marker (frame_count (sr_audio result)) (sq_text r) m = Inr ()) \<and>
     validate_resolved_anchors (sr_anchors result) (sq_anchors r) (frame_count (sr_audio result)) =
       Inr ()"
  by (auto simp: validate_result_def and_then_Inr check_each_Inr split: option.splits if_splits)

lemma accepted_result:
  assumes "validate_result r (resolve_anchors r support raw) = Inr ()"
  shows "map ra_id (sr_anchors (resolve_anchors r support raw)) = map rq_id (sq_anchors r) \<and>
    (\<forall>a \<in> set (sr_anchors (resolve_anchors r support raw)).
       resolved_anchor_ok (frame_count (sr_audio raw)) a) \<and>
    (\<forall>m \<in> set (sr_markers raw). sm_frame_offset m \<le> frame_count (sr_audio raw)) \<and>
    (\<forall>v. sq_requested_voice r = Some v \<longrightarrow>
       sr_actual_voice raw = Some v \<and> sr_engine_id raw = pv_engine_id v)"
proof -
  let ?res = "resolve_anchors r support raw"
  have raw: "sr_audio ?res = sr_audio raw" "sr_markers ?res = sr_markers raw"
    "sr_actual_voice ?res = sr_actual_voice raw" "sr_engine_id ?res = sr_engine_id raw"
    by (simp_all add: resolve_anchors_def)
  note v = assms [unfolded validate_result_Inr validate_resolved_Inr validate_requested_Inr raw]
  have "map ra_id (sr_anchors ?res) = map rq_id (sq_anchors r)"
    using v by (intro resolve_anchors_ids) auto
  moreover have "sm_frame_offset m \<le> frame_count (sr_audio raw)" if "m \<in> set (sr_markers raw)" for m
    using v that by (auto simp: validate_marker_def split: if_splits)
  ultimately show ?thesis using v by auto
qed

text \<open>
  C12: a result the host accepts answers the request: it comes from the requested engine and voice,
  its anchors are exactly the requested ones, once each and in request order, each either omitted
  or inside the audio, and every marker lies inside the audio.
\<close>

theorem accepted_result_answers:
  assumes "validate_result r (resolve_anchors r support raw) = Inr ()"
  shows "map ra_id (sr_anchors (resolve_anchors r support raw)) = map rq_id (sq_anchors r) \<and>
    (\<forall>a \<in> set (sr_anchors (resolve_anchors r support raw)).
       resolved_anchor_ok (frame_count (sr_audio raw)) a) \<and>
    (\<forall>m \<in> set (sr_markers raw). sm_frame_offset m \<le> frame_count (sr_audio raw)) \<and>
    (\<forall>v. sq_requested_voice r = Some v \<longrightarrow>
       sr_actual_voice raw = Some v \<and> sr_engine_id raw = pv_engine_id v)"
  by (rule accepted_result [OF assms])

text \<open>
  The common boundary may be crossed twice: completing the anchors of a result that was
  already completed, whatever support is advertised the second time, changes nothing.
\<close>

theorem resolve_anchors_idempotent:
  "resolve_anchors r support' (resolve_anchors r support raw) = resolve_anchors r support raw"
proof -
  let ?as = "sr_anchors (resolve_anchors r support raw)"
  have "rq_id ` set (sq_anchors r) \<subseteq> ra_id ` set ?as"
    unfolding resolve_anchors_def using resolve_all_ids by simp
  then have "foldl (resolve_one support' (sr_markers raw) (frame_count (sr_audio raw))) ?as
      (sq_anchors r) = ?as"
    by (rule resolve_all_id)
  then show ?thesis
    by (simp add: resolve_anchors_def sort_key_again)
qed

lemma completed_all:
  "distinct (map rq_id rs) \<Longrightarrow> ra_id ` set anchors \<inter> rq_id ` set rs = {} \<Longrightarrow>
   foldl (resolve_one support markers frames) anchors rs =
     anchors @ map (completed_anchor support markers frames) rs"
proof (induction rs arbitrary: anchors)
  case (Cons r rs)
  let ?c = "completed_anchor support markers frames r"
  have "\<not> list_ex (\<lambda>a. ra_id a = rq_id r) anchors" using Cons.prems(2)
    unfolding list_ex_iff by (metis disjoint_iff imageI list.set_intros(1))
  moreover have "ra_id ` set (anchors @ [?c]) \<inter> rq_id ` set rs = {}"
    using Cons.prems completed_anchor_ok [of support markers frames r] by auto
  ultimately show ?case using Cons.IH [of "anchors @ [?c]"] Cons.prems(1) by (simp add: resolve_one_def)
qed simp

text \<open>
  An engine without anchor support never fails a request for lack of it: when it returns no
  anchors of its own, the fallback completes every valid request to anchors that pass validation.
\<close>

theorem fallback_anchors_valid:
  assumes "validate_requested_anchors (sq_anchors r) (sq_text r) = Inr ()" "sr_anchors raw = []"
  shows "validate_resolved_anchors (sr_anchors (resolve_anchors r support raw)) (sq_anchors r)
           (frame_count (sr_audio raw)) = Inr ()"
proof -
  let ?frames = "frame_count (sr_audio raw)"
  let ?c = "completed_anchor support (sr_markers raw) ?frames"
  have d: "distinct (map rq_id (sq_anchors r))" using assms(1) by (simp add: validate_requested_Inr)
  have "set (sr_anchors (resolve_anchors r support raw)) = ?c ` set (sq_anchors r)"
    "length (sr_anchors (resolve_anchors r support raw)) = length (sq_anchors r)"
    using completed_all [OF d, of "[]"] assms(2) by (simp_all add: resolve_anchors_def)
  moreover have "distinct (map ra_id (sort_key (anchor_key (sq_anchors r)) (map ?c (sq_anchors r))))"
  proof -
    have "map ra_id (map ?c (sq_anchors r)) = map rq_id (sq_anchors r)"
      by (simp add: completed_anchor_ok)
    with d have "distinct (map ra_id (map ?c (sq_anchors r)))" by metis
    then show ?thesis by (simp only: distinct_map distinct_sort set_sort)
  qed
  then have "distinct (map ra_id (sr_anchors (resolve_anchors r support raw)))"
    using completed_all [OF d, of "[]"] assms(2) by (simp add: resolve_anchors_def)
  ultimately show ?thesis
    using completed_anchor_ok by (auto simp: validate_resolved_Inr)
qed

text \<open>Rescaling to the canonical clock keeps positions ordered and inside the audio.\<close>

lemma scale_frame_offset_le: "scale_frame_offset n source target frames \<le> frames"
  by (simp add: scale_frame_offset_def Let_def)

lemma scale_frame_offset_mono:
  assumes "m \<le> n"
  shows "scale_frame_offset m source target frames \<le> scale_frame_offset n source target frames"
proof -
  have "(m * target + source div 2) div source \<le> (n * target + source div 2) div source"
    using assms by (intro div_le_mono add_right_mono mult_right_mono) simp_all
  then show ?thesis by (auto simp: scale_frame_offset_def Let_def)
qed

lemma rescaled_markers_inside:
  assumes "source_rate \<noteq> standard_sample_rate" "m \<in> set (sr_markers (rescale_timing source_rate result))"
  shows "sm_frame_offset m \<le> frame_count (sr_audio result)"
  using assms by (auto simp: rescale_timing_def Let_def scale_frame_offset_le)

section \<open>Examples\<close>

definition sample_request :: synthesis_request where
  "sample_request =
     (new_request (lit ''ab'') \<lparr>se_voice = lit ''w'', se_rate = F32_Fin 1, se_pitch = F32_Fin 1,
                               se_volume = F32_Fin 1\<rparr>)
       \<lparr>sq_requested_voice := Some (PhysicalVoiceId (lit ''a'') (lit ''w'')),
        sq_anchors := [\<lparr>rq_id = lit ''y'', rq_text_offset = 1, rq_affinity = AffinityAfter\<rparr>,
                       \<lparr>rq_id = lit ''x'', rq_text_offset = 2, rq_affinity = AffinityBefore\<rparr>]\<rparr>"

definition sample_result :: synthesis_result where
  "sample_result =
     \<lparr>sr_audio = \<lparr>ab_samples = [F32_Fin 0, F32_Fin 0, F32_Fin 0, F32_Fin 0]\<rparr>,
      sr_engine_id = lit ''a'', sr_actual_voice = Some (PhysicalVoiceId (lit ''a'') (lit ''w'')),
      sr_markers = [\<lparr>sm_kind = WordMarker, sm_frame_offset = 1, sm_text_start = Some 0,
                     sm_text_length = Some 1, sm_value = None\<rparr>],
      sr_anchors = [], sr_degraded_acss = []\<rparr>"

lemmas sample_synthesis =
  sample_request_def sample_result_def new_request_def frame_count_def channels_def lit_Cons

lemma sample_requested_valid:
  "validate_requested_anchors (sq_anchors sample_request) (sq_text sample_request) = Inr ()"
  by (simp add: sample_synthesis validate_requested_Inr requested_anchor_ok_def utf8_len_def)

lemma sample_completed:
  "sr_anchors (resolve_anchors sample_request WordBoundary sample_result) =
     [\<lparr>ra_id = lit ''y'', ra_frame_offset = Some 1, ra_resolution = ResolvedWordBoundary\<rparr>,
      \<lparr>ra_id = lit ''x'', ra_frame_offset = None, ra_resolution = ResolvedOmitted\<rparr>]"
  by (simp add: sample_synthesis resolve_anchors_def resolve_one_def completed_anchor_def
      approximate_at_word_boundary_def word_starts_def List.map_filter_def anchor_key_def)

theorem accepted_result_answers_witness:
  "map ra_id (sr_anchors (resolve_anchors sample_request WordBoundary sample_result)) =
     [lit ''y'', lit ''x'']"
proof -
  have "validate_result sample_request (resolve_anchors sample_request WordBoundary sample_result) =
      Inr ()"
    unfolding validate_result_Inr validate_resolved_Inr sample_completed
    using sample_requested_valid
    by (simp add: sample_synthesis resolve_anchors_def validate_marker_def validate_text_range_def
        u64_checked_add_def u64_max_def utf8_len_def resolved_anchor_ok_def)
  from accepted_result_answers [OF this] show ?thesis by (simp add: sample_synthesis)
qed

end
