(* ===== verification/Voice_Eligibility.thy ===== *)
theory Voice_Eligibility
  imports Synthesis
begin

text \<open>
  Administrative voice eligibility (\<open>omnivox-tts/src/voice_library/eligibility.rs\<close>) and the
  descriptor validation of \<open>engine_registry.rs\<close>: which physical voices a session may use, the
  projection of a discovered descriptor onto them, and the admission check of a guarded engine.
  The \<open>HashSet\<close> of disabled voices is the list of its members; \<open>project_descriptor\<close> sorts the
  part it iterates.
\<close>

section \<open>Descriptor validation\<close>

datatype engine_registry_error =
  PolicyAlreadyPublished
| EmptyEngineId
| InvalidVariantCatalogue rstr
| DuplicateEngine rstr
| ForeignVoice rstr rstr
| DuplicateVoice rstr rstr
| MissingDefaultVoice rstr rstr
| UnknownEngine rstr
| ChangedEngineId rstr rstr

fun variants_bad :: "rstr \<Rightarrow> rstr set \<Rightarrow> espeak_variant_descriptor list \<Rightarrow> bool" where
  "variants_bad eid seen [] = False"
| "variants_bad eid seen (v # vs) =
     (eid \<noteq> lit ''espeak'' \<or> 512 < str_len (ev_display_name v) \<or>
      \<not> valid_espeak_combination (lit ''espeak:en+'' @ ev_id v) \<or>
      ev_id v \<in> seen \<or> variants_bad eid (insert (ev_id v) seen) vs)"

fun check_voices ::
    "rstr \<Rightarrow> rstr set \<Rightarrow> voice_descriptor list \<Rightarrow> engine_registry_error + rstr set" where
  "check_voices eid seen [] = Inr seen"
| "check_voices eid seen (v # vs) =
     (if pv_engine_id (vd_id v) \<noteq> eid then Inl (ForeignVoice eid (pv_engine_id (vd_id v)))
      else if pv_voice_id (vd_id v) \<in> seen then Inl (DuplicateVoice eid (pv_voice_id (vd_id v)))
      else check_voices eid (insert (pv_voice_id (vd_id v)) seen) vs)"

definition validate_descriptor :: "engine_descriptor \<Rightarrow> engine_registry_error + unit" where
  "validate_descriptor d =
     (if ed_id d = [] then Inl EmptyEngineId
      else if 512 < length (ed_espeak_variants d) \<or> variants_bad (ed_id d) {} (ed_espeak_variants d)
      then Inl (InvalidVariantCatalogue (ed_id d))
      else and_then (check_voices (ed_id d) {} (ed_voices d)) (\<lambda>ids.
        case ed_default_voice_id d of
          None \<Rightarrow> Inr ()
        | Some v \<Rightarrow> if v \<notin> ids then Inl (MissingDefaultVoice (ed_id d) v) else Inr ()))"

definition voice_keys :: "engine_descriptor \<Rightarrow> rstr list" where
  "voice_keys d = map (pv_voice_id \<circ> vd_id) (ed_voices d)"

definition variants_ok :: "engine_descriptor \<Rightarrow> bool" where
  "variants_ok d \<longleftrightarrow>
     length (ed_espeak_variants d) \<le> 512 \<and> \<not> variants_bad (ed_id d) {} (ed_espeak_variants d)"

definition descriptor_ok :: "engine_descriptor \<Rightarrow> bool" where
  "descriptor_ok d \<longleftrightarrow>
     ed_id d \<noteq> [] \<and> variants_ok d \<and>
     list_all (\<lambda>v. pv_engine_id (vd_id v) = ed_id d) (ed_voices d) \<and>
     distinct (voice_keys d) \<and> set_option (ed_default_voice_id d) \<subseteq> set (voice_keys d)"

lemma check_voices_Inr:
  "check_voices eid seen vs = Inr ids \<longleftrightarrow>
     list_all (\<lambda>v. pv_engine_id (vd_id v) = eid) vs \<and>
     distinct (map (pv_voice_id \<circ> vd_id) vs) \<and>
     set (map (pv_voice_id \<circ> vd_id) vs) \<inter> seen = {} \<and>
     ids = seen \<union> set (map (pv_voice_id \<circ> vd_id) vs)"
  by (induction eid seen vs rule: check_voices.induct) auto

lemma validate_descriptor_Inr: "validate_descriptor d = Inr () \<longleftrightarrow> descriptor_ok d"
  by (auto simp: validate_descriptor_def descriptor_ok_def variants_ok_def voice_keys_def
      res_simps check_voices_Inr split: option.splits)

section \<open>Eligibility\<close>

definition excluded_reason :: rstr where
  "excluded_reason = lit ''excluded by voice-library configuration''"

record voice_eligibility =
  ve_disabled :: "physical_voice_id list"
  ve_managed :: "rstr \<Rightarrow> rstr list option"
  ve_overridden :: "rstr list"

definition default_eligibility :: voice_eligibility where
  "default_eligibility = \<lparr>ve_disabled = [], ve_managed = (\<lambda>e. None), ve_overridden = []\<rparr>"

text \<open>
  \<open>from_library\<close>: the policy a voice library gives. Of its document these are the fields the policy
  reads, each list of voices by their physical identifiers, the models of Piper one by one.
\<close>

record flite_library =
  fl_builtin_slt :: bool
  fl_files :: "rstr list"

record mbrola_library =
  ml_builtin_en1 :: bool
  ml_files :: "rstr list"

record rhvoice_library =
  rl_inherit_external :: bool
  rl_voices :: "rstr list"

record library_document =
  li_disabled :: "physical_voice_id list"
  li_piper :: "rstr list list option"
  li_flite :: "flite_library option"
  li_mbrola :: "mbrola_library option"
  li_rhvoice :: "rhvoice_library option"

record provider_overrides =
  po_piper :: bool
  po_flite :: bool

definition mbrola_voice_ids :: "mbrola_library \<Rightarrow> rstr list" where
  "mbrola_voice_ids m = (if ml_builtin_en1 m then [lit ''mbrola:v1/mb-en1/en1''] else []) @ ml_files m"

definition manage :: "rstr \<Rightarrow> rstr list \<Rightarrow> voice_eligibility \<Rightarrow> voice_eligibility" where
  "manage e vs p = p\<lparr>ve_managed := (ve_managed p)(e := Some vs)\<rparr>"

definition override_engine :: "rstr \<Rightarrow> voice_eligibility \<Rightarrow> voice_eligibility" where
  "override_engine e p = p\<lparr>ve_overridden := ve_overridden p @ [e]\<rparr>"

definition from_library :: "library_document \<Rightarrow> provider_overrides \<Rightarrow> voice_eligibility" where
  "from_library doc overrides =
     (let p0 = default_eligibility\<lparr>ve_disabled := li_disabled doc\<rparr>;
          p1 = (case li_piper doc of
                  None \<Rightarrow> p0
                | Some models \<Rightarrow>
                    if po_piper overrides then override_engine (lit ''piper'') p0
                    else manage (lit ''piper'') (concat models) p0);
          p2 = (case li_flite doc of
                  None \<Rightarrow> p1
                | Some f \<Rightarrow>
                    if po_flite overrides then override_engine (lit ''flite'') p1
                    else manage (lit ''flite'')
                           ((if fl_builtin_slt f then [lit ''cmu_us_slt''] else []) @ fl_files f) p1);
          p3 = (case li_mbrola doc of
                  None \<Rightarrow> p2
                | Some m \<Rightarrow> manage (lit ''mbrola'') (mbrola_voice_ids m) p2);
          p4 = (case li_rhvoice doc of
                  None \<Rightarrow> p3
                | Some r \<Rightarrow>
                    if rl_inherit_external r then p3 else manage (lit ''rhvoice'') (rl_voices r) p3)
      in p4\<lparr>ve_overridden := sort (ve_overridden p4)\<rparr>)"

text \<open>No library manages the voices of eSpeak, whose combinations are not rows of its inventory.\<close>

lemma library_leaves_espeak: "ve_managed (from_library doc overrides) (lit ''espeak'') = None"
  by (simp add: from_library_def Let_def manage_def override_engine_def default_eligibility_def
      lit_inject split: option.split)

definition permits :: "voice_eligibility \<Rightarrow> physical_voice_id \<Rightarrow> bool" where
  "permits p v \<longleftrightarrow>
     v \<notin> set (ve_disabled p) \<and>
     (case ve_managed p (pv_engine_id v) of
        None \<Rightarrow> True | Some voices \<Rightarrow> pv_voice_id v \<in> set voices)"

definition excludes_provider :: "voice_eligibility \<Rightarrow> rstr \<Rightarrow> bool" where
  "excludes_provider p e \<longleftrightarrow> ve_managed p e = Some []"

text \<open>The loop that gives excluded combinations an explicit row.\<close>

definition push_one :: "physical_voice_id \<Rightarrow> engine_descriptor \<Rightarrow> engine_descriptor" where
  "push_one i d =
     (if list_ex (\<lambda>v. vd_id v = i) (ed_voices d) then d
      else case descriptor_voice d (pv_voice_id i) of
             None \<Rightarrow> d
           | Some v \<Rightarrow> d\<lparr>ed_voices := ed_voices d @ [v]\<rparr>)"

fun push_excluded :: "physical_voice_id list \<Rightarrow> engine_descriptor \<Rightarrow> engine_descriptor" where
  "push_excluded [] d = d"
| "push_excluded (i # is) d = push_excluded is (push_one i d)"

definition excluded_ids :: "voice_eligibility \<Rightarrow> rstr \<Rightarrow> physical_voice_id list" where
  "excluded_ids p e =
     sort_key pv_voice_id (filter (\<lambda>i. pv_engine_id i = e) (ve_disabled p))"

definition mark_excluded :: "voice_eligibility \<Rightarrow> voice_descriptor \<Rightarrow> voice_descriptor" where
  "mark_excluded p v =
     (if permits p (vd_id v) then v else v\<lparr>vd_availability := Unavailable excluded_reason\<rparr>)"

definition voice_available :: "voice_descriptor list \<Rightarrow> rstr \<Rightarrow> bool" where
  "voice_available vs vid \<longleftrightarrow>
     list_ex (\<lambda>v. pv_voice_id (vd_id v) = vid \<and> is_available (vd_availability v)) vs"

definition eligible_default ::
    "voice_eligibility \<Rightarrow> rstr \<Rightarrow> voice_descriptor list \<Rightarrow> rstr option \<Rightarrow> rstr option" where
  "eligible_default p e vs current =
     (case ve_managed p e of
        Some order \<Rightarrow> find (voice_available vs) order
      | None \<Rightarrow>
          (case current of
             Some vid \<Rightarrow>
               if voice_available vs vid then Some vid
               else map_option (pv_voice_id \<circ> vd_id) (find (\<lambda>v. is_available (vd_availability v)) vs)
           | None \<Rightarrow> None))"

definition project_descriptor :: "voice_eligibility \<Rightarrow> engine_descriptor \<Rightarrow> engine_descriptor" where
  "project_descriptor p d0 =
     (let d = push_excluded (excluded_ids p (ed_id d0)) d0;
          all_excluded = (excludes_provider p (ed_id d) \<or>
            ed_voices d \<noteq> [] \<and> list_all (\<lambda>v. \<not> permits p (vd_id v)) (ed_voices d));
          vs = map (mark_excluded p) (ed_voices d);
          d' = d\<lparr>ed_voices := vs,
                 ed_default_voice_id := eligible_default p (ed_id d) vs (ed_default_voice_id d)\<rparr>
      in if all_excluded
         then d'\<lparr>ed_availability := Unavailable excluded_reason, ed_default_voice_id := None\<rparr>
         else d')"

definition eligible_voices ::
    "voice_eligibility \<Rightarrow> engine_descriptor list \<Rightarrow> rstr list \<Rightarrow> physical_voice_id list" where
  "eligible_voices p inventory disabled =
     remdups_adj (sort (map vd_id (filter (\<lambda>v. permits p (vd_id v))
       (concat (map ed_voices (filter (\<lambda>d. ed_id d \<notin> set disabled) inventory))))))"

definition admit ::
    "voice_eligibility \<Rightarrow> rstr \<Rightarrow> engine_descriptor \<Rightarrow> synthesis_request \<Rightarrow> tts_error + unit" where
  "admit p e inner request =
     and_then (voice_id_for_engine request e) (\<lambda>vid.
       if \<not> permits p (PhysicalVoiceId e vid) then Inl (TtsVoiceNotFound excluded_reason)
       else case descriptor_voice (project_descriptor p inner) vid of
              Some v \<Rightarrow>
                (case vd_availability v of
                   Available \<Rightarrow> Inr ()
                 | Unavailable r \<Rightarrow> Inl (TtsVoiceNotFound r))
            | None \<Rightarrow> Inl (TtsVoiceNotFound (lit ''voice is not advertised by this engine'')))"

section \<open>The projection keeps descriptors well formed\<close>

lemma mark_excluded_simps [simp]:
  "vd_id (mark_excluded p v) = vd_id v"
  "is_available (vd_availability (mark_excluded p v)) \<longleftrightarrow>
     permits p (vd_id v) \<and> is_available (vd_availability v)"
  by (simp_all add: mark_excluded_def)

lemma push_one_fields [simp]:
  "ed_id (push_one i d) = ed_id d"
  "ed_availability (push_one i d) = ed_availability d"
  "ed_health (push_one i d) = ed_health d"
  "ed_default_voice_id (push_one i d) = ed_default_voice_id d"
  "ed_espeak_variants (push_one i d) = ed_espeak_variants d"
  "ed_capabilities (push_one i d) = ed_capabilities d"
  "set (ed_voices d) \<subseteq> set (ed_voices (push_one i d))"
  by (auto simp: push_one_def split: option.split)

lemma push_excluded_fields [simp]:
  "ed_id (push_excluded is d) = ed_id d"
  "ed_availability (push_excluded is d) = ed_availability d"
  "ed_health (push_excluded is d) = ed_health d"
  "ed_default_voice_id (push_excluded is d) = ed_default_voice_id d"
  "ed_espeak_variants (push_excluded is d) = ed_espeak_variants d"
  "ed_capabilities (push_excluded is d) = ed_capabilities d"
  by (induction "is" d rule: push_excluded.induct) simp_all

lemma push_excluded_mono: "set (ed_voices d) \<subseteq> set (ed_voices (push_excluded is d))"
proof (induction "is" arbitrary: d)
  case (Cons i "is")
  from order_trans [OF push_one_fields(7) [of d i] Cons [of "push_one i d"]] show ?case by simp
qed simp

lemma descriptor_voice_engine:
  assumes "list_all (\<lambda>v. pv_engine_id (vd_id v) = e) (ed_voices d)" "descriptor_voice d vid = Some v"
  shows "vd_id v = PhysicalVoiceId e vid"
proof -
  obtain row where "row \<in> set (ed_voices d)" "pv_engine_id (vd_id v) = pv_engine_id (vd_id row)"
    using descriptor_voice_row [OF assms(2)] by blast
  then show ?thesis
    using assms(1) descriptor_voice_id [OF assms(2)]
    by (intro physical_voice_id.expand) (simp add: list_all_iff)
qed

definition rows_ok :: "engine_descriptor \<Rightarrow> bool" where
  "rows_ok d \<longleftrightarrow>
     list_all (\<lambda>v. pv_engine_id (vd_id v) = ed_id d) (ed_voices d) \<and> distinct (voice_keys d)"

lemma key_engine:
  assumes "rows_ok d" "pv_engine_id i = ed_id d" "pv_voice_id i \<in> set (voice_keys d)"
  shows "list_ex (\<lambda>v. vd_id v = i) (ed_voices d)"
proof -
  obtain w where w: "w \<in> set (ed_voices d)" "pv_voice_id (vd_id w) = pv_voice_id i"
    using assms(3) by (auto simp: voice_keys_def)
  then have "vd_id w = i"
    using assms(1,2) by (intro physical_voice_id.expand) (auto simp: rows_ok_def list_all_iff)
  with w show ?thesis by (auto simp: list_ex_iff)
qed

lemma push_one_cases:
  assumes "rows_ok d" "pv_engine_id i = ed_id d"
  obtains (same) "push_one i d = d"
      "pv_voice_id i \<in> set (voice_keys d) \<or> descriptor_voice d (pv_voice_id i) = None"
  | (pushed) v where "push_one i d = d\<lparr>ed_voices := ed_voices d @ [v]\<rparr>" "vd_id v = i"
      "pv_voice_id i \<notin> set (voice_keys d)" "combined_voice d (pv_voice_id i) = Some v"
proof (cases "pv_voice_id i \<in> set (voice_keys d)")
  case True
  with key_engine [OF assms] have "push_one i d = d" by (simp add: push_one_def)
  with True show thesis by (intro same) simp_all
next
  case False
  then have "\<not> list_ex (\<lambda>v. vd_id v = i) (ed_voices d)" by (auto simp: list_ex_iff voice_keys_def)
  moreover have "find (\<lambda>v. pv_voice_id (vd_id v) = pv_voice_id i) (ed_voices d) = None"
    using False find_None_map [of "pv_voice_id \<circ> vd_id" "pv_voice_id i" "ed_voices d"]
    by (simp add: voice_keys_def)
  then have dv: "descriptor_voice d (pv_voice_id i) = combined_voice d (pv_voice_id i)"
    by (simp add: descriptor_voice_def)
  ultimately show thesis
  proof (cases "combined_voice d (pv_voice_id i)")
    case None
    with dv show thesis by (intro same) (simp_all add: push_one_def)
  next
    case (Some v)
    have "vd_id v = i"
      using descriptor_voice_engine [of "ed_id d" d "pv_voice_id i" v] assms Some dv
      by (auto simp: rows_ok_def intro: physical_voice_id.expand)
    with Some dv False \<open>\<not> list_ex (\<lambda>v. vd_id v = i) (ed_voices d)\<close> show thesis
      by (intro pushed [of v]) (simp_all add: push_one_def)
  qed
qed

lemma push_one_rows:
  assumes "rows_ok d" "pv_engine_id i = ed_id d"
  shows "rows_ok (push_one i d)"
  by (rule push_one_cases [OF assms]) (use assms in \<open>auto simp: rows_ok_def voice_keys_def\<close>)

lemma push_excluded_rows:
  "rows_ok d \<Longrightarrow> list_all (\<lambda>i. pv_engine_id i = ed_id d) is \<Longrightarrow> rows_ok (push_excluded is d)"
  by (induction "is" d rule: push_excluded.induct) (simp_all add: push_one_rows)

lemma excluded_ids_engine: "list_all (\<lambda>i. pv_engine_id i = e) (excluded_ids p e)"
  by (auto simp: excluded_ids_def list_all_iff)

lemma rows_ok_push:
  "descriptor_ok d \<Longrightarrow> rows_ok (push_excluded (excluded_ids p (ed_id d)) d)"
  by (rule push_excluded_rows) (auto simp: descriptor_ok_def rows_ok_def excluded_ids_engine)

lemma voice_available_in:
  "voice_available vs vid \<Longrightarrow> vid \<in> set (map (pv_voice_id \<circ> vd_id) vs)"
  by (force simp: voice_available_def list_ex_iff)

lemma eligible_default_in:
  "eligible_default p e vs current = Some vid \<Longrightarrow> voice_available vs vid"
  by (auto simp: eligible_default_def voice_available_def list_ex_iff split: option.splits if_splits
      dest!: find_id_Some)

lemma project_descriptor_voices:
  "ed_voices (project_descriptor p d) =
     map (mark_excluded p) (ed_voices (push_excluded (excluded_ids p (ed_id d)) d))"
  by (simp add: project_descriptor_def Let_def)

lemma project_descriptor_fields [simp]:
  "ed_id (project_descriptor p d) = ed_id d"
  "ed_espeak_variants (project_descriptor p d) = ed_espeak_variants d"
  "ed_health (project_descriptor p d) = ed_health d"
  by (simp_all add: project_descriptor_def Let_def)

lemma project_keys:
  "voice_keys (project_descriptor p d) =
     voice_keys (push_excluded (excluded_ids p (ed_id d)) d)"
  by (simp add: voice_keys_def project_descriptor_voices)

lemma project_default:
  "ed_default_voice_id (project_descriptor p d) = Some vid \<Longrightarrow>
   voice_available (ed_voices (project_descriptor p d)) vid"
  by (auto simp: project_descriptor_def Let_def split: if_splits dest: eligible_default_in)

lemma project_ok:
  assumes "descriptor_ok d"
  shows "descriptor_ok (project_descriptor p d)"
proof -
  have "list_all (\<lambda>v. pv_engine_id (vd_id v) = ed_id d) (ed_voices (project_descriptor p d))"
    "distinct (voice_keys (project_descriptor p d))"
    using rows_ok_push [OF assms, of p]
    by (auto simp: rows_ok_def project_descriptor_voices project_keys list_all_iff)
  moreover have "set_option (ed_default_voice_id (project_descriptor p d)) \<subseteq>
      set (voice_keys (project_descriptor p d))"
    using project_default voice_available_in by (fastforce simp: voice_keys_def)
  ultimately show ?thesis using assms by (simp add: descriptor_ok_def variants_ok_def)
qed

section \<open>Nothing excluded is offered\<close>

lemma find_key_None:
  "find (\<lambda>v. pv_voice_id (vd_id v) = k) (ed_voices d) = None \<longleftrightarrow> k \<notin> set (voice_keys d)"
  using find_None_map [of "pv_voice_id \<circ> vd_id" k] by (simp add: voice_keys_def)

lemma voice_keys_mono: "set (ed_voices d) \<subseteq> set (ed_voices d') \<Longrightarrow> set (voice_keys d) \<subseteq> set (voice_keys d')"
  by (auto simp: voice_keys_def)

text \<open>A combination stays available for lookup while rows are added.\<close>

lemma combined_mono:
  assumes "combined_voice d vid \<noteq> None" "ed_id d' = ed_id d"
    and "ed_espeak_variants d' = ed_espeak_variants d" "set (voice_keys d) \<subseteq> set (voice_keys d')"
  shows "combined_voice d' vid \<noteq> None"
proof -
  obtain base suffix variant row where c: "ed_id d = lit ''espeak''" "valid_espeak_combination vid"
    "split_once 43 vid = Some (base, suffix)"
    "find (\<lambda>ev. ev_id ev = suffix) (ed_espeak_variants d) = Some variant"
    "find (\<lambda>v. pv_voice_id (vd_id v) = base) (ed_voices d) = Some row"
    using assms(1) by (auto simp: combined_voice_Some)
  then have "base \<in> set (voice_keys d')" using find_key_None [of base d] assms(4) by auto
  then obtain row' where "find (\<lambda>v. pv_voice_id (vd_id v) = base) (ed_voices d') = Some row'"
    using find_key_None [of base d'] by auto
  with c assms(2,3) show ?thesis by (simp add: combined_voice_def)
qed

lemma push_covers:
  "rows_ok d \<Longrightarrow> list_all (\<lambda>i. pv_engine_id i = ed_id d) is \<Longrightarrow> i \<in> set is \<Longrightarrow>
   combined_voice d (pv_voice_id i) \<noteq> None \<Longrightarrow>
   pv_voice_id i \<in> set (voice_keys (push_excluded is d))"
proof (induction "is" arbitrary: d)
  case (Cons j "is")
  let ?d = "push_one j d"
  have step: "rows_ok ?d" "set (voice_keys d) \<subseteq> set (voice_keys ?d)"
    using Cons.prems push_one_rows voice_keys_mono push_one_fields(7) by auto
  show ?case
  proof (cases "i = j")
    case True
    have j: "pv_engine_id j = ed_id d" using Cons.prems(2) by simp
    have "pv_voice_id i \<in> set (voice_keys ?d)"
    proof (rule push_one_cases [OF Cons.prems(1) j])
      assume "push_one j d = d"
        "pv_voice_id j \<in> set (voice_keys d) \<or> descriptor_voice d (pv_voice_id j) = None"
      with True Cons.prems(4) show ?thesis
        by (auto simp: descriptor_voice_def find_key_None split: option.splits)
    qed (auto simp: voice_keys_def True)
    then show ?thesis using voice_keys_mono [OF push_excluded_mono] by auto
  next
    case False
    have "combined_voice ?d (pv_voice_id i) \<noteq> None"
      by (rule combined_mono [OF Cons.prems(4)]) (use step in simp_all)
    with Cons.IH [of ?d] step Cons.prems False show ?thesis by simp
  qed
qed simp

lemma push_plus:
  "rows_ok d \<Longrightarrow> list_all (\<lambda>i. pv_engine_id i = ed_id d) is \<Longrightarrow>
   k \<in> set (voice_keys (push_excluded is d)) \<Longrightarrow> k \<in> set (voice_keys d) \<or> 43 \<in> set k"
proof (induction "is" arbitrary: d)
  case (Cons j "is")
  let ?d = "push_one j d"
  have "k \<in> set (voice_keys ?d) \<or> 43 \<in> set k"
    using Cons.IH [of ?d] Cons.prems push_one_rows by simp
  moreover have j: "pv_engine_id j = ed_id d" using Cons.prems(2) by simp
  have "k \<in> set (voice_keys ?d) \<Longrightarrow> k \<in> set (voice_keys d) \<or> 43 \<in> set k"
    by (rule push_one_cases [OF Cons.prems(1) j])
      (auto simp: voice_keys_def combined_voice_Some split_once_Some)
  ultimately show ?case by blast
qed simp

lemma combined_before_push:
  assumes "rows_ok d" "list_all (\<lambda>i. pv_engine_id i = ed_id d) is"
    and "combined_voice (push_excluded is d) vid \<noteq> None"
  shows "combined_voice d vid \<noteq> None"
proof -
  let ?d = "push_excluded is d"
  obtain base suffix variant row where c: "ed_id d = lit ''espeak''" "valid_espeak_combination vid"
    "split_once 43 vid = Some (base, suffix)"
    "find (\<lambda>ev. ev_id ev = suffix) (ed_espeak_variants d) = Some variant"
    "find (\<lambda>v. pv_voice_id (vd_id v) = base) (ed_voices ?d) = Some row"
    using assms(3) by (auto simp: combined_voice_Some)
  have "base \<in> set (voice_keys ?d)" using c(5) find_key_None [of base ?d] by auto
  moreover have "43 \<notin> set base" using c(3) by (simp add: split_once_Some)
  ultimately have "base \<in> set (voice_keys d)" using push_plus [OF assms(1,2)] by blast
  then obtain row' where "find (\<lambda>v. pv_voice_id (vd_id v) = base) (ed_voices d) = Some row'"
    using find_key_None [of base d] by auto
  with c show ?thesis by (simp add: combined_voice_def)
qed

lemma available_permitted_rows:
  assumes rows: "rows_ok d" and managed: "ve_managed p (lit ''espeak'') = None"
    and found: "descriptor_voice (project_descriptor p d) vid = Some v" and avail: "vd_availability v = Available"
  shows "permits p (PhysicalVoiceId (ed_id d) vid) \<and> vd_id v = PhysicalVoiceId (ed_id d) vid"
proof -
  let ?D = "push_excluded (excluded_ids p (ed_id d)) d"
  let ?P = "project_descriptor p d"
  have "rows_ok ?D" by (rule push_excluded_rows [OF rows]) (rule excluded_ids_engine)
  then have "list_all (\<lambda>v. pv_engine_id (vd_id v) = ed_id d) (ed_voices ?P)"
    by (simp add: rows_ok_def project_descriptor_voices list_all_iff)
  from descriptor_voice_engine [OF this found] have v: "vd_id v = PhysicalVoiceId (ed_id d) vid" .
  have "permits p (PhysicalVoiceId (ed_id d) vid)"
    using found
  proof (cases rule: descriptor_voice_cases)
    case row
    then obtain w where "v = mark_excluded p w" by (auto simp: project_descriptor_voices)
    with avail v mark_excluded_simps [of p w] show ?thesis by simp
  next
    case combined
    show ?thesis
    proof (rule ccontr)
      assume "\<not> ?thesis"
      moreover have e: "ed_id d = lit ''espeak''" using combined(1) by (simp add: combined_voice_Some)
      ultimately have "PhysicalVoiceId (ed_id d) vid \<in> set (excluded_ids p (ed_id d))"
        using managed by (simp add: permits_def excluded_ids_def)
      moreover have keys: "set (voice_keys ?D) = set (voice_keys ?P)" by (simp add: project_keys)
      have "combined_voice ?D vid \<noteq> None"
        by (rule combined_mono [of ?P]) (use combined keys in simp_all)
      then have "combined_voice d vid \<noteq> None"
        by (rule combined_before_push [OF rows excluded_ids_engine])
      ultimately have "vid \<in> set (voice_keys ?D)"
        using push_covers [OF rows excluded_ids_engine, of "PhysicalVoiceId (ed_id d) vid"] by simp
      with keys combined(2) show False by (simp add: find_key_None)
    qed
  qed
  with v show ?thesis by simp
qed

lemma push_excluded_append: "\<exists>vs. ed_voices (push_excluded is d) = ed_voices d @ vs"
proof (induction "is" arbitrary: d)
  case (Cons i "is")
  have "\<exists>ws. ed_voices (push_one i d) = ed_voices d @ ws"
    by (auto simp: push_one_def split: option.split)
  with Cons [of "push_one i d"] show ?case by auto
qed simp

lemma rows_ok_project:
  assumes "rows_ok (project_descriptor p d)"
  shows "rows_ok d"
proof -
  let ?D = "push_excluded (excluded_ids p (ed_id d)) d"
  obtain vs where vs: "ed_voices ?D = ed_voices d @ vs" using push_excluded_append by blast
  have "distinct (voice_keys ?D)" using assms by (simp add: rows_ok_def project_keys)
  moreover have "list_all (\<lambda>v. pv_engine_id (vd_id v) = ed_id d) (ed_voices ?D)"
    using assms by (simp add: rows_ok_def project_descriptor_voices list_all_iff)
  ultimately show ?thesis by (simp add: rows_ok_def voice_keys_def vs)
qed

text \<open>
  C8: an administrative exclusion cannot be bypassed by name: under the policy of a voice
  library, whatever its document, or the default one, a valid descriptor that offers a voice as available after
  its projection, explicitly or as an eSpeak combination of a base voice and a variant, permits
  exactly that physical voice.
\<close>

theorem available_is_permitted:
  assumes "descriptor_ok d" and "p = default_eligibility \<or> p = from_library doc overrides"
    and "descriptor_voice (project_descriptor p d) vid = Some v" and "vd_availability v = Available"
  shows "permits p (PhysicalVoiceId (ed_id d) vid) \<and> vd_id v = PhysicalVoiceId (ed_id d) vid"
proof (rule available_permitted_rows [OF _ _ assms(3,4)])
  show "rows_ok d" using assms(1) by (simp add: descriptor_ok_def rows_ok_def)
  show "ve_managed p (lit ''espeak'') = None"
    using assms(2) library_leaves_espeak by (auto simp: default_eligibility_def)
qed

text \<open>
  Projecting a valid descriptor yields a valid one: the rows added for excluded combinations
  keep the engine and are not repeated, and the default voice is one of the rows that is still
  available.
\<close>

theorem projection_valid:
  assumes "validate_descriptor d = Inr ()"
  shows "validate_descriptor (project_descriptor p d) = Inr () \<and>
         (case ed_default_voice_id (project_descriptor p d) of
            None \<Rightarrow> True
          | Some vid \<Rightarrow> voice_available (ed_voices (project_descriptor p d)) vid)"
  using assms project_ok [of d p] project_default [of p d]
  by (auto simp: validate_descriptor_Inr split: option.split)

text \<open>
  A guarded engine synthesizes only requests for itself whose exact voice is permitted and
  offered as available by its projected descriptor.
\<close>

theorem admit_iff:
  "admit p e inner request = Inr () \<longleftrightarrow>
     (\<exists>vid v. voice_id_for_engine request e = Inr vid \<and>
        permits p (PhysicalVoiceId e vid) \<and>
        descriptor_voice (project_descriptor p inner) vid = Some v \<and>
        vd_availability v = Available)"
proof -
  have a: "(case av of Available \<Rightarrow> Inr () | Unavailable r \<Rightarrow> Inl (f r)) = Inr () \<longleftrightarrow> av = Available"
    for av and f :: "rstr \<Rightarrow> tts_error"
    by (cases av) simp_all
  show ?thesis
    by (cases "voice_id_for_engine request e")
      (auto simp: admit_def a split: option.splits)
qed

section \<open>The theorems at a concrete engine\<close>

definition sample_espeak :: engine_descriptor where
  "sample_espeak =
     (unavailable_engine (lit ''espeak'') [])
       \<lparr>ed_availability := Available, ed_health := Healthy,
        ed_voices :=
          [\<lparr>vd_id = PhysicalVoiceId (lit ''espeak'') (lit ''espeak:en''), vd_display_name = [],
            vd_language = None, vd_gender = None, vd_quality = Compact,
            vd_availability = Available\<rparr>],
        ed_espeak_variants := [\<lparr>ev_id = lit ''f2'', ev_display_name = []\<rparr>],
        ed_default_voice_id := Some (lit ''espeak:en'')\<rparr>"

definition sample_library :: library_document where
  "sample_library =
     \<lparr>li_disabled = [PhysicalVoiceId (lit ''espeak'') (lit ''espeak:en+f2'')], li_piper = Some [],
      li_flite = None, li_mbrola = None, li_rhvoice = None\<rparr>"

definition sample_eligibility :: voice_eligibility where
  "sample_eligibility = from_library sample_library \<lparr>po_piper = False, po_flite = False\<rparr>"

lemma sample_library_policy:
  "sample_eligibility =
     \<lparr>ve_disabled = [PhysicalVoiceId (lit ''espeak'') (lit ''espeak:en+f2'')],
      ve_managed = (\<lambda>_. None)(lit ''piper'' := Some []), ve_overridden = []\<rparr>"
  by (simp add: sample_eligibility_def from_library_def sample_library_def manage_def
      default_eligibility_def Let_def)

lemma sample_espeak_ok: "descriptor_ok sample_espeak"
  by (simp add: descriptor_ok_def variants_ok_def voice_keys_def sample_espeak_def
      unavailable_engine_def valid_espeak_combination_def lit_Cons is_ascii_alphanumeric_def
      is_ascii_digit_def is_ascii_lowercase_def is_ascii_uppercase_def safe_part_def utf8_len_def)

lemma sample_base_offered:
  "\<exists>v. descriptor_voice (project_descriptor sample_eligibility sample_espeak) (lit ''espeak:en'') =
       Some v \<and> vd_availability v = Available"
  by (simp add: project_descriptor_def Let_def excluded_ids_def sample_library_policy
      push_one_def descriptor_voice_def combined_voice_def mark_excluded_def
      permits_def excludes_provider_def sample_espeak_def unavailable_engine_def
      valid_espeak_combination_def lit_Cons is_ascii_alphanumeric_def is_ascii_digit_def
      is_ascii_lowercase_def is_ascii_uppercase_def safe_part_def utf8_len_def)

theorem available_is_permitted_witness:
  "permits sample_eligibility (PhysicalVoiceId (lit ''espeak'') (lit ''espeak:en''))"
proof -
  obtain v where "descriptor_voice (project_descriptor sample_eligibility sample_espeak)
      (lit ''espeak:en'') = Some v" "vd_availability v = Available"
    using sample_base_offered by blast
  from available_is_permitted [OF sample_espeak_ok disjI2 this, unfolded sample_eligibility_def, OF refl]
  show ?thesis by (simp add: sample_eligibility_def sample_espeak_def unavailable_engine_def)
qed

end
