(* ===== verification/Resolver.thy ===== *)
theory Resolver
  imports Interfaces Contracts "HOL-Library.Product_Lexorder"
begin

text \<open>
  Late binding of logical voices (\<open>omnivox-tts/src/resolver.rs\<close>) under the local selection
  permissions of \<open>engine_configuration/selection.rs\<close>. Resolution tries, in order, the voice's
  preferences, the same language on the requested engine, the preferred engines, the global
  default and the fallback engines; what it needs of the evaluation of one selector is the
  interface \<open>selector_evaluation\<close>, interpreted here on the code's evaluation.
\<close>

section \<open>Permissions\<close>

record engine_selection_permissions =
  esp_disabled :: "rstr set"
  esp_explicit_only :: "rstr set"

definition default_permissions :: engine_selection_permissions where
  "default_permissions = \<lparr>esp_disabled = {}, esp_explicit_only = {}\<rparr>"

definition new_permissions ::
    "rstr set \<Rightarrow> rstr set \<Rightarrow> rstr set \<Rightarrow> engine_selection_permissions" where
  "new_permissions disabled external automatic =
     \<lparr>esp_disabled = disabled, esp_explicit_only = external - automatic\<rparr>"

definition perm_disabled :: "engine_selection_permissions \<Rightarrow> rstr \<Rightarrow> bool" where
  "perm_disabled p e \<longleftrightarrow> e \<in> esp_disabled p"

definition permits_automatic :: "engine_selection_permissions \<Rightarrow> rstr \<Rightarrow> bool" where
  "permits_automatic p e \<longleftrightarrow> \<not> perm_disabled p e \<and> e \<notin> esp_explicit_only p"

definition include_disabled ::
    "rstr list \<Rightarrow> engine_selection_permissions \<Rightarrow> engine_selection_permissions" where
  "include_disabled es p = p\<lparr>esp_disabled := esp_disabled p \<union> set es\<rparr>"

section \<open>Results\<close>

datatype resolution_stage =
  StPreference nat | StSameLanguage | StPreferredEngine nat | StGlobalDefault | StFallbackEngine nat

datatype resolution_failure =
  EngineNotFound rstr
| EngineUnavailable rstr rstr
| EngineFailed rstr rstr
| VoiceNotFound physical_voice_id
| VoiceUnavailable physical_voice_id rstr
| TextUnsupported rstr text_repertoire nat nat
| NoMatchingVoice

record resolution_attempt =
  at_stage :: resolution_stage
  at_selector :: voice_selector
  at_failure :: resolution_failure

datatype resolution_reason =
  Preferred | ExplicitAlternative nat | SameLanguageOnRequestedEngine | PreferredEngine nat
| GlobalDefault | FallbackEngine nat

record voice_resolution =
  vr_logical_voice_id :: rstr
  vr_requested :: "voice_selector option"
  vr_realized :: physical_voice_id
  vr_reason :: resolution_reason
  vr_failed_attempts :: "resolution_attempt list"

record voice_resolution_error =
  ve_logical_voice_id :: rstr
  ve_attempts :: "resolution_attempt list"

section \<open>Evaluating one selector\<close>

definition find_usable_engine ::
    "engine_descriptor list \<Rightarrow> rstr \<Rightarrow> engine_selection_permissions \<Rightarrow>
     resolution_failure + engine_descriptor" where
  "find_usable_engine engines eid perms =
     (if perm_disabled perms eid
      then Inl (EngineUnavailable eid (lit ''disabled by local engine configuration''))
      else
        (case find (\<lambda>d. ed_id d = eid) engines of
           None \<Rightarrow> Inl (EngineNotFound eid)
         | Some d \<Rightarrow>
             (case ed_availability d of
                Unavailable r \<Rightarrow> Inl (EngineUnavailable eid r)
              | Available \<Rightarrow>
                  (case ed_health d of
                     Failed r \<Rightarrow> Inl (EngineFailed eid r)
                   | _ \<Rightarrow> Inr d))))"

definition text_failure :: "engine_descriptor \<Rightarrow> rstr \<Rightarrow> resolution_failure option" where
  "text_failure d text =
     map_option
       (\<lambda>(off, c). TextUnsupported (ed_id d) (ec_text_repertoire (ed_capabilities d)) off c)
       (first_unsupported (ec_text_repertoire (ed_capabilities d)) text)"

definition text_failure_opt :: "engine_descriptor \<Rightarrow> rstr option \<Rightarrow> resolution_failure option" where
  "text_failure_opt d text = (case text of None \<Rightarrow> None | Some t \<Rightarrow> text_failure d t)"

definition ensure_text_supported ::
    "engine_descriptor \<Rightarrow> rstr option \<Rightarrow> resolution_failure + unit" where
  "ensure_text_supported d text =
     (case text_failure_opt d text of Some f \<Rightarrow> Inl f | None \<Rightarrow> Inr ())"

definition language_matches :: "voice_descriptor \<Rightarrow> rstr option \<Rightarrow> bool" where
  "language_matches v requested =
     (case requested of
        None \<Rightarrow> True
      | Some r \<Rightarrow> (case vd_language v of None \<Rightarrow> False | Some a \<Rightarrow> eq_ignore_ascii_case a r))"

definition voice_matches ::
    "rstr option \<Rightarrow> voice_gender option \<Rightarrow> voice_descriptor \<Rightarrow> bool" where
  "voice_matches language gender v \<longleftrightarrow>
     is_available (vd_availability v) \<and> language_matches v language \<and>
     (gender = None \<or> vd_gender v = gender)"

text \<open>Default voice first (\<open>False < True\<close>), then by voice id.\<close>

definition voice_key :: "engine_descriptor \<Rightarrow> voice_descriptor \<Rightarrow> bool \<times> rstr" where
  "voice_key d v =
     (ed_default_voice_id d \<noteq> Some (pv_voice_id (vd_id v)), pv_voice_id (vd_id v))"

definition choose_voice ::
    "engine_descriptor \<Rightarrow> rstr option \<Rightarrow> voice_gender option \<Rightarrow>
     resolution_failure + physical_voice_id" where
  "choose_voice d language gender =
     (case sort_key (voice_key d) (filter (voice_matches language gender) (ed_voices d)) of
        [] \<Rightarrow> Inl NoMatchingVoice
      | v # vs \<Rightarrow> Inr (vd_id v))"

fun position_from :: "nat \<Rightarrow> rstr list \<Rightarrow> rstr \<Rightarrow> nat option" where
  "position_from n [] x = None"
| "position_from n (y # ys) x = (if y = x then Some n else position_from (Suc n) ys x)"

definition engine_priority :: "rstr list \<Rightarrow> rstr \<Rightarrow> nat" where
  "engine_priority preferred e =
     (case position_from 0 preferred e of None \<Rightarrow> usize_max | Some i \<Rightarrow> i)"

definition engine_key :: "rstr list \<Rightarrow> engine_descriptor \<Rightarrow> nat \<times> rstr" where
  "engine_key preferred d = (engine_priority preferred (ed_id d), ed_id d)"

fun across_loop ::
    "engine_descriptor list \<Rightarrow> rstr option \<Rightarrow> voice_gender option \<Rightarrow> rstr option \<Rightarrow>
     resolution_failure option \<Rightarrow> resolution_failure + physical_voice_id" where
  "across_loop [] language gender text first =
     Inl (case first of Some f \<Rightarrow> f | None \<Rightarrow> NoMatchingVoice)"
| "across_loop (d # ds) language gender text first =
     (case choose_voice d language gender of
        Inl f \<Rightarrow> across_loop ds language gender text first
      | Inr v \<Rightarrow>
          (case text_failure_opt d text of
             Some f \<Rightarrow>
               across_loop ds language gender text (case first of None \<Rightarrow> Some f | Some f0 \<Rightarrow> Some f0)
           | None \<Rightarrow> Inr v))"

definition choose_across_engines ::
    "engine_descriptor list \<Rightarrow> rstr option \<Rightarrow> voice_gender option \<Rightarrow> rstr list \<Rightarrow> rstr option \<Rightarrow>
     engine_selection_permissions \<Rightarrow> resolution_failure + physical_voice_id" where
  "choose_across_engines engines language gender preferred text perms =
     across_loop
       (sort_key (engine_key preferred)
          (filter (\<lambda>d. engine_can_synthesize d \<and> permits_automatic perms (ed_id d)) engines))
       language gender text None"

definition evaluate_exact ::
    "engine_descriptor list \<Rightarrow> physical_voice_id \<Rightarrow> rstr option \<Rightarrow> engine_selection_permissions \<Rightarrow>
     resolution_failure + physical_voice_id" where
  "evaluate_exact engines vid text perms =
     and_then (find_usable_engine engines (pv_engine_id vid) perms) (\<lambda>d.
     and_then (ok_or (descriptor_voice d (pv_voice_id vid)) (VoiceNotFound vid)) (\<lambda>v.
       case vd_availability v of
         Available \<Rightarrow> and_then (ensure_text_supported d text) (\<lambda>_. Inr (vd_id v))
       | Unavailable r \<Rightarrow> Inl (VoiceUnavailable vid r)))"

definition evaluate_on_engine ::
    "engine_descriptor list \<Rightarrow> rstr \<Rightarrow> rstr option \<Rightarrow> voice_gender option \<Rightarrow> rstr option \<Rightarrow>
     engine_selection_permissions \<Rightarrow> resolution_failure + physical_voice_id" where
  "evaluate_on_engine engines eid language gender text perms =
     and_then (find_usable_engine engines eid perms) (\<lambda>d.
     and_then (choose_voice d language gender) (\<lambda>v.
     and_then (ensure_text_supported d text) (\<lambda>_. Inr v)))"

fun evaluate_selector ::
    "engine_descriptor list \<Rightarrow> rstr list \<Rightarrow> rstr option \<Rightarrow> engine_selection_permissions \<Rightarrow>
     voice_selector \<Rightarrow> resolution_failure + physical_voice_id" where
  "evaluate_selector engines preferred text perms (Exact vid) =
     evaluate_exact engines vid text perms"
| "evaluate_selector engines preferred text perms (EngineDefault eid) =
     evaluate_on_engine engines eid None None text perms"
| "evaluate_selector engines preferred text perms (Properties (Some eid) language gender) =
     evaluate_on_engine engines eid language gender text perms"
| "evaluate_selector engines preferred text perms (Properties None language gender) =
     choose_across_engines engines language gender preferred text perms"

section \<open>The stages\<close>

type_synonym stage = "resolution_stage \<times> resolution_reason \<times> voice_selector"

text \<open>
  One loop of the source over its stages: the first selector that evaluates wins with its
  reason, each failure is pushed on the attempts.
\<close>

fun try_stages ::
    "(voice_selector \<Rightarrow> resolution_failure + physical_voice_id) \<Rightarrow> stage list \<Rightarrow>
     resolution_attempt list \<Rightarrow>
     resolution_attempt list + physical_voice_id \<times> resolution_reason \<times> resolution_attempt list" where
  "try_stages ev [] attempts = Inl attempts"
| "try_stages ev ((stage, reason, selector) # rest) attempts =
     (case ev selector of
        Inr v \<Rightarrow> Inr (v, reason, attempts)
      | Inl f \<Rightarrow>
          try_stages ev rest
            (attempts @ [\<lparr>at_stage = stage, at_selector = selector, at_failure = f\<rparr>]))"

definition preference_stages :: "logical_voice_definition \<Rightarrow> stage list" where
  "preference_stages def =
     map (\<lambda>(i, s). (StPreference i, if i = 0 then Preferred else ExplicitAlternative i, s))
       (enumerate 0 (lv_preferences def))"

definition requested_selector :: "logical_voice_definition \<Rightarrow> voice_selector option" where
  "requested_selector def = (case lv_preferences def of [] \<Rightarrow> None | s # ss \<Rightarrow> Some s)"

definition same_language_stages :: "logical_voice_definition \<Rightarrow> fallback_policy \<Rightarrow> stage list" where
  "same_language_stages def policy =
     (if fp_allow_same_language policy
      then (case (Option.bind (requested_selector def) selector_engine_id, lv_language def) of
              (Some eid, Some language) \<Rightarrow>
                [(StSameLanguage, SameLanguageOnRequestedEngine,
                  Properties (Some eid) (Some language) None)]
            | _ \<Rightarrow> [])
      else [])"

definition preferred_engine_stages :: "fallback_policy \<Rightarrow> stage list" where
  "preferred_engine_stages policy =
     map (\<lambda>(i, e). (StPreferredEngine i, PreferredEngine i, EngineDefault e))
       (enumerate 0 (fp_preferred_engines policy))"

definition global_default_stages :: "fallback_policy \<Rightarrow> stage list" where
  "global_default_stages policy =
     (case fp_global_default policy of
        None \<Rightarrow> []
      | Some s \<Rightarrow> [(StGlobalDefault, GlobalDefault, s)])"

definition fallback_engine_stages :: "fallback_policy \<Rightarrow> stage list" where
  "fallback_engine_stages policy =
     map (\<lambda>(i, e). (StFallbackEngine i, FallbackEngine i, EngineDefault e))
       (enumerate 0 (fp_fallback_engines policy))"

text \<open>The attempts of one block are carried into the next.\<close>

fun or_else :: "'a + 'b \<Rightarrow> ('a \<Rightarrow> 'a + 'b) \<Rightarrow> 'a + 'b" where
  "or_else (Inr r) f = Inr r"
| "or_else (Inl a) f = f a"

definition resolve_voice_with_permissions ::
    "engine_descriptor list \<Rightarrow> logical_voice_definition \<Rightarrow> fallback_policy \<Rightarrow> rstr option \<Rightarrow>
     engine_selection_permissions \<Rightarrow> voice_resolution_error + voice_resolution" where
  "resolve_voice_with_permissions engines def policy text perms =
     (let ev = evaluate_selector engines (fp_preferred_engines policy) text perms
      in case or_else (try_stages ev (preference_stages def) []) (\<lambda>att.
              or_else (try_stages ev (same_language_stages def policy) att) (\<lambda>att.
              or_else (try_stages ev (preferred_engine_stages policy) att) (\<lambda>att.
              or_else (try_stages ev (global_default_stages policy) att) (\<lambda>att.
                try_stages ev (fallback_engine_stages policy) att)))) of
           Inl att \<Rightarrow> Inl \<lparr>ve_logical_voice_id = lv_id def, ve_attempts = att\<rparr>
         | Inr (v, reason, att) \<Rightarrow>
             Inr \<lparr>vr_logical_voice_id = lv_id def, vr_requested = requested_selector def,
                  vr_realized = v, vr_reason = reason, vr_failed_attempts = att\<rparr>)"

definition resolve_voice ::
    "engine_descriptor list \<Rightarrow> logical_voice_definition \<Rightarrow> fallback_policy \<Rightarrow>
     voice_resolution_error + voice_resolution" where
  "resolve_voice engines def policy =
     resolve_voice_with_permissions engines def policy None default_permissions"

definition resolve_voice_for_text ::
    "engine_descriptor list \<Rightarrow> logical_voice_definition \<Rightarrow> fallback_policy \<Rightarrow> rstr \<Rightarrow>
     voice_resolution_error + voice_resolution" where
  "resolve_voice_for_text engines def policy text =
     resolve_voice_with_permissions engines def policy (Some text) default_permissions"

section \<open>Usable voices\<close>

text \<open>
  What a realized voice promises: some engine of the inventory that is not locally disabled,
  is available and not failed, can encode the text, and offers the voice as available.
\<close>

definition engine_offers :: "engine_descriptor \<Rightarrow> physical_voice_id \<Rightarrow> bool" where
  "engine_offers d v \<longleftrightarrow>
     (\<exists>row. vd_id row = v \<and> is_available (vd_availability row) \<and>
            (row \<in> set (ed_voices d) \<or> descriptor_voice d (pv_voice_id v) = Some row))"

definition engine_usable ::
    "rstr option \<Rightarrow> engine_selection_permissions \<Rightarrow> engine_descriptor \<Rightarrow> bool" where
  "engine_usable text perms d \<longleftrightarrow>
     \<not> perm_disabled perms (ed_id d) \<and> engine_can_synthesize d \<and>
     (\<forall>t. text = Some t \<longrightarrow> supports_text (ec_text_repertoire (ed_capabilities d)) t)"

definition voice_usable ::
    "engine_descriptor list \<Rightarrow> rstr option \<Rightarrow> engine_selection_permissions \<Rightarrow>
     physical_voice_id \<Rightarrow> bool" where
  "voice_usable engines text perms v \<longleftrightarrow>
     (\<exists>d \<in> set engines. engine_usable text perms d \<and> engine_offers d v)"

lemma find_usable_engine_Inr:
  "find_usable_engine engines eid perms = Inr d \<Longrightarrow>
   d \<in> set engines \<and> ed_id d = eid \<and> \<not> perm_disabled perms (ed_id d) \<and> engine_can_synthesize d"
  by (auto simp: find_usable_engine_def engine_can_synthesize_def dest!: find_id_Some
      split: if_splits option.splits availability.splits engine_health.splits)

lemma text_failure_opt_None:
  "text_failure_opt d text = None \<longleftrightarrow>
     (\<forall>t. text = Some t \<longrightarrow> supports_text (ec_text_repertoire (ed_capabilities d)) t)"
  by (auto simp: text_failure_opt_def text_failure_def supports_text_def split: option.split)

lemma ensure_text_Inr: "ensure_text_supported d text = Inr u \<longleftrightarrow> text_failure_opt d text = None"
  by (auto simp: ensure_text_supported_def split: option.splits)

lemma choose_voice_Inr:
  assumes "choose_voice d language gender = Inr v"
  obtains row where "row \<in> set (ed_voices d)" "voice_matches language gender row" "vd_id row = v"
    "\<And>r. r \<in> set (ed_voices d) \<Longrightarrow> voice_matches language gender r \<Longrightarrow>
       voice_key d row \<le> voice_key d r"
proof -
  let ?vs = "sort_key (voice_key d) (filter (voice_matches language gender) (ed_voices d))"
  obtain row rows where vs: "?vs = row # rows" and v: "vd_id row = v"
    using assms by (auto simp: choose_voice_def split: list.splits)
  have set: "set (row # rows) = {r \<in> set (ed_voices d). voice_matches language gender r}"
    unfolding vs [symmetric] by auto
  have "sorted (map (voice_key d) ?vs)" by (rule sorted_sort_key)
  then have least: "voice_key d row \<le> voice_key d r" if "r \<in> set (row # rows)" for r
    using that unfolding vs by auto
  show thesis
    by (rule that [of row]) (use set v least in auto)
qed

lemma choose_voice_offers: "choose_voice d language gender = Inr v \<Longrightarrow> engine_offers d v"
  by (erule choose_voice_Inr) (auto simp: engine_offers_def voice_matches_def)

lemma across_loop_Inr:
  "across_loop ds language gender text first = Inr v \<Longrightarrow>
   \<exists>pre d post. ds = pre @ d # post \<and> choose_voice d language gender = Inr v \<and>
     text_failure_opt d text = None \<and>
     (\<forall>p \<in> set pre. \<not> is_ok (choose_voice p language gender) \<or> text_failure_opt p text \<noteq> None)"
proof (induction ds arbitrary: first)
  case (Cons d ds)
  show ?case
  proof (cases "\<exists>w. choose_voice d language gender = Inr w \<and> text_failure_opt d text = None")
    case True
    with Cons.prems show ?thesis by (intro exI [of _ "[]"]) auto
  next
    case False
    then have bad: "\<not> is_ok (choose_voice d language gender) \<or> text_failure_opt d text \<noteq> None"
      by (auto simp: is_ok_iff)
    from False Cons.prems obtain f where "across_loop ds language gender text f = Inr v"
      by (auto split: sum.splits option.splits)
    from Cons.IH [OF this] obtain pre d' post where "ds = pre @ d' # post"
      "choose_voice d' language gender = Inr v" "text_failure_opt d' text = None"
      "\<forall>p \<in> set pre. \<not> is_ok (choose_voice p language gender) \<or> text_failure_opt p text \<noteq> None"
      by blast
    with bad show ?thesis by (intro exI [of _ "d # pre"]) auto
  qed
qed simp

lemma choose_across_usable:
  assumes "choose_across_engines engines language gender preferred text perms = Inr v"
  shows "\<exists>d \<in> set engines. engine_usable text perms d \<and> permits_automatic perms (ed_id d) \<and>
           engine_offers d v"
proof -
  from across_loop_Inr [OF assms [unfolded choose_across_engines_def]]
  obtain d where "d \<in> set (sort_key (engine_key preferred)
       (filter (\<lambda>d. engine_can_synthesize d \<and> permits_automatic perms (ed_id d)) engines))"
    "choose_voice d language gender = Inr v" "text_failure_opt d text = None"
    by (metis in_set_conv_decomp)
  then show ?thesis
    by (auto simp: engine_usable_def permits_automatic_def text_failure_opt_None
        choose_voice_offers intro!: bexI [of _ d])
qed

lemma evaluate_on_engine_usable:
  "evaluate_on_engine engines eid language gender text perms = Inr v \<Longrightarrow>
   voice_usable engines text perms v"
  by (auto simp: evaluate_on_engine_def res_simps ensure_text_Inr voice_usable_def engine_usable_def
      text_failure_opt_None dest!: find_usable_engine_Inr intro: choose_voice_offers)

lemma case_available_Inr:
  "(case a of Available \<Rightarrow> x | Unavailable r \<Rightarrow> Inl (f r)) = Inr v \<longleftrightarrow> a = Available \<and> x = Inr v"
  by (cases a) auto

lemma evaluate_exact_usable:
  assumes "evaluate_exact engines vid text perms = Inr v"
  shows "voice_usable engines text perms v"
proof -
  from assms obtain d row where d: "find_usable_engine engines (pv_engine_id vid) perms = Inr d"
    and row: "descriptor_voice d (pv_voice_id vid) = Some row" "vd_availability row = Available"
    and ok: "text_failure_opt d text = None" and v: "v = vd_id row"
    by (auto simp: evaluate_exact_def res_simps ensure_text_Inr case_available_Inr)
  have "engine_offers d v"
    using row descriptor_voice_id [OF row(1)] by (auto simp: engine_offers_def v)
  with find_usable_engine_Inr [OF d] ok show ?thesis
    by (auto simp: voice_usable_def engine_usable_def text_failure_opt_None)
qed

lemma evaluate_selector_usable:
  "evaluate_selector engines preferred text perms sel = Inr v \<Longrightarrow> voice_usable engines text perms v"
  by (cases "(engines, preferred, text, perms, sel)" rule: evaluate_selector.cases)
    (auto dest: evaluate_exact_usable evaluate_on_engine_usable choose_across_usable
      simp: voice_usable_def)

section \<open>The stages in the interface\<close>

definition attempted ::
    "(voice_selector \<Rightarrow> resolution_failure + physical_voice_id) \<Rightarrow> stage list \<Rightarrow>
     resolution_attempt list" where
  "attempted ev stages =
     map (\<lambda>(stage, reason, selector).
            \<lparr>at_stage = stage, at_selector = selector,
             at_failure = (case ev selector of Inl f \<Rightarrow> f | Inr v \<Rightarrow> NoMatchingVoice)\<rparr>) stages"

definition all_fail ::
    "(voice_selector \<Rightarrow> resolution_failure + physical_voice_id) \<Rightarrow> stage list \<Rightarrow> bool" where
  "all_fail ev stages \<longleftrightarrow> list_all (\<lambda>(stage, reason, selector). \<not> is_ok (ev selector)) stages"

lemma try_stages_append:
  "or_else (try_stages ev xs att) (try_stages ev ys) = try_stages ev (xs @ ys) att"
  by (induction ev xs att rule: try_stages.induct) (auto split: sum.split)

lemma try_stages_Inl:
  "try_stages ev stages att = Inl att' \<longleftrightarrow>
   all_fail ev stages \<and> att' = att @ attempted ev stages"
  by (induction ev stages att rule: try_stages.induct)
    (auto simp: all_fail_def attempted_def split: sum.splits)

lemma try_stages_Inr:
  "try_stages ev stages att = Inr (v, reason, att') \<Longrightarrow>
   \<exists>pre stage selector post. stages = pre @ (stage, reason, selector) # post \<and>
     ev selector = Inr v \<and> all_fail ev pre \<and> att' = att @ attempted ev pre"
proof (induction ev stages att rule: try_stages.induct)
  case (2 ev stage reason' selector rest att)
  show ?case
  proof (cases "ev selector")
    case (Inr w)
    with 2 show ?thesis
      by (intro exI [of _ "[]"]) (auto simp: all_fail_def attempted_def)
  next
    case (Inl f)
    from 2(1) [OF Inl] 2(2) Inl obtain pre stage' selector' post where
      "rest = pre @ (stage', reason, selector') # post" "ev selector' = Inr v" "all_fail ev pre"
      "att' = att @ attempted ev ((stage, reason', selector) # pre)"
      by (auto simp: attempted_def)
    with Inl show ?thesis
      by (intro exI [of _ "(stage, reason', selector) # pre"]) (auto simp: all_fail_def)
  qed
qed simp

definition all_stages :: "logical_voice_definition \<Rightarrow> fallback_policy \<Rightarrow> stage list" where
  "all_stages def policy =
     preference_stages def @ same_language_stages def policy @ preferred_engine_stages policy @
     global_default_stages policy @ fallback_engine_stages policy"

lemma resolve_stages:
  "resolve_voice_with_permissions engines def policy text perms =
     (case try_stages (evaluate_selector engines (fp_preferred_engines policy) text perms)
             (all_stages def policy) [] of
        Inl att \<Rightarrow> Inl \<lparr>ve_logical_voice_id = lv_id def, ve_attempts = att\<rparr>
      | Inr (v, reason, att) \<Rightarrow>
          Inr \<lparr>vr_logical_voice_id = lv_id def, vr_requested = requested_selector def,
               vr_realized = v, vr_reason = reason, vr_failed_attempts = att\<rparr>)"
  by (simp add: resolve_voice_with_permissions_def Let_def all_stages_def try_stages_append)

text \<open>
  The interface of the loops: an evaluation that yields usable voices only. Whatever the
  stages, what the loop then realizes is usable, and every stage before it failed.
\<close>

locale selector_evaluation =
  fixes evaluate :: "voice_selector \<Rightarrow> resolution_failure + physical_voice_id"
    and usable :: "physical_voice_id \<Rightarrow> bool"
  assumes evaluate_usable: "evaluate sel = Inr v \<Longrightarrow> usable v"
begin

lemma realized_usable: "try_stages evaluate stages att = Inr (v, reason, att') \<Longrightarrow> usable v"
  by (drule try_stages_Inr) (auto intro: evaluate_usable)

lemma no_usable_stage:
  "try_stages evaluate stages att = Inl att' \<Longrightarrow>
   (stage, reason, selector) \<in> set stages \<Longrightarrow> \<exists>f. evaluate selector = Inl f"
  by (cases "evaluate selector") (auto simp: try_stages_Inl all_fail_def list_all_iff is_ok_iff)

end

interpretation resolver: selector_evaluation
  "evaluate_selector engines preferred text perms" "voice_usable engines text perms"
  for engines preferred text perms
  by unfold_locales (rule evaluate_selector_usable)

section \<open>Correct resolutions\<close>

lemma resolve_usable:
  assumes "resolve_voice_with_permissions engines def policy text perms = Inr r"
  shows "voice_usable engines text perms (vr_realized r) \<and>
         vr_logical_voice_id r = lv_id def \<and> vr_requested r = requested_selector def"
proof -
  let ?ev = "evaluate_selector engines (fp_preferred_engines policy) text perms"
  from assms obtain v reason att where
    t: "try_stages ?ev (all_stages def policy) [] = Inr (v, reason, att)"
    and r: "r = \<lparr>vr_logical_voice_id = lv_id def, vr_requested = requested_selector def,
               vr_realized = v, vr_reason = reason, vr_failed_attempts = att\<rparr>"
    by (auto simp: resolve_stages split: sum.splits)
  from resolver.realized_usable [OF t] show ?thesis by (simp add: r)
qed

text \<open>
  C6: a resolution is sound: the realized voice is offered as available by an engine of the
  inventory that is not locally disabled, can synthesize and encodes the whole text; it carries
  the logical voice's own id and its first preference.
\<close>

theorem resolve_sound:
  assumes "resolve_voice_with_permissions engines def policy text perms = Inr r"
  shows "voice_usable engines text perms (vr_realized r) \<and>
         vr_logical_voice_id r = lv_id def \<and> vr_requested r = requested_selector def"
  by (rule resolve_usable [OF assms])

text \<open>
  Resolution is complete and ordered: it picks the first stage whose selector evaluates,
  with that stage's reason, and records exactly the failures of the stages before it; it gives
  up only when every stage of the whole order fails, and then reports all of them.
\<close>

theorem resolve_first_success:
  "case resolve_voice_with_permissions engines def policy text perms of
     Inr r \<Rightarrow>
       \<exists>pre stage selector post.
         all_stages def policy = pre @ (stage, vr_reason r, selector) # post \<and>
         evaluate_selector engines (fp_preferred_engines policy) text perms selector =
           Inr (vr_realized r) \<and>
         all_fail (evaluate_selector engines (fp_preferred_engines policy) text perms) pre \<and>
         vr_failed_attempts r =
           attempted (evaluate_selector engines (fp_preferred_engines policy) text perms) pre
   | Inl err \<Rightarrow>
       all_fail (evaluate_selector engines (fp_preferred_engines policy) text perms)
         (all_stages def policy) \<and>
       ve_attempts err =
         attempted (evaluate_selector engines (fp_preferred_engines policy) text perms)
           (all_stages def policy)"
proof (cases "try_stages (evaluate_selector engines (fp_preferred_engines policy) text perms)
    (all_stages def policy) []")
  case (Inl att)
  moreover from this [unfolded try_stages_Inl] have
    "all_fail (evaluate_selector engines (fp_preferred_engines policy) text perms)
       (all_stages def policy)"
    "att = attempted (evaluate_selector engines (fp_preferred_engines policy) text perms)
       (all_stages def policy)" by auto
  ultimately show ?thesis by (simp add: resolve_stages)
next
  case (Inr t)
  obtain v reason att where t: "t = (v, reason, att)" using prod_cases3 by blast
  from try_stages_Inr [OF Inr [unfolded t]] Inr t show ?thesis by (simp add: resolve_stages)
qed

section \<open>Automatic selection\<close>

text \<open>
  The engines an unscoped selector may use, and the order among them.
\<close>

definition automatic_candidate ::
    "rstr option \<Rightarrow> voice_gender option \<Rightarrow> rstr option \<Rightarrow> engine_selection_permissions \<Rightarrow>
     engine_descriptor \<Rightarrow> bool" where
  "automatic_candidate language gender text perms d \<longleftrightarrow>
     engine_can_synthesize d \<and> permits_automatic perms (ed_id d) \<and>
     is_ok (choose_voice d language gender) \<and> text_failure_opt d text = None"

text \<open>
  C7: a selector that names no engine never uses an engine that is disabled or only explicitly
  permitted, and among the engines that can serve it (a matching voice, an encodable text) it
  takes the one with the best place in the preferred order, ties by engine id; on that engine
  it takes the default voice if it matches, and otherwise the matching voice of the least id.
\<close>

theorem automatic_choice_best:
  assumes "choose_across_engines engines language gender preferred text perms = Inr v"
  shows "\<exists>d \<in> set engines. \<exists>row \<in> set (ed_voices d).
           vd_id row = v \<and> automatic_candidate language gender text perms d \<and>
           voice_matches language gender row \<and>
           (\<forall>d' \<in> set engines. automatic_candidate language gender text perms d' \<longrightarrow>
              engine_key preferred d \<le> engine_key preferred d') \<and>
           (\<forall>r \<in> set (ed_voices d). voice_matches language gender r \<longrightarrow>
              voice_key d row \<le> voice_key d r)"
proof -
  let ?P = "\<lambda>d. engine_can_synthesize d \<and> permits_automatic perms (ed_id d)"
  let ?ds = "sort_key (engine_key preferred) (filter ?P engines)"
  from across_loop_Inr [OF assms [unfolded choose_across_engines_def]]
  obtain pre d post where ds: "?ds = pre @ d # post"
    and v: "choose_voice d language gender = Inr v" and ok: "text_failure_opt d text = None"
    and pre: "\<forall>p \<in> set pre. \<not> is_ok (choose_voice p language gender) \<or> text_failure_opt p text \<noteq> None"
    by blast
  have mem: "x \<in> set (pre @ d # post) \<longleftrightarrow> x \<in> set engines \<and> ?P x" for x
    unfolding ds [symmetric] by auto
  have "sorted (map (engine_key preferred) ?ds)" by (rule sorted_sort_key)
  then have least: "engine_key preferred d \<le> engine_key preferred x" if "x \<in> set (d # post)" for x
    using that unfolding ds by (auto simp: sorted_append)
  have cand: "automatic_candidate language gender text perms d"
    using mem [of d] v ok by (simp add: automatic_candidate_def)
  have best: "engine_key preferred d \<le> engine_key preferred x"
    if "x \<in> set engines" "automatic_candidate language gender text perms x" for x
    using that mem [of x] pre least [of x] by (auto simp: automatic_candidate_def)
  from v show ?thesis
  proof (rule choose_voice_Inr)
    fix row
    assume "row \<in> set (ed_voices d)" "voice_matches language gender row" "vd_id row = v"
      "\<And>r. r \<in> set (ed_voices d) \<Longrightarrow> voice_matches language gender r \<Longrightarrow>
         voice_key d row \<le> voice_key d r"
    with mem [of d] cand best show ?thesis by (intro bexI [of _ d] bexI [of _ row]) auto
  qed
qed

section \<open>Independence of the inventory order\<close>

lemma sort_key_perm:
  assumes "mset xs = mset ys" "inj_on f (set xs)"
  shows "sort_key f xs = sort_key f ys"
  using assms by (intro sort_key_inj_key_eq) simp_all

lemma find_usable_engine_perm:
  assumes "mset xs = mset ys" "distinct (map ed_id xs)"
  shows "find_usable_engine xs eid perms = find_usable_engine ys eid perms"
  using find_mset_cong [OF assms, of eid] by (simp add: find_usable_engine_def)

lemma choose_across_perm:
  assumes "mset xs = mset ys" "distinct (map ed_id xs)"
  shows "choose_across_engines xs language gender preferred text perms =
         choose_across_engines ys language gender preferred text perms"
proof -
  let ?P = "\<lambda>d. engine_can_synthesize d \<and> permits_automatic perms (ed_id d)"
  have "inj_on (engine_key preferred) (set (filter ?P xs))"
    using assms(2) by (auto simp: engine_key_def inj_on_def distinct_map)
  moreover have "mset (filter ?P xs) = mset (filter ?P ys)" using assms(1) by simp
  ultimately have "sort_key (engine_key preferred) (filter ?P xs) =
      sort_key (engine_key preferred) (filter ?P ys)" by (intro sort_key_perm)
  then show ?thesis by (simp only: choose_across_engines_def)
qed

lemma evaluate_selector_perm:
  assumes "mset xs = mset ys" "distinct (map ed_id xs)"
  shows "evaluate_selector xs preferred text perms sel =
         evaluate_selector ys preferred text perms sel"
  by (cases "(xs, preferred, text, perms, sel)" rule: evaluate_selector.cases)
    (simp_all add: evaluate_exact_def evaluate_on_engine_def choose_across_perm [OF assms]
      find_usable_engine_perm [OF assms])

text \<open>
  Resolution does not depend on the order in which engines were discovered: two inventories
  with the same engines, each id once, resolve every logical voice to the same result, the
  recorded attempts included.
\<close>

theorem resolve_inventory_order:
  assumes "mset xs = mset ys" and "distinct (map ed_id xs)"
  shows "resolve_voice_with_permissions xs def policy text perms =
         resolve_voice_with_permissions ys def policy text perms"
proof -
  have "evaluate_selector xs (fp_preferred_engines policy) text perms =
      evaluate_selector ys (fp_preferred_engines policy) text perms"
    by (rule ext) (rule evaluate_selector_perm [OF assms])
  then show ?thesis by (simp only: resolve_stages)
qed

section \<open>The theorems at a concrete inventory\<close>

definition sample_voice :: "string \<Rightarrow> string \<Rightarrow> voice_descriptor" where
  "sample_voice eid vid =
     \<lparr>vd_id = PhysicalVoiceId (lit eid) (lit vid), vd_display_name = lit vid,
      vd_language = Some (lit ''en''), vd_gender = None, vd_quality = Enhanced,
      vd_availability = Available\<rparr>"

definition sample_engine :: "string \<Rightarrow> text_repertoire \<Rightarrow> string list \<Rightarrow> engine_descriptor" where
  "sample_engine eid rep vids =
     (unavailable_engine (lit eid) [])
       \<lparr>ed_availability := Available, ed_health := Healthy,
        ed_capabilities :=
          (ed_capabilities (unavailable_engine [] []))\<lparr>ec_text_repertoire := rep\<rparr>,
        ed_voices := map (sample_voice eid) vids\<rparr>"

definition sample_inventory :: "engine_descriptor list" where
  "sample_inventory = [sample_engine ''b'' Unicode [''y'', ''x''], sample_engine ''a'' UnknownText [''w'']]"

definition sample_definition :: logical_voice_definition where
  "sample_definition =
     \<lparr>lv_id = lit ''code'', lv_language = None, lv_preferences = [EngineDefault (lit ''a'')],
      lv_acss = \<lparr>na_rate = None, na_average_pitch = None, na_pitch_range = None, na_stress = None,
                 na_richness = None, na_volume = None\<rparr>,
      lv_effects = \<lparr>ps_gain = None, ps_low_pass = None, ps_high_pass = None, ps_pan = None,
                    ps_chorus = None, ps_reverb = None, ps_echo = None\<rparr>\<rparr>"

definition sample_policy :: fallback_policy where
  "sample_policy =
     \<lparr>fp_preferred_engines = [], fp_allow_same_language = False, fp_global_default = None,
      fp_fallback_engines = [lit ''b'']\<rparr>"

lemmas sample_defs = sample_voice_def sample_engine_def sample_inventory_def
  sample_definition_def sample_policy_def unavailable_engine_def lit_Cons

lemmas resolve_defs = resolve_voice_with_permissions_def Let_def preference_stages_def
  same_language_stages_def preferred_engine_stages_def global_default_stages_def
  fallback_engine_stages_def evaluate_on_engine_def find_usable_engine_def perm_disabled_def
  default_permissions_def choose_voice_def voice_key_def voice_matches_def language_matches_def
  ensure_text_supported_def text_failure_opt_def text_failure_def first_unsupported_def
  requested_selector_def

lemma sample_resolved:
  "\<exists>r. resolve_voice_with_permissions sample_inventory sample_definition sample_policy
         (Some [233]) default_permissions = Inr r \<and>
       vr_realized r = PhysicalVoiceId (lit ''b'') (lit ''x'')"
  by (simp add: sample_defs resolve_defs)

theorem resolve_sound_witness:
  "voice_usable sample_inventory (Some [233]) default_permissions
     (PhysicalVoiceId (lit ''b'') (lit ''x''))"
proof -
  obtain r where "resolve_voice_with_permissions sample_inventory sample_definition sample_policy
      (Some [233]) default_permissions = Inr r"
    and v: "vr_realized r = PhysicalVoiceId (lit ''b'') (lit ''x'')"
    using sample_resolved by auto
  from resolve_sound [OF this(1)] show ?thesis by (simp add: v)
qed

theorem automatic_choice_best_witness:
  "\<exists>d \<in> set sample_inventory. automatic_candidate None None (Some [233]) default_permissions d"
proof -
  have "choose_across_engines sample_inventory None None [lit ''a''] (Some [233]) default_permissions =
      Inr (PhysicalVoiceId (lit ''b'') (lit ''x''))"
    by (simp add: choose_across_engines_def engine_key_def engine_priority_def usize_max_def
        engine_can_synthesize_def permits_automatic_def sample_defs resolve_defs)
  from automatic_choice_best [OF this] show ?thesis by blast
qed

end
