(* ===== verification/Routing_Policy.thy ===== *)
theory Routing_Policy
  imports Interfaces Contracts
begin

text \<open>
  The session routing policy of \<open>omnivox-tts/src/routing_policy.rs\<close>: validated, generation-safe
  replacement of the engine order, with the locally disabled engines as a floor that no client
  policy removes. The registry provides the interface \<open>generation_gate\<close>.
\<close>

section \<open>State and operations\<close>

definition max_engine_id_bytes :: nat where "max_engine_id_bytes = 128"

record local_routing_policy =
  lp_preferred_engine_ids :: "rstr list option"
  lp_fallback_engine_ids :: "rstr list option"
  lp_disabled_engine_ids :: "rstr list"
  lp_automatic_engine_ids :: "rstr list"

definition default_local_policy :: local_routing_policy where
  "default_local_policy =
     \<lparr>lp_preferred_engine_ids = None, lp_fallback_engine_ids = None,
      lp_disabled_engine_ids = [], lp_automatic_engine_ids = []\<rparr>"

record routing_policy =
  preferred_engine_ids :: "rstr list"
  fallback_engine_ids :: "rstr list"
  disabled_engine_ids :: "rstr list"

record routing_policy_registration =
  rg_generation :: nat
  rg_policy :: routing_policy

datatype routing_policy_error =
  RpStaleGeneration nat nat
| RpGenerationConflict nat
| RpInvalidEngineId string
| RpDuplicateEngine string rstr

record routing_policy_registry =
  rp_generation :: nat
  rp_configured :: bool
  rp_policy :: routing_policy
  rp_local_disabled :: "rstr list"
  rp_local_fallback :: "rstr list option"
  rp_session_policy :: "routing_policy option"

definition with_local_policy ::
    "rstr \<Rightarrow> local_routing_policy \<Rightarrow> routing_policy_registry" where
  "with_local_policy startup lp =
     \<lparr>rp_generation = 0, rp_configured = False,
      rp_policy =
        \<lparr>preferred_engine_ids =
           (case lp_preferred_engine_ids lp of None \<Rightarrow> [startup] | Some es \<Rightarrow> es),
         fallback_engine_ids = (case lp_fallback_engine_ids lp of None \<Rightarrow> [] | Some es \<Rightarrow> es),
         disabled_engine_ids = lp_disabled_engine_ids lp\<rparr>,
      rp_local_disabled = lp_disabled_engine_ids lp,
      rp_local_fallback = lp_fallback_engine_ids lp,
      rp_session_policy = None\<rparr>"

definition new_routing_registry :: "rstr \<Rightarrow> routing_policy_registry" where
  "new_routing_registry startup = with_local_policy startup default_local_policy"

definition routing_id_ok :: "rstr \<Rightarrow> bool" where
  "routing_id_ok e \<longleftrightarrow>
     \<not> (e = [] \<or> max_engine_id_bytes < str_len e \<or> list_ex is_whitespace e)"

fun validate_ids :: "string \<Rightarrow> rstr set \<Rightarrow> rstr list \<Rightarrow> routing_policy_error + unit" where
  "validate_ids field seen [] = Inr ()"
| "validate_ids field seen (e # es) =
     (if \<not> routing_id_ok e then Inl (RpInvalidEngineId field)
      else if e \<in> seen then Inl (RpDuplicateEngine field e)
      else validate_ids field (insert e seen) es)"

definition validate_policy :: "routing_policy \<Rightarrow> routing_policy_error + unit" where
  "validate_policy p =
     check_each (\<lambda>(field, values). validate_ids field {} values)
       [(''preferred_engine_ids'', preferred_engine_ids p),
        (''fallback_engine_ids'', fallback_engine_ids p),
        (''disabled_engine_ids'', disabled_engine_ids p)]"

fun push_missing :: "rstr list \<Rightarrow> rstr list \<Rightarrow> rstr list" where
  "push_missing [] ds = ds"
| "push_missing (e # es) ds = push_missing es (if e \<in> set ds then ds else ds @ [e])"

definition routing_registration :: "routing_policy_registry \<Rightarrow> routing_policy_registration" where
  "routing_registration r = \<lparr>rg_generation = rp_generation r, rg_policy = rp_policy r\<rparr>"

definition register_policy ::
    "nat \<Rightarrow> routing_policy \<Rightarrow> routing_policy_registry \<Rightarrow>
     routing_policy_error + routing_policy_registration \<times> routing_policy_registry" where
  "register_policy g p r =
     (if g < rp_generation r then Inl (RpStaleGeneration (rp_generation r) g)
      else and_then (validate_policy p) (\<lambda>_.
        if g = rp_generation r \<and> rp_configured r
        then (if rp_session_policy r \<noteq> Some p then Inl (RpGenerationConflict g)
              else Inr (routing_registration r, r))
        else
          let r' = r\<lparr>rp_generation := g, rp_configured := True, rp_session_policy := Some p,
                     rp_policy := p\<lparr>disabled_engine_ids :=
                       push_missing (rp_local_disabled r) (disabled_engine_ids p)\<rparr>\<rparr>
          in Inr (routing_registration r', r')))"

definition effective_fallback_policy ::
    "routing_policy_registry \<Rightarrow> fallback_policy \<Rightarrow> fallback_policy" where
  "effective_fallback_policy r base =
     base\<lparr>fp_preferred_engines := preferred_engine_ids (rp_policy r),
          fp_fallback_engines :=
            (if rp_configured r then fallback_engine_ids (rp_policy r)
             else case rp_local_fallback r of
                    None \<Rightarrow> fp_fallback_engines base | Some es \<Rightarrow> es)\<rparr>"

definition project_disabled ::
    "routing_policy_registry \<Rightarrow> engine_descriptor list \<Rightarrow> engine_descriptor list" where
  "project_disabled r inventory =
     map (\<lambda>d. if ed_id d \<in> set (disabled_engine_ids (rp_policy r))
              then d\<lparr>ed_availability := Unavailable (lit ''disabled by runtime routing policy'')\<rparr>
              else d) inventory"

definition inventory_generation :: "routing_policy_registry \<Rightarrow> nat \<Rightarrow> nat" where
  "inventory_generation r base = u64_saturating_add base (rp_generation r)"

section \<open>The registry as a generation gate\<close>

definition accept_policy ::
    "nat \<Rightarrow> routing_policy \<Rightarrow> routing_policy_registry \<Rightarrow>
     routing_policy_error + routing_policy_registry" where
  "accept_policy g p r = and_then (register_policy g p r) (\<lambda>(reg, r'). Inr r')"

lemma accept_policy_Inr:
  "accept_policy g p r = Inr r' \<longleftrightarrow>
     rp_generation r \<le> g \<and> validate_policy p = Inr () \<and>
     (if g = rp_generation r \<and> rp_configured r
      then rp_session_policy r = Some p \<and> r' = r
      else r' = r\<lparr>rp_generation := g, rp_configured := True, rp_session_policy := Some p,
                  rp_policy := p\<lparr>disabled_engine_ids :=
                    push_missing (rp_local_disabled r) (disabled_engine_ids p)\<rparr>\<rparr>)"
  by (auto simp: accept_policy_def register_policy_def Let_def res_simps not_less)

interpretation routing: generation_gate accept_policy rp_generation rp_configured rp_policy
proof (unfold_locales, goal_cases)
  case (1 g p s s')
  then show ?case by (auto simp: accept_policy_Inr split: if_splits)
next
  case (2 g p s s')
  then show ?case by (auto simp: accept_policy_Inr split: if_splits)
next
  case (3 g p s s')
  then show ?case by (auto simp: accept_policy_Inr)
qed

lemma set_push_missing: "set (push_missing es ds) = set es \<union> set ds"
  by (induction es ds rule: push_missing.induct) auto

lemma distinct_push_missing: "distinct ds \<Longrightarrow> distinct (push_missing es ds)"
  by (induction es ds rule: push_missing.induct) auto

lemma validate_ids_Inr:
  "validate_ids field seen es = Inr u \<longleftrightarrow>
     list_all routing_id_ok es \<and> distinct es \<and> set es \<inter> seen = {}"
  by (induction field seen es rule: validate_ids.induct) auto

definition ids_ok :: "rstr list \<Rightarrow> bool" where
  "ids_ok es \<longleftrightarrow> list_all routing_id_ok es \<and> distinct es"

text \<open>
  A policy is valid exactly when each of its three lists holds well-formed ids (not empty, at
  most 128 bytes, no white space), each at most once.
\<close>

lemma validate_policy_lists:
  "validate_policy p = Inr () \<longleftrightarrow>
     ids_ok (preferred_engine_ids p) \<and> ids_ok (fallback_engine_ids p) \<and>
     ids_ok (disabled_engine_ids p)"
  by (simp add: validate_policy_def ids_ok_def res_simps validate_ids_Inr)

text \<open>
  A policy the registry accepted once is absorbed when its request arrives again, whatever
  other requests were delivered in between, and no delivery turns the generation back.
\<close>

theorem routing_retry_absorbed:
  assumes "accept_policy g p r = Inr r'"
  shows "rp_policy (routing.deliver (foldl routing.deliver r' rs) (g, p)) =
           rp_policy (foldl routing.deliver r' rs) \<and>
         g \<le> rp_generation (foldl routing.deliver r' rs)"
  using routing.replay_absorbed [OF assms] routing.run_generation [of r' rs]
    routing.not_older [OF assms] by simp

section \<open>The disabled floor\<close>

definition routing_inv :: "routing_policy_registry \<Rightarrow> bool" where
  "routing_inv r \<longleftrightarrow>
     set (rp_local_disabled r) \<subseteq> set (disabled_engine_ids (rp_policy r)) \<and>
     distinct (disabled_engine_ids (rp_policy r))"

lemma deliver_routing_inv:
  assumes "routing_inv r"
  shows "routing_inv (routing.deliver r q)"
  by (rule routing.deliver_induct [where Q = routing_inv, OF assms])
    (use assms in \<open>auto simp: routing_inv_def accept_policy_Inr set_push_missing
      validate_policy_lists ids_ok_def intro: distinct_push_missing split: if_splits\<close>)

lemma deliver_local_disabled: "rp_local_disabled (routing.deliver r q) = rp_local_disabled r"
  by (rule routing.deliver_induct [where Q = "\<lambda>s. rp_local_disabled s = rp_local_disabled r"])
    (auto simp: accept_policy_Inr split: if_splits)

lemma count_list_distinct: "distinct xs \<Longrightarrow> count_list xs x = (if x \<in> set xs then 1 else 0)"
  by (induction xs) auto

interpretation routing_machine: invariant_machine "\<lambda>q r. routing.deliver r q" routing_inv
  by unfold_locales (rule deliver_routing_inv)

lemma run_local_disabled:
  "rp_local_disabled (fold (\<lambda>q r. routing.deliver r q) qs r) = rp_local_disabled r"
  by (induction qs arbitrary: r) (simp_all add: deliver_local_disabled)

text \<open>
  Local disablement is a floor: after any sequence of client policies, every engine the
  machine's configuration disables is still disabled, listed once, and unavailable in the
  projected inventory.
\<close>

theorem disabled_floor:
  assumes "distinct (lp_disabled_engine_ids lp)"
    and "e \<in> set (lp_disabled_engine_ids lp)"
    and "r = fold (\<lambda>q r. routing.deliver r q) qs (with_local_policy startup lp)"
  shows "count_list (disabled_engine_ids (rp_policy r)) e = 1 \<and>
         list_all (\<lambda>d. ed_id d = e \<longrightarrow> \<not> engine_can_synthesize d) (project_disabled r inventory)"
proof -
  have "routing_inv (with_local_policy startup lp)"
    using assms(1) by (simp add: routing_inv_def with_local_policy_def)
  then have inv: "routing_inv r" unfolding assms(3) by (rule routing_machine.inv_run)
  have "e \<in> set (disabled_engine_ids (rp_policy r))"
    using inv assms(2) run_local_disabled [of qs "with_local_policy startup lp"]
    by (auto simp: routing_inv_def assms(3) with_local_policy_def)
  with inv show ?thesis
    by (auto simp: routing_inv_def count_list_distinct project_disabled_def list_all_iff
        engine_can_synthesize_def)
qed

section \<open>The theorems at a concrete registry\<close>

definition sample_local :: local_routing_policy where
  "sample_local = default_local_policy\<lparr>lp_disabled_engine_ids := [lit ''dectalk'']\<rparr>"

definition sample_session :: routing_policy where
  "sample_session =
     \<lparr>preferred_engine_ids = [lit ''espeak''], fallback_engine_ids = [], disabled_engine_ids = []\<rparr>"

end
