(* ===== verification/Engine_Registry.thy ===== *)
theory Engine_Registry
  imports Interfaces Voice_Eligibility Resolver Routing_Policy
begin

text \<open>
  The engine registry of \<open>omnivox-tts/src/engine_registry.rs\<close>: validated descriptors under a
  generation, startup failures that are rescanned in the background, and refreshes. Engines
  (\<open>dyn TtsEngine\<close>) and retry closures are opaque values; what the registry asks of an engine is
  its current descriptor, the argument \<open>describe\<close> of the operations that call it. The
  \<open>BTreeMap\<close> of entries is an association list sorted by key.
\<close>

section \<open>State\<close>

text \<open>An engine as stored: bare, or wrapped by \<open>guard_engine\<close>.\<close>

datatype 'e handle = Bare 'e | Guarded voice_eligibility 'e

fun handle_descriptor :: "('e \<Rightarrow> engine_descriptor) \<Rightarrow> 'e handle \<Rightarrow> engine_descriptor" where
  "handle_descriptor describe (Bare e) = describe e"
| "handle_descriptor describe (Guarded p e) = project_descriptor p (describe e)"

datatype 'f engine_factory = PlainFactory 'f | GuardedFactory voice_eligibility 'f

record ('e, 'f) registered_engine =
  re_engine :: "'e handle option"
  re_descriptor :: engine_descriptor
  re_retry :: "'f engine_factory option"
  re_rescanning :: bool

record ('e, 'f) engine_registry =
  er_generation :: nat
  er_entries :: "(rstr \<times> ('e, 'f) registered_engine) list"
  er_eligibility :: "voice_eligibility option"
  er_permissions :: engine_selection_permissions
  er_local_policy :: local_routing_policy
  er_configured :: bool

definition registry_error_text :: "engine_registry_error \<Rightarrow> rstr" where
  "registry_error_text err =
     (case err of
        PolicyAlreadyPublished \<Rightarrow> lit ''local engine policy must be installed before engine registration''
      | EmptyEngineId \<Rightarrow> lit ''engine descriptor has an empty ID''
      | InvalidVariantCatalogue e \<Rightarrow>
          lit ''engine '' @ e @ lit '' has an invalid eSpeak variant catalogue''
      | DuplicateEngine e \<Rightarrow> lit ''engine '' @ e @ lit '' is already registered''
      | ForeignVoice e v \<Rightarrow> lit ''engine '' @ e @ lit '' describes a voice owned by '' @ v
      | DuplicateVoice e v \<Rightarrow> lit ''engine '' @ e @ lit '' repeats physical voice ID '' @ v
      | MissingDefaultVoice e v \<Rightarrow> lit ''engine '' @ e @ lit '' names missing default voice '' @ v
      | UnknownEngine e \<Rightarrow> lit ''engine '' @ e @ lit '' is not registered''
      | ChangedEngineId e r \<Rightarrow> lit ''engine '' @ e @ lit '' changed its descriptor ID to '' @ r)"

definition new_registry :: "voice_eligibility option \<Rightarrow> ('e, 'f) engine_registry" where
  "new_registry eligibility =
     \<lparr>er_generation = 0, er_entries = [], er_eligibility = eligibility,
      er_permissions = default_permissions, er_local_policy = default_local_policy,
      er_configured = False\<rparr>"

definition advance_registry :: "('e, 'f) engine_registry \<Rightarrow> ('e, 'f) engine_registry" where
  "advance_registry r = r\<lparr>er_generation := u64_saturating_add (er_generation r) 1\<rparr>"

definition lookup_entry ::
    "('e, 'f) engine_registry \<Rightarrow> rstr \<Rightarrow> ('e, 'f) registered_engine option" where
  "lookup_entry r k = map_of (er_entries r) k"

text \<open>\<open>get_mut\<close> and the changes made through it.\<close>

definition update_entry ::
    "rstr \<Rightarrow> (('e, 'f) registered_engine \<Rightarrow> ('e, 'f) registered_engine) \<Rightarrow>
     ('e, 'f) engine_registry \<Rightarrow> ('e, 'f) engine_registry" where
  "update_entry k f r =
     r\<lparr>er_entries := map (\<lambda>(k', e). (k', if k' = k then f e else e)) (er_entries r)\<rparr>"

section \<open>Operations\<close>

definition configure_local_selection ::
    "local_routing_policy \<Rightarrow> engine_selection_permissions \<Rightarrow> ('e, 'f) engine_registry \<Rightarrow>
     engine_registry_error + ('e, 'f) engine_registry" where
  "configure_local_selection policy perms r =
     (if er_entries r \<noteq> [] \<or> er_configured r then Inl PolicyAlreadyPublished
      else Inr (r\<lparr>er_local_policy := policy,
                  er_permissions := include_disabled (lp_disabled_engine_ids policy) perms\<rparr>))"

definition configure_startup_snapshot ::
    "local_routing_policy \<Rightarrow> engine_selection_permissions \<Rightarrow> ('e, 'f) engine_registry \<Rightarrow>
     engine_registry_error + ('e, 'f) engine_registry" where
  "configure_startup_snapshot policy perms r =
     (if er_entries r \<noteq> [] \<or> er_configured r then Inl PolicyAlreadyPublished
      else and_then (configure_local_selection policy perms r) (\<lambda>r'.
             Inr (r'\<lparr>er_configured := True\<rparr>)))"

definition local_disabled_reason :: rstr where
  "local_disabled_reason = lit ''disabled by local engine configuration''"

definition insert_engine ::
    "('e, 'f) registered_engine \<Rightarrow> ('e, 'f) engine_registry \<Rightarrow>
     engine_registry_error + ('e, 'f) engine_registry" where
  "insert_engine entry0 r =
     and_then (validate_descriptor (re_descriptor entry0)) (\<lambda>_.
       let eid = ed_id (re_descriptor entry0);
           entry = (if perm_disabled (er_permissions r) eid
                    then entry0\<lparr>re_engine := None, re_retry := None,
                                re_descriptor := (re_descriptor entry0)
                                  \<lparr>ed_availability := Unavailable local_disabled_reason\<rparr>\<rparr>
                    else entry0)
       in if lookup_entry r eid \<noteq> None then Inl (DuplicateEngine eid)
          else Inr (advance_registry
                 (r\<lparr>er_entries := insort_key fst (eid, entry) (er_entries r)\<rparr>)))"

definition register_engine ::
    "('e \<Rightarrow> engine_descriptor) \<Rightarrow> 'e \<Rightarrow> ('e, 'f) engine_registry \<Rightarrow>
     engine_registry_error + ('e, 'f) engine_registry" where
  "register_engine describe e r =
     and_then
       (case er_eligibility r of
          Some p \<Rightarrow>
            and_then (validate_descriptor (describe e)) (\<lambda>_.
              Inr (Guarded p e, project_descriptor p (describe e)))
        | None \<Rightarrow> Inr (Bare e, describe e))
       (\<lambda>(engine, d). insert_engine
          \<lparr>re_engine = Some engine, re_descriptor = d, re_retry = None, re_rescanning = False\<rparr> r)"

definition register_unavailable ::
    "engine_descriptor \<Rightarrow> 'f \<Rightarrow> ('e, 'f) engine_registry \<Rightarrow>
     engine_registry_error + ('e, 'f) engine_registry" where
  "register_unavailable d0 retry r =
     and_then (validate_descriptor d0) (\<lambda>_.
       let (d, factory) =
             (case er_eligibility r of
                Some p \<Rightarrow>
                  (project_descriptor p d0,
                   if excludes_provider p (ed_id d0) then None
                   else Some (GuardedFactory p retry))
              | None \<Rightarrow> (d0, Some (PlainFactory retry)))
       in insert_engine
            \<lparr>re_engine = None, re_descriptor = d, re_retry = factory, re_rescanning = False\<rparr> r)"

definition snapshot_registry :: "('e, 'f) engine_registry \<Rightarrow> nat \<times> engine_descriptor list" where
  "snapshot_registry r = (er_generation r, map (re_descriptor \<circ> snd) (er_entries r))"

definition registry_engine :: "('e, 'f) engine_registry \<Rightarrow> rstr \<Rightarrow> 'e handle option" where
  "registry_engine r eid = Option.bind (lookup_entry r eid) re_engine"

datatype rescan_error =
  RescanDisabled | RescanUnknown rstr | RescanInProgress rstr | RescanNoFailure rstr

text \<open>
  The part of \<open>request_rescan\<close> under the lock; on success the returned factory is what the
  spawned thread runs.
\<close>

definition request_rescan ::
    "rstr \<Rightarrow> ('e, 'f) engine_registry \<Rightarrow>
     rescan_error + 'f engine_factory \<times> ('e, 'f) engine_registry" where
  "request_rescan eid r =
     (if perm_disabled (er_permissions r) eid then Inl RescanDisabled
      else case lookup_entry r eid of
             None \<Rightarrow> Inl (RescanUnknown eid)
           | Some entry \<Rightarrow>
               if re_rescanning entry then Inl (RescanInProgress eid)
               else (case re_retry entry of
                      None \<Rightarrow> Inl (RescanNoFailure eid)
                    | Some retry \<Rightarrow>
                        Inr (retry, advance_registry (update_entry eid
                          (\<lambda>e. e\<lparr>re_rescanning := True,
                                 re_descriptor := (re_descriptor e)
                                   \<lparr>ed_availability := Unavailable
                                      (lit ''Runtime rescan in progress'')\<rparr>\<rparr>) r))))"

fun run_factory ::
    "('e \<Rightarrow> engine_descriptor) \<Rightarrow> 'f engine_factory \<Rightarrow> rstr + 'e \<Rightarrow> rstr + 'e handle" where
  "run_factory describe (PlainFactory f) started = and_then started (\<lambda>e. Inr (Bare e))"
| "run_factory describe (GuardedFactory p f) started =
     and_then started (\<lambda>e.
     and_then (map_err registry_error_text (validate_descriptor (describe e))) (\<lambda>_.
       Inr (Guarded p e)))"

text \<open>
  The thread's body: \<open>None\<close> is a panic of the constructor, caught by \<open>catch_unwind\<close>.
\<close>

definition rescan_body ::
    "('e \<Rightarrow> engine_descriptor) \<Rightarrow> rstr \<Rightarrow> 'f engine_factory \<Rightarrow> (rstr + 'e) option \<Rightarrow>
     rstr + 'e handle \<times> engine_descriptor" where
  "rescan_body describe eid factory outcome =
     (case outcome of
        None \<Rightarrow> Inl (lit ''Engine rescan panicked'')
      | Some started \<Rightarrow>
          and_then (run_factory describe factory started) (\<lambda>h.
            let d = handle_descriptor describe h
            in and_then (map_err registry_error_text (validate_descriptor d)) (\<lambda>_.
                 if ed_id d \<noteq> eid \<or> \<not> engine_can_synthesize d
                 then Inl (lit ''Rescanned engine returned an unavailable or mismatched descriptor'')
                 else Inr (h, d))))"

text \<open>\<open>None\<close> is the panic of \<open>expect\<close> on a missing entry.\<close>

definition finish_rescan ::
    "rstr \<Rightarrow> rstr + 'e handle \<times> engine_descriptor \<Rightarrow> ('e, 'f) engine_registry \<Rightarrow>
     ('e, 'f) engine_registry option" where
  "finish_rescan eid result r =
     (case lookup_entry r eid of
        None \<Rightarrow> None
      | Some _ \<Rightarrow>
          Some (advance_registry (update_entry eid
            (\<lambda>e. case result of
                   Inr (engine, d) \<Rightarrow>
                     e\<lparr>re_rescanning := False, re_engine := Some engine, re_descriptor := d,
                       re_retry := None\<rparr>
                 | Inl reason \<Rightarrow>
                     e\<lparr>re_rescanning := False,
                       re_descriptor := (re_descriptor e)
                         \<lparr>ed_availability := Unavailable reason, ed_health := Failed reason\<rparr>\<rparr>) r)))"

text \<open>A spawn failure finishes the rescan with an error.\<close>

definition spawn_failed :: "rstr \<Rightarrow> rstr \<Rightarrow> ('e, 'f) engine_registry \<Rightarrow> ('e, 'f) engine_registry option" where
  "spawn_failed eid err r =
     finish_rescan eid (Inl (lit ''Could not start engine rescan: '' @ err)) r"

definition refresh_descriptor ::
    "('e \<Rightarrow> engine_descriptor) \<Rightarrow> rstr \<Rightarrow> ('e, 'f) engine_registry \<Rightarrow>
     engine_registry_error + bool \<times> ('e, 'f) engine_registry" where
  "refresh_descriptor describe eid r =
     and_then (ok_or (registry_engine r eid) (UnknownEngine eid)) (\<lambda>h.
       let d = handle_descriptor describe h
       in if ed_id d \<noteq> eid then Inl (ChangedEngineId eid (ed_id d))
          else and_then (validate_descriptor d) (\<lambda>_.
            case lookup_entry r eid of
              None \<Rightarrow> Inl (UnknownEngine eid)
            | Some entry \<Rightarrow>
                if re_descriptor entry = d then Inr (False, r)
                else Inr (True,
                  advance_registry (update_entry eid (\<lambda>e. e\<lparr>re_descriptor := d\<rparr>) r))))"

text \<open>
  The operations as one machine. A rescan that was requested finishes with the factory the
  entry still holds; an operation that fails leaves the registry as it was.
\<close>

datatype ('e, 'f) registry_op =
  RegisterOp "'e \<Rightarrow> engine_descriptor" 'e
| RegisterUnavailableOp engine_descriptor 'f
| RequestRescanOp rstr
| FinishRescanOp "'e \<Rightarrow> engine_descriptor" rstr "(rstr + 'e) option"
| SpawnFailedOp rstr rstr
| RefreshOp "'e \<Rightarrow> engine_descriptor" rstr

fun registry_step ::
    "('e, 'f) registry_op \<Rightarrow> ('e, 'f) engine_registry \<Rightarrow> ('e, 'f) engine_registry" where
  "registry_step (RegisterOp describe e) r =
     (case register_engine describe e r of Inl err \<Rightarrow> r | Inr r' \<Rightarrow> r')"
| "registry_step (RegisterUnavailableOp d f) r =
     (case register_unavailable d f r of Inl err \<Rightarrow> r | Inr r' \<Rightarrow> r')"
| "registry_step (RequestRescanOp eid) r =
     (case request_rescan eid r of Inl err \<Rightarrow> r | Inr (f, r') \<Rightarrow> r')"
| "registry_step (FinishRescanOp describe eid outcome) r =
     (case lookup_entry r eid of
        None \<Rightarrow> r
      | Some entry \<Rightarrow>
          if \<not> re_rescanning entry then r
          else (case re_retry entry of
                 None \<Rightarrow> r
               | Some f \<Rightarrow>
                   (case finish_rescan eid (rescan_body describe eid f outcome) r of
                      None \<Rightarrow> r | Some r' \<Rightarrow> r')))"
| "registry_step (SpawnFailedOp eid err) r =
     (case lookup_entry r eid of
        None \<Rightarrow> r
      | Some entry \<Rightarrow>
          if \<not> re_rescanning entry then r
          else (case spawn_failed eid err r of None \<Rightarrow> r | Some r' \<Rightarrow> r'))"
| "registry_step (RefreshOp describe eid) r =
     (case refresh_descriptor describe eid r of Inl err \<Rightarrow> r | Inr (b, r') \<Rightarrow> r')"

section \<open>Well-formed registries\<close>

text \<open>
  With an eligibility policy, every stored handle and factory is guarded by it and every stored
  descriptor shows the voices of a projection.
\<close>

definition guarded_by ::
    "voice_eligibility option \<Rightarrow> ('e, 'f) registered_engine \<Rightarrow> bool" where
  "guarded_by eligibility e \<longleftrightarrow>
     (case eligibility of
        None \<Rightarrow> True
      | Some p \<Rightarrow>
          (\<forall>h. re_engine e = Some h \<longrightarrow> (\<exists>x. h = Guarded p x)) \<and>
          (\<forall>f. re_retry e = Some f \<longrightarrow> (\<exists>x. f = GuardedFactory p x)) \<and>
          (\<exists>d0. rows_ok d0 \<and> ed_id d0 = ed_id (re_descriptor e) \<and>
             ed_voices (re_descriptor e) = ed_voices (project_descriptor p d0) \<and>
             ed_espeak_variants (re_descriptor e) = ed_espeak_variants d0))"

definition entry_ok ::
    "voice_eligibility option \<Rightarrow> engine_selection_permissions \<Rightarrow> rstr \<Rightarrow>
     ('e, 'f) registered_engine \<Rightarrow> bool" where
  "entry_ok eligibility perms k e \<longleftrightarrow>
     ed_id (re_descriptor e) = k \<and> descriptor_ok (re_descriptor e) \<and>
     (perm_disabled perms k \<longrightarrow>
        re_engine e = None \<and> re_retry e = None \<and> \<not> is_available (ed_availability (re_descriptor e))) \<and>
     (re_rescanning e \<longrightarrow>
        re_retry e \<noteq> None \<and> \<not> is_available (ed_availability (re_descriptor e))) \<and>
     (re_engine e \<noteq> None \<longrightarrow> re_retry e = None) \<and> guarded_by eligibility e"

definition registry_inv :: "('e, 'f) engine_registry \<Rightarrow> bool" where
  "registry_inv r \<longleftrightarrow>
     sorted (map fst (er_entries r)) \<and> distinct (map fst (er_entries r)) \<and>
     list_all (\<lambda>(k, e). entry_ok (er_eligibility r) (er_permissions r) k e) (er_entries r)"

lemma advance_registry_simps [simp]:
  "er_entries (advance_registry r) = er_entries r"
  "er_permissions (advance_registry r) = er_permissions r"
  "er_eligibility (advance_registry r) = er_eligibility r"
  "er_generation (advance_registry r) = u64_saturating_add (er_generation r) 1"
  "lookup_entry (advance_registry r) k = lookup_entry r k"
  by (simp_all add: advance_registry_def lookup_entry_def)

lemma update_entry_simps [simp]:
  "map fst (er_entries (update_entry k f r)) = map fst (er_entries r)"
  "er_permissions (update_entry k f r) = er_permissions r"
  "er_eligibility (update_entry k f r) = er_eligibility r"
  "er_generation (update_entry k f r) = er_generation r"
  by (simp_all add: update_entry_def split_def o_def)

lemma map_of_update:
  "map_of (map (\<lambda>(k', e). (k', if k' = k then f e else e)) xs) k' =
     (if k' = k then map_option f (map_of xs k) else map_of xs k')"
  by (induction xs) auto

lemma lookup_update_entry [simp]:
  "lookup_entry (update_entry k f r) k' =
     (if k' = k then map_option f (lookup_entry r k) else lookup_entry r k')"
  by (simp add: lookup_entry_def update_entry_def map_of_update)

lemma lookup_entry_ok:
  "registry_inv r \<Longrightarrow> lookup_entry r k = Some e \<Longrightarrow>
   entry_ok (er_eligibility r) (er_permissions r) k e"
  by (auto simp: registry_inv_def lookup_entry_def list_all_iff dest!: map_of_SomeD)

lemma lookup_entry_iff:
  "registry_inv r \<Longrightarrow> lookup_entry r k = Some e \<longleftrightarrow> (k, e) \<in> set (er_entries r)"
  by (simp add: registry_inv_def lookup_entry_def)

lemma update_entry_inv:
  assumes "registry_inv r" "lookup_entry r k = Some e"
    and "entry_ok (er_eligibility r) (er_permissions r) k (f e)"
  shows "registry_inv (update_entry k f r)"
proof -
  have "e' = e" if "(k, e') \<in> set (er_entries r)" for e'
    using that assms(1,2) lookup_entry_iff [OF assms(1), of k] by fastforce
  then have "list_all (\<lambda>(k, e). entry_ok (er_eligibility r) (er_permissions r) k e)
      (er_entries (update_entry k f r))"
    using assms(1,3) by (auto simp: registry_inv_def list_all_iff update_entry_def)
  with assms(1) show ?thesis
    unfolding registry_inv_def update_entry_simps by blast
qed

lemma advance_registry_inv [simp]: "registry_inv (advance_registry r) = registry_inv r"
  by (simp add: registry_inv_def)

lemma insert_engine_Inr:
  assumes "insert_engine e0 r = Inr r'"
  obtains e where "lookup_entry r (ed_id (re_descriptor e0)) = None"
    "r' = advance_registry
       (r\<lparr>er_entries := insort_key fst (ed_id (re_descriptor e0), e) (er_entries r)\<rparr>)"
    "descriptor_ok (re_descriptor e0)"
    "if perm_disabled (er_permissions r) (ed_id (re_descriptor e0))
     then e = e0\<lparr>re_engine := None, re_retry := None,
                re_descriptor := (re_descriptor e0)
                  \<lparr>ed_availability := Unavailable local_disabled_reason\<rparr>\<rparr>
     else e = e0"
  using assms
  by (auto simp: insert_engine_def res_simps Let_def validate_descriptor_Inr split: if_splits)

lemma descriptor_ok_status [simp]:
  "descriptor_ok (d\<lparr>ed_availability := a\<rparr>) = descriptor_ok d"
  "descriptor_ok (d\<lparr>ed_health := h\<rparr>) = descriptor_ok d"
  by (simp_all add: descriptor_ok_def variants_ok_def voice_keys_def)

lemma distinct_map_insort:
  "distinct (map f (insort_key f x xs)) \<longleftrightarrow> f x \<notin> f ` set xs \<and> distinct (map f xs)"
  by (induction xs) (auto simp: set_insort_key)

lemma insert_engine_inv:
  assumes "registry_inv r" "insert_engine e0 r = Inr r'"
    and "\<not> re_rescanning e0" "re_engine e0 \<noteq> None \<longrightarrow> re_retry e0 = None"
    and "guarded_by (er_eligibility r) e0"
  shows "registry_inv r'"
  using assms(2)
proof (rule insert_engine_Inr)
  let ?k = "ed_id (re_descriptor e0)"
  fix e
  assume new: "lookup_entry r ?k = None"
    and r': "r' = advance_registry (r\<lparr>er_entries := insort_key fst (?k, e) (er_entries r)\<rparr>)"
    and ok: "descriptor_ok (re_descriptor e0)"
    and e: "if perm_disabled (er_permissions r) ?k
     then e = e0\<lparr>re_engine := None, re_retry := None,
                re_descriptor := (re_descriptor e0)
                  \<lparr>ed_availability := Unavailable local_disabled_reason\<rparr>\<rparr>
     else e = e0"
  have "entry_ok (er_eligibility r) (er_permissions r) ?k e"
    using ok e assms(3-5)
    by (auto simp: entry_ok_def guarded_by_def split: if_splits option.split)
  moreover have "?k \<notin> set (map fst (er_entries r))"
    using new by (simp add: lookup_entry_def map_of_eq_None_iff)
  ultimately show ?thesis
    using assms(1) by (auto simp: registry_inv_def r' set_insort_key list_all_iff
        sorted_insort_key distinct_map_insort)
qed

section \<open>Every operation keeps the registry well formed\<close>

lemma projected_rows:
  "descriptor_ok d \<Longrightarrow> rows_ok d"
  by (simp add: descriptor_ok_def rows_ok_def)

lemma register_engine_inv:
  assumes "registry_inv r" "register_engine describe e r = Inr r'"
  shows "registry_inv r'"
proof (cases "er_eligibility r")
  case None
  with assms show ?thesis
    by (auto simp: register_engine_def guarded_by_def intro: insert_engine_inv)
next
  case (Some p)
  with assms(2) have ok: "descriptor_ok (describe e)"
    and ins: "insert_engine \<lparr>re_engine = Some (Guarded p e),
        re_descriptor = project_descriptor p (describe e), re_retry = None,
        re_rescanning = False\<rparr> r = Inr r'"
    by (auto simp: register_engine_def res_simps validate_descriptor_Inr)
  have "guarded_by (er_eligibility r) \<lparr>re_engine = Some (Guarded p e),
        re_descriptor = project_descriptor p (describe e), re_retry = None, re_rescanning = False\<rparr>"
    using projected_rows [OF ok] by (auto simp: guarded_by_def Some intro!: exI [of _ "describe e"])
  from insert_engine_inv [OF assms(1) ins _ _ this] show ?thesis by simp
qed

lemma register_unavailable_inv:
  assumes "registry_inv r" "register_unavailable d f r = Inr r'"
  shows "registry_inv r'"
proof (cases "er_eligibility r")
  case None
  with assms show ?thesis
    by (auto simp: register_unavailable_def res_simps guarded_by_def intro: insert_engine_inv)
next
  case (Some p)
  let ?f = "if excludes_provider p (ed_id d) then None else Some (GuardedFactory p f)"
  from Some assms(2) have ok: "descriptor_ok d"
    and ins: "insert_engine \<lparr>re_engine = None, re_descriptor = project_descriptor p d,
        re_retry = ?f, re_rescanning = False\<rparr> r = Inr r'"
    by (auto simp: register_unavailable_def res_simps validate_descriptor_Inr)
  have "guarded_by (er_eligibility r) \<lparr>re_engine = None, re_descriptor = project_descriptor p d,
        re_retry = ?f, re_rescanning = False\<rparr>"
    using projected_rows [OF ok] by (auto simp: guarded_by_def Some intro!: exI [of _ d])
  from insert_engine_inv [OF assms(1) ins _ _ this] show ?thesis by simp
qed

text \<open>An entry that only changes its engine-level status stays well formed.\<close>

lemma request_rescan_Inr:
  "request_rescan eid r = Inr (f, r') \<longleftrightarrow>
     \<not> perm_disabled (er_permissions r) eid \<and>
     (\<exists>e. lookup_entry r eid = Some e \<and> \<not> re_rescanning e \<and> re_retry e = Some f) \<and>
     r' = advance_registry (update_entry eid
            (\<lambda>e. e\<lparr>re_rescanning := True,
                   re_descriptor := (re_descriptor e)
                     \<lparr>ed_availability := Unavailable (lit ''Runtime rescan in progress'')\<rparr>\<rparr>) r)"
  by (auto simp: request_rescan_def split: option.splits)

lemma request_rescan_inv:
  assumes "registry_inv r" "request_rescan eid r = Inr (f, r')"
  shows "registry_inv r'"
proof -
  obtain e where e: "lookup_entry r eid = Some e" "re_retry e = Some f"
    "\<not> perm_disabled (er_permissions r) eid"
    and r': "r' = advance_registry (update_entry eid
            (\<lambda>e. e\<lparr>re_rescanning := True,
                   re_descriptor := (re_descriptor e)
                     \<lparr>ed_availability := Unavailable (lit ''Runtime rescan in progress'')\<rparr>\<rparr>) r)"
    using assms(2) by (auto simp: request_rescan_Inr)
  show ?thesis
    unfolding r' advance_registry_inv
    by (rule update_entry_inv [OF assms(1) e(1)])
      (use lookup_entry_ok [OF assms(1) e(1)] e in
        \<open>auto simp: entry_ok_def guarded_by_def split: option.splits\<close>)
qed

lemma rescan_body_Inr:
  assumes "rescan_body describe eid f outcome = Inr (h, d)"
  shows "d = handle_descriptor describe h" "descriptor_ok d" "ed_id d = eid"
    "engine_can_synthesize d"
    "f = GuardedFactory p g \<Longrightarrow> \<exists>x. h = Guarded p x"
  using assms
  by (cases f; auto simp: rescan_body_def res_simps Let_def validate_descriptor_Inr
      split: option.splits if_splits)+

lemma guarded_rows:
  assumes "descriptor_ok (handle_descriptor describe (Guarded p x))"
  shows "\<exists>d0. rows_ok d0 \<and> ed_id d0 = ed_id (handle_descriptor describe (Guarded p x)) \<and>
     ed_voices (handle_descriptor describe (Guarded p x)) = ed_voices (project_descriptor p d0) \<and>
     ed_espeak_variants (handle_descriptor describe (Guarded p x)) = ed_espeak_variants d0"
  using assms rows_ok_project [of p "describe x"] projected_rows
  by (intro exI [of _ "describe x"]) auto

lemma finish_rescan_inv:
  assumes inv: "registry_inv r" and e: "lookup_entry r eid = Some e" "re_retry e = Some f"
    and fin: "finish_rescan eid result r = Some r'"
    and result: "\<And>h d. result = Inr (h, d) \<Longrightarrow> \<exists>describe outcome. rescan_body describe eid f outcome = result"
  shows "registry_inv r'"
proof -
  note ok = lookup_entry_ok [OF inv e(1)]
  have nd: "\<not> perm_disabled (er_permissions r) eid" using ok e(2) by (auto simp: entry_ok_def)
  show ?thesis
  proof (cases result)
    case (Inl reason)
    with fin e have r': "r' = advance_registry (update_entry eid
        (\<lambda>e. e\<lparr>re_rescanning := False, re_descriptor := (re_descriptor e)
           \<lparr>ed_availability := Unavailable reason, ed_health := Failed reason\<rparr>\<rparr>) r)"
      by (simp add: finish_rescan_def)
    show ?thesis
      unfolding r' advance_registry_inv
      by (rule update_entry_inv [OF inv e(1)])
        (use ok in \<open>auto simp: entry_ok_def guarded_by_def split: option.splits\<close>)
  next
    case (Inr hd)
    obtain h d where hd: "hd = (h, d)" by (rule prod.exhaust)
    obtain describe outcome where body: "rescan_body describe eid f outcome = Inr (h, d)"
      using result Inr hd by blast
    note b = rescan_body_Inr [OF body]
    have r': "r' = advance_registry (update_entry eid
        (\<lambda>e. e\<lparr>re_rescanning := False, re_engine := Some h, re_descriptor := d, re_retry := None\<rparr>) r)"
      using fin e by (simp add: finish_rescan_def Inr hd)
    have "guarded_by (er_eligibility r)
        (e\<lparr>re_rescanning := False, re_engine := Some h, re_descriptor := d, re_retry := None\<rparr>)"
    proof (cases "er_eligibility r")
      case (Some p)
      then obtain x where "f = GuardedFactory p x" using ok e(2) by (auto simp: entry_ok_def guarded_by_def)
      then obtain y where "h = Guarded p y" using b(5) by blast
      with Some b(1,2) guarded_rows [of describe p y] show ?thesis by (simp add: guarded_by_def)
    qed (simp add: guarded_by_def)
    then show ?thesis
      unfolding r' advance_registry_inv
      by (intro update_entry_inv [OF inv e(1)]) (use b nd in \<open>simp add: entry_ok_def\<close>)
  qed
qed

lemma refresh_Inr:
  assumes "refresh_descriptor describe eid r = Inr (b, r')" "r' \<noteq> r"
  obtains h e where "lookup_entry r eid = Some e" "re_engine e = Some h"
    "descriptor_ok (handle_descriptor describe h)" "ed_id (handle_descriptor describe h) = eid"
    "r' = advance_registry (update_entry eid
       (\<lambda>e. e\<lparr>re_descriptor := handle_descriptor describe h\<rparr>) r)"
    "re_descriptor e \<noteq> handle_descriptor describe h" "b"
  using assms
  by (auto simp: refresh_descriptor_def registry_engine_def res_simps Let_def
      validate_descriptor_Inr split: if_splits option.splits bind_splits)

lemma refresh_inv:
  assumes inv: "registry_inv r" and "refresh_descriptor describe eid r = Inr (b, r')"
  shows "registry_inv r'"
proof (cases "r' = r")
  case False
  with assms(2) show ?thesis
  proof (rule refresh_Inr)
    fix h e
    assume e: "lookup_entry r eid = Some e" "re_engine e = Some h"
      and d: "descriptor_ok (handle_descriptor describe h)"
        "ed_id (handle_descriptor describe h) = eid"
      and r': "r' = advance_registry (update_entry eid
         (\<lambda>e. e\<lparr>re_descriptor := handle_descriptor describe h\<rparr>) r)"
    note ok = lookup_entry_ok [OF inv e(1)]
    have "guarded_by (er_eligibility r) (e\<lparr>re_descriptor := handle_descriptor describe h\<rparr>)"
    proof (cases "er_eligibility r")
      case (Some p)
      then obtain y where "h = Guarded p y" using ok e(2) by (auto simp: entry_ok_def guarded_by_def)
      with Some ok d(1) guarded_rows [of describe p y] show ?thesis
        by (auto simp: guarded_by_def entry_ok_def)
    qed (simp add: guarded_by_def)
    then show ?thesis
      unfolding r' advance_registry_inv
      by (intro update_entry_inv [OF inv e(1)]) (use ok d e in \<open>auto simp: entry_ok_def\<close>)
  qed
qed (use inv in simp)

lemma registry_step_inv: "registry_inv r \<Longrightarrow> registry_inv (registry_step op r)"
proof (cases op)
  case (FinishRescanOp describe eid outcome)
  then show "registry_inv r \<Longrightarrow> ?thesis"
    by (auto split: option.splits intro: finish_rescan_inv)
next
  case (SpawnFailedOp eid err)
  assume inv: "registry_inv r"
  show ?thesis
  proof (cases "lookup_entry r eid")
    case (Some e)
    show ?thesis
    proof (cases "re_rescanning e")
      case True
      then obtain f where "re_retry e = Some f"
        using lookup_entry_ok [OF inv Some] by (auto simp: entry_ok_def)
      with inv Some SpawnFailedOp show ?thesis
        by (auto simp: spawn_failed_def split: option.splits intro: finish_rescan_inv)
    qed (use inv Some SpawnFailedOp in simp)
  qed (use inv SpawnFailedOp in simp)
qed (auto split: sum.splits intro: register_engine_inv register_unavailable_inv request_rescan_inv
    refresh_inv)

interpretation registry: invariant_machine registry_step registry_inv
  by unfold_locales (rule registry_step_inv)

section \<open>What a registry promises\<close>

lemma insert_engine_const:
  "insert_engine e r = Inr r' \<Longrightarrow> er_permissions r' = er_permissions r \<and> er_eligibility r' = er_eligibility r"
  by (erule insert_engine_Inr) simp

lemma registry_step_const:
  "er_permissions (registry_step op r) = er_permissions r \<and>
   er_eligibility (registry_step op r) = er_eligibility r"
proof (cases op)
  case (RegisterOp describe e)
  then show ?thesis
    by (auto simp: register_engine_def res_simps split: sum.split option.splits
        dest!: insert_engine_const)
next
  case (RegisterUnavailableOp d f)
  then show ?thesis
    by (auto simp: register_unavailable_def res_simps Let_def split: sum.split option.splits
        dest!: insert_engine_const)
next
  case (RefreshOp describe eid)
  show ?thesis
  proof (cases "refresh_descriptor describe eid r")
    case (Inr br)
    obtain b r' where br: "br = (b, r')" by (rule prod.exhaust)
    show ?thesis
    proof (cases "r' = r")
      case False
      from refresh_Inr [OF Inr [unfolded br] this] show ?thesis
        by (metis (no_types, lifting) Inr RefreshOp advance_registry_simps(2,3) br
            old.prod.case old.sum.simps(6) registry_step.simps(6) update_entry_simps(2,3))
    qed (use Inr br RefreshOp in simp)
  qed (use RefreshOp in simp)
qed (auto simp: request_rescan_Inr finish_rescan_def spawn_failed_def
    split: sum.split option.splits)

lemma registry_run_const:
  "er_permissions (fold registry_step ops r) = er_permissions r \<and>
   er_eligibility (fold registry_step ops r) = er_eligibility r"
  by (induction ops arbitrary: r) (simp_all add: registry_step_const)

lemma fresh_registry_inv:
  "configure_local_selection policy perms (new_registry eligibility) = Inr r \<Longrightarrow>
   registry_inv r \<and> er_eligibility r = eligibility \<and>
   er_permissions r = include_disabled (lp_disabled_engine_ids policy) perms"
  by (auto simp: configure_local_selection_def new_registry_def registry_inv_def split: if_splits)

lemma snapshot_ids: "registry_inv r \<Longrightarrow> map ed_id (snd (snapshot_registry r)) = map fst (er_entries r)"
  by (auto simp: snapshot_registry_def registry_inv_def list_all_iff entry_ok_def)

lemma snapshot_entry:
  assumes "registry_inv r" "d \<in> set (snd (snapshot_registry r))"
  obtains e where "lookup_entry r (ed_id d) = Some e" "re_descriptor e = d"
    "entry_ok (er_eligibility r) (er_permissions r) (ed_id d) e"
proof -
  obtain k e where ke: "(k, e) \<in> set (er_entries r)" "d = re_descriptor e"
    using assms(2) by (auto simp: snapshot_registry_def)
  then have l: "lookup_entry r k = Some e" by (simp add: lookup_entry_iff [OF assms(1)])
  note ok = lookup_entry_ok [OF assms(1) l]
  then have "k = ed_id d" using ke(2) by (simp add: entry_ok_def)
  with l ok ke(2) show thesis by (intro that) simp_all
qed

text \<open>
  C9: whatever is registered, rescanned or refreshed, in any order and with any outcome, the
  inventory is sorted by engine id, names each engine once, and every descriptor in it passes
  the full descriptor validation.
\<close>

theorem registry_run_valid:
  assumes "configure_local_selection policy perms (new_registry eligibility) = Inr r"
    and "ds = snd (snapshot_registry (fold registry_step ops r))"
  shows "sorted (map ed_id ds) \<and> distinct (map ed_id ds) \<and>
         list_all (\<lambda>d. validate_descriptor d = Inr ()) ds"
proof -
  have inv: "registry_inv (fold registry_step ops r)"
    using fresh_registry_inv [OF assms(1)] by (intro registry.inv_run) blast
  have "descriptor_ok d" if "d \<in> set ds" for d
    using that unfolding assms(2) by (rule snapshot_entry [OF inv]) (auto simp: entry_ok_def)
  moreover have "sorted (map ed_id ds)" "distinct (map ed_id ds)"
    using inv unfolding assms(2) snapshot_ids [OF inv] registry_inv_def by blast+
  ultimately show ?thesis by (simp add: validate_descriptor_Inr list_all_iff)
qed

text \<open>
  C10: an engine disabled by the local policy is inert for the whole session: after any run it
  has no handle, it is not able to synthesize in the inventory, and a rescan is refused.
\<close>

theorem disabled_engine_inert:
  assumes "configure_local_selection policy perms (new_registry eligibility) = Inr r"
    and "eid \<in> set (lp_disabled_engine_ids policy)"
  shows "registry_engine (fold registry_step ops r) eid = None \<and>
         list_all (\<lambda>d. ed_id d = eid \<longrightarrow> \<not> engine_can_synthesize d)
           (snd (snapshot_registry (fold registry_step ops r))) \<and>
         request_rescan eid (fold registry_step ops r) = Inl RescanDisabled"
proof -
  let ?r = "fold registry_step ops r"
  have inv: "registry_inv ?r"
    using fresh_registry_inv [OF assms(1)] by (intro registry.inv_run) blast
  have dis: "perm_disabled (er_permissions ?r) eid"
    using fresh_registry_inv [OF assms(1)] registry_run_const [of ops r] assms(2)
    by (simp add: perm_disabled_def include_disabled_def)
  have "re_engine e = None" if "lookup_entry ?r eid = Some e" for e
    using lookup_entry_ok [OF inv that] dis by (simp add: entry_ok_def)
  then have "registry_engine ?r eid = None"
    by (cases "lookup_entry ?r eid") (simp_all add: registry_engine_def)
  moreover have "\<not> engine_can_synthesize d"
    if "d \<in> set (snd (snapshot_registry ?r))" "ed_id d = eid" for d
    using that dis by (auto elim!: snapshot_entry [OF inv] simp: entry_ok_def engine_can_synthesize_def)
  ultimately show ?thesis using dis by (simp add: request_rescan_def list_all_iff)
qed

fun ends_rescan :: "rstr \<Rightarrow> ('e, 'f) registry_op \<Rightarrow> bool" where
  "ends_rescan eid (FinishRescanOp describe e outcome) = (e = eid)"
| "ends_rescan eid (SpawnFailedOp e err) = (e = eid)"
| "ends_rescan eid op = False"

definition is_rescanning :: "('e, 'f) engine_registry \<Rightarrow> rstr \<Rightarrow> bool" where
  "is_rescanning r eid \<longleftrightarrow> (\<exists>e. lookup_entry r eid = Some e \<and> re_rescanning e)"

lemma insert_engine_rescanning:
  "insert_engine e r = Inr r' \<Longrightarrow> is_rescanning r eid \<Longrightarrow> registry_inv r' \<Longrightarrow> is_rescanning r' eid"
proof (erule insert_engine_Inr)
  fix e'
  assume r': "r' = advance_registry
      (r\<lparr>er_entries := insort_key fst (ed_id (re_descriptor e), e') (er_entries r)\<rparr>)"
    and res: "is_rescanning r eid" and inv: "registry_inv r'"
  from res obtain x where x: "lookup_entry r eid = Some x" "re_rescanning x"
    by (auto simp: is_rescanning_def)
  then have "(eid, x) \<in> set (er_entries r')"
    by (auto simp: r' set_insort_key lookup_entry_def dest: map_of_SomeD)
  with x(2) show ?thesis by (auto simp: is_rescanning_def lookup_entry_iff [OF inv])
qed

lemma rescanning_step:
  assumes inv: "registry_inv r" and res: "is_rescanning r eid" and op: "\<not> ends_rescan eid op"
  shows "is_rescanning (registry_step op r) eid"
proof (cases op)
  case (RegisterOp describe e)
  show ?thesis
  proof (cases "register_engine describe e r")
    case (Inr r')
    then obtain e' where "insert_engine e' r = Inr r'"
      by (auto simp: register_engine_def res_simps split: option.splits)
    with Inr RegisterOp res register_engine_inv [OF inv Inr] insert_engine_rescanning show ?thesis
      by auto
  qed (use RegisterOp res in simp)
next
  case (RegisterUnavailableOp d f)
  show ?thesis
  proof (cases "register_unavailable d f r")
    case (Inr r')
    then obtain e' where "insert_engine e' r = Inr r'"
      by (auto simp: register_unavailable_def res_simps Let_def split: option.splits)
    with Inr RegisterUnavailableOp res register_unavailable_inv [OF inv Inr]
      insert_engine_rescanning show ?thesis by auto
  qed (use RegisterUnavailableOp res in simp)
next
  case (RefreshOp describe eid')
  show ?thesis
  proof (cases "refresh_descriptor describe eid' r")
    case (Inr br)
    obtain b r' where br: "br = (b, r')" by (rule prod.exhaust)
    show ?thesis
    proof (cases "r' = r")
      case False
      show ?thesis
        by (rule refresh_Inr [OF Inr [unfolded br] False])
          (use res Inr br RefreshOp in \<open>auto simp: is_rescanning_def\<close>)
    qed (use Inr br RefreshOp res in simp)
  qed (use RefreshOp res in simp)
qed (use res op in \<open>auto simp: request_rescan_Inr finish_rescan_def spawn_failed_def is_rescanning_def
    split: sum.splits option.splits\<close>)

lemma rescanning_run:
  "registry_inv r \<Longrightarrow> is_rescanning r eid \<Longrightarrow> list_all (\<lambda>op. \<not> ends_rescan eid op) ops \<Longrightarrow>
   is_rescanning (fold registry_step ops r) eid"
  by (induction ops arbitrary: r) (auto intro: rescanning_step registry_step_inv)

text \<open>
  At most one rescan per engine is in flight: from an accepted request until the rescan
  thread finishes (or could not be started), every further request is refused as in progress
  and the engine is not able to synthesize in the inventory.
\<close>

theorem rescan_single_flight:
  assumes "registry_inv r" and "request_rescan eid r = Inr (f, r')"
    and "list_all (\<lambda>op. \<not> ends_rescan eid op) ops"
  shows "request_rescan eid (fold registry_step ops r') = Inl (RescanInProgress eid) \<and>
         list_all (\<lambda>d. ed_id d = eid \<longrightarrow> \<not> engine_can_synthesize d)
           (snd (snapshot_registry (fold registry_step ops r')))"
proof -
  let ?r = "fold registry_step ops r'"
  have inv': "registry_inv r'" by (rule request_rescan_inv [OF assms(1,2)])
  then have inv: "registry_inv ?r" by (rule registry.inv_run)
  have "is_rescanning r' eid" using assms(2) by (auto simp: request_rescan_Inr is_rescanning_def)
  from rescanning_run [OF inv' this assms(3)]
  obtain e where e: "lookup_entry ?r eid = Some e" "re_rescanning e"
    by (auto simp: is_rescanning_def)
  have nd: "\<not> perm_disabled (er_permissions ?r) eid"
    using lookup_entry_ok [OF inv e(1)] e(2) by (auto simp: entry_ok_def)
  have "\<not> engine_can_synthesize d" if "d \<in> set (snd (snapshot_registry ?r))" "ed_id d = eid" for d
    using that e by (auto elim!: snapshot_entry [OF inv] simp: entry_ok_def engine_can_synthesize_def)
  with nd e show ?thesis by (simp add: request_rescan_def list_all_iff)
qed

text \<open>
  A finished rescan publishes the handle and its own validated, usable descriptor together
  and ends the rescans of the engine; a failed or panicked one leaves the engine failed with
  the reason and ready for another attempt.
\<close>

theorem rescan_outcome:
  assumes "registry_inv r" and "request_rescan eid r = Inr (f, r1)"
    and "finish_rescan eid (rescan_body describe eid f outcome) r1 = Some r2"
  shows "case rescan_body describe eid f outcome of
           Inr (h, d) \<Rightarrow>
             registry_engine r2 eid = Some h \<and> d = handle_descriptor describe h \<and>
             map_option re_descriptor (lookup_entry r2 eid) = Some d \<and>
             validate_descriptor d = Inr () \<and> engine_can_synthesize d \<and>
             request_rescan eid r2 = Inl (RescanNoFailure eid)
         | Inl reason \<Rightarrow>
             map_option (ed_health \<circ> re_descriptor) (lookup_entry r2 eid) = Some (Failed reason) \<and>
             is_ok (request_rescan eid r2)"
proof -
  obtain e where e: "lookup_entry r eid = Some e" "re_retry e = Some f"
    "\<not> perm_disabled (er_permissions r) eid" "\<not> re_rescanning e"
    using assms(2) by (auto simp: request_rescan_Inr)
  have eng: "re_engine e = None" using lookup_entry_ok [OF assms(1) e(1)] e(2) by (auto simp: entry_ok_def)
  show ?thesis
  proof (cases "rescan_body describe eid f outcome")
    case (Inl reason)
    with assms(2,3) e show ?thesis
      by (auto simp: request_rescan_Inr finish_rescan_def request_rescan_def is_ok_iff)
  next
    case (Inr hd)
    obtain h d where hd: "hd = (h, d)" by (rule prod.exhaust)
    note b = rescan_body_Inr [OF Inr [unfolded hd]]
    with assms(2,3) e Inr hd show ?thesis
      by (auto simp: request_rescan_Inr finish_rescan_def request_rescan_def registry_engine_def
          validate_descriptor_Inr)
  qed
qed

section \<open>The inventory generation\<close>

text \<open>One operation either leaves the registry alone or moves its generation.\<close>

lemma insert_engine_generation:
  "insert_engine e r = Inr r' \<Longrightarrow> er_generation r' = u64_saturating_add (er_generation r) 1"
  by (erule insert_engine_Inr) simp

lemma registry_step_generation:
  "registry_step op r = r \<or> er_generation (registry_step op r) = u64_saturating_add (er_generation r) 1"
proof (cases op)
  case (RegisterOp describe e)
  then show ?thesis
    by (auto simp: register_engine_def res_simps split: sum.split option.splits
        dest!: insert_engine_generation)
next
  case (RegisterUnavailableOp d f)
  then show ?thesis
    by (auto simp: register_unavailable_def res_simps Let_def split: sum.split option.splits
        dest!: insert_engine_generation)
next
  case (RefreshOp describe eid)
  show ?thesis
  proof (cases "refresh_descriptor describe eid r")
    case (Inr br)
    obtain b r' where br: "br = (b, r')" by (rule prod.exhaust)
    show ?thesis
    proof (cases "r' = r")
      case False
      show ?thesis
        by (rule refresh_Inr [OF Inr [unfolded br] False]) (use Inr br RefreshOp in auto)
    qed (use Inr br RefreshOp in simp)
  qed (use RefreshOp in simp)
qed (auto simp: request_rescan_Inr finish_rescan_def spawn_failed_def
    split: sum.split option.splits)

interpretation registry_clock: clocked_machine registry_step "\<lambda>r. min u64_max (er_generation r)"
proof (unfold_locales, goal_cases)
  case (1 r op)
  from registry_step_generation [of op r] show ?case
    by (auto simp: u64_saturating_add_def)
qed

text \<open>
  The inventory generation never goes back over any run, and an operation that changes the
  registry in any way moves it forward by one (until it saturates); an unchanged generation
  below that limit means an unchanged registry.
\<close>

theorem registry_generation_tracks:
  assumes "er_generation r < u64_max"
  shows "er_generation r \<le> er_generation (fold registry_step ops r) \<and>
         (registry_step op r = r \<or> er_generation (registry_step op r) = er_generation r + 1)"
  using registry_clock.clock_run [of r ops] registry_step_generation [of op r] assms
  by (auto simp: u64_saturating_add_def)

section \<open>The theorems at a concrete registry\<close>

definition sample_registry :: "(engine_descriptor, unit) engine_registry" where
  "sample_registry =
     \<lparr>er_generation = 1,
      er_entries = [(lit ''espeak'',
        \<lparr>re_engine = None, re_descriptor = unavailable_engine (lit ''espeak'') [],
         re_retry = Some (PlainFactory ()), re_rescanning = False\<rparr>)],
      er_eligibility = None, er_permissions = default_permissions,
      er_local_policy = default_local_policy, er_configured = False\<rparr>"

lemma sample_unavailable_ok: "descriptor_ok (unavailable_engine (lit ''espeak'') [])"
  by (simp add: descriptor_ok_def variants_ok_def voice_keys_def unavailable_engine_def)

lemma sample_registry_inv: "registry_inv sample_registry"
  using sample_unavailable_ok
  by (simp add: registry_inv_def sample_registry_def entry_ok_def guarded_by_def perm_disabled_def
      default_permissions_def) (simp add: unavailable_engine_def)

lemma sample_fresh:
  "configure_local_selection
     (default_local_policy\<lparr>lp_disabled_engine_ids := [lit ''dectalk'']\<rparr>) default_permissions
     (new_registry None :: (engine_descriptor, unit) engine_registry) =
   Inr ((new_registry None)
     \<lparr>er_local_policy := default_local_policy\<lparr>lp_disabled_engine_ids := [lit ''dectalk'']\<rparr>,
      er_permissions := include_disabled [lit ''dectalk''] default_permissions\<rparr>)"
  by (simp add: configure_local_selection_def new_registry_def)

theorem registry_run_valid_witness:
  "\<exists>r :: (engine_descriptor, unit) engine_registry.
     list_all (\<lambda>d. validate_descriptor d = Inr ())
       (snd (snapshot_registry (fold registry_step [RegisterOp id (unavailable_engine [1] [])] r)))"
  using registry_run_valid [OF sample_fresh refl, of "[RegisterOp id (unavailable_engine [1] [])]"]
  by blast

theorem disabled_engine_inert_witness:
  "\<exists>r :: (engine_descriptor, unit) engine_registry.
     request_rescan (lit ''dectalk'')
       (fold registry_step [RegisterUnavailableOp (unavailable_engine (lit ''dectalk'') []) ()] r) =
       Inl RescanDisabled"
proof -
  have "lit ''dectalk'' \<in> set (lp_disabled_engine_ids
      (default_local_policy\<lparr>lp_disabled_engine_ids := [lit ''dectalk'']\<rparr>))" by simp
  from disabled_engine_inert [OF sample_fresh this] show ?thesis by blast
qed

lemma sample_rescan: "\<exists>r'. request_rescan (lit ''espeak'') sample_registry = Inr (PlainFactory (), r')"
  unfolding request_rescan_Inr
  by (simp add: sample_registry_def lookup_entry_def perm_disabled_def default_permissions_def)

end
