(* ===== verification/Voice_Choices.thy ===== *)
theory Voice_Choices
  imports Resolver
begin

text \<open>
  Layered voice definitions (\<open>omnivox-tts/src/voice_choices.rs\<close>) with the registration
  validation of \<open>logical_voices.rs\<close> they share: shared styles, sparse per-choice patches, the
  projection onto portable definitions that the resolver sees, the choice a resolution selected,
  and the composition of the layers into one style. Native patches of engine-layered choices
  are opaque here.
\<close>

section \<open>Validation of a registration\<close>

definition max_logical_voices :: nat where "max_logical_voices = 256"
definition max_logical_voice_id_bytes :: nat where "max_logical_voice_id_bytes = 128"
definition max_voice_preferences :: nat where "max_voice_preferences = 32"
definition max_registration_engine_id_bytes :: nat where "max_registration_engine_id_bytes = 128"
definition max_physical_voice_id_bytes :: nat where "max_physical_voice_id_bytes = 4096"
definition max_language_tag_bytes :: nat where "max_language_tag_bytes = 64"

datatype logical_voice_registry_error =
  LvStaleGeneration nat nat
| LvGenerationConflict nat
| TooManyDefinitions nat nat
| InvalidLogicalVoiceId rstr
| DuplicateLogicalVoiceId rstr
| TooManyPreferences rstr nat nat
| LvInvalidEngineId rstr
| InvalidPhysicalVoiceId rstr
| InvalidLanguage rstr
| InvalidFallbackEngineId

definition identifier_char :: "rchar \<Rightarrow> bool" where
  "identifier_char c \<longleftrightarrow> is_ascii_alphanumeric c \<or> c = 45 \<or> c = 95 \<or> c = 46"

definition valid_logical_voice_id :: "rstr \<Rightarrow> bool" where
  "valid_logical_voice_id s \<longleftrightarrow>
     s \<noteq> [] \<and> str_len s \<le> max_logical_voice_id_bytes \<and> list_all identifier_char s"

definition valid_engine_id :: "rstr \<Rightarrow> bool" where
  "valid_engine_id s \<longleftrightarrow>
     s \<noteq> [] \<and> str_len s \<le> max_registration_engine_id_bytes \<and> list_all identifier_char s"

definition valid_physical_voice_id :: "rstr \<Rightarrow> bool" where
  "valid_physical_voice_id s \<longleftrightarrow>
     s \<noteq> [] \<and> str_len s \<le> max_physical_voice_id_bytes \<and> \<not> list_ex is_control s"

definition valid_language :: "rstr \<Rightarrow> bool" where
  "valid_language s \<longleftrightarrow>
     s \<noteq> [] \<and> str_len s \<le> max_language_tag_bytes \<and>
     list_all (\<lambda>c. is_ascii_alphanumeric c \<or> c = 45) s"

definition validate_selector ::
    "rstr \<Rightarrow> voice_selector \<Rightarrow> logical_voice_registry_error + unit" where
  "validate_selector lid sel =
     (if (case selector_engine_id sel of None \<Rightarrow> False | Some e \<Rightarrow> \<not> valid_engine_id e)
      then Inl (LvInvalidEngineId lid)
      else (case sel of
              Exact v \<Rightarrow>
                if \<not> valid_physical_voice_id (pv_voice_id v) then Inl (InvalidPhysicalVoiceId lid)
                else Inr ()
            | Properties e language g \<Rightarrow>
                (case language of
                   Some l \<Rightarrow> if \<not> valid_language l then Inl (InvalidLanguage lid) else Inr ()
                 | None \<Rightarrow> Inr ())
            | _ \<Rightarrow> Inr ()))"

fun validate_definitions ::
    "rstr set \<Rightarrow> logical_voice_definition list \<Rightarrow> logical_voice_registry_error + unit" where
  "validate_definitions ids [] = Inr ()"
| "validate_definitions ids (d # ds) =
     (if \<not> valid_logical_voice_id (lv_id d) then Inl (InvalidLogicalVoiceId (lv_id d))
      else if lv_id d \<in> ids then Inl (DuplicateLogicalVoiceId (lv_id d))
      else if max_voice_preferences < length (lv_preferences d)
      then Inl (TooManyPreferences (lv_id d) (length (lv_preferences d)) max_voice_preferences)
      else if (case lv_language d of None \<Rightarrow> False | Some l \<Rightarrow> \<not> valid_language l)
      then Inl (InvalidLanguage (lv_id d))
      else and_then (check_each (validate_selector (lv_id d)) (lv_preferences d)) (\<lambda>_.
             validate_definitions (insert (lv_id d) ids) ds))"

definition validate_registration ::
    "logical_voice_definition list \<Rightarrow> fallback_policy \<Rightarrow> logical_voice_registry_error + unit" where
  "validate_registration ds policy =
     (if max_logical_voices < length ds
      then Inl (TooManyDefinitions (length ds) max_logical_voices)
      else and_then (validate_definitions {} ds) (\<lambda>_.
        if list_ex (\<lambda>e. \<not> valid_engine_id e)
             (fp_preferred_engines policy @ fp_fallback_engines policy)
        then Inl InvalidFallbackEngineId
        else case fp_global_default policy of
               None \<Rightarrow> Inr ()
             | Some sel \<Rightarrow> validate_selector (lit ''<global-default>'') sel))"

section \<open>Styles, patches and choices\<close>

datatype choice_tuning_error = Invalid string | Registry logical_voice_registry_error

datatype 'a adjustment = SetTo 'a | ToDefault

definition normalized_value :: "f32 \<Rightarrow> choice_tuning_error + unit" where
  "normalized_value v =
     (if is_finite v \<and> f32_unit v then Inr ()
      else Inl (Invalid ''normalized value must be finite in [0, 1]''))"

definition rate_offset_value :: "int \<Rightarrow> choice_tuning_error + unit" where
  "rate_offset_value v =
     (if -20 \<le> v \<and> v \<le> 20 then Inr () else Inl (Invalid ''rate offset must be in [-20, 20]''))"

text \<open>
  \<open>SharedAcss\<close> and \<open>SharedEffects\<close> have the fields of \<open>NormalizedAcss\<close> and
  \<open>PostSynthesisStyle\<close>, and their \<open>From\<close> conversions copy field by field.
\<close>

record shared_voice_style =
  ss_acss :: normalized_acss
  ss_rate_offset :: "int option"
  ss_effects :: post_synthesis_style

definition validate_shared :: "shared_voice_style \<Rightarrow> choice_tuning_error + unit" where
  "validate_shared s =
     and_then
       (check_each normalized_value
          (List.map_filter id
             [na_rate (ss_acss s), na_average_pitch (ss_acss s), na_pitch_range (ss_acss s),
              na_stress (ss_acss s), na_richness (ss_acss s), na_volume (ss_acss s),
              ps_gain (ss_effects s), ps_low_pass (ss_effects s), ps_high_pass (ss_effects s),
              ps_pan (ss_effects s), ps_reverb (ss_effects s), ps_echo (ss_effects s),
              ps_chorus (ss_effects s)]))
       (\<lambda>_. case ss_rate_offset s of
              None \<Rightarrow> Inr ()
            | Some v \<Rightarrow> and_then (rate_offset_value v) (\<lambda>_.
                if na_rate (ss_acss s) \<noteq> None
                then Inl (Invalid ''absolute rate and rate offset cannot coexist'') else Inr ()))"

record voice_style_patch =
  vp_average_pitch :: "f32 adjustment option"
  vp_pitch_range :: "f32 adjustment option"
  vp_stress :: "f32 adjustment option"
  vp_richness :: "f32 adjustment option"
  vp_gain :: "f32 adjustment option"
  vp_low_pass :: "f32 adjustment option"
  vp_high_pass :: "f32 adjustment option"
  vp_pan :: "f32 adjustment option"
  vp_reverb :: "f32 adjustment option"
  vp_echo :: "f32 adjustment option"
  vp_chorus :: "f32 adjustment option"
  vp_rate_offset :: "int adjustment option"

definition patch_values :: "voice_style_patch \<Rightarrow> f32 adjustment list" where
  "patch_values p =
     List.map_filter id
       [vp_average_pitch p, vp_pitch_range p, vp_stress p, vp_richness p, vp_gain p, vp_low_pass p,
        vp_high_pass p, vp_pan p, vp_reverb p, vp_echo p, vp_chorus p]"

definition validate_patch :: "voice_style_patch \<Rightarrow> choice_tuning_error + unit" where
  "validate_patch p =
     and_then
       (check_each (\<lambda>a. case a of SetTo v \<Rightarrow> normalized_value v | ToDefault \<Rightarrow> Inr ())
          (patch_values p))
       (\<lambda>_. case vp_rate_offset p of
              Some (SetTo v) \<Rightarrow> rate_offset_value v
            | _ \<Rightarrow> Inr ())"

fun replace_with :: "'a adjustment option \<Rightarrow> 'a option \<Rightarrow> 'a option" where
  "replace_with (Some (SetTo v)) d = Some v"
| "replace_with (Some ToDefault) d = None"
| "replace_with None d = d"

definition apply_patch ::
    "voice_style_patch \<Rightarrow> normalized_acss \<times> post_synthesis_style \<times> int option \<Rightarrow>
     normalized_acss \<times> post_synthesis_style \<times> int option" where
  "apply_patch p st =
     (case st of (acss, effects, rate) \<Rightarrow>
        (let acss1 = acss\<lparr>na_average_pitch := replace_with (vp_average_pitch p) (na_average_pitch acss),
                         na_pitch_range := replace_with (vp_pitch_range p) (na_pitch_range acss),
                         na_stress := replace_with (vp_stress p) (na_stress acss),
                         na_richness := replace_with (vp_richness p) (na_richness acss)\<rparr>;
             effects1 = effects\<lparr>ps_gain := replace_with (vp_gain p) (ps_gain effects),
                         ps_low_pass := replace_with (vp_low_pass p) (ps_low_pass effects),
                         ps_high_pass := replace_with (vp_high_pass p) (ps_high_pass effects),
                         ps_pan := replace_with (vp_pan p) (ps_pan effects),
                         ps_reverb := replace_with (vp_reverb p) (ps_reverb effects),
                         ps_echo := replace_with (vp_echo p) (ps_echo effects),
                         ps_chorus := replace_with (vp_chorus p) (ps_chorus effects)\<rparr>
         in if vp_rate_offset p \<noteq> None
            then (acss1\<lparr>na_rate := None\<rparr>, effects1, replace_with (vp_rate_offset p) rate)
            else (acss1, effects1, rate)))"

record voice_choice =
  vc_id :: rstr
  vc_selector :: voice_selector
  vc_adjustments :: voice_style_patch

record layered_voice_definition =
  ld_id :: rstr
  ld_language :: "rstr option"
  ld_shared :: shared_voice_style
  ld_choices :: "voice_choice list"

record 'n engine_voice_choice =
  evc_id :: rstr
  evc_selector :: voice_selector
  evc_adjustments :: voice_style_patch
  evc_native :: "'n option"

record 'n engine_layered_voice_definition =
  el_id :: rstr
  el_language :: "rstr option"
  el_shared :: shared_voice_style
  el_choices :: "'n engine_voice_choice list"

datatype 'n registered_voice_definition =
  Legacy logical_voice_definition
| Layered layered_voice_definition
| EngineLayered "'n engine_layered_voice_definition"

definition legacy_projection :: "layered_voice_definition \<Rightarrow> logical_voice_definition" where
  "legacy_projection d =
     \<lparr>lv_id = ld_id d, lv_language = ld_language d,
      lv_preferences = map vc_selector (ld_choices d),
      lv_acss = ss_acss (ld_shared d), lv_effects = ss_effects (ld_shared d)\<rparr>"

definition common_projection ::
    "'n engine_layered_voice_definition \<Rightarrow> layered_voice_definition" where
  "common_projection d =
     \<lparr>ld_id = el_id d, ld_language = el_language d, ld_shared = el_shared d,
      ld_choices = map (\<lambda>c. \<lparr>vc_id = evc_id c, vc_selector = evc_selector c,
                            vc_adjustments = evc_adjustments c\<rparr>) (el_choices d)\<rparr>"

definition empty_policy :: fallback_policy where
  "empty_policy =
     \<lparr>fp_preferred_engines = [], fp_allow_same_language = False, fp_global_default = None,
      fp_fallback_engines = []\<rparr>"

fun validate_choices :: "rstr set \<Rightarrow> voice_choice list \<Rightarrow> choice_tuning_error + unit" where
  "validate_choices ids [] = Inr ()"
| "validate_choices ids (c # cs) =
     (if \<not> valid_logical_voice_id (vc_id c)
      then Inl (Invalid ''choice ID must contain 1..128 ASCII identifier characters'')
      else if vc_id c \<in> ids then Inl (Invalid ''duplicate choice ID'')
      else and_then (validate_patch (vc_adjustments c)) (\<lambda>_.
             validate_choices (insert (vc_id c) ids) cs))"

definition validate_layered :: "layered_voice_definition \<Rightarrow> choice_tuning_error + unit" where
  "validate_layered d =
     and_then (validate_shared (ld_shared d)) (\<lambda>_.
       if max_voice_preferences < length (ld_choices d) then Inl (Invalid ''too many choices'')
       else and_then (validate_choices {} (ld_choices d)) (\<lambda>_.
         map_err Registry (validate_registration [legacy_projection d] empty_policy)))"

text \<open>The choice a resolution of the projected definition selected.\<close>

definition selected_choice ::
    "layered_voice_definition \<Rightarrow> voice_resolution \<Rightarrow> choice_tuning_error + nat option" where
  "selected_choice d r =
     (if vr_logical_voice_id r \<noteq> ld_id d
      then Inl (Invalid ''resolution belongs to another definition'')
      else and_then
        (case vr_reason r of
           Preferred \<Rightarrow> Inr (Some 0)
         | ExplicitAlternative i \<Rightarrow>
             if 0 < i then Inr (Some i) else Inl (Invalid ''invalid alternative index'')
         | _ \<Rightarrow> Inr None)
        (\<lambda>index. if (case index of None \<Rightarrow> False | Some i \<Rightarrow> length (ld_choices d) \<le> i)
                 then Inl (Invalid ''resolution has no matching choice record'')
                 else Inr index))"

record composed_voice_style =
  cv_choice_id :: "rstr option"
  cv_acss :: normalized_acss
  cv_effects :: post_synthesis_style

definition compose_style ::
    "layered_voice_definition \<Rightarrow> nat option \<Rightarrow> voice_style_patch \<Rightarrow> f32 \<Rightarrow> f32 option \<Rightarrow>
     choice_tuning_error + composed_voice_style" where
  "compose_style d choice_index context base_rate placement_pan =
     and_then (validate_layered d) (\<lambda>_.
     and_then (validate_patch context) (\<lambda>_.
       if \<not> is_finite base_rate \<or> \<not> f32_in (F32_Fin 0) (F32_Fin 2) base_rate
       then Inl (Invalid ''host rate must be finite in [0, 2]'')
       else and_then (case placement_pan of None \<Rightarrow> Inr () | Some pan \<Rightarrow> normalized_value pan) (\<lambda>_.
         and_then
           (case choice_index of
              None \<Rightarrow> Inr None
            | Some i \<Rightarrow> if i < length (ld_choices d) then Inr (Some (ld_choices d ! i))
                        else Inl (Invalid ''unknown choice index''))
           (\<lambda>choice.
              let st0 = (ss_acss (ld_shared d), ss_effects (ld_shared d), ss_rate_offset (ld_shared d));
                  st1 = (case choice of None \<Rightarrow> st0 | Some c \<Rightarrow> apply_patch (vc_adjustments c) st0);
                  (acss, effects, rate) = apply_patch context st1;
                  acss' = (case rate of
                             Some off \<Rightarrow>
                               if off \<noteq> 0 then acss\<lparr>na_rate := Some (apply_rate_offset base_rate off)\<rparr>
                               else acss
                           | None \<Rightarrow> acss);
                  effects' = (if placement_pan \<noteq> None then effects\<lparr>ps_pan := placement_pan\<rparr>
                              else effects)
              in Inr \<lparr>cv_choice_id = map_option vc_id choice, cv_acss = acss', cv_effects = effects'\<rparr>))))"

section \<open>Composed styles\<close>

definition opt_unit :: "f32 option \<Rightarrow> bool" where
  "opt_unit v \<longleftrightarrow> (\<forall>x. v = Some x \<longrightarrow> f32_unit x)"

definition op_unit :: "f32 adjustment option \<Rightarrow> bool" where
  "op_unit a \<longleftrightarrow> (\<forall>x. a = Some (SetTo x) \<longrightarrow> f32_unit x)"

definition acss_unit :: "normalized_acss \<Rightarrow> bool" where
  "acss_unit s \<longleftrightarrow> (\<forall>d. opt_unit (na_dimension s d))"

definition effects_unit :: "post_synthesis_style \<Rightarrow> bool" where
  "effects_unit s \<longleftrightarrow> (\<forall>d. opt_unit (ps_dimension s d))"

lemma all_acss: "(\<forall>d. P d) \<longleftrightarrow> P Rate \<and> P AveragePitch \<and> P PitchRange \<and> P Stress \<and> P Richness \<and> P Volume"
  by (metis acss_dimension.exhaust)

lemma all_effects:
  "(\<forall>d. P d) \<longleftrightarrow> P Gain \<and> P LowPass \<and> P HighPass \<and> P Pan \<and> P Chorus \<and> P Reverb \<and> P Echo"
  by (metis post_synthesis_dimension.exhaust)

lemmas unit_defs = acss_unit_def effects_unit_def all_acss all_effects

lemma normalized_value_Inr: "normalized_value v = Inr u \<longleftrightarrow> f32_unit v"
  by (auto simp: normalized_value_def f32_in_is_finite)

lemma opt_unit_simps [simp]: "opt_unit None" "opt_unit (Some x) = f32_unit x"
  by (simp_all add: opt_unit_def)

lemma present_units:
  "(\<forall>x \<in> set (List.map_filter id vs). f32_unit x) \<longleftrightarrow> list_all opt_unit vs"
  by (auto simp: map_filter_def list_all_iff opt_unit_def)

lemma validate_shared_units:
  "validate_shared s = Inr u \<Longrightarrow> acss_unit (ss_acss s) \<and> effects_unit (ss_effects s)"
  unfolding validate_shared_def and_then_Inr check_each_Inr normalized_value_Inr present_units
  by (auto simp: unit_defs)

lemma patch_ops_units:
  "(\<forall>a \<in> set (List.map_filter id vs). (case a of SetTo v \<Rightarrow> normalized_value v | ToDefault \<Rightarrow> Inr ()) = Inr ())
   \<longleftrightarrow> list_all op_unit vs"
  by (force simp: map_filter_def list_all_iff op_unit_def normalized_value_Inr split: adjustment.split)

lemma replace_unit: "op_unit a \<Longrightarrow> opt_unit v \<Longrightarrow> opt_unit (replace_with a v)"
  by (cases "(a, v)" rule: replace_with.cases) (auto simp: op_unit_def)

lemma validate_patch_units:
  assumes "validate_patch p = Inr u" and "acss_unit a" "effects_unit e"
    and "apply_patch p (a, e, r) = (a', e', r')"
  shows "acss_unit a' \<and> effects_unit e'"
proof -
  have "list_all op_unit
       [vp_average_pitch p, vp_pitch_range p, vp_stress p, vp_richness p, vp_gain p, vp_low_pass p,
        vp_high_pass p, vp_pan p, vp_reverb p, vp_echo p, vp_chorus p]"
    using assms(1) unfolding validate_patch_def and_then_Inr check_each_Inr patch_values_def
      patch_ops_units by blast
  with assms(2-4) show ?thesis
    by (auto simp: apply_patch_def Let_def unit_defs replace_unit split: if_splits)
qed

lemma validate_choices_patches:
  "validate_choices ids cs = Inr u \<Longrightarrow> c \<in> set cs \<Longrightarrow> validate_patch (vc_adjustments c) = Inr ()"
  by (induction ids cs rule: validate_choices.induct) (auto simp: res_simps split: if_splits)

lemma validate_layeredD:
  assumes "validate_layered d = Inr u"
  shows "validate_shared (ld_shared d) = Inr ()" "validate_choices {} (ld_choices d) = Inr ()"
    "length (ld_choices d) \<le> max_voice_preferences"
  using assms by (auto simp: validate_layered_def res_simps split: if_splits)

text \<open>The layers a composition stacks on the shared style.\<close>

definition chosen :: "layered_voice_definition \<Rightarrow> nat option \<Rightarrow> voice_choice option" where
  "chosen d i = map_option (\<lambda>k. ld_choices d ! k) i"

definition layer_choice ::
    "voice_choice option \<Rightarrow> normalized_acss \<times> post_synthesis_style \<times> int option \<Rightarrow>
     normalized_acss \<times> post_synthesis_style \<times> int option" where
  "layer_choice c st = (case c of None \<Rightarrow> st | Some c \<Rightarrow> apply_patch (vc_adjustments c) st)"

lemma compose_Inr:
  assumes "compose_style d i context base pan = Inr r"
  obtains acss effects rate where
    "validate_layered d = Inr ()" "validate_patch context = Inr ()" "is_finite base"
    "opt_unit pan" "\<And>k. i = Some k \<Longrightarrow> k < length (ld_choices d)"
    "apply_patch context (layer_choice (chosen d i)
       (ss_acss (ld_shared d), ss_effects (ld_shared d), ss_rate_offset (ld_shared d))) =
       (acss, effects, rate)"
    "r = \<lparr>cv_choice_id = map_option vc_id (chosen d i),
          cv_acss = (case rate of
             Some off \<Rightarrow> if off \<noteq> 0 then acss\<lparr>na_rate := Some (apply_rate_offset base off)\<rparr> else acss
           | None \<Rightarrow> acss),
          cv_effects = (if pan \<noteq> None then effects\<lparr>ps_pan := pan\<rparr> else effects)\<rparr>"
proof -
  let ?st = "(ss_acss (ld_shared d), ss_effects (ld_shared d), ss_rate_offset (ld_shared d))"
  obtain acss effects rate where ap: "apply_patch context (layer_choice (chosen d i) ?st) =
      (acss, effects, rate)"
    using prod_cases3 by blast
  show thesis
    using assms ap
    by (intro that [of acss effects rate])
      (auto simp: compose_style_def res_simps Let_def layer_choice_def chosen_def
        normalized_value_Inr split: if_splits option.splits)
qed

text \<open>
  C11: a composed style is playable: with valid layers and a host rate in range, every dimension
  it sets, the rate from a point offset and the placement included, lies in the unit range.
\<close>

theorem compose_in_range:
  assumes "compose_style d i context base pan = Inr r"
  shows "pred_option f32_unit (na_dimension (cv_acss r) da) \<and>
         pred_option f32_unit (ps_dimension (cv_effects r) de)"
  using assms
proof (rule compose_Inr)
  fix acss effects rate
  assume v: "validate_layered d = Inr ()" "validate_patch context = Inr ()" "is_finite base"
      "opt_unit pan" "\<And>k. i = Some k \<Longrightarrow> k < length (ld_choices d)"
    and ap: "apply_patch context (layer_choice (chosen d i)
       (ss_acss (ld_shared d), ss_effects (ld_shared d), ss_rate_offset (ld_shared d))) =
       (acss, effects, rate)"
    and r: "r = \<lparr>cv_choice_id = map_option vc_id (chosen d i),
          cv_acss = (case rate of
             Some off \<Rightarrow> if off \<noteq> 0 then acss\<lparr>na_rate := Some (apply_rate_offset base off)\<rparr> else acss
           | None \<Rightarrow> acss),
          cv_effects = (if pan \<noteq> None then effects\<lparr>ps_pan := pan\<rparr> else effects)\<rparr>"
  note ok = validate_layeredD [OF v(1)]
  note shared = validate_shared_units [OF ok(1)]
  obtain a e o' where mid: "layer_choice (chosen d i)
       (ss_acss (ld_shared d), ss_effects (ld_shared d), ss_rate_offset (ld_shared d)) = (a, e, o')"
    using prod_cases3 by blast
  have mid_unit: "acss_unit a \<and> effects_unit e"
  proof (cases i)
    case None
    with mid shared show ?thesis by (simp add: layer_choice_def chosen_def)
  next
    case (Some k)
    then have "validate_patch (vc_adjustments (ld_choices d ! k)) = Inr ()"
      using validate_choices_patches [OF ok(2)] v(5) by simp
    moreover have "apply_patch (vc_adjustments (ld_choices d ! k))
       (ss_acss (ld_shared d), ss_effects (ld_shared d), ss_rate_offset (ld_shared d)) = (a, e, o')"
      using mid Some by (simp add: layer_choice_def chosen_def)
    ultimately show ?thesis using validate_patch_units shared by blast
  qed
  have fin: "acss_unit acss \<and> effects_unit effects"
    using validate_patch_units [OF v(2) _ _ ap [unfolded mid]] mid_unit by blast
  have "acss_unit (cv_acss r) \<and> effects_unit (cv_effects r)"
    using fin v(4) apply_rate_offset_unit [OF v(3)]
    by (cases rate; cases pan) (auto simp: r unit_defs)
  then show ?thesis
    by (auto simp: acss_unit_def effects_unit_def opt_unit_def option.pred_set)
qed

fun patch_acss :: "voice_style_patch \<Rightarrow> acss_dimension \<Rightarrow> f32 adjustment option" where
  "patch_acss p AveragePitch = vp_average_pitch p"
| "patch_acss p PitchRange = vp_pitch_range p"
| "patch_acss p Stress = vp_stress p"
| "patch_acss p Richness = vp_richness p"
| "patch_acss p d = None"

fun patch_effect :: "voice_style_patch \<Rightarrow> post_synthesis_dimension \<Rightarrow> f32 adjustment option" where
  "patch_effect p Gain = vp_gain p"
| "patch_effect p LowPass = vp_low_pass p"
| "patch_effect p HighPass = vp_high_pass p"
| "patch_effect p Pan = vp_pan p"
| "patch_effect p Chorus = vp_chorus p"
| "patch_effect p Reverb = vp_reverb p"
| "patch_effect p Echo = vp_echo p"

lemma apply_patch_dims:
  assumes "apply_patch p (a, e, r) = (a', e', r')"
  shows "da \<noteq> Rate \<Longrightarrow> na_dimension a' da = replace_with (patch_acss p da) (na_dimension a da)"
    and "ps_dimension e' de = replace_with (patch_effect p de) (ps_dimension e de)"
  using assms by (cases da; cases de; auto simp: apply_patch_def Let_def split: if_splits)+

lemma layer_choice_dims:
  assumes "layer_choice c (a, e, r) = (a', e', r')"
  shows "da \<noteq> Rate \<Longrightarrow> na_dimension a' da =
      replace_with (Option.bind c (\<lambda>c. patch_acss (vc_adjustments c) da)) (na_dimension a da)"
    and "ps_dimension e' de =
      replace_with (Option.bind c (\<lambda>c. patch_effect (vc_adjustments c) de)) (ps_dimension e de)"
  using assms apply_patch_dims by (cases c; force simp: layer_choice_def)+

text \<open>
  The layers are stacked in order: for every ACSS dimension except the rate, and every
  effect, the context's operation acts on what the selected choice's operation makes of the
  shared value (set, default or keep); only the placement replaces the pan afterwards.
\<close>

theorem compose_layers:
  assumes "compose_style d i context base pan = Inr r" and "da \<noteq> Rate"
  shows "na_dimension (cv_acss r) da =
           replace_with (patch_acss context da)
             (replace_with (Option.bind (chosen d i) (\<lambda>c. patch_acss (vc_adjustments c) da))
                (na_dimension (ss_acss (ld_shared d)) da)) \<and>
         ps_dimension (cv_effects r) de =
           (if de = Pan \<and> pan \<noteq> None then pan
            else replace_with (patch_effect context de)
              (replace_with (Option.bind (chosen d i) (\<lambda>c. patch_effect (vc_adjustments c) de))
                 (ps_dimension (ss_effects (ld_shared d)) de)))"
  using assms(1)
proof (rule compose_Inr)
  fix acss effects rate
  assume ap: "apply_patch context (layer_choice (chosen d i)
       (ss_acss (ld_shared d), ss_effects (ld_shared d), ss_rate_offset (ld_shared d))) =
       (acss, effects, rate)"
    and r: "r = \<lparr>cv_choice_id = map_option vc_id (chosen d i),
          cv_acss = (case rate of
             Some off \<Rightarrow> if off \<noteq> 0 then acss\<lparr>na_rate := Some (apply_rate_offset base off)\<rparr> else acss
           | None \<Rightarrow> acss),
          cv_effects = (if pan \<noteq> None then effects\<lparr>ps_pan := pan\<rparr> else effects)\<rparr>"
  obtain a e o' where mid: "layer_choice (chosen d i)
       (ss_acss (ld_shared d), ss_effects (ld_shared d), ss_rate_offset (ld_shared d)) = (a, e, o')"
    using prod_cases3 by blast
  have acss: "na_dimension (cv_acss r) da = na_dimension acss da"
    using assms(2) by (cases rate; cases da) (auto simp: r)
  have effects: "ps_dimension (cv_effects r) de =
      (if de = Pan \<and> pan \<noteq> None then pan else ps_dimension effects de)"
    by (cases de) (auto simp: r)
  show ?thesis
    unfolding acss effects
    using apply_patch_dims [OF ap [unfolded mid]] layer_choice_dims [OF mid] assms(2)
    by (cases pan) simp_all
qed

section \<open>The selected choice\<close>

lemma enumerate_split:
  assumes "map f (enumerate 0 xs) = pre @ y # post"
  shows "length pre < length xs \<and> y = f (length pre, xs ! length pre) \<and>
         pre = map f (enumerate 0 (take (length pre) xs))"
proof -
  have len: "length pre < length xs" using arg_cong [OF assms, of length] by simp
  moreover have "map f (enumerate 0 xs) ! length pre = y" by (simp add: assms)
  moreover have "take (length pre) (map f (enumerate 0 xs)) = pre" by (simp add: assms)
  moreover have "take (length pre) (enumerate 0 xs) = enumerate 0 (take (length pre) xs)"
    using len by (simp add: enumerate_eq_zip take_zip take_upt min_def)
  ultimately show ?thesis by (simp add: nth_enumerate_eq take_map)
qed

lemma split_in_append:
  "xs @ ys = pre @ y # post \<Longrightarrow>
   (\<exists>post'. xs = pre @ y # post') \<or> (\<exists>pre'. pre = xs @ pre' \<and> ys = pre' @ y # post)"
  by (auto simp: append_eq_append_conv2 append_eq_Cons_conv)

lemma other_reasons:
  assumes "(stage, reason, sel) \<in> set (same_language_stages def policy @
      preferred_engine_stages policy @ global_default_stages policy @ fallback_engine_stages policy)"
  shows "reason \<noteq> Preferred \<and> reason \<noteq> ExplicitAlternative i"
proof -
  have "reason = SameLanguageOnRequestedEngine"
    if "(stage, reason, sel) \<in> set (same_language_stages def policy)"
  proof -
    have "list_all (\<lambda>p. fst (snd p) = SameLanguageOnRequestedEngine) (same_language_stages def policy)"
      by (simp add: same_language_stages_def split: option.split)
    with that show ?thesis by (auto simp: list_all_iff)
  qed
  moreover have "reason = GlobalDefault"
    if "(stage, reason, sel) \<in> set (global_default_stages policy)"
    using that by (cases "fp_global_default policy") (auto simp: global_default_stages_def)
  ultimately show ?thesis
    using assms by (auto simp: preferred_engine_stages_def fallback_engine_stages_def)
qed

lemma all_fail_preferences:
  "all_fail ev (preference_stages def) \<longleftrightarrow> list_all (\<lambda>s. \<not> is_ok (ev s)) (lv_preferences def)"
proof -
  have "list_all (\<lambda>p. \<not> is_ok (ev (snd p))) (enumerate n xs) = list_all (\<lambda>s. \<not> is_ok (ev s)) xs"
    for n and xs
    by (induction xs arbitrary: n) auto
  then show ?thesis
    by (simp add: all_fail_def preference_stages_def list.pred_map o_def split_def)
qed

lemma all_fail_take:
  "all_fail ev (map (\<lambda>(i, s). (StPreference i, f i, s)) (enumerate 0 xs)) \<longleftrightarrow>
   list_all (\<lambda>s. \<not> is_ok (ev s)) xs"
proof -
  have "list_all (\<lambda>p. \<not> is_ok (ev (snd p))) (enumerate n xs) = list_all (\<lambda>s. \<not> is_ok (ev s)) xs" for n
    by (induction xs arbitrary: n) auto
  then show ?thesis by (simp add: all_fail_def list.pred_map o_def split_def)
qed

text \<open>
  The choice whose patch is applied is the choice that was realized: for a resolution of a
  layered definition's projection, the selected choice exists, its own selector evaluates to
  the realized voice and the selectors of all earlier choices fail; no choice is selected only
  when every choice fails and a fallback was used.
\<close>

theorem selected_choice_sound:
  assumes "resolve_voice_with_permissions engines (legacy_projection d) policy text perms = Inr r"
  shows "\<exists>choice. selected_choice d r = Inr choice \<and>
           (case choice of
              Some i \<Rightarrow>
                i < length (ld_choices d) \<and>
                evaluate_selector engines (fp_preferred_engines policy) text perms
                  (vc_selector (ld_choices d ! i)) = Inr (vr_realized r) \<and>
                list_all (\<lambda>c. \<not> is_ok (evaluate_selector engines (fp_preferred_engines policy)
                  text perms (vc_selector c))) (take i (ld_choices d))
            | None \<Rightarrow>
                list_all (\<lambda>c. \<not> is_ok (evaluate_selector engines (fp_preferred_engines policy)
                  text perms (vc_selector c))) (ld_choices d))"
proof -
  let ?ev = "evaluate_selector engines (fp_preferred_engines policy) text perms"
  let ?def = "legacy_projection d"
  let ?f = "\<lambda>(i, s). (StPreference i, if i = 0 then Preferred else ExplicitAlternative i, s)"
  from assms obtain v reason att where
    t: "try_stages ?ev (all_stages ?def policy) [] = Inr (v, reason, att)"
    and r: "r = \<lparr>vr_logical_voice_id = ld_id d, vr_requested = requested_selector ?def,
               vr_realized = v, vr_reason = reason, vr_failed_attempts = att\<rparr>"
    by (auto simp: resolve_stages legacy_projection_def split: sum.splits)
  from try_stages_Inr [OF t] obtain pre stage sel post where
    st: "all_stages ?def policy = pre @ (stage, reason, sel) # post"
    and ev: "?ev sel = Inr v" and fail: "all_fail ?ev pre" by blast
  from split_in_append [OF st [unfolded all_stages_def]]
  consider (pref) post' where "preference_stages ?def = pre @ (stage, reason, sel) # post'"
    | (other) pre' where "pre = preference_stages ?def @ pre'"
      "(stage, reason, sel) \<in> set (same_language_stages ?def policy @ preferred_engine_stages policy @
        global_default_stages policy @ fallback_engine_stages policy)"
    by (metis in_set_conv_decomp)
  then show ?thesis
  proof cases
    case pref
    let ?n = "length pre"
    let ?xs = "map vc_selector (ld_choices d)"
    have "map ?f (enumerate 0 ?xs) = pre @ (stage, reason, sel) # post'"
      using pref by (simp add: preference_stages_def legacy_projection_def)
    from enumerate_split [OF this] have n: "?n < length (ld_choices d)"
      and y: "reason = (if ?n = 0 then Preferred else ExplicitAlternative ?n)"
        "sel = vc_selector (ld_choices d ! ?n)"
      and pre: "pre = map ?f (enumerate 0 (take ?n ?xs))" by simp_all
    have "selected_choice d r = Inr (Some ?n)"
      using n y(1) by (cases "pre = []") (auto simp: selected_choice_def r)
    moreover have "list_all (\<lambda>c. \<not> is_ok (?ev (vc_selector c))) (take ?n (ld_choices d))"
      using fail unfolding arg_cong [OF pre, of "all_fail ?ev"] all_fail_take
      by (simp add: take_map list.pred_map o_def)
    ultimately show ?thesis using n ev y(2) by (simp add: r)
  next
    case other
    have "reason \<noteq> Preferred \<and> (\<forall>i. reason \<noteq> ExplicitAlternative i)"
      using other_reasons [OF other(2)] by blast
    then have "selected_choice d r = Inr None"
      by (cases reason) (auto simp: selected_choice_def r)
    moreover have "all_fail ?ev (preference_stages ?def)"
      using fail by (simp add: other(1) all_fail_def)
    then have "list_all (\<lambda>c. \<not> is_ok (?ev (vc_selector c))) (ld_choices d)"
      by (simp add: all_fail_preferences legacy_projection_def list.pred_map o_def)
    ultimately show ?thesis by simp
  qed
qed

section \<open>The theorems at a concrete definition\<close>

definition no_acss :: normalized_acss where
  "no_acss =
     \<lparr>na_rate = None, na_average_pitch = None, na_pitch_range = None, na_stress = None,
      na_richness = None, na_volume = None\<rparr>"

definition no_effects :: post_synthesis_style where
  "no_effects =
     \<lparr>ps_gain = None, ps_low_pass = None, ps_high_pass = None, ps_pan = None, ps_chorus = None,
      ps_reverb = None, ps_echo = None\<rparr>"

definition no_patch :: voice_style_patch where
  "no_patch =
     \<lparr>vp_average_pitch = None, vp_pitch_range = None, vp_stress = None, vp_richness = None,
      vp_gain = None, vp_low_pass = None, vp_high_pass = None, vp_pan = None, vp_reverb = None,
      vp_echo = None, vp_chorus = None, vp_rate_offset = None\<rparr>"

definition sample_layered :: layered_voice_definition where
  "sample_layered =
     \<lparr>ld_id = lit ''code'', ld_language = None,
      ld_shared = \<lparr>ss_acss = no_acss\<lparr>na_stress := Some (F32_Fin (1/4))\<rparr>, ss_rate_offset = None,
                   ss_effects = no_effects\<rparr>,
      ld_choices =
        [\<lparr>vc_id = lit ''first'', vc_selector = EngineDefault (lit ''b''),
          vc_adjustments = no_patch\<lparr>vp_stress := Some (SetTo (F32_Fin (1/2)))\<rparr>\<rparr>]\<rparr>"

lemma sample_layered_valid: "validate_layered sample_layered = Inr ()"
  by (simp add: validate_layered_def validate_shared_def sample_layered_def no_acss_def
      no_effects_def no_patch_def map_filter_def normalized_value_def max_voice_preferences_def
      validate_registration_def legacy_projection_def empty_policy_def max_logical_voices_def
      valid_logical_voice_id_def lit_Cons max_logical_voice_id_bytes_def identifier_char_def
      is_ascii_alphanumeric_def is_ascii_digit_def is_ascii_lowercase_def is_ascii_uppercase_def
      utf8_len_def validate_patch_def patch_values_def validate_selector_def valid_engine_id_def
      max_registration_engine_id_bytes_def)

lemma sample_composed:
  "\<exists>r. compose_style sample_layered (Some 0) (no_patch\<lparr>vp_stress := Some ToDefault\<rparr>)
         (F32_Fin 1) None = Inr r"
  by (simp add: compose_style_def sample_layered_valid Let_def split_def)
    (simp add: validate_patch_def patch_values_def no_patch_def map_filter_def sample_layered_def)

theorem compose_in_range_witness:
  "\<exists>r. compose_style sample_layered (Some 0) (no_patch\<lparr>vp_stress := Some ToDefault\<rparr>)
         (F32_Fin 1) None = Inr r \<and> pred_option f32_unit (na_dimension (cv_acss r) Stress)"
  using sample_composed compose_in_range by blast

end
