(* ===== verification/Logical_Voices.thy ===== *)
theory Logical_Voices
  imports Interfaces Voice_Choices
begin

text \<open>
  The session registry of logical voices (\<open>omnivox-tts/src/logical_voices.rs\<close>): atomic,
  generation-safe replacement of the client's definitions, their projection for the resolver,
  and the bindings of the latest resolution. Both registration paths provide the interface
  \<open>generation_gate\<close>. The derived equality of definitions compares floats as IEEE does.
\<close>

section \<open>Derived equality\<close>

definition na_eq :: "normalized_acss \<Rightarrow> normalized_acss \<Rightarrow> bool" where
  "na_eq a b \<longleftrightarrow>
     f32_opt_eq (na_rate a) (na_rate b) \<and> f32_opt_eq (na_average_pitch a) (na_average_pitch b) \<and>
     f32_opt_eq (na_pitch_range a) (na_pitch_range b) \<and> f32_opt_eq (na_stress a) (na_stress b) \<and>
     f32_opt_eq (na_richness a) (na_richness b) \<and> f32_opt_eq (na_volume a) (na_volume b)"

definition ps_eq :: "post_synthesis_style \<Rightarrow> post_synthesis_style \<Rightarrow> bool" where
  "ps_eq a b \<longleftrightarrow>
     f32_opt_eq (ps_gain a) (ps_gain b) \<and> f32_opt_eq (ps_low_pass a) (ps_low_pass b) \<and>
     f32_opt_eq (ps_high_pass a) (ps_high_pass b) \<and> f32_opt_eq (ps_pan a) (ps_pan b) \<and>
     f32_opt_eq (ps_chorus a) (ps_chorus b) \<and> f32_opt_eq (ps_reverb a) (ps_reverb b) \<and>
     f32_opt_eq (ps_echo a) (ps_echo b)"

definition lv_eq :: "logical_voice_definition \<Rightarrow> logical_voice_definition \<Rightarrow> bool" where
  "lv_eq a b \<longleftrightarrow>
     lv_id a = lv_id b \<and> lv_language a = lv_language b \<and> lv_preferences a = lv_preferences b \<and>
     na_eq (lv_acss a) (lv_acss b) \<and> ps_eq (lv_effects a) (lv_effects b)"

fun op_eq :: "f32 adjustment option \<Rightarrow> f32 adjustment option \<Rightarrow> bool" where
  "op_eq None None = True"
| "op_eq (Some ToDefault) (Some ToDefault) = True"
| "op_eq (Some (SetTo x)) (Some (SetTo y)) = f32_eq x y"
| "op_eq _ _ = False"

definition patch_eq :: "voice_style_patch \<Rightarrow> voice_style_patch \<Rightarrow> bool" where
  "patch_eq a b \<longleftrightarrow>
     op_eq (vp_average_pitch a) (vp_average_pitch b) \<and> op_eq (vp_pitch_range a) (vp_pitch_range b) \<and>
     op_eq (vp_stress a) (vp_stress b) \<and> op_eq (vp_richness a) (vp_richness b) \<and>
     op_eq (vp_gain a) (vp_gain b) \<and> op_eq (vp_low_pass a) (vp_low_pass b) \<and>
     op_eq (vp_high_pass a) (vp_high_pass b) \<and> op_eq (vp_pan a) (vp_pan b) \<and>
     op_eq (vp_reverb a) (vp_reverb b) \<and> op_eq (vp_echo a) (vp_echo b) \<and>
     op_eq (vp_chorus a) (vp_chorus b) \<and> vp_rate_offset a = vp_rate_offset b"

definition shared_eq :: "shared_voice_style \<Rightarrow> shared_voice_style \<Rightarrow> bool" where
  "shared_eq a b \<longleftrightarrow>
     na_eq (ss_acss a) (ss_acss b) \<and> ss_rate_offset a = ss_rate_offset b \<and>
     ps_eq (ss_effects a) (ss_effects b)"

definition choice_eq :: "voice_choice \<Rightarrow> voice_choice \<Rightarrow> bool" where
  "choice_eq a b \<longleftrightarrow>
     vc_id a = vc_id b \<and> vc_selector a = vc_selector b \<and> patch_eq (vc_adjustments a) (vc_adjustments b)"

definition native_choice_eq :: "'n engine_voice_choice \<Rightarrow> 'n engine_voice_choice \<Rightarrow> bool" where
  "native_choice_eq a b \<longleftrightarrow>
     evc_id a = evc_id b \<and> evc_selector a = evc_selector b \<and>
     patch_eq (evc_adjustments a) (evc_adjustments b) \<and> evc_native a = evc_native b"

fun registered_eq ::
    "'n registered_voice_definition \<Rightarrow> 'n registered_voice_definition \<Rightarrow> bool" where
  "registered_eq (Legacy a) (Legacy b) = lv_eq a b"
| "registered_eq (Layered a) (Layered b) =
     (ld_id a = ld_id b \<and> ld_language a = ld_language b \<and> shared_eq (ld_shared a) (ld_shared b) \<and>
      list_all2 choice_eq (ld_choices a) (ld_choices b))"
| "registered_eq (EngineLayered a) (EngineLayered b) =
     (el_id a = el_id b \<and> el_language a = el_language b \<and> shared_eq (el_shared a) (el_shared b) \<and>
      list_all2 native_choice_eq (el_choices a) (el_choices b))"
| "registered_eq _ _ = False"

definition registered_list_eq ::
    "'n registered_voice_definition list \<Rightarrow> 'n registered_voice_definition list \<Rightarrow> bool" where
  "registered_list_eq = list_all2 registered_eq"

lemma na_eq_eq: "na_eq a b \<Longrightarrow> a = b"
  by (cases a; cases b) (auto simp: na_eq_def dest!: f32_opt_eq_eq)

lemma ps_eq_eq: "ps_eq a b \<Longrightarrow> a = b"
  by (cases a; cases b) (auto simp: ps_eq_def dest!: f32_opt_eq_eq)

lemma op_eq_eq: "op_eq a b \<Longrightarrow> a = b"
  by (cases "(a, b)" rule: op_eq.cases) (auto simp: f32_eq_def)

lemma patch_eq_eq: "patch_eq a b \<Longrightarrow> a = b"
  by (cases a; cases b) (auto simp: patch_eq_def dest!: op_eq_eq)

lemma list_all2_eq: "list_all2 P xs ys \<Longrightarrow> (\<And>x y. P x y \<Longrightarrow> x = y) \<Longrightarrow> xs = ys"
  by (induction rule: list_all2_induct) auto

lemma shared_eq_eq: "shared_eq a b \<Longrightarrow> a = b"
  by (cases a; cases b) (auto simp: shared_eq_def dest: na_eq_eq ps_eq_eq)

lemma choice_eq_eq: "choice_eq a b \<Longrightarrow> a = b"
  by (cases a; cases b) (auto simp: choice_eq_def dest: patch_eq_eq)

lemma native_choice_eq_eq: "native_choice_eq a b \<Longrightarrow> a = b"
  by (cases a; cases b) (auto simp: native_choice_eq_def dest: patch_eq_eq)

lemma registered_eq_eq: "registered_eq a b \<Longrightarrow> a = b"
proof (induction a b rule: registered_eq.induct)
  case (1 a b)
  then show ?case
    by (cases a; cases b) (auto simp: lv_eq_def dest: na_eq_eq ps_eq_eq)
next
  case (2 a b)
  then have "ld_choices a = ld_choices b" by (auto intro: list_all2_eq choice_eq_eq)
  with 2 show ?case by (cases a; cases b) (auto dest: shared_eq_eq)
next
  case (3 a b)
  then have "el_choices a = el_choices b" by (auto intro: list_all2_eq native_choice_eq_eq)
  with 3 show ?case by (cases a; cases b) (auto dest: shared_eq_eq)
qed simp_all

lemma registered_list_eq_eq: "registered_list_eq xs ys \<Longrightarrow> xs = ys"
  unfolding registered_list_eq_def by (erule list_all2_eq) (rule registered_eq_eq)

section \<open>State and operations\<close>

datatype logical_voice_binding =
  Resolved voice_resolution | Unresolved voice_resolution_error

fun binding_voice_id :: "logical_voice_binding \<Rightarrow> rstr" where
  "binding_voice_id (Resolved r) = vr_logical_voice_id r"
| "binding_voice_id (Unresolved e) = ve_logical_voice_id e"

record logical_voice_registration =
  lg_generation :: nat
  lg_bindings :: "logical_voice_binding list"

record 'n logical_voice_registry =
  lr_permissions :: engine_selection_permissions
  lr_generation :: nat
  lr_definitions :: "logical_voice_definition list"
  lr_registered :: "'n registered_voice_definition list"
  lr_fallback_policy :: fallback_policy
  lr_bindings :: "logical_voice_binding list"

definition with_engine_permissions ::
    "engine_selection_permissions \<Rightarrow> 'n logical_voice_registry" where
  "with_engine_permissions perms =
     \<lparr>lr_permissions = perms, lr_generation = 0, lr_definitions = [], lr_registered = [],
      lr_fallback_policy = empty_policy, lr_bindings = []\<rparr>"

definition is_engine_layered :: "'n logical_voice_registry \<Rightarrow> rstr \<Rightarrow> bool" where
  "is_engine_layered r vid \<longleftrightarrow>
     list_ex (\<lambda>d. case d of EngineLayered v \<Rightarrow> el_id v = vid | _ \<Rightarrow> False) (lr_registered r)"

definition resolve_binding ::
    "engine_descriptor list \<Rightarrow> fallback_policy \<Rightarrow> engine_selection_permissions \<Rightarrow>
     logical_voice_definition \<Rightarrow> logical_voice_binding" where
  "resolve_binding inventory policy perms d =
     (case resolve_voice_with_permissions inventory d policy None perms of
        Inr r \<Rightarrow> Resolved r
      | Inl e \<Rightarrow> Unresolved e)"

definition resolve_with_policy ::
    "engine_descriptor list \<Rightarrow> fallback_policy \<Rightarrow> 'n logical_voice_registry \<Rightarrow>
     logical_voice_registration" where
  "resolve_with_policy inventory policy r =
     \<lparr>lg_generation = lr_generation r,
      lg_bindings = map (resolve_binding inventory policy (lr_permissions r)) (lr_definitions r)\<rparr>"

definition resolve_all ::
    "engine_descriptor list \<Rightarrow> 'n logical_voice_registry \<Rightarrow> logical_voice_registration" where
  "resolve_all inventory r = resolve_with_policy inventory (lr_fallback_policy r) r"

definition resolve_and_store_with_policy ::
    "engine_descriptor list \<Rightarrow> fallback_policy \<Rightarrow> 'n logical_voice_registry \<Rightarrow>
     logical_voice_registration \<times> 'n logical_voice_registry" where
  "resolve_and_store_with_policy inventory policy r =
     (let reg = resolve_with_policy inventory policy r
      in (reg, r\<lparr>lr_bindings := lg_bindings reg\<rparr>))"

text \<open>The common end of both registrations: resolve against the inventory and keep the result.\<close>

definition store_bindings ::
    "engine_descriptor list \<Rightarrow> 'n logical_voice_registry \<Rightarrow>
     logical_voice_registration \<times> 'n logical_voice_registry" where
  "store_bindings inventory r =
     (let reg = resolve_all inventory r in (reg, r\<lparr>lr_bindings := lg_bindings reg\<rparr>))"

definition clamp_definition :: "logical_voice_definition \<Rightarrow> logical_voice_definition" where
  "clamp_definition d = d\<lparr>lv_acss := na_clamped (lv_acss d)\<rparr>"

definition register_voices ::
    "nat \<Rightarrow> logical_voice_definition list \<Rightarrow> fallback_policy \<Rightarrow> engine_descriptor list \<Rightarrow>
     'n logical_voice_registry \<Rightarrow>
     logical_voice_registry_error + logical_voice_registration \<times> 'n logical_voice_registry" where
  "register_voices g definitions policy inventory r =
     (if g < lr_generation r then Inl (LvStaleGeneration (lr_generation r) g)
      else and_then (validate_registration definitions policy) (\<lambda>_.
        let clamped = map clamp_definition definitions; registered = map Legacy clamped
        in if g = lr_generation r
           then (if \<not> registered_list_eq registered (lr_registered r) \<or>
                    policy \<noteq> lr_fallback_policy r
                 then Inl (LvGenerationConflict g)
                 else Inr (store_bindings inventory r))
           else Inr (store_bindings inventory
                  (r\<lparr>lr_generation := g, lr_definitions := clamped, lr_registered := registered,
                     lr_fallback_policy := policy\<rparr>))))"

text \<open>One round of the loop of \<open>replace_definitions\<close>: the stored form and its projection.\<close>

fun admit_definition ::
    "'n registered_voice_definition \<Rightarrow>
     choice_tuning_error + 'n registered_voice_definition \<times> logical_voice_definition" where
  "admit_definition (Legacy d) = Inr (Legacy (clamp_definition d), clamp_definition d)"
| "admit_definition (Layered d) =
     and_then (validate_layered d) (\<lambda>_. Inr (Layered d, legacy_projection d))"
| "admit_definition (EngineLayered d) =
     Inr (EngineLayered d, legacy_projection (common_projection d))"

definition replace_definitions ::
    "nat \<Rightarrow> 'n registered_voice_definition list \<Rightarrow> fallback_policy \<Rightarrow> engine_descriptor list \<Rightarrow>
     'n logical_voice_registry \<Rightarrow>
     choice_tuning_error + logical_voice_registration \<times> 'n logical_voice_registry" where
  "replace_definitions g definitions policy inventory r =
     (if g = 0 then Inl (Invalid ''registry generation must be positive'')
      else if g < lr_generation r then Inl (Registry (LvStaleGeneration (lr_generation r) g))
      else if max_logical_voices < length definitions
      then Inl (Registry (TooManyDefinitions (length definitions) max_logical_voices))
      else and_then (try_collect admit_definition definitions) (\<lambda>admitted.
        let registered = map fst admitted; projection = map snd admitted
        in and_then (map_err Registry (validate_registration projection policy)) (\<lambda>_.
             if g = lr_generation r
             then (if \<not> registered_list_eq registered (lr_registered r) \<or>
                      policy \<noteq> lr_fallback_policy r
                   then Inl (Registry (LvGenerationConflict g))
                   else Inr (store_bindings inventory r))
             else Inr (store_bindings inventory
                    (r\<lparr>lr_generation := g, lr_definitions := projection,
                       lr_registered := registered, lr_fallback_policy := policy\<rparr>)))))"

fun is_native :: "'n registered_voice_definition \<Rightarrow> bool" where
  "is_native (EngineLayered d) = True"
| "is_native d = False"

definition register_v2 ::
    "nat \<Rightarrow> 'n registered_voice_definition list \<Rightarrow> fallback_policy \<Rightarrow> engine_descriptor list \<Rightarrow>
     'n logical_voice_registry \<Rightarrow>
     choice_tuning_error + logical_voice_registration \<times> 'n logical_voice_registry" where
  "register_v2 g definitions policy inventory r =
     (if list_ex is_native definitions
      then Inl (Invalid ''engine-layered definitions require v3 admission'')
      else replace_definitions g definitions policy inventory r)"

section \<open>The registry as a generation gate\<close>

definition accept_voices ::
    "nat \<Rightarrow> logical_voice_definition list \<times> fallback_policy \<times> engine_descriptor list \<Rightarrow>
     'n logical_voice_registry \<Rightarrow> logical_voice_registry_error + 'n logical_voice_registry" where
  "accept_voices g p r =
     and_then (register_voices g (fst p) (fst (snd p)) (snd (snd p)) r) (\<lambda>(reg, r'). Inr r')"

definition accept_definitions ::
    "nat \<Rightarrow> 'n registered_voice_definition list \<times> fallback_policy \<times> engine_descriptor list \<Rightarrow>
     'n logical_voice_registry \<Rightarrow> choice_tuning_error + 'n logical_voice_registry" where
  "accept_definitions g p r =
     and_then (replace_definitions g (fst p) (fst (snd p)) (snd (snd p)) r) (\<lambda>(reg, r'). Inr r')"

definition registry_content ::
    "'n logical_voice_registry \<Rightarrow>
     logical_voice_definition list \<times> 'n registered_voice_definition list \<times> fallback_policy" where
  "registry_content r = (lr_definitions r, lr_registered r, lr_fallback_policy r)"

lemma store_bindings_simps [simp]:
  "lr_permissions (snd (store_bindings inventory r)) = lr_permissions r"
  "lr_generation (snd (store_bindings inventory r)) = lr_generation r"
  "lr_definitions (snd (store_bindings inventory r)) = lr_definitions r"
  "lr_registered (snd (store_bindings inventory r)) = lr_registered r"
  "lr_fallback_policy (snd (store_bindings inventory r)) = lr_fallback_policy r"
  "registry_content (snd (store_bindings inventory r)) = registry_content r"
  "lr_bindings (snd (store_bindings inventory r)) =
     map (resolve_binding inventory (lr_fallback_policy r) (lr_permissions r)) (lr_definitions r)"
  by (simp_all add: store_bindings_def Let_def registry_content_def resolve_all_def
      resolve_with_policy_def)

lemma accept_voices_Inr:
  "accept_voices g p r = Inr r' \<Longrightarrow>
   lr_generation r \<le> g \<and>
   (if g = lr_generation r then r' = snd (store_bindings (snd (snd p)) r)
    else validate_registration (fst p) (fst (snd p)) = Inr () \<and>
      r' = snd (store_bindings (snd (snd p))
        (r\<lparr>lr_generation := g, lr_definitions := map clamp_definition (fst p),
           lr_registered := map Legacy (map clamp_definition (fst p)),
           lr_fallback_policy := fst (snd p)\<rparr>)))"
  by (auto simp: accept_voices_def register_voices_def res_simps Let_def split: if_split_asm)

lemma accept_definitions_Inr:
  "accept_definitions g p r = Inr r' \<Longrightarrow>
   lr_generation r \<le> g \<and> 0 < g \<and>
   (if g = lr_generation r then r' = snd (store_bindings (snd (snd p)) r)
    else \<exists>admitted. try_collect admit_definition (fst p) = Inr admitted \<and>
      validate_registration (map snd admitted) (fst (snd p)) = Inr () \<and>
      r' = snd (store_bindings (snd (snd p))
        (r\<lparr>lr_generation := g, lr_definitions := map snd admitted,
           lr_registered := map fst admitted, lr_fallback_policy := fst (snd p)\<rparr>)))"
  by (auto simp: accept_definitions_def replace_definitions_def and_then_Inr map_err_Inr Let_def
      split: if_split_asm)

interpretation voices: generation_gate accept_voices lr_generation "\<lambda>r. True" registry_content
  by unfold_locales (auto dest!: accept_voices_Inr split: if_split_asm)

interpretation layered: generation_gate accept_definitions lr_generation "\<lambda>r. True" registry_content
  by unfold_locales (auto dest!: accept_definitions_Inr split: if_split_asm)

section \<open>Histories of a registry\<close>

text \<open>
  Every way a session changes its registry: the three registration paths, of which the last is
  the private publication step of native admission, and a resolution under a runtime policy.
\<close>

datatype 'n voices_op =
  Register nat "logical_voice_definition list" fallback_policy "engine_descriptor list"
| RegisterV2 nat "'n registered_voice_definition list" fallback_policy "engine_descriptor list"
| ReplaceDefinitions nat "'n registered_voice_definition list" fallback_policy
    "engine_descriptor list"
| ResolveAndStore "engine_descriptor list" fallback_policy

definition keep_or :: "'n logical_voice_registry \<Rightarrow>
    'e + logical_voice_registration \<times> 'n logical_voice_registry \<Rightarrow> 'n logical_voice_registry" where
  "keep_or r res = (case res of Inl e \<Rightarrow> r | Inr (reg, r') \<Rightarrow> r')"

fun voices_step :: "'n voices_op \<Rightarrow> 'n logical_voice_registry \<Rightarrow> 'n logical_voice_registry" where
  "voices_step (Register g ds policy inventory) r =
     keep_or r (register_voices g ds policy inventory r)"
| "voices_step (RegisterV2 g ds policy inventory) r =
     keep_or r (register_v2 g ds policy inventory r)"
| "voices_step (ReplaceDefinitions g ds policy inventory) r =
     keep_or r (replace_definitions g ds policy inventory r)"
| "voices_step (ResolveAndStore inventory policy) r =
     snd (resolve_and_store_with_policy inventory policy r)"

text \<open>The content an accepted registration publishes, before its bindings are resolved.\<close>

definition published ::
    "nat \<Rightarrow> 'n registered_voice_definition list \<Rightarrow> logical_voice_definition list \<Rightarrow>
     fallback_policy \<Rightarrow> 'n logical_voice_registry \<Rightarrow> 'n logical_voice_registry \<Rightarrow> bool" where
  "published g registered projection policy r r0 \<longleftrightarrow>
     (if g = lr_generation r
      then registered = lr_registered r \<and> policy = lr_fallback_policy r \<and> r0 = r
      else r0 = r\<lparr>lr_generation := g, lr_definitions := projection,
                   lr_registered := registered, lr_fallback_policy := policy\<rparr>)"

lemma published_Inr:
  assumes "(if g = lr_generation r
            then (if \<not> registered_list_eq registered (lr_registered r) \<or>
                     policy \<noteq> lr_fallback_policy r
                  then Inl e else Inr (store_bindings inventory r))
            else Inr (store_bindings inventory
                   (r\<lparr>lr_generation := g, lr_definitions := projection,
                      lr_registered := registered, lr_fallback_policy := policy\<rparr>))) = Inr x"
  shows "\<exists>r0. x = store_bindings inventory r0 \<and> published g registered projection policy r r0"
proof (cases "g = lr_generation r")
  case True
  with assms have "x = store_bindings inventory r"
    "registered = lr_registered r" "policy = lr_fallback_policy r"
    by (auto dest: registered_list_eq_eq split: if_split_asm)
  with True show ?thesis by (auto simp: published_def)
next
  case False
  with assms have "x = store_bindings inventory
      (r\<lparr>lr_generation := g, lr_definitions := projection,
         lr_registered := registered, lr_fallback_policy := policy\<rparr>)" by simp
  with False show ?thesis by (simp add: published_def)
qed

lemma register_voices_Inr:
  assumes "register_voices g ds policy inventory r = Inr x"
  shows "lr_generation r \<le> g \<and> validate_registration ds policy = Inr () \<and>
         (\<exists>r0. x = store_bindings inventory r0 \<and>
            published g (map Legacy (map clamp_definition ds)) (map clamp_definition ds) policy r r0)"
proof -
  have le: "\<not> g < lr_generation r"
    using assms by (cases "g < lr_generation r") (simp_all add: register_voices_def)
  note body = assms [unfolded register_voices_def Let_def if_not_P [OF le]]
  from body obtain u where v: "validate_registration ds policy = Inr u"
    unfolding and_then_Inr by blast
  note tail = body [unfolded v and_then.simps]
  from published_Inr [OF tail] le v show ?thesis by simp
qed

lemma replace_definitions_Inr:
  assumes "replace_definitions g ds policy inventory r = Inr x"
  obtains admitted r0 where "lr_generation r \<le> g" "try_collect admit_definition ds = Inr admitted"
    "validate_registration (map snd admitted) policy = Inr ()" "x = store_bindings inventory r0"
    "published g (map fst admitted) (map snd admitted) policy r r0"
proof -
  have le: "g \<noteq> 0" "\<not> g < lr_generation r" "\<not> max_logical_voices < length ds"
    using assms unfolding replace_definitions_def by (auto split: if_split_asm)
  note body = assms [unfolded replace_definitions_def Let_def if_not_P [OF le(1)]
      if_not_P [OF le(2)] if_not_P [OF le(3)]]
  from body obtain admitted where a: "try_collect admit_definition ds = Inr admitted"
    unfolding and_then_Inr by blast
  note body' = body [unfolded a and_then.simps]
  from body' obtain u where v: "validate_registration (map snd admitted) policy = Inr u"
    unfolding and_then_Inr map_err_Inr by blast
  note tail = body' [unfolded v map_err.simps and_then.simps]
  from published_Inr [OF tail] le v a show thesis by (auto intro: that)
qed

lemma register_v2_Inr:
  "register_v2 g ds policy inventory r = Inr x \<Longrightarrow>
   replace_definitions g ds policy inventory r = Inr x"
  by (simp add: register_v2_def split: if_split_asm)

text \<open>What the resolver sees of a registered definition.\<close>

fun voice_projection :: "'n registered_voice_definition \<Rightarrow> logical_voice_definition" where
  "voice_projection (Legacy d) = d"
| "voice_projection (Layered d) = legacy_projection d"
| "voice_projection (EngineLayered d) = legacy_projection (common_projection d)"

lemma admit_projection: "admit_definition d = Inr (s, p) \<Longrightarrow> p = voice_projection s"
  by (cases d) (auto simp: and_then_Inr)

lemma admitted_projection:
  "try_collect admit_definition ds = Inr admitted \<Longrightarrow>
   map snd admitted = map voice_projection (map fst admitted)"
  unfolding try_collect_Inr
  by (induction rule: list_all2_induct) (auto dest: admit_projection)

lemma validate_definitions_ids:
  "validate_definitions ids ds = Inr u \<Longrightarrow>
   distinct (map lv_id ds) \<and> lv_id ` set ds \<inter> ids = {} \<and>
   list_all (\<lambda>d. valid_logical_voice_id (lv_id d)) ds"
  by (induction ids ds rule: validate_definitions.induct)
    (auto simp: and_then_Inr image_iff split: if_split_asm)

lemma validate_registration_ids:
  "validate_registration ds policy = Inr u \<Longrightarrow>
   length ds \<le> max_logical_voices \<and> distinct (map lv_id ds) \<and>
   list_all (\<lambda>d. valid_logical_voice_id (lv_id d)) ds"
  by (auto simp: validate_registration_def and_then_Inr dest: validate_definitions_ids
      split: if_split_asm)

lemma clamp_definition_id [simp]: "lv_id (clamp_definition d) = lv_id d"
  by (simp add: clamp_definition_def)

definition voices_wf :: "engine_selection_permissions \<Rightarrow> 'n logical_voice_registry \<Rightarrow> bool" where
  "voices_wf perms r \<longleftrightarrow>
     lr_permissions r = perms \<and>
     lr_definitions r = map voice_projection (lr_registered r) \<and>
     length (lr_definitions r) \<le> max_logical_voices \<and>
     distinct (map lv_id (lr_definitions r)) \<and>
     list_all (\<lambda>d. valid_logical_voice_id (lv_id d)) (lr_definitions r)"

lemma voices_wf_store [simp]:
  "voices_wf perms (snd (store_bindings inventory r)) = voices_wf perms r"
  by (simp add: voices_wf_def)

lemma published_wf:
  assumes "voices_wf perms r" and "published g registered projection policy r r0"
    and "validate_registration projection policy' = Inr u"
    and "projection = map voice_projection registered"
  shows "voices_wf perms r0"
  using assms(1,2) validate_registration_ids [OF assms(3)] assms(4)
  by (cases "g = lr_generation r") (simp_all add: published_def voices_wf_def)

lemma validate_definitions_clamped:
  "validate_definitions ids (map clamp_definition ds) = validate_definitions ids ds"
  by (induction ids ds rule: validate_definitions.induct) (simp_all add: clamp_definition_def)

lemma validate_registration_clamped:
  "validate_registration (map clamp_definition ds) policy = validate_registration ds policy"
  by (simp add: validate_registration_def validate_definitions_clamped)

lemma stored_registry: "(reg, r') = store_bindings inventory r0 \<Longrightarrow> r' = snd (store_bindings inventory r0)"
  by (metis snd_conv)

lemma voices_wf_bindings [simp]: "voices_wf perms (r\<lparr>lr_bindings := bs\<rparr>) = voices_wf perms r"
  by (simp add: voices_wf_def)

lemma register_voices_wf:
  assumes "voices_wf perms r" and "register_voices g ds policy inventory r = Inr (reg, r')"
  shows "voices_wf perms r'"
proof -
  from register_voices_Inr [OF assms(2)] obtain r0 where
    v: "validate_registration (map clamp_definition ds) policy = Inr ()"
    and r': "(reg, r') = store_bindings inventory r0"
    and r0: "published g (map Legacy (map clamp_definition ds)) (map clamp_definition ds) policy r r0"
    by (auto simp: validate_registration_clamped)
  have "map clamp_definition ds = map voice_projection (map Legacy (map clamp_definition ds))"
    by (simp add: o_def)
  from published_wf [OF assms(1) r0 v this] show ?thesis
    by (simp add: stored_registry [OF r'])
qed

lemma replace_definitions_wf:
  assumes "voices_wf perms r" and "replace_definitions g ds policy inventory r = Inr (reg, r')"
  shows "voices_wf perms r'"
  using assms(2)
proof (rule replace_definitions_Inr)
  fix admitted r0
  assume "try_collect admit_definition ds = Inr admitted"
    and v: "validate_registration (map snd admitted) policy = Inr ()"
    and r': "(reg, r') = store_bindings inventory r0"
    and r0: "published g (map fst admitted) (map snd admitted) policy r r0"
  then have "map snd admitted = map voice_projection (map fst admitted)"
    by (intro admitted_projection)
  from published_wf [OF assms(1) r0 v this] show ?thesis
    by (simp add: stored_registry [OF r'])
qed

lemma keep_or_wf:
  "voices_wf perms r \<Longrightarrow> (\<And>reg r'. res = Inr (reg, r') \<Longrightarrow> voices_wf perms r') \<Longrightarrow>
   voices_wf perms (keep_or r res)"
  by (auto simp: keep_or_def split: sum.split)

interpretation voice_registry: invariant_machine voices_step "voices_wf perms"
proof unfold_locales
  fix r :: "'a logical_voice_registry" and op
  assume wf: "voices_wf perms r"
  show "voices_wf perms (voices_step op r)"
  proof (cases op)
    case (ResolveAndStore inventory policy)
    with wf show ?thesis
      by (simp add: resolve_and_store_with_policy_def Let_def)
  qed (use wf in \<open>auto intro!: keep_or_wf
    dest: register_voices_wf [OF wf] replace_definitions_wf [OF wf] register_v2_Inr\<close>)
qed

lemma initial_voices_wf: "voices_wf perms (with_engine_permissions perms)"
  by (simp add: voices_wf_def with_engine_permissions_def max_logical_voices_def)

text \<open>
  After any history of registrations, v2 registrations, native publications and
  re-resolutions, accepted or refused, the definitions the resolver sees are exactly the
  projections of the authoritative ones, at most 256 with distinct valid IDs, and the client
  never changes the permissions of the session.
\<close>

theorem registry_projection_invariant:
  fixes perms ops
  defines "r \<equiv> fold voices_step ops (with_engine_permissions perms)"
  shows "lr_definitions r = map voice_projection (lr_registered r) \<and>
         length (lr_registered r) \<le> 256 \<and> distinct (map lv_id (lr_definitions r)) \<and>
         list_all (\<lambda>d. valid_logical_voice_id (lv_id d)) (lr_definitions r) \<and>
         lr_permissions r = perms"
proof -
  have wf: "voices_wf perms r"
    unfolding r_def by (rule voice_registry.inv_run [OF initial_voices_wf])
  then have defs: "lr_definitions r = map voice_projection (lr_registered r)"
    and len: "length (lr_definitions r) \<le> 256"
    unfolding voices_wf_def max_logical_voices_def by blast+
  from len have "length (lr_registered r) \<le> 256" by (simp add: defs)
  with wf show ?thesis unfolding voices_wf_def by blast
qed

text \<open>
  A request for legacy definitions that was accepted once changes neither the definitions
  nor the policy when it arrives again after any other requests, and no delivery turns the
  generation back.
\<close>

theorem registration_retry_absorbed:
  assumes "accept_voices g request r = Inr r'"
  shows "registry_content (voices.deliver (foldl voices.deliver r' later) (g, request)) =
           registry_content (foldl voices.deliver r' later) \<and>
         g \<le> lr_generation (foldl voices.deliver r' later)"
  using voices.replay_absorbed [OF assms] voices.not_older [OF assms]
    voices.run_generation [of r' later] by simp

lemma binding_id: "binding_voice_id (resolve_binding inventory policy perms d) = lv_id d"
  by (auto simp: resolve_binding_def resolve_stages split: sum.split)

text \<open>
  A registration is all or nothing: when it is accepted every stored definition has one
  binding, in order and with its own logical voice ID, each the resolution of that definition
  against the given inventory, and the reply is what the registry keeps.
\<close>

theorem registration_bindings:
  assumes "register_v2 g definitions policy inventory r = Inr (reg, r')"
  shows "lg_generation reg = g \<and> lr_generation r' = g \<and> lr_bindings r' = lg_bindings reg \<and>
         map binding_voice_id (lg_bindings reg) = map lv_id (lr_definitions r') \<and>
         list_all2 (\<lambda>d b. case b of
             Resolved v \<Rightarrow> resolve_voice_with_permissions inventory d policy None (lr_permissions r) = Inr v
           | Unresolved e \<Rightarrow>
               resolve_voice_with_permissions inventory d policy None (lr_permissions r) = Inl e)
           (lr_definitions r') (lg_bindings reg)"
proof -
  have "replace_definitions g definitions policy inventory r = Inr (reg, r')"
    by (rule register_v2_Inr [OF assms])
  then obtain admitted r0 where s: "(reg, r') = store_bindings inventory r0"
    and p: "published g (map fst admitted) (map snd admitted) policy r r0"
    by (rule replace_definitions_Inr)
  have reg: "reg = resolve_all inventory r0" and r': "r' = r0\<lparr>lr_bindings := lg_bindings reg\<rparr>"
    using s by (simp_all add: store_bindings_def Let_def)
  have r0: "lr_generation r0 = g" "lr_fallback_policy r0 = policy" "lr_permissions r0 = lr_permissions r"
    using p by (auto simp: published_def split: if_split_asm)
  have bs: "lg_generation reg = g"
    "lg_bindings reg = map (resolve_binding inventory policy (lr_permissions r)) (lr_definitions r0)"
    by (simp_all add: reg r0 resolve_all_def resolve_with_policy_def)
  have ids: "map binding_voice_id (lg_bindings reg) = map lv_id (lr_definitions r0)"
    by (simp add: bs o_def binding_id)
  have "list_all2 (\<lambda>d b. case b of
             Resolved v \<Rightarrow> resolve_voice_with_permissions inventory d policy None (lr_permissions r) = Inr v
           | Unresolved e \<Rightarrow>
               resolve_voice_with_permissions inventory d policy None (lr_permissions r) = Inl e)
           (lr_definitions r0) (lg_bindings reg)"
    by (auto simp: bs list.rel_map resolve_binding_def split: sum.split intro: list.rel_refl_strong)
  with ids show ?thesis by (simp add: r' bs(1) r0)
qed

section \<open>The theorems at a concrete registration\<close>

abbreviation "sample_voice_registry \<equiv> with_engine_permissions default_permissions :: unit logical_voice_registry"

lemma sample_layered_accepted:
  "try_collect admit_definition [Layered sample_layered] =
     Inr [(Layered sample_layered, legacy_projection sample_layered)]"
  by (simp add: sample_layered_valid)

lemma sample_projection_valid:
  "validate_registration [legacy_projection sample_layered] empty_policy = Inr ()"
  using sample_layered_valid by (auto simp: validate_layered_def and_then_Inr map_err_Inr split: if_split_asm)

end
