(* ===== verification/Routing_Snapshot.thy ===== *)
theory Routing_Snapshot
  imports Engine_Registry Logical_Voices
begin

text \<open>
  The batch-local routing snapshot of \<open>omnivox-cli/src/routing.rs\<close>: the definitions, policy and
  inventory captured for one dispatched batch, the resolution of a logical voice to a route over
  them, and the local record of a runtime failure with the reroute that follows it. The error
  texts the source formats are the constructors of \<open>route_error\<close>; native parameter catalogues
  are opaque.
\<close>

section \<open>State\<close>

definition implicit_legacy_voice_id :: rstr where
  "implicit_legacy_voice_id = lit ''__omnivox_internal_legacy__''"

record ('n, 'c) routing_snapshot =
  rsn_definitions :: "logical_voice_definition list"
  rsn_registry_generation :: nat
  rsn_layered_definitions :: "layered_voice_definition list"
  rsn_engine_definitions :: "'n engine_layered_voice_definition list"
  rsn_parameter_catalogues :: "'c list"
  rsn_preview_choice_index :: "nat option"
  rsn_fallback_policy :: fallback_policy
  rsn_inventory :: "engine_descriptor list"
  rsn_disabled_engine_ids :: "rstr list"
  rsn_engine_permissions :: engine_selection_permissions

datatype route_error =
  NoDefinition rstr
| UnresolvedVoice voice_resolution_error
| PolicySubstitute
| MissingEngine rstr rstr
| MissingInventory rstr
| IncompatibleText route_error rstr rchar nat
| NativeRoutingRequired
| NoNativeDefinition

record 'e logical_route =
  ro_resolution :: voice_resolution
  ro_logical_voice_id :: rstr
  ro_reported_logical_voice_id :: "rstr option"
  ro_engine :: "'e handle"
  ro_realized :: physical_voice_id
  ro_acss :: acss_application
  ro_effects :: post_synthesis_application

datatype 'e runtime_reroute =
  Retry "'e logical_route"
| NotRetryable
| ResolvedToFailedTarget rstr
| RerouteFailed route_error

section \<open>Capture\<close>

definition engine_definitions ::
    "'n logical_voice_registry \<Rightarrow> 'n engine_layered_voice_definition list" where
  "engine_definitions r =
     List.map_filter (\<lambda>d. case d of EngineLayered v \<Rightarrow> Some v | _ \<Rightarrow> None) (lr_registered r)"

definition layered_definitions :: "'n logical_voice_registry \<Rightarrow> layered_voice_definition list" where
  "layered_definitions r =
     List.map_filter (\<lambda>d. case d of Layered v \<Rightarrow> Some v | _ \<Rightarrow> None) (lr_registered r)"

definition capture_with_policy ::
    "'n logical_voice_registry \<Rightarrow> ('e, 'f) engine_registry \<Rightarrow> routing_policy_registry \<Rightarrow>
     ('n, 'c) routing_snapshot" where
  "capture_with_policy voices engines policy =
     \<lparr>rsn_definitions = lr_definitions voices, rsn_registry_generation = lr_generation voices,
      rsn_layered_definitions = layered_definitions voices,
      rsn_engine_definitions = engine_definitions voices,
      rsn_parameter_catalogues = [], rsn_preview_choice_index = None,
      rsn_fallback_policy = effective_fallback_policy policy (lr_fallback_policy voices),
      rsn_inventory = project_disabled policy (snd (snapshot_registry engines)),
      rsn_disabled_engine_ids = disabled_engine_ids (rp_policy policy),
      rsn_engine_permissions = er_permissions engines\<rparr>"

definition capture_preview ::
    "'n logical_voice_registry \<Rightarrow> ('e, 'f) engine_registry \<Rightarrow> routing_policy_registry \<Rightarrow>
     ('n, 'c) routing_snapshot" where
  "capture_preview voices engines policy =
     (capture_with_policy voices engines policy)\<lparr>rsn_fallback_policy := lr_fallback_policy voices\<rparr>"

definition disabled_descriptor :: "engine_descriptor \<Rightarrow> engine_descriptor" where
  "disabled_descriptor d =
     d\<lparr>ed_availability := Unavailable (lit ''disabled by runtime routing policy'')\<rparr>"

definition replace_inventory ::
    "engine_descriptor list \<Rightarrow> ('n, 'c) routing_snapshot \<Rightarrow> ('n, 'c) routing_snapshot" where
  "replace_inventory inventory s =
     s\<lparr>rsn_inventory :=
       map (\<lambda>d. if ed_id d \<in> set (rsn_disabled_engine_ids s) then disabled_descriptor d else d)
         inventory\<rparr>"

definition capture_voice_preview ::
    "'n logical_voice_registry \<Rightarrow> ('e, 'f) engine_registry \<Rightarrow> rstr list \<Rightarrow>
     ('n, 'c) routing_snapshot" where
  "capture_voice_preview voices engines disabled =
     replace_inventory (snd (snapshot_registry engines))
       \<lparr>rsn_definitions = lr_definitions voices, rsn_registry_generation = lr_generation voices,
        rsn_layered_definitions = layered_definitions voices,
        rsn_engine_definitions = engine_definitions voices,
        rsn_parameter_catalogues = [], rsn_preview_choice_index = None,
        rsn_fallback_policy = lr_fallback_policy voices, rsn_inventory = [],
        rsn_disabled_engine_ids = disabled, rsn_engine_permissions = er_permissions engines\<rparr>"

definition with_parameter_catalogues ::
    "'c list \<Rightarrow> ('n, 'c) routing_snapshot \<Rightarrow> ('n, 'c) routing_snapshot" where
  "with_parameter_catalogues cs s = s\<lparr>rsn_parameter_catalogues := cs\<rparr>"

definition has_native_definition :: "('n, 'c) routing_snapshot \<Rightarrow> rstr \<Rightarrow> bool" where
  "has_native_definition s i \<longleftrightarrow> list_ex (\<lambda>v. el_id v = i) (rsn_engine_definitions s)"

definition has_layered_definition :: "('n, 'c) routing_snapshot \<Rightarrow> rstr \<Rightarrow> bool" where
  "has_layered_definition s i \<longleftrightarrow>
     list_ex (\<lambda>v. ld_id v = i) (rsn_layered_definitions s) \<or> has_native_definition s i"

definition restrict_preview_to_choice ::
    "nat \<Rightarrow> ('n, 'c) routing_snapshot \<Rightarrow> string + ('n, 'c) routing_snapshot" where
  "restrict_preview_to_choice index s =
     (case rsn_definitions s of
        [definition0] \<Rightarrow>
          and_then
            (case (rsn_layered_definitions s, rsn_engine_definitions s) of
               ([d], []) \<Rightarrow>
                 Inr (if index < length (ld_choices d)
                      then Some (vc_selector (ld_choices d ! index)) else None)
             | ([], [d]) \<Rightarrow>
                 Inr (if index < length (el_choices d)
                      then Some (evc_selector (el_choices d ! index)) else None)
             | _ \<Rightarrow> Inl ''individual preview requires one private layered draft'') (\<lambda>found.
          and_then (ok_or found ''preview choice index is absent from the draft'') (\<lambda>selector.
            Inr (s\<lparr>rsn_definitions := [definition0\<lparr>lv_preferences := [selector]\<rparr>],
                   rsn_preview_choice_index := Some index,
                   rsn_fallback_policy := empty_policy\<rparr>)))
      | _ \<Rightarrow> Inl ''individual preview requires one private layered draft'')"

section \<open>Resolution to a route\<close>

definition find_descriptor :: "engine_descriptor list \<Rightarrow> rstr \<Rightarrow> engine_descriptor option" where
  "find_descriptor inventory eid = find (\<lambda>d. ed_id d = eid) inventory"

definition route_from_resolution ::
    "voice_resolution \<Rightarrow> logical_voice_definition \<Rightarrow> engine_descriptor list \<Rightarrow>
     ('e, 'f) engine_registry \<Rightarrow> route_error + 'e logical_route" where
  "route_from_resolution resolution definition0 inventory engines =
     (let eid = pv_engine_id (vr_realized resolution); lid = vr_logical_voice_id resolution
      in and_then (ok_or (registry_engine engines eid) (MissingEngine lid eid)) (\<lambda>engine.
         and_then (ok_or (find_descriptor inventory eid) (MissingInventory lid)) (\<lambda>descriptor.
           Inr \<lparr>ro_resolution = resolution, ro_logical_voice_id = lid,
                ro_reported_logical_voice_id = Some lid, ro_engine = engine,
                ro_realized = vr_realized resolution,
                ro_acss = na_degrade_for (lv_acss definition0) (ec_acss (ed_capabilities descriptor)),
                ro_effects = ps_degrade_for (lv_effects definition0)
                  (ec_post_synthesis_dimensions (ed_capabilities descriptor))\<rparr>)))"

definition resolve_current_with_text ::
    "('n, 'c) routing_snapshot \<Rightarrow> rstr \<Rightarrow> rstr option \<Rightarrow> ('e, 'f) engine_registry \<Rightarrow>
     route_error + 'e logical_route" where
  "resolve_current_with_text s lid text0 engines =
     and_then (ok_or (find (\<lambda>d. lv_id d = lid) (rsn_definitions s)) (NoDefinition lid)) (\<lambda>definition0.
     and_then
       (map_err UnresolvedVoice
          (resolve_voice_with_permissions (rsn_inventory s) definition0 (rsn_fallback_policy s)
             text0 (rsn_engine_permissions s))) (\<lambda>resolution.
     and_then
       (case rsn_preview_choice_index s of
          None \<Rightarrow> Inr resolution
        | Some index \<Rightarrow>
            if vr_reason resolution \<noteq> Preferred then Inl PolicySubstitute
            else if 0 < index then Inr (resolution\<lparr>vr_reason := ExplicitAlternative index\<rparr>)
            else Inr resolution) (\<lambda>resolution.
       route_from_resolution resolution definition0 (rsn_inventory s) engines)))"

definition resolve_current ::
    "('n, 'c) routing_snapshot \<Rightarrow> rstr \<Rightarrow> ('e, 'f) engine_registry \<Rightarrow>
     route_error + 'e logical_route" where
  "resolve_current s lid engines = resolve_current_with_text s lid None engines"

definition initial_route ::
    "('n, 'c) routing_snapshot \<Rightarrow> rstr \<Rightarrow> ('e, 'f) engine_registry \<Rightarrow>
     route_error + 'e logical_route" where
  "initial_route s lid engines =
     (if has_native_definition s lid then Inl NativeRoutingRequired
      else resolve_current s lid engines)"

definition initial_native_route ::
    "('n, 'c) routing_snapshot \<Rightarrow> rstr \<Rightarrow> ('e, 'f) engine_registry \<Rightarrow>
     route_error + 'e logical_route" where
  "initial_native_route s lid engines =
     (if \<not> has_native_definition s lid then Inl NoNativeDefinition
      else resolve_current s lid engines)"

definition empty_effects :: post_synthesis_style where
  "empty_effects =
     \<lparr>ps_gain = None, ps_low_pass = None, ps_high_pass = None, ps_pan = None, ps_chorus = None,
      ps_reverb = None, ps_echo = None\<rparr>"

definition legacy_definition :: "physical_voice_id \<Rightarrow> logical_voice_definition" where
  "legacy_definition requested =
     \<lparr>lv_id = implicit_legacy_voice_id, lv_language = None, lv_preferences = [Exact requested],
      lv_acss = empty_acss, lv_effects = empty_effects\<rparr>"

definition initial_legacy_route ::
    "('n, 'c) routing_snapshot \<Rightarrow> physical_voice_id \<Rightarrow> ('e, 'f) engine_registry \<Rightarrow>
     (route_error + 'e logical_route) \<times> ('n, 'c) routing_snapshot" where
  "initial_legacy_route s requested engines =
     (let s' = s\<lparr>rsn_definitions :=
            filter (\<lambda>d. lv_id d \<noteq> implicit_legacy_voice_id) (rsn_definitions s) @
            [legacy_definition requested]\<rparr>
      in (and_then (resolve_current s' implicit_legacy_voice_id engines)
            (\<lambda>route. Inr (route\<lparr>ro_reported_logical_voice_id := None\<rparr>)), s'))"

definition requested_effects :: "('n, 'c) routing_snapshot \<Rightarrow> rstr \<Rightarrow> post_synthesis_style option" where
  "requested_effects s lid = map_option lv_effects (find (\<lambda>d. lv_id d = lid) (rsn_definitions s))"

text \<open>\<open>Iterator::find_map\<close>.\<close>

fun find_map :: "('a \<Rightarrow> 'b option) \<Rightarrow> 'a list \<Rightarrow> 'b option" where
  "find_map f [] = None"
| "find_map f (x # xs) = (case f x of None \<Rightarrow> find_map f xs | Some y \<Rightarrow> Some y)"

definition preferred_legacy_engine ::
    "('n, 'c) routing_snapshot \<Rightarrow> ('e, 'f) engine_registry \<Rightarrow> 'e handle \<Rightarrow> 'e handle" where
  "preferred_legacy_engine s engines default_engine =
     (case find_map
             (\<lambda>eid. Option.bind (find_descriptor (rsn_inventory s) eid)
                (\<lambda>d. if engine_can_synthesize d then registry_engine engines eid else None))
             (fp_preferred_engines (rsn_fallback_policy s) @ fp_fallback_engines (rsn_fallback_policy s)) of
        Some engine \<Rightarrow> engine
      | None \<Rightarrow> default_engine)"

definition legacy_voice_for_engine :: "engine_descriptor \<Rightarrow> rstr \<Rightarrow> rstr" where
  "legacy_voice_for_engine d requested =
     (let advertised =
            (case descriptor_voice d requested of
               Some v \<Rightarrow> if is_available (vd_availability v) then Some v else None
             | None \<Rightarrow> None);
          prefix = ed_id d @ lit '':'';
          available = filter (\<lambda>v. is_available (vd_availability v)) (ed_voices d);
          exact = find (\<lambda>v. pv_voice_id (vd_id v) = requested \<or>
                    strip_prefix prefix (pv_voice_id (vd_id v)) = Some requested \<or>
                    strip_prefix prefix requested = Some (pv_voice_id (vd_id v))) available;
          named = (case exact of
                     Some v \<Rightarrow> Some v
                   | None \<Rightarrow>
                       find (\<lambda>v. vd_display_name v = requested \<or>
                               (case vd_language v of
                                  None \<Rightarrow> False
                                | Some language \<Rightarrow> eq_ignore_ascii_case language requested))
                         available)
      in case advertised of
           Some v \<Rightarrow> pv_voice_id (vd_id v)
         | None \<Rightarrow>
             (case named of
                Some v \<Rightarrow> pv_voice_id (vd_id v)
              | None \<Rightarrow>
                  (case ed_default_voice_id d of
                     Some v \<Rightarrow> if v \<noteq> [] then v else requested
                   | None \<Rightarrow> requested)))"

section \<open>Text and failures\<close>

definition text_incompatibility ::
    "('n, 'c) routing_snapshot \<Rightarrow> 'e logical_route \<Rightarrow> rstr \<Rightarrow> (nat \<times> rchar) option" where
  "text_incompatibility s route t =
     Option.bind (find_descriptor (rsn_inventory s) (pv_engine_id (ro_realized route)))
       (\<lambda>d. first_unsupported (ec_text_repertoire (ed_capabilities d)) t)"

definition route_for_text ::
    "('n, 'c) routing_snapshot \<Rightarrow> 'e logical_route \<Rightarrow> rstr \<Rightarrow> ('e, 'f) engine_registry \<Rightarrow>
     route_error + 'e logical_route" where
  "route_for_text s route t engines =
     (let incompatibility = text_incompatibility s route t
      in and_then
           (map_err
              (\<lambda>e. case incompatibility of
                      Some (offset, c) \<Rightarrow>
                        IncompatibleText e (pv_engine_id (ro_realized route)) c offset
                    | None \<Rightarrow> e)
              (resolve_current_with_text s (ro_logical_voice_id route) (Some t) engines))
           (\<lambda>resolved.
              Inr (resolved\<lparr>ro_reported_logical_voice_id := ro_reported_logical_voice_id route\<rparr>)))"

text \<open>\<open>iter_mut().find(..)\<close> followed by a write: only the first match changes.\<close>

fun update_first :: "('a \<Rightarrow> bool) \<Rightarrow> ('a \<Rightarrow> 'a) \<Rightarrow> 'a list \<Rightarrow> 'a list" where
  "update_first P f [] = []"
| "update_first P f (x # xs) = (if P x then f x # xs else x # update_first P f xs)"

text \<open>\<open>push_one\<close> adds a combined voice as a row of its own when it has none yet.\<close>

definition fail_voice :: "physical_voice_id \<Rightarrow> rstr \<Rightarrow> engine_descriptor \<Rightarrow> bool \<times> engine_descriptor" where
  "fail_voice realized why d =
     (let d1 = push_one realized d
      in if list_ex (\<lambda>v. vd_id v = realized) (ed_voices d1)
         then (True, d1\<lparr>ed_voices :=
                 update_first (\<lambda>v. vd_id v = realized)
                   (\<lambda>v. v\<lparr>vd_availability := Unavailable why\<rparr>) (ed_voices d1)\<rparr>)
         else (False, d1))"

fun fail_engine ::
    "physical_voice_id \<Rightarrow> tts_error \<Rightarrow> engine_descriptor \<Rightarrow> bool \<times> engine_descriptor" where
  "fail_engine realized (TtsVoiceNotFound why) d = fail_voice realized why d"
| "fail_engine realized TtsNotAvailable d =
     (True, d\<lparr>ed_availability :=
        Unavailable (lit ''runtime synthesis reported engine unavailable'')\<rparr>)"
| "fail_engine realized (TtsSynthesisFailed why) d = (True, d\<lparr>ed_health := Failed why\<rparr>)"
| "fail_engine realized (TtsInvalidParameter why) d = (False, d)"

fun record_runtime_failure ::
    "engine_descriptor list \<Rightarrow> physical_voice_id \<Rightarrow> tts_error \<Rightarrow> bool \<times> engine_descriptor list" where
  "record_runtime_failure [] realized e = (False, [])"
| "record_runtime_failure (d # ds) realized e =
     (if ed_id d = pv_engine_id realized
      then (case fail_engine realized e d of (retryable, d') \<Rightarrow> (retryable, d' # ds))
      else (case record_runtime_failure ds realized e of (retryable, ds') \<Rightarrow> (retryable, d # ds')))"

definition reroute_after_failure ::
    "('n, 'c) routing_snapshot \<Rightarrow> 'e logical_route \<Rightarrow> tts_error \<Rightarrow> ('e, 'f) engine_registry \<Rightarrow>
     'e runtime_reroute \<times> ('n, 'c) routing_snapshot" where
  "reroute_after_failure s route e engines =
     (let (retryable, inventory) = record_runtime_failure (rsn_inventory s) (ro_realized route) e;
          s' = s\<lparr>rsn_inventory := inventory\<rparr>
      in (if \<not> retryable then NotRetryable
          else (case resolve_current s' (ro_logical_voice_id route) engines of
                  Inr retry \<Rightarrow>
                    if ro_realized retry \<noteq> ro_realized route
                    then Retry (retry\<lparr>ro_reported_logical_voice_id :=
                                        ro_reported_logical_voice_id route\<rparr>)
                    else ResolvedToFailedTarget (ro_logical_voice_id route)
                | Inl err \<Rightarrow> RerouteFailed err), s'))"

section \<open>What a recorded failure removes\<close>

lemma update_first_map:
  assumes "distinct (map f xs)" "\<And>x. P x \<longleftrightarrow> f x = k"
  shows "update_first P g xs = map (\<lambda>x. if P x then g x else x) xs"
  using assms(1)
proof (induction xs)
  case (Cons x xs)
  show ?case
  proof (cases "P x")
    case True
    with Cons.prems assms(2) have "\<forall>y \<in> set xs. \<not> P y" by (metis list.simps(9) distinct.simps(2) imageI set_map)
    then have "map (\<lambda>x. if P x then g x else x) xs = xs" by (simp add: map_idI)
    with True show ?thesis by simp
  qed (use Cons in simp)
qed simp

lemma rows_distinct_ids: "rows_ok d \<Longrightarrow> distinct (map vd_id (ed_voices d))"
  by (auto simp: rows_ok_def voice_keys_def distinct_map inj_on_def)

lemma rows_key_find:
  assumes "rows_ok d" "v \<in> set (ed_voices d)"
  shows "find (\<lambda>w. pv_voice_id (vd_id w) = pv_voice_id (vd_id v)) (ed_voices d) = Some v"
  using find_unique [of "pv_voice_id \<circ> vd_id" "ed_voices d" v] assms
  by (simp add: rows_ok_def voice_keys_def)

text \<open>The rows of a descriptor whose voice \<open>realized\<close> was recorded as failed.\<close>

lemma fail_voice_rows:
  assumes "rows_ok d" "pv_engine_id realized = ed_id d" "fail_voice realized why d = (True, d')"
  obtains rows where "ed_voices d' = map (\<lambda>v. if vd_id v = realized
                         then v\<lparr>vd_availability := Unavailable why\<rparr> else v) rows"
    "set (ed_voices d) \<subseteq> set rows" "\<forall>v \<in> set rows. v \<in> set (ed_voices d) \<or> vd_id v = realized"
    "realized \<in> vd_id ` set rows" "rows_ok d'"
    "d' = d\<lparr>ed_voices := ed_voices d'\<rparr>"
proof (rule that)
  let ?d1 = "push_one realized d"
  let ?f = "\<lambda>v. if vd_id v = realized then v\<lparr>vd_availability := Unavailable why\<rparr> else v"
  have r1: "rows_ok ?d1" by (rule push_one_rows [OF assms(1,2)])
  have hit: "list_ex (\<lambda>v. vd_id v = realized) (ed_voices ?d1)"
    and d': "d' = ?d1\<lparr>ed_voices := update_first (\<lambda>v. vd_id v = realized)
        (\<lambda>v. v\<lparr>vd_availability := Unavailable why\<rparr>) (ed_voices ?d1)\<rparr>"
    using assms(3) by (auto simp: fail_voice_def Let_def split: if_splits)
  show v: "ed_voices d' = map ?f (ed_voices ?d1)"
    unfolding d' using update_first_map [OF rows_distinct_ids [OF r1]] by simp
  show "set (ed_voices d) \<subseteq> set (ed_voices ?d1)" by (rule push_one_fields)
  show "\<forall>v \<in> set (ed_voices ?d1). v \<in> set (ed_voices d) \<or> vd_id v = realized"
    by (rule push_one_cases [OF assms(1,2)]) auto
  show "realized \<in> vd_id ` set (ed_voices ?d1)" using hit by (auto simp: list_ex_iff)
  show "d' = d\<lparr>ed_voices := ed_voices d'\<rparr>"
    unfolding d' by (rule push_one_cases [OF assms(1,2)]) simp_all
  have "map (pv_voice_id \<circ> vd_id) (map ?f (ed_voices ?d1)) =
      map (pv_voice_id \<circ> vd_id) (ed_voices ?d1)"
    by simp
  moreover have "ed_id d' = ed_id ?d1" unfolding d' by simp
  ultimately show "rows_ok d'"
    using r1 v by (auto simp: rows_ok_def voice_keys_def list_all_iff simp del: map_map)
qed

lemma fail_voice_offers:
  assumes "rows_ok d" "pv_engine_id realized = ed_id d" "fail_voice realized why d = (True, d')"
    and offers: "engine_offers d' w"
  shows "engine_offers d w \<and> w \<noteq> realized"
proof -
  obtain rows where rows: "ed_voices d' = map (\<lambda>v. if vd_id v = realized
                         then v\<lparr>vd_availability := Unavailable why\<rparr> else v) rows"
    "set (ed_voices d) \<subseteq> set rows" "\<forall>v \<in> set rows. v \<in> set (ed_voices d) \<or> vd_id v = realized"
    "realized \<in> vd_id ` set rows" "rows_ok d'" and d': "d' = d\<lparr>ed_voices := ed_voices d'\<rparr>"
    by (rule fail_voice_rows [OF assms(1-3)])
  have avail: "v \<in> set (ed_voices d) \<and> vd_id v \<noteq> realized"
    if "v \<in> set (ed_voices d')" "is_available (vd_availability v)" for v
    using that rows(1,3) by (auto split: if_splits)
  have ids: "vd_id ` set (ed_voices d') = vd_id ` set rows"
    unfolding rows(1) set_map image_image by (intro image_cong) auto
  obtain row where row: "vd_id row = w" "is_available (vd_availability row)"
    "row \<in> set (ed_voices d') \<or> descriptor_voice d' (pv_voice_id w) = Some row"
    using offers by (auto simp: engine_offers_def)
  show ?thesis
  proof (cases "row \<in> set (ed_voices d')")
    case True
    with avail row show ?thesis by (auto simp: engine_offers_def)
  next
    case False
    with row have dv: "descriptor_voice d' (pv_voice_id w) = Some row" by blast
    then have comb: "combined_voice d' (pv_voice_id w) = Some row"
      and none: "find (\<lambda>v. pv_voice_id (vd_id v) = pv_voice_id w) (ed_voices d') = None"
      using False by (auto elim: descriptor_voice_cases)
    have "pv_voice_id w \<notin> (\<lambda>v. pv_voice_id (vd_id v)) ` set (ed_voices d')"
      using none unfolding find_None_map .
    then have w: "pv_voice_id w \<notin> pv_voice_id ` vd_id ` set rows"
      unfolding ids [symmetric] image_image .
    then have "w \<noteq> realized" using rows(4) by auto
    obtain base suffix variant rowb where b: "ed_id d' = lit ''espeak''"
      "valid_espeak_combination (pv_voice_id w)" "split_once 43 (pv_voice_id w) = Some (base, suffix)"
      "find (\<lambda>ev. ev_id ev = suffix) (ed_espeak_variants d') = Some variant"
      "find (\<lambda>v. pv_voice_id (vd_id v) = base) (ed_voices d') = Some rowb"
      "row = rowb\<lparr>vd_id := PhysicalVoiceId (pv_engine_id (vd_id rowb)) (pv_voice_id w),
                vd_display_name := vd_display_name rowb @ lit '' + '' @ ev_display_name variant,
                vd_gender := None\<rparr>"
      using comb unfolding combined_voice_Some by blast
    have "rowb \<in> set (ed_voices d)" "pv_voice_id (vd_id rowb) = base"
      using avail [of rowb] find_id_Some [OF b(5)] b(6) row(2) by auto
    then have "find (\<lambda>v. pv_voice_id (vd_id v) = base) (ed_voices d) = Some rowb"
      using rows_key_find [OF assms(1)] by metis
    moreover have "ed_id d = ed_id d'" "ed_espeak_variants d = ed_espeak_variants d'"
      by (subst d', simp)+
    ultimately have "combined_voice d (pv_voice_id w) = Some row"
      unfolding combined_voice_Some using b by metis
    moreover have "find (\<lambda>v. pv_voice_id (vd_id v) = pv_voice_id w) (ed_voices d) = None"
      unfolding find_None_map using w rows(2) by (auto simp: image_image)
    ultimately have "descriptor_voice d (pv_voice_id w) = Some row"
      by (simp add: descriptor_voice_def)
    with row \<open>w \<noteq> realized\<close> show ?thesis by (auto simp: engine_offers_def)
  qed
qed

definition inventory_ok :: "engine_descriptor list \<Rightarrow> bool" where
  "inventory_ok inventory \<longleftrightarrow>
     distinct (map ed_id inventory) \<and> (\<forall>d \<in> set inventory. rows_ok d)"

lemma offers_engine:
  assumes "rows_ok d" "engine_offers d w"
  shows "pv_engine_id w = ed_id d"
proof -
  have rows: "list_all (\<lambda>v. pv_engine_id (vd_id v) = ed_id d) (ed_voices d)"
    using assms(1) by (simp add: rows_ok_def)
  obtain row where "vd_id row = w"
    "row \<in> set (ed_voices d) \<or> descriptor_voice d (pv_voice_id w) = Some row"
    using assms(2) by (auto simp: engine_offers_def)
  then show ?thesis
  proof (elim disjE)
    assume "row \<in> set (ed_voices d)"
    with rows \<open>vd_id row = w\<close> show ?thesis by (auto simp: list_all_iff)
  next
    assume "descriptor_voice d (pv_voice_id w) = Some row"
    from descriptor_voice_engine [OF rows this] \<open>vd_id row = w\<close> show ?thesis
      by (metis physical_voice_id.sel(1))
  qed
qed

text \<open>A retryable failure removes the failed voice and makes no other voice usable.\<close>

lemma fail_engine_usable:
  assumes "rows_ok d" "pv_engine_id realized = ed_id d" "fail_engine realized e d = (True, d')"
  shows "ed_id d' = ed_id d \<and> rows_ok d' \<and>
    (engine_usable t p d' \<and> engine_offers d' w \<longrightarrow>
       engine_usable t p d \<and> engine_offers d w \<and> w \<noteq> realized)"
proof (cases e)
  case (TtsVoiceNotFound why)
  with assms(3) have f: "fail_voice realized why d = (True, d')" by simp
  obtain rows where "rows_ok d'" and d': "d' = d\<lparr>ed_voices := ed_voices d'\<rparr>"
    by (rule fail_voice_rows [OF assms(1,2) f])
  moreover have "ed_id d' = ed_id d" "engine_usable t p d' = engine_usable t p d"
    by (subst d', simp add: engine_usable_def engine_can_synthesize_def)+
  ultimately show ?thesis using fail_voice_offers [OF assms(1,2) f] by blast
next
  case (TtsSynthesisFailed why)
  with assms show ?thesis
    by (auto simp: rows_ok_def voice_keys_def engine_usable_def engine_can_synthesize_def)
next
  case TtsNotAvailable
  with assms show ?thesis
    by (auto simp: rows_ok_def voice_keys_def engine_usable_def engine_can_synthesize_def)
qed (use assms in simp)

lemma record_failure_inventory:
  assumes "inventory_ok inventory" "record_runtime_failure inventory realized e = (True, inventory')"
  shows "inventory_ok inventory' \<and> map ed_id inventory' = map ed_id inventory \<and>
    (voice_usable inventory' t p w \<longrightarrow> voice_usable inventory t p w \<and> w \<noteq> realized)"
  using assms
proof (induction inventory arbitrary: inventory')
  case (Cons d ds)
  show ?case
  proof (cases "ed_id d = pv_engine_id realized")
    case True
    with Cons.prems obtain d' where d': "fail_engine realized e d = (True, d')" "inventory' = d' # ds"
      by (auto split: prod.splits)
    have rows: "rows_ok d" "\<forall>x \<in> set ds. rows_ok x \<and> ed_id x \<noteq> pv_engine_id realized"
      using Cons.prems(1) True by (auto simp: inventory_ok_def) (metis imageI)
    note f = fail_engine_usable [OF rows(1) True [symmetric] d'(1), of t p w]
    have "w \<noteq> realized" if "x \<in> set ds" "engine_offers x w" for x
      using that rows(2) offers_engine by metis
    with f d'(2) Cons.prems(1) show ?thesis by (auto simp: inventory_ok_def voice_usable_def)
  next
    case False
    with Cons.prems obtain ds' where ds': "record_runtime_failure ds realized e = (True, ds')"
      "inventory' = d # ds'"
      by (auto split: prod.splits)
    have ok: "inventory_ok ds" "rows_ok d" using Cons.prems(1) by (auto simp: inventory_ok_def)
    note IH = Cons.IH [OF ok(1) ds'(1)]
    then have "set (map ed_id ds') = set (map ed_id ds)" by metis
    then have "inventory_ok inventory'"
      using IH ds'(2) Cons.prems(1) by (auto simp: inventory_ok_def)
    moreover have "w \<noteq> realized" if "engine_offers d w"
      using that False offers_engine [OF ok(2)] by metis
    ultimately show ?thesis using IH ds'(2) by (auto simp: voice_usable_def)
  qed
qed simp

section \<open>What a route promises\<close>

lemma resolve_current_with_text_Inr:
  assumes "resolve_current_with_text s lid t engines = Inr route"
  shows "voice_usable (rsn_inventory s) t (rsn_engine_permissions s) (ro_realized route) \<and>
    ro_logical_voice_id route = lid \<and>
    registry_engine engines (pv_engine_id (ro_realized route)) = Some (ro_engine route)"
proof -
  obtain def0 res where r: "find (\<lambda>d. lv_id d = lid) (rsn_definitions s) = Some def0"
    "resolve_voice_with_permissions (rsn_inventory s) def0 (rsn_fallback_policy s) t
       (rsn_engine_permissions s) = Inr res"
    "vr_realized res = ro_realized route" "ro_logical_voice_id route = vr_logical_voice_id res"
    "registry_engine engines (pv_engine_id (vr_realized res)) = Some (ro_engine route)"
    using assms
    by (auto simp: resolve_current_with_text_def route_from_resolution_def Let_def res_simps
        split: option.splits if_splits)
  have "voice_usable (rsn_inventory s) t (rsn_engine_permissions s) (vr_realized res)"
    using resolve_usable [OF r(2)] by blast
  moreover have "lid = vr_logical_voice_id res"
    using find_id_Some [OF r(1)] resolve_usable [OF r(2)] by simp
  ultimately show ?thesis using r by simp
qed

end
