(* ===== verification/Engine_Health.thy ===== *)
theory Engine_Health
  imports Interfaces Contracts
begin

text \<open>
  The runtime circuit breaker of \<open>omnivox-cli/src/health.rs\<close>. Instants and durations are
  natural numbers of nanoseconds; every operation that reads the clock takes the instant as an
  argument, as the \<open>_at\<close> functions of the source do. The mutex makes each operation atomic,
  so a run is a list of operations.
\<close>

section \<open>State and operations\<close>

definition seconds :: "nat \<Rightarrow> nat" where "seconds n = n * 1000000000"

datatype engine_permit = NormalPermit | RecoveryProbe

datatype engine_access = Permit engine_permit | Denied rstr

datatype circuit_state =
  Open (failures: nat) (reason: rstr) (retry_at: nat)
| Ready (failures: nat) (reason: rstr)
| Probing (failures: nat) (reason: rstr)

record runtime_health =
  generation :: nat
  circuits :: "rstr \<Rightarrow> circuit_state option"

definition new_health :: runtime_health where
  "new_health = \<lparr>generation = 0, circuits = (\<lambda>e. None)\<rparr>"

definition advance_generation :: "runtime_health \<Rightarrow> runtime_health" where
  "advance_generation h = h\<lparr>generation := u64_saturating_add (generation h) 1\<rparr>"

definition insert_circuit :: "rstr \<Rightarrow> circuit_state \<Rightarrow> runtime_health \<Rightarrow> runtime_health" where
  "insert_circuit e c h = h\<lparr>circuits := (circuits h)(e := Some c)\<rparr>"

definition remove_circuit :: "rstr \<Rightarrow> runtime_health \<Rightarrow> runtime_health" where
  "remove_circuit e h = h\<lparr>circuits := (circuits h)(e := None)\<rparr>"

definition cooldown_for :: "nat \<Rightarrow> nat" where
  "cooldown_for n =
     (if n \<le> 1 then seconds 5 else if n = 2 then seconds 15 else if n = 3 then seconds 30
      else seconds 60)"

definition promote_ready :: "rstr \<Rightarrow> nat \<Rightarrow> runtime_health \<Rightarrow> runtime_health" where
  "promote_ready e now h =
     (case circuits h e of
        Some (Open n r t) \<Rightarrow>
          if t \<le> now then advance_generation (insert_circuit e (Ready n r) (remove_circuit e h))
          else h
      | _ \<Rightarrow> h)"

definition failure_text :: "rstr \<Rightarrow> string \<Rightarrow> rstr" where
  "failure_text r suffix = lit ''runtime failure: '' @ r @ lit suffix"

fun projected_health :: "circuit_state \<Rightarrow> engine_health" where
  "projected_health (Open n r t) = Failed (failure_text r ''; recovery probe pending'')"
| "projected_health (Ready n r) = Degraded (failure_text r ''; recovery probe ready'')"
| "projected_health (Probing n r) = Failed (failure_text r ''; recovery probe in progress'')"

text \<open>The \<open>Ready\<close> branch is the source's \<open>unreachable!\<close>.\<close>

fun denial_reason :: "circuit_state \<Rightarrow> rstr option" where
  "denial_reason (Open n r t) = Some (failure_text r ''; recovery probe pending'')"
| "denial_reason (Probing n r) = Some (failure_text r ''; recovery probe in progress'')"
| "denial_reason (Ready n r) = None"

definition denied_access :: "circuit_state \<Rightarrow> engine_access" where
  "denied_access c = (case denial_reason c of Some r \<Rightarrow> Denied r | None \<Rightarrow> Denied [])"

definition acquire_at :: "rstr \<Rightarrow> nat \<Rightarrow> runtime_health \<Rightarrow> engine_access \<times> runtime_health" where
  "acquire_at e now h0 =
     (let h = promote_ready e now h0; removed = remove_circuit e h
      in case circuits h e of
           None \<Rightarrow> (Permit NormalPermit, removed)
         | Some (Ready n r) \<Rightarrow>
             (Permit RecoveryProbe, advance_generation (insert_circuit e (Probing n r) removed))
         | Some c \<Rightarrow> (denied_access c, insert_circuit e c removed))"

definition record_failure_at ::
    "rstr \<Rightarrow> rstr \<Rightarrow> nat \<Rightarrow> runtime_health \<Rightarrow> nat \<times> runtime_health" where
  "record_failure_at e r now h =
     (let previous = (case circuits h e of Some c \<Rightarrow> failures c | None \<Rightarrow> 0);
          n = u32_saturating_add previous 1;
          cooldown = cooldown_for n
      in (cooldown,
          advance_generation (insert_circuit e (Open n r (now + cooldown)) (remove_circuit e h))))"

definition record_success :: "rstr \<Rightarrow> engine_permit \<Rightarrow> runtime_health \<Rightarrow> runtime_health" where
  "record_success e permit h =
     (if permit \<noteq> RecoveryProbe then h
      else case circuits h e of
             Some (Probing n r) \<Rightarrow> advance_generation (remove_circuit e h)
           | _ \<Rightarrow> h)"

text \<open>
  \<open>let Some(Probing ..) = circuits.remove(..) else { return }\<close>: the removal happens before the
  pattern is tested.
\<close>

definition release_probe :: "rstr \<Rightarrow> runtime_health \<Rightarrow> runtime_health" where
  "release_probe e h =
     (case circuits h e of
        Some (Probing n r) \<Rightarrow> advance_generation (insert_circuit e (Ready n r) (remove_circuit e h))
      | _ \<Rightarrow> remove_circuit e h)"

datatype probe_error = NoFailureToRecover rstr | ProbeInProgress rstr

definition request_probe :: "rstr \<Rightarrow> runtime_health \<Rightarrow> (probe_error + unit) \<times> runtime_health" where
  "request_probe e h =
     (let removed = remove_circuit e h
      in case circuits h e of
           None \<Rightarrow> (Inl (NoFailureToRecover e), removed)
         | Some (Probing n r) \<Rightarrow> (Inl (ProbeInProgress e), insert_circuit e (Probing n r) removed)
         | Some c \<Rightarrow>
             (Inr (), advance_generation (insert_circuit e (Ready (failures c) (reason c)) removed)))"

record inventory_snapshot =
  is_generation :: nat
  is_engines :: "engine_descriptor list"

fun project_inventory ::
    "nat \<Rightarrow> engine_descriptor list \<Rightarrow> runtime_health \<Rightarrow> engine_descriptor list \<times> runtime_health" where
  "project_inventory now [] h = ([], h)"
| "project_inventory now (d # ds) h =
     (let h1 = promote_ready (ed_id d) now h;
          d' = (case circuits h1 (ed_id d) of
                  Some c \<Rightarrow> d\<lparr>ed_health := projected_health c\<rparr> | None \<Rightarrow> d);
          (ds', h2) = project_inventory now ds h1
      in (d' # ds', h2))"

definition snapshot_at ::
    "nat \<Rightarrow> engine_descriptor list \<Rightarrow> nat \<Rightarrow> runtime_health \<Rightarrow> inventory_snapshot \<times> runtime_health" where
  "snapshot_at base inventory now h =
     (let (engines, h') = project_inventory now inventory h
      in (\<lparr>is_generation = u64_saturating_add base (generation h'), is_engines = engines\<rparr>, h'))"

datatype engine_circuit_status = StatusClosed | StatusCooldown | StatusReady | StatusProbing

record engine_runtime_status =
  rs_engine_id :: rstr
  rs_circuit :: engine_circuit_status
  rs_last_failure :: "rstr option"
  rs_cooldown_remaining_ms :: "nat option"
  rs_disabled_by_policy :: bool

definition circuit_status ::
    "nat \<Rightarrow> circuit_state option \<Rightarrow> engine_circuit_status \<times> rstr option \<times> nat option" where
  "circuit_status now c =
     (case c of
        None \<Rightarrow> (StatusClosed, None, None)
      | Some (Open n r t) \<Rightarrow>
          (StatusCooldown, Some r, Some (min u64_max (saturating_sub t now div 1000000)))
      | Some (Ready n r) \<Rightarrow> (StatusReady, Some r, Some 0)
      | Some (Probing n r) \<Rightarrow> (StatusProbing, Some r, None))"

fun statuses_at ::
    "engine_descriptor list \<Rightarrow> rstr list \<Rightarrow> nat \<Rightarrow> runtime_health \<Rightarrow>
     engine_runtime_status list \<times> runtime_health" where
  "statuses_at [] disabled now h = ([], h)"
| "statuses_at (d # ds) disabled now h =
     (let h1 = promote_ready (ed_id d) now h;
          (circuit, last, remaining) = circuit_status now (circuits h1 (ed_id d));
          (rest, h2) = statuses_at ds disabled now h1
      in (\<lparr>rs_engine_id = ed_id d, rs_circuit = circuit, rs_last_failure = last,
           rs_cooldown_remaining_ms = remaining,
           rs_disabled_by_policy = (ed_id d \<in> set disabled)\<rparr> # rest, h2))"

datatype health_op =
  Acquire rstr nat
| RecordFailure rstr rstr nat
| RecordSuccess rstr engine_permit
| ReleaseProbe rstr
| RequestProbe rstr
| Snapshot nat "engine_descriptor list" nat
| Statuses "engine_descriptor list" "rstr list" nat

fun health_step :: "health_op \<Rightarrow> runtime_health \<Rightarrow> runtime_health" where
  "health_step (Acquire e now) h = snd (acquire_at e now h)"
| "health_step (RecordFailure e r now) h = snd (record_failure_at e r now h)"
| "health_step (RecordSuccess e p) h = record_success e p h"
| "health_step (ReleaseProbe e) h = release_probe e h"
| "health_step (RequestProbe e) h = snd (request_probe e h)"
| "health_step (Snapshot b invs now) h = snd (snapshot_at b invs now h)"
| "health_step (Statuses invs dis now) h = snd (statuses_at invs dis now h)"

section \<open>The life of one circuit\<close>

text \<open>
  What one operation may do to the circuit of one engine. \<open>Discard\<close> is the removal
  \<open>release_probe\<close> performs on a circuit that is not probing.
\<close>

inductive circuit_step :: "circuit_state option \<Rightarrow> circuit_state option \<Rightarrow> bool" where
  Stay: "circuit_step c c"
| Fail: "n = u32_saturating_add (case c of Some c' \<Rightarrow> failures c' | None \<Rightarrow> 0) 1 \<Longrightarrow>
         circuit_step c (Some (Open n r t))"
| Cool: "circuit_step (Some (Open n r t)) (Some (Ready n r))"
| Probe: "circuit_step (Some (Ready n r)) (Some (Probing n r))"
| CoolProbe: "circuit_step (Some (Open n r t)) (Some (Probing n r))"
| Succeed: "circuit_step (Some (Probing n r)) None"
| Release: "circuit_step (Some (Probing n r)) (Some (Ready n r))"
| Discard: "\<not> (\<exists>n r. c = Some (Probing n r)) \<Longrightarrow> circuit_step c None"

inductive_cases circuit_step_probingE: "circuit_step (Some (Probing n r)) c"
inductive_cases circuit_step_closedE: "circuit_step None c"

lemma circuit_step_closed: "circuit_step None c \<Longrightarrow> c = None \<or> (\<exists>r t. c = Some (Open 1 r t))"
  by (erule circuit_step_closedE) (auto simp: u32_saturating_add_def u32_max_def)

lemmas health_defs = advance_generation_def insert_circuit_def remove_circuit_def

lemma health_simps [simp]:
  "circuits (advance_generation h) = circuits h"
  "circuits (insert_circuit e c h) = (circuits h)(e := Some c)"
  "circuits (remove_circuit e h) = (circuits h)(e := None)"
  "generation (insert_circuit e c h) = generation h"
  "generation (remove_circuit e h) = generation h"
  "generation (advance_generation h) = u64_saturating_add (generation h) 1"
  by (simp_all add: health_defs)

text \<open>\<open>promoted now c\<close>: what \<open>promote_ready\<close> makes of a circuit.\<close>

fun promoted :: "nat \<Rightarrow> circuit_state option \<Rightarrow> circuit_state option" where
  "promoted now (Some (Open n r t)) = (if t \<le> now then Some (Ready n r) else Some (Open n r t))"
| "promoted now c = c"

lemma promote_ready_circuits:
  "circuits (promote_ready e now h) = (circuits h)(e := promoted now (circuits h e))"
  by (auto simp: promote_ready_def fun_eq_iff split: option.split circuit_state.split)

lemma promoted_idem [simp]: "promoted now (promoted now c) = promoted now c"
  by (cases "(now, c)" rule: promoted.cases) auto

lemma promoted_step: "circuit_step c (promoted now c)"
  by (cases "(now, c)" rule: promoted.cases) (auto intro: circuit_step.intros)

lemma project_inventory_circuits:
  "circuits (snd (project_inventory now invs h)) =
     (\<lambda>e. if e \<in> ed_id ` set invs then promoted now (circuits h e) else circuits h e)"
  by (induction invs arbitrary: h)
    (auto simp: fun_eq_iff split_def Let_def promote_ready_circuits)

lemma statuses_circuits:
  "circuits (snd (statuses_at invs dis now h)) =
     (\<lambda>e. if e \<in> ed_id ` set invs then promoted now (circuits h e) else circuits h e)"
  by (induction invs arbitrary: h)
    (auto simp: fun_eq_iff split_def Let_def promote_ready_circuits)

lemma snapshot_circuits:
  "circuits (snd (snapshot_at b invs now h)) =
     (\<lambda>e. if e \<in> ed_id ` set invs then promoted now (circuits h e) else circuits h e)"
  by (simp add: snapshot_at_def split_def Let_def project_inventory_circuits)

text \<open>The circuit an acquisition leaves, and what it answers.\<close>

fun acquired :: "circuit_state option \<Rightarrow> circuit_state option" where
  "acquired (Some (Ready n r)) = Some (Probing n r)"
| "acquired c = c"

fun access_of :: "circuit_state option \<Rightarrow> engine_access" where
  "access_of None = Permit NormalPermit"
| "access_of (Some (Ready n r)) = Permit RecoveryProbe"
| "access_of (Some c) = denied_access c"

lemma acquire_circuits:
  "circuits (snd (acquire_at e now h)) = (circuits h)(e := acquired (promoted now (circuits h e)))"
  by (cases "promoted now (circuits h e)" rule: acquired.cases)
    (auto simp: acquire_at_def Let_def promote_ready_circuits fun_eq_iff)

lemma acquire_access: "fst (acquire_at e now h) = access_of (promoted now (circuits h e))"
  by (cases "promoted now (circuits h e)" rule: acquired.cases)
    (auto simp: acquire_at_def Let_def promote_ready_circuits)

lemma acquired_step: "circuit_step c (acquired (promoted now c))"
  by (cases "(now, c)" rule: promoted.cases) (auto intro: circuit_step.intros)

section \<open>The breaker as independent circuits\<close>

text \<open>
  The specification: what an operation does to the circuit of engine \<open>e\<close>, given only that
  circuit.
\<close>

fun circuit_effect :: "rstr \<Rightarrow> health_op \<Rightarrow> circuit_state option \<Rightarrow> circuit_state option" where
  "circuit_effect e (Acquire e' now) c = (if e' = e then acquired (promoted now c) else c)"
| "circuit_effect e (RecordFailure e' r now) c =
     (if e' = e
      then let n = u32_saturating_add (case c of Some c' \<Rightarrow> failures c' | None \<Rightarrow> 0) 1
           in Some (Open n r (now + cooldown_for n))
      else c)"
| "circuit_effect e (RecordSuccess e' p) c =
     (if e' = e \<and> p = RecoveryProbe
      then (case c of Some (Probing n r) \<Rightarrow> None | _ \<Rightarrow> c) else c)"
| "circuit_effect e (ReleaseProbe e') c =
     (if e' = e then (case c of Some (Probing n r) \<Rightarrow> Some (Ready n r) | _ \<Rightarrow> None) else c)"
| "circuit_effect e (RequestProbe e') c =
     (if e' = e then (case c of Some (Open n r t) \<Rightarrow> Some (Ready n r) | _ \<Rightarrow> c) else c)"
| "circuit_effect e (Snapshot b ds now) c = (if e \<in> ed_id ` set ds then promoted now c else c)"
| "circuit_effect e (Statuses ds dis now) c = (if e \<in> ed_id ` set ds then promoted now c else c)"

lemma health_step_circuit: "circuits (health_step op h) e = circuit_effect e op (circuits h e)"
proof (cases op)
  case (RecordFailure e' r now)
  then show ?thesis by (simp add: record_failure_at_def Let_def)
next
  case (RecordSuccess e' p)
  then show ?thesis by (simp add: record_success_def split: option.split circuit_state.split)
next
  case (ReleaseProbe e')
  then show ?thesis by (simp add: release_probe_def split: option.split circuit_state.split)
next
  case (RequestProbe e')
  then show ?thesis
    by (simp add: request_probe_def Let_def split: option.split circuit_state.split)
qed (simp_all add: acquire_circuits snapshot_circuits statuses_circuits)

lemma health_run_circuit:
  "circuits (fold health_step ops h) e = fold (circuit_effect e) ops (circuits h e)"
  by (induction ops arbitrary: h) (simp_all add: health_step_circuit)

lemma circuit_effect_step: "circuit_step c (circuit_effect e op c)"
proof (cases op)
  case (RecordFailure e' r now)
  then show ?thesis by (auto simp: Let_def intro: Fail Stay)
next
  case (RecordSuccess e' p)
  then show ?thesis by (auto split: option.split circuit_state.split intro: circuit_step.intros)
next
  case (ReleaseProbe e')
  then show ?thesis by (auto split: option.split circuit_state.split intro: circuit_step.intros)
next
  case (RequestProbe e')
  then show ?thesis by (auto split: option.split circuit_state.split intro: circuit_step.intros)
qed (auto intro: acquired_step promoted_step Stay)

text \<open>
  C3: the shared breaker is a family of independent per-engine circuits: over any run, the
  circuit of an engine is what its own operations (and the inventory reads that name it) make
  of it, and every step it takes is one of the transitions fail, cool down, probe, succeed,
  release, or the discard of a released circuit that is not probing.
\<close>

theorem breaker_refines_circuits:
  "circuits (fold health_step ops h) e = fold (circuit_effect e) ops (circuits h e) \<and>
   circuit_step (circuits h e) (circuits (health_step op h) e)"
  by (simp add: health_run_circuit health_step_circuit circuit_effect_step)

section \<open>Probes and cooldowns\<close>

fun ends_probe :: "rstr \<Rightarrow> health_op \<Rightarrow> bool" where
  "ends_probe e (RecordFailure e' r now) = (e' = e)"
| "ends_probe e (RecordSuccess e' p) = (e' = e \<and> p = RecoveryProbe)"
| "ends_probe e (ReleaseProbe e') = (e' = e)"
| "ends_probe e op = False"

lemma probing_stays:
  "list_all (\<lambda>op. \<not> ends_probe e op) ops \<Longrightarrow>
   fold (circuit_effect e) ops (Some (Probing n r)) = Some (Probing n r)"
proof (induction ops)
  case (Cons op ops)
  then have "circuit_effect e op (Some (Probing n r)) = Some (Probing n r)"
    by (cases op) auto
  with Cons show ?case by simp
qed simp

text \<open>
  C4: a recovery probe is exclusive: from the moment an engine's probe permit is handed out
  until its outcome is recorded or it is released, whatever else happens (other engines,
  inventory reads, forced probe requests), every further request for the engine is denied and
  a forced probe is refused as already in progress.
\<close>

theorem probe_exclusive:
  assumes "fst (acquire_at e now h) = Permit RecoveryProbe"
    and "list_all (\<lambda>op. \<not> ends_probe e op) ops"
  shows "\<exists>r. fst (acquire_at e now' (fold health_step ops (snd (acquire_at e now h)))) = Denied r \<and>
           fst (request_probe e (fold health_step ops (snd (acquire_at e now h)))) =
             Inl (ProbeInProgress e)"
proof -
  from assms(1) obtain n r where "promoted now (circuits h e) = Some (Ready n r)"
    by (cases "promoted now (circuits h e)" rule: access_of.cases)
      (auto simp: acquire_access denied_access_def split: option.splits)
  then have "circuits (snd (acquire_at e now h)) e = Some (Probing n r)"
    by (simp add: acquire_circuits)
  with assms(2) have "circuits (fold health_step ops (snd (acquire_at e now h))) e = Some (Probing n r)"
    by (simp add: health_run_circuit probing_stays)
  then show ?thesis by (simp add: acquire_access denied_access_def request_probe_def Let_def)
qed

text \<open>Operations before the instant \<open>t\<close> that leave an open circuit of \<open>e\<close> open.\<close>

fun quiet_before :: "rstr \<Rightarrow> nat \<Rightarrow> health_op \<Rightarrow> bool" where
  "quiet_before e t (Acquire e' now) = (e' = e \<longrightarrow> now < t)"
| "quiet_before e t (RecordFailure e' r now) = (e' \<noteq> e)"
| "quiet_before e t (RecordSuccess e' p) = True"
| "quiet_before e t (ReleaseProbe e') = (e' \<noteq> e)"
| "quiet_before e t (RequestProbe e') = (e' \<noteq> e)"
| "quiet_before e t (Snapshot b ds now) = (now < t)"
| "quiet_before e t (Statuses ds dis now) = (now < t)"

lemma open_stays:
  "list_all (quiet_before e t) ops \<Longrightarrow>
   fold (circuit_effect e) ops (Some (Open n r t)) = Some (Open n r t)"
proof (induction ops)
  case (Cons op ops)
  then have "circuit_effect e op (Some (Open n r t)) = Some (Open n r t)"
    by (cases op) auto
  with Cons show ?case by simp
qed simp

text \<open>
  A recorded failure closes the engine for exactly its cooldown: at any instant before the
  end of the returned cooldown every request is denied, whatever other operations ran in
  between; the first request at or after that instant is given the recovery probe.
\<close>

theorem cooldown_gate:
  assumes "record_failure_at e r t h = (cooldown, h')"
    and "list_all (quiet_before e (t + cooldown)) ops"
  shows "if now < t + cooldown
         then fst (acquire_at e now (fold health_step ops h')) =
                Denied (failure_text r ''; recovery probe pending'')
         else fst (acquire_at e now (fold health_step ops h')) = Permit RecoveryProbe"
proof -
  from assms(1) obtain n where "circuits h' e = Some (Open n r (t + cooldown))"
    by (auto simp: record_failure_at_def Let_def)
  with assms(2) have "circuits (fold health_step ops h') e = Some (Open n r (t + cooldown))"
    by (simp add: health_run_circuit open_stays)
  then show ?thesis by (simp add: acquire_access denied_access_def)
qed

fun forgets_failures :: "rstr \<Rightarrow> health_op \<Rightarrow> bool" where
  "forgets_failures e (RecordSuccess e' p) = (e' = e \<and> p = RecoveryProbe)"
| "forgets_failures e (ReleaseProbe e') = (e' = e)"
| "forgets_failures e op = False"

fun is_failure_of :: "rstr \<Rightarrow> health_op \<Rightarrow> bool" where
  "is_failure_of e (RecordFailure e' r now) = (e' = e)"
| "is_failure_of e op = False"

definition failure_count :: "circuit_state option \<Rightarrow> nat" where
  "failure_count c = (case c of Some c' \<Rightarrow> failures c' | None \<Rightarrow> 0)"

lemma failure_count_simps [simp]:
  "failure_count None = 0" "failure_count (Some c) = failures c"
  by (simp_all add: failure_count_def)

lemma failure_count_fold: "(case c of Some c' \<Rightarrow> failures c' | None \<Rightarrow> 0) = failure_count c"
  by (simp add: failure_count_def)

lemma failure_count_promoted [simp]: "failure_count (promoted now c) = failure_count c"
  by (cases "(now, c)" rule: promoted.cases) (auto simp: failure_count_def)

lemma failure_count_acquired [simp]: "failure_count (acquired c) = failure_count c"
  by (cases c rule: acquired.cases) (auto simp: failure_count_def)

lemma failure_count_step:
  "\<not> forgets_failures e op \<Longrightarrow>
   failure_count (circuit_effect e op c) =
     (if is_failure_of e op then u32_saturating_add (failure_count c) 1 else failure_count c)"
  by (cases op) (auto simp: failure_count_fold Let_def split: option.split circuit_state.split)

lemma failure_count_run:
  "list_all (\<lambda>op. \<not> forgets_failures e op) ops \<Longrightarrow> failure_count c \<le> u32_max \<Longrightarrow>
   failure_count (fold (circuit_effect e) ops c) =
     min u32_max (failure_count c + length (filter (is_failure_of e) ops))"
proof (induction ops arbitrary: c)
  case (Cons op ops)
  then have step: "failure_count (circuit_effect e op c) =
     (if is_failure_of e op then u32_saturating_add (failure_count c) 1 else failure_count c)"
    by (simp add: failure_count_step)
  then have "failure_count (circuit_effect e op c) \<le> u32_max"
    using Cons.prems(2) by (simp add: u32_saturating_add_def)
  with Cons step show ?case by (auto simp: u32_saturating_add_def)
qed simp

text \<open>
  The cooldown escalates with the failures of the engine in a row: starting from a closed
  circuit, with no successful probe and no release in between, the failure after \<open>k\<close> earlier
  ones is given 5, 15, 30 and then always 60 seconds, whatever other operations are
  interleaved; forced probes and denied requests do not reset the count.
\<close>

theorem cooldown_escalates:
  assumes "circuits h e = None" and "list_all (\<lambda>op. \<not> forgets_failures e op) ops"
    and "k = length (filter (is_failure_of e) ops)"
  shows "fst (record_failure_at e r now (fold health_step ops h)) =
           (if k = 0 then seconds 5 else if k = 1 then seconds 15 else if k = 2 then seconds 30
            else seconds 60)"
proof -
  have "failure_count (circuits (fold health_step ops h) e) = min u32_max k"
    using failure_count_run [OF assms(2), of "circuits h e"] assms(1,3)
    by (simp add: health_run_circuit failure_count_def)
  then have "(case circuits (fold health_step ops h) e of Some c \<Rightarrow> failures c | None \<Rightarrow> 0) =
      min u32_max k"
    by (simp add: failure_count_def)
  then show ?thesis
    by (auto simp: record_failure_at_def Let_def cooldown_for_def u32_saturating_add_def
      u32_max_def)
qed

section \<open>Inventory snapshots\<close>

lemma project_inventory_engines:
  "fst (project_inventory now ds h) =
     map (\<lambda>d. case promoted now (circuits h (ed_id d)) of
                Some c \<Rightarrow> d\<lparr>ed_health := projected_health c\<rparr> | None \<Rightarrow> d) ds"
proof (induction ds arbitrary: h)
  case (Cons d ds)
  have "promoted now (circuits (promote_ready (ed_id d) now h) e) = promoted now (circuits h e)" for e
    by (simp add: promote_ready_circuits)
  with Cons show ?case by (simp add: split_def Let_def promote_ready_circuits)
qed simp

lemma access_health:
  "(\<exists>p. access_of (Some c) = Permit p) \<longleftrightarrow> health_can_synthesize (projected_health c)"
  by (cases c) (auto simp: denied_access_def)

text \<open>
  Routing from a snapshot agrees with the breaker: for an inventory whose engines were
  healthy when discovered, the snapshot shows an engine able to synthesize exactly when a
  request for it made at the same instant, after the snapshot, is permitted.
\<close>

theorem snapshot_agrees_with_access:
  assumes "d \<in> set inventory" and "health_can_synthesize (ed_health d)"
    and "snapshot_at base inventory now h = (snap, h')"
  shows "\<exists>d' \<in> set (is_engines snap). ed_id d' = ed_id d \<and>
           (health_can_synthesize (ed_health d') \<longleftrightarrow>
            (\<exists>p. fst (acquire_at (ed_id d) now h') = Permit p))"
proof -
  let ?c = "promoted now (circuits h (ed_id d))"
  let ?d' = "case ?c of Some c \<Rightarrow> d\<lparr>ed_health := projected_health c\<rparr> | None \<Rightarrow> d"
  have "is_engines snap = fst (project_inventory now inventory h)"
    "h' = snd (project_inventory now inventory h)"
    using assms(3) by (auto simp: snapshot_at_def split_def Let_def)
  then have "?d' \<in> set (is_engines snap)" "circuits h' (ed_id d) = ?c"
    using assms(1) by (auto simp: project_inventory_engines project_inventory_circuits)
  then show ?thesis
    using assms(2) by (intro bexI [of _ ?d'])
      (auto simp: acquire_access access_health simp del: access_of.simps(2,3) split: option.split)
qed

section \<open>The generation clock\<close>

text \<open>
  \<open>ticked h h'\<close>: the generation did not go back, and went up if a circuit changed (it may
  stop at the largest \<open>u64\<close>).
\<close>

definition ticked :: "runtime_health \<Rightarrow> runtime_health \<Rightarrow> bool" where
  "ticked h h' \<longleftrightarrow>
     min u64_max (generation h) \<le> generation h' \<and>
     (circuits h' = circuits h \<or> u64_saturating_add (generation h) 1 \<le> generation h')"

lemma ticked_refl: "ticked h h"
  by (simp add: ticked_def)

lemma ticked_trans: "ticked h1 h2 \<Longrightarrow> ticked h2 h3 \<Longrightarrow> ticked h1 h3"
  by (auto simp: ticked_def u64_saturating_add_def min_def split: if_splits)

lemma ticked_advance: "ticked h (advance_generation h')" if "generation h' = generation h"
  using that by (auto simp: ticked_def u64_saturating_add_def)

lemma ticked_same:
  "circuits h' = circuits h \<Longrightarrow> generation h' = generation h \<Longrightarrow> ticked h h'"
  by (simp add: ticked_def)

lemma ticked_promote: "ticked h (promote_ready e now h)"
  by (auto simp: promote_ready_def intro: ticked_refl ticked_advance
      split: option.split circuit_state.split)

lemma ticked_project: "ticked h (snd (project_inventory now ds h))"
  by (induction ds arbitrary: h)
    (auto simp: split_def Let_def intro: ticked_refl ticked_trans [OF ticked_promote])

lemma ticked_statuses: "ticked h (snd (statuses_at ds dis now h))"
  by (induction ds arbitrary: h)
    (auto simp: split_def Let_def intro: ticked_refl ticked_trans [OF ticked_promote])

lemma ticked_acquire: "ticked h (snd (acquire_at e now h))"
proof -
  let ?h = "promote_ready e now h"
  have "ticked ?h (snd (acquire_at e now h))"
    by (auto simp: acquire_at_def Let_def fun_eq_iff intro!: ticked_advance ticked_same
        split: option.split circuit_state.split)
  then show ?thesis by (rule ticked_trans [OF ticked_promote])
qed

fun discards_circuit :: "health_op \<Rightarrow> runtime_health \<Rightarrow> bool" where
  "discards_circuit (ReleaseProbe e) h =
     (case circuits h e of Some (Probing n r) \<Rightarrow> False | None \<Rightarrow> False | _ \<Rightarrow> True)"
| "discards_circuit op h = False"

lemma release_probe_eq:
  "release_probe e h =
     (case circuits h e of
        Some (Probing n r) \<Rightarrow> advance_generation (insert_circuit e (Ready n r) (remove_circuit e h))
      | Some c \<Rightarrow> remove_circuit e h
      | None \<Rightarrow> h)"
  by (auto simp: release_probe_def remove_circuit_def fun_upd_idem
      split: option.split circuit_state.split)

lemma ticked_step: "\<not> discards_circuit op h \<Longrightarrow> ticked h (health_step op h)"
proof (cases op)
  case (RecordFailure e r now)
  then show ?thesis by (simp add: record_failure_at_def Let_def ticked_advance)
next
  case (RecordSuccess e p)
  then show ?thesis
    by (auto simp: record_success_def intro: ticked_refl ticked_advance
        split: option.split circuit_state.split)
next
  case (ReleaseProbe e)
  then show "\<not> discards_circuit op h \<Longrightarrow> ?thesis"
    by (auto simp: release_probe_eq intro: ticked_refl ticked_advance
        split: option.splits circuit_state.splits)
next
  case (RequestProbe e)
  then show ?thesis
    by (auto simp: request_probe_def Let_def fun_eq_iff intro!: ticked_advance ticked_same
        split: option.split circuit_state.split)
qed (simp_all add: ticked_acquire snapshot_at_def split_def Let_def ticked_project ticked_statuses)

lemma generation_step: "min u64_max (generation h) \<le> min u64_max (generation (health_step op h))"
proof (cases "discards_circuit op h")
  case True
  then obtain e where "op = ReleaseProbe e" by (cases op) auto
  with True show ?thesis by (auto simp: release_probe_eq split: option.splits circuit_state.splits)
next
  case False
  from ticked_step [OF this] show ?thesis by (simp add: ticked_def)
qed

interpretation breaker: clocked_machine health_step "\<lambda>h. min u64_max (generation h)"
  by unfold_locales (rule generation_step)

lemma generation_bounded_step:
  "generation h \<le> u64_max \<Longrightarrow> generation (health_step op h) \<le> u64_max"
proof -
  have adv: "generation (advance_generation h') \<le> u64_max" for h'
    by (simp add: u64_saturating_add_bound)
  have prom: "generation h' \<le> u64_max \<Longrightarrow> generation (promote_ready e now h') \<le> u64_max" for h' e now
    by (auto simp: promote_ready_def u64_saturating_add_bound split: option.split circuit_state.split)
  have proj: "generation h' \<le> u64_max \<Longrightarrow>
      generation (snd (project_inventory now ds h')) \<le> u64_max" for h' ds now
    by (induction ds arbitrary: h') (auto simp: split_def Let_def prom)
  have stat: "generation h' \<le> u64_max \<Longrightarrow>
      generation (snd (statuses_at ds dis now h')) \<le> u64_max" for h' ds dis now
    by (induction ds arbitrary: h') (auto simp: split_def Let_def prom)
  show "generation h \<le> u64_max \<Longrightarrow> ?thesis"
    by (cases op)
      (auto simp: acquire_at_def record_failure_at_def record_success_def release_probe_def
        request_probe_def snapshot_at_def Let_def split_def prom proj stat u64_saturating_add_bound
        split: option.split circuit_state.split)
qed

text \<open>
  The generation that invalidates cached inventories never goes back over any run, and an
  operation that changes any circuit moves it forward (until it saturates), except the release
  of a circuit that is not probing.
\<close>

theorem generation_tracks_circuits:
  assumes "generation h \<le> u64_max"
  shows "generation h \<le> generation (fold health_step ops h) \<and>
         (circuits (health_step op h) = circuits h \<or> discards_circuit op h \<or>
          u64_saturating_add (generation h) 1 \<le> generation (health_step op h))"
proof
  have "generation (fold health_step ops h) \<le> u64_max"
    using assms by (induction ops arbitrary: h) (auto dest: generation_bounded_step)
  with breaker.clock_run [of h ops] assms show "generation h \<le> generation (fold health_step ops h)"
    by (simp add: min_def split: if_splits)
  show "circuits (health_step op h) = circuits h \<or> discards_circuit op h \<or>
          u64_saturating_add (generation h) 1 \<le> generation (health_step op h)"
    using ticked_step [of op h] by (auto simp: ticked_def)
qed

text \<open>
  Releasing the probe of an engine whose circuit is open (a probe that was overtaken by a
  failure recorded elsewhere) does not leave the circuit open: it discards it without a new
  generation, and the next request is permitted as if the engine had never failed, at any
  instant, the cooldown included.
\<close>

theorem release_discards_open_circuit:
  assumes "circuits h e = Some (Open n r t)"
  shows "circuits (release_probe e h) e = None \<and>
         generation (release_probe e h) = generation h \<and>
         fst (acquire_at e now (release_probe e h)) = Permit NormalPermit"
  using assms by (simp add: release_probe_def acquire_access)

section \<open>The theorems at a concrete breaker\<close>

definition failed_health :: runtime_health where
  "failed_health = \<lparr>generation = 7, circuits = (\<lambda>e. None)(lit ''dectalk'' := Some (Open 2 [] 100))\<rparr>"

lemma lit_dectalk: "lit ''espeak'' \<noteq> lit ''dectalk''"
  by (simp add: lit_inject)

theorem probe_exclusive_witness:
  "\<exists>r. fst (acquire_at (lit ''dectalk'') 300
          (fold health_step [RequestProbe (lit ''dectalk''), RecordFailure (lit ''espeak'') [] 200]
            (snd (acquire_at (lit ''dectalk'') 100 failed_health)))) = Denied r"
proof -
  have "fst (acquire_at (lit ''dectalk'') 100 failed_health) = Permit RecoveryProbe"
    by (simp add: acquire_access failed_health_def)
  moreover have "list_all (\<lambda>op. \<not> ends_probe (lit ''dectalk'') op)
      [RequestProbe (lit ''dectalk''), RecordFailure (lit ''espeak'') [] 200]"
    by (simp add: lit_dectalk)
  ultimately show ?thesis using probe_exclusive by blast
qed

end
