(* ===== verification/Runtime_Fallback.thy ===== *)
theory Runtime_Fallback
  imports Routing_Snapshot Engine_Health
begin

text \<open>
  Routed synthesis of one chunk with runtime fallback
  (\<open>synthesize_with_runtime_fallback_anchored_inner\<close> of \<open>omnivox-cli/src/routing.rs\<close>, and the
  guarded engine of \<open>voice_library/eligibility.rs\<close> it calls). What the code does not control is
  an \<open>environment\<close>, asked at named points of the run: whether the request has become stale, the
  clock, what other threads did to the shared health state, and the answers of the engines. The
  engine calls made are kept in order.
\<close>

section \<open>The environment\<close>

datatype point = AtEntry | AtAttempt nat | AtPermit nat | AtPreparation nat | AtResult nat

record 'e environment =
  env_stale :: "point \<Rightarrow> bool"
  env_clock :: "point \<Rightarrow> nat"
  env_others :: "point \<Rightarrow> health_op list"
  env_describe :: "nat \<Rightarrow> 'e \<Rightarrow> engine_descriptor"
  env_prepare :: "nat \<Rightarrow> 'e \<Rightarrow> tts_error + unit"
  env_synthesize :: "nat \<Rightarrow> 'e \<Rightarrow> synthesis_request \<Rightarrow> tts_error + synthesis_result"

text \<open>
  A guarded engine admits before it delegates. Its \<open>engine_id\<close> field is the id of the descriptor
  it wraps.
\<close>

definition handle_prepare :: "'e environment \<Rightarrow> nat \<Rightarrow> 'e handle \<Rightarrow> tts_error + unit" where
  "handle_prepare env n h =
     (case h of
        Bare e \<Rightarrow> env_prepare env n e
      | Guarded p e \<Rightarrow>
          let d = env_describe env n e
          in if excludes_provider p (ed_id d) \<or>
                ed_voices d \<noteq> [] \<and> list_all (\<lambda>v. \<not> permits p (vd_id v)) (ed_voices d)
             then Inl (TtsVoiceNotFound excluded_reason)
             else env_prepare env n e)"

definition handle_synthesize ::
    "'e environment \<Rightarrow> nat \<Rightarrow> 'e handle \<Rightarrow> synthesis_request \<Rightarrow> tts_error + synthesis_result" where
  "handle_synthesize env n h request =
     (case h of
        Bare e \<Rightarrow> env_synthesize env n e request
      | Guarded p e \<Rightarrow>
          and_then (admit p (ed_id (env_describe env n e)) (env_describe env n e) request)
            (\<lambda>_. env_synthesize env n e request))"

section \<open>The run\<close>

datatype synthesis_outcome =
  SynthesisReady synthesis_result | SynthesisCancelled | SynthesisFailure | SynthesisExhausted

record ('e, 'n, 'c) fallback_state =
  fs_route :: "'e logical_route"
  fs_routing :: "('n, 'c) routing_snapshot"
  fs_health :: runtime_health
  fs_calls :: "('e handle \<times> synthesis_request) list"

text \<open>What does not change during a run: the chunk and its anchors, settings and style.\<close>

record chunk_request =
  cr_chunk :: rstr
  cr_anchors :: "requested_anchor list"
  cr_settings :: tts_settings
  cr_requested_acss :: "normalized_acss option"

definition max_runtime_synthesis_attempts :: nat where "max_runtime_synthesis_attempts = 4"

definition select_retry ::
    "'e logical_route \<Rightarrow> ('n, 'c) routing_snapshot \<Rightarrow> ('e, 'f) engine_registry \<Rightarrow> tts_error \<Rightarrow> nat \<Rightarrow>
     (synthesis_outcome + 'e logical_route) \<times> ('n, 'c) routing_snapshot" where
  "select_retry route routing engines e attempt =
     (case reroute_after_failure routing route e engines of (reroute, routing') \<Rightarrow>
        (if attempt = max_runtime_synthesis_attempts then Inl SynthesisExhausted
         else (case reroute of
                 Retry retry \<Rightarrow> Inr retry
               | NotRetryable \<Rightarrow> Inl SynthesisFailure
               | ResolvedToFailedTarget lid \<Rightarrow> Inl SynthesisExhausted
               | RerouteFailed err \<Rightarrow> Inl SynthesisExhausted), routing'))"

definition release_probe_if_held ::
    "rstr \<Rightarrow> engine_permit \<Rightarrow> runtime_health \<Rightarrow> runtime_health" where
  "release_probe_if_held e permit h = (if permit = RecoveryProbe then release_probe e h else h)"

definition record_synthesis_failure ::
    "rstr \<Rightarrow> tts_error \<Rightarrow> engine_permit \<Rightarrow> nat \<Rightarrow> runtime_health \<Rightarrow> runtime_health" where
  "record_synthesis_failure eid e permit now h =
     (case (e, permit) of
        (TtsSynthesisFailed why, _) \<Rightarrow> snd (record_failure_at eid (tts_error_text e) now h)
      | (TtsNotAvailable, RecoveryProbe) \<Rightarrow> snd (record_failure_at eid (tts_error_text e) now h)
      | _ \<Rightarrow> release_probe_if_held eid permit h)"

definition others_act ::
    "'e environment \<Rightarrow> point \<Rightarrow> ('e, 'n, 'c) fallback_state \<Rightarrow> ('e, 'n, 'c) fallback_state" where
  "others_act env p st = st\<lparr>fs_health := fold health_step (env_others env p) (fs_health st)\<rparr>"

definition route_engine_id :: "('e, 'n, 'c) fallback_state \<Rightarrow> rstr" where
  "route_engine_id st = pv_engine_id (ro_realized (fs_route st))"

text \<open>\<open>None\<close> continues with the next attempt, \<open>Some\<close> returns.\<close>

definition retry_with ::
    "('e, 'f) engine_registry \<Rightarrow> tts_error \<Rightarrow> nat \<Rightarrow> ('e, 'n, 'c) fallback_state \<Rightarrow>
     synthesis_outcome option \<times> ('e, 'n, 'c) fallback_state" where
  "retry_with engines e attempt st =
     (case select_retry (fs_route st) (fs_routing st) engines e attempt of
        (Inr retry, routing) \<Rightarrow> (None, st\<lparr>fs_route := retry, fs_routing := routing\<rparr>)
      | (Inl outcome, routing) \<Rightarrow> (Some outcome, st\<lparr>fs_routing := routing\<rparr>))"

definition route_acss ::
    "'e environment \<Rightarrow> nat \<Rightarrow> chunk_request \<Rightarrow> 'e logical_route \<Rightarrow> acss_application" where
  "route_acss env n cr route =
     (case cr_requested_acss cr of
        None \<Rightarrow> ro_acss route
      | Some style \<Rightarrow>
          na_degrade_for style
            (ec_acss (ed_capabilities (handle_descriptor (env_describe env n) (ro_engine route)))))"

definition routed_request ::
    "'e environment \<Rightarrow> nat \<Rightarrow> chunk_request \<Rightarrow> 'e logical_route \<Rightarrow> synthesis_request" where
  "routed_request env n cr route =
     (let acss = route_acss env n cr route;
          settings = apply_normalized_acss (aa_style acss)
            ((cr_settings cr)\<lparr>se_voice := pv_voice_id (ro_realized route)\<rparr>)
      in (with_normalized_acss (aa_style acss) (new_request (cr_chunk cr) settings))
           \<lparr>sq_requested_voice := Some (ro_realized route),
            sq_logical_voice_id := ro_reported_logical_voice_id route,
            sq_anchors := cr_anchors cr\<rparr>)"

definition routed_reply ::
    "'e environment \<Rightarrow> nat \<Rightarrow> chunk_request \<Rightarrow> 'e logical_route \<Rightarrow> tts_error + synthesis_result" where
  "routed_reply env n cr route =
     (let request = routed_request env n cr route;
          descriptor = handle_descriptor (env_describe env n) (ro_engine route);
          support = requested_anchors (ec_markers (ed_capabilities descriptor))
      in and_then (handle_synthesize env n (ro_engine route) request) (\<lambda>raw.
           let result = resolve_anchors request support raw
           in and_then (validate_result request result) (\<lambda>_.
                Inr (result\<lparr>sr_degraded_acss := aa_omitted (route_acss env n cr route)\<rparr>))))"

definition synthesize_attempt ::
    "'e environment \<Rightarrow> ('e, 'f) engine_registry \<Rightarrow> chunk_request \<Rightarrow> nat \<Rightarrow> engine_permit \<Rightarrow>
     ('e, 'n, 'c) fallback_state \<Rightarrow> synthesis_outcome option \<times> ('e, 'n, 'c) fallback_state" where
  "synthesize_attempt env engines cr n permit st0 =
     (let route = fs_route st0; eid = route_engine_id st0;
          reply = routed_reply env n cr route;
          st = others_act env (AtResult n)
            (st0\<lparr>fs_calls := fs_calls st0 @ [(ro_engine route, routed_request env n cr route)]\<rparr>);
          stale = env_stale env (AtResult n)
      in case reply of
           Inr result \<Rightarrow>
             (Some (if stale then SynthesisCancelled else SynthesisReady result),
              st\<lparr>fs_health := record_success eid permit (fs_health st)\<rparr>)
         | Inl e \<Rightarrow>
             if stale
             then (Some SynthesisCancelled,
                   st\<lparr>fs_health := release_probe_if_held eid permit (fs_health st)\<rparr>)
             else retry_with engines e n
                    (st\<lparr>fs_health := record_synthesis_failure eid e permit
                          (env_clock env (AtResult n)) (fs_health st)\<rparr>))"

definition permitted_attempt ::
    "'e environment \<Rightarrow> ('e, 'f) engine_registry \<Rightarrow> chunk_request \<Rightarrow> nat \<Rightarrow> engine_permit \<Rightarrow>
     ('e, 'n, 'c) fallback_state \<Rightarrow> synthesis_outcome option \<times> ('e, 'n, 'c) fallback_state" where
  "permitted_attempt env engines cr n permit st0 =
     (let st = others_act env (AtPermit n) st0; eid = route_engine_id st;
          cancelled = (\<lambda>st. (Some SynthesisCancelled,
            st\<lparr>fs_health := release_probe_if_held eid permit (fs_health st)\<rparr>))
      in if env_stale env (AtPermit n) then cancelled st
         else
           (case (if permit = RecoveryProbe then handle_prepare env n (ro_engine (fs_route st))
                  else Inr ()) of
              Inl preparation_error \<Rightarrow>
                let st = others_act env (AtPreparation n) st;
                    e = TtsSynthesisFailed (lit ''recovery preparation failed: '' @
                          tts_error_text preparation_error)
                in if env_stale env (AtPreparation n) then cancelled st
                   else retry_with engines e n
                          (st\<lparr>fs_health := snd (record_failure_at eid (tts_error_text e)
                                (env_clock env (AtPreparation n)) (fs_health st))\<rparr>)
            | Inr u \<Rightarrow> synthesize_attempt env engines cr n permit st))"

definition try_attempt ::
    "'e environment \<Rightarrow> ('e, 'f) engine_registry \<Rightarrow> chunk_request \<Rightarrow> nat \<Rightarrow>
     ('e, 'n, 'c) fallback_state \<Rightarrow> synthesis_outcome option \<times> ('e, 'n, 'c) fallback_state" where
  "try_attempt env engines cr n st0 =
     (let st = others_act env (AtAttempt n) st0
      in if env_stale env (AtAttempt n) then (Some SynthesisCancelled, st)
         else
           (case acquire_at (route_engine_id st) (env_clock env (AtAttempt n)) (fs_health st) of
              (access, health) \<Rightarrow>
                (case access of
                   Denied why \<Rightarrow> retry_with engines TtsNotAvailable n (st\<lparr>fs_health := health\<rparr>)
                 | Permit permit \<Rightarrow>
                     permitted_attempt env engines cr n permit (st\<lparr>fs_health := health\<rparr>))))"

text \<open>The loop over the attempts; the empty list is the source's \<open>unreachable!\<close>.\<close>

fun run_attempts ::
    "'e environment \<Rightarrow> ('e, 'f) engine_registry \<Rightarrow> chunk_request \<Rightarrow> nat list \<Rightarrow>
     ('e, 'n, 'c) fallback_state \<Rightarrow> synthesis_outcome option \<times> ('e, 'n, 'c) fallback_state" where
  "run_attempts env engines cr [] st = (None, st)"
| "run_attempts env engines cr (n # ns) st =
     (case try_attempt env engines cr n st of
        (Some outcome, st') \<Rightarrow> (Some outcome, st')
      | (None, st') \<Rightarrow> run_attempts env engines cr ns st')"

definition synthesize_with_fallback ::
    "'e environment \<Rightarrow> ('e, 'f) engine_registry \<Rightarrow> chunk_request \<Rightarrow>
     ('e, 'n, 'c) fallback_state \<Rightarrow> synthesis_outcome option \<times> ('e, 'n, 'c) fallback_state" where
  "synthesize_with_fallback env engines cr st =
     (let routing = fs_routing st; route = fs_route st
      in if env_stale env AtEntry then (Some SynthesisCancelled, st)
         else if has_native_definition routing (ro_logical_voice_id route)
         then (Some SynthesisFailure, st)
         else
           (case route_for_text routing route (cr_chunk cr) engines of
              Inl err \<Rightarrow> (Some SynthesisExhausted, st)
            | Inr compatible \<Rightarrow>
                run_attempts env engines cr [1..<max_runtime_synthesis_attempts + 1]
                  (st\<lparr>fs_route := compatible\<rparr>)))"

section \<open>The run returns\<close>

lemma retry_with_last: "fst (retry_with engines e max_runtime_synthesis_attempts st) \<noteq> None"
  by (simp add: retry_with_def select_retry_def split: prod.split)

lemma synthesize_attempt_last:
  "fst (synthesize_attempt env engines cr max_runtime_synthesis_attempts permit st) \<noteq> None"
  by (simp add: synthesize_attempt_def Let_def retry_with_last [unfolded not_None_eq]
      split: sum.split)

lemma permitted_attempt_last:
  "fst (permitted_attempt env engines cr max_runtime_synthesis_attempts permit st) \<noteq> None"
  unfolding permitted_attempt_def Let_def
  by (simp add: retry_with_last [unfolded not_None_eq]
      synthesize_attempt_last [unfolded not_None_eq] split: sum.split)

lemma try_attempt_last: "fst (try_attempt env engines cr max_runtime_synthesis_attempts st) \<noteq> None"
  unfolding try_attempt_def Let_def
  by (simp add: retry_with_last [unfolded not_None_eq]
      permitted_attempt_last [unfolded not_None_eq] split: prod.split engine_access.split)

lemma retry_with_calls [simp]: "fs_calls (snd (retry_with engines e n st)) = fs_calls st"
  by (simp add: retry_with_def split: prod.split sum.split)

lemma others_act_simps [simp]:
  "fs_calls (others_act env p st) = fs_calls st"
  "fs_route (others_act env p st) = fs_route st"
  "fs_routing (others_act env p st) = fs_routing st"
  "route_engine_id (others_act env p st) = route_engine_id st"
  by (simp_all add: others_act_def route_engine_id_def)

lemma synthesize_attempt_calls:
  "fs_calls (snd (synthesize_attempt env engines cr n permit st)) =
     fs_calls st @ [(ro_engine (fs_route st), routed_request env n cr (fs_route st))]"
  by (simp add: synthesize_attempt_def Let_def split: sum.split)

lemma permitted_attempt_calls:
  "length (fs_calls (snd (permitted_attempt env engines cr n permit st))) \<le> Suc (length (fs_calls st))"
  unfolding permitted_attempt_def Let_def
  by (simp add: synthesize_attempt_calls split: sum.split)

lemma try_attempt_calls:
  "length (fs_calls (snd (try_attempt env engines cr n st))) \<le> Suc (length (fs_calls st))"
proof -
  have p: "length (fs_calls (snd (permitted_attempt env engines cr n permit (others_act env p st\<lparr>fs_health := h\<rparr>))))
      \<le> Suc (length (fs_calls st))" for permit p h
    using permitted_attempt_calls [of env engines cr n permit "others_act env p st\<lparr>fs_health := h\<rparr>"]
    by simp
  show ?thesis
    unfolding try_attempt_def Let_def by (simp add: p split: prod.split engine_access.split)
qed

lemma run_attempts_calls:
  "length (fs_calls (snd (run_attempts env engines cr ns st))) \<le> length (fs_calls st) + length ns"
proof (induction ns arbitrary: st)
  case (Cons n ns)
  obtain outcome st' where t: "try_attempt env engines cr n st = (outcome, st')" by fastforce
  with try_attempt_calls [of env engines cr n st] Cons.IH [of st'] show ?case
    by (cases outcome) auto
qed simp

lemma run_attempts_returns:
  "fst (run_attempts env engines cr (ns @ [max_runtime_synthesis_attempts]) st) \<noteq> None"
proof (induction ns arbitrary: st)
  case Nil
  show ?case using try_attempt_last [of env engines cr st] by (auto split: prod.split option.split)
next
  case (Cons n ns)
  then show ?case by (auto split: prod.split option.split)
qed

text \<open>
  C13: routed synthesis always returns: whatever the engines answer, other threads do and the
  clock says, the bounded loop ends with an outcome (its \<open>unreachable!\<close> is unreachable) after at
  most four engine calls.
\<close>

theorem fallback_returns:
  "\<exists>outcome st'. synthesize_with_fallback env engines cr st = (Some outcome, st') \<and>
     length (fs_calls st') \<le> length (fs_calls st) + 4"
proof -
  have upt: "[1..<max_runtime_synthesis_attempts + 1] = [1..<4] @ [max_runtime_synthesis_attempts]"
    by (simp add: max_runtime_synthesis_attempts_def upt_rec)
  let ?r = "synthesize_with_fallback env engines cr st"
  have "fst ?r \<noteq> None"
    unfolding synthesize_with_fallback_def Let_def upt
    by (simp add: run_attempts_returns [unfolded not_None_eq] split: sum.split)
  moreover have "length (fs_calls (snd ?r)) \<le> length (fs_calls st) + 4"
  proof -
    have c: "length (fs_calls (snd (run_attempts env engines cr
        ([1..<4] @ [max_runtime_synthesis_attempts]) (st\<lparr>fs_route := r\<rparr>)))) \<le> length (fs_calls st) + 4"
      for r
      using run_attempts_calls [of env engines cr "[1..<4] @ [max_runtime_synthesis_attempts]"
          "st\<lparr>fs_route := r\<rparr>"] by simp
    show ?thesis
      unfolding synthesize_with_fallback_def Let_def upt using c by (simp split: sum.split)
  qed
  ultimately show ?thesis by (cases ?r) auto
qed

section \<open>Recovery probes are given back\<close>

definition probing_set :: "runtime_health \<Rightarrow> rstr set" where
  "probing_set h = {e. \<exists>n r. circuits h e = Some (Probing n r)}"

lemma probing_release: "probing_set (release_probe e h) \<subseteq> probing_set h - {e}"
  by (auto simp: probing_set_def release_probe_def split: option.splits circuit_state.splits
      if_splits)

lemma probing_success: "probing_set (record_success e RecoveryProbe h) \<subseteq> probing_set h - {e}"
  by (auto simp: probing_set_def record_success_def split: option.splits circuit_state.splits
      if_splits)

lemma probing_failure: "probing_set (snd (record_failure_at e why now h)) \<subseteq> probing_set h - {e}"
  by (auto simp: probing_set_def record_failure_at_def Let_def split: if_splits)

lemma probing_acquire:
  assumes "acquire_at e now h = (access, h')"
  shows "probing_set h' \<subseteq> probing_set h \<union> (if access = Permit RecoveryProbe then {e} else {})"
proof -
  have a: "access = access_of (promoted now (circuits h e))"
    "circuits h' = (circuits h)(e := acquired (promoted now (circuits h e)))"
    using acquire_access [of e now h] acquire_circuits [of e now h] assms by simp_all
  show ?thesis
    unfolding probing_set_def a
    by (cases "(now, circuits h e)" rule: promoted.cases)
      (auto simp: denied_access_def split: if_splits)
qed

definition acquires :: "health_op \<Rightarrow> bool" where
  "acquires op = (case op of Acquire e now \<Rightarrow> True | _ \<Rightarrow> False)"

lemma circuit_effect_probing:
  assumes "\<not> acquires op" "circuit_effect e op c = Some (Probing n r)"
  shows "c = Some (Probing n r)"
proof (cases c)
  case None
  with assms show ?thesis by (cases op) (auto simp: acquires_def Let_def split: if_splits)
next
  case (Some x)
  with assms show ?thesis
    by (cases x; cases op) (auto simp: acquires_def Let_def split: if_splits)
qed

lemma probing_other: "\<not> acquires op \<Longrightarrow> probing_set (health_step op h) \<subseteq> probing_set h"
  unfolding probing_set_def health_step_circuit using circuit_effect_probing by blast

lemma probing_others:
  "\<forall>op \<in> set ops. \<not> acquires op \<Longrightarrow> probing_set (fold health_step ops h) \<subseteq> probing_set h"
proof (induction ops arbitrary: h)
  case (Cons op ops)
  have "probing_set (fold health_step ops (health_step op h)) \<subseteq> probing_set (health_step op h)"
    using Cons.prems by (intro Cons.IH) simp
  also have "\<dots> \<subseteq> probing_set h" using Cons.prems by (intro probing_other) simp
  finally show ?case by simp
qed simp

text \<open>
  One attempt keeps the set of probing engines within \<open>S\<close>. While a probe permit is held, the
  engine of the route may probe as well.
\<close>

definition quiet :: "'e environment \<Rightarrow> bool" where
  "quiet env \<longleftrightarrow> (\<forall>p. \<forall>op \<in> set (env_others env p). \<not> acquires op)"

definition probing_within ::
    "rstr set \<Rightarrow> rstr \<Rightarrow> engine_permit \<Rightarrow> runtime_health \<Rightarrow> bool" where
  "probing_within S eid permit h \<longleftrightarrow>
     probing_set h \<subseteq> S \<union> (if permit = RecoveryProbe then {eid} else {})"

lemma retry_with_health [simp]: "fs_health (snd (retry_with engines e n st)) = fs_health st"
  by (simp add: retry_with_def split: prod.split sum.split)

lemma others_probing:
  "quiet env \<Longrightarrow> probing_set (fs_health (others_act env p st)) \<subseteq> probing_set (fs_health st)"
  by (simp add: quiet_def others_act_def probing_others)

lemma others_within:
  "quiet env \<Longrightarrow> probing_within S eid permit (fs_health st) \<Longrightarrow>
   probing_within S eid permit (fs_health (others_act env p st))"
  using others_probing [of env p st] by (auto simp: probing_within_def)

lemma closed_within:
  assumes "probing_within S eid permit h"
  shows "probing_set (release_probe_if_held eid permit h) \<subseteq> S"
    and "probing_set (record_success eid permit h) \<subseteq> S"
    and "probing_set (snd (record_failure_at eid why now h)) \<subseteq> S"
    and "probing_set (record_synthesis_failure eid e permit now h) \<subseteq> S"
proof -
  show r: "probing_set (release_probe_if_held eid permit h) \<subseteq> S"
    using assms probing_release [of eid h]
    by (cases permit) (auto simp: release_probe_if_held_def probing_within_def)
  show "probing_set (record_success eid permit h) \<subseteq> S"
    using assms probing_success [of eid h]
    by (cases permit) (auto simp: record_success_def probing_within_def)
  have f: "probing_set (snd (record_failure_at eid why now h)) \<subseteq> S" for why
    using assms probing_failure [of eid why now h]
    by (auto simp: probing_within_def split: if_splits)
  then show "probing_set (snd (record_failure_at eid why now h)) \<subseteq> S" .
  show "probing_set (record_synthesis_failure eid e permit now h) \<subseteq> S"
    using f r by (auto simp: record_synthesis_failure_def split: tts_error.split engine_permit.split)
qed

lemma synthesize_attempt_probing:
  assumes "quiet env" "probing_within S (route_engine_id st) permit (fs_health st)"
  shows "probing_set (fs_health (snd (synthesize_attempt env engines cr n permit st))) \<subseteq> S"
proof -
  let ?st = "others_act env (AtResult n)
    (st\<lparr>fs_calls := fs_calls st @ [(ro_engine (fs_route st), routed_request env n cr (fs_route st))]\<rparr>)"
  have "probing_within S (route_engine_id st) permit (fs_health ?st)"
    by (rule others_within [OF assms(1)]) (use assms(2) in simp)
  note c = closed_within [OF this]
  show ?thesis
    by (simp add: synthesize_attempt_def Let_def c split: sum.split)
qed

lemma permitted_attempt_probing:
  assumes "quiet env" "probing_within S (route_engine_id st) permit (fs_health st)"
  shows "probing_set (fs_health (snd (permitted_attempt env engines cr n permit st))) \<subseteq> S"
proof -
  let ?st = "others_act env (AtPermit n) st"
  have w: "probing_within S (route_engine_id st) permit (fs_health ?st)"
    by (rule others_within [OF assms])
  note w' = others_within [OF assms(1) w, of "AtPreparation n"]
  have s: "probing_set (fs_health (snd (synthesize_attempt env engines cr n permit ?st))) \<subseteq> S"
    by (rule synthesize_attempt_probing [OF assms(1)]) (use w in simp)
  show ?thesis
    unfolding permitted_attempt_def Let_def
    using closed_within [OF w] closed_within [OF w'] s
    by (cases permit) (simp_all split: sum.split)
qed

lemma try_attempt_probing:
  assumes "quiet env" "probing_set (fs_health st) \<subseteq> S"
  shows "probing_set (fs_health (snd (try_attempt env engines cr n st))) \<subseteq> S"
proof -
  let ?st = "others_act env (AtAttempt n) st"
  have st: "probing_set (fs_health ?st) \<subseteq> S" using others_probing assms by blast
  obtain access h where a: "acquire_at (route_engine_id ?st) (env_clock env (AtAttempt n))
      (fs_health ?st) = (access, h)" by fastforce
  show ?thesis
  proof (cases access)
    case (Permit permit)
    have "probing_within S (route_engine_id (?st\<lparr>fs_health := h\<rparr>)) permit (fs_health (?st\<lparr>fs_health := h\<rparr>))"
      using probing_acquire [OF a] st Permit
      by (auto simp: probing_within_def route_engine_id_def split: if_splits)
    note p = permitted_attempt_probing [OF assms(1) this]
    show ?thesis
      using st a Permit unfolding try_attempt_def Let_def by (simp add: p)
  next
    case (Denied why)
    then show ?thesis
      using probing_acquire [OF a] st a unfolding try_attempt_def Let_def by auto
  qed
qed

lemma run_attempts_probing:
  "quiet env \<Longrightarrow> probing_set (fs_health st) \<subseteq> S \<Longrightarrow>
   probing_set (fs_health (snd (run_attempts env engines cr ns st))) \<subseteq> S"
proof (induction ns arbitrary: st)
  case (Cons n ns)
  obtain outcome st' where t: "try_attempt env engines cr n st = (outcome, st')" by fastforce
  with try_attempt_probing [OF Cons.prems, of engines cr n] Cons.IH [OF Cons.prems(1), of st']
  show ?case by (cases outcome) auto
qed simp

text \<open>
  C14: no path of the run leaks a recovery probe: unless another thread acquires one meanwhile,
  an engine whose circuit is probing when the run returns was already probing when it started.
  Every probe the run is granted ends in a recorded success, a recorded failure or a release,
  cancellation and preparation failure included, so the engine can be probed again.
\<close>

theorem fallback_gives_probes_back:
  assumes "\<forall>p. \<forall>op \<in> set (env_others env p). \<not> acquires op"
    and "synthesize_with_fallback env engines cr st = (outcome, st')"
    and "circuits (fs_health st') e = Some (Probing n r)"
  shows "\<exists>n r. circuits (fs_health st) e = Some (Probing n r)"
proof -
  have q: "quiet env" using assms(1) by (simp add: quiet_def)
  have "probing_set (fs_health (snd (synthesize_with_fallback env engines cr st))) \<subseteq>
      probing_set (fs_health st)"
    unfolding synthesize_with_fallback_def Let_def
    by (simp add: run_attempts_probing [OF q] split: sum.split)
  then have "probing_set (fs_health st') \<subseteq> probing_set (fs_health st)" using assms(2) by simp
  moreover have "e \<in> probing_set (fs_health st')" using assms(3) by (simp add: probing_set_def)
  ultimately have "e \<in> probing_set (fs_health st)" by blast
  then show ?thesis by (simp add: probing_set_def)
qed

section \<open>The targets of a run\<close>

text \<open>The engine calls: the same chunk and anchors each time, to distinct usable voices.\<close>

definition calls_ok ::
    "engine_descriptor list \<Rightarrow> engine_selection_permissions \<Rightarrow> chunk_request \<Rightarrow>
     ('e handle \<times> synthesis_request) list \<Rightarrow> bool" where
  "calls_ok inventory perms cr calls \<longleftrightarrow>
     distinct (map (sq_requested_voice \<circ> snd) calls) \<and>
     (\<forall>c \<in> set calls. sq_text (snd c) = cr_chunk cr \<and> sq_anchors (snd c) = cr_anchors cr \<and>
        (\<exists>v. sq_requested_voice (snd c) = Some v \<and> voice_usable inventory None perms v))"

definition usable_now :: "('e, 'n, 'c) fallback_state \<Rightarrow> physical_voice_id \<Rightarrow> bool" where
  "usable_now st v \<longleftrightarrow>
     voice_usable (rsn_inventory (fs_routing st)) None (rsn_engine_permissions (fs_routing st)) v"

definition targets_ok ::
    "engine_descriptor list \<Rightarrow> engine_selection_permissions \<Rightarrow> ('e, 'n, 'c) fallback_state \<Rightarrow> bool" where
  "targets_ok inventory perms st \<longleftrightarrow>
     inventory_ok (rsn_inventory (fs_routing st)) \<and> rsn_engine_permissions (fs_routing st) = perms \<and>
     (\<forall>v. usable_now st v \<longrightarrow> voice_usable inventory None perms v)"

text \<open>Before an attempt the route is usable and no called voice is; after it, only the route's.\<close>

definition live :: "('e, 'n, 'c) fallback_state \<Rightarrow> bool" where
  "live st \<longleftrightarrow> usable_now st (ro_realized (fs_route st)) \<and>
     (\<forall>c \<in> set (fs_calls st). \<forall>v. sq_requested_voice (snd c) = Some v \<longrightarrow> \<not> usable_now st v)"

definition spent :: "('e, 'n, 'c) fallback_state \<Rightarrow> bool" where
  "spent st \<longleftrightarrow>
     (\<forall>c \<in> set (fs_calls st). \<forall>v. sq_requested_voice (snd c) = Some v \<longrightarrow>
        v = ro_realized (fs_route st) \<or> \<not> usable_now st v)"

lemma targets_cong [simp]:
  "targets_ok inventory perms (others_act env p st) = targets_ok inventory perms st"
  "live (others_act env p st) = live st"
  "spent (others_act env p st) = spent st"
  "targets_ok inventory perms (st\<lparr>fs_health := h\<rparr>) = targets_ok inventory perms st"
  "live (st\<lparr>fs_health := h\<rparr>) = live st"
  "spent (st\<lparr>fs_health := h\<rparr>) = spent st"
  by (simp_all add: targets_ok_def live_def spent_def usable_now_def)

lemma live_spent: "live st \<Longrightarrow> spent st"
  by (auto simp: live_def spent_def)

lemma reroute_Retry:
  assumes "reroute_after_failure s route e engines = (Retry retry, s')" "inventory_ok (rsn_inventory s)"
  shows "inventory_ok (rsn_inventory s') \<and> rsn_engine_permissions s' = rsn_engine_permissions s \<and>
    voice_usable (rsn_inventory s') None (rsn_engine_permissions s) (ro_realized retry) \<and>
    (\<forall>v. voice_usable (rsn_inventory s') None (rsn_engine_permissions s) v \<longrightarrow>
       voice_usable (rsn_inventory s) None (rsn_engine_permissions s) v \<and> v \<noteq> ro_realized route)"
proof -
  obtain retryable inventory where r:
    "record_runtime_failure (rsn_inventory s) (ro_realized route) e = (retryable, inventory)"
    by fastforce
  with assms(1) have true: "retryable" and s': "s' = s\<lparr>rsn_inventory := inventory\<rparr>"
    by (auto simp: reroute_after_failure_def Let_def split: if_splits)
  obtain retry' where res: "resolve_current s' (ro_logical_voice_id route) engines = Inr retry'"
    "ro_realized retry = ro_realized retry'"
    using assms(1) r true s' by (auto simp: reroute_after_failure_def Let_def split: sum.splits if_splits)
  have "record_runtime_failure (rsn_inventory s) (ro_realized route) e = (True, inventory)"
    using r true by simp
  note f = record_failure_inventory [OF assms(2) this]
  from resolve_current_with_text_Inr [OF res(1) [unfolded resolve_current_def]] f res(2) s'
  show ?thesis by simp
qed

lemma retry_targets:
  assumes "targets_ok inventory perms st" "spent st" "retry_with engines e n st = (None, st')"
  shows "targets_ok inventory perms st' \<and> live st'"
proof -
  obtain retry routing where "select_retry (fs_route st) (fs_routing st) engines e n = (Inr retry, routing)"
    and st': "st' = st\<lparr>fs_route := retry, fs_routing := routing\<rparr>"
    using assms(3) by (auto simp: retry_with_def split: prod.splits sum.splits)
  then have r: "reroute_after_failure (fs_routing st) (fs_route st) e engines = (Retry retry, routing)"
    by (auto simp: select_retry_def split: prod.splits if_splits runtime_reroute.splits)
  have "inventory_ok (rsn_inventory (fs_routing st))" using assms(1) by (simp add: targets_ok_def)
  from reroute_Retry [OF r this] assms(1,2) show ?thesis
    unfolding st' by (auto simp: targets_ok_def live_def spent_def usable_now_def)
qed

lemma routed_request_simps [simp]:
  "sq_requested_voice (routed_request env n cr route) = Some (ro_realized route)"
  "sq_text (routed_request env n cr route) = cr_chunk cr"
  "sq_anchors (routed_request env n cr route) = cr_anchors cr"
  by (simp_all add: routed_request_def with_normalized_acss_def new_request_def Let_def)

lemma call_ok:
  assumes "targets_ok inventory perms st" "live st" "calls_ok inventory perms cr (fs_calls st)"
  shows "calls_ok inventory perms cr
    (fs_calls st @ [(h, routed_request env n cr (fs_route st))])"
proof -
  have "Some (ro_realized (fs_route st)) \<notin> set (map (sq_requested_voice \<circ> snd) (fs_calls st))"
    using assms(2) by (force simp: live_def)
  then show ?thesis using assms by (auto simp: calls_ok_def targets_ok_def live_def)
qed

definition targets_post ::
    "engine_descriptor list \<Rightarrow> engine_selection_permissions \<Rightarrow> chunk_request \<Rightarrow>
     synthesis_outcome option \<times> ('e, 'n, 'c) fallback_state \<Rightarrow> bool" where
  "targets_post inventory perms cr r \<longleftrightarrow>
     calls_ok inventory perms cr (fs_calls (snd r)) \<and>
     (fst r = None \<longrightarrow> targets_ok inventory perms (snd r) \<and> live (snd r))"

lemma retry_post:
  assumes "targets_ok inventory perms st" "spent st" "calls_ok inventory perms cr (fs_calls st)"
  shows "targets_post inventory perms cr (retry_with engines e n st)"
proof (cases "retry_with engines e n st")
  case (Pair outcome st')
  with retry_with_calls [of engines e n st] assms(3) have "calls_ok inventory perms cr (fs_calls st')"
    by simp
  with retry_targets [OF assms(1,2)] Pair show ?thesis
    by (cases outcome) (auto simp: targets_post_def)
qed

lemma synthesize_attempt_post:
  assumes "targets_ok inventory perms st" "live st" "calls_ok inventory perms cr (fs_calls st)"
  shows "targets_post inventory perms cr (synthesize_attempt env engines cr n permit st)"
proof -
  let ?calls = "fs_calls st @ [(ro_engine (fs_route st), routed_request env n cr (fs_route st))]"
  let ?st = "others_act env (AtResult n) (st\<lparr>fs_calls := ?calls\<rparr>)"
  have c: "calls_ok inventory perms cr ?calls" by (rule call_ok [OF assms])
  have t: "targets_ok inventory perms (?st\<lparr>fs_health := h\<rparr>)" "spent (?st\<lparr>fs_health := h\<rparr>)" for h
    using assms(1,2) by (auto simp: targets_ok_def spent_def live_def usable_now_def)
  have r: "targets_post inventory perms cr (retry_with engines e n (?st\<lparr>fs_health := h\<rparr>))" for e h
    by (rule retry_post [OF t]) (use c in simp)
  show ?thesis
    unfolding synthesize_attempt_def Let_def
    using c r by (simp add: targets_post_def split: sum.split)
qed

lemma permitted_attempt_post:
  assumes "targets_ok inventory perms st" "live st" "calls_ok inventory perms cr (fs_calls st)"
  shows "targets_post inventory perms cr (permitted_attempt env engines cr n permit st)"
proof -
  have s: "targets_post inventory perms cr
      (synthesize_attempt env engines cr n permit (others_act env (AtPermit n) st))"
    by (rule synthesize_attempt_post) (use assms in simp_all)
  have r: "targets_post inventory perms cr (retry_with engines e n
      (others_act env (AtPreparation n) (others_act env (AtPermit n) st)\<lparr>fs_health := h\<rparr>))" for e h
    by (rule retry_post) (use assms live_spent in simp_all)
  show ?thesis
    unfolding permitted_attempt_def Let_def
    using s r assms(3) by (cases permit) (simp_all add: targets_post_def split: sum.split)
qed

lemma try_attempt_post:
  assumes "targets_ok inventory perms st" "live st" "calls_ok inventory perms cr (fs_calls st)"
  shows "targets_post inventory perms cr (try_attempt env engines cr n st)"
proof -
  have p: "targets_post inventory perms cr (permitted_attempt env engines cr n permit
      (others_act env (AtAttempt n) st\<lparr>fs_health := h\<rparr>))" for permit h
    by (rule permitted_attempt_post) (use assms in simp_all)
  have r: "targets_post inventory perms cr (retry_with engines e n
      (others_act env (AtAttempt n) st\<lparr>fs_health := h\<rparr>))" for e h
    by (rule retry_post) (use assms live_spent in simp_all)
  show ?thesis
    unfolding try_attempt_def Let_def
    using p r assms(3)
    by (simp add: targets_post_def split: prod.split engine_access.split)
qed

lemma run_attempts_calls_ok:
  "targets_ok inventory perms st \<Longrightarrow> live st \<Longrightarrow> calls_ok inventory perms cr (fs_calls st) \<Longrightarrow>
   calls_ok inventory perms cr (fs_calls (snd (run_attempts env engines cr ns st)))"
proof (induction ns arbitrary: st)
  case (Cons n ns)
  obtain outcome st' where t: "try_attempt env engines cr n st = (outcome, st')" by fastforce
  with try_attempt_post [OF Cons.prems, of env engines n] Cons.IH [of st'] show ?case
    by (cases outcome) (auto simp: targets_post_def)
qed simp

text \<open>
  C15: a run never repeats a target: over a well-formed inventory, its engine calls are for
  pairwise distinct voices, each offered as available by an engine that may be used under the
  session's permissions, and each carries the identical text and anchors.
\<close>

theorem fallback_targets_distinct:
  assumes "inventory_ok (rsn_inventory (fs_routing st))" "fs_calls st = []"
    and "synthesize_with_fallback env engines cr st = (outcome, st')"
  shows "distinct (map (sq_requested_voice \<circ> snd) (fs_calls st')) \<and>
    (\<forall>(handle, request) \<in> set (fs_calls st').
       sq_text request = cr_chunk cr \<and> sq_anchors request = cr_anchors cr \<and>
       (\<exists>v. sq_requested_voice request = Some v \<and>
          voice_usable (rsn_inventory (fs_routing st)) None (rsn_engine_permissions (fs_routing st)) v))"
proof -
  let ?inv = "rsn_inventory (fs_routing st)" and ?perms = "rsn_engine_permissions (fs_routing st)"
  have empty: "calls_ok ?inv ?perms cr (fs_calls st)" using assms(2) by (simp add: calls_ok_def)
  have "calls_ok ?inv ?perms cr (fs_calls (snd (run_attempts env engines cr ns
      (st\<lparr>fs_route := compatible\<rparr>))))"
    if c: "route_for_text (fs_routing st) (fs_route st) (cr_chunk cr) engines = Inr compatible"
    for ns compatible
  proof (rule run_attempts_calls_ok)
    obtain resolved where "resolve_current_with_text (fs_routing st)
        (ro_logical_voice_id (fs_route st)) (Some (cr_chunk cr)) engines = Inr resolved"
      and "ro_realized compatible = ro_realized resolved"
      using c by (auto simp: route_for_text_def Let_def res_simps)
    from resolve_current_with_text_Inr [OF this(1)] this(2)
    have "voice_usable ?inv None ?perms (ro_realized compatible)"
      by (auto simp: voice_usable_def engine_usable_def)
    then show "live (st\<lparr>fs_route := compatible\<rparr>)"
      using assms(2) by (simp add: live_def usable_now_def)
  qed (use assms(1) empty in \<open>simp_all add: targets_ok_def usable_now_def\<close>)
  then have "calls_ok ?inv ?perms cr (fs_calls (snd (synthesize_with_fallback env engines cr st)))"
    using empty by (simp add: synthesize_with_fallback_def Let_def split: sum.split)
  with assms(3) show ?thesis by (auto simp: calls_ok_def)
qed

section \<open>What a ready result is\<close>

definition ready_ok ::
    "'e environment \<Rightarrow> chunk_request \<Rightarrow> nat list \<Rightarrow> synthesis_outcome option \<times> ('e, 'n, 'c) fallback_state \<Rightarrow>
     bool" where
  "ready_ok env cr ns r \<longleftrightarrow>
     (\<forall>result. fst r = Some (SynthesisReady result) \<longrightarrow>
        fs_calls (snd r) \<noteq> [] \<and> (\<exists>n \<in> set ns. \<not> env_stale env (AtResult n)) \<and>
        sq_requested_voice (snd (last (fs_calls (snd r)))) = sr_actual_voice result \<and>
        map_option pv_engine_id (sr_actual_voice result) = Some (sr_engine_id result) \<and>
        map ra_id (sr_anchors result) = map rq_id (cr_anchors cr) \<and>
        (\<forall>a \<in> set (sr_anchors result). resolved_anchor_ok (frame_count (sr_audio result)) a) \<and>
        (\<forall>m \<in> set (sr_markers result). sm_frame_offset m \<le> frame_count (sr_audio result)))"

lemma retry_not_ready [simp]: "fst (retry_with engines e n st) \<noteq> Some (SynthesisReady result)"
  by (simp add: retry_with_def select_retry_def split: prod.split sum.split runtime_reroute.split)

lemma retry_ready [simp]: "ready_ok env cr ns (retry_with engines e n st)"
  by (simp add: ready_ok_def)

lemma routed_reply_Inr:
  assumes "routed_reply env n cr route = Inr result"
  shows "sr_actual_voice result = Some (ro_realized route) \<and>
    sr_engine_id result = pv_engine_id (ro_realized route) \<and>
    map ra_id (sr_anchors result) = map rq_id (cr_anchors cr) \<and>
    (\<forall>a \<in> set (sr_anchors result). resolved_anchor_ok (frame_count (sr_audio result)) a) \<and>
    (\<forall>m \<in> set (sr_markers result). sm_frame_offset m \<le> frame_count (sr_audio result))"
proof -
  let ?request = "routed_request env n cr route"
  obtain support raw where v: "validate_result ?request (resolve_anchors ?request support raw) = Inr ()"
    and result: "result = (resolve_anchors ?request support raw)
      \<lparr>sr_degraded_acss := aa_omitted (route_acss env n cr route)\<rparr>"
    using assms by (auto simp: routed_reply_def Let_def res_simps)
  from accepted_result [OF v] show ?thesis
    unfolding result by (simp add: resolve_anchors_def)
qed

lemma synthesize_attempt_ready: "ready_ok env cr [n] (synthesize_attempt env engines cr n permit st)"
proof (cases "routed_reply env n cr (fs_route st)")
  case (Inl e)
  then show ?thesis by (simp add: synthesize_attempt_def Let_def) (simp add: ready_ok_def)
next
  case (Inr result)
  from routed_reply_Inr [OF this] Inr show ?thesis
    by (simp add: synthesize_attempt_def Let_def ready_ok_def)
qed

lemma permitted_attempt_ready: "ready_ok env cr [n] (permitted_attempt env engines cr n permit st)"
proof -
  have c: "ready_ok env cr [n] (Some SynthesisCancelled, st)" for st by (simp add: ready_ok_def)
  show ?thesis
    unfolding permitted_attempt_def Let_def
    by (simp add: c synthesize_attempt_ready split: sum.split)
qed

lemma try_attempt_ready: "ready_ok env cr [n] (try_attempt env engines cr n st)"
proof -
  have c: "ready_ok env cr [n] (Some SynthesisCancelled, st)" for st by (simp add: ready_ok_def)
  show ?thesis
    unfolding try_attempt_def Let_def
    by (simp add: c permitted_attempt_ready split: prod.split engine_access.split)
qed

lemma run_attempts_ready: "ready_ok env cr ns (run_attempts env engines cr ns st)"
proof (induction ns arbitrary: st)
  case (Cons n ns)
  obtain outcome st' where t: "try_attempt env engines cr n st = (outcome, st')" by fastforce
  with try_attempt_ready [of env cr n engines st] Cons.IH [of st'] show ?case
    by (cases outcome) (auto simp: ready_ok_def)
qed (simp add: ready_ok_def)

text \<open>
  A ready result is current and answers the last call: it was not stale at the check after an
  attempt, it comes from exactly the engine and voice that call was routed to, its anchors are the
  requested ones in order, and every anchor and marker lies inside its audio.
\<close>

theorem fallback_ready_answers:
  assumes "synthesize_with_fallback env engines cr st = (Some (SynthesisReady result), st')"
  shows "fs_calls st' \<noteq> [] \<and> (\<exists>n \<in> {1..4}. \<not> env_stale env (AtResult n)) \<and>
    sq_requested_voice (snd (last (fs_calls st'))) = sr_actual_voice result \<and>
    map_option pv_engine_id (sr_actual_voice result) = Some (sr_engine_id result) \<and>
    map ra_id (sr_anchors result) = map rq_id (cr_anchors cr) \<and>
    (\<forall>a \<in> set (sr_anchors result). resolved_anchor_ok (frame_count (sr_audio result)) a) \<and>
    (\<forall>m \<in> set (sr_markers result). sm_frame_offset m \<le> frame_count (sr_audio result))"
proof -
  obtain compatible where "run_attempts env engines cr [1..<max_runtime_synthesis_attempts + 1]
      (st\<lparr>fs_route := compatible\<rparr>) = (Some (SynthesisReady result), st')"
    using assms by (auto simp: synthesize_with_fallback_def Let_def split: if_splits sum.splits)
  moreover have "set [1..<max_runtime_synthesis_attempts + 1] = {1..4}"
    by (auto simp: max_runtime_synthesis_attempts_def)
  ultimately show ?thesis
    using run_attempts_ready [of env cr "[1..<max_runtime_synthesis_attempts + 1]" engines
        "st\<lparr>fs_route := compatible\<rparr>"]
    by (simp add: ready_ok_def)
qed

section \<open>A run on two engines\<close>

text \<open>
  Engine \<open>a\<close> speaks any text and is preferred, engine \<open>b\<close> is the fallback and speaks Latin-1.
\<close>

definition pair_descriptor :: "nat \<Rightarrow> engine_descriptor" where
  "pair_descriptor e =
     (if e = 0 then sample_engine ''a'' Unicode [''w''] else sample_engine ''b'' Iso8859_1 [''x''])"

definition pair_entry :: "nat \<Rightarrow> (nat, unit) registered_engine" where
  "pair_entry e =
     \<lparr>re_engine = Some (Bare e), re_descriptor = pair_descriptor e, re_retry = None,
      re_rescanning = False\<rparr>"

definition pair_registry :: "(nat, unit) engine_registry" where
  "pair_registry =
     \<lparr>er_generation = 0, er_entries = [(lit ''a'', pair_entry 0), (lit ''b'', pair_entry 1)],
      er_eligibility = None, er_permissions = default_permissions,
      er_local_policy = default_local_policy, er_configured = False\<rparr>"

definition pair_snapshot :: "(unit, unit) routing_snapshot" where
  "pair_snapshot =
     \<lparr>rsn_definitions = [sample_definition], rsn_registry_generation = 0,
      rsn_layered_definitions = [], rsn_engine_definitions = [], rsn_parameter_catalogues = [],
      rsn_preview_choice_index = None, rsn_fallback_policy = sample_policy,
      rsn_inventory = [pair_descriptor 0, pair_descriptor 1], rsn_disabled_engine_ids = [],
      rsn_engine_permissions = default_permissions\<rparr>"

definition pair_chunk :: chunk_request where
  "pair_chunk =
     \<lparr>cr_chunk = [20013], cr_anchors = [],
      cr_settings = \<lparr>se_voice = [], se_rate = F32_Fin 1, se_pitch = F32_Fin 1, se_volume = F32_Fin 1\<rparr>,
      cr_requested_acss = None\<rparr>"

text \<open>Engine \<open>a\<close> fails, engine \<open>b\<close> returns empty audio for its voice.\<close>

definition pair_environment :: "nat environment" where
  "pair_environment =
     \<lparr>env_stale = (\<lambda>p. False), env_clock = (\<lambda>p. 0), env_others = (\<lambda>p. []),
      env_describe = (\<lambda>n. pair_descriptor), env_prepare = (\<lambda>n e. Inr ()),
      env_synthesize = (\<lambda>n e request.
        if e = 0 then Inl (TtsSynthesisFailed [])
        else Inr \<lparr>sr_audio = \<lparr>ab_samples = []\<rparr>, sr_engine_id = lit ''b'',
                  sr_actual_voice = sq_requested_voice request, sr_markers = [], sr_anchors = [],
                  sr_degraded_acss = []\<rparr>)\<rparr>"

lemmas pair_defs =
  initial_route_def has_native_definition_def resolve_current_def resolve_current_with_text_def
  pair_snapshot_def pair_registry_def pair_entry_def pair_descriptor_def route_from_resolution_def
  find_descriptor_def registry_engine_def lookup_entry_def sample_defs resolve_defs

lemma pair_route:
  "\<exists>route. initial_route pair_snapshot (lit ''code'') pair_registry = Inr route \<and>
     ro_realized route = PhysicalVoiceId (lit ''a'') (lit ''w'') \<and>
     ro_logical_voice_id route = lit ''code'' \<and> ro_engine route = Bare 0"
  by (simp add: pair_defs)

definition pair_state :: "(nat, unit, unit) fallback_state" where
  "pair_state =
     \<lparr>fs_route = (case initial_route pair_snapshot (lit ''code'') pair_registry of Inr r \<Rightarrow> r),
      fs_routing = pair_snapshot, fs_health = new_health, fs_calls = []\<rparr>"

lemma pair_text_route:
  assumes "ro_logical_voice_id route = lit ''code''"
  shows "\<exists>route'. route_for_text pair_snapshot route [20013] pair_registry = Inr route' \<and>
     ro_realized route' = PhysicalVoiceId (lit ''a'') (lit ''w'') \<and>
     ro_logical_voice_id route' = lit ''code'' \<and> ro_engine route' = Bare 0"
  using assms by (simp add: route_for_text_def pair_defs)

lemma pair_reroute:
  assumes "ro_realized route = PhysicalVoiceId (lit ''a'') (lit ''w'')"
    and "ro_logical_voice_id route = lit ''code''"
  shows "\<exists>retry s'. reroute_after_failure pair_snapshot route (TtsSynthesisFailed []) pair_registry =
       (Retry retry, s') \<and> ro_realized retry = PhysicalVoiceId (lit ''b'') (lit ''x'') \<and>
     ro_engine retry = Bare 1"
  using assms by (simp add: reroute_after_failure_def pair_defs)

lemma acquire_closed:
  "circuits h e = None \<Longrightarrow> \<exists>h'. acquire_at e now h = (Permit NormalPermit, h') \<and> circuits h' = circuits h"
  by (auto simp: acquire_at_def promote_ready_def fun_eq_iff)

lemma pair_acts [simp]: "others_act pair_environment p st = st"
  by (simp add: others_act_def pair_environment_def)

lemma pair_never_stale [simp]: "env_stale pair_environment p = False"
  by (simp add: pair_environment_def)

lemma try_attempt_closed:
  assumes "circuits (fs_health st) (route_engine_id st) = None"
  obtains h where "circuits h = circuits (fs_health st)"
    "try_attempt pair_environment engines cr n st =
       synthesize_attempt pair_environment engines cr n NormalPermit (st\<lparr>fs_health := h\<rparr>)"
  using acquire_closed [OF assms, of "env_clock pair_environment (AtAttempt n)"]
  by (auto simp: try_attempt_def permitted_attempt_def Let_def)

lemma pair_first_attempt:
  assumes "ro_realized (fs_route st) = PhysicalVoiceId (lit ''a'') (lit ''w'')"
    and "ro_logical_voice_id (fs_route st) = lit ''code''" "ro_engine (fs_route st) = Bare 0"
    and "fs_routing st = pair_snapshot" "circuits (fs_health st) = Map.empty"
  shows "\<exists>st'. try_attempt pair_environment pair_registry pair_chunk (Suc 0) st = (None, st') \<and>
    ro_realized (fs_route st') = PhysicalVoiceId (lit ''b'') (lit ''x'') \<and>
    ro_engine (fs_route st') = Bare 1 \<and> circuits (fs_health st') (lit ''b'') = None"
proof -
  obtain h where h: "circuits h = Map.empty"
    "try_attempt pair_environment pair_registry pair_chunk (Suc 0) st =
       synthesize_attempt pair_environment pair_registry pair_chunk (Suc 0) NormalPermit (st\<lparr>fs_health := h\<rparr>)"
    by (rule try_attempt_closed [of st]) (use assms(5) in simp_all)
  obtain retry s' where r: "reroute_after_failure pair_snapshot (fs_route st) (TtsSynthesisFailed [])
      pair_registry = (Retry retry, s')" "ro_realized retry = PhysicalVoiceId (lit ''b'') (lit ''x'')"
    "ro_engine retry = Bare 1"
    using pair_reroute [OF assms(1,2)] by blast
  have "routed_reply pair_environment (Suc 0) pair_chunk (fs_route st) = Inl (TtsSynthesisFailed [])"
    using assms(3) by (simp add: routed_reply_def Let_def handle_synthesize_def pair_environment_def)
  then show ?thesis
    using r h assms(1,4)
    by (simp add: synthesize_attempt_def Let_def retry_with_def select_retry_def route_engine_id_def
        record_synthesis_failure_def record_failure_at_def max_runtime_synthesis_attempts_def lit_Cons)
qed

lemma pair_second_attempt:
  assumes "ro_realized (fs_route st) = PhysicalVoiceId (lit ''b'') (lit ''x'')"
    and "ro_engine (fs_route st) = Bare 1" "circuits (fs_health st) (lit ''b'') = None"
  shows "\<exists>result st'. try_attempt pair_environment pair_registry pair_chunk n st =
      (Some (SynthesisReady result), st') \<and> sr_engine_id result = lit ''b''"
proof -
  obtain h where h: "try_attempt pair_environment pair_registry pair_chunk n st =
       synthesize_attempt pair_environment pair_registry pair_chunk n NormalPermit (st\<lparr>fs_health := h\<rparr>)"
    by (rule try_attempt_closed [of st]) (use assms in \<open>simp_all add: route_engine_id_def\<close>)
  let ?request = "routed_request pair_environment n pair_chunk (fs_route st)"
  have a: "sq_anchors ?request = []" "sq_text ?request = [20013]" by (simp_all add: pair_chunk_def)
  have "\<exists>result. routed_reply pair_environment n pair_chunk (fs_route st) = Inr result \<and>
      sr_engine_id result = lit ''b''"
    unfolding routed_reply_def Let_def
    using assms(1,2) a
    by (simp add: handle_synthesize_def pair_environment_def resolve_anchors_def validate_result_def
        validate_requested_anchors_def validate_resolved_anchors_def max_synthesis_anchors_def)
  then show ?thesis unfolding h by (auto simp: synthesize_attempt_def Let_def)
qed

lemma pair_run:
  "\<exists>result st'. synthesize_with_fallback pair_environment pair_registry pair_chunk pair_state =
       (Some (SynthesisReady result), st') \<and> sr_engine_id result = lit ''b''"
proof -
  obtain route where route: "fs_route pair_state = route" "ro_logical_voice_id route = lit ''code''"
    using pair_route by (auto simp: pair_state_def)
  have st: "fs_routing pair_state = pair_snapshot" "circuits (fs_health pair_state) = Map.empty"
    by (simp_all add: pair_state_def new_health_def)
  obtain route' where r: "route_for_text pair_snapshot route [20013] pair_registry = Inr route'"
    "ro_realized route' = PhysicalVoiceId (lit ''a'') (lit ''w'')"
    "ro_logical_voice_id route' = lit ''code''" "ro_engine route' = Bare 0"
    using pair_text_route [OF route(2)] by blast
  let ?st = "pair_state\<lparr>fs_route := route'\<rparr>"
  obtain st1 where 1: "try_attempt pair_environment pair_registry pair_chunk (Suc 0) ?st = (None, st1)"
    "ro_realized (fs_route st1) = PhysicalVoiceId (lit ''b'') (lit ''x'')"
    "ro_engine (fs_route st1) = Bare 1" "circuits (fs_health st1) (lit ''b'') = None"
    using pair_first_attempt [of ?st] r st by auto
  obtain result st2 where 2: "try_attempt pair_environment pair_registry pair_chunk 2 st1 =
      (Some (SynthesisReady result), st2)" "sr_engine_id result = lit ''b''"
    using pair_second_attempt [OF 1(2-4)] by blast
  have "run_attempts pair_environment pair_registry pair_chunk
      [1..<max_runtime_synthesis_attempts + 1] ?st = (Some (SynthesisReady result), st2)"
    using 1(1) 2(1) by (simp add: max_runtime_synthesis_attempts_def upt_rec numeral_2_eq_2)
  moreover have "\<not> has_native_definition pair_snapshot (lit ''code'')"
    by (simp add: has_native_definition_def pair_snapshot_def)
  ultimately have "synthesize_with_fallback pair_environment pair_registry pair_chunk pair_state =
      (Some (SynthesisReady result), st2)"
    using route r(1) st(1)
    by (simp add: synthesize_with_fallback_def Let_def pair_chunk_def)
  with 2(2) show ?thesis by blast
qed

text \<open>
  The text check guards only the first attempt: a retry after a runtime failure resolves the
  voice without the text, so a chunk no fallback engine can encode is still sent to one. Here the
  preferred engine speaks any text and fails, and the run ends ready on an engine whose Latin-1
  repertoire does not contain the chunk.
\<close>

theorem retry_ignores_repertoire:
  "\<exists>result st'. synthesize_with_fallback pair_environment pair_registry pair_chunk pair_state =
       (Some (SynthesisReady result), st') \<and> sr_engine_id result = lit ''b'' \<and>
     find_descriptor (rsn_inventory (fs_routing pair_state)) (lit ''b'') = Some (pair_descriptor 1) \<and>
     \<not> supports_text (ec_text_repertoire (ed_capabilities (pair_descriptor 1))) (cr_chunk pair_chunk)"
proof -
  have "find_descriptor (rsn_inventory (fs_routing pair_state)) (lit ''b'') = Some (pair_descriptor 1) \<and>
      \<not> supports_text (ec_text_repertoire (ed_capabilities (pair_descriptor 1))) (cr_chunk pair_chunk)"
    by (simp add: find_descriptor_def pair_state_def pair_snapshot_def pair_descriptor_def pair_chunk_def
        sample_defs supports_text_def first_unsupported_def)
  with pair_run show ?thesis by auto
qed

theorem fallback_gives_probes_back_witness:
  "let st = pair_state\<lparr>fs_health := insert_circuit (lit ''z'') (Probing 1 []) new_health\<rparr>
   in \<exists>n r. circuits (fs_health st) (lit ''z'') = Some (Probing n r)"
proof -
  let ?env = "pair_environment\<lparr>env_stale := (\<lambda>p. True), env_others := (\<lambda>p. [ReleaseProbe (lit ''a'')])\<rparr>"
  let ?st = "pair_state\<lparr>fs_health := insert_circuit (lit ''z'') (Probing 1 []) new_health\<rparr>"
  have r: "synthesize_with_fallback ?env pair_registry pair_chunk ?st = (Some SynthesisCancelled, ?st)"
    by (simp add: synthesize_with_fallback_def Let_def)
  have o: "\<forall>p. \<forall>op \<in> set (env_others ?env p). \<not> acquires op" by (simp add: acquires_def)
  have "circuits (fs_health ?st) (lit ''z'') = Some (Probing 1 [])" by simp
  from fallback_gives_probes_back [OF o r this] show ?thesis unfolding Let_def .
qed

lemma pair_inventory_ok: "inventory_ok (rsn_inventory (fs_routing pair_state))"
  by (simp add: pair_state_def pair_snapshot_def pair_descriptor_def inventory_ok_def rows_ok_def
      voice_keys_def sample_defs)

theorem fallback_targets_distinct_witness:
  "\<exists>outcome st'. synthesize_with_fallback pair_environment pair_registry pair_chunk pair_state =
     (outcome, st') \<and> distinct (map (sq_requested_voice \<circ> snd) (fs_calls st'))"
proof -
  have "fs_calls pair_state = []" by (simp add: pair_state_def)
  from fallback_targets_distinct [OF pair_inventory_ok this] pair_run show ?thesis by blast
qed

end
