(* ===== verification/Command_Line.thy ===== *)
theory Command_Line
  imports Rust_Float
begin

text \<open>
  The command parser of \<open>omnivox-core/src/command.rs\<close>: the three line formats of the pattern
  \<open>COMMAND_REGEX\<close>, the table of command names, and the bounded numeric arguments. The pattern
  is read with the leftmost-first semantics of its engine: the block alternative is tried
  before the space-separated one, which is tried before the bare name.
\<close>

section \<open>Commands\<close>

datatype command_id =
  Queue | Code | Dispatch | Stop | Letter | Tone | AudioIcon | PlaySound | Silence
| TtsSay | TtsSetPunctuationProfile | TtsSetPunctuations | TtsSetSpeechRate
| TtsSetCharacterScale | TtsSplitCaps | TtsSetCapitalizationPresentation | TtsSyncState
| TtsReset | Version | OmnivoxControl | EmacsvoxTx | EmacsvoxTimeline | EmacsvoxLetter
| EmacsvoxTimelinePart | EmacsvoxTone | EmacsvoxTrackedDispatch | EmacsvoxMarkerDispatch
| TtsSetVoice | TtsSetPitchMultiplier | TtsSetSoundVolume | TtsSetToneVolume
| TtsSetVoiceVolume | TtsSetSpeechChannel | TtsSetNotificationChannel | TtsExit
| SetLang | SetNextLang | SetPreviousLang | SetPreferredLang

definition command_names :: "(string \<times> command_id) list" where
  "command_names =
     [(''q'', Queue), (''c'', Code), (''d'', Dispatch), (''s'', Stop), (''l'', Letter),
      (''t'', Tone), (''a'', AudioIcon), (''p'', PlaySound), (''sh'', Silence),
      (''tts_say'', TtsSay), (''tts_set_punctuation_profile'', TtsSetPunctuationProfile),
      (''tts_set_punctuations'', TtsSetPunctuations),
      (''tts_set_speech_rate'', TtsSetSpeechRate),
      (''tts_set_character_scale'', TtsSetCharacterScale), (''tts_split_caps'', TtsSplitCaps),
      (''tts_set_capitalization_presentation'', TtsSetCapitalizationPresentation),
      (''tts_sync_state'', TtsSyncState), (''tts_reset'', TtsReset), (''version'', Version),
      (''omnivox_control'', OmnivoxControl), (''emacsvox_tx'', EmacsvoxTx),
      (''emacsvox_timeline'', EmacsvoxTimeline), (''emacsvox_letter'', EmacsvoxLetter),
      (''emacsvox_timeline_part'', EmacsvoxTimelinePart), (''emacsvox_tone'', EmacsvoxTone),
      (''emacsvox_tracked_dispatch'', EmacsvoxTrackedDispatch),
      (''emacsvox_marker_dispatch'', EmacsvoxMarkerDispatch), (''tts_set_voice'', TtsSetVoice),
      (''tts_set_pitch_multiplier'', TtsSetPitchMultiplier),
      (''tts_set_sound_volume'', TtsSetSoundVolume), (''tts_set_tone_volume'', TtsSetToneVolume),
      (''tts_set_voice_volume'', TtsSetVoiceVolume),
      (''tts_set_speech_channel'', TtsSetSpeechChannel),
      (''tts_set_notification_channel'', TtsSetNotificationChannel), (''tts_exit'', TtsExit),
      (''set_lang'', SetLang), (''set_next_lang'', SetNextLang),
      (''set_previous_lang'', SetPreviousLang), (''set_preferred_lang'', SetPreferredLang)]"

definition command_id_from_str :: "rstr \<Rightarrow> command_id option" where
  "command_id_from_str s = map_of (map (\<lambda>(n, i). (lit n, i)) command_names) s"

record command =
  cmd_id :: command_id
  cmd_args :: "rstr option"

datatype parse_error = EmptyLine | UnknownCommand rstr | InvalidFormat rstr

section \<open>The line pattern\<close>

text \<open>The captures of a match: the alternative that matched, with its groups.\<close>

datatype captures = Block rstr rstr | Spaced rstr rstr | Bare rstr

definition id_char :: "rchar \<Rightarrow> bool" where
  "id_char c \<longleftrightarrow> is_ascii_lowercase c \<or> c = 95"

text \<open>
  \<open>[a-z_]+\<close> shares no character with \<open>\s\<close>, so the name is the maximal run of its characters.
  \<open>\s+\<close> before \<open>\{\<close> cannot give characters back; before \<open>.+\<close> it gives back one only when
  nothing else is left.
\<close>

definition command_captures :: "rstr \<Rightarrow> captures option" where
  "command_captures line =
     (let name = takeWhile id_char line; rest = dropWhile id_char line;
          gap = takeWhile is_whitespace rest; arg = dropWhile is_whitespace rest
      in if name = [] then None
         else if rest = [] then Some (Bare name)
         else if gap = [] then None
         else if 2 \<le> length arg \<and> hd arg = 123 \<and> last arg = 125
         then Some (Block name (butlast (tl arg)))
         else if arg \<noteq> [] then Some (Spaced name arg)
         else if 2 \<le> length gap then Some (Spaced name [last gap])
         else None)"

definition parse_command :: "rstr \<Rightarrow> parse_error + command" where
  "parse_command line0 =
     (let line = trim line0
      in if line = [] then Inl EmptyLine
         else and_then (ok_or (command_captures line) (InvalidFormat line)) (\<lambda>caps.
           let (name, args) =
             (case caps of Block n a \<Rightarrow> (n, Some a) | Spaced n a \<Rightarrow> (n, Some a) | Bare n \<Rightarrow> (n, None))
           in and_then (ok_or (command_id_from_str name) (UnknownCommand name)) (\<lambda>i.
                Inr \<lparr>cmd_id = i, cmd_args = args\<rparr>)))"

section \<open>Numeric arguments\<close>

definition max_presentation_tone_frequency_hz :: rat where
  "max_presentation_tone_frequency_hz = 24000"

definition max_presentation_tone_duration_ms :: nat where
  "max_presentation_tone_duration_ms = 60000"

definition max_silence_duration_ms :: nat where
  "max_silence_duration_ms = 15000"

definition presentation_tone_protocol_version :: nat where
  "presentation_tone_protocol_version = 1"

datatype tone_placement = Independent | ToneInsert | ToneOverlay

record tone_command =
  tc_frequency_hz :: f32
  tc_duration_ms :: nat

record presentation_tone_command =
  pt_placement :: tone_placement
  pt_frequency_hz :: f32
  pt_duration_ms :: nat

definition parse_finite_float :: "rstr \<Rightarrow> rstr + f32" where
  "parse_finite_float v =
     (case parse_f32 v of
        Some x \<Rightarrow> if is_finite x then Inr x else Inl (lit ''expected a finite number'')
      | None \<Rightarrow> Inl (lit ''expected a finite number''))"

definition parse_silence_duration :: "rstr \<Rightarrow> rstr + nat" where
  "parse_silence_duration v =
     and_then (ok_or (parse_u32 v) (lit ''silence duration must be an unsigned integer'')) (\<lambda>d.
       if max_silence_duration_ms < d then Inl (lit ''silence duration must be at most 15000 ms'')
       else Inr d)"

definition parse_bounded_tone_values :: "rstr \<Rightarrow> rstr \<Rightarrow> rstr + tone_command" where
  "parse_bounded_tone_values frequency duration =
     and_then (ok_or (parse_f32 frequency) (lit ''tone frequency must be numeric'')) (\<lambda>f.
       if \<not> is_finite f \<or> f32_le f (F32_Fin 0) \<or>
          f32_lt (F32_Fin max_presentation_tone_frequency_hz) f
       then Inl (lit ''tone frequency must be greater than zero and at most 24000 Hz'')
       else and_then (ok_or (parse_u32 duration) (lit ''tone duration must be an integer'')) (\<lambda>d.
         if d = 0 \<or> max_presentation_tone_duration_ms < d
         then Inl (lit ''tone duration must be from 1 through 60000 ms'')
         else Inr \<lparr>tc_frequency_hz = f, tc_duration_ms = d\<rparr>))"

definition parse_tone_arguments :: "rstr \<Rightarrow> rstr + tone_command" where
  "parse_tone_arguments arguments =
     (case split_whitespace arguments of
        [f, d] \<Rightarrow> parse_bounded_tone_values f d
      | _ \<Rightarrow> Inl (lit ''tone requires FREQUENCY_HZ DURATION_MS''))"

definition parse_presentation_tone_arguments :: "rstr \<Rightarrow> rstr + presentation_tone_command" where
  "parse_presentation_tone_arguments arguments =
     (case split_whitespace arguments of
        [v, mode, f, d] \<Rightarrow>
          and_then (ok_or (parse_u8 v) (lit ''presentation tone version must be an integer'')) (\<lambda>version.
            if version \<noteq> presentation_tone_protocol_version
            then Inl (lit ''unsupported presentation tone version '' @ show_nat version @
                      lit ''; supported version is 1'')
            else and_then
              (if mode = lit ''insert'' then Inr ToneInsert
               else if mode = lit ''overlay'' then Inr ToneOverlay
               else Inl (lit ''presentation tone mode must be insert or overlay''))
              (\<lambda>placement. and_then (parse_bounded_tone_values f d) (\<lambda>tone.
                 Inr \<lparr>pt_placement = placement, pt_frequency_hz = tc_frequency_hz tone,
                      pt_duration_ms = tc_duration_ms tone\<rparr>)))
      | _ \<Rightarrow> Inl (lit ''presentation tone requires VERSION MODE FREQUENCY_HZ DURATION_MS''))"

section \<open>The grammar\<close>

lemma id_char_not_ws: "id_char c \<Longrightarrow> \<not> is_whitespace c"
  by (auto simp: id_char_def is_ascii_lowercase_def is_whitespace_def)

lemma takeWhile_prefix:
  "list_all P xs \<Longrightarrow> ys = [] \<or> \<not> P (hd ys) \<Longrightarrow> takeWhile P (xs @ ys) = xs \<and> dropWhile P (xs @ ys) = ys"
  by (cases ys) (auto simp: list_all_iff)

lemma ends_cons_snoc: "2 \<le> length xs \<and> hd xs = a \<and> last xs = b \<longleftrightarrow> (\<exists>ys. xs = a # ys @ [b])"
proof
  assume a: "2 \<le> length xs \<and> hd xs = a \<and> last xs = b"
  then obtain zs where xs: "xs = a # zs" by (cases xs) auto
  with a have "zs \<noteq> []" "last zs = b" by (auto split: if_splits)
  then have "zs = butlast zs @ [b]" by (metis append_butlast_last_id)
  with xs show "\<exists>ys. xs = a # ys @ [b]" by blast
qed auto

text \<open>A line of one of the three formats, with the white space between name and argument.\<close>

fun line_of :: "rstr \<Rightarrow> captures \<Rightarrow> rstr" where
  "line_of gap (Block n a) = n @ gap @ 123 # a @ [125]"
| "line_of gap (Spaced n a) = n @ gap @ a"
| "line_of gap (Bare n) = n"

fun well_formed :: "rstr \<Rightarrow> captures \<Rightarrow> bool" where
  "well_formed gap (Block n a) \<longleftrightarrow>
     n \<noteq> [] \<and> list_all id_char n \<and> gap \<noteq> [] \<and> list_all is_whitespace gap"
| "well_formed gap (Spaced n a) \<longleftrightarrow>
     n \<noteq> [] \<and> list_all id_char n \<and> gap \<noteq> [] \<and> list_all is_whitespace gap \<and>
     a \<noteq> [] \<and> \<not> is_whitespace (hd a) \<and> \<not> is_whitespace (last a) \<and>
     \<not> (\<exists>b. a = 123 # b @ [125])"
| "well_formed gap (Bare n) \<longleftrightarrow> n \<noteq> [] \<and> list_all id_char n"

lemma split_line:
  assumes "n \<noteq> []" "list_all id_char n" "gap \<noteq> []" "list_all is_whitespace gap"
    "a = [] \<or> \<not> is_whitespace (hd a)"
  shows "takeWhile id_char (n @ gap @ a) = n" "dropWhile id_char (n @ gap @ a) = gap @ a"
    "takeWhile is_whitespace (gap @ a) = gap" "dropWhile is_whitespace (gap @ a) = a"
proof -
  have "\<not> id_char (hd (gap @ a))"
    using assms(3,4) id_char_not_ws by (cases gap) auto
  then show "takeWhile id_char (n @ gap @ a) = n" "dropWhile id_char (n @ gap @ a) = gap @ a"
    using takeWhile_prefix [OF assms(2), of "gap @ a"] by simp_all
  show "takeWhile is_whitespace (gap @ a) = gap" "dropWhile is_whitespace (gap @ a) = a"
    using takeWhile_prefix [OF assms(4,5)] by simp_all
qed

lemma captures_line_of: "well_formed gap caps \<Longrightarrow> command_captures (line_of gap caps) = Some caps"
proof (induction gap caps rule: well_formed.induct)
  case (1 gap n a)
  have ws: "\<not> is_whitespace 123" by (simp add: is_whitespace_def)
  from 1 have s: "n \<noteq> []" "list_all id_char n" "gap \<noteq> []" "list_all is_whitespace gap" by simp_all
  note split = split_line [OF s, of "123 # a @ [125]"]
  show ?case using s ws split by (simp add: command_captures_def Let_def)
next
  case (2 gap n a)
  from 2 have s: "n \<noteq> []" "list_all id_char n" "gap \<noteq> []" "list_all is_whitespace gap"
    "a = [] \<or> \<not> is_whitespace (hd a)" and a: "a \<noteq> []" "\<not> (\<exists>b. a = 123 # b @ [125])" by simp_all
  from a(2) have "\<not> (2 \<le> length a \<and> hd a = 123 \<and> last a = 125)"
    using ends_cons_snoc [of a 123 125] by simp
  with s a(1) split_line [OF s] show ?case by (simp add: command_captures_def Let_def)
next
  case (3 gap n)
  then have eqs: "takeWhile id_char n = n" "dropWhile id_char n = []"
    using takeWhile_prefix [of id_char n "[]"] by simp_all
  show ?case unfolding command_captures_def line_of.simps Let_def eqs using 3 by simp
qed

lemma captures_well_formed:
  assumes "command_captures line = Some caps" and "line \<noteq> []" "\<not> is_whitespace (last line)"
  shows "\<exists>gap. well_formed gap caps \<and> line = line_of gap caps"
proof -
  define name where "name = takeWhile id_char line"
  define rest where "rest = dropWhile id_char line"
  define gap where "gap = takeWhile is_whitespace rest"
  define arg where "arg = dropWhile is_whitespace rest"
  note defs = name_def [symmetric] rest_def [symmetric] gap_def [symmetric] arg_def [symmetric]
  have parts: "line = name @ rest" "rest = gap @ arg" by (simp_all add: name_def rest_def gap_def arg_def)
  have name: "list_all id_char name" and gap: "list_all is_whitespace gap"
    by (auto simp: name_def gap_def list_all_iff dest: set_takeWhileD)
  have hd: "arg \<noteq> [] \<Longrightarrow> \<not> is_whitespace (hd arg)" unfolding arg_def by (rule hd_dropWhile)
  have arg: "rest \<noteq> [] \<Longrightarrow> gap \<noteq> [] \<Longrightarrow> arg \<noteq> []"
    using assms(3) gap parts by (auto simp: list_all_iff)
  note c = assms(1) [unfolded command_captures_def Let_def defs]
  have n: "name \<noteq> []" using c by (auto split: if_split_asm)
  let ?block = "2 \<le> length arg \<and> hd arg = 123 \<and> last arg = 125"
  consider (bare) "rest = []" "caps = Bare name"
    | (block) b where "gap \<noteq> []" "arg = 123 # b @ [125]" "caps = Block name b"
    | (spaced) "gap \<noteq> []" "arg \<noteq> []" "\<not> (\<exists>b. arg = 123 # b @ [125])" "caps = Spaced name arg"
  proof (cases "rest = []")
    case True
    show thesis by (rule bare) (use True c n in simp_all)
  next
    case rest: False
    have g: "gap \<noteq> []" using c n rest by (auto split: if_split_asm)
    show thesis
    proof (cases ?block)
      case True
      then obtain b where b: "arg = 123 # b @ [125]" unfolding ends_cons_snoc ..
      have "caps = Block name (butlast (tl arg))"
        using c unfolding if_not_P [OF n] if_not_P [OF rest] if_not_P [OF g] if_P [OF True] by simp
      then have "caps = Block name b" unfolding b by simp
      with g b show thesis by (rule block)
    next
      case False
      have "\<not> (\<exists>b. arg = 123 # b @ [125])" using False unfolding ends_cons_snoc .
      moreover have "caps = Spaced name arg"
        using c unfolding if_not_P [OF n] if_not_P [OF rest] if_not_P [OF g] if_not_P [OF False]
          if_P [OF arg [OF rest g]] by simp
      ultimately show thesis by (intro spaced g arg [OF rest g])
    qed
  qed
  then show ?thesis
  proof cases
    case bare
    show ?thesis by (rule exI [of _ "[]"]) (use bare parts name n in simp)
  next
    case block
    show ?thesis by (rule exI [of _ gap]) (use block parts name gap n in simp)
  next
    case spaced
    show ?thesis by (rule exI [of _ gap]) (use spaced parts name gap n hd assms(3) in simp)
  qed
qed

text \<open>Trimming.\<close>

lemma trim_surround:
  assumes "list_all is_whitespace pre" "list_all is_whitespace post"
    and "s \<noteq> []" "\<not> is_whitespace (hd s)" "\<not> is_whitespace (last s)"
  shows "trim (pre @ s @ post) = s"
proof -
  have "dropWhile is_whitespace (pre @ s @ post) = s @ post"
    using takeWhile_prefix [OF assms(1), of "s @ post"] assms(3,4) by simp
  moreover have "dropWhile is_whitespace (rev post @ rev s) = rev s"
    using takeWhile_prefix [of is_whitespace "rev post" "rev s"] assms(2,3,5)
    by (simp add: hd_rev)
  ultimately show ?thesis by (simp add: trim_def trim_start_def trim_end_def)
qed

lemma trim_last: "trim s \<noteq> [] \<Longrightarrow> \<not> is_whitespace (last (trim s))"
  using hd_dropWhile [of is_whitespace "rev (dropWhile is_whitespace s)"]
  by (simp add: trim_def trim_start_def trim_end_def last_rev)

lemma trim_decompose:
  "\<exists>pre post. s = pre @ trim s @ post \<and> list_all is_whitespace pre \<and> list_all is_whitespace post"
proof -
  let ?t = "dropWhile is_whitespace s"
  have 1: "s = takeWhile is_whitespace s @ ?t" by simp
  have "rev ?t = takeWhile is_whitespace (rev ?t) @ dropWhile is_whitespace (rev ?t)" by simp
  from arg_cong [OF this, of rev]
  have 2: "?t = trim s @ rev (takeWhile is_whitespace (rev ?t))"
    by (simp only: rev_append rev_rev_ident trim_def trim_start_def trim_end_def)
  show ?thesis
    by (rule exI [of _ "takeWhile is_whitespace s"],
        rule exI [of _ "rev (takeWhile is_whitespace (rev ?t))"])
      (use 1 2 in \<open>auto simp: list_all_iff dest: set_takeWhileD\<close>)
qed

fun caps_name :: "captures \<Rightarrow> rstr" where
  "caps_name (Block n a) = n"
| "caps_name (Spaced n a) = n"
| "caps_name (Bare n) = n"

fun caps_args :: "captures \<Rightarrow> rstr option" where
  "caps_args (Block n a) = Some a"
| "caps_args (Spaced n a) = Some a"
| "caps_args (Bare n) = None"

lemma parse_command_Inr:
  "parse_command line = Inr cmd \<longleftrightarrow>
   trim line \<noteq> [] \<and> (\<exists>caps. command_captures (trim line) = Some caps \<and>
     command_id_from_str (caps_name caps) = Some (cmd_id cmd) \<and> caps_args caps = cmd_args cmd)"
proof -
  have caps: "(case caps of Block n a \<Rightarrow> (n, Some a) | Spaced n a \<Rightarrow> (n, Some a) | Bare n \<Rightarrow> (n, None)) =
      (caps_name caps, caps_args caps)" for caps
    by (cases caps) simp_all
  have ok: "ok_or x e = Inr y \<longleftrightarrow> x = Some y" for x :: "'c option" and e :: parse_error and y
    by (cases x) simp_all
  show ?thesis
    by (cases cmd) (auto simp: parse_command_def Let_def and_then_Inr caps ok)
qed

lemma line_of_ends:
  assumes "well_formed gap caps"
  shows "line_of gap caps \<noteq> [] \<and> \<not> is_whitespace (hd (line_of gap caps)) \<and>
         \<not> is_whitespace (last (line_of gap caps))"
proof -
  have n: "n \<noteq> [] \<Longrightarrow> list_all id_char n \<Longrightarrow> \<not> is_whitespace (hd n) \<and> \<not> is_whitespace (last n)" for n
    using id_char_not_ws by (auto simp: list_all_iff)
  from assms show ?thesis
    by (cases "(gap, caps)" rule: well_formed.cases) (auto simp: is_whitespace_def [of 125] dest!: n)
qed

text \<open>
  The parser accepts exactly the three documented formats: a known command name, followed
  after white space by a braced argument taken verbatim, or by any other argument, or by
  nothing, with any white space around the line.
\<close>

theorem parse_command_iff:
  "parse_command line = Inr cmd \<longleftrightarrow>
   (\<exists>pre post gap caps.
      line = pre @ line_of gap caps @ post \<and> list_all is_whitespace pre \<and>
      list_all is_whitespace post \<and> well_formed gap caps \<and>
      command_id_from_str (caps_name caps) = Some (cmd_id cmd) \<and> caps_args caps = cmd_args cmd)"
proof
  assume "parse_command line = Inr cmd"
  then obtain caps where t: "trim line \<noteq> []" and c: "command_captures (trim line) = Some caps"
    and i: "command_id_from_str (caps_name caps) = Some (cmd_id cmd)" "caps_args caps = cmd_args cmd"
    unfolding parse_command_Inr by blast
  obtain gap where g: "well_formed gap caps" "trim line = line_of gap caps"
    using captures_well_formed [OF c t trim_last [OF t]] by blast
  obtain pre post where "line = pre @ trim line @ post" "list_all is_whitespace pre"
    "list_all is_whitespace post"
    using trim_decompose by blast
  with g i show "\<exists>pre post gap caps. line = pre @ line_of gap caps @ post \<and>
      list_all is_whitespace pre \<and> list_all is_whitespace post \<and> well_formed gap caps \<and>
      command_id_from_str (caps_name caps) = Some (cmd_id cmd) \<and> caps_args caps = cmd_args cmd"
    by metis
next
  assume "\<exists>pre post gap caps. line = pre @ line_of gap caps @ post \<and>
      list_all is_whitespace pre \<and> list_all is_whitespace post \<and> well_formed gap caps \<and>
      command_id_from_str (caps_name caps) = Some (cmd_id cmd) \<and> caps_args caps = cmd_args cmd"
  then obtain pre post gap caps where l: "line = pre @ line_of gap caps @ post"
    "list_all is_whitespace pre" "list_all is_whitespace post" and w: "well_formed gap caps"
    and i: "command_id_from_str (caps_name caps) = Some (cmd_id cmd)" "caps_args caps = cmd_args cmd"
    by blast
  have "trim line = line_of gap caps"
    unfolding l(1) using l(2,3) line_of_ends [OF w] by (intro trim_surround) simp_all
  with w i show "parse_command line = Inr cmd"
    unfolding parse_command_Inr using line_of_ends [OF w] captures_line_of [OF w] by auto
qed

lemma command_names_distinct: "distinct (map fst command_names)"
  by (simp add: command_names_def)

lemma command_id_from_str_name: "(n, i) \<in> set command_names \<Longrightarrow> command_id_from_str (lit n) = Some i"
proof -
  have "inj lit" by (auto intro: injI simp: lit_inject)
  then have "distinct (map fst (map (\<lambda>(n, i). (lit n, i)) command_names))"
    using command_names_distinct
    by (auto simp: o_def split_def distinct_map inj_on_def lit_inject)
  then show "(n, i) \<in> set command_names \<Longrightarrow> ?thesis"
    unfolding command_id_from_str_def by (intro map_of_is_SomeI) (auto intro: rev_image_eqI)
qed

lemma command_names_id_chars: "(n, i) \<in> set command_names \<Longrightarrow> n \<noteq> [] \<and> list_all id_char (lit n)"
proof -
  have "list_all (\<lambda>(n, i). n \<noteq> [] \<and> list_all id_char (lit n)) command_names"
    by (simp add: command_names_def lit_Cons id_char_def is_ascii_lowercase_def)
  then show "(n, i) \<in> set command_names \<Longrightarrow> ?thesis" by (auto simp: list_all_iff)
qed

text \<open>
  A braced argument survives the wire unchanged whatever it contains (braces, newlines,
  surrounding spaces): rendering a known command with a block argument and parsing the line
  gives the command and the argument back.
\<close>

theorem block_argument_roundtrip:
  assumes "(n, i) \<in> set command_names"
  shows "parse_command (lit n @ [32, 123] @ arg @ [125]) = Inr \<lparr>cmd_id = i, cmd_args = Some arg\<rparr>"
proof -
  have w: "well_formed [32] (Block (lit n) arg)"
    using command_names_id_chars [OF assms] by (simp add: is_whitespace_def)
  have "trim (line_of [32] (Block (lit n) arg)) = line_of [32] (Block (lit n) arg)"
    using trim_surround [of "[]" "[]"] line_of_ends [OF w] by simp
  with captures_line_of [OF w] show ?thesis
    using command_id_from_str_name [OF assms] line_of_ends [OF w] by (simp add: parse_command_Inr)
qed

section \<open>Bounds of the numeric arguments\<close>

lemma parse_finite_float_finite: "parse_finite_float v = Inr x \<Longrightarrow> is_finite x"
  by (auto simp: parse_finite_float_def split: option.splits if_split_asm)

lemma parse_bounded_tone_values_Inr:
  "parse_bounded_tone_values f d = Inr t \<Longrightarrow>
   is_finite (tc_frequency_hz t) \<and> \<not> f32_le (tc_frequency_hz t) (F32_Fin 0) \<and>
   \<not> f32_lt (F32_Fin 24000) (tc_frequency_hz t) \<and>
   0 < tc_duration_ms t \<and> tc_duration_ms t \<le> 60000"
  by (auto simp: parse_bounded_tone_values_def res_simps max_presentation_tone_frequency_hz_def
      max_presentation_tone_duration_ms_def split: if_split_asm)

end
