(* ===== verification/Tone_Command.thy ===== *)
theory Tone_Command
  imports Command_Line
begin

text \<open>
  Generated tones: the shared bounds of \<open>omnivox-core/src/tone.rs\<close> and the versioned
  presentation-tone arguments of \<open>tone_command.rs\<close>, which end in a queue item of
  \<open>queue.rs\<close>.
\<close>

section \<open>Sound shapes\<close>

definition max_shaped_tone_frequency_hz :: rat where
  "max_shaped_tone_frequency_hz = 20000"

datatype waveform = Sine | Triangle | Square | Pulse | Sawtooth

datatype envelope_curve = Linear | Exponential

record adsr_envelope =
  adsr_attack_ms :: nat
  adsr_decay_ms :: nat
  adsr_sustain_level :: f32
  adsr_release_ms :: nat

record tone_shape =
  ts_waveform :: waveform
  ts_pulse_width :: "f32 option"
  ts_end_frequency_hz :: "f32 option"
  ts_envelope_curve :: "envelope_curve option"
  ts_envelope :: "adsr_envelope option"

definition default_shape :: tone_shape where
  "default_shape =
     \<lparr>ts_waveform = Sine, ts_pulse_width = None, ts_end_frequency_hz = None,
      ts_envelope_curve = None, ts_envelope = None\<rparr>"

definition requires_extended_contract :: "tone_shape \<Rightarrow> bool" where
  "requires_extended_contract s \<longleftrightarrow>
     ts_waveform s = Pulse \<or> ts_waveform s = Sawtooth \<or> ts_pulse_width s \<noteq> None \<or>
     ts_end_frequency_hz s \<noteq> None \<or> ts_envelope_curve s \<noteq> None"

record tone_parameters =
  tp_frequency_hz :: f32
  tp_duration_ms :: nat
  tp_volume :: f32
  tp_shape :: tone_shape

text \<open>The literals \<open>0.05\<close> and \<open>0.95\<close> are the nearest values of the type.\<close>

definition pulse_width_ok :: "f32 \<Rightarrow> bool" where
  "pulse_width_ok w \<longleftrightarrow> is_finite w \<and> f32_in (round_f32 (5 / 100)) (round_f32 (95 / 100)) w"

definition validate_tone :: "tone_parameters \<Rightarrow> rstr + unit" where
  "validate_tone t =
     (let shape = tp_shape t;
          maximum = (if shape = default_shape then max_presentation_tone_frequency_hz
                     else max_shaped_tone_frequency_hz)
      in if \<not> is_finite (tp_frequency_hz t) \<or> f32_le (tp_frequency_hz t) (F32_Fin 0) \<or>
            f32_lt (F32_Fin maximum) (tp_frequency_hz t)
         then Inl (lit ''tone frequency must be finite, positive and at most '' @
                   show_nat (nat \<lfloor>maximum\<rfloor>) @ lit '' Hz'')
         else if tp_duration_ms t = 0 \<or> max_presentation_tone_duration_ms < tp_duration_ms t
         then Inl (lit ''tone duration must be from 1 through 60000 ms'')
         else if \<not> is_finite (tp_volume t) \<or> \<not> f32_unit (tp_volume t)
         then Inl (lit ''tone volume must be finite and from 0 through 1'')
         else and_then
           (case (ts_waveform shape, ts_pulse_width shape) of
              (Pulse, Some w) \<Rightarrow>
                if pulse_width_ok w then Inr ()
                else Inl (lit ''pulse requires width from 0.05 through 0.95'')
            | (Pulse, None) \<Rightarrow> Inl (lit ''pulse requires width from 0.05 through 0.95'')
            | (_, Some w) \<Rightarrow> Inl (lit ''pulse width applies only to pulse'')
            | (_, None) \<Rightarrow> Inr ())
           (\<lambda>_. if (case ts_end_frequency_hz shape of
                      None \<Rightarrow> False
                    | Some e \<Rightarrow> \<not> is_finite e \<or> f32_le e (F32_Fin 0) \<or>
                        f32_lt (F32_Fin max_shaped_tone_frequency_hz) e)
                then Inl (lit ''sweep end frequency must be positive and at most 20000 Hz'')
                else if ts_envelope_curve shape \<noteq> None \<and> ts_envelope shape = None
                then Inl (lit ''envelope curve requires ADSR'')
                else (case ts_envelope shape of
                        None \<Rightarrow> Inr ()
                      | Some e \<Rightarrow>
                          if list_ex (\<lambda>time. max_presentation_tone_duration_ms < time)
                               [adsr_attack_ms e, adsr_decay_ms e, adsr_release_ms e]
                          then Inl (lit ''tone envelope times must be from 0 through 60000 ms'')
                          else if \<not> is_finite (adsr_sustain_level e) \<or>
                                  \<not> f32_unit (adsr_sustain_level e)
                          then Inl (lit ''tone sustain level must be finite and from 0 through 1'')
                          else Inr ())))"

section \<open>Rich tone arguments\<close>

record rich_tone_command =
  rt_placement :: tone_placement
  rt_tone :: tone_parameters

definition parse_placement :: "rstr \<Rightarrow> rstr + tone_placement" where
  "parse_placement f =
     (if f = lit ''insert'' then Inr ToneInsert
      else if f = lit ''overlay'' then Inr ToneOverlay
      else Inl (lit ''rich tone mode must be insert or overlay''))"

definition parse_waveform :: "bool \<Rightarrow> rstr \<Rightarrow> rstr + waveform" where
  "parse_waveform extended f =
     (if f = lit ''sine'' then Inr Sine
      else if f = lit ''triangle'' then Inr Triangle
      else if f = lit ''square'' then Inr Square
      else if f = lit ''pulse'' \<and> extended then Inr Pulse
      else if f = lit ''sawtooth'' \<and> extended then Inr Sawtooth
      else Inl (lit ''unknown tone waveform''))"

definition parse_envelope :: "rstr list \<Rightarrow> rstr + adsr_envelope option" where
  "parse_envelope fs =
     (if fs ! 6 = lit ''classic'' \<and> length fs = 7 then Inr None
      else if fs ! 6 = lit ''adsr'' \<and> length fs = 11
      then and_then (ok_or (parse_u32 (fs ! 7)) (lit ''invalid attack time'')) (\<lambda>attack.
           and_then (ok_or (parse_u32 (fs ! 8)) (lit ''invalid decay time'')) (\<lambda>decay.
           and_then (ok_or (parse_f32 (fs ! 9)) (lit ''invalid sustain level'')) (\<lambda>sustain.
           and_then (ok_or (parse_u32 (fs ! 10)) (lit ''invalid release time'')) (\<lambda>release.
             Inr (Some \<lparr>adsr_attack_ms = attack, adsr_decay_ms = decay,
                        adsr_sustain_level = sustain, adsr_release_ms = release\<rparr>)))))
      else Inl (lit ''invalid tone envelope or field count''))"

definition optional_number :: "rstr \<Rightarrow> rstr + f32 option" where
  "optional_number v =
     (if v = lit ''-'' then Inr None
      else and_then (ok_or (parse_f32 v) (lit ''invalid tone extension number'')) (\<lambda>x. Inr (Some x)))"

definition parse_extension :: "rstr list \<Rightarrow> tone_shape \<Rightarrow> rstr + tone_shape" where
  "parse_extension tail shape =
     (if length tail \<noteq> 3
      then Inl (lit ''extended tone requires width, sweep end and curve fields'')
      else and_then (optional_number (tail ! 0)) (\<lambda>width.
           and_then (optional_number (tail ! 1)) (\<lambda>sweep.
           and_then
             (if tail ! 2 = lit ''-'' then Inr None
              else if tail ! 2 = lit ''linear'' then Inr (Some Linear)
              else if tail ! 2 = lit ''exponential'' then Inr (Some Exponential)
              else Inl (lit ''unknown envelope curve''))
             (\<lambda>curve. Inr (shape\<lparr>ts_pulse_width := width, ts_end_frequency_hz := sweep,
                                ts_envelope_curve := curve\<rparr>)))))"

definition parse_rich_presentation_tone_arguments :: "rstr \<Rightarrow> rstr + rich_tone_command" where
  "parse_rich_presentation_tone_arguments arguments =
     (let all_fields = take 15 (split_whitespace arguments);
          extended = (all_fields \<noteq> [] \<and> hd all_fields = lit ''3'');
          fs = (if extended \<and> (length all_fields = 10 \<or> length all_fields = 14)
                    then take (length all_fields - 3) all_fields else all_fields)
      in if length fs \<noteq> 7 \<and> length fs \<noteq> 11
         then Inl (lit ''rich tone requires 7 Classic or 11 ADSR fields'')
         else if fs ! 0 \<noteq> lit ''2'' \<and> \<not> extended
         then Inl (lit ''rich tone requires version 2'')
         else and_then (parse_placement (fs ! 1)) (\<lambda>placement.
              and_then (parse_waveform extended (fs ! 5)) (\<lambda>waveform.
              and_then (parse_envelope fs) (\<lambda>envelope.
              let shape0 = default_shape\<lparr>ts_waveform := waveform, ts_envelope := envelope\<rparr>
              in and_then
                (if extended then parse_extension (drop (length fs) all_fields) shape0
                 else Inr shape0) (\<lambda>shape.
              and_then (ok_or (parse_f32 (fs ! 2)) (lit ''invalid tone frequency'')) (\<lambda>f.
              and_then (ok_or (parse_u32 (fs ! 3)) (lit ''invalid tone duration'')) (\<lambda>d.
              and_then (ok_or (parse_f32 (fs ! 4)) (lit ''invalid tone volume'')) (\<lambda>v.
              let tone = \<lparr>tp_frequency_hz = f, tp_duration_ms = d, tp_volume = v, tp_shape = shape\<rparr>
              in and_then (validate_tone tone) (\<lambda>_.
                   Inr \<lparr>rt_placement = placement, rt_tone = tone\<rparr>)))))))))"

section \<open>Queue items\<close>

text \<open>A \<open>PathBuf\<close> built from UTF-8 text is that text.\<close>

datatype queue_item =
  SpeechItem rstr
| CodeItem rstr
| ToneItem f32 nat tone_placement
| ShapedToneItem tone_parameters tone_placement
| SilenceItem nat
| AudioIconItem rstr

definition parse_presentation_tone_item :: "rstr \<Rightarrow> rstr + queue_item" where
  "parse_presentation_tone_item arguments =
     (let fs = split_whitespace arguments
      in if fs \<noteq> [] \<and> (hd fs = lit ''2'' \<or> hd fs = lit ''3'')
         then and_then (parse_rich_presentation_tone_arguments arguments) (\<lambda>c.
                Inr (ShapedToneItem (rt_tone c) (rt_placement c)))
         else and_then (parse_presentation_tone_arguments arguments) (\<lambda>c.
                Inr (ToneItem (pt_frequency_hz c) (pt_duration_ms c) (pt_placement c))))"

section \<open>Bounds\<close>

text \<open>What the tone generator may rely on.\<close>

definition frequency_playable :: "f32 \<Rightarrow> bool" where
  "frequency_playable f \<longleftrightarrow> (\<exists>q. f = F32_Fin q \<and> 0 < q \<and> q \<le> 24000)"

definition duration_playable :: "nat \<Rightarrow> bool" where
  "duration_playable d \<longleftrightarrow> 0 < d \<and> d \<le> 60000"

fun item_playable :: "queue_item \<Rightarrow> bool" where
  "item_playable (ToneItem f d p) \<longleftrightarrow> frequency_playable f \<and> duration_playable d"
| "item_playable (ShapedToneItem t p) \<longleftrightarrow>
     frequency_playable (tp_frequency_hz t) \<and> duration_playable (tp_duration_ms t) \<and>
     f32_unit (tp_volume t)"
| "item_playable (SilenceItem d) \<longleftrightarrow> d \<le> 15000"
| "item_playable _ \<longleftrightarrow> True"

lemma frequency_playable_iff:
  "frequency_playable f \<longleftrightarrow>
     is_finite f \<and> \<not> f32_le f (F32_Fin 0) \<and> \<not> f32_lt (F32_Fin 24000) f"
  by (cases f) (auto simp: frequency_playable_def)

lemma f32_lt_mono: "a \<le> b \<Longrightarrow> f32_lt (F32_Fin b) f \<Longrightarrow> f32_lt (F32_Fin a) f"
  by (cases f) auto

lemma validate_tone_playable:
  assumes "validate_tone t = Inr u"
  shows "frequency_playable (tp_frequency_hz t) \<and> duration_playable (tp_duration_ms t) \<and>
         f32_unit (tp_volume t)"
  using assms f32_lt_mono [of 20000 24000 "tp_frequency_hz t"]
  by (auto simp: validate_tone_def Let_def frequency_playable_iff duration_playable_def
      max_presentation_tone_frequency_hz_def max_shaped_tone_frequency_hz_def
      max_presentation_tone_duration_ms_def split: if_split_asm)

lemma parse_rich_playable:
  assumes "parse_rich_presentation_tone_arguments a = Inr c"
  shows "item_playable (ShapedToneItem (rt_tone c) p)"
proof -
  have "validate_tone (rt_tone c) = Inr ()"
    using assms unfolding parse_rich_presentation_tone_arguments_def Let_def
    by (auto simp: and_then_Inr split: if_split_asm)
  then show ?thesis using validate_tone_playable by simp
qed

lemma parse_tone_arguments_playable:
  "parse_tone_arguments a = Inr t \<Longrightarrow> item_playable (ToneItem (tc_frequency_hz t) (tc_duration_ms t) p)"
  by (auto simp: parse_tone_arguments_def frequency_playable_iff duration_playable_def
      dest!: parse_bounded_tone_values_Inr split: list.splits)

lemma parse_presentation_tone_playable:
  "parse_presentation_tone_arguments a = Inr t \<Longrightarrow>
   item_playable (ToneItem (pt_frequency_hz t) (pt_duration_ms t) (pt_placement t))"
  by (auto simp: parse_presentation_tone_arguments_def and_then_Inr frequency_playable_iff
      duration_playable_def dest!: parse_bounded_tone_values_Inr split: list.splits if_split_asm)

text \<open>
  No argument text produces an unplayable tone: every tone the versioned parser accepts,
  classic or shaped, has a finite frequency above 0 and at most 24000 Hz, a duration of 1 to
  60000 ms and, when shaped, a volume in 0..=1.
\<close>

theorem presentation_tone_playable:
  assumes "parse_presentation_tone_item a = Inr item"
  shows "item_playable item"
  using assms parse_rich_playable parse_presentation_tone_playable
  by (auto simp: parse_presentation_tone_item_def Let_def and_then_Inr simp del: item_playable.simps
      split: if_split_asm)

end
