(* ===== verification/Session_State.thy ===== *)
theory Session_State
  imports Tone_Command
begin

text \<open>
  The settings of a session: \<open>omnivox-core/src/state.rs\<close> with the host preferences of
  \<open>settings.rs\<close> and the punctuation tables of \<open>punctuation.rs\<close> it carries. A \<open>BTreeMap\<close> is an
  association list sorted by key; \<open>Arc\<close> values are never mutated, so sharing is copying.
\<close>

section \<open>Punctuation tables\<close>

datatype punctuation_level = PunctNone | PunctSome | PunctAll

definition parse_punctuation_level :: "rstr \<Rightarrow> punctuation_level option" where
  "parse_punctuation_level s =
     (if s = lit ''none'' then Some PunctNone else if s = lit ''some'' then Some PunctSome
      else if s = lit ''all'' then Some PunctAll else None)"

type_synonym punctuation_table = "(rchar \<times> rstr option) list"

record punctuation_profile =
  pp_fallback :: punctuation_level
  pp_table :: punctuation_table

record punctuation_tables =
  pt_none :: punctuation_table
  pt_some :: punctuation_table
  pt_all :: punctuation_table
  pt_profiles :: "(rstr \<times> punctuation_profile) list"

definition max_punctuation_entries :: nat where "max_punctuation_entries = 512"
definition max_punctuation_name_bytes :: nat where "max_punctuation_name_bytes = 64"
definition max_punctuation_profiles :: nat where "max_punctuation_profiles = 32"

definition valid_profile_id :: "rstr \<Rightarrow> bool" where
  "valid_profile_id s \<longleftrightarrow>
     s \<notin> {lit ''none'', lit ''some'', lit ''all''} \<and> s \<noteq> [] \<and> str_len s \<le> 32 \<and>
     is_ascii_lowercase (hd s) \<and>
     list_all (\<lambda>c. is_ascii_lowercase c \<or> is_ascii_digit c \<or> c = 95 \<or> c = 45) s"

fun btree_insert :: "'k::linorder \<Rightarrow> 'v \<Rightarrow> ('k \<times> 'v) list \<Rightarrow> ('k \<times> 'v) list" where
  "btree_insert k v [] = [(k, v)]"
| "btree_insert k v ((k', v') # m) =
     (if k < k' then (k, v) # (k', v') # m
      else if k = k' then (k, v) # m else (k', v') # btree_insert k v m)"

lemma btree_insert_keys: "set (map fst (btree_insert k v m)) = insert k (set (map fst m))"
  by (induction k v m rule: btree_insert.induct) (simp_all add: insert_commute)

lemma btree_insert_lookup: "map_of (btree_insert k v m) = (map_of m)(k \<mapsto> v)"
  by (induction k v m rule: btree_insert.induct) (auto simp: fun_eq_iff)

lemma btree_insert_sorted:
  "sorted_wrt (<) (map fst m) \<Longrightarrow> sorted_wrt (<) (map fst (btree_insert k v m))"
proof (induction k v m rule: btree_insert.induct)
  case (2 k v k' v' m)
  then show ?case
    using btree_insert_keys [of k v m] by (auto simp: simp del: set_map)
qed simp

fun punct_table :: "punctuation_level \<Rightarrow> punctuation_tables \<Rightarrow> punctuation_table" where
  "punct_table PunctNone t = pt_none t"
| "punct_table PunctSome t = pt_some t"
| "punct_table PunctAll t = pt_all t"

fun insert_entry ::
    "punctuation_level \<Rightarrow> rchar \<Rightarrow> rstr option \<Rightarrow> punctuation_tables \<Rightarrow> punctuation_tables" where
  "insert_entry PunctNone c n t = t\<lparr>pt_none := btree_insert c n (pt_none t)\<rparr>"
| "insert_entry PunctSome c n t = t\<lparr>pt_some := btree_insert c n (pt_some t)\<rparr>"
| "insert_entry PunctAll c n t = t\<lparr>pt_all := btree_insert c n (pt_all t)\<rparr>"

fun level_speaks :: "punctuation_level \<Rightarrow> punctuation_level \<Rightarrow> bool" where
  "level_speaks PunctNone minimum = (minimum = PunctNone)"
| "level_speaks PunctSome minimum = (minimum \<noteq> PunctAll)"
| "level_speaks PunctAll minimum = True"

fun add_defaults ::
    "(rchar \<times> string \<times> punctuation_level) list \<Rightarrow> punctuation_tables \<Rightarrow> punctuation_tables" where
  "add_defaults [] t = t"
| "add_defaults ((c, name, minimum) # entries) t =
     add_defaults entries
       (fold (\<lambda>level. insert_entry level c (if level_speaks level minimum then Some (lit name) else None))
          [PunctNone, PunctSome, PunctAll] t)"

definition ascii_defaults :: "(rchar \<times> string \<times> punctuation_level) list" where
  "ascii_defaults =
     [(33, ''bang'', PunctSome), (34, ''quote'', PunctSome), (35, ''pound'', PunctSome),
      (36, ''dollar'', PunctNone), (37, ''percent'', PunctNone), (38, ''ampersand'', PunctAll),
      (39, ''apostrophe'', PunctAll), (40, ''left paren'', PunctSome),
      (41, ''right paren'', PunctSome), (42, ''star'', PunctSome), (43, ''plus'', PunctSome),
      (44, ''comma'', PunctAll), (45, ''dash'', PunctSome), (46, ''dot'', PunctAll),
      (47, ''slash'', PunctSome), (58, ''colon'', PunctSome), (59, ''semicolon'', PunctSome),
      (60, ''less than'', PunctSome), (61, ''equals'', PunctSome), (62, ''greater than'', PunctSome),
      (63, ''question'', PunctAll), (64, ''at'', PunctAll), (91, ''left bracket'', PunctAll),
      (92, ''backslash'', PunctSome), (93, ''right bracket'', PunctAll), (94, ''caret'', PunctSome),
      (95, ''underline'', PunctAll), (96, ''backquote'', PunctSome), (123, ''left brace'', PunctAll),
      (124, ''pipe'', PunctAll), (125, ''right brace'', PunctAll), (126, ''tilde'', PunctSome)]"

definition unicode_defaults :: "(rchar \<times> string \<times> punctuation_level) list" where
  "unicode_defaults =
     [(8216, ''apostrophe'', PunctAll), (8217, ''apostrophe'', PunctAll),
      (700, ''apostrophe'', PunctAll), (8218, ''low single quote'', PunctAll),
      (8219, ''reversed single quote'', PunctAll), (8220, ''quote'', PunctSome),
      (8221, ''quote'', PunctSome), (8222, ''low double quote'', PunctSome),
      (8223, ''reversed double quote'', PunctSome), (171, ''left guillemet'', PunctSome),
      (187, ''right guillemet'', PunctSome), (8249, ''left single guillemet'', PunctAll),
      (8250, ''right single guillemet'', PunctAll), (8208, ''hyphen'', PunctSome),
      (8209, ''nonbreaking hyphen'', PunctSome), (8210, ''figure dash'', PunctSome),
      (8211, ''en dash'', PunctSome), (8212, ''em dash'', PunctSome),
      (8213, ''horizontal bar'', PunctSome), (8230, ''ellipsis'', PunctAll),
      (8226, ''bullet'', PunctAll), (183, ''middle dot'', PunctAll), (8242, ''prime'', PunctAll),
      (8243, ''double prime'', PunctAll), (8722, ''minus'', PunctSome)]"

definition empty_tables :: punctuation_tables where
  "empty_tables = \<lparr>pt_none = [], pt_some = [], pt_all = [], pt_profiles = []\<rparr>"

definition legacy_tables :: punctuation_tables where
  "legacy_tables = add_defaults ascii_defaults empty_tables"

definition default_tables :: punctuation_tables where
  "default_tables = add_defaults unicode_defaults legacy_tables"

definition spoken_name :: "punctuation_tables \<Rightarrow> rchar \<Rightarrow> punctuation_level \<Rightarrow> rstr option" where
  "spoken_name t c level = Option.bind (map_of (punct_table level t) c) id"

definition entry_error :: "rchar \<times> rstr option \<Rightarrow> string option" where
  "entry_error e =
     (if is_control (fst e) \<or> is_whitespace (fst e)
      then Some ''punctuation key must be a non-whitespace, non-control scalar''
      else case snd e of
             None \<Rightarrow> None
           | Some name \<Rightarrow>
               if name = [] \<or> max_punctuation_name_bytes < str_len name \<or> trim name \<noteq> name \<or>
                  list_ex is_control name
               then Some ''invalid punctuation name'' else None)"

definition validate_table :: "punctuation_table \<Rightarrow> string + unit" where
  "validate_table t =
     (if max_punctuation_entries < length t then Inl ''too many punctuation entries''
      else check_each (\<lambda>e. case entry_error e of None \<Rightarrow> Inr () | Some m \<Rightarrow> Inl m) t)"

definition validate_tables :: "punctuation_tables \<Rightarrow> string + unit" where
  "validate_tables t =
     (if max_punctuation_profiles < length (pt_profiles t) \<or>
         list_ex (\<lambda>p. \<not> valid_profile_id (fst p)) (pt_profiles t)
      then Inl ''invalid or excessive punctuation profile IDs''
      else check_each validate_table
             ([pt_none t, pt_some t, pt_all t] @ map (pp_table \<circ> snd) (pt_profiles t)))"

section \<open>Host preferences\<close>

datatype channel_mode = LeftChannel | RightChannel | BothChannels

definition parse_channel_mode :: "rstr \<Rightarrow> channel_mode option" where
  "parse_channel_mode s =
     (if s = lit ''left'' then Some LeftChannel else if s = lit ''right'' then Some RightChannel
      else if s = lit ''both'' then Some BothChannels else None)"

datatype capitalization_presentation = CapNone | CapSpoken | CapTone | CapSpokenTone | CapCustom

definition parse_capitalization :: "rstr \<Rightarrow> capitalization_presentation option" where
  "parse_capitalization s =
     (if s = lit ''none'' then Some CapNone else if s = lit ''spoken'' then Some CapSpoken
      else if s = lit ''tone'' then Some CapTone
      else if s = lit ''spoken-tone'' then Some CapSpokenTone
      else if s = lit ''custom'' then Some CapCustom else None)"

datatype capital_pitch = PitchOff | PitchValue f32

record capital_pitch_settings =
  cp_default :: capital_pitch
  cp_engines :: "(rstr \<times> capital_pitch) list"

definition default_capital_pitch :: capital_pitch_settings where
  "default_capital_pitch = \<lparr>cp_default = PitchValue (F32_Fin (3 / 2)), cp_engines = []\<rparr>"

definition pitch_for :: "capital_pitch_settings \<Rightarrow> rstr \<Rightarrow> f32 \<Rightarrow> f32" where
  "pitch_for s e ordinary =
     (case (case map_of (cp_engines s) e of Some p \<Rightarrow> p | None \<Rightarrow> cp_default s) of
        PitchOff \<Rightarrow> ordinary
      | PitchValue v \<Rightarrow> v)"

record speech_defaults =
  sd_voice :: "rstr option"
  sd_rate :: f32
  sd_pitch :: f32
  sd_voice_volume :: f32
  sd_tone_volume :: f32
  sd_sound_volume :: f32
  sd_punctuation :: punctuation_level
  sd_split_caps :: bool
  sd_character_scale :: f32

definition default_speech :: speech_defaults where
  "default_speech =
     \<lparr>sd_voice = None, sd_rate = F32_Fin (1 / 2), sd_pitch = F32_Fin 1, sd_voice_volume = F32_Fin 1,
      sd_tone_volume = F32_Fin 1, sd_sound_volume = F32_Fin 1, sd_punctuation = PunctAll,
      sd_split_caps = True, sd_character_scale = round_f32 (12 / 10)\<rparr>"

definition validate_speech_defaults :: "speech_defaults \<Rightarrow> string + unit" where
  "validate_speech_defaults d =
     (if (case sd_voice d of
            None \<Rightarrow> False
          | Some v \<Rightarrow> trim v = [] \<or> 1024 < str_len v \<or> list_ex is_control v)
      then Inl ''voice''
      else check_each
        (\<lambda>(name, v, lo, hi). if \<not> is_finite v \<or> \<not> f32_in lo hi v then Inl name else Inr ())
        [(''rate'', sd_rate d, F32_Fin 0, F32_Fin 2),
         (''pitch'', sd_pitch d, F32_Fin (1 / 2), F32_Fin 2),
         (''voice_volume'', sd_voice_volume d, F32_Fin 0, F32_Fin 1),
         (''tone_volume'', sd_tone_volume d, F32_Fin 0, F32_Fin 1),
         (''sound_volume'', sd_sound_volume d, F32_Fin 0, F32_Fin 1),
         (''character_scale'', sd_character_scale d, round_f32 (1 / 10), F32_Fin 4)])"

definition default_chunk_words :: nat where "default_chunk_words = 15"

definition chunk_word_limit :: "nat \<Rightarrow> string + nat" where
  "chunk_word_limit v =
     (if 1 \<le> v \<and> v \<le> 100 then Inr v
      else Inl ''max_chunk_words must be an integer from 1 through 100'')"

section \<open>The session state\<close>

record audio_routing =
  ar_device_id :: nat
  ar_channel_mode :: channel_mode

definition default_audio_routing :: audio_routing where
  "default_audio_routing = \<lparr>ar_device_id = 0, ar_channel_mode = BothChannels\<rparr>"

record tts_state =
  st_speech_defaults :: speech_defaults
  st_max_chunk_words :: nat
  st_capital_pitch :: capital_pitch_settings
  st_current_voice :: rstr
  st_pitch_multiplier :: f32
  st_speech_rate :: f32
  st_punctuation_tables :: punctuation_tables
  st_punctuation_level :: punctuation_level
  st_punctuation_profile :: "rstr option"
  st_split_caps :: bool
  st_capitalization_presentation :: capitalization_presentation
  st_voice_volume :: f32
  st_tone_volume :: f32
  st_sound_volume :: f32
  st_character_scale :: f32
  st_pre_delay :: nat
  st_post_delay :: nat
  st_next_pre_delay :: nat
  st_speech_routing :: audio_routing
  st_tone_routing :: audio_routing
  st_sound_routing :: audio_routing
  st_startup_channel_mode :: channel_mode

definition from_speech_defaults :: "speech_defaults \<Rightarrow> tts_state" where
  "from_speech_defaults d =
     \<lparr>st_speech_defaults = d, st_max_chunk_words = default_chunk_words,
      st_capital_pitch = default_capital_pitch,
      st_current_voice = (case sd_voice d of Some v \<Rightarrow> v | None \<Rightarrow> lit ''en-US''),
      st_pitch_multiplier = sd_pitch d, st_speech_rate = sd_rate d,
      st_punctuation_tables = default_tables, st_punctuation_level = sd_punctuation d,
      st_punctuation_profile = None, st_split_caps = sd_split_caps d,
      st_capitalization_presentation = CapNone, st_voice_volume = sd_voice_volume d,
      st_tone_volume = sd_tone_volume d, st_sound_volume = sd_sound_volume d,
      st_character_scale = sd_character_scale d, st_pre_delay = 0, st_post_delay = 0,
      st_next_pre_delay = 0, st_speech_routing = default_audio_routing,
      st_tone_routing = default_audio_routing, st_sound_routing = default_audio_routing,
      st_startup_channel_mode = BothChannels\<rparr>"

definition set_process_channel_mode :: "channel_mode \<Rightarrow> tts_state \<Rightarrow> tts_state" where
  "set_process_channel_mode m s =
     s\<lparr>st_speech_routing := (st_speech_routing s)\<lparr>ar_channel_mode := m\<rparr>,
       st_tone_routing := (st_tone_routing s)\<lparr>ar_channel_mode := m\<rparr>,
       st_sound_routing := (st_sound_routing s)\<lparr>ar_channel_mode := m\<rparr>\<rparr>"

definition reset_state :: "tts_state \<Rightarrow> tts_state" where
  "reset_state s =
     set_process_channel_mode (st_startup_channel_mode s)
       ((from_speech_defaults (st_speech_defaults s))
          \<lparr>st_max_chunk_words := st_max_chunk_words s, st_capital_pitch := st_capital_pitch s,
           st_punctuation_tables := st_punctuation_tables s,
           st_startup_channel_mode := st_startup_channel_mode s\<rparr>)"

text \<open>\<open>None\<close> is the panic of indexing a profile that does not exist.\<close>

definition punctuation_table_of :: "tts_state \<Rightarrow> punctuation_table option" where
  "punctuation_table_of s =
     (case st_punctuation_profile s of
        Some i \<Rightarrow> map_option pp_table (map_of (pt_profiles (st_punctuation_tables s)) i)
      | None \<Rightarrow> Some (punct_table (st_punctuation_level s) (st_punctuation_tables s)))"

definition consume_next_pre_delay :: "tts_state \<Rightarrow> nat \<times> tts_state" where
  "consume_next_pre_delay s = (st_next_pre_delay s, s\<lparr>st_next_pre_delay := 0\<rparr>)"

text \<open>\<open>normalize_rate\<close> of \<open>omnivox-cli/src/text.rs\<close>.\<close>

definition normalize_rate :: "f32 \<Rightarrow> f32" where
  "normalize_rate rate =
     f32_clamp (F32_Fin 0) (F32_Fin 2) (if f32_lt (F32_Fin 1) rate then f32_div rate 100 else rate)"

section \<open>Reset and tables\<close>

lemma normalize_rate_range: "is_finite r \<Longrightarrow> f32_in (F32_Fin 0) (F32_Fin 2) (normalize_rate r)"
  unfolding normalize_rate_def
  by (rule f32_clamp_in) (cases r; auto simp: f32_div_not_nan round_f32_not_nan)+

lemma reset_state_simps [simp]:
  "st_speech_defaults (reset_state s) = st_speech_defaults s"
  "st_punctuation_tables (reset_state s) = st_punctuation_tables s"
  "st_punctuation_profile (reset_state s) = None"
  "st_startup_channel_mode (reset_state s) = st_startup_channel_mode s"
  "st_max_chunk_words (reset_state s) = st_max_chunk_words s"
  "st_capital_pitch (reset_state s) = st_capital_pitch s"
  "st_speech_rate (reset_state s) = sd_rate (st_speech_defaults s)"
  "st_pitch_multiplier (reset_state s) = sd_pitch (st_speech_defaults s)"
  "st_voice_volume (reset_state s) = sd_voice_volume (st_speech_defaults s)"
  "st_tone_volume (reset_state s) = sd_tone_volume (st_speech_defaults s)"
  "st_sound_volume (reset_state s) = sd_sound_volume (st_speech_defaults s)"
  "st_character_scale (reset_state s) = sd_character_scale (st_speech_defaults s)"
  by (simp_all add: reset_state_def set_process_channel_mode_def from_speech_defaults_def)

text \<open>Reset reads only what the host fixed at startup.\<close>

definition same_host :: "tts_state \<Rightarrow> tts_state \<Rightarrow> bool" where
  "same_host s t \<longleftrightarrow>
     st_speech_defaults s = st_speech_defaults t \<and> st_max_chunk_words s = st_max_chunk_words t \<and>
     st_capital_pitch s = st_capital_pitch t \<and>
     st_punctuation_tables s = st_punctuation_tables t \<and>
     st_startup_channel_mode s = st_startup_channel_mode t"

lemma same_host_refl [simp]: "same_host s s"
  by (simp add: same_host_def)

lemma same_host_reset: "same_host s (reset_state s)"
  by (simp add: same_host_def)

lemma reset_same_host: "same_host s t \<Longrightarrow> reset_state s = reset_state t"
  by (simp add: reset_state_def same_host_def)

lemma same_host_trans: "same_host s t \<Longrightarrow> same_host t u \<Longrightarrow> same_host s u"
  by (simp add: same_host_def)

text \<open>The built-in tables: a character is named at a level exactly when its minimum admits it.\<close>

lemma insert_entry_table:
  "punct_table l (insert_entry l' c n t) =
     (if l = l' then btree_insert c n (punct_table l t) else punct_table l t)"
  by (cases l; cases l') simp_all

lemma spoken_name_insert_entry:
  "spoken_name (insert_entry l' d n t) c l =
     (if l = l' \<and> c = d then n else spoken_name t c l)"
  by (simp add: spoken_name_def insert_entry_table btree_insert_lookup)

lemma spoken_name_add_defaults:
  "distinct (map fst es) \<Longrightarrow>
   spoken_name (add_defaults es t) c l =
     (case map_of es c of
        None \<Rightarrow> spoken_name t c l
      | Some (n, minimum) \<Rightarrow> if level_speaks l minimum then Some (lit n) else None)"
proof (induction es arbitrary: t)
  case (Cons e es)
  obtain d n minimum where e: "e = (d, n, minimum)" by (cases e)
  show ?case
  proof (cases "c = d")
    case True
    with Cons.prems e have "map_of es c = None" by (simp add: map_of_eq_None_iff)
    with True Cons e show ?thesis
      by (cases l) (simp_all add: spoken_name_insert_entry del: insert_entry.simps)
  next
    case False
    with Cons e show ?thesis
      by (simp add: spoken_name_insert_entry del: insert_entry.simps split: option.splits)
  qed
qed simp

lemma set_btree_insert: "set (btree_insert k v m) \<subseteq> insert (k, v) (set m)"
  by (induction k v m rule: btree_insert.induct) auto

lemma length_btree_insert: "length (btree_insert k v m) \<le> Suc (length m)"
  by (induction k v m rule: btree_insert.induct) simp_all

text \<open>A table whose built-in part is valid: short enough, and each entry passes.\<close>

definition table_within :: "nat \<Rightarrow> punctuation_table \<Rightarrow> bool" where
  "table_within n t \<longleftrightarrow> length t \<le> n \<and> (\<forall>e \<in> set t. entry_error e = None)"

lemma table_within_insert:
  "table_within n t \<Longrightarrow> entry_error (c, v) = None \<Longrightarrow> table_within (Suc n) (btree_insert c v t)"
  using set_btree_insert [of c v t] length_btree_insert [of c v t]
  by (fastforce simp: table_within_def)

lemma table_within_validate: "table_within n t \<Longrightarrow> n \<le> 512 \<Longrightarrow> validate_table t = Inr ()"
  by (auto simp: table_within_def validate_table_def check_each_Inr max_punctuation_entries_def)

definition entry_sound :: "rchar \<times> string \<times> punctuation_level \<Rightarrow> bool" where
  "entry_sound e \<longleftrightarrow>
     entry_error (fst e, None) = None \<and> entry_error (fst e, Some (lit (fst (snd e)))) = None"

lemma add_defaults_within:
  "list_all entry_sound es \<Longrightarrow> (\<And>l. table_within n (punct_table l t)) \<Longrightarrow>
   table_within (n + length es) (punct_table l (add_defaults es t))"
proof (induction es arbitrary: n t)
  case (Cons e es)
  obtain c name minimum where e: "e = (c, name, minimum)" by (cases e)
  define v where "v = (\<lambda>l. if level_speaks l minimum then Some (lit name) else None)"
  define t' where "t' = fold (\<lambda>l. insert_entry l c (v l)) [PunctNone, PunctSome, PunctAll] t"
  have "entry_error (c, v l) = None" for l
    using Cons.prems(1) e by (simp add: v_def entry_sound_def)
  then have "table_within (Suc n) (punct_table l t')" for l
    using table_within_insert [OF Cons.prems(2), of c "v l" l]
    by (cases l) (simp_all add: t'_def insert_entry_table del: insert_entry.simps)
  then have "table_within (Suc n + length es) (punct_table l (add_defaults es t'))"
    using Cons.prems(1) by (intro Cons.IH) simp_all
  then show ?case using e by (simp add: t'_def v_def)
qed simp

lemma insert_entry_profiles: "pt_profiles (insert_entry l c v t) = pt_profiles t"
  by (cases l) simp_all

lemma add_defaults_profiles [simp]: "pt_profiles (add_defaults es t) = pt_profiles t"
  by (induction es t rule: add_defaults.induct)
    (simp_all add: insert_entry_profiles del: insert_entry.simps)

lemmas entry_eval =
  entry_sound_def entry_error_def lit_Cons is_control_def is_whitespace_def
  max_punctuation_name_bytes_def trim_def trim_start_def trim_end_def utf8_len_def

lemma ascii_entries_sound: "list_all entry_sound ascii_defaults"
  by (simp add: ascii_defaults_def entry_eval)

lemma unicode_entries_sound: "list_all entry_sound unicode_defaults"
  by (simp add: unicode_defaults_def entry_eval)

lemma default_tables_valid: "validate_tables default_tables = Inr ()"
proof -
  have "table_within 0 (punct_table l empty_tables)" for l
    by (cases l) (simp_all add: empty_tables_def table_within_def)
  then have "table_within (0 + length ascii_defaults) (punct_table l legacy_tables)" for l
    unfolding legacy_tables_def using ascii_entries_sound unicode_entries_sound by (intro add_defaults_within) simp_all
  then have "table_within (0 + length ascii_defaults + length unicode_defaults)
      (punct_table l default_tables)" for l
    unfolding default_tables_def using ascii_entries_sound unicode_entries_sound by (intro add_defaults_within) simp_all
  then have "validate_table (punct_table l default_tables) = Inr ()" for l
    by (rule table_within_validate) (simp add: ascii_defaults_def unicode_defaults_def)
  from this [of PunctNone] this [of PunctSome] this [of PunctAll]
  show ?thesis
    by (simp add: validate_tables_def default_tables_def legacy_tables_def empty_tables_def
        max_punctuation_profiles_def)
qed

text \<open>
  The built-in punctuation tables are valid and name a character at a level exactly when the
  character has a built-in entry whose minimum level admits it; every other character is silent.
\<close>

theorem builtin_punctuation:
  "validate_tables default_tables = Inr () \<and>
   spoken_name default_tables c level =
     (case map_of (ascii_defaults @ unicode_defaults) c of
        None \<Rightarrow> None
      | Some (name, minimum) \<Rightarrow> if level_speaks level minimum then Some (lit name) else None)"
proof
  show "validate_tables default_tables = Inr ()" by (rule default_tables_valid)
next
  have d: "distinct (map fst unicode_defaults)" "distinct (map fst ascii_defaults)"
    "set (map fst unicode_defaults) \<inter> set (map fst ascii_defaults) = {}"
    by (simp_all add: ascii_defaults_def unicode_defaults_def)
  have e: "spoken_name empty_tables c level = None"
    by (cases level) (simp_all add: spoken_name_def empty_tables_def)
  have "map_of ascii_defaults c \<noteq> None \<Longrightarrow> map_of unicode_defaults c = None"
    using d(3) by (auto simp: map_of_eq_None_iff)
  then show "spoken_name default_tables c level =
     (case map_of (ascii_defaults @ unicode_defaults) c of
        None \<Rightarrow> None
      | Some (name, minimum) \<Rightarrow> if level_speaks level minimum then Some (lit name) else None)"
    using d(1,2) e
    by (cases "map_of ascii_defaults c")
      (simp_all add: default_tables_def legacy_tables_def spoken_name_add_defaults map_add_Some_iff
        map_add_def split: option.splits)
qed

end
