(* ===== verification/Native_Parameters.thy ===== *)
theory Native_Parameters
  imports Voice_Choices Session_State
begin

text \<open>
  Engine-specific voice parameters (\<open>omnivox-tts/src/native_parameters\<close>): the catalogue an engine
  describes itself with, the patch a saved voice carries, their validation, and the plan that
  composes the common settings, the context and the patch for one actual voice and orders the
  parameters so that none is disturbed by a side effect of a later one.

  \<open>i64\<close> values are integers; \<open>f64\<close> values have the order and the special values of \<open>f32\<close>, only
  their rounding differs. A \<open>BTreeMap\<close> is its entries in key order.
\<close>

section \<open>Types\<close>

definition max_parameters :: nat where "max_parameters = 512"
definition max_native_operations :: nat where "max_native_operations = 64"
definition max_enum_choices :: nat where "max_enum_choices = 64"
definition max_identifier_bytes :: nat where "max_identifier_bytes = 128"

datatype parameter_error =
  ParamInvalid string
| ParamRejected rstr string
| ParamIdentityMismatch
| ParamStaleIdentity
| ParamDependencyCycle

fun parameter_error_text :: "parameter_error \<Rightarrow> rstr" where
  "parameter_error_text (ParamInvalid why) = lit ''invalid native parameter definition: '' @ lit why"
| "parameter_error_text (ParamRejected i why) =
     lit ''native parameter '' @ i @ lit '': '' @ lit why"
| "parameter_error_text ParamIdentityMismatch =
     lit ''native parameter engine or schema does not match the selected choice''"
| "parameter_error_text ParamStaleIdentity =
     lit ''native parameter evidence belongs to a different runtime or profile''"
| "parameter_error_text ParamDependencyCycle =
     lit ''native parameter dependencies require an adapter-specific plan''"

type_synonym f64 = f32

definition round_f64 :: "rat \<Rightarrow> f64" where
  "round_f64 q =
     (if q = 0 then F32_Fin 0
      else let u = rat_pow2 (max (binary_exponent q) (- 1022) - 52);
               r = of_int (round_half_even (q / u)) * u
           in if rat_pow2 1024 \<le> \<bar>r\<bar> then (if 0 < r then F32_PosInf else F32_NegInf)
              else F32_Fin r)"

datatype native_value = NvInteger int | NvNumber f64 | NvBoolean bool | NvEnum rstr

record enum_choice =
  ec_value :: rstr
  ec_label :: rstr

datatype value_type =
  VtInteger int int int | VtNumber f64 f64 f64 | VtBoolean | VtEnum "enum_choice list"

datatype parameter_scope = VoiceScope | EngineScope | StartupScope

datatype availability_status = PaSupported | PaVoiceUnavailable | PaRuntimeUnsupported | PaNotChecked

record parameter_availability =
  pa_status :: availability_status
  pa_reason :: "rstr option"

datatype default_source = RuntimeReadback | QualifiedProfile | UnknownSource

record parameter_default =
  df_source :: default_source
  df_value :: "native_value option"
  df_reset_supported :: bool

record parameter_descriptor =
  pd_id :: rstr
  pd_label :: rstr
  pd_help :: rstr
  pd_group :: rstr
  pd_order :: nat
  pd_unit :: "rstr option"
  pd_value_type :: value_type
  pd_scope :: parameter_scope
  pd_adjustable :: bool
  pd_availability :: parameter_availability
  pd_default :: parameter_default
  pd_side_effects :: "rstr list"

datatype common_input =
  CiRate | CiRateOffset | CiAveragePitch | CiPitchRange | CiStress | CiRichness | CiVolume
| CiGain | CiLowPass | CiHighPass | CiPan | CiReverb | CiEcho | CiChorus

record common_mapping =
  cm_common_inputs :: "common_input list"
  cm_native_outputs :: "rstr list"

record catalogue_identity =
  ci_schema_id :: rstr
  ci_profile_id :: rstr
  ci_catalogue_revision :: rstr
  ci_runtime_generation :: nat

record parameter_catalogue =
  ca_engine_id :: rstr
  ca_identity :: catalogue_identity
  ca_voice_id :: "rstr option"
  ca_parameters :: "parameter_descriptor list"
  ca_mappings :: "common_mapping list"

record native_patch =
  np_engine_id :: rstr
  np_schema_id :: rstr
  np_parameters :: "(rstr \<times> native_value adjustment) list"

section \<open>Validation\<close>

definition param_identifier :: "rstr \<Rightarrow> bool" where
  "param_identifier v \<longleftrightarrow>
     v \<noteq> [] \<and> str_len v \<le> max_identifier_bytes \<and>
     list_all (\<lambda>b. is_ascii_alphanumeric b \<or> b \<in> {95, 45, 46}) v"

definition visible_text :: "rstr \<Rightarrow> nat \<Rightarrow> bool" where
  "visible_text v n \<longleftrightarrow> v \<noteq> [] \<and> str_len v \<le> n \<and> \<not> list_ex is_control v"

definition param_require :: "bool \<Rightarrow> string \<Rightarrow> parameter_error + unit" where
  "param_require condition why = (if condition then Inr () else Inl (ParamInvalid why))"

lemma param_require_Inr [res_simps]: "param_require c m = Inr u \<longleftrightarrow> c"
  by (simp add: param_require_def)

fun validate_native_value :: "native_value \<Rightarrow> parameter_error + unit" where
  "validate_native_value (NvNumber n) = param_require (is_finite n) ''nonfinite native value''"
| "validate_native_value (NvEnum s) = param_require (param_identifier s) ''invalid enum identifier''"
| "validate_native_value v = Inr ()"

fun validate_enum_choices :: "rstr set \<Rightarrow> enum_choice list \<Rightarrow> parameter_error + unit" where
  "validate_enum_choices seen [] = Inr ()"
| "validate_enum_choices seen (c # cs) =
     and_then
       (param_require
          (param_identifier (ec_value c) \<and> visible_text (ec_label c) 128 \<and> ec_value c \<notin> seen)
          ''invalid or duplicate enum choice'')
       (\<lambda>_. validate_enum_choices (insert (ec_value c) seen) cs)"

fun validate_value_type :: "value_type \<Rightarrow> parameter_error + unit" where
  "validate_value_type (VtInteger lo hi step) =
     param_require (lo \<le> hi \<and> 0 < step) ''invalid integer constraints''"
| "validate_value_type (VtNumber lo hi step) =
     param_require
       (is_finite lo \<and> is_finite hi \<and> is_finite step \<and> f32_le lo hi \<and> f32_lt (F32_Fin 0) step)
       ''invalid number constraints''"
| "validate_value_type VtBoolean = Inr ()"
| "validate_value_type (VtEnum cs) =
     and_then
       (param_require (cs \<noteq> [] \<and> length cs \<le> max_enum_choices) ''invalid enum size'')
       (\<lambda>_. validate_enum_choices {} cs)"

fun value_in_range :: "value_type \<Rightarrow> native_value \<Rightarrow> bool" where
  "value_in_range (VtInteger lo hi step) (NvInteger v) = (lo \<le> v \<and> v \<le> hi)"
| "value_in_range (VtNumber lo hi step) (NvNumber v) = f32_in lo hi v"
| "value_in_range (VtNumber lo hi step) (NvInteger v) = f32_in lo hi (round_f64 (of_int v))"
| "value_in_range VtBoolean (NvBoolean v) = True"
| "value_in_range (VtEnum cs) (NvEnum v) = list_ex (\<lambda>c. ec_value c = v) cs"
| "value_in_range _ _ = False"

definition accepts_value :: "value_type \<Rightarrow> native_value \<Rightarrow> bool" where
  "accepts_value t v \<longleftrightarrow>
     is_ok (validate_value_type t) \<and> is_ok (validate_native_value v) \<and> value_in_range t v"

definition validate_identity :: "catalogue_identity \<Rightarrow> parameter_error + unit" where
  "validate_identity i =
     and_then
       (param_require (param_identifier (ci_schema_id i) \<and> param_identifier (ci_profile_id i))
          ''invalid schema/profile ID'')
       (\<lambda>_. param_require
          (ci_runtime_generation i \<noteq> 0 \<and> str_len (ci_catalogue_revision i) = 64 \<and>
           list_all (\<lambda>b. is_ascii_digit b \<or> 97 \<le> b \<and> b \<le> 102) (ci_catalogue_revision i))
          ''invalid catalogue revision or runtime generation'')"

fun validate_side_effects :: "rstr \<Rightarrow> rstr set \<Rightarrow> rstr list \<Rightarrow> parameter_error + unit" where
  "validate_side_effects own seen [] = Inr ()"
| "validate_side_effects own seen (i # rest) =
     and_then
       (param_require (param_identifier i \<and> i \<noteq> own \<and> i \<notin> seen) ''invalid side effect'')
       (\<lambda>_. validate_side_effects own (insert i seen) rest)"

definition validate_parameter :: "parameter_descriptor \<Rightarrow> parameter_error + unit" where
  "validate_parameter p =
     and_then
       (param_require (param_identifier (pd_id p) \<and> param_identifier (pd_group p))
          ''invalid parameter/group ID'') (\<lambda>_.
     and_then
       (param_require (visible_text (pd_label p) 128 \<and> visible_text (pd_help p) 1024)
          ''invalid label/help'') (\<lambda>_.
     and_then
       (param_require (case pd_unit p of None \<Rightarrow> True | Some u \<Rightarrow> param_identifier u)
          ''invalid unit'') (\<lambda>_.
     and_then (validate_value_type (pd_value_type p)) (\<lambda>_.
     and_then
       (param_require
          (if pa_status (pd_availability p) = PaSupported
           then pa_reason (pd_availability p) = None
           else case pa_reason (pd_availability p) of
                  None \<Rightarrow> False | Some r \<Rightarrow> visible_text r 1024)
          ''availability reason disagrees with status'') (\<lambda>_.
     and_then
       (param_require
          (case df_source (pd_default p) of
             UnknownSource \<Rightarrow> df_value (pd_default p) = None
           | _ \<Rightarrow> (case df_value (pd_default p) of
                     None \<Rightarrow> False | Some v \<Rightarrow> accepts_value (pd_value_type p) v))
          ''default value disagrees with evidence or type'') (\<lambda>_.
     and_then
       (param_require
          (\<not> (pd_adjustable p \<and> pd_scope p = VoiceScope) \<or> df_reset_supported (pd_default p))
          ''adjustable voice parameter lacks reset support'') (\<lambda>_.
     and_then
       (param_require (length (pd_side_effects p) \<le> max_parameters) ''too many side effects'') (\<lambda>_.
     validate_side_effects (pd_id p) {} (pd_side_effects p)))))))))"

fun validate_parameters ::
    "rstr option \<Rightarrow> rstr set \<Rightarrow> parameter_descriptor list \<Rightarrow> parameter_error + unit" where
  "validate_parameters voice ids [] = Inr ()"
| "validate_parameters voice ids (p # ps) =
     and_then (validate_parameter p) (\<lambda>_.
     and_then (param_require (pd_id p \<notin> ids) ''duplicate parameter ID'') (\<lambda>_.
     and_then
       (param_require (voice \<noteq> None \<or> df_source (pd_default p) \<noteq> RuntimeReadback)
          ''voice readback requires physical voice identity'')
       (\<lambda>_. validate_parameters voice (insert (pd_id p) ids) ps)))"

definition validate_mapping :: "rstr set \<Rightarrow> common_mapping \<Rightarrow> parameter_error + unit" where
  "validate_mapping ids m =
     and_then
       (param_require
          (cm_common_inputs m \<noteq> [] \<and> length (cm_common_inputs m) \<le> 14 \<and>
           distinct (cm_common_inputs m)) ''invalid common inputs'')
       (\<lambda>_. param_require
          (cm_native_outputs m \<noteq> [] \<and> length (cm_native_outputs m) \<le> max_parameters \<and>
           list_all (\<lambda>i. i \<in> ids) (cm_native_outputs m) \<and> distinct (cm_native_outputs m))
          ''invalid native mapping outputs'')"

definition validate_catalogue :: "parameter_catalogue \<Rightarrow> parameter_error + unit" where
  "validate_catalogue c =
     (let ids = set (map pd_id (ca_parameters c))
      in and_then (param_require (param_identifier (ca_engine_id c)) ''invalid engine ID'') (\<lambda>_.
         and_then (validate_identity (ca_identity c)) (\<lambda>_.
         and_then
           (param_require
              (case ca_voice_id c of
                 None \<Rightarrow> True | Some v \<Rightarrow> visible_text v max_physical_voice_id_bytes)
              ''invalid physical voice ID'') (\<lambda>_.
         and_then
           (param_require (length (ca_parameters c) \<le> max_parameters) ''too many descriptors'') (\<lambda>_.
         and_then (validate_parameters (ca_voice_id c) {} (ca_parameters c)) (\<lambda>_.
         and_then
           (check_each (\<lambda>p. param_require (list_all (\<lambda>i. i \<in> ids) (pd_side_effects p))
              ''unknown side effect target'') (ca_parameters c)) (\<lambda>_.
         and_then (param_require (length (ca_mappings c) \<le> max_parameters) ''too many mappings'')
           (\<lambda>_. check_each (validate_mapping ids) (ca_mappings c)))))))))"

definition validate_operation :: "rstr \<times> native_value adjustment \<Rightarrow> parameter_error + unit" where
  "validate_operation op =
     and_then (param_require (param_identifier (fst op)) ''invalid native parameter ID'') (\<lambda>_.
       case snd op of SetTo v \<Rightarrow> validate_native_value v | ToDefault \<Rightarrow> Inr ())"

definition validate_shape_of_patch :: "native_patch \<Rightarrow> parameter_error + unit" where
  "validate_shape_of_patch n =
     and_then
       (param_require (param_identifier (np_engine_id n) \<and> param_identifier (np_schema_id n))
          ''invalid native identity'') (\<lambda>_.
     and_then
       (param_require (length (np_parameters n) \<le> max_native_operations)
          ''too many native operations'') (\<lambda>_.
     check_each validate_operation (np_parameters n)))"

definition find_parameter :: "parameter_catalogue \<Rightarrow> rstr \<Rightarrow> parameter_descriptor option" where
  "find_parameter c i = find (\<lambda>p. pd_id p = i) (ca_parameters c)"

definition validate_operation_for ::
    "parameter_catalogue \<Rightarrow> rstr \<times> native_value adjustment \<Rightarrow> parameter_error + unit" where
  "validate_operation_for c op =
     and_then (ok_or (find_parameter c (fst op)) (ParamRejected (fst op) ''not described by runtime''))
       (\<lambda>p. if pd_scope p \<noteq> VoiceScope \<or> \<not> pd_adjustable p \<or>
               pa_status (pd_availability p) \<noteq> PaSupported
            then Inl (ParamRejected (pd_id p) ''not adjustable for this voice/runtime'')
            else case snd op of
                   SetTo v \<Rightarrow>
                     if \<not> accepts_value (pd_value_type p) v
                     then Inl (ParamRejected (pd_id p) ''value outside declared type/range'')
                     else Inr ()
                 | ToDefault \<Rightarrow> Inr ())"

definition validate_patch_for ::
    "parameter_catalogue \<Rightarrow> voice_selector \<Rightarrow> native_patch \<Rightarrow> parameter_error + unit" where
  "validate_patch_for c selector n =
     and_then (validate_shape_of_patch n) (\<lambda>_.
     and_then (validate_catalogue c) (\<lambda>_.
       if selector_engine_id selector \<noteq> Some (np_engine_id n) \<or> np_engine_id n \<noteq> ca_engine_id c \<or>
          np_schema_id n \<noteq> ci_schema_id (ca_identity c)
       then Inl ParamIdentityMismatch
       else if (case selector of
                  Exact selected \<Rightarrow>
                    (case ca_voice_id c of None \<Rightarrow> False | Some v \<Rightarrow> v \<noteq> pv_voice_id selected)
                | _ \<Rightarrow> False)
       then Inl ParamIdentityMismatch
       else check_each (validate_operation_for c) (np_parameters n)))"

section \<open>The plan for one voice\<close>

datatype value_origin =
  FromEngineDefault | FromCommonMapping | FromContextMapping | FromNativeSet | FromNativeDefault

text \<open>No value means a verified engine reset to a value that is not known.\<close>

record planned_parameter =
  pl_value :: "native_value option"
  pl_origin :: value_origin
  pl_masked_native :: bool

record native_plan =
  pn_realized :: physical_voice_id
  pn_identity :: catalogue_identity
  pn_parameters :: "(rstr \<times> planned_parameter) list"
  pn_application_order :: "rstr list"

definition contextual_inputs :: "voice_style_patch \<Rightarrow> parameter_error + common_input list" where
  "contextual_inputs context =
     and_then (map_err (\<lambda>_. ParamInvalid ''invalid contextual patch'') (validate_patch context)) (\<lambda>_.
       Inr (map fst (filter snd
         [(CiRateOffset, vp_rate_offset context \<noteq> None),
          (CiAveragePitch, vp_average_pitch context \<noteq> None),
          (CiPitchRange, vp_pitch_range context \<noteq> None), (CiStress, vp_stress context \<noteq> None),
          (CiRichness, vp_richness context \<noteq> None), (CiGain, vp_gain context \<noteq> None),
          (CiLowPass, vp_low_pass context \<noteq> None), (CiHighPass, vp_high_pass context \<noteq> None),
          (CiPan, vp_pan context \<noteq> None), (CiReverb, vp_reverb context \<noteq> None),
          (CiEcho, vp_echo context \<noteq> None), (CiChorus, vp_chorus context \<noteq> None)])))"

definition contextual_outputs :: "parameter_catalogue \<Rightarrow> common_input list \<Rightarrow> rstr list" where
  "contextual_outputs c explicit =
     concat (map cm_native_outputs
       (filter (\<lambda>m. list_ex (\<lambda>i. i \<in> set explicit) (cm_common_inputs m)) (ca_mappings c)))"

definition plannable :: "parameter_descriptor \<Rightarrow> bool" where
  "plannable p \<longleftrightarrow>
     pd_scope p = VoiceScope \<and> pa_status (pd_availability p) = PaSupported \<and>
     df_reset_supported (pd_default p)"

type_synonym descriptors = "(rstr \<times> parameter_descriptor) list"
type_synonym planned = "(rstr \<times> planned_parameter) list"

definition plan_descriptors :: "parameter_catalogue \<Rightarrow> descriptors" where
  "plan_descriptors c =
     fold (\<lambda>p. btree_insert (pd_id p) p) (filter plannable (ca_parameters c)) []"

definition baseline :: "descriptors \<Rightarrow> planned" where
  "baseline ds =
     map (\<lambda>(i, p). (i, \<lparr>pl_value = df_value (pd_default p), pl_origin = FromEngineDefault,
                       pl_masked_native = False\<rparr>)) ds"

text \<open>A change of the value at a key that is present.\<close>

definition adjust :: "'k \<Rightarrow> ('v \<Rightarrow> 'v) \<Rightarrow> ('k \<times> 'v) list \<Rightarrow> ('k \<times> 'v) list" where
  "adjust k f m = map (\<lambda>(i, x). if i = k then (i, f x) else (i, x)) m"

text \<open>In the following an outer \<open>None\<close> is a panic: an \<open>expect\<close>, an index or a subtraction that fails.\<close>

fun apply_mapped ::
    "descriptors \<Rightarrow> (rstr \<times> native_value) list \<Rightarrow> planned \<Rightarrow> (parameter_error + planned) option"
    where
  "apply_mapped ds [] ps = Some (Inr ps)"
| "apply_mapped ds ((i, v) # rest) ps =
     (case map_of ds i of
        None \<Rightarrow> Some (Inl (ParamInvalid ''unavailable common mapping output''))
      | Some p \<Rightarrow>
          if \<not> accepts_value (pd_value_type p) v
          then Some (Inl (ParamRejected (pd_id p) ''mapped value outside qualified range''))
          else if map_of ps i = None then None
          else apply_mapped ds rest
                 (adjust i (\<lambda>x. x\<lparr>pl_value := Some v, pl_origin := FromCommonMapping\<rparr>) ps))"

definition apply_context :: "rstr list \<Rightarrow> planned \<Rightarrow> planned" where
  "apply_context contextual ps =
     map (\<lambda>(i, x). (i, if i \<in> set contextual then x\<lparr>pl_origin := FromContextMapping\<rparr> else x)) ps"

fun apply_native ::
    "descriptors \<Rightarrow> rstr list \<Rightarrow> (rstr \<times> native_value adjustment) list \<Rightarrow> planned \<Rightarrow> planned option"
    where
  "apply_native ds contextual [] ps = Some ps"
| "apply_native ds contextual ((i, op) # rest) ps =
     (if map_of ps i = None then None
      else if i \<in> set contextual
      then apply_native ds contextual rest (adjust i (\<lambda>x. x\<lparr>pl_masked_native := True\<rparr>) ps)
      else case op of
             SetTo v \<Rightarrow>
               apply_native ds contextual rest
                 (adjust i (\<lambda>x. x\<lparr>pl_value := Some v, pl_origin := FromNativeSet\<rparr>) ps)
           | ToDefault \<Rightarrow>
               (case map_of ds i of
                  None \<Rightarrow> None
                | Some p \<Rightarrow>
                    apply_native ds contextual rest
                      (adjust i (\<lambda>x. x\<lparr>pl_value := df_value (pd_default p),
                                      pl_origin := FromNativeDefault\<rparr>) ps)))"

section \<open>Ordering by side effects\<close>

fun count_targets ::
    "planned \<Rightarrow> parameter_descriptor \<Rightarrow> rstr list \<Rightarrow> (rstr \<times> nat) list \<Rightarrow>
     (parameter_error + (rstr \<times> nat) list) option" where
  "count_targets ps p [] incoming = Some (Inr incoming)"
| "count_targets ps p (t # ts) incoming =
     (case map_of incoming t of
        None \<Rightarrow>
          Some (Inl (ParamRejected (pd_id p)
            ''side effect reaches an unavailable/non-voice control''))
      | Some n \<Rightarrow>
          (case map_of ps t of
             None \<Rightarrow> None
           | Some x \<Rightarrow>
               if pl_value x = None
               then Some (Inl (ParamRejected (pd_id p) ''side effect target has no restorable value''))
               else count_targets ps p ts (adjust t Suc incoming)))"

fun count_incoming ::
    "planned \<Rightarrow> parameter_descriptor list \<Rightarrow> (rstr \<times> nat) list \<Rightarrow>
     (parameter_error + (rstr \<times> nat) list) option" where
  "count_incoming ps [] incoming = Some (Inr incoming)"
| "count_incoming ps (p # rest) incoming =
     (case count_targets ps p (pd_side_effects p) incoming of
        None \<Rightarrow> None
      | Some (Inl e) \<Rightarrow> Some (Inl e)
      | Some (Inr incoming') \<Rightarrow> count_incoming ps rest incoming')"

text \<open>\<open>ready\<close> is a \<open>BTreeSet\<close>: a sorted list, of which \<open>pop_first\<close> takes the head.\<close>

definition set_insert :: "'k::linorder \<Rightarrow> 'k list \<Rightarrow> 'k list" where
  "set_insert k s = (if k \<in> set s then s else insort k s)"

fun release_targets ::
    "rstr list \<Rightarrow> (rstr \<times> nat) list \<times> rstr list \<Rightarrow> ((rstr \<times> nat) list \<times> rstr list) option" where
  "release_targets [] st = Some st"
| "release_targets (t # ts) (incoming, ready) =
     (case map_of incoming t of
        None \<Rightarrow> None
      | Some 0 \<Rightarrow> None
      | Some (Suc n) \<Rightarrow>
          release_targets ts
            (adjust t (\<lambda>m. m - 1) incoming, if n = 0 then set_insert t ready else ready))"

definition awaiting :: "(rstr \<times> nat) list \<Rightarrow> nat" where
  "awaiting incoming = length (filter (\<lambda>(i, n). 0 < n) incoming)"

lemma awaiting_adjust:
  "map_of incoming t = Some (Suc n) \<Longrightarrow>
   awaiting (adjust t (\<lambda>m. m - 1) incoming) + (if n = 0 then 1 else 0) \<le> awaiting incoming"
proof -
  have le: "awaiting (adjust t (\<lambda>m. m - 1) m) \<le> awaiting m" for m :: "(rstr \<times> nat) list"
  proof (induction m)
    case (Cons a m)
    then show ?case by (cases a) (auto simp: awaiting_def adjust_def)
  qed (simp add: awaiting_def adjust_def)
  show "map_of incoming t = Some (Suc n) \<Longrightarrow> ?thesis"
  proof (induction incoming)
    case (Cons a m)
    with le [of m] show ?case by (cases a) (auto simp: awaiting_def adjust_def split: if_splits)
  qed simp
qed

lemma release_measure:
  "release_targets ts (incoming, ready) = Some (incoming', ready') \<Longrightarrow>
   length ready' + awaiting incoming' \<le> length ready + awaiting incoming"
proof (induction ts "(incoming, ready)" arbitrary: incoming ready rule: release_targets.induct)
  case (2 t ts incoming ready)
  then obtain n where n: "map_of incoming t = Some (Suc n)"
    "release_targets ts (adjust t (\<lambda>m. m - 1) incoming, if n = 0 then set_insert t ready else ready) =
       Some (incoming', ready')" by (auto split: option.splits nat.splits)
  from 2(1) [OF n(1)] n(2) awaiting_adjust [OF n(1)] show ?case
    by (fastforce simp: set_insert_def split: if_splits)
qed simp

function kahn_order ::
    "descriptors \<Rightarrow> (rstr \<times> nat) list \<Rightarrow> rstr list \<Rightarrow> rstr list \<Rightarrow> rstr list option" where
  "kahn_order ds incoming [] order = Some order"
| "kahn_order ds incoming (i # ready) order =
     (case map_of ds i of
        None \<Rightarrow> None
      | Some p \<Rightarrow>
          (case release_targets (pd_side_effects p) (incoming, ready) of
             None \<Rightarrow> None
           | Some (incoming', ready') \<Rightarrow> kahn_order ds incoming' ready' (order @ [i])))"
  by pat_completeness auto
termination
  by (relation "measure (\<lambda>(ds, incoming, ready, order). length ready + awaiting incoming)")
    (auto dest!: release_measure)

definition order_parameters :: "descriptors \<Rightarrow> planned \<Rightarrow> (parameter_error + rstr list) option" where
  "order_parameters ds ps =
     (case count_incoming ps (map snd ds) (map (\<lambda>(i, x). (i, 0)) ps) of
        None \<Rightarrow> None
      | Some (Inl e) \<Rightarrow> Some (Inl e)
      | Some (Inr incoming) \<Rightarrow>
          map_option
            (\<lambda>order. if length order \<noteq> length ps then Inl ParamDependencyCycle else Inr order)
            (kahn_order ds incoming (map fst (filter (\<lambda>(i, n). n = 0) incoming)) []))"

text \<open>The checks before anything is planned: they return the settings the context gives.\<close>

definition plan_checks ::
    "parameter_catalogue \<Rightarrow> catalogue_identity \<Rightarrow> physical_voice_id \<Rightarrow> native_patch option \<Rightarrow>
     voice_style_patch \<Rightarrow> parameter_error + common_input list" where
  "plan_checks c expected realized native context =
      and_then (validate_catalogue c) (\<lambda>_.
      and_then (if ca_identity c \<noteq> expected then Inl ParamStaleIdentity else Inr ()) (\<lambda>_.
      and_then
        (if ca_engine_id c \<noteq> pv_engine_id realized \<or>
            ca_voice_id c \<noteq> Some (pv_voice_id realized)
         then Inl ParamIdentityMismatch else Inr ()) (\<lambda>_.
      and_then
        (case native of None \<Rightarrow> Inr () | Some n \<Rightarrow> validate_patch_for c (Exact realized) n) (\<lambda>_.
      contextual_inputs context))))"

definition compose_plan ::
    "parameter_catalogue \<Rightarrow> catalogue_identity \<Rightarrow> physical_voice_id \<Rightarrow>
     (rstr \<times> native_value) list \<Rightarrow> native_patch option \<Rightarrow> voice_style_patch \<Rightarrow>
     (parameter_error + native_plan) option" where
  "compose_plan c expected realized mapped native context =
     (case plan_checks c expected realized native context of
        Inl e \<Rightarrow> Some (Inl e)
      | Inr explicit \<Rightarrow>
          (let contextual = contextual_outputs c explicit; ds = plan_descriptors c
           in case apply_mapped ds mapped (baseline ds) of
                None \<Rightarrow> None
              | Some (Inl e) \<Rightarrow> Some (Inl e)
              | Some (Inr ps) \<Rightarrow>
                  (case apply_native ds contextual
                          (case native of None \<Rightarrow> [] | Some n \<Rightarrow> np_parameters n)
                          (apply_context contextual ps) of
                     None \<Rightarrow> None
                   | Some ps' \<Rightarrow>
                       map_option (map_sum id (\<lambda>order.
                         \<lparr>pn_realized = realized, pn_identity = ca_identity c,
                          pn_parameters = ps', pn_application_order = order\<rparr>))
                         (order_parameters ds ps'))))"

section \<open>Key-value facts\<close>

lemma adjust_keys [simp]: "map fst (adjust k f m) = map fst m"
  by (induction m) (auto simp: adjust_def)

lemma adjust_lookup:
  "map_of (adjust k f m) i = (if i = k then map_option f (map_of m i) else map_of m i)"
  by (induction m) (auto simp: adjust_def)

lemma length_by_keys: "map fst m = map fst m' \<Longrightarrow> length m = length m'"
  by (metis length_map)

lemma lookup_by_keys: "map fst m = map fst m' \<Longrightarrow> map_of m i = None \<longleftrightarrow> map_of m' i = None"
  by (metis map_of_eq_None_iff list.set_map)

lemma validated_descriptors:
  "validate_parameters voice ids ps = Inr () \<Longrightarrow>
   distinct (map pd_id ps) \<and> set (map pd_id ps) \<inter> ids = {} \<and>
   (\<forall>p \<in> set ps. validate_parameter p = Inr ())"
  by (induction ps arbitrary: ids) (auto simp: res_simps)

lemma validated_catalogue:
  assumes "validate_catalogue c = Inr ()"
  shows "distinct (map pd_id (ca_parameters c))"
    and "p \<in> set (ca_parameters c) \<Longrightarrow> validate_parameter p = Inr ()"
    and "p \<in> set (ca_parameters c) \<Longrightarrow> set (pd_side_effects p) \<subseteq> set (map pd_id (ca_parameters c))"
  using assms validated_descriptors [of "ca_voice_id c" "{}" "ca_parameters c"]
  by (auto simp: validate_catalogue_def Let_def res_simps list_all_iff)

lemma fold_insert_lookup:
  "distinct (map pd_id ps) \<Longrightarrow>
   map_of (fold (\<lambda>p. btree_insert (pd_id p) p) ps m) i =
     (case find (\<lambda>p. pd_id p = i) ps of Some p \<Rightarrow> Some p | None \<Rightarrow> map_of m i)"
proof (induction ps arbitrary: m)
  case (Cons p ps)
  then have "find (\<lambda>q. pd_id q = i) ps = None" if "pd_id p = i"
    using that by (fastforce simp: find_None_iff image_iff)
  with Cons show ?case
    by (auto simp: btree_insert_lookup split: option.split)
qed simp

lemma fold_insert_sorted:
  "sorted_wrt (<) (map fst m) \<Longrightarrow>
   sorted_wrt (<) (map fst (fold (\<lambda>p. btree_insert (pd_id p) p) ps m))"
  by (induction ps arbitrary: m) (simp_all add: btree_insert_sorted)

lemma find_filter:
  "distinct (map f ps) \<Longrightarrow>
   find (\<lambda>p. f p = i) (filter P ps) =
     (case find (\<lambda>p. f p = i) ps of Some p \<Rightarrow> if P p then Some p else None | None \<Rightarrow> None)"
proof (induction ps)
  case (Cons p ps)
  have "find (\<lambda>q. f q = i) qs = None" if "set qs \<subseteq> set ps" "f p = i" for qs
  proof -
    from Cons.prems have "f p \<notin> f ` set ps" by simp
    with that show ?thesis unfolding find_None_iff by (metis image_eqI subsetD)
  qed
  from this [of "filter P ps"] this [of ps] Cons show ?case by (auto split: option.splits)
qed simp

lemma distinct_filter_ids: "distinct (map f ps) \<Longrightarrow> distinct (map f (filter P ps))"
  by (induction ps) auto

lemma plan_descriptors_lookup:
  assumes "validate_catalogue c = Inr ()"
  shows "map_of (plan_descriptors c) i =
    (case find_parameter c i of Some p \<Rightarrow> if plannable p then Some p else None | None \<Rightarrow> None)"
  using validated_catalogue(1) [OF assms]
  by (simp add: plan_descriptors_def fold_insert_lookup distinct_filter_ids find_filter
      find_parameter_def split: option.split)

lemma plan_descriptors_keys: "distinct (map fst (plan_descriptors c))"
proof -
  have "sorted_wrt (<) (map fst (plan_descriptors c))"
    unfolding plan_descriptors_def by (rule fold_insert_sorted) simp
  then show ?thesis by (simp add: strict_sorted_iff)
qed

section \<open>What each layer leaves\<close>

lemma baseline_keys [simp]: "map fst (baseline ds) = map fst ds"
  by (induction ds) (auto simp: baseline_def)

lemma baseline_lookup:
  "map_of (baseline ds) i =
     map_option (\<lambda>p. \<lparr>pl_value = df_value (pd_default p), pl_origin = FromEngineDefault,
                      pl_masked_native = False\<rparr>) (map_of ds i)"
  by (induction ds) (auto simp: baseline_def)

lemma apply_context_keys [simp]: "map fst (apply_context contextual ps) = map fst ps"
  by (induction ps) (auto simp: apply_context_def)

lemma apply_context_lookup:
  "map_of (apply_context contextual ps) i =
     (if i \<in> set contextual
      then map_option (\<lambda>x. x\<lparr>pl_origin := FromContextMapping\<rparr>) (map_of ps i) else map_of ps i)"
  by (induction ps) (auto simp: apply_context_def)

lemma apply_mapped_total:
  "map fst ps = map fst ds \<Longrightarrow> apply_mapped ds mapped ps \<noteq> None"
proof (induction ds mapped ps rule: apply_mapped.induct)
  case (2 ds i v rest ps)
  from lookup_by_keys [OF 2(2), of i] 2 show ?case by (auto split: option.split)
qed simp

lemma apply_mapped_spec:
  "apply_mapped ds mapped ps = Some (Inr ps') \<Longrightarrow> distinct (map fst mapped) \<Longrightarrow>
   map fst ps' = map fst ps \<and>
   map_of ps' i =
     (case map_of mapped i of
        None \<Rightarrow> map_of ps i
      | Some v \<Rightarrow> map_option (\<lambda>x. x\<lparr>pl_value := Some v, pl_origin := FromCommonMapping\<rparr>)
                    (map_of ps i))"
proof (induction ds mapped ps rule: apply_mapped.induct)
  case (2 ds j v rest ps)
  let ?ps = "adjust j (\<lambda>x. x\<lparr>pl_value := Some v, pl_origin := FromCommonMapping\<rparr>) ps"
  from 2(2) obtain p where p: "map_of ds j = Some p" "accepts_value (pd_value_type p) v"
    "map_of ps j \<noteq> None" "apply_mapped ds rest ?ps = Some (Inr ps')"
    by (auto split: option.splits if_splits)
  from 2(1) [OF p(1) _ p(3) p(4)] p(2) 2(3) have ih: "map fst ps' = map fst ps"
    "map_of ps' i = (case map_of rest i of None \<Rightarrow> map_of ?ps i
       | Some v \<Rightarrow> map_option (\<lambda>x. x\<lparr>pl_value := Some v, pl_origin := FromCommonMapping\<rparr>)
                    (map_of ?ps i))" by simp_all
  show ?case
  proof (cases "i = j")
    case True
    with 2(3) have "map_of rest i = None" by (simp add: map_of_eq_None_iff)
    with True ih show ?thesis by (simp add: adjust_lookup)
  next
    case False
    with ih show ?thesis by (simp add: adjust_lookup split: option.split)
  qed
qed simp

text \<open>The patch: an operation wins unless the context set the parameter.\<close>

definition native_overlay ::
    "rstr list \<Rightarrow> descriptors \<Rightarrow> rstr \<Rightarrow> native_value adjustment option \<Rightarrow> planned_parameter \<Rightarrow>
     planned_parameter" where
  "native_overlay contextual ds i op x =
     (case op of
        None \<Rightarrow> x
      | Some a \<Rightarrow>
          if i \<in> set contextual then x\<lparr>pl_masked_native := True\<rparr>
          else case a of
                 SetTo v \<Rightarrow> x\<lparr>pl_value := Some v, pl_origin := FromNativeSet\<rparr>
               | ToDefault \<Rightarrow>
                   x\<lparr>pl_value := Option.bind (map_of ds i) (\<lambda>p. df_value (pd_default p)),
                     pl_origin := FromNativeDefault\<rparr>)"

lemma native_overlay_fun:
  "native_overlay contextual ds i (Some (SetTo v)) =
     (if i \<in> set contextual then (\<lambda>x. x\<lparr>pl_masked_native := True\<rparr>)
      else (\<lambda>x. x\<lparr>pl_value := Some v, pl_origin := FromNativeSet\<rparr>))"
  "native_overlay contextual ds i (Some ToDefault) =
     (if i \<in> set contextual then (\<lambda>x. x\<lparr>pl_masked_native := True\<rparr>)
      else (\<lambda>x. x\<lparr>pl_value := Option.bind (map_of ds i) (\<lambda>p. df_value (pd_default p)),
                    pl_origin := FromNativeDefault\<rparr>))"
  by (auto simp: native_overlay_def fun_eq_iff)

lemma apply_native_spec:
  assumes "map fst ps = map fst ds" "distinct (map fst ops)" "\<forall>i \<in> set (map fst ops). map_of ds i \<noteq> None"
  shows "\<exists>ps'. apply_native ds contextual ops ps = Some ps' \<and> map fst ps' = map fst ps \<and>
    (\<forall>i. map_of ps' i = map_option (native_overlay contextual ds i (map_of ops i)) (map_of ps i))"
  using assms
proof (induction ops arbitrary: ps)
  case Nil
  then show ?case by (auto simp: native_overlay_def option.map_ident)
next
  case (Cons a ops)
  obtain j op where a: "a = (j, op)" by (cases a)
  with Cons.prems obtain p where p: "map_of ds j = Some p" by auto
  with lookup_by_keys [OF Cons.prems(1), of j] have some: "map_of ps j \<noteq> None" by simp
  let ?f = "native_overlay contextual ds j (Some op)"
  have step: "apply_native ds contextual (a # ops) ps = apply_native ds contextual ops (adjust j ?f ps)"
    using a some p by (cases op) (auto simp: native_overlay_fun)
  from Cons.IH [of "adjust j ?f ps"] Cons.prems a obtain ps' where ps':
    "apply_native ds contextual ops (adjust j ?f ps) = Some ps'" "map fst ps' = map fst ps"
    "\<forall>i. map_of ps' i =
      map_option (native_overlay contextual ds i (map_of ops i)) (map_of (adjust j ?f ps) i)"
    by auto
  have "map_of ps' i = map_option (native_overlay contextual ds i (map_of (a # ops) i)) (map_of ps i)" for i
  proof (cases "i = j")
    case True
    with Cons.prems(2) a have "map_of ops i = None" by (simp add: map_of_eq_None_iff)
    with True a ps'(3) show ?thesis
      by (cases "map_of ps i") (simp_all add: adjust_lookup native_overlay_def)
  next
    case False
    with a ps'(3) show ?thesis by (simp add: adjust_lookup)
  qed
  with step ps' show ?case by auto
qed

section \<open>The order respects side effects\<close>

text \<open>How often the side effects of the descriptors outside \<open>done\<close> name a parameter.\<close>

definition pending_effects :: "descriptors \<Rightarrow> rstr set \<Rightarrow> rstr \<Rightarrow> nat" where
  "pending_effects ds finished t =
     sum_list (map (\<lambda>(a, p). if a \<in> finished then 0 else count_list (pd_side_effects p) t) ds)"

definition closed_effects :: "descriptors \<Rightarrow> bool" where
  "closed_effects ds \<longleftrightarrow> (\<forall>(a, p) \<in> set ds. set (pd_side_effects p) \<subseteq> set (map fst ds))"

lemma count_targets_total:
  assumes "map fst ps = map fst incoming"
  shows "count_targets ps p ts incoming \<noteq> None"
  using assms
proof (induction ps p ts incoming rule: count_targets.induct)
  case (2 ps p t ts incoming)
  from lookup_by_keys [OF 2(2), of t] 2 show ?case by (auto split: option.split)
qed simp

lemma count_targets_spec:
  "count_targets ps p ts incoming = Some (Inr incoming') \<Longrightarrow>
   map fst incoming' = map fst incoming \<and> set ts \<subseteq> set (map fst incoming) \<and>
   (\<forall>t \<in> set ts. \<exists>x. map_of ps t = Some x \<and> pl_value x \<noteq> None) \<and>
   (\<forall>i. map_of incoming' i = map_option (\<lambda>n. n + count_list ts i) (map_of incoming i))"
proof (induction ps p ts incoming rule: count_targets.induct)
  case (1 ps p incoming)
  then show ?case by (auto simp: option.map_ident)
next
  case (2 ps p t ts incoming)
  from 2(2) obtain n x where n: "map_of incoming t = Some n" "map_of ps t = Some x"
    "pl_value x \<noteq> None" "count_targets ps p ts (adjust t Suc incoming) = Some (Inr incoming')"
    by (auto split: option.splits if_splits)
  from 2(1) [OF n(1,2,3,4)] have ih: "map fst incoming' = map fst incoming"
    "set ts \<subseteq> set (map fst incoming)"
    "\<forall>t \<in> set ts. \<exists>x. map_of ps t = Some x \<and> pl_value x \<noteq> None"
    "\<forall>i. map_of incoming' i = map_option (\<lambda>n. n + count_list ts i) (map_of (adjust t Suc incoming) i)"
    by simp_all
  have "t \<in> set (map fst incoming)" using n(1) by (force dest: map_of_SomeD)
  moreover have "map_of incoming' i = map_option (\<lambda>n. n + count_list (t # ts) i) (map_of incoming i)" for i
    using ih(4) by (cases "map_of incoming i") (auto simp: adjust_lookup)
  ultimately show ?case using ih n by auto
qed

lemma count_incoming_total:
  "map fst ps = map fst incoming \<Longrightarrow> count_incoming ps descs incoming \<noteq> None"
proof (induction ps descs incoming rule: count_incoming.induct)
  case (2 ps p rest incoming)
  from count_targets_total [OF 2(2)] obtain r where
    r: "count_targets ps p (pd_side_effects p) incoming = Some r" by blast
  show ?case
  proof (cases r)
    case (Inr incoming')
    with r count_targets_spec have "map fst incoming' = map fst incoming" by blast
    with 2 r Inr show ?thesis by simp
  qed (use r in simp)
qed simp

lemma count_incoming_spec:
  "count_incoming ps descs incoming = Some (Inr incoming') \<Longrightarrow>
   map fst incoming' = map fst incoming \<and>
   (\<forall>p \<in> set descs. set (pd_side_effects p) \<subseteq> set (map fst incoming) \<and>
      (\<forall>t \<in> set (pd_side_effects p). \<exists>x. map_of ps t = Some x \<and> pl_value x \<noteq> None)) \<and>
   (\<forall>i. map_of incoming' i =
      map_option (\<lambda>n. n + sum_list (map (\<lambda>p. count_list (pd_side_effects p) i) descs))
        (map_of incoming i))"
proof (induction ps descs incoming rule: count_incoming.induct)
  case (1 ps incoming)
  then show ?case by (auto simp: option.map_ident)
next
  case (2 ps p rest incoming)
  from 2(2) obtain mid where mid: "count_targets ps p (pd_side_effects p) incoming = Some (Inr mid)"
    "count_incoming ps rest mid = Some (Inr incoming')"
    by (auto split: option.splits sum.splits)
  from count_targets_spec [OF mid(1)] have t: "map fst mid = map fst incoming"
    "set (pd_side_effects p) \<subseteq> set (map fst incoming)"
    "\<forall>t \<in> set (pd_side_effects p). \<exists>x. map_of ps t = Some x \<and> pl_value x \<noteq> None"
    "map_of mid i = map_option (\<lambda>n. n + count_list (pd_side_effects p) i) (map_of incoming i)" for i
    by blast+
  from 2(1) [OF mid(1) refl mid(2)] t(1) have r: "map fst incoming' = map fst incoming"
    "\<forall>p \<in> set rest. set (pd_side_effects p) \<subseteq> set (map fst incoming) \<and>
      (\<forall>t \<in> set (pd_side_effects p). \<exists>x. map_of ps t = Some x \<and> pl_value x \<noteq> None)"
    "map_of incoming' i =
      map_option (\<lambda>n. n + sum_list (map (\<lambda>p. count_list (pd_side_effects p) i) rest)) (map_of mid i)" for i
    by simp_all
  have "map_of incoming' i =
      map_option (\<lambda>n. n + sum_list (map (\<lambda>p. count_list (pd_side_effects p) i) (p # rest)))
        (map_of incoming i)" for i
    using r(3) [of i] t(4) [of i] by (cases "map_of incoming i") simp_all
  with r(1,2) t(2,3) show ?case by simp
qed

lemma set_insert_spec [simp]: "set (set_insert k s) = insert k (set s)" "distinct (set_insert k s) = distinct s"
  by (auto simp: set_insert_def set_insort_key distinct_insort)

lemma release_spec:
  assumes "\<forall>t \<in> set ts. \<exists>n. map_of incoming t = Some n \<and> count_list ts t \<le> n"
  shows "\<exists>incoming' ready'. release_targets ts (incoming, ready) = Some (incoming', ready') \<and>
    map fst incoming' = map fst incoming \<and>
    (\<forall>i. map_of incoming' i = map_option (\<lambda>n. n - count_list ts i) (map_of incoming i)) \<and>
    set ready' = set ready \<union> {t \<in> set ts. map_of incoming t = Some (count_list ts t)} \<and>
    (distinct ready \<longrightarrow> distinct ready')"
  using assms
proof (induction ts arbitrary: incoming ready)
  case Nil
  then show ?case by (auto simp: option.map_ident)
next
  case (Cons t ts)
  then obtain m where "map_of incoming t = Some m" "count_list (t # ts) t \<le> m" by fastforce
  then obtain n where n: "map_of incoming t = Some (Suc n)" "count_list ts t \<le> n"
    by (cases m) auto
  let ?inc = "adjust t (\<lambda>m. m - 1) incoming"
  let ?ready = "if n = 0 then set_insert t ready else ready"
  have "\<forall>u \<in> set ts. \<exists>k. map_of ?inc u = Some k \<and> count_list ts u \<le> k"
  proof
    fix u assume "u \<in> set ts"
    with Cons.prems obtain k where "map_of incoming u = Some k" "count_list (t # ts) u \<le> k" by fastforce
    with n show "\<exists>k. map_of ?inc u = Some k \<and> count_list ts u \<le> k"
      by (cases "u = t") (auto simp: adjust_lookup)
  qed
  from Cons.IH [OF this, of ?ready] obtain incoming' ready' where
    ih: "release_targets ts (?inc, ?ready) = Some (incoming', ready')"
    "map fst incoming' = map fst incoming"
    "\<forall>i. map_of incoming' i = map_option (\<lambda>n. n - count_list ts i) (map_of ?inc i)"
    "set ready' = set ?ready \<union> {u \<in> set ts. map_of ?inc u = Some (count_list ts u)}"
    "distinct ?ready \<longrightarrow> distinct ready'" by auto
  have "map_of incoming' i = map_option (\<lambda>n. n - count_list (t # ts) i) (map_of incoming i)" for i
    using ih(3) n by (cases "map_of incoming i") (auto simp: adjust_lookup)
  moreover have "set ready' = set ready \<union> {u \<in> set (t # ts). map_of incoming u = Some (count_list (t # ts) u)}"
  proof -
    have other: "map_of ?inc u = map_of incoming u" if "u \<noteq> t" for u
      using that by (simp add: adjust_lookup)
    have inc: "map_of ?inc t = Some n" using n by (simp add: adjust_lookup)
    have zero: "count_list ts t = 0" if "t \<notin> set ts" using that by (simp add: count_notin)
    have now: "(n = 0 \<or> t \<in> set ts \<and> n = count_list ts t) \<longleftrightarrow> n = count_list ts t"
      using n(2) zero by (cases "t \<in> set ts") auto
    show ?thesis
    proof (rule set_eqI)
      fix u
      show "u \<in> set ready' \<longleftrightarrow>
          u \<in> set ready \<union> {u \<in> set (t # ts). map_of incoming u = Some (count_list (t # ts) u)}"
        using now inc other [of u] n(1) unfolding ih(4) by (cases "u = t") auto
    qed
  qed
  ultimately show ?case using ih(1,2,5) n(1) by auto
qed

definition kahn_inv ::
    "descriptors \<Rightarrow> (rstr \<times> nat) list \<Rightarrow> rstr list \<Rightarrow> rstr list \<Rightarrow> bool" where
  "kahn_inv ds incoming ready order \<longleftrightarrow>
     distinct (map fst ds) \<and> closed_effects ds \<and> map fst incoming = map fst ds \<and>
     distinct order \<and> distinct ready \<and> set order \<subseteq> set (map fst ds) \<and>
     set ready = {t \<in> set (map fst ds). t \<notin> set order \<and> map_of incoming t = Some 0} \<and>
     (\<forall>t \<in> set (map fst ds). map_of incoming t = Some (pending_effects ds (set order) t)) \<and>
     (\<forall>i < length order. \<forall>a p. map_of ds a = Some p \<longrightarrow> order ! i \<in> set (pd_side_effects p) \<longrightarrow>
        a \<in> set (take i order))"

lemma pending_outside:
  "i \<notin> set (map fst ds) \<Longrightarrow> pending_effects ds (insert i F) t = pending_effects ds F t"
  by (induction ds) (auto simp: pending_effects_def)

lemma pending_step:
  "distinct (map fst ds) \<Longrightarrow> map_of ds i = Some p \<Longrightarrow> i \<notin> F \<Longrightarrow>
   pending_effects ds F t = pending_effects ds (insert i F) t + count_list (pd_side_effects p) t"
proof (induction ds)
  case (Cons a ds)
  obtain j q where a: "a = (j, q)" by (cases a)
  show ?case
  proof (cases "i = j")
    case True
    with Cons.prems a have "i \<notin> set (map fst ds)" "q = p" by auto
    with True a Cons.prems(3) pending_outside [of i ds F t] show ?thesis
      by (simp add: pending_effects_def)
  next
    case False
    with Cons a show ?thesis by (simp add: pending_effects_def)
  qed
qed simp

lemma pending_zero:
  "pending_effects ds F t = 0 \<longleftrightarrow> (\<forall>(a, p) \<in> set ds. a \<notin> F \<longrightarrow> t \<notin> set (pd_side_effects p))"
  by (auto simp: pending_effects_def sum_list_eq_0_iff count_list_0_iff split: if_splits)

lemma kahn_step:
  assumes inv: "kahn_inv ds incoming (i # ready) order"
  shows "\<exists>p incoming' ready'. map_of ds i = Some p \<and>
    release_targets (pd_side_effects p) (incoming, ready) = Some (incoming', ready') \<and>
    kahn_inv ds incoming' ready' (order @ [i])"
proof -
  let ?keys = "set (map fst ds)"
  from inv have d: "distinct (map fst ds)" "closed_effects ds" "map fst incoming = map fst ds"
    "distinct order" "distinct (i # ready)" "set order \<subseteq> ?keys"
    and rd: "set (i # ready) = {t \<in> ?keys. t \<notin> set order \<and> map_of incoming t = Some 0}"
    and cnt: "\<forall>t \<in> ?keys. map_of incoming t = Some (pending_effects ds (set order) t)"
    and ord: "\<forall>i < length order. \<forall>a p. map_of ds a = Some p \<longrightarrow>
      order ! i \<in> set (pd_side_effects p) \<longrightarrow> a \<in> set (take i order)"
    unfolding kahn_inv_def by blast+
  have i: "i \<in> ?keys" "i \<notin> set order" "map_of incoming i = Some 0" using rd by auto
  then obtain p where p: "map_of ds i = Some p"
    by (metis map_of_eq_None_iff list.set_map option.exhaust)
  then have ip: "(i, p) \<in> set ds" by (rule map_of_SomeD)
  with d(2) have targets: "set (pd_side_effects p) \<subseteq> ?keys" by (auto simp: closed_effects_def)
  note step = pending_step [OF d(1) p i(2)]
  have "\<forall>t \<in> set (pd_side_effects p). \<exists>n. map_of incoming t = Some n \<and>
      count_list (pd_side_effects p) t \<le> n"
    using cnt targets step by (metis le_add2 subsetD)
  from release_spec [OF this, of ready] obtain incoming' ready' where r:
    "release_targets (pd_side_effects p) (incoming, ready) = Some (incoming', ready')"
    "map fst incoming' = map fst incoming"
    "\<forall>t. map_of incoming' t =
       map_option (\<lambda>n. n - count_list (pd_side_effects p) t) (map_of incoming t)"
    "set ready' = set ready \<union> {t \<in> set (pd_side_effects p).
       map_of incoming t = Some (count_list (pd_side_effects p) t)}"
    "distinct ready'" using d(5) by auto
  have cnt': "map_of incoming' t = Some (pending_effects ds (set (order @ [i])) t)" if "t \<in> ?keys" for t
    using bspec [OF cnt that] r(3) step [of t] by simp
  have own: "i \<notin> set (pd_side_effects p)" and before: "a \<in> set order"
    if "map_of ds a = Some q" "i \<in> set (pd_side_effects q)" for a q
  proof -
    have "pending_effects ds (set order) i = 0" using bspec [OF cnt i(1)] i(3) by simp
    then have *: "b \<in> set order" if "(b, q) \<in> set ds" "i \<in> set (pd_side_effects q)" for b q
      using that unfolding pending_zero by fastforce
    show "i \<notin> set (pd_side_effects p)" using * [OF ip] i(2) by blast
    show "a \<in> set order" using * [OF map_of_SomeD [OF that(1)] that(2)] .
  qed
  have not_self: "i \<notin> set (pd_side_effects p)" using own p by blast
  have ready': "set ready' = {t \<in> ?keys. t \<notin> set (order @ [i]) \<and> map_of incoming' t = Some 0}"
  proof (rule set_eqI)
    fix t
    have z: "count_list (pd_side_effects p) t = 0 \<longleftrightarrow> t \<notin> set (pd_side_effects p)"
      by (simp add: count_list_0_iff)
    have placed: "t \<notin> set order" if "t \<in> set (pd_side_effects p)"
    proof
      assume "t \<in> set order"
      then obtain k where k: "k < length order" "order ! k = t" by (auto simp: in_set_conv_nth)
      with ord p that have "i \<in> set (take k order)" by blast
      with i(2) show False by (auto dest: in_set_takeD)
    qed
    show "t \<in> set ready' \<longleftrightarrow> t \<in> {t \<in> ?keys. t \<notin> set (order @ [i]) \<and> map_of incoming' t = Some 0}"
    proof (cases "t \<in> set (pd_side_effects p)")
      case True
      with targets obtain n where n: "t \<in> ?keys" "map_of incoming t = Some n"
        "count_list (pd_side_effects p) t \<le> n"
        using cnt step [of t] by (metis le_add2 subsetD)
      from True z have "0 < count_list (pd_side_effects p) t" by simp
      with n have "map_of incoming t \<noteq> Some 0" by auto
      then have "t \<notin> set (i # ready)" unfolding rd by blast
      then have "t \<notin> set ready" by simp
      with True n r(3,4) placed not_self show ?thesis by auto
    next
      case False
      with z r(3) have same: "map_of incoming' t = map_of incoming t"
        by (cases "map_of incoming t") simp_all
      have "t \<in> set ready \<longleftrightarrow> t \<in> ?keys \<and> t \<notin> set order \<and> t \<noteq> i \<and> map_of incoming t = Some 0"
        using rd d(5) by auto
      with False same r(4) show ?thesis by auto
    qed
  qed
  have "kahn_inv ds incoming' ready' (order @ [i])"
    unfolding kahn_inv_def
  proof (intro conjI)
    show "\<forall>k < length (order @ [i]). \<forall>a q. map_of ds a = Some q \<longrightarrow>
        (order @ [i]) ! k \<in> set (pd_side_effects q) \<longrightarrow> a \<in> set (take k (order @ [i]))"
      using ord before by (auto simp: nth_append less_Suc_eq)
  qed (use d r cnt' ready' i in auto)
  with p r(1) show ?thesis by blast
qed

lemma kahn_result:
  "kahn_inv ds incoming ready order \<Longrightarrow>
   \<exists>incoming' order'. kahn_order ds incoming ready order = Some order' \<and>
     kahn_inv ds incoming' [] order'"
proof (induction ds incoming ready order rule: kahn_order.induct)
  case (1 ds incoming order)
  then show ?case by auto
next
  case (2 ds incoming i ready order)
  from kahn_step [OF 2(2)] obtain p incoming' ready' where s: "map_of ds i = Some p"
    "release_targets (pd_side_effects p) (incoming, ready) = Some (incoming', ready')"
    "kahn_inv ds incoming' ready' (order @ [i])" by blast
  from 2(1) [OF s(1,2) refl s(3)] s show ?case by simp
qed

text \<open>The side-effect relation, and what an order must do: every target comes after its cause.\<close>

definition disturbs :: "descriptors \<Rightarrow> (rstr \<times> rstr) set" where
  "disturbs ds = {(a, t). \<exists>p. map_of ds a = Some p \<and> t \<in> set (pd_side_effects p)}"

definition restores :: "descriptors \<Rightarrow> rstr list \<Rightarrow> bool" where
  "restores ds order \<longleftrightarrow>
     distinct order \<and> set order = set (map fst ds) \<and>
     (\<forall>i < length order. \<forall>a. (a, order ! i) \<in> disturbs ds \<longrightarrow> a \<in> set (take i order))"

lemma restores_acyclic:
  assumes "restores ds order" "closed_effects ds"
  shows "acyclic (disturbs ds)"
proof -
  define pos where "pos = (\<lambda>t. LEAST k. k < length order \<and> order ! k = t)"
  have "pos a < pos t" if e: "(a, t) \<in> disturbs ds" for a t
  proof -
    from e assms(2) have "t \<in> set (map fst ds)"
      by (auto simp: disturbs_def closed_effects_def dest!: map_of_SomeD)
    with assms(1) have "t \<in> set order" by (simp add: restores_def)
    then obtain k where "k < length order \<and> order ! k = t" by (auto simp: in_set_conv_nth)
    then have t: "pos t < length order \<and> order ! pos t = t" unfolding pos_def by (rule LeastI)
    moreover from assms(1) have "\<forall>i < length order. \<forall>a. (a, order ! i) \<in> disturbs ds \<longrightarrow>
        a \<in> set (take i order)" by (simp add: restores_def)
    ultimately have "a \<in> set (take (pos t) order)" using e by metis
    then obtain j where "j < pos t" "j < length order \<and> order ! j = a" by (auto simp: in_set_conv_nth)
    moreover from this(2) have "pos a \<le> j" unfolding pos_def by (rule Least_le)
    ultimately show ?thesis by simp
  qed
  then have "disturbs ds \<subseteq> measure pos" by auto
  then show ?thesis by (rule acyclic_subset [OF wf_acyclic [OF wf_measure]])
qed

lemma kahn_final:
  assumes "kahn_inv ds incoming [] order"
  shows "(length order = length ds \<longrightarrow> restores ds order) \<and>
         (length order \<noteq> length ds \<longrightarrow> \<not> acyclic (disturbs ds))"
proof -
  let ?keys = "set (map fst ds)"
  from assms have d: "distinct (map fst ds)" "closed_effects ds" "distinct order" "set order \<subseteq> ?keys"
    and none: "{t \<in> ?keys. t \<notin> set order \<and> map_of incoming t = Some 0} = {}"
    and cnt: "\<forall>t \<in> ?keys. map_of incoming t = Some (pending_effects ds (set order) t)"
    and ord: "\<forall>i < length order. \<forall>a p. map_of ds a = Some p \<longrightarrow>
      order ! i \<in> set (pd_side_effects p) \<longrightarrow> a \<in> set (take i order)"
    unfolding kahn_inv_def by auto
  have len: "length order = card (set order)" "length ds = card ?keys"
    using d(1,3) distinct_card [of order] distinct_card [of "map fst ds"] by simp_all
  have "restores ds order" if "length order = length ds"
  proof -
    have "set order = ?keys" using that len d(4) by (metis card_subset_eq List.finite_set)
    with d(3) ord show ?thesis by (auto simp: restores_def disturbs_def)
  qed
  moreover have "\<not> acyclic (disturbs ds)" if "length order \<noteq> length ds"
  proof
    assume "acyclic (disturbs ds)"
    moreover have "finite (disturbs ds)"
    proof (rule finite_subset)
      show "disturbs ds \<subseteq> ?keys \<times> ?keys"
        using d(2) by (force simp: disturbs_def closed_effects_def dest!: map_of_SomeD)
    qed simp
    ultimately have "wf (disturbs ds)" by (simp add: finite_acyclic_wf)
    moreover have "?keys - set order \<noteq> {}"
      using that len d(4) by (metis Diff_eq_empty_iff subset_antisym)
    then obtain x where "x \<in> ?keys - set order" by blast
    ultimately obtain t where t: "t \<in> ?keys - set order"
      "\<And>a. (a, t) \<in> disturbs ds \<Longrightarrow> a \<notin> ?keys - set order"
      using wfE_min [of "disturbs ds" x "?keys - set order"] by blast
    from t(1) none cnt have "pending_effects ds (set order) t \<noteq> 0" by auto
    then obtain a p where a: "(a, p) \<in> set ds" "a \<notin> set order" "t \<in> set (pd_side_effects p)"
      unfolding pending_zero by blast
    with d(1) have "map_of ds a = Some p" by simp
    with a have "(a, t) \<in> disturbs ds" by (auto simp: disturbs_def)
    with t(2) a show False by force
  qed
  ultimately show ?thesis by blast
qed

lemma count_targets_error:
  "count_targets ps p ts incoming = Some (Inl e) \<Longrightarrow> e \<noteq> ParamDependencyCycle"
  by (induction ps p ts incoming rule: count_targets.induct) (auto split: option.splits if_splits)

lemma count_incoming_error:
  "count_incoming ps descs incoming = Some (Inl e) \<Longrightarrow> e \<noteq> ParamDependencyCycle"
  by (induction ps descs incoming rule: count_incoming.induct)
    (auto dest: count_targets_error split: option.splits sum.splits)

definition restorable :: "descriptors \<Rightarrow> planned \<Rightarrow> bool" where
  "restorable ds ps \<longleftrightarrow>
     (\<forall>(a, t) \<in> disturbs ds. \<exists>x. map_of ps t = Some x \<and> pl_value x \<noteq> None)"

lemma order_parameters_spec:
  assumes keys: "map fst ps = map fst ds" and d: "distinct (map fst ds)"
  obtains (ordered) order where "order_parameters ds ps = Some (Inr order)" "restores ds order"
      "restorable ds ps"
  | (refused) e where "order_parameters ds ps = Some (Inl e)"
      "e = ParamDependencyCycle \<Longrightarrow> \<nexists>order. restores ds order"
proof -
  let ?start = "map (\<lambda>(i, x). (i, 0)) ps :: (rstr \<times> nat) list"
  have sk: "map fst ?start = map fst ps" by (induction ps) auto
  have s0: "map_of ?start i = (if i \<in> set (map fst ps) then Some 0 else None)" for i
    by (induction ps) auto
  obtain r where r: "count_incoming ps (map snd ds) ?start = Some r"
    using count_incoming_total [of ps ?start "map snd ds"] sk by auto
  show thesis
  proof (cases r)
    case (Inl e)
    with r count_incoming_error [of ps "map snd ds" ?start e] show thesis
      by (intro refused [of e]) (simp_all add: order_parameters_def)
  next
    case (Inr incoming)
    note spec = count_incoming_spec [OF r [unfolded Inr]]
    have c: "map fst incoming = map fst ds"
      "\<forall>p \<in> set (map snd ds). set (pd_side_effects p) \<subseteq> set (map fst ds) \<and>
        (\<forall>t \<in> set (pd_side_effects p). \<exists>x. map_of ps t = Some x \<and> pl_value x \<noteq> None)"
      using spec unfolding sk keys by blast+
    have n: "map_of incoming i =
        map_option (\<lambda>n. n + sum_list (map (\<lambda>p. count_list (pd_side_effects p) i) (map snd ds)))
          (map_of ?start i)" for i
      using spec by blast
    have closed: "closed_effects ds" using c(2) by (fastforce simp: closed_effects_def)
    have rest: "restorable ds ps"
      using c(2) by (fastforce simp: restorable_def disturbs_def dest!: map_of_SomeD)
    have pend: "map_of incoming t = Some (pending_effects ds {} t)" if "t \<in> set (map fst ds)" for t
    proof -
      have "map (\<lambda>p. count_list (pd_side_effects p) t) (map snd ds) =
          map (\<lambda>(a, p). if a \<in> {} then 0 else count_list (pd_side_effects p) t) ds"
        by (simp add: case_prod_unfold)
      then have "sum_list (map (\<lambda>p. count_list (pd_side_effects p) t) (map snd ds)) =
          pending_effects ds {} t" by (simp only: pending_effects_def)
      with n [of t] s0 [of t] keys that show ?thesis by simp
    qed
    let ?ready = "map fst (filter (\<lambda>(i, n). n = 0) incoming)"
    have di: "distinct (map fst incoming)" using c(1) d by simp
    have "set ?ready = {t \<in> set (map fst ds). t \<notin> set [] \<and> map_of incoming t = Some 0}"
    proof -
      have "t \<in> set ?ready \<longleftrightarrow> map_of incoming t = Some 0" for t
        using di by (auto simp: image_iff)
      moreover have "map_of incoming t = Some 0 \<Longrightarrow> t \<in> set (map fst ds)" for t
        using c(1) by (metis map_of_SomeD fst_conv image_eqI list.set_map)
      ultimately show ?thesis by auto
    qed
    moreover have "distinct ?ready" using di by (rule distinct_filter_ids)
    ultimately have inv: "kahn_inv ds incoming ?ready []"
      using d closed c(1) pend by (simp add: kahn_inv_def)
    from kahn_result [OF this] obtain incoming' order where
      k: "kahn_order ds incoming ?ready [] = Some order" "kahn_inv ds incoming' [] order" by blast
    have len: "length ps = length ds" using keys by (rule length_by_keys)
    show thesis
    proof (cases "length order = length ds")
      case True
      with k r Inr len rest kahn_final [OF k(2)] show thesis
        by (intro ordered [of order]) (simp_all add: order_parameters_def)
    next
      case False
      with kahn_final [OF k(2)] have "\<not> acyclic (disturbs ds)" by simp
      with restores_acyclic closed have "\<nexists>order. restores ds order" by blast
      with False k r Inr len show thesis
        by (intro refused [of ParamDependencyCycle]) (simp_all add: order_parameters_def)
    qed
  qed
qed

section \<open>Composition\<close>

lemma patch_targets_planned:
  assumes "validate_patch_for c selector n = Inr ()" "i \<in> set (map fst (np_parameters n))"
  shows "map_of (plan_descriptors c) i \<noteq> None"
proof -
  from assms obtain op where op: "(i, op) \<in> set (np_parameters n)"
    and v: "validate_catalogue c = Inr ()" "validate_operation_for c (i, op) = Inr ()"
    by (auto simp: validate_patch_for_def res_simps split: if_splits)
  from v(2) obtain p where p: "find_parameter c i = Some p" "pd_scope p = VoiceScope"
    "pd_adjustable p" "pa_status (pd_availability p) = PaSupported"
    by (auto simp: validate_operation_for_def res_simps split: if_splits)
  then have "p \<in> set (ca_parameters c)"
    by (auto simp: find_parameter_def dest: find_id_Some)
  from validated_catalogue(2) [OF v(1) this] p have "plannable p"
    by (auto simp: validate_parameter_def res_simps plannable_def)
  with p plan_descriptors_lookup [OF v(1), of i] show ?thesis by simp
qed

text \<open>The value and origin of a parameter: common mapping, then context, then patch.\<close>

definition layered_parameter ::
    "rstr list \<Rightarrow> descriptors \<Rightarrow> native_value option \<Rightarrow> native_value adjustment option \<Rightarrow> rstr \<Rightarrow>
     parameter_descriptor \<Rightarrow> planned_parameter" where
  "layered_parameter contextual ds mapped op i p =
     (let common = (case mapped of Some v \<Rightarrow> Some v | None \<Rightarrow> df_value (pd_default p))
      in if i \<in> set contextual
         then \<lparr>pl_value = common, pl_origin = FromContextMapping, pl_masked_native = (op \<noteq> None)\<rparr>
         else case op of
                Some (SetTo v) \<Rightarrow>
                  \<lparr>pl_value = Some v, pl_origin = FromNativeSet, pl_masked_native = False\<rparr>
              | Some ToDefault \<Rightarrow>
                  \<lparr>pl_value = df_value (pd_default p), pl_origin = FromNativeDefault,
                   pl_masked_native = False\<rparr>
              | None \<Rightarrow>
                  \<lparr>pl_value = common,
                   pl_origin = (if mapped = None then FromEngineDefault else FromCommonMapping),
                   pl_masked_native = False\<rparr>)"

definition patch_operations :: "native_patch option \<Rightarrow> (rstr \<times> native_value adjustment) list" where
  "patch_operations native = (case native of None \<Rightarrow> [] | Some n \<Rightarrow> np_parameters n)"

text \<open>Only the ordering reports a dependency cycle.\<close>

lemma no_cycle_basic:
  "param_require b m \<noteq> Inl ParamDependencyCycle"
  "r \<noteq> Inl ParamDependencyCycle \<Longrightarrow> (\<And>x. f x \<noteq> Inl ParamDependencyCycle) \<Longrightarrow>
   and_then r f \<noteq> Inl ParamDependencyCycle"
  "map_err (\<lambda>_. ParamInvalid m') r' \<noteq> Inl ParamDependencyCycle"
  "ok_or x (ParamRejected i m) \<noteq> Inl ParamDependencyCycle"
proof -
  show "r \<noteq> Inl ParamDependencyCycle \<Longrightarrow> (\<And>x. f x \<noteq> Inl ParamDependencyCycle) \<Longrightarrow>
      and_then r f \<noteq> Inl ParamDependencyCycle" by (cases r) simp_all
  show "map_err (\<lambda>_. ParamInvalid m') r' \<noteq> Inl ParamDependencyCycle" by (cases r') simp_all
  show "ok_or x (ParamRejected i m) \<noteq> Inl ParamDependencyCycle" by (cases x) simp_all
qed (simp add: param_require_def)

lemma no_cycle_each:
  "(\<And>x. f x \<noteq> Inl ParamDependencyCycle) \<Longrightarrow> check_each f xs \<noteq> Inl ParamDependencyCycle"
  by (induction xs) (simp_all add: no_cycle_basic)

lemma no_cycle_values:
  "validate_native_value v \<noteq> Inl ParamDependencyCycle"
  "validate_enum_choices seen cs \<noteq> Inl ParamDependencyCycle"
  "validate_value_type vt \<noteq> Inl ParamDependencyCycle"
  "validate_side_effects own used ts \<noteq> Inl ParamDependencyCycle"
proof -
  show "validate_native_value v \<noteq> Inl ParamDependencyCycle" by (cases v) (simp_all add: no_cycle_basic)
  show choices: "validate_enum_choices seen cs \<noteq> Inl ParamDependencyCycle" for seen cs
    by (induction seen cs rule: validate_enum_choices.induct) (simp_all add: no_cycle_basic)
  show "validate_value_type vt \<noteq> Inl ParamDependencyCycle"
    by (cases vt) (simp_all add: no_cycle_basic choices)
  show "validate_side_effects own used ts \<noteq> Inl ParamDependencyCycle"
    by (induction own used ts rule: validate_side_effects.induct) (simp_all add: no_cycle_basic)
qed

lemma no_cycle_descriptors: "validate_parameters voice ids ps \<noteq> Inl ParamDependencyCycle"
  by (induction voice ids ps rule: validate_parameters.induct)
    (simp_all add: no_cycle_basic no_cycle_values validate_parameter_def)

lemma no_cycle_catalogue: "validate_catalogue c \<noteq> Inl ParamDependencyCycle"
  by (simp add: validate_catalogue_def Let_def validate_identity_def validate_mapping_def no_cycle_basic
      no_cycle_each no_cycle_descriptors)

lemma no_cycle_operation:
  "validate_operation op \<noteq> Inl ParamDependencyCycle"
  "validate_operation_for c op \<noteq> Inl ParamDependencyCycle"
  by (cases "snd op"; simp add: validate_operation_def validate_operation_for_def no_cycle_basic
      no_cycle_values)+

lemma no_cycle_patch: "validate_patch_for c selector n \<noteq> Inl ParamDependencyCycle"
  by (simp add: validate_patch_for_def validate_shape_of_patch_def no_cycle_basic no_cycle_each
      no_cycle_catalogue no_cycle_operation)

lemma checks_error: "plan_checks c expected realized native context \<noteq> Inl ParamDependencyCycle"
proof -
  have "contextual_inputs context \<noteq> Inl ParamDependencyCycle"
    unfolding contextual_inputs_def by (rule no_cycle_basic(2) [OF no_cycle_basic(3)]) simp
  then show ?thesis
    by (cases native) (simp_all add: plan_checks_def no_cycle_basic no_cycle_catalogue no_cycle_patch)
qed

lemma apply_mapped_error:
  "apply_mapped ds mapped ps = Some (Inl e) \<Longrightarrow> e \<noteq> ParamDependencyCycle"
  by (induction ds mapped ps rule: apply_mapped.induct) (auto split: option.splits if_splits)

lemma overlay_layered:
  assumes "map_of ds i = Some p"
  shows "native_overlay contextual ds i op
    (if i \<in> set contextual
     then \<lparr>pl_value = (case v of Some v \<Rightarrow> Some v | None \<Rightarrow> df_value (pd_default p)),
           pl_origin = FromContextMapping, pl_masked_native = False\<rparr>
     else \<lparr>pl_value = (case v of Some v \<Rightarrow> Some v | None \<Rightarrow> df_value (pd_default p)),
           pl_origin = (if v = None then FromEngineDefault else FromCommonMapping),
           pl_masked_native = False\<rparr>) = layered_parameter contextual ds v op i p"
  using assms by (cases op) (auto simp: native_overlay_def layered_parameter_def split: adjustment.split)

lemma layers_lookup:
  assumes mapped: "apply_mapped ds mapped (baseline ds) = Some (Inr ps)" "distinct (map fst mapped)"
    and native: "\<And>i. map_of ps' i = map_option (native_overlay contextual ds i (map_of ops i))
      (map_of (apply_context contextual ps) i)"
  shows "map_of ps' i = map_option
    (layered_parameter contextual ds (map_of mapped i) (map_of ops i) i) (map_of ds i)"
proof (cases "map_of ds i")
  case None
  with apply_mapped_spec [OF mapped, of i] native [of i] show ?thesis
    by (simp add: apply_context_lookup baseline_lookup split: option.splits)
next
  case (Some p)
  from apply_mapped_spec [OF mapped, of i] Some have
    "map_of (apply_context contextual ps) i = Some (if i \<in> set contextual
     then \<lparr>pl_value = (case map_of mapped i of Some v \<Rightarrow> Some v | None \<Rightarrow> df_value (pd_default p)),
           pl_origin = FromContextMapping, pl_masked_native = False\<rparr>
     else \<lparr>pl_value = (case map_of mapped i of Some v \<Rightarrow> Some v | None \<Rightarrow> df_value (pd_default p)),
           pl_origin = (if map_of mapped i = None then FromEngineDefault else FromCommonMapping),
           pl_masked_native = False\<rparr>)"
    by (auto simp: apply_context_lookup baseline_lookup split: option.splits)
  with native [of i] overlay_layered [OF Some, of contextual "map_of ops i" "map_of mapped i"] Some
  show ?thesis by simp
qed

lemma compose_spec:
  assumes m: "distinct (map fst mapped)" and n: "distinct (map fst (patch_operations native))"
  obtains (planned) plan explicit where
      "compose_plan c expected realized mapped native style = Some (Inr plan)"
      "contextual_inputs style = Inr explicit" "validate_catalogue c = Inr ()"
      "map fst (pn_parameters plan) = map fst (plan_descriptors c)"
      "\<And>i. map_of (pn_parameters plan) i =
         map_option (layered_parameter (contextual_outputs c explicit) (plan_descriptors c)
           (map_of mapped i) (map_of (patch_operations native) i) i) (map_of (plan_descriptors c) i)"
      "restores (plan_descriptors c) (pn_application_order plan)"
      "restorable (plan_descriptors c) (pn_parameters plan)"
  | (refused) e where "compose_plan c expected realized mapped native style = Some (Inl e)"
      "e = ParamDependencyCycle \<Longrightarrow> \<nexists>order. restores (plan_descriptors c) order"
proof -
  let ?ds = "plan_descriptors c"
  note unfold = compose_plan_def Let_def patch_operations_def [symmetric]
  let ?checks = "plan_checks c expected realized native style"
  show thesis
  proof (cases ?checks)
    case (Inl e)
    then have "compose_plan c expected realized mapped native style = Some (Inl e)"
      by (simp add: unfold)
    moreover have "e \<noteq> ParamDependencyCycle" using Inl checks_error by metis
    ultimately show thesis using refused by blast
  next
    case (Inr explicit)
    then have ok: "validate_catalogue c = Inr ()" "contextual_inputs style = Inr explicit"
      "\<And>n. native = Some n \<Longrightarrow> validate_patch_for c (Exact realized) n = Inr ()"
      by (auto simp: plan_checks_def res_simps split: if_splits)
    obtain r where r: "apply_mapped ?ds mapped (baseline ?ds) = Some r"
      using apply_mapped_total [OF baseline_keys, of ?ds mapped] by blast
    show thesis
    proof (cases r)
      case (Inl e)
      with r Inr have "compose_plan c expected realized mapped native style = Some (Inl e)"
        by (simp add: unfold)
      moreover have "e \<noteq> ParamDependencyCycle" using apply_mapped_error r Inl by blast
      ultimately show thesis using refused by blast
    next
      case (Inr ps)
      let ?cx = "contextual_outputs c explicit"
      from apply_mapped_spec [OF r [unfolded Inr] m] have keys: "map fst (apply_context ?cx ps) = map fst ?ds"
        by simp
      have "\<forall>i \<in> set (map fst (patch_operations native)). map_of ?ds i \<noteq> None"
        using patch_targets_planned ok(3) unfolding patch_operations_def by (cases native) auto
      from apply_native_spec [OF keys n this, of ?cx] obtain ps' where
        ps': "apply_native ?ds ?cx (patch_operations native) (apply_context ?cx ps) = Some ps'"
        "map fst ps' = map fst ?ds"
        and look: "map_of ps' i = map_option (native_overlay ?cx ?ds i (map_of (patch_operations native) i))
          (map_of (apply_context ?cx ps) i)" for i
        unfolding keys by blast
      have eq: "compose_plan c expected realized mapped native style =
          map_option (map_sum id (\<lambda>order.
            \<lparr>pn_realized = realized, pn_identity = ca_identity c,
             pn_parameters = ps', pn_application_order = order\<rparr>)) (order_parameters ?ds ps')"
        using \<open>?checks = Inr explicit\<close> r Inr ps'(1) by (simp add: unfold)
      show thesis
      proof (cases rule: order_parameters_spec [OF ps'(2) plan_descriptors_keys,
          case_names ordered refused])
        case (ordered order)
        from ordered(1) have plan: "compose_plan c expected realized mapped native style =
            Some (Inr \<lparr>pn_realized = realized, pn_identity = ca_identity c,
              pn_parameters = ps', pn_application_order = order\<rparr>)" by (simp add: eq)
        show thesis
          by (rule planned [OF plan ok(2,1)])
            (use ps'(2) ordered layers_lookup [OF r [unfolded Inr] m look] in simp_all)
      next
        case (refused e)
        then have "compose_plan c expected realized mapped native style = Some (Inl e)"
          by (simp add: eq)
        with refused(2) that(2) show thesis by blast
      qed
    qed
  qed
qed


section \<open>Properties\<close>

text \<open>A small catalogue: two qualified controls, the first of which disturbs the second.\<close>

definition sample_descriptor :: "rstr \<Rightarrow> rstr list \<Rightarrow> parameter_descriptor" where
  "sample_descriptor i targets =
     \<lparr>pd_id = i, pd_label = lit ''Label'', pd_help = lit ''Help'', pd_group = lit ''g'', pd_order = 0,
      pd_unit = None, pd_value_type = VtInteger 0 10 1, pd_scope = VoiceScope, pd_adjustable = True,
      pd_availability = \<lparr>pa_status = PaSupported, pa_reason = None\<rparr>,
      pd_default = \<lparr>df_source = QualifiedProfile, df_value = Some (NvInteger 5),
                    df_reset_supported = True\<rparr>,
      pd_side_effects = targets\<rparr>"

definition sample_identity :: catalogue_identity where
  "sample_identity =
     \<lparr>ci_schema_id = lit ''s'', ci_profile_id = lit ''p'', ci_catalogue_revision = replicate 64 48,
      ci_runtime_generation = 1\<rparr>"

definition sample_catalogue :: parameter_catalogue where
  "sample_catalogue =
     \<lparr>ca_engine_id = lit ''e'', ca_identity = sample_identity, ca_voice_id = Some (lit ''v''),
      ca_parameters = [sample_descriptor (lit ''b'') [lit ''a''], sample_descriptor (lit ''a'') []],
      ca_mappings = []\<rparr>"

definition sample_native :: native_patch where
  "sample_native = \<lparr>np_engine_id = lit ''e'', np_schema_id = lit ''s'',
     np_parameters = [(lit ''a'', SetTo (NvInteger 7))]\<rparr>"

definition sample_plan :: "(parameter_error + native_plan) option" where
  "sample_plan =
     compose_plan sample_catalogue sample_identity (PhysicalVoiceId (lit ''e'') (lit ''v''))
       [(lit ''b'', NvInteger 3)] (Some sample_native) no_patch"

lemma sample_planned: "case sample_plan of Some (Inr plan) \<Rightarrow> True | _ \<Rightarrow> False"
  by code_simp

lemma sample_keys:
  "distinct (map fst [(lit ''b'', NvInteger 3)])"
  "distinct (map fst (patch_operations (Some sample_native)))"
  by (simp_all add: patch_operations_def sample_native_def)

text \<open>
  C27: Planning never panics, and what it plans layers the sources in the documented order: every
  plannable control of the catalogue, and no other, has the engine default unless the common
  mapping gives it a value; a control that the contextual style reaches keeps that value and only
  records that the patch was masked; otherwise the patch sets it or resets it to the default.
\<close>
theorem plan_precedence:
  assumes "distinct (map fst mapped)" and "distinct (map fst (patch_operations native))"
  shows "\<exists>r. compose_plan c expected realized mapped native style = Some r \<and>
    (\<forall>plan. r = Inr plan \<longrightarrow>
      (\<exists>explicit. contextual_inputs style = Inr explicit \<and>
        (\<forall>i. map_of (pn_parameters plan) i =
           map_option
             (layered_parameter (contextual_outputs c explicit) (plan_descriptors c)
               (map_of mapped i) (map_of (patch_operations native) i) i)
             (case find_parameter c i of
                Some p \<Rightarrow> if plannable p then Some p else None | None \<Rightarrow> None))))"
proof (cases rule: compose_spec [OF assms, where c = c and expected = expected
      and realized = realized and style = style, case_names planned refused])
  case (planned plan explicit)
  then show ?thesis by (simp add: plan_descriptors_lookup)
next
  case (refused e)
  then show ?thesis by simp
qed

theorem plan_precedence_witness:
  "\<exists>plan. sample_plan = Some (Inr plan) \<and>
     map_option pl_value (map_of (pn_parameters plan) (lit ''a'')) = Some (Some (NvInteger 7))"
proof -
  from sample_planned obtain plan where plan: "sample_plan = Some (Inr plan)"
    by (auto split: option.splits sum.splits)
  have found: "(case find_parameter sample_catalogue (lit ''a'') of
      Some p \<Rightarrow> if plannable p then Some p else None | None \<Rightarrow> None) =
      Some (sample_descriptor (lit ''a'') [])" by code_simp
  have op: "map_of (patch_operations (Some sample_native)) (lit ''a'') = Some (SetTo (NvInteger 7))"
    by code_simp
  have "contextual_outputs sample_catalogue explicit = []" for explicit
    by (simp add: contextual_outputs_def sample_catalogue_def)
  with plan_precedence [OF sample_keys, of sample_catalogue sample_identity
      "PhysicalVoiceId (lit ''e'') (lit ''v'')" no_patch] plan
  have "map_of (pn_parameters plan) (lit ''a'') = Some \<lparr>pl_value = Some (NvInteger 7),
      pl_origin = FromNativeSet, pl_masked_native = False\<rparr>"
    unfolding sample_plan_def by (auto simp: found op layered_parameter_def)
  then have "map_option pl_value (map_of (pn_parameters plan) (lit ''a'')) = Some (Some (NvInteger 7))"
    by (simp only: option.map(2) planned_parameter.simps)
  with plan show ?thesis by blast
qed

text \<open>
  C28: The order of a plan undoes side effects: it lists every planned control once, a control only
  after every control that disturbs it, and every disturbed control has a value to be restored
  to. A dependency cycle is reported only when no such order exists.
\<close>
theorem plan_order_restores:
  assumes "distinct (map fst mapped)" and "distinct (map fst (patch_operations native))"
  shows "\<exists>r. compose_plan c expected realized mapped native style = Some r \<and>
    (\<forall>plan. r = Inr plan \<longrightarrow>
       restores (plan_descriptors c) (pn_application_order plan) \<and>
       set (pn_application_order plan) = set (map fst (pn_parameters plan)) \<and>
       restorable (plan_descriptors c) (pn_parameters plan)) \<and>
    (r = Inl ParamDependencyCycle \<longrightarrow> (\<nexists>order. restores (plan_descriptors c) order))"
proof (cases rule: compose_spec [OF assms, where c = c and expected = expected
      and realized = realized and style = style, case_names planned refused])
  case (planned plan explicit)
  have "set (map fst (pn_parameters plan)) = set (map fst (plan_descriptors c))"
    using planned(4) by (rule arg_cong)
  with planned(1,6,7) show ?thesis unfolding restores_def by simp
next
  case (refused e)
  then show ?thesis by simp
qed

theorem plan_order_restores_witness:
  "\<exists>order. restores (plan_descriptors sample_catalogue) order \<and> plan_descriptors sample_catalogue \<noteq> []"
proof -
  from sample_planned obtain plan where plan: "sample_plan = Some (Inr plan)"
    by (auto split: option.splits sum.splits)
  have "plan_descriptors sample_catalogue \<noteq> []" by code_simp
  with plan_order_restores [OF sample_keys, of sample_catalogue sample_identity
      "PhysicalVoiceId (lit ''e'') (lit ''v'')" no_patch] plan
  show ?thesis unfolding sample_plan_def by auto
qed

end
