(* ===== verification/Native_Choices.thy ===== *)
theory Native_Choices
  imports Native_Parameters Logical_Voices
begin

text \<open>
  Engine-specific voice choices (\<open>omnivox-tts/src/engine_voice_choices.rs\<close>,
  \<open>logical_voices/native.rs\<close> and \<open>native_synthesis.rs\<close>): a snapshot of the catalogues a session
  knows, the qualification of a saved patch against it, the admission of a whole registry that
  carries patches, and the preparation of the choice a resolution realized. The sizes of JSON
  texts are parameters, \<open>None\<close> when serde refuses the value.
\<close>

section \<open>Definitions with native patches\<close>

type_synonym native_choice = "native_patch engine_voice_choice"
type_synonym native_definition = "native_patch engine_layered_voice_definition"
type_synonym native_registered = "native_patch registered_voice_definition"

datatype native_choice_error =
  NcCommon choice_tuning_error
| NcNative parameter_error
| NcUnavailable string

definition validate_native_choice :: "native_choice \<Rightarrow> native_choice_error + unit" where
  "validate_native_choice c =
     (case evc_native c of
        None \<Rightarrow> Inr ()
      | Some n \<Rightarrow>
          and_then (map_err NcNative (validate_shape_of_patch n)) (\<lambda>_.
            if selector_engine_id (evc_selector c) \<noteq> Some (np_engine_id n)
            then Inl (NcNative ParamIdentityMismatch) else Inr ()))"

definition validate_engine_layered :: "native_definition \<Rightarrow> native_choice_error + unit" where
  "validate_engine_layered d =
     and_then (map_err NcCommon (validate_layered (common_projection d)))
       (\<lambda>_. check_each validate_native_choice (el_choices d))"

definition legacy_numbers :: "logical_voice_definition \<Rightarrow> f32 list" where
  "legacy_numbers v =
     List.map_filter id
       [na_rate (lv_acss v), na_average_pitch (lv_acss v), na_pitch_range (lv_acss v),
        na_stress (lv_acss v), na_richness (lv_acss v), na_volume (lv_acss v),
        ps_gain (lv_effects v), ps_low_pass (lv_effects v), ps_high_pass (lv_effects v),
        ps_pan (lv_effects v), ps_reverb (lv_effects v), ps_echo (lv_effects v),
        ps_chorus (lv_effects v)]"

fun project_registered ::
    "native_registered \<Rightarrow> native_choice_error + logical_voice_definition" where
  "project_registered (Legacy v) =
     (if list_ex (\<lambda>x. \<not> is_finite x) (legacy_numbers v)
      then Inl (NcNative (ParamInvalid ''nonfinite legacy style value'')) else Inr v)"
| "project_registered (Layered v) =
     and_then (map_err NcCommon (validate_layered v)) (\<lambda>_. Inr (legacy_projection v))"
| "project_registered (EngineLayered v) =
     and_then (validate_engine_layered v) (\<lambda>_. Inr (legacy_projection (common_projection v)))"

record voice_registration_v3 =
  rv_generation :: nat
  rv_definitions :: "native_registered list"
  rv_policy :: fallback_policy

definition max_control_payload_bytes :: nat where "max_control_payload_bytes = 262144"

definition validate_registration_v3 ::
    "(voice_registration_v3 \<Rightarrow> nat option) \<Rightarrow> voice_registration_v3 \<Rightarrow>
     native_choice_error + unit" where
  "validate_registration_v3 json_size r =
     (if rv_generation r = 0 \<or> max_logical_voices < length (rv_definitions r)
      then Inl (NcCommon (Invalid ''invalid native registry generation/count''))
      else and_then (try_collect project_registered (rv_definitions r)) (\<lambda>projection.
        and_then (map_err NcCommon (map_err Registry (validate_registration projection (rv_policy r))))
          (\<lambda>_. case json_size r of
                 None \<Rightarrow> Inl (NcNative (ParamInvalid ''invalid registration values''))
               | Some n \<Rightarrow>
                   if max_control_payload_bytes < n
                   then Inl (NcNative (ParamInvalid ''native registry exceeds control bound''))
                   else Inr ())))"

section \<open>Catalogue snapshots\<close>

datatype native_support = NsSupported | NsDeferred | NsUnavailable

record native_choice_status =
  ncs_logical_voice_id :: rstr
  ncs_choice_id :: rstr
  ncs_status :: native_support
  ncs_reason :: "string option"

datatype parameter_knowledge =
  KnownReady parameter_catalogue | KnownDeferred rstr | KnownUnavailable rstr

record catalogue_snapshot =
  cs_inventory :: "engine_descriptor list"
  cs_ready :: "((rstr \<times> rstr option) \<times> parameter_catalogue) list"
  cs_unavailable :: "(rstr \<times> native_support) list"

text \<open>The body of the loop; the third component is the runtime generation seen per engine.\<close>

definition note_absent ::
    "rstr \<Rightarrow> native_support \<Rightarrow> catalogue_snapshot \<times> (rstr \<times> nat) list \<Rightarrow>
     native_choice_error + catalogue_snapshot \<times> (rstr \<times> nat) list" where
  "note_absent e status st =
     (case st of (s, gens) \<Rightarrow>
        if map_of (cs_unavailable s) e \<noteq> None
        then Inl (NcNative (ParamInvalid ''duplicate engine knowledge''))
        else Inr (s\<lparr>cs_unavailable := (e, status) # cs_unavailable s\<rparr>, gens))"

fun note_knowledge ::
    "parameter_knowledge \<Rightarrow> catalogue_snapshot \<times> (rstr \<times> nat) list \<Rightarrow>
     native_choice_error + catalogue_snapshot \<times> (rstr \<times> nat) list" where
  "note_knowledge (KnownReady c) (s, gens) =
     and_then (map_err NcNative (validate_catalogue c)) (\<lambda>_.
       if map_of (cs_ready s) (ca_engine_id c, ca_voice_id c) \<noteq> None \<or>
          (case map_of gens (ca_engine_id c) of
             None \<Rightarrow> False | Some old \<Rightarrow> old \<noteq> ci_runtime_generation (ca_identity c))
       then Inl (NcNative (ParamInvalid ''conflicting catalogue snapshots''))
       else Inr (s\<lparr>cs_ready := ((ca_engine_id c, ca_voice_id c), c) # cs_ready s\<rparr>,
                 (ca_engine_id c, ci_runtime_generation (ca_identity c)) # gens))"
| "note_knowledge (KnownDeferred e) st = note_absent e NsDeferred st"
| "note_knowledge (KnownUnavailable e) st = note_absent e NsUnavailable st"

fun note_all ::
    "parameter_knowledge list \<Rightarrow> catalogue_snapshot \<times> (rstr \<times> nat) list \<Rightarrow>
     native_choice_error + catalogue_snapshot \<times> (rstr \<times> nat) list" where
  "note_all [] st = Inr st"
| "note_all (k # ks) st = and_then (note_knowledge k st) (note_all ks)"

definition new_snapshot ::
    "engine_descriptor list \<Rightarrow> parameter_knowledge list \<Rightarrow>
     native_choice_error + catalogue_snapshot" where
  "new_snapshot inventory entries =
     and_then (note_all entries (\<lparr>cs_inventory = inventory, cs_ready = [], cs_unavailable = []\<rparr>, []))
       (\<lambda>(s, gens).
          if list_ex (\<lambda>((e, v), c). map_of (cs_unavailable s) e \<noteq> None) (cs_ready s)
          then Inl (NcNative (ParamInvalid ''conflicting engine knowledge'')) else Inr s)"

definition snapshot_catalogue ::
    "catalogue_snapshot \<Rightarrow> rstr \<Rightarrow> rstr option \<Rightarrow> parameter_catalogue option" where
  "snapshot_catalogue s e v =
     (case map_of (cs_ready s) (e, v) of
        Some c \<Rightarrow> Some c
      | None \<Rightarrow> map_of (cs_ready s) (e, None))"

fun qualify_operations ::
    "parameter_catalogue \<Rightarrow> (rstr \<times> native_value adjustment) list \<Rightarrow> native_support \<Rightarrow>
     parameter_error + native_support" where
  "qualify_operations c [] status = Inr status"
| "qualify_operations c ((i, op) # rest) status =
     (case find_parameter c i of
        None \<Rightarrow> Inl (ParamRejected i ''not described by runtime'')
      | Some p \<Rightarrow>
          if pd_scope p \<noteq> VoiceScope \<or>
             pa_status (pd_availability p) = PaSupported \<and> \<not> pd_adjustable p
          then Inl (ParamRejected i ''not an adjustable voice parameter'')
          else if (case op of
                     SetTo v \<Rightarrow> \<not> accepts_value (pd_value_type p) v | ToDefault \<Rightarrow> False)
          then Inl (ParamRejected i ''value outside declared type/range'')
          else qualify_operations c rest
                 (case pa_status (pd_availability p) of
                    PaSupported \<Rightarrow> status
                  | PaNotChecked \<Rightarrow> if status = NsSupported then NsDeferred else status
                  | _ \<Rightarrow> NsUnavailable))"

fun selected_voice_id :: "voice_selector \<Rightarrow> rstr option" where
  "selected_voice_id (Exact v) = Some (pv_voice_id v)"
| "selected_voice_id _ = None"

definition qualify ::
    "catalogue_snapshot \<Rightarrow> native_patch \<Rightarrow> voice_selector \<Rightarrow>
     parameter_error + native_support \<times> string option \<times> parameter_catalogue option" where
  "qualify s n selector =
     (case find (\<lambda>e. ed_id e = np_engine_id n) (cs_inventory s) of
        None \<Rightarrow> Inr (NsUnavailable, Some ''Engine is unavailable'', None)
      | Some engine \<Rightarrow>
          if \<not> engine_can_synthesize engine
          then Inr (NsUnavailable, Some ''Engine is unavailable'', None)
          else
            (let voice = selected_voice_id selector
             in case snapshot_catalogue s (np_engine_id n) voice of
                  None \<Rightarrow>
                    Inr (case map_of (cs_unavailable s) (np_engine_id n) of
                           None \<Rightarrow> NsDeferred | Some status \<Rightarrow> status,
                         Some ''No current native catalogue is available'', None)
                | Some c \<Rightarrow>
                    if ci_schema_id (ca_identity c) \<noteq> np_schema_id n
                    then Inr (NsUnavailable,
                           Some ''Native schema is not supported by this runtime'', None)
                    else and_then (qualify_operations c (np_parameters n) NsSupported) (\<lambda>status.
                      let status' =
                            (if (case voice of
                                   None \<Rightarrow> False
                                 | Some v \<Rightarrow>
                                     (case descriptor_voice engine v of
                                        None \<Rightarrow> True
                                      | Some d \<Rightarrow> \<not> is_available (vd_availability d)))
                             then NsUnavailable else status)
                      in Inr (status',
                           if status' \<noteq> NsSupported
                           then Some ''Native block is not currently applicable'' else None,
                           Some c))))"

section \<open>Registration\<close>

definition choice_status ::
    "catalogue_snapshot \<Rightarrow> rstr \<Rightarrow> native_choice \<times> native_patch \<Rightarrow>
     native_choice_error + native_choice_status" where
  "choice_status s vid cn =
     and_then (map_err NcNative (qualify s (snd cn) (evc_selector (fst cn)))) (\<lambda>(status, why, c).
       Inr \<lparr>ncs_logical_voice_id = vid, ncs_choice_id = evc_id (fst cn), ncs_status = status,
            ncs_reason = why\<rparr>)"

definition native_choices :: "native_definition \<Rightarrow> (native_choice \<times> native_patch) list" where
  "native_choices d =
     List.map_filter (\<lambda>c. map_option (\<lambda>n. (c, n)) (evc_native c)) (el_choices d)"

fun definition_statuses ::
    "catalogue_snapshot \<Rightarrow> native_registered \<Rightarrow>
     native_choice_error + native_choice_status list" where
  "definition_statuses s (EngineLayered d) = try_collect (choice_status s (el_id d)) (native_choices d)"
| "definition_statuses s _ = Inr []"

record native_voice_registration =
  nr_generation :: nat
  nr_definition_count :: nat
  nr_unresolved :: "rstr list"
  nr_native_status :: "native_choice_status list"

fun unresolved_voice_id :: "logical_voice_binding \<Rightarrow> rstr option" where
  "unresolved_voice_id (Unresolved e) = Some (ve_logical_voice_id e)"
| "unresolved_voice_id (Resolved r) = None"

definition register_v3 ::
    "(voice_registration_v3 \<Rightarrow> nat option) \<Rightarrow> (native_voice_registration \<Rightarrow> nat option) \<Rightarrow>
     voice_registration_v3 \<Rightarrow> catalogue_snapshot \<Rightarrow> native_patch logical_voice_registry \<Rightarrow>
     native_choice_error + native_voice_registration \<times> native_patch logical_voice_registry" where
  "register_v3 json_size reply_size request s r =
     (if rv_generation request \<noteq> 0 \<and> rv_generation request < lr_generation r
      then Inl (NcCommon (Registry (LvStaleGeneration (lr_generation r) (rv_generation request))))
      else and_then (validate_registration_v3 json_size request) (\<lambda>_.
        and_then (try_collect (definition_statuses s) (rv_definitions request)) (\<lambda>statuses.
        and_then
          (map_err NcCommon
             (replace_definitions (rv_generation request) (rv_definitions request)
                (rv_policy request) (cs_inventory s) r))
          (\<lambda>(registration, candidate).
             let result = \<lparr>nr_generation = lr_generation candidate,
                           nr_definition_count = length (lr_registered candidate),
                           nr_unresolved =
                             List.map_filter unresolved_voice_id (lg_bindings registration),
                           nr_native_status = concat statuses\<rparr>
             in case reply_size result of
                  None \<Rightarrow> Inl (NcCommon (Invalid ''invalid native acknowledgement''))
                | Some n \<Rightarrow>
                    if max_control_payload_bytes < n
                    then Inl (NcCommon (Invalid ''native acknowledgement exceeds control bound''))
                    else Inr (result, candidate)))))"

section \<open>Preparation of the realized choice\<close>

datatype unavailable_policy = RequireNative | AllowCommonOnly

record voice_parameters =
  vpa_native :: native_patch
  vpa_context_dimensions :: "common_input list"
  vpa_expected_identity :: catalogue_identity
  vpa_unavailable_policy :: unavailable_policy

datatype native_choice_execution =
  NotRequested | WithParameters voice_parameters | CommonOnlyBecause string

record prepared_engine_voice_style =
  pev_common :: composed_voice_style
  pev_native :: native_choice_execution

definition prepare_native ::
    "native_patch \<Rightarrow> voice_style_patch \<Rightarrow> physical_voice_id \<Rightarrow> catalogue_snapshot \<Rightarrow>
     unavailable_policy \<Rightarrow> native_choice_error + native_choice_execution" where
  "prepare_native n style realized s policy =
     (let degrade = (\<lambda>why. if policy = RequireNative then Inl (NcUnavailable why)
                           else Inr (CommonOnlyBecause why))
      in case qualify s n (Exact realized) of
           Inr (NsSupported, why, Some c) \<Rightarrow>
             and_then (map_err NcNative (contextual_inputs style)) (\<lambda>dims.
               Inr (WithParameters
                 \<lparr>vpa_native = n, vpa_context_dimensions = dims,
                  vpa_expected_identity = ca_identity c, vpa_unavailable_policy = policy\<rparr>))
         | Inr (status, why, c) \<Rightarrow>
             degrade (case why of None \<Rightarrow> ''Native catalogue is unavailable'' | Some w \<Rightarrow> w)
         | Inl e \<Rightarrow> degrade ''Saved native block is invalid for this runtime'')"

definition prepare_choice ::
    "native_definition \<Rightarrow> voice_resolution \<Rightarrow> voice_style_patch \<Rightarrow> f32 \<Rightarrow> f32 option \<Rightarrow>
     catalogue_snapshot \<Rightarrow> unavailable_policy \<Rightarrow>
     native_choice_error + prepared_engine_voice_style" where
  "prepare_choice d resolution style base_rate placement_pan s policy =
     and_then (validate_engine_layered d) (\<lambda>_.
     and_then (map_err NcCommon (selected_choice (common_projection d) resolution)) (\<lambda>index.
     and_then
       (map_err NcCommon (compose_style (common_projection d) index style base_rate placement_pan))
       (\<lambda>common.
          case Option.bind index (\<lambda>i. evc_native (el_choices d ! i)) of
            None \<Rightarrow> Inr \<lparr>pev_common = common, pev_native = NotRequested\<rparr>
          | Some n \<Rightarrow>
              (let selected = evc_selector (el_choices d ! the index)
               in if selector_engine_id selected \<noteq> Some (pv_engine_id (vr_realized resolution)) \<or>
                     (case selected of Exact v \<Rightarrow> v \<noteq> vr_realized resolution | _ \<Rightarrow> False)
                  then Inl (NcNative ParamIdentityMismatch)
                  else and_then (prepare_native n style (vr_realized resolution) s policy)
                    (\<lambda>native. Inr \<lparr>pev_common = common, pev_native = native\<rparr>)))))"


section \<open>Snapshots hold validated catalogues under their own keys\<close>

definition snapshot_wf :: "parameter_knowledge list \<Rightarrow> catalogue_snapshot \<Rightarrow> bool" where
  "snapshot_wf entries s \<longleftrightarrow>
     (\<forall>((e, v), c) \<in> set (cs_ready s).
        KnownReady c \<in> set entries \<and> validate_catalogue c = Inr () \<and> e = ca_engine_id c \<and>
        v = ca_voice_id c) \<and> NsSupported \<notin> snd ` set (cs_unavailable s)"

lemma note_absent_ready:
  "note_absent e status (s, gens) = Inr (s', gens') \<Longrightarrow>
   cs_ready s' = cs_ready s \<and> cs_unavailable s' = (e, status) # cs_unavailable s"
  by (auto simp: note_absent_def split: if_splits)

lemma note_knowledge_wf:
  assumes "note_knowledge k (s, gens) = Inr (s', gens')" "snapshot_wf entries s" "k \<in> set entries"
  shows "snapshot_wf entries s'"
proof (cases k)
  case (KnownReady c)
  with assms have "validate_catalogue c = Inr ()"
    "cs_ready s' = ((ca_engine_id c, ca_voice_id c), c) # cs_ready s"
    "cs_unavailable s' = cs_unavailable s"
    by (auto simp: res_simps split: if_splits)
  with assms(2,3) KnownReady show ?thesis by (simp add: snapshot_wf_def)
qed (use assms in \<open>auto simp: snapshot_wf_def dest!: note_absent_ready\<close>)

lemma note_all_wf:
  "note_all ks (s, gens) = Inr (s', gens') \<Longrightarrow> snapshot_wf entries s \<Longrightarrow> set ks \<subseteq> set entries \<Longrightarrow>
   snapshot_wf entries s'"
proof (induction ks arbitrary: s gens)
  case (Cons k ks)
  then obtain s1 gens1 where n: "note_knowledge k (s, gens) = Inr (s1, gens1)"
    "note_all ks (s1, gens1) = Inr (s', gens')"
    by (auto simp: and_then_Inr)
  from note_knowledge_wf [OF n(1) Cons.prems(2)] Cons.prems(3) have "snapshot_wf entries s1" by simp
  with Cons.IH [OF n(2)] Cons.prems(3) show ?case by simp
qed simp

lemma new_snapshot_wf: "new_snapshot inventory entries = Inr s \<Longrightarrow> snapshot_wf entries s"
proof -
  assume "new_snapshot inventory entries = Inr s"
  then obtain gens where
    "note_all entries (\<lparr>cs_inventory = inventory, cs_ready = [], cs_unavailable = []\<rparr>, []) = Inr (s, gens)"
    by (auto simp: new_snapshot_def and_then_Inr split: if_splits)
  then show ?thesis by (rule note_all_wf) (simp_all add: snapshot_wf_def)
qed

lemma snapshot_catalogue_wf:
  assumes "snapshot_catalogue s e v = Some c" "snapshot_wf entries s"
  shows "KnownReady c \<in> set entries \<and> validate_catalogue c = Inr () \<and> ca_engine_id c = e \<and>
    (ca_voice_id c = v \<or> ca_voice_id c = None)"
proof -
  from assms(1) have "map_of (cs_ready s) (e, v) = Some c \<or> map_of (cs_ready s) (e, None) = Some c"
    by (auto simp: snapshot_catalogue_def split: option.splits)
  then have "((e, v), c) \<in> set (cs_ready s) \<or> ((e, None), c) \<in> set (cs_ready s)"
    by (auto dest: map_of_SomeD)
  with assms(2) show ?thesis by (fastforce simp: snapshot_wf_def)
qed

section \<open>A supported patch is valid for its catalogue\<close>

lemma qualify_operations_supported:
  "qualify_operations c ops status = Inr NsSupported \<Longrightarrow>
   status = NsSupported \<and> (\<forall>op \<in> set ops. validate_operation_for c op = Inr ())"
proof (induction c ops status rule: qualify_operations.induct)
  case (2 c i op rest status)
  obtain p where fp: "find_parameter c i = Some p"
    using 2(2) by (cases "find_parameter c i") simp_all
  let ?fixed = "pd_scope p \<noteq> VoiceScope \<or>
    pa_status (pd_availability p) = PaSupported \<and> \<not> pd_adjustable p"
  let ?outside = "case op of SetTo v \<Rightarrow> \<not> accepts_value (pd_value_type p) v | ToDefault \<Rightarrow> False"
  let ?next = "case pa_status (pd_availability p) of PaSupported \<Rightarrow> status
    | PaNotChecked \<Rightarrow> if status = NsSupported then NsDeferred else status | _ \<Rightarrow> NsUnavailable"
  have ok: "\<not> ?fixed" using 2(2) fp by (cases ?fixed) simp_all
  have inside: "\<not> ?outside"
  proof
    assume ?outside
    with 2(2) fp ok show False by (simp only: qualify_operations.simps option.case if_False if_True) simp
  qed
  from 2(2) fp ok inside have "qualify_operations c rest ?next = Inr NsSupported"
    by (simp only: qualify_operations.simps option.case if_False)
  from 2(1) [OF fp ok inside this] have rest: "?next = NsSupported"
    "\<forall>op \<in> set rest. validate_operation_for c op = Inr ()" by blast+
  from rest(1) have "pa_status (pd_availability p) = PaSupported" "status = NsSupported"
    by (cases "pa_status (pd_availability p)"; cases status; simp)+
  with fp ok inside rest(2) show ?case
    by (auto simp: validate_operation_for_def split: adjustment.splits)
qed simp

lemma qualify_supported:
  assumes "qualify s n selector = Inr (NsSupported, why, found)" and wf: "snapshot_wf entries s"
  obtains engine c where "find (\<lambda>e. ed_id e = np_engine_id n) (cs_inventory s) = Some engine"
    "engine_can_synthesize engine" "found = Some c" "why = None"
    "snapshot_catalogue s (np_engine_id n) (selected_voice_id selector) = Some c"
    "ci_schema_id (ca_identity c) = np_schema_id n"
    "\<forall>op \<in> set (np_parameters n). validate_operation_for c op = Inr ()"
proof -
  from assms(1) obtain engine where e: "find (\<lambda>e. ed_id e = np_engine_id n) (cs_inventory s) = Some engine"
    "engine_can_synthesize engine"
    by (auto simp: qualify_def split: option.splits if_splits)
  have "map_of (cs_unavailable s) i \<noteq> Some NsSupported" for i
    using wf by (force simp: snapshot_wf_def dest: map_of_SomeD)
  with assms(1) e obtain c where c: "snapshot_catalogue s (np_engine_id n) (selected_voice_id selector) = Some c"
    "ci_schema_id (ca_identity c) = np_schema_id n"
    by (auto simp: qualify_def Let_def split: option.splits if_splits)
  from assms(1) e c obtain status where q: "qualify_operations c (np_parameters n) NsSupported = Inr status"
    "found = Some c" "why = None" "status = NsSupported"
    by (auto simp: qualify_def Let_def and_then_Inr split: if_splits)
  from qualify_operations_supported [OF q(1) [unfolded q(4)]]
  have "\<forall>op \<in> set (np_parameters n). validate_operation_for c op = Inr ()" by blast
  from that [OF e q(2,3) c this] show thesis .
qed

lemma qualified_patch_valid:
  assumes q: "qualify s n selector = Inr (NsSupported, why, found)" and wf: "snapshot_wf entries s"
    and shape: "validate_shape_of_patch n = Inr ()"
    and engine: "selector_engine_id selector = Some (np_engine_id n)"
  shows "\<exists>c. found = Some c \<and> KnownReady c \<in> set entries \<and> validate_patch_for c selector n = Inr ()"
  using q wf
proof (rule qualify_supported)
  fix e c
  assume c: "snapshot_catalogue s (np_engine_id n) (selected_voice_id selector) = Some c"
    "ci_schema_id (ca_identity c) = np_schema_id n" "found = Some c"
    "\<forall>op \<in> set (np_parameters n). validate_operation_for c op = Inr ()"
  from snapshot_catalogue_wf [OF c(1) wf] have w: "KnownReady c \<in> set entries"
    "validate_catalogue c = Inr ()" "ca_engine_id c = np_engine_id n"
    "ca_voice_id c = selected_voice_id selector \<or> ca_voice_id c = None" by simp_all
  have "\<not> (case selector of Exact selected \<Rightarrow>
      (case ca_voice_id c of None \<Rightarrow> False | Some v \<Rightarrow> v \<noteq> pv_voice_id selected) | _ \<Rightarrow> False)"
    using w(4) by (cases selector) (auto split: option.split)
  with c w(2,3) shape engine have "validate_patch_for c selector n = Inr ()"
    by (simp add: validate_patch_for_def check_each_Inr)
  with c(3) w(1) show ?thesis by blast
qed


section \<open>Properties\<close>

lemma native_choice_checked:
  assumes "validate_engine_layered d = Inr ()" "i < length (el_choices d)"
    and "evc_native (el_choices d ! i) = Some n"
  shows "validate_shape_of_patch n = Inr ()"
    and "selector_engine_id (evc_selector (el_choices d ! i)) = Some (np_engine_id n)"
proof -
  from assms(1,2) have "validate_native_choice (el_choices d ! i) = Inr ()"
    by (auto simp: validate_engine_layered_def and_then_Inr check_each_Inr)
  with assms(3) show "validate_shape_of_patch n = Inr ()"
    "selector_engine_id (evc_selector (el_choices d ! i)) = Some (np_engine_id n)"
    by (auto simp: validate_native_choice_def and_then_Inr map_err_Inr split: if_splits)
qed

lemma selected_choice_bound:
  "selected_choice (common_projection d) res = Inr (Some i) \<Longrightarrow> i < length (el_choices d)"
  by (auto simp: selected_choice_def common_projection_def and_then_Inr split: if_splits option.splits)

text \<open>What the native part of a prepared choice says, by its kind.\<close>

definition native_prepared ::
    "parameter_knowledge list \<Rightarrow> native_definition \<Rightarrow> voice_resolution \<Rightarrow> voice_style_patch \<Rightarrow>
     unavailable_policy \<Rightarrow> native_choice_execution \<Rightarrow> bool" where
  "native_prepared entries d res style policy e \<longleftrightarrow>
     (let patch = (case selected_choice (common_projection d) res of
                     Inr (Some i) \<Rightarrow> evc_native (el_choices d ! i) | _ \<Rightarrow> None)
      in case e of
           NotRequested \<Rightarrow> patch = None
         | WithParameters vp \<Rightarrow>
             patch = Some (vpa_native vp) \<and> vpa_unavailable_policy vp = policy \<and>
             contextual_inputs style = Inr (vpa_context_dimensions vp) \<and>
             (\<exists>c. KnownReady c \<in> set entries \<and> ca_identity c = vpa_expected_identity vp \<and>
                validate_patch_for c (Exact (vr_realized res)) (vpa_native vp) = Inr ())
         | CommonOnlyBecause why \<Rightarrow> patch \<noteq> None \<and> policy = AllowCommonOnly)"

lemma prepare_native_cases:
  assumes "prepare_native n style realized s policy = Inr e"
  obtains (parameters) why c dims where "qualify s n (Exact realized) = Inr (NsSupported, why, Some c)"
      "contextual_inputs style = Inr dims"
      "e = WithParameters \<lparr>vpa_native = n, vpa_context_dimensions = dims,
                           vpa_expected_identity = ca_identity c, vpa_unavailable_policy = policy\<rparr>"
  | (common) why where "e = CommonOnlyBecause why" "policy = AllowCommonOnly"
proof (cases "\<exists>why c. qualify s n (Exact realized) = Inr (NsSupported, why, Some c)")
  case True
  then obtain why c where q: "qualify s n (Exact realized) = Inr (NsSupported, why, Some c)" by blast
  with assms show thesis
    by (auto simp: prepare_native_def Let_def and_then_Inr map_err_Inr intro: parameters)
next
  case False
  then have "\<exists>why. e = CommonOnlyBecause why \<and> policy = AllowCommonOnly"
    using assms
    by (cases policy) (auto simp: prepare_native_def Let_def split: sum.splits prod.splits
      native_support.splits option.splits)
  then show thesis using common by blast
qed

text \<open>
  C29: A prepared voice never carries a native block that its engine would refuse: the block is the
  patch of the choice the resolution selected, addressed to the realized voice, and valid against
  a catalogue the session was given, whose identity it names; settings without the block are used
  only when the caller allowed that, and no block is reported only when the choice has none.
\<close>
theorem prepared_choice_executable:
  assumes "new_snapshot inventory entries = Inr s"
    and "prepare_choice d res style base_rate pan s policy = Inr p"
  shows "native_prepared entries d res style policy (pev_native p) \<and>
         (\<exists>index. selected_choice (common_projection d) res = Inr index \<and>
            compose_style (common_projection d) index style base_rate pan = Inr (pev_common p))"
proof -
  note wf = new_snapshot_wf [OF assms(1)]
  from assms(2) obtain index common where ok: "validate_engine_layered d = Inr ()"
    "selected_choice (common_projection d) res = Inr index"
    "compose_style (common_projection d) index style base_rate pan = Inr common"
    by (auto simp: prepare_choice_def and_then_Inr map_err_Inr)
  let ?patch = "Option.bind index (\<lambda>i. evc_native (el_choices d ! i))"
  show ?thesis
  proof (cases ?patch)
    case None
    with assms(2) ok have "p = \<lparr>pev_common = common, pev_native = NotRequested\<rparr>"
      by (simp add: prepare_choice_def)
    with None ok show ?thesis by (cases index) (simp_all add: native_prepared_def)
  next
    case (Some n)
    then obtain i where i: "index = Some i" "evc_native (el_choices d ! i) = Some n"
      by (cases index) simp_all
    let ?sel = "evc_selector (el_choices d ! i)"
    from assms(2) ok i have engine: "selector_engine_id ?sel = Some (pv_engine_id (vr_realized res))"
      by (auto simp: prepare_choice_def Let_def split: if_splits)
    from assms(2) ok i obtain e where e: "prepare_native n style (vr_realized res) s policy = Inr e"
      "p = \<lparr>pev_common = common, pev_native = e\<rparr>"
      by (auto simp: prepare_choice_def Let_def and_then_Inr split: if_splits)
    from selected_choice_bound ok(2) i(1) have "i < length (el_choices d)" by simp
    note checked = native_choice_checked [OF ok(1) this i(2)]
    have own: "selector_engine_id (Exact (vr_realized res)) = Some (np_engine_id n)"
      using checked(2) engine by simp
    from e(1) have "native_prepared entries d res style policy e"
    proof (cases rule: prepare_native_cases [case_names parameters common])
      case (parameters why c dims)
      from qualified_patch_valid [OF parameters(1) wf checked(1) own] parameters ok(2) i show ?thesis
        by (auto simp: native_prepared_def)
    next
      case (common why)
      with ok(2) i show ?thesis by (simp add: native_prepared_def)
    qed
    with ok e(2) show ?thesis by auto
  qed
qed


text \<open>
  What a native choice needs to be executed as it is saved: its engine can synthesize, the session
  holds a current catalogue for its voice with its schema, each of its operations is on a supported
  control, and the exact voice it names, if it names one, is offered and available.
\<close>

definition natively_applicable :: "catalogue_snapshot \<Rightarrow> voice_selector \<Rightarrow> native_patch \<Rightarrow> bool" where
  "natively_applicable s selector n \<longleftrightarrow>
     (\<exists>engine c. find (\<lambda>e. ed_id e = np_engine_id n) (cs_inventory s) = Some engine \<and>
        engine_can_synthesize engine \<and>
        snapshot_catalogue s (np_engine_id n) (selected_voice_id selector) = Some c \<and>
        ci_schema_id (ca_identity c) = np_schema_id n \<and>
        (\<forall>(i, op) \<in> set (np_parameters n). \<exists>p. find_parameter c i = Some p \<and>
           pa_status (pd_availability p) = PaSupported) \<and>
        (case selected_voice_id selector of
           None \<Rightarrow> True
         | Some v \<Rightarrow> \<exists>d. descriptor_voice engine v = Some d \<and> is_available (vd_availability d)))"

lemma qualified_operations:
  "qualify_operations c ops status = Inr status' \<Longrightarrow>
   status' = NsSupported \<longleftrightarrow> status = NsSupported \<and>
     (\<forall>(i, op) \<in> set ops. \<exists>p. find_parameter c i = Some p \<and>
        pa_status (pd_availability p) = PaSupported)"
proof (induction c ops status rule: qualify_operations.induct)
  case (2 c i op rest status)
  obtain p where fp: "find_parameter c i = Some p"
    using 2(2) by (cases "find_parameter c i") simp_all
  let ?fixed = "pd_scope p \<noteq> VoiceScope \<or>
    pa_status (pd_availability p) = PaSupported \<and> \<not> pd_adjustable p"
  let ?outside = "case op of SetTo v \<Rightarrow> \<not> accepts_value (pd_value_type p) v | ToDefault \<Rightarrow> False"
  let ?next = "case pa_status (pd_availability p) of PaSupported \<Rightarrow> status
    | PaNotChecked \<Rightarrow> if status = NsSupported then NsDeferred else status | _ \<Rightarrow> NsUnavailable"
  have ok: "\<not> ?fixed" using 2(2) fp by (cases ?fixed) simp_all
  have inside: "\<not> ?outside"
  proof
    assume ?outside
    with 2(2) fp ok show False by (simp only: qualify_operations.simps option.case if_False if_True) simp
  qed
  from 2(2) fp ok inside have "qualify_operations c rest ?next = Inr status'"
    by (simp only: qualify_operations.simps option.case if_False)
  from 2(1) [OF fp ok inside this] fp show ?case
    by (cases "pa_status (pd_availability p)"; cases status) auto
qed simp

lemma qualified_status:
  assumes q: "qualify s n selector = Inr (status, why, found)" and wf: "snapshot_wf entries s"
  shows "(status = NsSupported \<longleftrightarrow> natively_applicable s selector n) \<and>
    (why = None \<longleftrightarrow> status = NsSupported)"
proof (cases "find (\<lambda>e. ed_id e = np_engine_id n) (cs_inventory s)")
  case None
  with q show ?thesis by (auto simp: qualify_def natively_applicable_def)
next
  case (Some engine)
  let ?voice = "selected_voice_id selector"
  have unavailable: "map_of (cs_unavailable s) i \<noteq> Some NsSupported" for i
    using wf by (force simp: snapshot_wf_def dest: map_of_SomeD)
  show ?thesis
  proof (cases "engine_can_synthesize engine \<and>
      (\<exists>c. snapshot_catalogue s (np_engine_id n) ?voice = Some c \<and>
        ci_schema_id (ca_identity c) = np_schema_id n)")
    case False
    with q Some unavailable [of "np_engine_id n"] show ?thesis
      by (auto simp: qualify_def natively_applicable_def Let_def split: option.splits if_splits)
  next
    case True
    then obtain c where c: "engine_can_synthesize engine"
      "snapshot_catalogue s (np_engine_id n) ?voice = Some c"
      "ci_schema_id (ca_identity c) = np_schema_id n" by blast
    define gone where "gone \<longleftrightarrow> (case ?voice of None \<Rightarrow> False
      | Some v \<Rightarrow> (case descriptor_voice engine v of None \<Rightarrow> True
          | Some d \<Rightarrow> \<not> is_available (vd_availability d)))"
    from q Some c obtain st where
      st: "qualify_operations c (np_parameters n) NsSupported = Inr st"
        "status = (if gone then NsUnavailable else st)"
        "why = (if status \<noteq> NsSupported then Some ''Native block is not currently applicable'' else None)"
      by (auto simp: qualify_def Let_def and_then_Inr gone_def)
    have "gone \<longleftrightarrow> \<not> (case ?voice of None \<Rightarrow> True
        | Some v \<Rightarrow> \<exists>d. descriptor_voice engine v = Some d \<and> is_available (vd_availability d))"
      by (auto simp: gone_def split: option.split)
    with st qualified_operations [OF st(1)] Some c show ?thesis
      by (auto simp: natively_applicable_def)
  qed
qed

text \<open>The native choices of a registration, in order, each with the voice it belongs to.\<close>

definition requested_native :: "native_registered list \<Rightarrow> (rstr \<times> native_choice \<times> native_patch) list"
  where
  "requested_native rs =
     concat (map (\<lambda>r. case r of EngineLayered d \<Rightarrow> map (Pair (el_id d)) (native_choices d) | _ \<Rightarrow> []) rs)"

lemma requested_statuses:
  "list_all2 (\<lambda>r sts. definition_statuses s r = Inr sts) rs statuses \<Longrightarrow>
   list_all2 (\<lambda>(vid, cn) st. choice_status s vid cn = Inr st) (requested_native rs) (concat statuses)"
proof (induction rule: list_all2_induct)
  case (Cons r rs sts statuses)
  have "list_all2 (\<lambda>(vid, cn) st. choice_status s vid cn = Inr st) (requested_native [r]) sts"
    using Cons(1)
    by (cases r) (simp_all add: requested_native_def try_collect_Inr list.rel_map)
  with Cons(3) show ?case by (simp add: requested_native_def list_all2_appendI)
qed (simp add: requested_native_def)

lemma requested_member:
  "(vid, c, n) \<in> set (requested_native rs) \<longleftrightarrow>
   (\<exists>d. EngineLayered d \<in> set rs \<and> vid = el_id d \<and> (c, n) \<in> set (native_choices d))"
  by (force simp: requested_native_def split: registered_voice_definition.splits)

lemma register_v3_Inr:
  assumes "register_v3 json_size reply_size request s r = Inr (ack, r')"
  obtains statuses reg where "lr_generation r \<le> rv_generation request" "rv_generation request \<noteq> 0"
    "validate_registration_v3 json_size request = Inr ()"
    "list_all2 (\<lambda>d sts. definition_statuses s d = Inr sts) (rv_definitions request) statuses"
    "replace_definitions (rv_generation request) (rv_definitions request) (rv_policy request)
       (cs_inventory s) r = Inr (reg, r')"
    "ack = \<lparr>nr_generation = lr_generation r', nr_definition_count = length (lr_registered r'),
            nr_unresolved = List.map_filter unresolved_voice_id (lg_bindings reg),
            nr_native_status = concat statuses\<rparr>"
    "\<exists>n \<le> max_control_payload_bytes. reply_size ack = Some n"
proof -
  have fresh: "\<not> (rv_generation request \<noteq> 0 \<and> rv_generation request < lr_generation r)"
    using assms by (cases "rv_generation request \<noteq> 0 \<and> rv_generation request < lr_generation r")
      (simp_all add: register_v3_def)
  note body = assms [unfolded register_v3_def if_not_P [OF fresh]]
  from body obtain statuses reg c where v: "validate_registration_v3 json_size request = Inr ()"
    and st: "try_collect (definition_statuses s) (rv_definitions request) = Inr statuses"
    and rep: "replace_definitions (rv_generation request) (rv_definitions request) (rv_policy request)
       (cs_inventory s) r = Inr (reg, c)"
    by (auto simp: and_then_Inr map_err_Inr)
  from body v st rep have ack: "c = r'"
    "ack = \<lparr>nr_generation = lr_generation r', nr_definition_count = length (lr_registered r'),
            nr_unresolved = List.map_filter unresolved_voice_id (lg_bindings reg),
            nr_native_status = concat statuses\<rparr>"
    "\<exists>n \<le> max_control_payload_bytes. reply_size ack = Some n"
    by (auto simp: Let_def split: option.splits if_splits)
  from v have "rv_generation request \<noteq> 0"
    by (auto simp: validate_registration_v3_def split: if_splits)
  with fresh v st rep ack show thesis by (intro that [of statuses reg]) (auto simp: try_collect_Inr)
qed

lemma admitted_definition:
  assumes "validate_registration_v3 json_size request = Inr ()"
    and "EngineLayered d \<in> set (rv_definitions request)"
  shows "validate_engine_layered d = Inr ()"
proof -
  from assms(1) obtain projection where
    "list_all2 (\<lambda>r p. project_registered r = Inr p) (rv_definitions request) projection"
    by (auto simp: validate_registration_v3_def and_then_Inr try_collect_Inr split: if_splits)
  with assms(2) obtain p where "project_registered (EngineLayered d) = Inr p"
    by (auto simp: list_all2_conv_all_nth in_set_conv_nth)
  then show ?thesis by (simp add: and_then_Inr)
qed

lemma supported_patch:
  assumes "validate_engine_layered d = Inr ()" "(c, n) \<in> set (native_choices d)"
    and "qualify s n (evc_selector c) = Inr (NsSupported, why, found)" and wf: "snapshot_wf entries s"
  shows "\<exists>cat. KnownReady cat \<in> set entries \<and> validate_patch_for cat (evc_selector c) n = Inr ()"
proof -
  from assms(2) obtain i where i: "i < length (el_choices d)" "el_choices d ! i = c" "evc_native c = Some n"
    by (auto simp: native_choices_def map_filter_def in_set_conv_nth)
  note checked = native_choice_checked [OF assms(1) i(1), unfolded i(2), OF i(3)]
  from qualified_patch_valid [OF assms(3) wf checked] show ?thesis by blast
qed

text \<open>
  What the acknowledgement says of one native choice: it names it, it calls it supported exactly when
  it can be executed as it is saved, with a patch that is valid for a catalogue the session holds,
  and otherwise it gives a reason.
\<close>

definition status_truthful ::
    "parameter_knowledge list \<Rightarrow> catalogue_snapshot \<Rightarrow> rstr \<times> native_choice \<times> native_patch \<Rightarrow>
     native_choice_status \<Rightarrow> bool" where
  "status_truthful entries s = (\<lambda>(vid, c, n) st.
     ncs_logical_voice_id st = vid \<and> ncs_choice_id st = evc_id c \<and>
     (ncs_status st = NsSupported \<longleftrightarrow> natively_applicable s (evc_selector c) n) \<and>
     (if ncs_status st = NsSupported
      then ncs_reason st = None \<and>
           (\<exists>cat. KnownReady cat \<in> set entries \<and> validate_patch_for cat (evc_selector c) n = Inr ())
      else ncs_reason st \<noteq> None))"

text \<open>
  C30: A registration of voices with native settings that is accepted replaces the registry with a
  well-formed one of the requested generation, and its acknowledgement reports one truthful status
  per native choice, in the order of the request: supported exactly when the choice can be executed
  as it is saved, its patch then being valid against a catalogue the session holds.
\<close>
theorem native_registration_sound:
  assumes "new_snapshot inventory entries = Inr s" and "voices_wf perms r"
    and "register_v3 json_size reply_size request s r = Inr (ack, r')"
  shows "voices_wf perms r' \<and> lr_generation r' = rv_generation request \<and>
    lr_generation r \<le> lr_generation r' \<and> nr_generation ack = rv_generation request \<and>
    list_all2 (status_truthful entries s) (requested_native (rv_definitions request))
      (nr_native_status ack)"
  using assms(3)
proof (rule register_v3_Inr)
  fix statuses reg
  assume le: "lr_generation r \<le> rv_generation request" "rv_generation request \<noteq> 0"
    and v: "validate_registration_v3 json_size request = Inr ()"
    and st: "list_all2 (\<lambda>d sts. definition_statuses s d = Inr sts) (rv_definitions request) statuses"
    and rep: "replace_definitions (rv_generation request) (rv_definitions request) (rv_policy request)
       (cs_inventory s) r = Inr (reg, r')"
    and ack: "ack = \<lparr>nr_generation = lr_generation r', nr_definition_count = length (lr_registered r'),
            nr_unresolved = List.map_filter unresolved_voice_id (lg_bindings reg),
            nr_native_status = concat statuses\<rparr>"
  have gen: "lr_generation r' = rv_generation request"
    using rep by (rule replace_definitions_Inr)
      (auto simp: published_def dest!: stored_registry split: if_split_asm)
  note wf = new_snapshot_wf [OF assms(1)]
  have truthful: "status_truthful entries s (vid, c, n) status"
    if m: "(vid, c, n) \<in> set (requested_native (rv_definitions request))"
      and "choice_status s vid (c, n) = Inr status" for vid c n status
  proof -
    from that(2) obtain found where q:
      "qualify s n (evc_selector c) = Inr (ncs_status status, ncs_reason status, found)"
      "ncs_logical_voice_id status = vid" "ncs_choice_id status = evc_id c"
      by (auto simp: choice_status_def and_then_Inr map_err_Inr)
    from m obtain d where d: "EngineLayered d \<in> set (rv_definitions request)"
      "(c, n) \<in> set (native_choices d)" by (auto simp: requested_member)
    show ?thesis
      using q qualified_status [OF q(1) wf] supported_patch [OF admitted_definition [OF v d(1)] d(2) _ wf]
      by (auto simp: status_truthful_def)
  qed
  have "list_all2 (status_truthful entries s) (requested_native (rv_definitions request)) (concat statuses)"
    by (rule list.rel_mono_strong [OF requested_statuses [OF st]]) (auto intro: truthful)
  then show ?thesis
    using replace_definitions_wf [OF assms(2) rep] by (simp add: gen le ack)
qed


section \<open>The theorems at a concrete voice\<close>

definition sample_engine :: engine_descriptor where
  "sample_engine =
     (unavailable_engine (lit ''e'') [])
       \<lparr>ed_availability := Available, ed_health := Healthy,
        ed_voices :=
          [\<lparr>vd_id = PhysicalVoiceId (lit ''e'') (lit ''v''), vd_display_name = lit ''Voice'',
            vd_language = None, vd_gender = None, vd_quality = Compact,
            vd_availability = Available\<rparr>]\<rparr>"

definition sample_native_definition :: native_definition where
  "sample_native_definition =
     \<lparr>el_id = lit ''logical'', el_language = None,
      el_shared = \<lparr>ss_acss = no_acss, ss_rate_offset = None, ss_effects = no_effects\<rparr>,
      el_choices = [\<lparr>evc_id = lit ''choice'',
         evc_selector = Exact (PhysicalVoiceId (lit ''e'') (lit ''v'')),
         evc_adjustments = no_patch, evc_native = Some sample_native\<rparr>]\<rparr>"

definition sample_resolution :: voice_resolution where
  "sample_resolution =
     \<lparr>vr_logical_voice_id = lit ''logical'',
      vr_requested = Some (Exact (PhysicalVoiceId (lit ''e'') (lit ''v''))),
      vr_realized = PhysicalVoiceId (lit ''e'') (lit ''v''), vr_reason = Preferred,
      vr_failed_attempts = []\<rparr>"

definition sample_request :: voice_registration_v3 where
  "sample_request = \<lparr>rv_generation = 1, rv_definitions = [EngineLayered sample_native_definition],
     rv_policy = empty_policy\<rparr>"

definition sample_snapshot :: "native_choice_error + catalogue_snapshot" where
  "sample_snapshot = new_snapshot [sample_engine] [KnownReady sample_catalogue]"

definition sample_prepared :: "native_choice_error + prepared_engine_voice_style" where
  "sample_prepared = and_then sample_snapshot (\<lambda>s.
     prepare_choice sample_native_definition sample_resolution no_patch (F32_Fin 1) None s RequireNative)"

lemma sample_prepares:
  "case sample_prepared of
     Inr p \<Rightarrow> (case pev_native p of WithParameters vp \<Rightarrow> vpa_native vp = sample_native | _ \<Rightarrow> False)
   | Inl e \<Rightarrow> False"
  by code_simp

theorem prepared_choice_executable_witness:
  "\<exists>c. KnownReady c \<in> {KnownReady sample_catalogue} \<and>
     validate_patch_for c (Exact (PhysicalVoiceId (lit ''e'') (lit ''v''))) sample_native = Inr ()"
proof -
  from sample_prepares obtain s p vp where
    s: "new_snapshot [sample_engine] [KnownReady sample_catalogue] = Inr s"
    and p: "prepare_choice sample_native_definition sample_resolution no_patch (F32_Fin 1) None s
      RequireNative = Inr p" "pev_native p = WithParameters vp" "vpa_native vp = sample_native"
    unfolding sample_prepared_def sample_snapshot_def
    by (cases "new_snapshot [sample_engine] [KnownReady sample_catalogue]")
      (auto split: sum.splits native_choice_execution.splits)
  from prepared_choice_executable [OF s p(1)] p(2,3) show ?thesis
    by (auto simp: native_prepared_def sample_resolution_def)
qed

definition sample_ack :: "native_choice_error + native_voice_registration \<times> native_patch logical_voice_registry" where
  "sample_ack = and_then sample_snapshot (\<lambda>s.
     register_v3 (\<lambda>_. Some 100) (\<lambda>_. Some 100) sample_request s
       (with_engine_permissions default_permissions))"

lemma sample_projects:
  "is_ok (and_then (try_collect project_registered (rv_definitions sample_request))
     (\<lambda>p. map_err NcCommon (map_err Registry (validate_registration p empty_policy))))"
  by code_simp

lemma sample_replaces:
  "is_ok (and_then sample_snapshot (\<lambda>s.
     and_then (try_collect (definition_statuses s) (rv_definitions sample_request)) (\<lambda>sts.
       map_err NcCommon
         (replace_definitions 1 (rv_definitions sample_request) empty_policy (cs_inventory s)
            (with_engine_permissions default_permissions :: native_patch logical_voice_registry)))))"
  by code_simp

lemma sample_registers: "is_ok sample_ack"
proof -
  have fixed: "rv_generation sample_request = 1" "rv_policy sample_request = empty_policy"
    "length (rv_definitions sample_request) = 1" by (simp_all add: sample_request_def)
  from sample_projects have valid: "validate_registration_v3 (\<lambda>_. Some 100) sample_request = Inr ()"
    by (auto simp: is_ok_iff and_then_Inr map_err_Inr validate_registration_v3_def fixed
        max_control_payload_bytes_def max_logical_voices_def)
  from sample_replaces obtain s sts reg r where s: "sample_snapshot = Inr s"
    "try_collect (definition_statuses s) (rv_definitions sample_request) = Inr sts"
    "replace_definitions 1 (rv_definitions sample_request) empty_policy (cs_inventory s)
       (with_engine_permissions default_permissions :: native_patch logical_voice_registry) = Inr (reg, r)"
    unfolding is_ok_iff and_then_Inr map_err_Inr by fast
  have fresh:
    "lr_generation (with_engine_permissions default_permissions :: native_patch logical_voice_registry) = 0"
    by (simp add: with_engine_permissions_def)
  show ?thesis
    unfolding sample_ack_def register_v3_def s and_then.simps fixed fresh valid map_err.simps Let_def
    by (simp add: max_control_payload_bytes_def)
qed

theorem native_registration_sound_witness:
  "\<exists>ack r' st. sample_ack = Inr (ack, r') \<and> nr_generation ack = 1 \<and>
     nr_native_status ack = [st] \<and> ncs_choice_id st = lit ''choice'' \<and> ncs_status st = NsSupported"
proof -
  from sample_registers obtain s ack r' where
    s: "new_snapshot [sample_engine] [KnownReady sample_catalogue] = Inr s"
    and a: "register_v3 (\<lambda>_. Some 100) (\<lambda>_. Some 100) sample_request s
       (with_engine_permissions default_permissions) = Inr (ack, r')" "sample_ack = Inr (ack, r')"
    unfolding sample_ack_def sample_snapshot_def
    by (cases "new_snapshot [sample_engine] [KnownReady sample_catalogue]")
      (auto simp: is_ok_iff)
  have one: "map (\<lambda>(vid, c, n). evc_id c) (requested_native (rv_definitions sample_request)) =
      [lit ''choice'']" by code_simp
  then obtain vid c n where r: "requested_native (rv_definitions sample_request) = [(vid, c, n)]"
    "evc_id c = lit ''choice''" by auto
  have "list_all (\<lambda>(vid, c, n). case new_snapshot [sample_engine] [KnownReady sample_catalogue] of
      Inl e \<Rightarrow> False
    | Inr s \<Rightarrow> (case qualify s n (evc_selector c) of Inr (NsSupported, why, cat) \<Rightarrow> True | _ \<Rightarrow> False))
    (requested_native (rv_definitions sample_request))"
    by code_simp
  then have "case qualify s n (evc_selector c) of Inr (NsSupported, why, cat) \<Rightarrow> True | _ \<Rightarrow> False"
    unfolding r s by simp
  then obtain why cat where "qualify s n (evc_selector c) = Inr (NsSupported, why, cat)"
    by (auto split: sum.splits native_support.split_asm) (metis native_support.exhaust)
  with qualified_status [OF this new_snapshot_wf [OF s]]
  have applicable: "natively_applicable s (evc_selector c) n" by simp
  have "rv_generation sample_request = 1" by (simp add: sample_request_def)
  with native_registration_sound [OF s initial_voices_wf a(1)] a(2) r applicable show ?thesis
    by (auto simp: list_all2_Cons1 status_truthful_def)
qed

end
