(* ===== verification/Parameter_Catalogues.thy ===== *)
theory Parameter_Catalogues
  imports Native_Choices
begin

text \<open>
  Catalogue queries and their pages (\<open>omnivox-tts/src/helper_protocol/parameters\<close>,
  \<open>engine_parameters.rs\<close>): the bounds a query and a page are checked against, and the assembly that
  joins the pages one engine sends for one voice into a complete parameter catalogue.

  What serde writes is a parameter: the number of bytes of a value's JSON, or the error of writing it.
\<close>

section \<open>Messages\<close>

definition max_page_parameters :: nat where "max_page_parameters = 64"
definition parameter_protocol_version :: nat where "parameter_protocol_version = 6"

datatype helper_error =
  HpJson rstr | HpUnsupportedVersion nat | HpInvalidRequestId | HpInvalidField string

fun helper_error_text :: "helper_error \<Rightarrow> rstr" where
  "helper_error_text (HpJson e) = lit ''helper protocol JSON is invalid: '' @ e"
| "helper_error_text (HpUnsupportedVersion v) =
     lit ''unsupported helper protocol version '' @ show_nat v"
| "helper_error_text HpInvalidRequestId = lit ''helper request ID must be positive''"
| "helper_error_text (HpInvalidField f) = lit ''invalid helper protocol field: '' @ lit f"

record catalogue_query =
  cq_engine_id :: rstr
  cq_voice_id :: "rstr option"
  cq_cursor :: "rstr option"
  cq_expected_revision :: "rstr option"

datatype catalogue_unavailable =
  CuEngineUnavailable | CuVoiceUnavailable | CuNotDescribed | CuUnsupportedHelper

record catalogue_page =
  pg_identity :: catalogue_identity
  pg_voice_id :: "rstr option"
  pg_parameters :: "parameter_descriptor list"
  pg_mappings :: "common_mapping list"
  pg_next_cursor :: "rstr option"

datatype catalogue_result =
  CatalogueReady catalogue_page
| CatalogueBusy nat
| CatalogueUnavailable catalogue_unavailable rstr

text \<open>The lengths of the JSON of a result, of the reply that carries it and of a whole catalogue.\<close>

record catalogue_json =
  cj_result :: "catalogue_result \<Rightarrow> rstr + nat"
  cj_reply :: "nat \<Rightarrow> rstr \<Rightarrow> catalogue_result \<Rightarrow> rstr + nat"
  cj_catalogue :: "parameter_catalogue \<Rightarrow> rstr + nat"

section \<open>Validation\<close>

definition hp_require :: "bool \<Rightarrow> string \<Rightarrow> helper_error + unit" where
  "hp_require condition field = (if condition then Inr () else Inl (HpInvalidField field))"

lemma hp_require_Inr [res_simps]: "hp_require c m = Inr u \<longleftrightarrow> c"
  by (simp add: hp_require_def)

definition absent_or :: "('a \<Rightarrow> bool) \<Rightarrow> 'a option \<Rightarrow> bool" where
  "absent_or P x = (case x of None \<Rightarrow> True | Some y \<Rightarrow> P y)"

lemma absent_or_simps [simp]: "absent_or P None" "absent_or P (Some x) \<longleftrightarrow> P x"
  by (simp_all add: absent_or_def)

definition physical_voice_text :: "rstr \<Rightarrow> bool" where
  "physical_voice_text v = visible_text v max_physical_voice_id_bytes"

definition cursor_token :: "rstr \<Rightarrow> bool" where
  "cursor_token s \<longleftrightarrow> s \<noteq> [] \<and> str_len s \<le> 128 \<and> list_all (\<lambda>b. 33 \<le> b \<and> b \<le> 126) s"

definition revision_text :: "rstr \<Rightarrow> bool" where
  "revision_text s \<longleftrightarrow>
     str_len s = 64 \<and> list_all (\<lambda>b. is_ascii_digit b \<or> 97 \<le> b \<and> b \<le> 102) s"

definition distinct_identifiers :: "rstr list \<Rightarrow> nat \<Rightarrow> bool" where
  "distinct_identifiers values n \<longleftrightarrow>
     length values \<le> n \<and> list_all param_identifier values \<and> distinct values"

definition bounded_json :: "rstr + nat \<Rightarrow> helper_error + unit" where
  "bounded_json written =
     and_then (map_err HpJson written) (\<lambda>n.
       hp_require (n \<le> max_control_payload_bytes) ''parameter_payload_bytes'')"

definition validate_header :: "nat \<Rightarrow> nat \<Rightarrow> helper_error + unit" where
  "validate_header version request_id =
     (if version \<noteq> parameter_protocol_version then Inl (HpUnsupportedVersion version)
      else if request_id = 0 then Inl HpInvalidRequestId else Inr ())"

definition validate_query :: "catalogue_query \<Rightarrow> helper_error + unit" where
  "validate_query q =
     and_then (hp_require (param_identifier (cq_engine_id q)) ''engine_id'') (\<lambda>_.
     and_then (hp_require (absent_or physical_voice_text (cq_voice_id q)) ''voice_id'') (\<lambda>_.
     and_then (hp_require (absent_or cursor_token (cq_cursor q)) ''cursor'') (\<lambda>_.
     hp_require
       (absent_or revision_text (cq_expected_revision q) \<and>
        (cq_cursor q = None \<or> cq_expected_revision q \<noteq> None))
       ''expected_catalogue_revision'')))"

fun validate_page_parameters ::
    "rstr option \<Rightarrow> rstr set \<Rightarrow> parameter_descriptor list \<Rightarrow> helper_error + unit" where
  "validate_page_parameters voice seen [] = Inr ()"
| "validate_page_parameters voice seen (p # ps) =
     and_then (map_err (\<lambda>_. HpInvalidField ''parameter_descriptor'') (validate_parameter p)) (\<lambda>_.
     and_then (hp_require (pd_id p \<notin> seen) ''duplicate_parameter'') (\<lambda>_.
     and_then
       (hp_require (voice \<noteq> None \<or> df_source (pd_default p) \<noteq> RuntimeReadback) ''voice_default'')
       (\<lambda>_. validate_page_parameters voice (insert (pd_id p) seen) ps)))"

definition validate_page_mapping :: "common_mapping \<Rightarrow> helper_error + unit" where
  "validate_page_mapping m =
     and_then
       (hp_require
          (cm_common_inputs m \<noteq> [] \<and> length (cm_common_inputs m) \<le> 14 \<and>
           distinct (cm_common_inputs m)) ''common_inputs'')
       (\<lambda>_. hp_require
          (cm_native_outputs m \<noteq> [] \<and> distinct_identifiers (cm_native_outputs m) max_parameters)
          ''native_outputs'')"

definition validate_page :: "catalogue_page \<Rightarrow> helper_error + unit" where
  "validate_page p =
     and_then (map_err (\<lambda>_. HpInvalidField ''identity'') (validate_identity (pg_identity p))) (\<lambda>_.
     and_then (hp_require (absent_or physical_voice_text (pg_voice_id p)) ''voice_id'') (\<lambda>_.
     and_then
       (hp_require
          (length (pg_parameters p) \<le> max_page_parameters \<and>
           (pg_next_cursor p = None \<or> pg_parameters p \<noteq> [])) ''parameters'') (\<lambda>_.
     and_then (validate_page_parameters (pg_voice_id p) {} (pg_parameters p)) (\<lambda>_.
     and_then (hp_require (length (pg_mappings p) \<le> max_parameters) ''mappings'') (\<lambda>_.
     and_then (check_each validate_page_mapping (pg_mappings p)) (\<lambda>_.
     hp_require (absent_or cursor_token (pg_next_cursor p)) ''next_cursor''))))))"

definition validate_catalogue_result :: "catalogue_json \<Rightarrow> catalogue_result \<Rightarrow> helper_error + unit" where
  "validate_catalogue_result js r =
     and_then
       (case r of
          CatalogueReady p \<Rightarrow> validate_page p
        | CatalogueBusy ms \<Rightarrow> hp_require (1 \<le> ms \<and> ms \<le> 5000) ''retry_after_ms''
        | CatalogueUnavailable why message \<Rightarrow> hp_require (visible_text message 1024) ''message'')
       (\<lambda>_. bounded_json (cj_result js r))"

text \<open>
  A reply against the query it answers (\<open>Response::validate_for\<close> for a catalogue query); request and
  reply carry version 6 and the identifier they are given.
\<close>

definition validate_reply_for ::
    "catalogue_json \<Rightarrow> nat \<Rightarrow> catalogue_query \<Rightarrow> rstr \<Rightarrow> catalogue_result \<Rightarrow> rstr \<Rightarrow>
     helper_error + unit" where
  "validate_reply_for js request_id q reported r engine_id =
     and_then (validate_header parameter_protocol_version request_id) (\<lambda>_.
     and_then (validate_query q) (\<lambda>_.
     and_then (hp_require (param_identifier reported) ''engine_id'') (\<lambda>_.
     and_then (validate_catalogue_result js r) (\<lambda>_.
     and_then (bounded_json (cj_reply js request_id reported r)) (\<lambda>_.
     and_then (hp_require (param_identifier engine_id) ''engine_id'') (\<lambda>_.
     and_then (hp_require (reported = engine_id \<and> cq_engine_id q = engine_id) ''engine_id'') (\<lambda>_.
     case r of
       CatalogueReady p \<Rightarrow>
         and_then (hp_require (pg_voice_id p = cq_voice_id q) ''voice_id'') (\<lambda>_.
         hp_require
           (absent_or (\<lambda>v. v = ci_catalogue_revision (pg_identity p)) (cq_expected_revision q))
           ''catalogue_revision'')
     | _ \<Rightarrow> Inr ())))))))"

section \<open>Assembly\<close>

record catalogue_assembly =
  ay_query :: catalogue_query
  ay_identity :: "catalogue_identity option"
  ay_mappings :: "common_mapping list"
  ay_parameters :: "parameter_descriptor list"
  ay_cursors :: "rstr set"
  ay_complete :: bool

definition new_assembly :: "catalogue_query \<Rightarrow> helper_error + catalogue_assembly" where
  "new_assembly q =
     and_then (validate_query q) (\<lambda>_.
     and_then (hp_require (cq_cursor q = None) ''initial_cursor'') (\<lambda>_.
     Inr \<lparr>ay_query = q, ay_identity = None, ay_mappings = [], ay_parameters = [], ay_cursors = {},
          ay_complete = False\<rparr>))"

definition next_query :: "catalogue_assembly \<Rightarrow> catalogue_query option" where
  "next_query a = (if ay_complete a then None else Some (ay_query a))"

definition page_catalogue ::
    "catalogue_query \<Rightarrow> catalogue_page \<Rightarrow> parameter_descriptor list \<Rightarrow> parameter_catalogue" where
  "page_catalogue q p ps =
     \<lparr>ca_engine_id = cq_engine_id q, ca_identity = pg_identity p, ca_voice_id = pg_voice_id p,
      ca_parameters = ps, ca_mappings = pg_mappings p\<rparr>"

definition absorb_page :: "catalogue_page \<Rightarrow> catalogue_assembly \<Rightarrow> catalogue_assembly" where
  "absorb_page p a =
     a\<lparr>ay_parameters := ay_parameters a @ pg_parameters p, ay_identity := Some (pg_identity p),
       ay_mappings := pg_mappings p,
       ay_query := (ay_query a)\<lparr>cq_expected_revision := Some (ci_catalogue_revision (pg_identity p)),
                                cq_cursor := pg_next_cursor p\<rparr>,
       ay_cursors := (case pg_next_cursor p of None \<Rightarrow> ay_cursors a | Some c \<Rightarrow> insert c (ay_cursors a)),
       ay_complete := (pg_next_cursor p = None)\<rparr>"

text \<open>A refused page leaves the assembly as it was.\<close>

definition unique_parameters :: "parameter_descriptor list \<Rightarrow> bool" where
  "unique_parameters ps \<longleftrightarrow> card (set (map pd_id ps)) = length ps"

definition push_page ::
    "catalogue_json \<Rightarrow> catalogue_query \<Rightarrow> catalogue_result \<Rightarrow> catalogue_assembly \<Rightarrow>
     helper_error + catalogue_assembly" where
  "push_page js q result a =
     and_then (hp_require (\<not> ay_complete a \<and> q = ay_query a) ''page_query'') (\<lambda>_.
     and_then (validate_catalogue_result js result) (\<lambda>_.
     case result of
       CatalogueReady p \<Rightarrow>
         let accumulated = ay_parameters a @ pg_parameters p
         in and_then
              (hp_require
                 (pg_voice_id p = cq_voice_id q \<and>
                  absent_or (\<lambda>r. r = ci_catalogue_revision (pg_identity p)) (cq_expected_revision q))
                 ''page_identity'') (\<lambda>_.
            and_then
              (hp_require
                 (absent_or (\<lambda>i. i = pg_identity p \<and> ay_mappings a = pg_mappings p) (ay_identity a))
                 ''page_identity'') (\<lambda>_.
            and_then
              (hp_require (length (ay_parameters a) + length (pg_parameters p) \<le> max_parameters)
                 ''catalogue_parameters'') (\<lambda>_.
            and_then
              (hp_require (absent_or (\<lambda>c. c \<notin> ay_cursors a) (pg_next_cursor p)) ''repeated_cursor'')
              (\<lambda>_.
            and_then
              (hp_require (unique_parameters accumulated) ''duplicate_parameter'') (\<lambda>_.
            and_then
              (if pg_next_cursor p = None
               then map_err (\<lambda>_. HpInvalidField ''complete_catalogue'')
                      (validate_catalogue (page_catalogue q p accumulated))
               else Inr ()) (\<lambda>_.
            Inr (absorb_page p a)))))))
     | _ \<Rightarrow> Inl (HpInvalidField ''page_status'')))"

definition finish_assembly :: "catalogue_assembly \<Rightarrow> helper_error + parameter_catalogue" where
  "finish_assembly a =
     and_then (hp_require (ay_complete a) ''incomplete_catalogue'') (\<lambda>_.
     case ay_identity a of
       None \<Rightarrow> Inl (HpInvalidField ''identity'')
     | Some i \<Rightarrow>
         Inr \<lparr>ca_engine_id = cq_engine_id (ay_query a), ca_identity = i,
              ca_voice_id = cq_voice_id (ay_query a), ca_parameters = ay_parameters a,
              ca_mappings = ay_mappings a\<rparr>)"

text \<open>The sequence of queries a client sends, each for the page the assembly asks for next.\<close>

fun push_pages ::
    "catalogue_json \<Rightarrow> catalogue_page list \<Rightarrow> catalogue_assembly \<Rightarrow>
     helper_error + catalogue_assembly" where
  "push_pages js [] a = Inr a"
| "push_pages js (p # ps) a =
     and_then (push_page js (ay_query a) (CatalogueReady p) a) (push_pages js ps)"

definition assemble_catalogue ::
    "catalogue_json \<Rightarrow> catalogue_query \<Rightarrow> catalogue_page list \<Rightarrow> helper_error + parameter_catalogue"
    where
  "assemble_catalogue js q pages =
     and_then (new_assembly q) (\<lambda>a.
     and_then (push_pages js pages a) finish_assembly)"

section \<open>What an assembly holds\<close>

text \<open>After the pages \<open>ps\<close>; the cursor of a page that is not the last was never seen before.\<close>

definition assembly_ok :: "catalogue_query \<Rightarrow> catalogue_page list \<Rightarrow> catalogue_assembly \<Rightarrow> bool" where
  "assembly_ok q ps a \<longleftrightarrow>
     ay_parameters a = concat (map pg_parameters ps) \<and>
     length (ay_parameters a) \<le> max_parameters \<and> distinct (map pd_id (ay_parameters a)) \<and>
     cq_engine_id (ay_query a) = cq_engine_id q \<and> cq_voice_id (ay_query a) = cq_voice_id q \<and>
     (\<forall>p \<in> set ps. ay_identity a = Some (pg_identity p) \<and> ay_mappings a = pg_mappings p \<and>
        pg_voice_id p = cq_voice_id q \<and>
        absent_or (\<lambda>r. r = ci_catalogue_revision (pg_identity p)) (cq_expected_revision q)) \<and>
     (ps = [] \<longrightarrow> ay_identity a = None \<and> ay_query a = q \<and> \<not> ay_complete a) \<and>
     (ps \<noteq> [] \<longrightarrow> cq_expected_revision (ay_query a) =
        map_option ci_catalogue_revision (ay_identity a)) \<and>
     (ay_complete a \<longrightarrow> (\<exists>c. finish_assembly a = Inr c \<and> validate_catalogue c = Inr ())) \<and>
     (\<not> ay_complete a \<longrightarrow> length ps \<le> length (ay_parameters a)) \<and>
     length ps \<le> Suc (length (ay_parameters a))"

lemma unique_parameters_iff: "unique_parameters ps \<longleftrightarrow> distinct (map pd_id ps)"
  unfolding unique_parameters_def by (metis card_distinct distinct_card length_map)

lemma valid_page_fills:
  "validate_page p = Inr () \<Longrightarrow> pg_next_cursor p \<noteq> None \<Longrightarrow> 0 < length (pg_parameters p)"
  by (auto simp: validate_page_def res_simps)

lemma new_assembly_ok: "new_assembly q = Inr a \<Longrightarrow> assembly_ok q [] a"
  by (auto simp: new_assembly_def res_simps assembly_ok_def)

text \<open>What an accepted page satisfies.\<close>

lemma push_page_Inr:
  "push_page js q result a = Inr a' \<longleftrightarrow>
   (\<exists>p. result = CatalogueReady p \<and> \<not> ay_complete a \<and> q = ay_query a \<and>
     validate_catalogue_result js result = Inr () \<and>
     pg_voice_id p = cq_voice_id q \<and>
     absent_or (\<lambda>r. r = ci_catalogue_revision (pg_identity p)) (cq_expected_revision q) \<and>
     absent_or (\<lambda>i. i = pg_identity p \<and> ay_mappings a = pg_mappings p) (ay_identity a) \<and>
     length (ay_parameters a) + length (pg_parameters p) \<le> max_parameters \<and>
     absent_or (\<lambda>c. c \<notin> ay_cursors a) (pg_next_cursor p) \<and>
     distinct (map pd_id (ay_parameters a @ pg_parameters p)) \<and>
     (pg_next_cursor p = None \<longrightarrow>
        validate_catalogue (page_catalogue q p (ay_parameters a @ pg_parameters p)) = Inr ()) \<and>
     a' = absorb_page p a)"
  unfolding push_page_def
  by (cases result) (auto simp: res_simps unique_parameters_iff Let_def map_err_Inr
        simp del: map_append split: if_splits)

lemma push_page_ok:
  assumes ok: "assembly_ok q ps a" and push: "push_page js (ay_query a) (CatalogueReady p) a = Inr a'"
  shows "assembly_ok q (ps @ [p]) a'"
proof -
  from push have p: "\<not> ay_complete a" "validate_catalogue_result js (CatalogueReady p) = Inr ()"
    "pg_voice_id p = cq_voice_id (ay_query a)"
    "absent_or (\<lambda>r. r = ci_catalogue_revision (pg_identity p)) (cq_expected_revision (ay_query a))"
    "absent_or (\<lambda>i. i = pg_identity p \<and> ay_mappings a = pg_mappings p) (ay_identity a)"
    "length (ay_parameters a) + length (pg_parameters p) \<le> max_parameters"
    "distinct (map pd_id (ay_parameters a @ pg_parameters p))"
    "pg_next_cursor p = None \<Longrightarrow> validate_catalogue
       (page_catalogue (ay_query a) p (ay_parameters a @ pg_parameters p)) = Inr ()"
    "a' = absorb_page p a"
    by (simp_all add: push_page_Inr del: map_append)
  have expected: "absent_or (\<lambda>r. r = ci_catalogue_revision (pg_identity p)) (cq_expected_revision q)"
    using ok p(4,5) by (cases "ps = []") (auto simp: assembly_ok_def neq_Nil_conv)
  have finish: "finish_assembly a' = Inr (page_catalogue (ay_query a) p (ay_parameters a @ pg_parameters p))"
    if "pg_next_cursor p = None"
    using that p(3,9) by (simp add: finish_assembly_def absorb_page_def hp_require_def page_catalogue_def)
  have grows: "0 < length (pg_parameters p)" if "pg_next_cursor p \<noteq> None"
    using valid_page_fills [OF _ that] p(2) by (auto simp: validate_catalogue_result_def res_simps)
  from ok have common: "ay_parameters a = concat (map pg_parameters ps)"
    "cq_engine_id (ay_query a) = cq_engine_id q" "cq_voice_id (ay_query a) = cq_voice_id q"
    "length ps \<le> length (ay_parameters a)"
    "\<forall>p' \<in> set ps. ay_identity a = Some (pg_identity p') \<and> ay_mappings a = pg_mappings p' \<and>
        pg_voice_id p' = cq_voice_id q \<and>
        absent_or (\<lambda>r. r = ci_catalogue_revision (pg_identity p')) (cq_expected_revision q)"
    using p(1) unfolding assembly_ok_def by blast+
  have pages: "\<forall>p' \<in> set (ps @ [p]). ay_identity a' = Some (pg_identity p') \<and>
      ay_mappings a' = pg_mappings p' \<and> pg_voice_id p' = cq_voice_id q \<and>
      absent_or (\<lambda>r. r = ci_catalogue_revision (pg_identity p')) (cq_expected_revision q)"
    using common(3,5) p(3,5,9) expected by (auto simp: absorb_page_def)
  show ?thesis
    unfolding assembly_ok_def
  proof (intro conjI)
    show "ay_complete a' \<longrightarrow> (\<exists>c. finish_assembly a' = Inr c \<and> validate_catalogue c = Inr ())"
      using finish p(8,9) by (auto simp: absorb_page_def)
    show "\<not> ay_complete a' \<longrightarrow> length (ps @ [p]) \<le> length (ay_parameters a')"
      using grows common(4) p(9) by (cases "pg_parameters p") (auto simp: absorb_page_def)
  qed (use common p pages in \<open>auto simp: absorb_page_def\<close>)
qed

lemma push_pages_ok:
  "assembly_ok q ps a \<Longrightarrow> push_pages js pages a = Inr a' \<Longrightarrow> assembly_ok q (ps @ pages) a'"
proof (induction pages arbitrary: ps a)
  case (Cons p pages)
  from Cons.prems(2) obtain b where b: "push_page js (ay_query a) (CatalogueReady p) a = Inr b"
    "push_pages js pages b = Inr a'" by (auto simp: res_simps)
  from Cons.IH [OF push_page_ok [OF Cons.prems(1) b(1)] b(2)] show ?case by simp
qed simp

section \<open>Properties\<close>

text \<open>
  C0: A catalogue that is assembled from the pages of an engine is the whole catalogue: it is valid,
  its parameters are those of the pages in order, every page belonged to the queried engine's voice,
  to one identity with one set of mappings, of the revision the query expected, and the sequence of
  queries that yields it ends after at most 513 pages, whatever cursors the engine hands out.
\<close>
theorem catalogue_pages_joined:
  assumes "assemble_catalogue js q pages = Inr c"
  shows "validate_catalogue c = Inr () \<and>
    ca_parameters c = concat (map pg_parameters pages) \<and>
    ca_engine_id c = cq_engine_id q \<and> ca_voice_id c = cq_voice_id q \<and>
    list_all (\<lambda>p. pg_identity p = ca_identity c \<and> pg_mappings p = ca_mappings c \<and>
      pg_voice_id p = ca_voice_id c) pages \<and>
    (case cq_expected_revision q of
       None \<Rightarrow> True | Some r \<Rightarrow> r = ci_catalogue_revision (ca_identity c)) \<and>
    0 < length pages \<and> length pages \<le> 513"
proof -
  from assms obtain a b where ab: "new_assembly q = Inr a" "push_pages js pages a = Inr b"
    "finish_assembly b = Inr c" by (auto simp: assemble_catalogue_def res_simps)
  from push_pages_ok [OF new_assembly_ok [OF ab(1)] ab(2)] have ok: "assembly_ok q pages b" by simp
  from ab(3) obtain i where i: "ay_complete b" "ay_identity b = Some i"
    "c = \<lparr>ca_engine_id = cq_engine_id (ay_query b), ca_identity = i,
          ca_voice_id = cq_voice_id (ay_query b), ca_parameters = ay_parameters b,
          ca_mappings = ay_mappings b\<rparr>"
    by (auto simp: finish_assembly_def res_simps split: option.splits)
  from ok i(1) obtain p where p: "p \<in> set pages" by (cases pages) (auto simp: assembly_ok_def)
  have "length pages \<le> 513" using ok by (simp add: assembly_ok_def max_parameters_def)
  moreover have "validate_catalogue c = Inr ()" using ok i(1) ab(3) by (simp add: assembly_ok_def)
  moreover have "absent_or (\<lambda>r. r = ci_catalogue_revision i) (cq_expected_revision q)"
    using ok i(2) p by (fastforce simp: assembly_ok_def)
  moreover have "list_all (\<lambda>p. pg_identity p = i \<and> pg_mappings p = ay_mappings b \<and>
      pg_voice_id p = cq_voice_id q) pages"
    using ok i(2) by (auto simp: assembly_ok_def list_all_iff)
  moreover have "ay_parameters b = concat (map pg_parameters pages)"
    "cq_engine_id (ay_query b) = cq_engine_id q" "cq_voice_id (ay_query b) = cq_voice_id q"
    using ok unfolding assembly_ok_def by blast+
  ultimately show ?thesis
    using i(3) length_pos_if_in_set [OF p]
    by (cases "cq_expected_revision q") (simp_all add: absent_or_def)
qed

definition page_json :: catalogue_json where
  "page_json = \<lparr>cj_result = \<lambda>_. Inr 100, cj_reply = \<lambda>_ _ _. Inr 100, cj_catalogue = \<lambda>_. Inr 100\<rparr>"

definition sample_query :: catalogue_query where
  "sample_query =
     \<lparr>cq_engine_id = ca_engine_id sample_catalogue, cq_voice_id = ca_voice_id sample_catalogue,
      cq_cursor = None, cq_expected_revision = None\<rparr>"

definition sample_page :: "parameter_descriptor list \<Rightarrow> rstr option \<Rightarrow> catalogue_page" where
  "sample_page ps next =
     \<lparr>pg_identity = ca_identity sample_catalogue, pg_voice_id = ca_voice_id sample_catalogue,
      pg_parameters = ps, pg_mappings = ca_mappings sample_catalogue, pg_next_cursor = next\<rparr>"

definition sample_pages :: "catalogue_page list" where
  "sample_pages =
     [sample_page (take 1 (ca_parameters sample_catalogue)) (Some (lit ''page:2'')),
      sample_page (drop 1 (ca_parameters sample_catalogue)) None]"

lemma sample_page_results:
  "list_all (\<lambda>p. validate_catalogue_result page_json (CatalogueReady p) = Inr ()) sample_pages"
proof -
  have "list_all (\<lambda>p. validate_page p = Inr ()) sample_pages" by code_simp
  then show ?thesis
    by (auto simp: list_all_iff validate_catalogue_result_def bounded_json_def page_json_def hp_require_def
        max_control_payload_bytes_def)
qed

lemma sample_assembled: "is_ok (assemble_catalogue page_json sample_query sample_pages)"
proof -
  have q: "validate_query sample_query = Inr ()" by code_simp
  have c: "validate_catalogue sample_catalogue = Inr ()" by code_simp
  let ?first = "sample_page (take 1 (ca_parameters sample_catalogue)) (Some (lit ''page:2''))"
  let ?rest = "sample_page (drop 1 (ca_parameters sample_catalogue)) None"
  obtain a where a: "new_assembly sample_query = Inr a" "ay_query a = sample_query"
    "ay_parameters a = []" "ay_identity a = None" "ay_cursors a = {}" "\<not> ay_complete a"
    using q by (simp add: new_assembly_def hp_require_def) (simp add: sample_query_def)
  have first: "push_page page_json (ay_query a) (CatalogueReady ?first) a = Inr (absorb_page ?first a)"
    using sample_page_results a
    by (simp add: push_page_Inr sample_pages_def sample_page_def sample_query_def max_parameters_def
        sample_catalogue_def)
  have "push_page page_json (ay_query (absorb_page ?first a)) (CatalogueReady ?rest)
      (absorb_page ?first a) = Inr (absorb_page ?rest (absorb_page ?first a))"
    using sample_page_results a c
    by (simp add: push_page_Inr sample_pages_def absorb_page_def sample_page_def sample_query_def
        max_parameters_def page_catalogue_def)
      (simp add: sample_catalogue_def sample_descriptor_def lit_inject)
  with a first show ?thesis
    by (simp add: assemble_catalogue_def sample_pages_def finish_assembly_def absorb_page_def
        hp_require_def is_ok_iff sample_page_def)
qed

theorem catalogue_pages_joined_witness:
  "\<exists>c. assemble_catalogue page_json sample_query sample_pages = Inr c \<and>
     validate_catalogue c = Inr () \<and> length (ca_parameters c) = length (ca_parameters sample_catalogue)"
proof -
  from sample_assembled obtain c where c: "assemble_catalogue page_json sample_query sample_pages = Inr c"
    by (auto simp: is_ok_iff)
  have "length (concat (map pg_parameters sample_pages)) = length (ca_parameters sample_catalogue)"
    by code_simp
  with catalogue_pages_joined [OF c] c show ?thesis by auto
qed

end
