(* ===== verification/Control_Protocol.thy ===== *)
theory Control_Protocol
  imports Parameter_Catalogues Routing_Policy Engine_Health
begin

text \<open>
  The control protocol (\<open>omnivox-tts/src/control.rs\<close>, \<open>control_native.rs\<close>): bounded decoding of a
  request, the checks against ambiguous JSON, and the dispatch that reads and replaces the two
  registries a client configures, the logical voices and the routing policy.

  Base64 and serde are the fields of a codec. JSON is the tree of its tokens with object members in
  order, so that duplicates are visible. The payloads of the requests and replies that workers
  serve (explanations) are a type variable, as are the two
  status documents this module only copies.
\<close>

section \<open>Messages\<close>

definition control_protocol_version :: nat where "control_protocol_version = 1"

definition max_control_encoded_bytes :: nat where
  "max_control_encoded_bytes = max_control_payload_bytes div 3 * 4 + 8"

definition deprecated_protocol_commands :: "rstr list" where
  "deprecated_protocol_commands =
     map lit [''set_lang'', ''set_next_lang'', ''set_previous_lang'', ''set_preferred_lang'',
              ''tts_set_notification_channel'']"

definition control_event_prefix :: rstr where "control_event_prefix = lit ''__OMNIVOX_CONTROL__''"

record voice_registration_v2 =
  r2_generation :: nat
  r2_definitions :: "native_registered list"
  r2_policy :: fallback_policy

text \<open>A complete unsaved voice with its own policy, and the audition of one exact selector.\<close>

record voice_preview_request =
  vq_text :: rstr
  vq_preferences :: "voice_selector list"
  vq_language :: "rstr option"
  vq_acss :: normalized_acss
  vq_rate_offset :: "int option"
  vq_effects :: post_synthesis_style
  vq_fallback_policy :: fallback_policy
  vq_disabled_engine_ids :: "rstr list"
  vq_expected_base_rate :: "f32 option"

record exact_preview_request =
  xq_text :: rstr
  xq_selector :: voice_selector
  xq_language :: "rstr option"
  xq_acss :: normalized_acss
  xq_rate_offset :: "int option"
  xq_effects :: post_synthesis_style

text \<open>
  A layered draft, one of its choices or all of them, and where it is heard
  (\<open>voice_preview_v2.rs\<close>, \<open>voice_preview_v3.rs\<close>). The two drafts differ in the kind of their choices.
\<close>

datatype preview_selection = AutomaticSelection | ChoiceSelection rstr

record 'c private_preview_voice =
  pp_language :: "rstr option"
  pp_shared :: shared_voice_style
  pp_choices :: "'c list"

record 'c layered_preview_request =
  yq_text :: rstr
  yq_voice :: "'c private_preview_voice"
  yq_style :: voice_style_patch
  yq_placement_pan :: "f32 option"
  yq_selection :: preview_selection
  yq_fallback_policy :: fallback_policy
  yq_disabled_engine_ids :: "rstr list"
  yq_expected_base_rate :: "f32 option"

type_synonym voice_preview_request_v2 = "voice_choice layered_preview_request"
type_synonym voice_preview_request_v3 = "native_choice layered_preview_request"

datatype preview_outcome = PreviewCompleted | PreviewCancelled | PreviewFailed

record audio_choice_identity =
  ai_choice_id :: "rstr option"
  ai_reason :: resolution_reason
  ai_realized :: physical_voice_id
  ai_degraded_acss :: "acss_dimension list"
  ai_degraded_effects :: "post_synthesis_dimension list"

text \<open>The terminal reply of a layered preview; \<open>'i\<close> is the identity of accepted audio.\<close>

record 'i layered_preview_response =
  yr_status :: preview_outcome
  yr_accepted_audio :: "('i \<times> bool) list"
  yr_accepted_truncated :: bool
  yr_last_started :: "'i option"
  yr_message :: "rstr option"
  yr_base_rate :: f32
  yr_disabled_engine_ids :: "rstr list"

datatype application_status = NativeApplied | NativeCommonOnly

record native_application =
  nap_status :: application_status
  nap_plan_id :: "rstr option"
  nap_identity :: "catalogue_identity option"
  nap_masked_parameters :: "rstr list"
  nap_reason :: "rstr option"

type_synonym voice_preview_response_v2 = "audio_choice_identity layered_preview_response"
type_synonym voice_preview_response_v3 =
  "(audio_choice_identity \<times> native_application option) layered_preview_response"

datatype 'l control_request =
  CapabilitiesRequest
| InventoryRequest
| VoiceLibraryStatusRequest
| EngineConfigurationStatusRequest
| GetPunctuationProfiles
| SetPunctuationProfile rstr
| GetEngineParameters catalogue_query
| ExplainVoiceParameters 'l
| RegisterLogicalVoices nat "logical_voice_definition list" fallback_policy
| RegisterLogicalVoicesV2 voice_registration_v2
| RegisterLogicalVoicesV3 voice_registration_v3
| SetRoutingPolicy nat routing_policy
| RequestEngineRecoveryProbe rstr
| PreviewVoice voice_preview_request
| PreviewVoiceV2 voice_preview_request_v2
| PreviewVoiceV3 voice_preview_request_v3
| Preview exact_preview_request

record 'l control_request_envelope =
  rq_protocol_version :: nat
  rq_request_id :: nat
  rq_request :: "'l control_request"

datatype control_error_code =
  MalformedRequest | UnsupportedVersion | UnsupportedOperation | CtPayloadTooLarge
| InvalidConfiguration | StaleGeneration | GenerationConflict

record punctuation_profile_descriptor =
  ppd_id :: rstr
  ppd_fallback :: punctuation_level
  ppd_sha256 :: rstr

datatype ('l, 's) control_response =
  PunctuationProfiles "punctuation_profile_descriptor list"
| PunctuationProfileSelected rstr
| VoiceLibraryStatusReply 's
| EngineConfigurationStatusReply 's
| Capabilities rstr "nat list" "rstr list" "rstr list"
| InventoryReply nat rstr routing_policy_registration "engine_runtime_status list"
    "engine_descriptor list"
| LogicalVoicesRegistered nat logical_voice_registration
| LogicalVoicesRegisteredV2 nat nat nat "rstr list"
| LogicalVoicesRegisteredV3 nat nat nat "rstr list" "native_choice_status list"
| RoutingPolicyApplied nat routing_policy_registration logical_voice_registration
| EngineRecoveryProbeRequested nat rstr
| PreviewVoiceCompletedV2 voice_preview_response_v2
| PreviewVoiceCompletedV3 voice_preview_response_v3
| EngineParameters rstr catalogue_result
| LiveReply 'l
| ControlError control_error_code rstr

record ('l, 's) control_response_envelope =
  rs_protocol_version :: nat
  rs_request_id :: "nat option"
  rs_response :: "('l, 's) control_response"

section \<open>Codec\<close>

datatype control_codec_error = CcPayloadTooLarge | CcInvalidBase64 rstr | CcInvalidJson rstr

fun codec_error_code :: "control_codec_error \<Rightarrow> control_error_code" where
  "codec_error_code CcPayloadTooLarge = CtPayloadTooLarge"
| "codec_error_code (CcInvalidBase64 e) = MalformedRequest"
| "codec_error_code (CcInvalidJson e) = MalformedRequest"

fun codec_error_text :: "control_codec_error \<Rightarrow> rstr" where
  "codec_error_text CcPayloadTooLarge =
     lit ''control payload exceeds the '' @ show_nat max_control_payload_bytes @ lit ''-byte limit''"
| "codec_error_text (CcInvalidBase64 e) = lit ''control payload is not valid Base64: '' @ e"
| "codec_error_text (CcInvalidJson e) = lit ''control payload is not valid JSON: '' @ e"

datatype json =
  JNull | JBool bool | JNumber rstr | JString rstr | JArray "json list" | JObject "(rstr \<times> json) list"

text \<open>\<open>DuplicateFreeJson\<close>: no object at any depth names a member twice.\<close>

fun duplicate_free :: "json \<Rightarrow> bool" where
  "duplicate_free (JArray xs) = list_all duplicate_free xs"
| "duplicate_free (JObject ms) = (distinct (map fst ms) \<and> list_all (\<lambda>(k, v). duplicate_free v) ms)"
| "duplicate_free _ = True"

text \<open>The number of members of the object serde keeps, in which a later duplicate replaces.\<close>

fun field_count :: "json \<Rightarrow> nat option" where
  "field_count (JObject ms) = Some (length (remdups (map fst ms)))"
| "field_count _ = None"

text \<open>
  \<open>STANDARD.decode\<close> and \<open>encode\<close>, the syntax of JSON, the derived readers of an envelope and of
  \<open>RequestIdentity\<close>, and the writer of a reply; a reader fails with the text of serde's error.
\<close>

record ('l, 's) control_codec =
  cc_decode :: "rstr \<Rightarrow> rstr + nat list"
  cc_encode :: "nat list \<Rightarrow> rstr"
  cc_tree :: "nat list \<Rightarrow> rstr + json"
  cc_request :: "nat list \<Rightarrow> rstr + 'l control_request_envelope"
  cc_identity :: "nat list \<Rightarrow> rstr + nat option"
  cc_response :: "('l, 's) control_response_envelope \<Rightarrow> rstr + nat list"

definition decode_bytes ::
    "('l, 's) control_codec \<Rightarrow> rstr \<Rightarrow> control_codec_error + nat list" where
  "decode_bytes codec payload =
     (if max_control_encoded_bytes < str_len payload then Inl CcPayloadTooLarge
      else and_then (map_err CcInvalidBase64 (cc_decode codec payload)) (\<lambda>bytes.
        if max_control_payload_bytes < length bytes then Inl CcPayloadTooLarge else Inr bytes))"

text \<open>The operations added after version 1 of the protocol refuse duplicate members.\<close>

fun strict_request :: "'l control_request \<Rightarrow> bool" where
  "strict_request (RegisterLogicalVoicesV2 r) = True"
| "strict_request (RegisterLogicalVoicesV3 r) = True"
| "strict_request (PreviewVoiceV2 l) = True"
| "strict_request (PreviewVoiceV3 l) = True"
| "strict_request VoiceLibraryStatusRequest = True"
| "strict_request EngineConfigurationStatusRequest = True"
| "strict_request GetPunctuationProfiles = True"
| "strict_request (SetPunctuationProfile p) = True"
| "strict_request (GetEngineParameters l) = True"
| "strict_request (ExplainVoiceParameters l) = True"
| "strict_request _ = False"

fun exact_fields :: "'l control_request \<Rightarrow> nat option" where
  "exact_fields EngineConfigurationStatusRequest = Some 3"
| "exact_fields GetPunctuationProfiles = Some 3"
| "exact_fields (SetPunctuationProfile p) = Some 4"
| "exact_fields _ = None"

definition decode_request ::
    "('l, 's) control_codec \<Rightarrow> rstr \<Rightarrow> control_codec_error + 'l control_request_envelope" where
  "decode_request codec payload =
     and_then (decode_bytes codec payload) (\<lambda>bytes.
     and_then (map_err CcInvalidJson (cc_request codec bytes)) (\<lambda>request.
     and_then
       (if strict_request (rq_request request)
        then and_then (map_err CcInvalidJson (cc_tree codec bytes)) (\<lambda>tree.
          if duplicate_free tree then Inr () else Inl (CcInvalidJson (lit ''duplicate object key'')))
        else Inr ()) (\<lambda>_.
     and_then
       (case exact_fields (rq_request request) of
          None \<Rightarrow> Inr ()
        | Some n \<Rightarrow>
            and_then (map_err CcInvalidJson (cc_tree codec bytes)) (\<lambda>tree.
              if field_count tree = Some n then Inr ()
              else Inl (CcInvalidJson (lit ''unexpected fields in configuration request''))))
       (\<lambda>_. Inr request))))"

definition encode_response ::
    "('l, 's) control_codec \<Rightarrow> ('l, 's) control_response_envelope \<Rightarrow> control_codec_error + rstr" where
  "encode_response codec response =
     and_then (map_err CcInvalidJson (cc_response codec response)) (\<lambda>bytes.
       if max_control_payload_bytes < length bytes then Inl CcPayloadTooLarge
       else Inr (cc_encode codec bytes))"

definition format_control_event ::
    "('l, 's) control_codec \<Rightarrow> ('l, 's) control_response_envelope \<Rightarrow> control_codec_error + rstr" where
  "format_control_event codec response =
     and_then (encode_response codec response) (\<lambda>payload.
       Inr (control_event_prefix @ lit '' '' @ payload))"

section \<open>Error replies\<close>

definition reply :: "nat option \<Rightarrow> ('l, 's) control_response \<Rightarrow> ('l, 's) control_response_envelope" where
  "reply i r = \<lparr>rs_protocol_version = control_protocol_version, rs_request_id = i, rs_response = r\<rparr>"

definition error_response ::
    "nat option \<Rightarrow> control_error_code \<Rightarrow> rstr \<Rightarrow> ('l, 's) control_response_envelope" where
  "error_response i code message = reply i (ControlError code message)"

text \<open>The loop that steps back to a boundary, and \<open>String::truncate\<close> at one.\<close>

fun boundary_below :: "rstr \<Rightarrow> nat \<Rightarrow> nat" where
  "boundary_below s 0 = 0"
| "boundary_below s (Suc n) = (if is_char_boundary s (Suc n) then Suc n else boundary_below s n)"

fun truncate_bytes :: "rstr \<Rightarrow> nat \<Rightarrow> rstr" where
  "truncate_bytes [] n = []"
| "truncate_bytes (c # cs) n =
     (if utf8_len c \<le> n then c # truncate_bytes cs (n - utf8_len c) else [])"

definition bounded_message :: "rstr \<Rightarrow> rstr" where
  "bounded_message m = truncate_bytes m (boundary_below m (min (str_len m) 1024))"

fun voices_error_code :: "logical_voice_registry_error \<Rightarrow> control_error_code" where
  "voices_error_code (LvStaleGeneration c r) = StaleGeneration"
| "voices_error_code (LvGenerationConflict g) = GenerationConflict"
| "voices_error_code _ = InvalidConfiguration"

fun policy_error_code :: "routing_policy_error \<Rightarrow> control_error_code" where
  "policy_error_code (RpStaleGeneration c r) = StaleGeneration"
| "policy_error_code (RpGenerationConflict g) = GenerationConflict"
| "policy_error_code _ = InvalidConfiguration"

fun voices_error_text :: "logical_voice_registry_error \<Rightarrow> rstr" where
  "voices_error_text (LvStaleGeneration current received) =
     lit ''logical voice generation '' @ show_nat received @ lit '' is older than current generation '' @
     show_nat current"
| "voices_error_text (LvGenerationConflict g) =
     lit ''logical voice generation '' @ show_nat g @ lit '' was reused with different content''"
| "voices_error_text (TooManyDefinitions n bound) =
     lit ''too many logical voices: '' @ show_nat n @ lit ''; limit is '' @ show_nat bound"
| "voices_error_text (InvalidLogicalVoiceId i) = lit ''invalid logical voice ID: '' @ i"
| "voices_error_text (DuplicateLogicalVoiceId i) = lit ''duplicate logical voice ID: '' @ i"
| "voices_error_text (TooManyPreferences i n bound) =
     lit ''logical voice '' @ i @ lit '' has '' @ show_nat n @ lit '' preferences; limit is '' @
     show_nat bound"
| "voices_error_text (LvInvalidEngineId i) =
     lit ''logical voice '' @ i @ lit '' contains an invalid engine ID''"
| "voices_error_text (InvalidPhysicalVoiceId i) =
     lit ''logical voice '' @ i @ lit '' contains an invalid physical voice ID''"
| "voices_error_text (InvalidLanguage i) =
     lit ''logical voice '' @ i @ lit '' contains an invalid language tag''"
| "voices_error_text InvalidFallbackEngineId =
     lit ''fallback policy contains an invalid engine ID''"

fun policy_error_message :: "routing_policy_error \<Rightarrow> rstr" where
  "policy_error_message (RpStaleGeneration current received) =
     lit ''routing policy generation '' @ show_nat received @ lit '' is older than current generation '' @
     show_nat current"
| "policy_error_message (RpGenerationConflict g) =
     lit ''routing policy generation '' @ show_nat g @ lit '' was reused with different content''"
| "policy_error_message (RpInvalidEngineId field) = lit field @ lit '' contains an invalid engine ID''"
| "policy_error_message (RpDuplicateEngine field e) =
     lit field @ lit '' contains duplicate engine '' @ e"

fun tuning_error_text :: "choice_tuning_error \<Rightarrow> rstr" where
  "tuning_error_text (Invalid why) = lit ''invalid per-choice tuning: '' @ lit why"
| "tuning_error_text (Registry e) = voices_error_text e"

fun tuning_error_code :: "choice_tuning_error \<Rightarrow> control_error_code" where
  "tuning_error_code (Registry e) = voices_error_code e"
| "tuning_error_code (Invalid why) = InvalidConfiguration"

fun native_error_text :: "native_choice_error \<Rightarrow> rstr" where
  "native_error_text (NcCommon e) = tuning_error_text e"
| "native_error_text (NcNative e) = parameter_error_text e"
| "native_error_text (NcUnavailable why) = lit ''native voice settings unavailable: '' @ lit why"

fun native_error_code :: "native_choice_error \<Rightarrow> control_error_code" where
  "native_error_code (NcCommon (Registry e)) = voices_error_code e"
| "native_error_code _ = InvalidConfiguration"


section \<open>Dispatch\<close>

text \<open>The snapshots the server passes in, and the two registries the dispatch may replace.\<close>

record 's control_context =
  cx_server_version :: rstr
  cx_inventory_generation :: nat
  cx_preferred_engine_id :: rstr
  cx_engines :: "engine_descriptor list"
  cx_engine_runtime :: "engine_runtime_status list"
  cx_voice_library :: "'s option"
  cx_knowledge :: "parameter_knowledge list"
  cx_configuration :: "'s option"

record control_state =
  ct_voices :: "native_patch logical_voice_registry"
  ct_policy :: routing_policy_registry

definition control_features :: "rstr list" where
  "control_features =
     map lit [''control_v1'', ''punctuation_profiles_v1'', ''emacsvox_tx'', ''engine_inventory'',
       ''engine_parameter_catalogue_v1'', ''engine_voice_parameters_v1'', ''engine_recovery_probe'',
       ''startup_engine_rescan'', ''exact_voice_preview'', ''espeak_variants_v1'',
       ''voice_chain_preview_v1'', ''legacy_commands'', ''logical_voice_registration'',
       ''logical_voice_language_routing'', ''logical_voice_routing'', ''playback_marker_events_v1'',
       ''playback_marker_events_v2'', ''playback_marker_events_v3'', ''playback_marker_events_v4'',
       ''presentation_timeline_v1'', ''presentation_timeline_v2'', ''presentation_timeline_v3'',
       ''presentation_timeline_v4'', ''presentation_timeline_v5'', ''presentation_timeline_v6'',
       ''presentation_tone_v2'', ''rich_tones_v1'', ''rich_tones_v2'', ''presentation_tone_v3'',
       ''presentation_timeline_v7'', ''palette_letter_v1'', ''voice_choice_tuning_v1'',
       ''presentation_tone_v1'', ''post_synthesis_effects_v1'', ''preferred_engine'',
       ''process_audio_routing'', ''relative_rate_v1'', ''runtime_routing_policy'',
       ''stable_voice_ids'', ''text_repertoire_routing_v1'', ''tracked_playback_completion'']"

definition capabilities_reply :: "'s control_context \<Rightarrow> ('l, 's) control_response" where
  "capabilities_reply cx =
     Capabilities (cx_server_version cx) [control_protocol_version]
       (control_features @
        (if cx_voice_library cx \<noteq> None then [lit ''voice_library_v1''] else []) @
        (if cx_configuration cx \<noteq> None then [lit ''engine_configuration_v1''] else []))
       deprecated_protocol_commands"

definition inventory_reply ::
    "'s control_context \<Rightarrow> routing_policy_registry \<Rightarrow> ('l, 's) control_response" where
  "inventory_reply cx r =
     InventoryReply (inventory_generation r (cx_inventory_generation cx))
       (case preferred_engine_ids (rp_policy r) of
          [] \<Rightarrow> cx_preferred_engine_id cx | e # es \<Rightarrow> e)
       (routing_registration r) (cx_engine_runtime cx) (project_disabled r (cx_engines cx))"

text \<open>Resolution of every definition under the policy in force.\<close>

definition rebind ::
    "'s control_context \<Rightarrow> routing_policy_registry \<Rightarrow> native_patch logical_voice_registry \<Rightarrow>
     logical_voice_registration \<times> native_patch logical_voice_registry" where
  "rebind cx r voices =
     resolve_and_store_with_policy (project_disabled r (cx_engines cx))
       (effective_fallback_policy r (lr_fallback_policy voices)) voices"

definition unresolved_ids :: "logical_voice_registration \<Rightarrow> rstr list" where
  "unresolved_ids reg = List.map_filter unresolved_voice_id (lg_bindings reg)"

type_synonym ('l, 's) control_outcome = "('l, 's) control_response_envelope \<times> control_state"

definition register_voices_request ::
    "'s control_context \<Rightarrow> nat \<Rightarrow> nat \<Rightarrow> logical_voice_definition list \<Rightarrow> fallback_policy \<Rightarrow>
     control_state \<Rightarrow> ('l, 's) control_outcome" where
  "register_voices_request cx i g definitions policy st =
     (case register_voices g definitions policy
             (project_disabled (ct_policy st) (cx_engines cx)) (ct_voices st) of
        Inl e \<Rightarrow> (error_response (Some i) (voices_error_code e) (voices_error_text e), st)
      | Inr (reg, voices) \<Rightarrow>
          (let (registration, voices') = rebind cx (ct_policy st) voices
           in (reply (Some i) (LogicalVoicesRegistered
                 (inventory_generation (ct_policy st) (cx_inventory_generation cx)) registration),
               st\<lparr>ct_voices := voices'\<rparr>)))"

text \<open>Nothing is published unless its acknowledgement can be encoded.\<close>

definition publish_if_encodable ::
    "('l, 's) control_codec \<Rightarrow> nat \<Rightarrow> ('l, 's) control_response \<Rightarrow>
     native_patch logical_voice_registry \<Rightarrow> control_state \<Rightarrow> ('l, 's) control_outcome" where
  "publish_if_encodable codec i response candidate st =
     (case encode_response codec (reply (Some i) response) of
        Inr encoded \<Rightarrow> (reply (Some i) response, st\<lparr>ct_voices := candidate\<rparr>)
      | Inl e \<Rightarrow> (error_response (Some i) (codec_error_code e) (codec_error_text e), st))"

definition register_v2_request ::
    "('l, 's) control_codec \<Rightarrow> 's control_context \<Rightarrow> nat \<Rightarrow> voice_registration_v2 \<Rightarrow>
     control_state \<Rightarrow> ('l, 's) control_outcome" where
  "register_v2_request codec cx i request st =
     (case register_v2 (r2_generation request) (r2_definitions request) (r2_policy request)
             (project_disabled (ct_policy st) (cx_engines cx)) (ct_voices st) of
        Inl e \<Rightarrow>
          (error_response (Some i) (tuning_error_code e) (bounded_message (tuning_error_text e)), st)
      | Inr (reg, candidate) \<Rightarrow>
          (let (resolved, candidate') = rebind cx (ct_policy st) candidate
           in publish_if_encodable codec i
                (LogicalVoicesRegisteredV2 (lr_generation candidate')
                   (inventory_generation (ct_policy st) (cx_inventory_generation cx))
                   (length (lr_registered candidate')) (unresolved_ids resolved))
                candidate' st))"

definition register_v3_request ::
    "('l, 's) control_codec \<Rightarrow> (voice_registration_v3 \<Rightarrow> nat option) \<Rightarrow>
     (native_voice_registration \<Rightarrow> nat option) \<Rightarrow> 's control_context \<Rightarrow> nat \<Rightarrow>
     voice_registration_v3 \<Rightarrow> control_state \<Rightarrow> ('l, 's) control_outcome" where
  "register_v3_request codec json_size ack_size cx i request st =
     (if i = 0
      then (error_response (Some i) InvalidConfiguration
              (lit ''Native registration needs a positive request ID''), st)
      else
        (case and_then
                (new_snapshot (project_disabled (ct_policy st) (cx_engines cx)) (cx_knowledge cx))
                (\<lambda>s. register_v3 json_size ack_size request s (ct_voices st)) of
           Inl e \<Rightarrow>
             (error_response (Some i) (native_error_code e) (bounded_message (native_error_text e)), st)
         | Inr (registration, candidate) \<Rightarrow>
             (let (resolved, candidate') = rebind cx (ct_policy st) candidate
              in publish_if_encodable codec i
                   (LogicalVoicesRegisteredV3 (nr_generation registration)
                      (inventory_generation (ct_policy st) (cx_inventory_generation cx))
                      (nr_definition_count registration) (unresolved_ids resolved)
                      (nr_native_status registration))
                   candidate' st)))"

definition set_policy_request ::
    "'s control_context \<Rightarrow> nat \<Rightarrow> nat \<Rightarrow> routing_policy \<Rightarrow> control_state \<Rightarrow>
     ('l, 's) control_outcome" where
  "set_policy_request cx i g policy st =
     (case register_policy g policy (ct_policy st) of
        Inl e \<Rightarrow> (error_response (Some i) (policy_error_code e) (policy_error_message e), st)
      | Inr (registration, r) \<Rightarrow>
          (let (voices_reg, voices) = rebind cx r (ct_voices st)
           in (reply (Some i) (RoutingPolicyApplied
                 (inventory_generation r (cx_inventory_generation cx)) registration voices_reg),
               \<lparr>ct_voices = voices, ct_policy = r\<rparr>)))"

definition unsupported :: "nat \<Rightarrow> string \<Rightarrow> ('l, 's) control_response_envelope" where
  "unsupported i why = error_response (Some i) UnsupportedOperation (lit why)"

record ('l, 's) control_env =
  ce_codec :: "('l, 's) control_codec"
  ce_registration_size :: "voice_registration_v3 \<Rightarrow> nat option"
  ce_acknowledgement_size :: "native_voice_registration \<Rightarrow> nat option"

fun dispatch_control ::
    "('l, 's) control_env \<Rightarrow> 's control_context \<Rightarrow> nat \<Rightarrow> 'l control_request \<Rightarrow> control_state \<Rightarrow>
     ('l, 's) control_outcome" where
  "dispatch_control env cx i GetPunctuationProfiles st =
     (unsupported i ''punctuation profile operations require a live speech worker'', st)"
| "dispatch_control env cx i (SetPunctuationProfile p) st =
     (unsupported i ''punctuation profile operations require a live speech worker'', st)"
| "dispatch_control env cx i EngineConfigurationStatusRequest st =
     (case cx_configuration cx of
        Some s \<Rightarrow> (reply (Some i) (EngineConfigurationStatusReply s), st)
      | None \<Rightarrow> (unsupported i ''engine configuration status is unavailable in this context'', st))"
| "dispatch_control env cx i VoiceLibraryStatusRequest st =
     (case cx_voice_library cx of
        Some s \<Rightarrow> (reply (Some i) (VoiceLibraryStatusReply s), st)
      | None \<Rightarrow> (unsupported i ''voice-library status is unavailable in this context'', st))"
| "dispatch_control env cx i CapabilitiesRequest st = (reply (Some i) (capabilities_reply cx), st)"
| "dispatch_control env cx i InventoryRequest st =
     (reply (Some i) (inventory_reply cx (ct_policy st)), st)"
| "dispatch_control env cx i (RegisterLogicalVoices g ds policy) st =
     register_voices_request cx i g ds policy st"
| "dispatch_control env cx i (RegisterLogicalVoicesV3 request) st =
     register_v3_request (ce_codec env) (ce_registration_size env) (ce_acknowledgement_size env)
       cx i request st"
| "dispatch_control env cx i (RegisterLogicalVoicesV2 request) st =
     register_v2_request (ce_codec env) cx i request st"
| "dispatch_control env cx i (SetRoutingPolicy g policy) st = set_policy_request cx i g policy st"
| "dispatch_control env cx i request st =
     (error_response (Some i) InvalidConfiguration (lit ''request requires a live playback server''), st)"

text \<open>The request ID of a payload that is not a request, if it can be read at all.\<close>

definition payload_identity :: "('l, 's) control_codec \<Rightarrow> rstr \<Rightarrow> nat option" where
  "payload_identity codec payload =
     (case and_then (decode_bytes codec payload) (\<lambda>bytes. map_err CcInvalidJson (cc_identity codec bytes)) of
        Inl e \<Rightarrow> None | Inr i \<Rightarrow> i)"

definition process_control_request ::
    "('l, 's) control_env \<Rightarrow> 's control_context \<Rightarrow> rstr \<Rightarrow> control_state \<Rightarrow>
     ('l, 's) control_outcome" where
  "process_control_request env cx payload st =
     (case decode_request (ce_codec env) payload of
        Inl e \<Rightarrow>
          (error_response (payload_identity (ce_codec env) payload) (codec_error_code e)
             (bounded_message (codec_error_text e)), st)
      | Inr request \<Rightarrow>
          if rq_protocol_version request \<noteq> control_protocol_version
          then (error_response (Some (rq_request_id request)) UnsupportedVersion
                  (lit ''unsupported control protocol version '' @
                   show_nat (rq_protocol_version request) @ lit ''; supported version is '' @
                   show_nat control_protocol_version), st)
          else dispatch_control env cx (rq_request_id request) (rq_request request) st)"


section \<open>Bounded messages\<close>

lemma truncate_at_boundary:
  "is_char_boundary s n \<Longrightarrow> str_len (truncate_bytes s n) = n \<and> (\<exists>rest. s = truncate_bytes s n @ rest)"
proof (induction s arbitrary: n)
  case (Cons c cs)
  have pos: "0 < utf8_len c" using utf8_len_ge1 [of c] by simp
  show ?case
  proof (cases "n = 0")
    case True
    with pos show ?thesis by simp
  next
    case False
    with Cons.prems have "utf8_len c \<le> n" "is_char_boundary cs (n - utf8_len c)" by simp_all
    with Cons.IH [of "n - utf8_len c"] show ?thesis by simp
  qed
qed simp

lemma boundary_below_spec: "is_char_boundary s (boundary_below s n) \<and> boundary_below s n \<le> n"
  by (induction n) (auto simp: is_char_boundary_split)

lemma bounded_message_spec:
  "str_len (bounded_message m) \<le> 1024 \<and> (\<exists>rest. m = bounded_message m @ rest)"
proof -
  from boundary_below_spec [of m "min (str_len m) 1024"]
  have b: "is_char_boundary m (boundary_below m (min (str_len m) 1024))"
    "boundary_below m (min (str_len m) 1024) \<le> 1024" by simp_all
  from truncate_at_boundary [OF b(1)] b(2) show ?thesis by (simp add: bounded_message_def)
qed

section \<open>What a request does to the registries\<close>

lemma rebind_simps [simp]:
  "lr_permissions (snd (rebind cx r voices)) = lr_permissions voices"
  "lr_generation (snd (rebind cx r voices)) = lr_generation voices"
  "lr_definitions (snd (rebind cx r voices)) = lr_definitions voices"
  "lr_registered (snd (rebind cx r voices)) = lr_registered voices"
  "lr_fallback_policy (snd (rebind cx r voices)) = lr_fallback_policy voices"
  "registry_content (snd (rebind cx r voices)) = registry_content voices"
  "voices_wf perms (snd (rebind cx r voices)) = voices_wf perms voices"
  "lg_generation (fst (rebind cx r voices)) = lr_generation voices"
  "lg_bindings (fst (rebind cx r voices)) = lr_bindings (snd (rebind cx r voices))"
  "lr_bindings (snd (rebind cx r voices)) =
     map (resolve_binding (project_disabled r (cx_engines cx))
       (effective_fallback_policy r (lr_fallback_policy voices)) (lr_permissions voices))
       (lr_definitions voices)"
  by (simp_all add: rebind_def resolve_and_store_with_policy_def resolve_with_policy_def Let_def
      registry_content_def)

text \<open>
  The three registrations have one effect: the voices become an accepted replacement, rebound
  under the policy in force.
\<close>

definition voices_moved ::
    "native_patch logical_voice_registry \<Rightarrow> native_patch logical_voice_registry \<Rightarrow> bool" where
  "voices_moved v v' \<longleftrightarrow>
     (\<forall>perms. voices_wf perms v \<longrightarrow> voices_wf perms v') \<and> lr_generation v \<le> lr_generation v' \<and>
     (registry_content v' = registry_content v \<or> lr_generation v < lr_generation v')"

lemma voices_moved_refl [simp]: "voices_moved v v" "voices_moved v (snd (rebind cx r v))"
  by (simp_all add: voices_moved_def)

lemma voices_moved_rebind [simp]: "voices_moved v (snd (rebind cx r v')) = voices_moved v v'"
  by (simp add: voices_moved_def)

lemma published_moved:
  assumes "x = store_bindings inventory r0" "published g registered projection policy r r0"
    and "lr_generation r \<le> g"
  shows "lr_generation r \<le> lr_generation (snd x) \<and>
    (registry_content (snd x) = registry_content r \<or> lr_generation r < lr_generation (snd x))"
  using assms by (auto simp: published_def split: if_split_asm)

lemma register_voices_moved:
  assumes "register_voices g ds policy inventory v = Inr (reg, v')"
  shows "voices_moved v v'"
proof -
  from register_voices_Inr [OF assms] obtain r0 where r0: "lr_generation v \<le> g"
    "(reg, v') = store_bindings inventory r0"
    "published g (map Legacy (map clamp_definition ds)) (map clamp_definition ds) policy v r0" by blast
  from published_moved [OF r0(2,3,1)] register_voices_wf [OF _ assms] show ?thesis
    by (simp add: voices_moved_def)
qed

lemma replace_definitions_moved:
  assumes "replace_definitions g ds policy inventory v = Inr (reg, v')"
  shows "voices_moved v v'"
  using assms
proof (rule replace_definitions_Inr)
  fix admitted r0
  assume "lr_generation v \<le> g" "(reg, v') = store_bindings inventory r0"
    "published g (map fst admitted) (map snd admitted) policy v r0"
  from published_moved [OF this(2,3,1)] replace_definitions_wf [OF _ assms] show ?thesis
    by (simp add: voices_moved_def)
qed

lemma register_v3_moved:
  assumes "register_v3 json_size reply_size request s v = Inr (ack, v')"
  shows "voices_moved v v' \<and> nr_generation ack = lr_generation v' \<and>
    nr_definition_count ack = length (lr_registered v')"
  using assms by (rule register_v3_Inr) (simp add: replace_definitions_moved)

definition policy_moved :: "routing_policy_registry \<Rightarrow> routing_policy_registry \<Rightarrow> bool" where
  "policy_moved r r' \<longleftrightarrow>
     rp_local_disabled r' = rp_local_disabled r \<and>
     (set (rp_local_disabled r) \<subseteq> set (disabled_engine_ids (rp_policy r)) \<longrightarrow>
      set (rp_local_disabled r') \<subseteq> set (disabled_engine_ids (rp_policy r'))) \<and>
     rp_generation r \<le> rp_generation r' \<and>
     (r' = r \<or> rp_generation r < rp_generation r' \<or> \<not> rp_configured r)"

lemma policy_moved_refl [simp]: "policy_moved r r"
  by (simp add: policy_moved_def)

lemma register_policy_moved:
  "register_policy g p r = Inr (reg, r') \<Longrightarrow> policy_moved r r' \<and> reg = routing_registration r'"
  by (auto simp: register_policy_def policy_moved_def Let_def and_then_Inr set_push_missing
      split: if_split_asm)

fun changes_registries :: "('l, 's) control_response \<Rightarrow> bool" where
  "changes_registries (LogicalVoicesRegistered n reg) = True"
| "changes_registries (LogicalVoicesRegisteredV2 g n c ids) = True"
| "changes_registries (LogicalVoicesRegisteredV3 g n c ids sts) = True"
| "changes_registries (RoutingPolicyApplied n p reg) = True"
| "changes_registries _ = False"

fun acknowledges :: "('l, 's) control_response \<Rightarrow> control_state \<Rightarrow> bool" where
  "acknowledges (LogicalVoicesRegistered n reg) st \<longleftrightarrow>
     lg_generation reg = lr_generation (ct_voices st) \<and> lg_bindings reg = lr_bindings (ct_voices st)"
| "acknowledges (LogicalVoicesRegisteredV2 g n c ids) st \<longleftrightarrow>
     g = lr_generation (ct_voices st) \<and> c = length (lr_registered (ct_voices st)) \<and>
     ids = List.map_filter unresolved_voice_id (lr_bindings (ct_voices st))"
| "acknowledges (LogicalVoicesRegisteredV3 g n c ids sts) st \<longleftrightarrow>
     g = lr_generation (ct_voices st) \<and> c = length (lr_registered (ct_voices st)) \<and>
     ids = List.map_filter unresolved_voice_id (lr_bindings (ct_voices st))"
| "acknowledges (RoutingPolicyApplied n p reg) st \<longleftrightarrow>
     p = routing_registration (ct_policy st) \<and> lg_bindings reg = lr_bindings (ct_voices st)"
| "acknowledges _ st = False"

definition bound_in :: "'s control_context \<Rightarrow> control_state \<Rightarrow> bool" where
  "bound_in cx st \<longleftrightarrow>
     lr_bindings (ct_voices st) =
       map (resolve_binding (project_disabled (ct_policy st) (cx_engines cx))
         (effective_fallback_policy (ct_policy st) (lr_fallback_policy (ct_voices st)))
         (lr_permissions (ct_voices st))) (lr_definitions (ct_voices st))"

definition outcome_ok ::
    "('l, 's) control_codec \<Rightarrow> 's control_context \<Rightarrow> control_state \<Rightarrow>
     ('l, 's) control_outcome \<Rightarrow> bool" where
  "outcome_ok codec cx st oc \<longleftrightarrow>
     voices_moved (ct_voices st) (ct_voices (snd oc)) \<and>
     policy_moved (ct_policy st) (ct_policy (snd oc)) \<and>
     (if changes_registries (rs_response (fst oc))
      then acknowledges (rs_response (fst oc)) (snd oc) \<and> bound_in cx (snd oc)
      else snd oc = st)"

lemma outcome_unchanged:
  "\<not> changes_registries (rs_response r) \<Longrightarrow> outcome_ok codec cx st (r, st)"
  by (simp add: outcome_ok_def)

lemma reply_response [simp]:
  "rs_response (reply i r) = r" "rs_response (error_response i code m) = ControlError code m"
  "rs_response (unsupported n why) = ControlError UnsupportedOperation (lit why)"
  by (simp_all add: reply_def error_response_def unsupported_def)

lemma publish_ok:
  assumes "voices_moved (ct_voices st) candidate" "changes_registries response"
    and "acknowledges response (st\<lparr>ct_voices := candidate\<rparr>)" "bound_in cx (st\<lparr>ct_voices := candidate\<rparr>)"
  shows "outcome_ok codec' cx st (publish_if_encodable codec i response candidate st)"
  using assms
  by (cases "encode_response codec (reply (Some i) response)")
    (simp_all add: publish_if_encodable_def outcome_ok_def)

lemma rebind_split: "rebind cx r v = (fst (rebind cx r v), snd (rebind cx r v))"
  by simp

lemma bound_in_rebind: "bound_in cx (st\<lparr>ct_voices := snd (rebind cx (ct_policy st) v)\<rparr>)"
  by (simp add: bound_in_def)

lemma register_voices_ok: "outcome_ok codec cx st (register_voices_request cx i g ds policy st)"
proof (cases "register_voices g ds policy (project_disabled (ct_policy st) (cx_engines cx)) (ct_voices st)")
  case (Inl e)
  then show ?thesis by (simp add: register_voices_request_def outcome_unchanged)
next
  case (Inr x)
  obtain reg v where x: "x = (reg, v)" by (cases x)
  from register_voices_moved [OF Inr [unfolded x]] bound_in_rebind [of cx st v] show ?thesis
    by (simp add: register_voices_request_def Inr x split_beta outcome_ok_def)
qed

lemma register_v2_ok: "outcome_ok codec' cx st (register_v2_request codec cx i request st)"
proof (cases "register_v2 (r2_generation request) (r2_definitions request) (r2_policy request)
    (project_disabled (ct_policy st) (cx_engines cx)) (ct_voices st)")
  case (Inl e)
  then show ?thesis by (simp add: register_v2_request_def outcome_unchanged)
next
  case (Inr x)
  obtain reg v where x: "x = (reg, v)" by (cases x)
  from replace_definitions_moved [OF register_v2_Inr [OF Inr [unfolded x]]] show ?thesis
    unfolding register_v2_request_def Inr x sum.case split_beta Let_def fst_conv snd_conv
    by (intro publish_ok bound_in_rebind) (simp_all add: unresolved_ids_def Let_def)
qed

lemma register_v3_ok:
  "outcome_ok codec' cx st (register_v3_request codec json_size ack_size cx i request st)"
proof (cases "i = 0")
  case True
  then show ?thesis by (simp add: register_v3_request_def outcome_unchanged)
next
  case False
  show ?thesis
  proof (cases "and_then (new_snapshot (project_disabled (ct_policy st) (cx_engines cx)) (cx_knowledge cx))
      (\<lambda>s. register_v3 json_size ack_size request s (ct_voices st))")
    case (Inl e)
    with False show ?thesis by (simp add: register_v3_request_def outcome_unchanged)
  next
    case (Inr x)
    obtain ack v where x: "x = (ack, v)" by (cases x)
    from Inr x obtain s where "register_v3 json_size ack_size request s (ct_voices st) = Inr (ack, v)"
      by (auto simp: and_then_Inr)
    from register_v3_moved [OF this] show ?thesis
      unfolding register_v3_request_def if_not_P [OF False] Inr x sum.case split_beta Let_def
        fst_conv snd_conv
      by (intro publish_ok bound_in_rebind) (simp_all add: unresolved_ids_def Let_def)
  qed
qed

lemma set_policy_ok: "outcome_ok codec cx st (set_policy_request cx i g policy st)"
proof (cases "register_policy g policy (ct_policy st)")
  case (Inl e)
  then show ?thesis by (simp add: set_policy_request_def outcome_unchanged)
next
  case (Inr x)
  obtain reg r where x: "x = (reg, r)" by (cases x)
  from register_policy_moved [OF Inr [unfolded x]] show ?thesis
    by (simp add: set_policy_request_def Inr x split_beta Let_def outcome_ok_def bound_in_def)
qed

lemma dispatch_ok: "outcome_ok (ce_codec env) cx st (dispatch_control env cx i request st)"
proof (cases request)
  case EngineConfigurationStatusRequest
  then show ?thesis by (cases "cx_configuration cx") (simp_all add: outcome_unchanged)
next
  case VoiceLibraryStatusRequest
  then show ?thesis by (cases "cx_voice_library cx") (simp_all add: outcome_unchanged)
qed (simp_all add: outcome_unchanged register_voices_ok register_v2_ok register_v3_ok set_policy_ok
    capabilities_reply_def inventory_reply_def)

lemma process_ok: "outcome_ok (ce_codec env) cx st (process_control_request env cx payload st)"
  by (simp add: process_control_request_def outcome_unchanged dispatch_ok split: sum.split)


section \<open>Properties\<close>

text \<open>
  C31: A reply tells the truth about the registries: a reply that acknowledges a registration or a
  policy names the generation, the count, the policy and the bindings the session now has, and the
  bindings are the resolutions of the kept definitions under the policy in force; with every other
  reply, every error among them, both registries are exactly what they were.
\<close>
theorem control_reply_truthful:
  "let (envelope, st') = process_control_request env cx payload st
   in if changes_registries (rs_response envelope)
      then acknowledges (rs_response envelope) st' \<and> bound_in cx st'
      else st' = st"
  using process_ok [of env cx st payload] by (simp add: outcome_ok_def split_beta)

definition control_run ::
    "('l, 's) control_env \<Rightarrow> ('s control_context \<times> rstr) list \<Rightarrow> control_state \<Rightarrow> control_state" where
  "control_run env requests st =
     fold (\<lambda>(cx, payload) st. snd (process_control_request env cx payload st)) requests st"

definition control_start ::
    "engine_selection_permissions \<Rightarrow> rstr \<Rightarrow> local_routing_policy \<Rightarrow> control_state" where
  "control_start perms startup lp =
     \<lparr>ct_voices = with_engine_permissions perms, ct_policy = with_local_policy startup lp\<rparr>"

definition control_inv ::
    "engine_selection_permissions \<Rightarrow> rstr list \<Rightarrow> control_state \<Rightarrow> bool" where
  "control_inv perms disabled st \<longleftrightarrow>
     voices_wf perms (ct_voices st) \<and> rp_local_disabled (ct_policy st) = disabled \<and>
     set disabled \<subseteq> set (disabled_engine_ids (rp_policy (ct_policy st)))"

lemma process_inv:
  "control_inv perms disabled st \<Longrightarrow>
   control_inv perms disabled (snd (process_control_request env cx payload st))"
  using process_ok [of env cx st payload]
  by (auto simp: control_inv_def outcome_ok_def voices_moved_def policy_moved_def)

interpretation control: invariant_machine
  "\<lambda>(cx, payload) st. snd (process_control_request env cx payload st)" "control_inv perms disabled"
  by unfold_locales (auto intro: process_inv)

lemma process_generations:
  "lr_generation (ct_voices st) \<le>
     lr_generation (ct_voices (snd (process_control_request env cx payload st))) \<and>
   rp_generation (ct_policy st) \<le>
     rp_generation (ct_policy (snd (process_control_request env cx payload st)))"
  using process_ok [of env cx st payload]
  by (simp add: outcome_ok_def voices_moved_def policy_moved_def)

interpretation control_voices: clocked_machine
  "\<lambda>(cx, payload) st. snd (process_control_request env cx payload st)"
  "\<lambda>st. lr_generation (ct_voices st)"
  by unfold_locales (auto simp: process_generations)

interpretation control_policy: clocked_machine
  "\<lambda>(cx, payload) st. snd (process_control_request env cx payload st)"
  "\<lambda>st. rp_generation (ct_policy st)"
  by unfold_locales (auto simp: process_generations)

text \<open>
  C32: No sequence of control payloads, well formed or not, breaks a session: the resolver always
  sees the projections of at most 256 registered voices with distinct valid IDs, the permissions
  of the session and the engines its configuration disables stay, and no generation falls.
\<close>
theorem control_run_safe:
  fixes env perms startup lp requests later
  defines "st \<equiv> control_run env requests (control_start perms startup lp)"
  shows "lr_definitions (ct_voices st) = map voice_projection (lr_registered (ct_voices st)) \<and>
    length (lr_definitions (ct_voices st)) \<le> 256 \<and>
    distinct (map lv_id (lr_definitions (ct_voices st))) \<and>
    list_all (\<lambda>d. valid_logical_voice_id (lv_id d)) (lr_definitions (ct_voices st)) \<and>
    lr_permissions (ct_voices st) = perms \<and>
    set (lp_disabled_engine_ids lp) \<subseteq> set (disabled_engine_ids (rp_policy (ct_policy st))) \<and>
    lr_generation (ct_voices st) \<le> lr_generation (ct_voices (control_run env later st)) \<and>
    rp_generation (ct_policy st) \<le> rp_generation (ct_policy (control_run env later st))"
proof -
  have "control_inv perms (lp_disabled_engine_ids lp) (control_start perms startup lp)"
    by (simp add: control_inv_def control_start_def initial_voices_wf with_local_policy_def)
  then have "control_inv perms (lp_disabled_engine_ids lp) st"
    unfolding st_def control_run_def by (rule control.inv_run)
  moreover have "lr_generation (ct_voices st) \<le> lr_generation (ct_voices (control_run env later st))"
    unfolding control_run_def by (rule control_voices.clock_run)
  moreover have "rp_generation (ct_policy st) \<le> rp_generation (ct_policy (control_run env later st))"
    unfolding control_run_def by (rule control_policy.clock_run)
  ultimately show ?thesis unfolding control_inv_def voices_wf_def max_logical_voices_def by blast
qed

text \<open>
  The registries move only forward: whatever arrives, the registered definitions and their
  fallback policy are what they were or belong to a later generation, and so is the routing
  policy once it was configured; the text of an error about an unreadable payload never exceeds
  the bound the clients rely on.
\<close>
lemma control_content_forward:
  "let (envelope, st') = process_control_request env cx payload st
   in (registry_content (ct_voices st') = registry_content (ct_voices st) \<or>
       lr_generation (ct_voices st) < lr_generation (ct_voices st')) \<and>
      (ct_policy st' = ct_policy st \<or> rp_generation (ct_policy st) < rp_generation (ct_policy st') \<or>
       rp_configured (ct_policy st) = False) \<and>
      (case decode_request (ce_codec env) payload of
         Inl e \<Rightarrow> (\<exists>m. rs_response envelope = ControlError (codec_error_code e) m \<and> str_len m \<le> 1024)
       | Inr request \<Rightarrow> True)"
  using process_ok [of env cx st payload] bounded_message_spec
  by (auto simp: outcome_ok_def voices_moved_def policy_moved_def split_beta process_control_request_def
      split: sum.split)

end
