(* ===== verification/Timeline_Documents.thy ===== *)
theory Timeline_Documents
  imports Logical_Voices Tone_Command
begin

text \<open>
  The structured presentation documents a client sends (\<open>omnivox-tts/src/timeline_protocol.rs\<close>,
  \<open>timeline_v4.rs\<close>, \<open>timeline_v5.rs\<close>, \<open>timeline_v6.rs\<close>): the versioned envelopes, their whole
  validation before any playback changes, the check against the logical voice registry, the
  replacement domains, and the bounded codecs. Base64 and JSON are not part of the sources: the
  codecs take them as a record of functions over the decoded bytes, errors as the text the
  sources display.
\<close>

section \<open>Bounds and errors\<close>

definition max_timeline_payload_bytes :: nat where
  "max_timeline_payload_bytes = 256 * 1024"

definition max_timeline_encoded_bytes :: nat where
  "max_timeline_encoded_bytes = (max_timeline_payload_bytes div 3) * 4 + 8"

definition max_timeline_aggregate_bytes :: nat where
  "max_timeline_aggregate_bytes = 16 * 1024 * 1024"

definition max_timeline_aggregate_encoded_bytes :: nat where
  "max_timeline_aggregate_encoded_bytes = div_ceil max_timeline_aggregate_bytes 3 * 4"

definition max_timeline_parts :: nat where "max_timeline_parts = 64"
definition max_timeline_spans :: nat where "max_timeline_spans = 4096"
definition max_timeline_actions :: nat where "max_timeline_actions = 4096"

definition max_timeline_aggregate_spans :: nat where
  "max_timeline_aggregate_spans = max_timeline_spans * max_timeline_parts"

definition max_timeline_aggregate_actions :: nat where
  "max_timeline_aggregate_actions = max_timeline_actions"

definition max_protocol_id_bytes :: nat where "max_protocol_id_bytes = 128"
definition max_timeline_resource_path_bytes :: nat where "max_timeline_resource_path_bytes = 4096"
definition max_timeline_tone_frequency_hz :: rat where "max_timeline_tone_frequency_hz = 24000"
definition max_timeline_tone_duration_ms :: nat where "max_timeline_tone_duration_ms = 60000"
definition max_timeline_silence_duration_ms :: nat where "max_timeline_silence_duration_ms = 15000"
definition min_rate_offset_points :: int where "min_rate_offset_points = -20"
definition max_rate_offset_points :: int where "max_rate_offset_points = 20"

datatype presentation_timeline_error =
  PayloadTooLarge | AggregatePayloadTooLarge | InvalidBase64 rstr | InvalidJson rstr
| InvalidTimeline rstr

fun timeline_error_text :: "presentation_timeline_error \<Rightarrow> rstr" where
  "timeline_error_text PayloadTooLarge =
     lit ''timeline payload exceeds the '' @ show_nat max_timeline_payload_bytes @ lit ''-byte limit''"
| "timeline_error_text AggregatePayloadTooLarge =
     lit ''multipart timeline payload exceeds the '' @ show_nat max_timeline_aggregate_bytes @
     lit ''-byte aggregate limit''"
| "timeline_error_text (InvalidBase64 e) = lit ''timeline payload is not valid Base64: '' @ e"
| "timeline_error_text (InvalidJson e) = lit ''timeline payload is not valid JSON: '' @ e"
| "timeline_error_text (InvalidTimeline e) = lit ''invalid presentation timeline: '' @ e"

definition invalid_if :: "bool \<Rightarrow> rstr \<Rightarrow> presentation_timeline_error + unit" where
  "invalid_if condition message = (if condition then Inl (InvalidTimeline message) else Inr ())"

definition require :: "bool \<Rightarrow> string \<Rightarrow> presentation_timeline_error + unit" where
  "require valid message = (if valid then Inr () else Inl (InvalidTimeline (lit message)))"

lemma invalid_if_Inr [res_simps]: "invalid_if c m = Inr u \<longleftrightarrow> \<not> c"
  by (simp add: invalid_if_def)

lemma require_Inr [res_simps]: "require c m = Inr u \<longleftrightarrow> c"
  by (simp add: require_def)

section \<open>Spans and actions\<close>

datatype presentation_delivery_policy = Ordered | Replaceable | Urgent

datatype presentation_effect_directive =
  Retain | ReplaceState rstr post_synthesis_style | EndState

record presentation_speech_span =
  sp_id :: nat
  sp_text :: rstr
  sp_logical_voice_id :: "rstr option"
  sp_acss :: normalized_acss
  sp_rate_offset :: "int option"
  sp_effects :: presentation_effect_directive

datatype presentation_affinity = AffinityBefore | AffinityAfter

datatype presentation_timeline_position =
  SpanBoundary nat presentation_affinity | TextOffset nat nat presentation_affinity

fun position_span_id :: "presentation_timeline_position \<Rightarrow> nat" where
  "position_span_id (SpanBoundary i a) = i"
| "position_span_id (TextOffset i n a) = i"

datatype presentation_lifecycle_anchor = ObjectAnchor | RunAnchor | TransitionAnchor

datatype presentation_audio_mode = ModeInsert | ModeOverlay

datatype presentation_effect_bus = DryBus | SpeechBus

datatype presentation_action =
  AudioAction rstr presentation_audio_mode f32 f32 presentation_effect_bus
| ToneAction f32 nat presentation_audio_mode f32 f32 presentation_effect_bus
| SilenceAction nat
| SemanticEvent

record presentation_timeline_action =
  pa_id :: rstr
  pa_position :: presentation_timeline_position
  pa_lifecycle_anchor :: presentation_lifecycle_anchor
  pa_action :: presentation_action

definition validate_id :: "rstr \<Rightarrow> string \<Rightarrow> presentation_timeline_error + unit" where
  "validate_id v kind =
     invalid_if (v = [] \<or> max_protocol_id_bytes < str_len v)
       (lit kind @ lit '' ID must contain 1 to '' @ show_nat max_protocol_id_bytes @
        lit '' UTF-8 bytes'')"

definition validate_normalized :: "f32 \<Rightarrow> rstr \<Rightarrow> presentation_timeline_error + unit" where
  "validate_normalized v field =
     invalid_if (\<not> is_finite v \<or> \<not> f32_unit v) (field @ lit '' must be finite and normalized'')"

definition validate_named ::
    "rstr \<Rightarrow> (string \<times> f32 option) list \<Rightarrow> presentation_timeline_error + unit" where
  "validate_named prefix values =
     check_each (\<lambda>(name, v). case v of
                   None \<Rightarrow> Inr ()
                 | Some x \<Rightarrow> validate_normalized x (prefix @ lit name)) values"

definition validate_acss :: "normalized_acss \<Rightarrow> nat \<Rightarrow> presentation_timeline_error + unit" where
  "validate_acss style span_id =
     validate_named (lit ''speech span '' @ show_nat span_id @ lit '' ACSS '')
       [(''rate'', na_rate style), (''average_pitch'', na_average_pitch style),
        (''pitch_range'', na_pitch_range style), (''stress'', na_stress style),
        (''richness'', na_richness style), (''volume'', na_volume style)]"

definition validate_effects ::
    "post_synthesis_style \<Rightarrow> nat \<Rightarrow> presentation_timeline_error + unit" where
  "validate_effects style span_id =
     validate_named (lit ''speech span '' @ show_nat span_id @ lit '' effect '')
       [(''gain'', ps_gain style), (''low_pass'', ps_low_pass style),
        (''high_pass'', ps_high_pass style), (''pan'', ps_pan style),
        (''chorus'', ps_chorus style), (''reverb'', ps_reverb style), (''echo'', ps_echo style)]"

definition validate_legacy_span_style ::
    "presentation_speech_span \<Rightarrow> presentation_timeline_error + unit" where
  "validate_legacy_span_style s =
     and_then (validate_acss (sp_acss s) (sp_id s)) (\<lambda>_.
     and_then
       (case sp_rate_offset s of
          None \<Rightarrow> Inr ()
        | Some offset \<Rightarrow>
            and_then
              (invalid_if
                 (\<not> (min_rate_offset_points \<le> offset \<and> offset \<le> max_rate_offset_points))
                 (lit ''speech span '' @ show_nat (sp_id s) @
                  lit '' rate offset must be between -20 and 20 points'')) (\<lambda>_.
            invalid_if (na_rate (sp_acss s) \<noteq> None)
              (lit ''speech span '' @ show_nat (sp_id s) @
               lit '' cannot combine absolute rate and rate offset''))) (\<lambda>_.
     case sp_effects s of
       ReplaceState state_id style \<Rightarrow>
         and_then (validate_id state_id ''effect state'') (\<lambda>_. validate_effects style (sp_id s))
     | _ \<Rightarrow> Inr ()))"

definition validate_action ::
    "presentation_timeline_action \<Rightarrow> presentation_timeline_error + unit" where
  "validate_action a =
     (case pa_action a of
        AudioAction path mode volume pan bus \<Rightarrow>
          and_then (invalid_if (path = []) (lit ''audio action '' @ pa_id a @ lit '' has an empty path''))
            (\<lambda>_.
          and_then
            (invalid_if (max_timeline_resource_path_bytes < str_len path)
               (lit ''audio action '' @ pa_id a @ lit '' path is too long'')) (\<lambda>_.
          and_then (validate_normalized volume (lit ''audio action '' @ pa_id a @ lit '' volume''))
            (\<lambda>_. validate_normalized pan (lit ''audio action '' @ pa_id a @ lit '' pan''))))
      | ToneAction frequency duration mode volume pan bus \<Rightarrow>
          and_then
            (invalid_if
               (\<not> is_finite frequency \<or> f32_le frequency (F32_Fin 0) \<or>
                f32_lt (F32_Fin max_timeline_tone_frequency_hz) frequency)
               (lit ''tone action '' @ pa_id a @ lit '' has an invalid frequency'')) (\<lambda>_.
          and_then
            (invalid_if (duration = 0 \<or> max_timeline_tone_duration_ms < duration)
               (lit ''tone action '' @ pa_id a @ lit '' has an invalid duration'')) (\<lambda>_.
          and_then (validate_normalized volume (lit ''tone action '' @ pa_id a @ lit '' volume''))
            (\<lambda>_. validate_normalized pan (lit ''tone action '' @ pa_id a @ lit '' pan''))))
      | SilenceAction duration \<Rightarrow>
          invalid_if (duration = 0 \<or> max_timeline_silence_duration_ms < duration)
            (lit ''silence action '' @ pa_id a @ lit '' has an invalid duration'')
      | SemanticEvent \<Rightarrow> Inr ())"

section \<open>Versions 1 to 3\<close>

record presentation_timeline_envelope =
  pe_protocol_version :: nat
  pe_generation :: nat
  pe_dispatch_id :: nat
  pe_delivery_policy :: "presentation_delivery_policy option"
  pe_replacement_key :: "rstr option"
  pe_spans :: "presentation_speech_span list"
  pe_actions :: "presentation_timeline_action list"

record presentation_timeline_identity =
  pi_generation :: nat
  pi_dispatch_id :: nat

definition new_identity :: "nat \<Rightarrow> nat \<Rightarrow> presentation_timeline_identity option" where
  "new_identity g d = (if d \<noteq> 0 then Some \<lparr>pi_generation = g, pi_dispatch_id = d\<rparr> else None)"

definition effective_delivery_policy ::
    "presentation_timeline_envelope \<Rightarrow> presentation_delivery_policy" where
  "effective_delivery_policy t =
     (case pe_delivery_policy t of None \<Rightarrow> Replaceable | Some p \<Rightarrow> p)"

definition envelope_shares_domain ::
    "presentation_timeline_envelope \<Rightarrow> presentation_timeline_envelope \<Rightarrow> bool" where
  "envelope_shares_domain a b =
     (if effective_delivery_policy a \<noteq> Replaceable \<or> effective_delivery_policy b \<noteq> Replaceable
      then False
      else if pe_protocol_version a = 1 \<and> pe_protocol_version b = 1 then True
      else if pe_protocol_version a = 2 \<and> pe_protocol_version b = 2 \<or>
              pe_protocol_version a = 3 \<and> pe_protocol_version b = 3
      then pe_replacement_key a = pe_replacement_key b
      else False)"

definition envelope_identity ::
    "presentation_timeline_envelope \<Rightarrow> presentation_timeline_identity option" where
  "envelope_identity t =
     (if pe_dispatch_id t \<noteq> 0
      then Some \<lparr>pi_generation = pe_generation t, pi_dispatch_id = pe_dispatch_id t\<rparr> else None)"

definition validate_delivery ::
    "presentation_timeline_envelope \<Rightarrow> presentation_timeline_error + unit" where
  "validate_delivery t =
     (if pe_protocol_version t = 1
      then invalid_if (pe_delivery_policy t \<noteq> None \<or> pe_replacement_key t \<noteq> None)
             (lit ''version 1 timelines cannot contain policy-bearing delivery fields'')
      else if pe_protocol_version t = 2 \<or> pe_protocol_version t = 3
      then (case pe_delivery_policy t of
              None \<Rightarrow> Inl (InvalidTimeline
                (lit ''version '' @ show_nat (pe_protocol_version t) @
                 lit '' timelines require a delivery policy''))
            | Some Replaceable \<Rightarrow>
                (case pe_replacement_key t of
                   None \<Rightarrow> Inl (InvalidTimeline
                     (lit ''replaceable timelines require a replacement key''))
                 | Some key \<Rightarrow> validate_id key ''replacement key'')
            | Some policy \<Rightarrow>
                invalid_if (pe_replacement_key t \<noteq> None)
                  (lit ''ordered and urgent timelines cannot contain a replacement key''))
      else Inl (InvalidTimeline
        (lit ''unsupported protocol version '' @ show_nat (pe_protocol_version t))))"

fun validate_spans ::
    "nat set \<Rightarrow> presentation_speech_span list \<Rightarrow> presentation_timeline_error + unit" where
  "validate_spans ids [] = Inr ()"
| "validate_spans ids (s # ss) =
     and_then (invalid_if (sp_id s = 0) (lit ''speech span ID must be positive'')) (\<lambda>_.
     and_then
       (invalid_if (sp_id s \<in> ids) (lit ''duplicate speech span ID '' @ show_nat (sp_id s))) (\<lambda>_.
     and_then
       (invalid_if (sp_text s = [])
          (lit ''speech span '' @ show_nat (sp_id s) @ lit '' is empty'')) (\<lambda>_.
     and_then
       (case sp_logical_voice_id s of
          None \<Rightarrow> Inr ()
        | Some v \<Rightarrow> validate_id v ''logical voice'') (\<lambda>_.
     and_then (validate_legacy_span_style s) (\<lambda>_.
     validate_spans (insert (sp_id s) ids) ss)))))"

text \<open>The source looks a span up in a hash map from the IDs to the spans.\<close>

fun validate_actions ::
    "(nat \<rightharpoonup> presentation_speech_span) \<Rightarrow> rstr set \<Rightarrow> presentation_timeline_action list \<Rightarrow>
     presentation_timeline_error + unit" where
  "validate_actions spans ids [] = Inr ()"
| "validate_actions spans ids (a # as) =
     and_then (validate_id (pa_id a) ''action'') (\<lambda>_.
     and_then
       (invalid_if (starts_with (pa_id a) (lit ''omnivox.''))
          (lit ''action IDs beginning with omnivox. are reserved'')) (\<lambda>_.
     and_then
       (invalid_if (pa_id a \<in> ids) (lit ''duplicate action ID '' @ pa_id a)) (\<lambda>_.
     and_then
       (ok_or (spans (position_span_id (pa_position a)))
          (InvalidTimeline
             (lit ''action '' @ pa_id a @ lit '' references an unknown speech span''))) (\<lambda>s.
     and_then
       (case pa_position a of
          TextOffset i offset aff \<Rightarrow>
            invalid_if (str_len (sp_text s) < offset \<or> \<not> is_char_boundary (sp_text s) offset)
              (lit ''action '' @ pa_id a @ lit '' has an invalid UTF-8 offset'')
        | _ \<Rightarrow> Inr ()) (\<lambda>_.
     and_then (validate_action a) (\<lambda>_.
     validate_actions spans (insert (pa_id a) ids) as))))))"

definition span_map :: "presentation_speech_span list \<Rightarrow> nat \<rightharpoonup> presentation_speech_span" where
  "span_map spans = map_of (rev (map (\<lambda>s. (sp_id s, s)) spans))"

definition validate_presentation_timeline ::
    "presentation_timeline_envelope \<Rightarrow> presentation_timeline_error + unit" where
  "validate_presentation_timeline t =
     (let span_limit = (if pe_protocol_version t = 3 then max_timeline_aggregate_spans
                        else max_timeline_spans);
          action_limit = (if pe_protocol_version t = 3 then max_timeline_aggregate_actions
                          else max_timeline_actions)
      in and_then (validate_delivery t) (\<lambda>_.
         and_then (invalid_if (pe_generation t = 0) (lit ''generation must be positive'')) (\<lambda>_.
         and_then (invalid_if (pe_dispatch_id t = 0) (lit ''dispatch ID must be positive'')) (\<lambda>_.
         and_then
           (invalid_if (pe_spans t = []) (lit ''at least one speech span is required'')) (\<lambda>_.
         and_then
           (invalid_if (span_limit < length (pe_spans t))
              (lit ''more than '' @ show_nat span_limit @ lit '' speech spans'')) (\<lambda>_.
         and_then
           (invalid_if (action_limit < length (pe_actions t))
              (lit ''more than '' @ show_nat action_limit @ lit '' actions'')) (\<lambda>_.
         and_then (validate_spans {} (pe_spans t)) (\<lambda>_.
         validate_actions (span_map (pe_spans t)) {} (pe_actions t)))))))))"

section \<open>Versions 4 and 5\<close>

text \<open>\<open>VoicePlacement\<close> of \<open>voice_preview_v2.rs\<close> is its one field, the optional pan.\<close>

definition validate_placement :: "f32 option \<Rightarrow> string + unit" where
  "validate_placement placement =
     (case placement of
        Some pan \<Rightarrow>
          if \<not> is_finite pan \<or> \<not> f32_unit pan
          then Inl ''placement pan must be null or finite in [0, 1]'' else Inr ()
      | None \<Rightarrow> Inr ())"

record layered_speech_span =
  ls_id :: nat
  ls_text :: rstr
  ls_logical_voice_id :: rstr
  ls_context :: voice_style_patch
  ls_placement :: "f32 option"

datatype mixed_speech_span =
  MixedLegacy presentation_speech_span
| MixedLayered layered_speech_span
| MixedEngineLayered layered_speech_span

fun mixed_id :: "mixed_speech_span \<Rightarrow> nat" where
  "mixed_id (MixedLegacy s) = sp_id s"
| "mixed_id (MixedLayered s) = ls_id s"
| "mixed_id (MixedEngineLayered s) = ls_id s"

fun mixed_text :: "mixed_speech_span \<Rightarrow> rstr" where
  "mixed_text (MixedLegacy s) = sp_text s"
| "mixed_text (MixedLayered s) = ls_text s"
| "mixed_text (MixedEngineLayered s) = ls_text s"

text \<open>
  The documents of versions 4, 5 and 6 have the same fields; they differ in the type of their
  spans and actions.
\<close>

record ('s, 'a) timeline_body =
  tb_protocol_version :: nat
  tb_generation :: nat
  tb_dispatch_id :: nat
  tb_registry_generation :: nat
  tb_delivery_policy :: presentation_delivery_policy
  tb_replacement_key :: "rstr option"
  tb_spans :: "'s list"
  tb_actions :: "'a list"

type_synonym presentation_timeline_v4 =
  "(mixed_speech_span, presentation_timeline_action) timeline_body"

definition body_identity :: "('s, 'a) timeline_body \<Rightarrow> presentation_timeline_identity option" where
  "body_identity t = new_identity (tb_generation t) (tb_dispatch_id t)"

definition body_shares_domain ::
    "('s, 'a) timeline_body \<Rightarrow> ('s, 'a) timeline_body \<Rightarrow> bool" where
  "body_shares_domain a b \<longleftrightarrow>
     tb_protocol_version a = tb_protocol_version b \<and>
     tb_delivery_policy a = Replaceable \<and> tb_delivery_policy b = Replaceable \<and>
     tb_replacement_key a = tb_replacement_key b"

definition mixed_logical_voice_id :: "mixed_speech_span \<Rightarrow> rstr option" where
  "mixed_logical_voice_id s =
     (case s of MixedLegacy l \<Rightarrow> sp_logical_voice_id l
      | MixedLayered l \<Rightarrow> Some (ls_logical_voice_id l)
      | MixedEngineLayered l \<Rightarrow> Some (ls_logical_voice_id l))"

definition layered_ids :: "'n logical_voice_registry \<Rightarrow> rstr set" where
  "layered_ids r =
     set (List.map_filter (\<lambda>d. case d of Layered v \<Rightarrow> Some (ld_id v) | _ \<Rightarrow> None)
            (lr_registered r))"

definition v4_validate_registry ::
    "presentation_timeline_v4 \<Rightarrow> 'n logical_voice_registry \<Rightarrow> presentation_timeline_error + unit"
    where
  "v4_validate_registry t r =
     and_then
       (require (tb_registry_generation t = lr_generation r)
          ''timeline registry generation is not current'') (\<lambda>_.
     check_each (\<lambda>s.
         and_then
           (require
              (\<not> (case mixed_logical_voice_id s of None \<Rightarrow> False | Some v \<Rightarrow> is_engine_layered r v))
              ''engine-layered definitions require timeline version 5'') (\<lambda>_.
         case s of
           MixedLayered l \<Rightarrow>
             require (ls_logical_voice_id l \<in> layered_ids r)
               ''layered span references a missing or legacy definition''
         | _ \<Rightarrow> Inr ()))
       (tb_spans t))"

fun registry_error_text :: "logical_voice_registry_error \<Rightarrow> rstr" where
  "registry_error_text (LvStaleGeneration current received) =
     lit ''logical voice generation '' @ show_nat received @
     lit '' is older than current generation '' @ show_nat current"
| "registry_error_text (LvGenerationConflict g) =
     lit ''logical voice generation '' @ show_nat g @ lit '' was reused with different content''"
| "registry_error_text (TooManyDefinitions c l) =
     lit ''too many logical voices: '' @ show_nat c @ lit ''; limit is '' @ show_nat l"
| "registry_error_text (InvalidLogicalVoiceId i) = lit ''invalid logical voice ID: '' @ i"
| "registry_error_text (DuplicateLogicalVoiceId i) = lit ''duplicate logical voice ID: '' @ i"
| "registry_error_text (TooManyPreferences i c l) =
     lit ''logical voice '' @ i @ lit '' has '' @ show_nat c @ lit '' preferences; limit is '' @
     show_nat l"
| "registry_error_text (LvInvalidEngineId i) =
     lit ''logical voice '' @ i @ lit '' contains an invalid engine ID''"
| "registry_error_text (InvalidPhysicalVoiceId i) =
     lit ''logical voice '' @ i @ lit '' contains an invalid physical voice ID''"
| "registry_error_text (InvalidLanguage i) =
     lit ''logical voice '' @ i @ lit '' contains an invalid language tag''"
| "registry_error_text InvalidFallbackEngineId =
     lit ''fallback policy contains an invalid engine ID''"

fun choice_error_text :: "choice_tuning_error \<Rightarrow> rstr" where
  "choice_error_text (Invalid m) = lit ''invalid per-choice tuning: '' @ lit m"
| "choice_error_text (Registry e) = registry_error_text e"

definition validate_layered_span :: "layered_speech_span \<Rightarrow> presentation_timeline_error + unit"
    where
  "validate_layered_span s =
     and_then (validate_id (ls_logical_voice_id s) ''logical voice'') (\<lambda>_.
     and_then (map_err (\<lambda>e. InvalidTimeline (choice_error_text e)) (validate_patch (ls_context s)))
       (\<lambda>_. map_err (\<lambda>e. InvalidTimeline (lit e)) (validate_placement (ls_placement s))))"

text \<open>
  The loop over the spans inserts every ID with its text into a map and requires that the ID
  was not there; the map it ends with is what the loop over the actions looks spans up in.
\<close>

fun validate_mixed_spans ::
    "nat \<Rightarrow> (nat \<rightharpoonup> rstr) \<Rightarrow> mixed_speech_span list \<Rightarrow>
     presentation_timeline_error + (nat \<rightharpoonup> rstr)" where
  "validate_mixed_spans version spans [] = Inr spans"
| "validate_mixed_spans version spans (s # ss) =
     and_then (require (0 < mixed_id s) ''speech span ID must be positive'') (\<lambda>_.
     and_then (require (mixed_text s \<noteq> []) ''speech span text cannot be empty'') (\<lambda>_.
     and_then (require (spans (mixed_id s) = None) ''duplicate speech span ID'') (\<lambda>_.
     and_then
       (require ((case s of MixedEngineLayered _ \<Rightarrow> False | _ \<Rightarrow> True) \<or> version = 5)
          ''native span requires timeline version 5'') (\<lambda>_.
     and_then
       (case s of
          MixedLegacy l \<Rightarrow>
            and_then
              (case sp_logical_voice_id l of
                 None \<Rightarrow> Inr ()
               | Some v \<Rightarrow> validate_id v ''logical voice'') (\<lambda>_. validate_legacy_span_style l)
        | MixedLayered l \<Rightarrow> validate_layered_span l
        | MixedEngineLayered l \<Rightarrow> validate_layered_span l) (\<lambda>_.
     validate_mixed_spans version (spans(mixed_id s \<mapsto> mixed_text s)) ss)))))"

fun validate_mixed_actions ::
    "(nat \<rightharpoonup> rstr) \<Rightarrow> rstr set \<Rightarrow> presentation_timeline_action list \<Rightarrow>
     presentation_timeline_error + unit" where
  "validate_mixed_actions spans ids [] = Inr ()"
| "validate_mixed_actions spans ids (a # as) =
     and_then (validate_id (pa_id a) ''action'') (\<lambda>_.
     and_then
       (require (\<not> starts_with (pa_id a) (lit ''omnivox.''))
          ''action IDs beginning with omnivox. are reserved'') (\<lambda>_.
     and_then (require (pa_id a \<notin> ids) ''duplicate action ID'') (\<lambda>_.
     and_then
       (ok_or (spans (position_span_id (pa_position a)))
          (InvalidTimeline (lit ''action references an unknown speech span''))) (\<lambda>t.
     and_then
       (case pa_position a of
          TextOffset i offset aff \<Rightarrow>
            require (offset \<le> str_len t \<and> is_char_boundary t offset)
              ''action has an invalid UTF-8 offset''
        | _ \<Rightarrow> Inr ()) (\<lambda>_.
     and_then (validate_action a) (\<lambda>_.
     validate_mixed_actions spans (insert (pa_id a) ids) as))))))"

definition validate_version ::
    "presentation_timeline_v4 \<Rightarrow> bool \<Rightarrow> nat \<Rightarrow> presentation_timeline_error + unit" where
  "validate_version t aggregate version =
     and_then (require (tb_protocol_version t = version) ''unexpected timeline protocol version'')
       (\<lambda>_.
     and_then
       (require (0 < tb_generation t \<and> 0 < tb_dispatch_id t \<and> 0 < tb_registry_generation t)
          ''timeline and registry generations and dispatch ID must be positive'') (\<lambda>_.
     and_then
       (case tb_delivery_policy t of
          Replaceable \<Rightarrow>
            and_then
              (ok_or (tb_replacement_key t)
                 (InvalidTimeline (lit ''replaceable timeline requires a replacement key'')))
              (\<lambda>key. validate_id key ''replacement key'')
        | _ \<Rightarrow> require (tb_replacement_key t = None)
                ''ordered and urgent timelines forbid replacement keys'') (\<lambda>_.
     and_then
       (require
          (tb_spans t \<noteq> [] \<and>
           length (tb_spans t) \<le>
             (if aggregate then max_timeline_aggregate_spans else max_timeline_spans))
          ''timeline speech span count is outside its transport bound'') (\<lambda>_.
     and_then
       (require (length (tb_actions t) \<le> max_timeline_actions) ''timeline has too many actions'')
       (\<lambda>_.
     and_then (validate_mixed_spans version Map.empty (tb_spans t)) (\<lambda>spans.
     validate_mixed_actions spans {} (tb_actions t)))))))"

definition v4_validate :: "presentation_timeline_v4 \<Rightarrow> bool \<Rightarrow> presentation_timeline_error + unit"
    where
  "v4_validate t aggregate = validate_version t aggregate 4"

definition validate_native_execution ::
    "presentation_timeline_v4 \<Rightarrow> bool \<Rightarrow> presentation_timeline_error + unit" where
  "validate_native_execution t aggregate = validate_version t aggregate 5"

datatype native_speech_span =
  NativeLegacy presentation_speech_span
| NativeLayered layered_speech_span
| NativeEngineLayered layered_speech_span

fun native_text :: "native_speech_span \<Rightarrow> rstr" where
  "native_text (NativeLegacy s) = sp_text s"
| "native_text (NativeLayered s) = ls_text s"
| "native_text (NativeEngineLayered s) = ls_text s"

type_synonym presentation_timeline_v5 =
  "(native_speech_span, presentation_timeline_action) timeline_body"

fun execution_span :: "native_speech_span \<Rightarrow> mixed_speech_span" where
  "execution_span (NativeLegacy s) = MixedLegacy s"
| "execution_span (NativeLayered s) = MixedLayered s"
| "execution_span (NativeEngineLayered s) = MixedEngineLayered s"

definition into_execution :: "presentation_timeline_v5 \<Rightarrow> presentation_timeline_v4" where
  "into_execution t =
     \<lparr>tb_protocol_version = tb_protocol_version t, tb_generation = tb_generation t,
      tb_dispatch_id = tb_dispatch_id t, tb_registry_generation = tb_registry_generation t,
      tb_delivery_policy = tb_delivery_policy t, tb_replacement_key = tb_replacement_key t,
      tb_spans = map execution_span (tb_spans t), tb_actions = tb_actions t\<rparr>"

definition v5_validate :: "presentation_timeline_v5 \<Rightarrow> bool \<Rightarrow> presentation_timeline_error + unit"
    where
  "v5_validate t aggregate = validate_native_execution (into_execution t) aggregate"

fun registered_id :: "'n registered_voice_definition \<Rightarrow> rstr" where
  "registered_id (Legacy d) = lv_id d"
| "registered_id (Layered d) = ld_id d"
| "registered_id (EngineLayered d) = el_id d"

definition native_logical_voice_id :: "native_speech_span \<Rightarrow> rstr option" where
  "native_logical_voice_id s =
     (case s of NativeLegacy l \<Rightarrow> sp_logical_voice_id l
      | NativeLayered l \<Rightarrow> Some (ls_logical_voice_id l)
      | NativeEngineLayered l \<Rightarrow> Some (ls_logical_voice_id l))"

fun modes_match :: "native_speech_span \<Rightarrow> 'n registered_voice_definition option \<Rightarrow> bool" where
  "modes_match (NativeLegacy _) (Some (Legacy _)) = True"
| "modes_match (NativeLayered _) (Some (Layered _)) = True"
| "modes_match (NativeEngineLayered _) (Some (EngineLayered _)) = True"
| "modes_match _ _ = False"

definition v5_validate_registry ::
    "presentation_timeline_v5 \<Rightarrow> 'n logical_voice_registry \<Rightarrow> presentation_timeline_error + unit"
    where
  "v5_validate_registry t r =
     (if tb_registry_generation t \<noteq> lr_generation r
      then Inl (InvalidTimeline (lit ''timeline registry generation is not current''))
      else check_each (\<lambda>s.
             case native_logical_voice_id s of
               None \<Rightarrow> Inr ()
             | Some v \<Rightarrow>
                 if \<not> modes_match s (find (\<lambda>d. registered_id d = v) (lr_registered r))
                 then Inl (InvalidTimeline
                   (lit ''timeline span mode does not match its registered definition''))
                 else Inr ())
           (tb_spans t))"

section \<open>Versions 6 and 7\<close>

record rich_timeline_action =
  rta_action :: presentation_timeline_action
  rta_shape :: "tone_shape option"

type_synonym presentation_timeline_v6 = "(native_speech_span, rich_timeline_action) timeline_body"

definition validation_projection :: "presentation_timeline_v6 \<Rightarrow> presentation_timeline_v5" where
  "validation_projection t =
     \<lparr>tb_protocol_version = 5, tb_generation = tb_generation t,
      tb_dispatch_id = tb_dispatch_id t, tb_registry_generation = tb_registry_generation t,
      tb_delivery_policy = tb_delivery_policy t, tb_replacement_key = tb_replacement_key t,
      tb_spans = tb_spans t, tb_actions = map rta_action (tb_actions t)\<rparr>"

definition into_execution_parts ::
    "presentation_timeline_v6 \<Rightarrow> presentation_timeline_v5 \<times> (rstr \<rightharpoonup> tone_shape)" where
  "into_execution_parts t =
     (validation_projection t,
      map_of (rev (List.map_filter
        (\<lambda>a. map_option (\<lambda>shape. (pa_id (rta_action a), shape)) (rta_shape a)) (tb_actions t))))"

definition validate_shape ::
    "nat \<Rightarrow> rich_timeline_action \<Rightarrow> presentation_timeline_error + unit" where
  "validate_shape version a =
     (if version = 6 \<and>
         (case rta_shape a of None \<Rightarrow> False | Some shape \<Rightarrow> requires_extended_contract shape)
      then Inl (InvalidTimeline (lit ''extended tone shape requires timeline version 7''))
      else case pa_action (rta_action a) of
             ToneAction frequency duration mode volume pan bus \<Rightarrow>
               map_err
                 (\<lambda>e. InvalidTimeline
                   (lit ''tone action '' @ pa_id (rta_action a) @ lit '': '' @ e))
                 (validate_tone
                   \<lparr>tp_frequency_hz = frequency, tp_duration_ms = duration, tp_volume = volume,
                    tp_shape = (case rta_shape a of None \<Rightarrow> default_shape | Some shape \<Rightarrow> shape)\<rparr>)
           | _ \<Rightarrow>
               if rta_shape a \<noteq> None
               then Inl (InvalidTimeline (lit ''shape applies only to tone actions'')) else Inr ())"

definition v6_validate :: "presentation_timeline_v6 \<Rightarrow> bool \<Rightarrow> presentation_timeline_error + unit"
    where
  "v6_validate t aggregate =
     (if tb_protocol_version t \<noteq> 6 \<and> tb_protocol_version t \<noteq> 7
      then Inl (InvalidTimeline (lit ''expected timeline version 6 or 7''))
      else and_then (v5_validate (validation_projection t) aggregate) (\<lambda>_.
        check_each (validate_shape (tb_protocol_version t)) (tb_actions t)))"

definition v6_validate_registry ::
    "presentation_timeline_v6 \<Rightarrow> 'n logical_voice_registry \<Rightarrow> presentation_timeline_error + unit"
    where
  "v6_validate_registry t r = v5_validate_registry (validation_projection t) r"

section \<open>Documents of any version\<close>

datatype timeline_document =
  LegacyDocument presentation_timeline_envelope
| LayeredDocument presentation_timeline_v4
| NativeDocument presentation_timeline_v5
| RichDocument presentation_timeline_v6

fun document_version :: "timeline_document \<Rightarrow> nat" where
  "document_version (LegacyDocument t) = pe_protocol_version t"
| "document_version (LayeredDocument t) = tb_protocol_version t"
| "document_version (NativeDocument t) = tb_protocol_version t"
| "document_version (RichDocument t) = tb_protocol_version t"

fun document_generation :: "timeline_document \<Rightarrow> nat" where
  "document_generation (LegacyDocument t) = pe_generation t"
| "document_generation (LayeredDocument t) = tb_generation t"
| "document_generation (NativeDocument t) = tb_generation t"
| "document_generation (RichDocument t) = tb_generation t"

fun document_dispatch_id :: "timeline_document \<Rightarrow> nat" where
  "document_dispatch_id (LegacyDocument t) = pe_dispatch_id t"
| "document_dispatch_id (LayeredDocument t) = tb_dispatch_id t"
| "document_dispatch_id (NativeDocument t) = tb_dispatch_id t"
| "document_dispatch_id (RichDocument t) = tb_dispatch_id t"

fun document_policy :: "timeline_document \<Rightarrow> presentation_delivery_policy" where
  "document_policy (LegacyDocument t) = effective_delivery_policy t"
| "document_policy (LayeredDocument t) = tb_delivery_policy t"
| "document_policy (NativeDocument t) = tb_delivery_policy t"
| "document_policy (RichDocument t) = tb_delivery_policy t"

fun document_key :: "timeline_document \<Rightarrow> rstr option" where
  "document_key (LegacyDocument t) = pe_replacement_key t"
| "document_key (LayeredDocument t) = tb_replacement_key t"
| "document_key (NativeDocument t) = tb_replacement_key t"
| "document_key (RichDocument t) = tb_replacement_key t"

fun document_identity :: "timeline_document \<Rightarrow> presentation_timeline_identity option" where
  "document_identity (LegacyDocument t) = envelope_identity t"
| "document_identity (LayeredDocument t) = body_identity t"
| "document_identity (NativeDocument t) = body_identity t"
| "document_identity (RichDocument t) = body_identity t"

definition nth_text :: "('s \<Rightarrow> rstr) \<Rightarrow> 's list \<Rightarrow> nat \<Rightarrow> rstr option" where
  "nth_text f spans index = (if index < length spans then Some (f (spans ! index)) else None)"

fun span_text :: "timeline_document \<Rightarrow> nat \<Rightarrow> rstr option" where
  "span_text (LegacyDocument t) index = nth_text sp_text (pe_spans t) index"
| "span_text (LayeredDocument t) index = nth_text mixed_text (tb_spans t) index"
| "span_text (NativeDocument t) index = nth_text native_text (tb_spans t) index"
| "span_text (RichDocument t) index = nth_text native_text (tb_spans t) index"

fun document_shares_domain :: "timeline_document \<Rightarrow> timeline_document \<Rightarrow> bool" where
  "document_shares_domain (LegacyDocument a) (LegacyDocument b) = envelope_shares_domain a b"
| "document_shares_domain (LayeredDocument a) (LayeredDocument b) = body_shares_domain a b"
| "document_shares_domain (NativeDocument a) (NativeDocument b) = body_shares_domain a b"
| "document_shares_domain (RichDocument a) (RichDocument b) = body_shares_domain a b"
| "document_shares_domain a b = False"

text \<open>\<open>ReplacementDomain\<close> of \<open>omnivox-cli/src/server.rs\<close>.\<close>

record replacement_domain =
  rd_protocol_version :: nat
  rd_replacement_key :: "rstr option"

definition domain_from_timeline :: "timeline_document \<Rightarrow> replacement_domain option" where
  "domain_from_timeline t =
     (if document_policy t = Replaceable
      then Some \<lparr>rd_protocol_version = document_version t, rd_replacement_key = document_key t\<rparr>
      else None)"

section \<open>Codecs\<close>

text \<open>
  The library functions behind the codecs: \<open>STANDARD.encode\<close> and \<open>decode\<close> of the Base64 crate,
  \<open>from_slice\<close> of the JSON crate at every type the sources read (\<open>DuplicateFreeJson\<close> only checks),
  and \<open>to_vec\<close> at every type they write. A failure carries the text the library displays.
\<close>

record timeline_codec =
  base64_encode :: "nat list \<Rightarrow> rstr"
  base64_decode :: "rstr \<Rightarrow> rstr + nat list"
  read_version :: "nat list \<Rightarrow> rstr + nat"
  read_duplicate_free :: "nat list \<Rightarrow> rstr + unit"
  read_envelope :: "nat list \<Rightarrow> rstr + presentation_timeline_envelope"
  read_v4 :: "nat list \<Rightarrow> rstr + presentation_timeline_v4"
  read_v5 :: "nat list \<Rightarrow> rstr + presentation_timeline_v5"
  read_v6 :: "nat list \<Rightarrow> rstr + presentation_timeline_v6"
  write_envelope :: "presentation_timeline_envelope \<Rightarrow> rstr + nat list"
  write_v4 :: "presentation_timeline_v4 \<Rightarrow> rstr + nat list"
  write_v5 :: "presentation_timeline_v5 \<Rightarrow> rstr + nat list"
  write_v6 :: "presentation_timeline_v6 \<Rightarrow> rstr + nat list"

record timeline_decode_error =
  de_identity :: "presentation_timeline_identity option"
  de_error :: presentation_timeline_error

definition decode_error ::
    "presentation_timeline_identity option \<Rightarrow> presentation_timeline_error \<Rightarrow> timeline_decode_error"
    where
  "decode_error i e = \<lparr>de_identity = i, de_error = e\<rparr>"

definition size_error :: "bool \<Rightarrow> presentation_timeline_error" where
  "size_error aggregate = (if aggregate then AggregatePayloadTooLarge else PayloadTooLarge)"

definition limit :: "bool \<Rightarrow> nat" where
  "limit aggregate =
     (if aggregate then max_timeline_aggregate_bytes else max_timeline_payload_bytes)"

definition unbrace_payload :: "rstr \<Rightarrow> rstr" where
  "unbrace_payload payload =
     (case strip_prefix [123] (trim payload) of
        None \<Rightarrow> trim payload
      | Some r \<Rightarrow> (case strip_suffix [125] r of None \<Rightarrow> trim payload | Some w \<Rightarrow> w))"

definition decoded_base64_length :: "rstr \<Rightarrow> presentation_timeline_error + nat" where
  "decoded_base64_length payload0 =
     (let payload = unbrace_payload payload0;
          padding = length (takeWhile (\<lambda>b. b = 61) (rev payload))
      in and_then
           (invalid_if (str_len payload mod 4 \<noteq> 0 \<or> 2 < padding)
              (lit ''multipart timeline has an invalid Base64 length''))
           (\<lambda>_. Inr (str_len payload div 4 * 3 - padding)))"

definition decode_presentation_timeline_document ::
    "timeline_codec \<Rightarrow> rstr \<Rightarrow> nat \<Rightarrow> nat \<Rightarrow> bool \<Rightarrow>
     presentation_timeline_error + presentation_timeline_envelope" where
  "decode_presentation_timeline_document c payload0 encoded_limit decoded_limit aggregate =
     (let payload = unbrace_payload payload0
      in if encoded_limit < str_len payload then Inl (size_error aggregate)
         else and_then (map_err InvalidBase64 (base64_decode c payload)) (\<lambda>json.
           if decoded_limit < length json then Inl (size_error aggregate)
           else map_err InvalidJson (read_envelope c json)))"

definition decode_presentation_timeline_with_limit ::
    "timeline_codec \<Rightarrow> rstr \<Rightarrow> nat \<Rightarrow> nat \<Rightarrow> bool \<Rightarrow>
     presentation_timeline_error + presentation_timeline_envelope" where
  "decode_presentation_timeline_with_limit c payload encoded_limit decoded_limit aggregate =
     and_then
       (decode_presentation_timeline_document c payload encoded_limit decoded_limit aggregate)
       (\<lambda>t. and_then (validate_presentation_timeline t) (\<lambda>_. Inr t))"

definition decode_presentation_timeline_with_identity ::
    "timeline_codec \<Rightarrow> rstr \<Rightarrow> nat \<Rightarrow> nat \<Rightarrow> bool \<Rightarrow>
     timeline_decode_error + presentation_timeline_envelope" where
  "decode_presentation_timeline_with_identity c payload encoded_limit decoded_limit aggregate =
     and_then
       (map_err (decode_error None)
         (decode_presentation_timeline_document c payload encoded_limit decoded_limit aggregate))
       (\<lambda>t. and_then
         (map_err (decode_error (envelope_identity t)) (validate_presentation_timeline t))
         (\<lambda>_. Inr t))"

definition decode_presentation_timeline ::
    "timeline_codec \<Rightarrow> rstr \<Rightarrow> timeline_decode_error + presentation_timeline_envelope" where
  "decode_presentation_timeline c payload =
     decode_presentation_timeline_with_identity c payload max_timeline_encoded_bytes
       max_timeline_payload_bytes False"

definition decode_multipart_presentation_timeline ::
    "timeline_codec \<Rightarrow> rstr \<Rightarrow> nat \<Rightarrow>
     presentation_timeline_error + presentation_timeline_envelope" where
  "decode_multipart_presentation_timeline c payload declared =
     (if max_timeline_aggregate_bytes < declared \<or>
         max_timeline_aggregate_encoded_bytes < str_len payload
      then Inl AggregatePayloadTooLarge
      else and_then
        (decode_presentation_timeline_with_limit c payload max_timeline_aggregate_encoded_bytes
           max_timeline_aggregate_bytes True) (\<lambda>t.
        and_then (decoded_base64_length payload) (\<lambda>actual.
        and_then
          (invalid_if (actual \<noteq> declared)
             (lit ''multipart timeline declared '' @ show_nat declared @
              lit '' decoded bytes but contained '' @ show_nat actual)) (\<lambda>_.
        and_then
          (invalid_if (pe_protocol_version t \<noteq> 3)
             (lit ''multipart transport requires a version 3 timeline'')) (\<lambda>_.
        Inr t)))))"

text \<open>
  The three later decoders differ in the reader, the validation and the text about a declared
  size that differs; \<open>decode_layers\<close> is what they share.
\<close>

definition decode_layers ::
    "timeline_codec \<Rightarrow> (nat list \<Rightarrow> rstr + 't) \<Rightarrow> ('t \<Rightarrow> bool \<Rightarrow> presentation_timeline_error + unit) \<Rightarrow>
     ('t \<Rightarrow> presentation_timeline_identity option) \<Rightarrow> string \<Rightarrow> rstr \<Rightarrow> nat option \<Rightarrow>
     timeline_decode_error + 't" where
  "decode_layers c reader validate identity mismatch payload0 declared =
     (let aggregate = declared \<noteq> None; payload = unbrace_payload payload0
      in and_then
        (map_err (decode_error None)
          (if (case declared of None \<Rightarrow> False | Some n \<Rightarrow> n = 0 \<or> limit aggregate < n)
           then Inl (size_error aggregate)
           else if div_ceil (limit aggregate) 3 * 4 < str_len payload
           then Inl (size_error aggregate)
           else and_then (map_err InvalidBase64 (base64_decode c payload)) (\<lambda>bytes.
             if limit aggregate < length bytes then Inl (size_error aggregate)
             else and_then
               (require (case declared of None \<Rightarrow> True | Some n \<Rightarrow> n = length bytes) mismatch)
               (\<lambda>_. and_then (map_err InvalidJson (read_duplicate_free c bytes)) (\<lambda>_.
             map_err InvalidJson (reader bytes))))))
        (\<lambda>t. and_then (map_err (decode_error (identity t)) (validate t aggregate)) (\<lambda>_. Inr t)))"

definition decode_timeline_v4 ::
    "timeline_codec \<Rightarrow> rstr \<Rightarrow> nat option \<Rightarrow> timeline_decode_error + presentation_timeline_v4" where
  "decode_timeline_v4 c =
     decode_layers c (read_v4 c) v4_validate body_identity
       ''multipart timeline decoded size differs from its declaration''"

definition decode_timeline_v5 ::
    "timeline_codec \<Rightarrow> rstr \<Rightarrow> nat option \<Rightarrow> timeline_decode_error + presentation_timeline_v5" where
  "decode_timeline_v5 c =
     decode_layers c (read_v5 c) v5_validate body_identity
       ''multipart decoded size differs from declaration''"

definition decode_timeline_v6 ::
    "timeline_codec \<Rightarrow> rstr \<Rightarrow> nat option \<Rightarrow> timeline_decode_error + presentation_timeline_v6" where
  "decode_timeline_v6 c =
     decode_layers c (read_v6 c) v6_validate body_identity
       ''multipart decoded size differs from declaration''"

text \<open>\<open>decode_timeline_document\<close> reads the version first and then decodes again.\<close>

definition document_version_of ::
    "timeline_codec \<Rightarrow> rstr \<Rightarrow> nat option \<Rightarrow> presentation_timeline_error + nat" where
  "document_version_of c payload0 declared =
     (let aggregate = declared \<noteq> None; payload = unbrace_payload payload0
      in if div_ceil (limit aggregate) 3 * 4 < str_len payload \<or>
            (case declared of None \<Rightarrow> False | Some n \<Rightarrow> limit aggregate < n)
         then Inl (size_error aggregate)
         else and_then (map_err InvalidBase64 (base64_decode c payload)) (\<lambda>bytes.
           if limit aggregate < length bytes then Inl (size_error aggregate)
           else map_err InvalidJson (read_version c bytes)))"

definition map_ok :: "('a \<Rightarrow> 'b) \<Rightarrow> 'e + 'a \<Rightarrow> 'e + 'b" where
  "map_ok f r = and_then r (\<lambda>x. Inr (f x))"

definition decode_timeline_document ::
    "timeline_codec \<Rightarrow> rstr \<Rightarrow> nat option \<Rightarrow> timeline_decode_error + timeline_document" where
  "decode_timeline_document c payload declared =
     and_then (map_err (decode_error None) (document_version_of c payload declared)) (\<lambda>version.
       if version = 6 \<or> version = 7 then map_ok RichDocument (decode_timeline_v6 c payload declared)
       else if version = 5 then map_ok NativeDocument (decode_timeline_v5 c payload declared)
       else if version = 4 then map_ok LayeredDocument (decode_timeline_v4 c payload declared)
       else case declared of
              Some bytes \<Rightarrow>
                map_err (decode_error None)
                  (map_ok LegacyDocument (decode_multipart_presentation_timeline c payload bytes))
            | None \<Rightarrow> map_ok LegacyDocument (decode_presentation_timeline c payload))"

definition encode_presentation_timeline ::
    "timeline_codec \<Rightarrow> presentation_timeline_envelope \<Rightarrow> presentation_timeline_error + rstr" where
  "encode_presentation_timeline c t =
     and_then (validate_presentation_timeline t) (\<lambda>_.
     and_then (map_err InvalidJson (write_envelope c t)) (\<lambda>json.
       if max_timeline_payload_bytes < length json then Inl PayloadTooLarge
       else Inr (base64_encode c json)))"

definition encode_multipart_presentation_timeline ::
    "timeline_codec \<Rightarrow> presentation_timeline_envelope \<Rightarrow> presentation_timeline_error + rstr" where
  "encode_multipart_presentation_timeline c t =
     and_then (validate_presentation_timeline t) (\<lambda>_.
     and_then
       (invalid_if (pe_protocol_version t \<noteq> 3)
          (lit ''multipart transport requires a version 3 timeline'')) (\<lambda>_.
     and_then (map_err InvalidJson (write_envelope c t)) (\<lambda>json.
       if max_timeline_aggregate_bytes < length json then Inl AggregatePayloadTooLarge
       else Inr (base64_encode c json))))"

definition encode_layers ::
    "timeline_codec \<Rightarrow> ('t \<Rightarrow> rstr + nat list) \<Rightarrow>
     ('t \<Rightarrow> bool \<Rightarrow> presentation_timeline_error + unit) \<Rightarrow> 't \<Rightarrow> bool \<Rightarrow>
     presentation_timeline_error + rstr" where
  "encode_layers c writer validate t aggregate =
     and_then (validate t aggregate) (\<lambda>_.
     and_then (map_err InvalidJson (writer t)) (\<lambda>bytes.
       if limit aggregate < length bytes then Inl (size_error aggregate)
       else Inr (base64_encode c bytes)))"

definition encode_timeline_v4 ::
    "timeline_codec \<Rightarrow> presentation_timeline_v4 \<Rightarrow> bool \<Rightarrow> presentation_timeline_error + rstr" where
  "encode_timeline_v4 c = encode_layers c (write_v4 c) v4_validate"

definition encode_timeline_v5 ::
    "timeline_codec \<Rightarrow> presentation_timeline_v5 \<Rightarrow> bool \<Rightarrow> presentation_timeline_error + rstr" where
  "encode_timeline_v5 c = encode_layers c (write_v5 c) v5_validate"

definition encode_timeline_v6 ::
    "timeline_codec \<Rightarrow> presentation_timeline_v6 \<Rightarrow> bool \<Rightarrow> presentation_timeline_error + rstr" where
  "encode_timeline_v6 c = encode_layers c (write_v6 c) v6_validate"

section \<open>What validation establishes\<close>

text \<open>The spans of a document as pairs of an ID and a text, and its actions.\<close>

fun document_spans :: "timeline_document \<Rightarrow> (nat \<times> rstr) list" where
  "document_spans (LegacyDocument t) = map (\<lambda>s. (sp_id s, sp_text s)) (pe_spans t)"
| "document_spans (LayeredDocument t) = map (\<lambda>s. (mixed_id s, mixed_text s)) (tb_spans t)"
| "document_spans (NativeDocument t) =
     map (\<lambda>s. (mixed_id (execution_span s), native_text s)) (tb_spans t)"
| "document_spans (RichDocument t) =
     map (\<lambda>s. (mixed_id (execution_span s), native_text s)) (tb_spans t)"

fun document_actions :: "timeline_document \<Rightarrow> presentation_timeline_action list" where
  "document_actions (LegacyDocument t) = pe_actions t"
| "document_actions (LayeredDocument t) = tb_actions t"
| "document_actions (NativeDocument t) = tb_actions t"
| "document_actions (RichDocument t) = map rta_action (tb_actions t)"

text \<open>An action sits at a span of the document, and a text offset between two characters.\<close>

definition anchored :: "(nat \<times> rstr) list \<Rightarrow> presentation_timeline_action \<Rightarrow> bool" where
  "anchored spans a \<longleftrightarrow>
     (case pa_position a of
        SpanBoundary i aff \<Rightarrow> \<exists>t. (i, t) \<in> set spans
      | TextOffset i n aff \<Rightarrow> \<exists>x y. (i, x @ y) \<in> set spans \<and> str_len x = n)"

definition audible_action :: "presentation_timeline_action \<Rightarrow> bool" where
  "audible_action a \<longleftrightarrow>
     (case pa_action a of
        AudioAction path mode volume pan bus \<Rightarrow> path \<noteq> [] \<and> f32_unit volume \<and> f32_unit pan
      | ToneAction frequency duration mode volume pan bus \<Rightarrow>
          f32_lt (F32_Fin 0) frequency \<and> f32_le frequency (F32_Fin max_timeline_tone_frequency_hz) \<and>
          0 < duration \<and> duration \<le> max_timeline_tone_duration_ms \<and> f32_unit volume \<and> f32_unit pan
      | SilenceAction duration \<Rightarrow> 0 < duration \<and> duration \<le> max_timeline_silence_duration_ms
      | SemanticEvent \<Rightarrow> True)"

definition structure_ok ::
    "(nat \<times> rstr) list \<Rightarrow> presentation_timeline_action list \<Rightarrow> bool" where
  "structure_ok spans actions \<longleftrightarrow>
     spans \<noteq> [] \<and> distinct (map fst spans) \<and> distinct (map pa_id actions) \<and>
     list_all (\<lambda>(i, t). 0 < i \<and> t \<noteq> []) spans \<and>
     list_all (\<lambda>a. anchored spans a \<and> audible_action a \<and>
                   \<not> starts_with (pa_id a) (lit ''omnivox.'')) actions"

named_theorems doc_simps "results of the validation steps"

lemma validate_normalized_Inr [doc_simps]:
  "validate_normalized v f = Inr u \<longleftrightarrow> is_finite v \<and> f32_unit v"
  by (auto simp: validate_normalized_def res_simps)

lemma validate_action_audible: "validate_action a = Inr () \<Longrightarrow> audible_action a"
proof (cases "pa_action a")
  case (ToneAction frequency duration mode volume pan bus)
  assume "validate_action a = Inr ()"
  with ToneAction show ?thesis
    by (cases frequency) (auto simp: validate_action_def audible_action_def res_simps doc_simps)
qed (auto simp: validate_action_def audible_action_def res_simps doc_simps)

lemma validate_spans_ids:
  "validate_spans ids ss = Inr () \<Longrightarrow>
   distinct (map sp_id ss) \<and> sp_id ` set ss \<inter> ids = {} \<and>
   list_all (\<lambda>s. 0 < sp_id s \<and> sp_text s \<noteq> []) ss"
proof (induction ss arbitrary: ids)
  case (Cons s ss)
  from Cons.prems have v: "sp_id s \<noteq> 0" "sp_id s \<notin> ids" "sp_text s \<noteq> []"
    "validate_spans (insert (sp_id s) ids) ss = Inr ()"
    by (auto simp: res_simps)
  from Cons.IH [OF v(4)] v(1-3) show ?case by auto
qed simp

lemma validate_mixed_spans_ids:
  "validate_mixed_spans version m ss = Inr m' \<Longrightarrow>
   distinct (map mixed_id ss) \<and> mixed_id ` set ss \<inter> dom m = {} \<and>
   list_all (\<lambda>s. 0 < mixed_id s \<and> mixed_text s \<noteq> []) ss \<and>
   (\<forall>i. m' i = (case m i of
      None \<Rightarrow> map_of (map (\<lambda>s. (mixed_id s, mixed_text s)) ss) i | Some t \<Rightarrow> Some t))"
proof (induction ss arbitrary: m)
  case Nil
  then show ?case by (auto split: option.splits)
next
  case (Cons s ss)
  from Cons.prems have v: "0 < mixed_id s" "m (mixed_id s) = None" "mixed_text s \<noteq> []"
    "validate_mixed_spans version (m(mixed_id s \<mapsto> mixed_text s)) ss = Inr m'"
    by (auto simp: res_simps)
  from Cons.IH [OF v(4)] v(1-3) show ?case by (auto split: option.splits if_splits)
qed

text \<open>Both loops over the actions establish this of a map from the IDs to the texts.\<close>

definition action_checked :: "(nat \<rightharpoonup> rstr) \<Rightarrow> presentation_timeline_action \<Rightarrow> bool" where
  "action_checked texts a \<longleftrightarrow>
     (\<exists>t. texts (position_span_id (pa_position a)) = Some t \<and>
          (\<forall>i n aff. pa_position a = TextOffset i n aff \<longrightarrow> is_char_boundary t n)) \<and>
     audible_action a \<and> \<not> starts_with (pa_id a) (lit ''omnivox.'')"

lemma validate_actions_ids:
  "validate_actions m ids acts = Inr () \<Longrightarrow>
   distinct (map pa_id acts) \<and> pa_id ` set acts \<inter> ids = {} \<and>
   list_all (action_checked (map_option sp_text \<circ> m)) acts"
proof (induction acts arbitrary: ids)
  case (Cons a acts)
  from Cons.prems obtain s where v: "\<not> starts_with (pa_id a) (lit ''omnivox.'')" "pa_id a \<notin> ids"
    "m (position_span_id (pa_position a)) = Some s"
    "\<forall>i n aff. pa_position a = TextOffset i n aff \<longrightarrow> is_char_boundary (sp_text s) n"
    "audible_action a" "validate_actions m (insert (pa_id a) ids) acts = Inr ()"
    by (cases "pa_position a") (auto simp: res_simps validate_action_audible)
  from Cons.IH [OF v(6)] v(1-5) show ?case by (auto simp: action_checked_def)
qed simp

lemma validate_mixed_actions_ids:
  "validate_mixed_actions m ids acts = Inr () \<Longrightarrow>
   distinct (map pa_id acts) \<and> pa_id ` set acts \<inter> ids = {} \<and> list_all (action_checked m) acts"
proof (induction acts arbitrary: ids)
  case (Cons a acts)
  from Cons.prems obtain t where v: "\<not> starts_with (pa_id a) (lit ''omnivox.'')" "pa_id a \<notin> ids"
    "m (position_span_id (pa_position a)) = Some t"
    "\<forall>i n aff. pa_position a = TextOffset i n aff \<longrightarrow> is_char_boundary t n"
    "audible_action a" "validate_mixed_actions m (insert (pa_id a) ids) acts = Inr ()"
    by (cases "pa_position a") (auto simp: res_simps validate_action_audible)
  from Cons.IH [OF v(6)] v(1-5) show ?case by (auto simp: action_checked_def)
qed simp

lemma checked_anchored:
  assumes "action_checked m a" and "\<And>i t. m i = Some t \<Longrightarrow> (i, t) \<in> set spans"
  shows "anchored spans a \<and> audible_action a \<and> \<not> starts_with (pa_id a) (lit ''omnivox.'')"
proof (cases "pa_position a")
  case (TextOffset i n aff)
  with assms(1) obtain t where t: "m i = Some t" "is_char_boundary t n"
    by (auto simp: action_checked_def)
  then obtain x y where "t = x @ y" "str_len x = n" by (auto simp: is_char_boundary_split)
  with t assms show ?thesis by (auto simp: action_checked_def anchored_def TextOffset)
qed (use assms in \<open>auto simp: action_checked_def anchored_def\<close>)

lemma checked_structure:
  assumes "list_all (action_checked m) acts" "distinct (map pa_id acts)"
    and "\<And>i t. m i = Some t \<Longrightarrow> (i, t) \<in> set spans" "spans \<noteq> []" "distinct (map fst spans)"
    and "list_all (\<lambda>(i, t). 0 < i \<and> t \<noteq> []) spans"
  shows "structure_ok spans acts"
  using assms checked_anchored [of m _ spans] by (auto simp: structure_ok_def list_all_iff)

lemma span_map_member: "span_map ss i = Some s \<Longrightarrow> s \<in> set ss \<and> sp_id s = i"
  by (auto simp: span_map_def dest!: map_of_SomeD)

lemma validated_envelope:
  assumes "validate_presentation_timeline t = Inr ()"
  shows "structure_ok (document_spans (LegacyDocument t)) (pe_actions t) \<and>
         0 < pe_generation t \<and> 0 < pe_dispatch_id t"
proof -
  from assms have v: "pe_spans t \<noteq> []" "validate_spans {} (pe_spans t) = Inr ()"
    "validate_actions (span_map (pe_spans t)) {} (pe_actions t) = Inr ()"
    "pe_generation t \<noteq> 0" "pe_dispatch_id t \<noteq> 0"
    by (auto simp: validate_presentation_timeline_def Let_def res_simps)
  have "structure_ok (document_spans (LegacyDocument t)) (pe_actions t)"
    using validate_spans_ids [OF v(2)] validate_actions_ids [OF v(3)] v(1)
    by (intro checked_structure [where m = "map_option sp_text \<circ> span_map (pe_spans t)"])
       (auto simp: comp_def list_all_iff dest!: span_map_member)
  with v(4,5) show ?thesis by simp
qed

lemma validated_version:
  assumes "validate_version t aggregate version = Inr ()"
  shows "structure_ok (document_spans (LayeredDocument t)) (tb_actions t) \<and>
         0 < tb_generation t \<and> 0 < tb_dispatch_id t"
proof -
  from assms obtain m where v: "tb_spans t \<noteq> []"
    "validate_mixed_spans version Map.empty (tb_spans t) = Inr m"
    "validate_mixed_actions m {} (tb_actions t) = Inr ()" "0 < tb_generation t" "0 < tb_dispatch_id t"
    by (auto simp: validate_version_def res_simps)
  have m: "m = map_of (document_spans (LayeredDocument t))"
    using validate_mixed_spans_ids [OF v(2)] by (intro ext) simp
  have "structure_ok (document_spans (LayeredDocument t)) (tb_actions t)"
    using validate_mixed_spans_ids [OF v(2)] validate_mixed_actions_ids [OF v(3)] v(1)
    by (intro checked_structure [where m = m])
       (auto simp: comp_def list_all_iff m dest!: map_of_SomeD)
  with v(4,5) show ?thesis by simp
qed

text \<open>The validation a decoder runs on a document of each version.\<close>

fun validate_document :: "timeline_document \<Rightarrow> bool \<Rightarrow> presentation_timeline_error + unit" where
  "validate_document (LegacyDocument t) aggregate = validate_presentation_timeline t"
| "validate_document (LayeredDocument t) aggregate = v4_validate t aggregate"
| "validate_document (NativeDocument t) aggregate = v5_validate t aggregate"
| "validate_document (RichDocument t) aggregate = v6_validate t aggregate"

lemma execution_text [simp]: "mixed_text (execution_span s) = native_text s"
  by (cases s) auto

lemma execution_spans:
  "document_spans (LayeredDocument (into_execution t)) = document_spans (NativeDocument t)"
  by (simp add: into_execution_def comp_def)

lemma validated_native:
  assumes "v5_validate t aggregate = Inr ()"
  shows "structure_ok (document_spans (NativeDocument t)) (tb_actions t) \<and>
         0 < tb_generation t \<and> 0 < tb_dispatch_id t"
  using validated_version [of "into_execution t" aggregate 5] assms execution_spans [of t]
  by (simp add: v5_validate_def validate_native_execution_def into_execution_def comp_def)

lemma validated_document:
  assumes "validate_document d aggregate = Inr ()"
  shows "structure_ok (document_spans d) (document_actions d) \<and>
         0 < document_generation d \<and> 0 < document_dispatch_id d"
proof (cases d)
  case (LegacyDocument t)
  with assms validated_envelope [of t] show ?thesis by simp
next
  case (LayeredDocument t)
  with assms validated_version [of t aggregate 4] show ?thesis by (simp add: v4_validate_def)
next
  case (NativeDocument t)
  with assms validated_native [of t aggregate] show ?thesis by simp
next
  case (RichDocument t)
  with assms have "v5_validate (validation_projection t) aggregate = Inr ()"
    by (auto simp: v6_validate_def res_simps split: if_splits)
  from validated_native [OF this] RichDocument show ?thesis
    by (simp add: validation_projection_def)
qed

lemma map_ok_Inr [res_simps]: "map_ok f r = Inr y \<longleftrightarrow> (\<exists>x. r = Inr x \<and> y = f x)"
  by (auto simp: map_ok_def res_simps)

lemma decode_layers_validates:
  "decode_layers c reader validate identity mismatch payload declared = Inr t \<Longrightarrow>
   validate t (declared \<noteq> None) = Inr ()"
  by (auto simp: decode_layers_def Let_def res_simps)

lemma decoded_document_validates:
  assumes "decode_timeline_document c payload declared = Inr d"
  shows "validate_document d (declared \<noteq> None) = Inr ()"
proof -
  from assms obtain version where v: "document_version_of c payload declared = Inr version"
    and "(if version = 6 \<or> version = 7 then map_ok RichDocument (decode_timeline_v6 c payload declared)
       else if version = 5 then map_ok NativeDocument (decode_timeline_v5 c payload declared)
       else if version = 4 then map_ok LayeredDocument (decode_timeline_v4 c payload declared)
       else case declared of
              Some bytes \<Rightarrow>
                map_err (decode_error None)
                  (map_ok LegacyDocument (decode_multipart_presentation_timeline c payload bytes))
            | None \<Rightarrow> map_ok LegacyDocument (decode_presentation_timeline c payload)) = Inr d"
    unfolding decode_timeline_document_def by (auto simp only: res_simps)
  then consider
      (rich) t where "d = RichDocument t" "decode_timeline_v6 c payload declared = Inr t"
    | (native) t where "d = NativeDocument t" "decode_timeline_v5 c payload declared = Inr t"
    | (layered) t where "d = LayeredDocument t" "decode_timeline_v4 c payload declared = Inr t"
    | (aggregate) t bytes where "d = LegacyDocument t"
        "decode_multipart_presentation_timeline c payload bytes = Inr t"
    | (legacy) t where "d = LegacyDocument t" "decode_presentation_timeline c payload = Inr t"
    by (auto simp: res_simps split: if_splits option.splits)
  then show ?thesis
  proof cases
    case rich
    then show ?thesis
      using decode_layers_validates unfolding decode_timeline_v6_def by fastforce
  next
    case native
    then show ?thesis
      using decode_layers_validates unfolding decode_timeline_v5_def by fastforce
  next
    case layered
    then show ?thesis
      using decode_layers_validates unfolding decode_timeline_v4_def by fastforce
  next
    case aggregate
    then show ?thesis
      by (auto simp: decode_multipart_presentation_timeline_def
        decode_presentation_timeline_with_limit_def res_simps split: if_splits)
  next
    case legacy
    then show ?thesis
      by (auto simp: decode_presentation_timeline_def
        decode_presentation_timeline_with_identity_def res_simps split: if_splits)
  qed
qed

section \<open>Replacement domains\<close>

lemma validated_delivery:
  assumes "validate_presentation_timeline t = Inr ()"
  shows "pe_protocol_version t \<in> {1, 2, 3}"
    and "pe_protocol_version t = 1 \<Longrightarrow> pe_delivery_policy t = None \<and> pe_replacement_key t = None"
proof -
  from assms have "validate_delivery t = Inr ()"
    by (auto simp: validate_presentation_timeline_def Let_def res_simps)
  then show "pe_protocol_version t \<in> {1, 2, 3}"
    "pe_protocol_version t = 1 \<Longrightarrow> pe_delivery_policy t = None \<and> pe_replacement_key t = None"
    by (auto simp: validate_delivery_def res_simps split: if_splits)
qed

lemma validated_version_number:
  assumes "validate_document d aggregate = Inr ()"
  shows "case d of LegacyDocument t \<Rightarrow> document_version d \<in> {1, 2, 3}
         | LayeredDocument t \<Rightarrow> document_version d = 4
         | NativeDocument t \<Rightarrow> document_version d = 5
         | RichDocument t \<Rightarrow> document_version d \<in> {6, 7}"
proof (cases d)
  case (LegacyDocument t)
  with assms validated_delivery(1) [of t] show ?thesis by simp
qed (use assms in \<open>auto simp: v4_validate_def v5_validate_def v6_validate_def
       validate_native_execution_def validate_version_def into_execution_def res_simps
       split: if_splits\<close>)

lemma shares_domain_iff:
  assumes a: "validate_document a agg = Inr ()" and b: "validate_document b agg' = Inr ()"
  shows "document_shares_domain a b \<longleftrightarrow>
           domain_from_timeline a = domain_from_timeline b \<and> domain_from_timeline a \<noteq> None"
proof (cases a; cases b)
  fix s t
  assume "a = LegacyDocument s" "b = LegacyDocument t"
  with validated_delivery [of s] validated_delivery [of t] a b show ?thesis
    by (auto simp: envelope_shares_domain_def domain_from_timeline_def effective_delivery_policy_def)
qed (use validated_version_number [OF a] validated_version_number [OF b] in
     \<open>auto simp: body_shares_domain_def domain_from_timeline_def\<close>)

section \<open>Lossless preparation of rich actions\<close>

lemma map_of_filtered:
  assumes "distinct (map k xs)" "x \<in> set xs"
  shows "map_of (rev (List.map_filter (\<lambda>a. map_option (Pair (k a)) (f a)) xs)) (k x) = f x"
proof -
  let ?l = "List.map_filter (\<lambda>a. map_option (Pair (k a)) (f a)) xs"
  have l: "?l = map (\<lambda>a. (k a, the (f a))) (filter (\<lambda>a. f a \<noteq> None) xs)"
    by (induction xs) (auto simp: List.map_filter_def)
  have d: "distinct (map fst (rev ?l))"
    using assms(1) by (simp add: l comp_def rev_map [symmetric] distinct_map_filter)
  have m: "(y, v) \<in> set ?l \<longleftrightarrow> (\<exists>a \<in> set xs. y = k a \<and> f a = Some v)" for y v
    by (induction xs) (auto simp: List.map_filter_def)
  have "(k x, v) \<in> set ?l \<longleftrightarrow> f x = Some v" for v
  proof -
    have "a = x" if "a \<in> set xs" "k x = k a" for a
      using assms that by (simp add: distinct_map inj_on_def)
    with assms(2) show ?thesis unfolding m by blast
  qed
  then have "map_of (rev ?l) (k x) = Some v \<longleftrightarrow> f x = Some v" for v
    using map_of_eq_Some_iff [OF d, of "k x" v] by simp
  then show ?thesis by (cases "f x") (auto simp: option.expand)
qed

lemma parts_lossless:
  assumes "v6_validate t aggregate = Inr ()" and p: "into_execution_parts t = (native, shapes)"
  shows "map (\<lambda>a. \<lparr>rta_action = a, rta_shape = shapes (pa_id a)\<rparr>) (tb_actions native) = tb_actions t \<and>
         v5_validate native aggregate = Inr ()"
proof -
  have "distinct (map pa_id (document_actions (RichDocument t)))"
    using validated_document [of "RichDocument t" aggregate] assms(1)
    by (simp add: structure_ok_def)
  then have d: "distinct (map (\<lambda>a. pa_id (rta_action a)) (tb_actions t))" by (simp add: comp_def)
  have s: "shapes = map_of (rev (List.map_filter
      (\<lambda>a. map_option (Pair (pa_id (rta_action a))) (rta_shape a)) (tb_actions t)))"
    using p by (simp add: into_execution_parts_def)
  have "\<lparr>rta_action = rta_action a, rta_shape = shapes (pa_id (rta_action a))\<rparr> = a"
    if "a \<in> set (tb_actions t)" for a
    using map_of_filtered [OF d that, of rta_shape] by (simp add: s)
  then have "map (\<lambda>a. \<lparr>rta_action = rta_action a, rta_shape = shapes (pa_id (rta_action a))\<rparr>)
      (tb_actions t) = tb_actions t"
    by (simp add: map_idI)
  then show ?thesis
    using assms by (auto simp: into_execution_parts_def validation_projection_def comp_def
      v6_validate_def res_simps split: if_splits)
qed

section \<open>Encoding and decoding\<close>

text \<open>
  What the round trip relies on in the two libraries, of one payload: Base64 encodes every three
  bytes as four characters of its alphabet, pads the last group with \<open>=\<close>, and is decoded again;
  JSON reads back what it wrote, at the type of the document.
\<close>

definition base64_char :: "rchar \<Rightarrow> bool" where
  "base64_char b \<longleftrightarrow> is_ascii_alphanumeric b \<or> b = 43 \<or> b = 47 \<or> b = 61"

definition base64_faithful :: "timeline_codec \<Rightarrow> nat list \<Rightarrow> bool" where
  "base64_faithful c bytes \<longleftrightarrow>
     (let w = base64_encode c bytes
      in base64_decode c w = Inr bytes \<and> list_all base64_char w \<and>
         length w = div_ceil (length bytes) 3 * 4 \<and>
         length (takeWhile (\<lambda>b. b = 61) (rev w)) = (3 - length bytes mod 3) mod 3)"

fun json_faithful :: "timeline_codec \<Rightarrow> timeline_document \<Rightarrow> nat list \<Rightarrow> bool" where
  "json_faithful c (LegacyDocument t) bytes \<longleftrightarrow>
     read_version c bytes = Inr (pe_protocol_version t) \<and>
     write_envelope c t = Inr bytes \<and> read_envelope c bytes = Inr t"
| "json_faithful c (LayeredDocument t) bytes \<longleftrightarrow>
     read_version c bytes = Inr (tb_protocol_version t) \<and> read_duplicate_free c bytes = Inr () \<and>
     write_v4 c t = Inr bytes \<and> read_v4 c bytes = Inr t"
| "json_faithful c (NativeDocument t) bytes \<longleftrightarrow>
     read_version c bytes = Inr (tb_protocol_version t) \<and> read_duplicate_free c bytes = Inr () \<and>
     write_v5 c t = Inr bytes \<and> read_v5 c bytes = Inr t"
| "json_faithful c (RichDocument t) bytes \<longleftrightarrow>
     read_version c bytes = Inr (tb_protocol_version t) \<and> read_duplicate_free c bytes = Inr () \<and>
     write_v6 c t = Inr bytes \<and> read_v6 c bytes = Inr t"

text \<open>The encoder of a document's version, for one frame or for multipart transport.\<close>

fun encode_document ::
    "timeline_codec \<Rightarrow> timeline_document \<Rightarrow> bool \<Rightarrow> presentation_timeline_error + rstr" where
  "encode_document c (LegacyDocument t) aggregate =
     (if aggregate then encode_multipart_presentation_timeline c t
      else encode_presentation_timeline c t)"
| "encode_document c (LayeredDocument t) aggregate = encode_timeline_v4 c t aggregate"
| "encode_document c (NativeDocument t) aggregate = encode_timeline_v5 c t aggregate"
| "encode_document c (RichDocument t) aggregate = encode_timeline_v6 c t aggregate"

lemma base64_char_ascii: "base64_char b \<Longrightarrow> b < 128 \<and> \<not> is_whitespace b \<and> b \<noteq> 123 \<and> b \<noteq> 125"
  by (auto simp: base64_char_def is_ascii_alphanumeric_def is_ascii_digit_def
      is_ascii_lowercase_def is_ascii_uppercase_def is_whitespace_def)

lemma base64_word:
  assumes "list_all base64_char w"
  shows "unbrace_payload w = w" "str_len w = length w"
proof -
  from assms have all: "\<forall>b \<in> set w. b < 128 \<and> \<not> is_whitespace b \<and> b \<noteq> 123"
    by (auto simp: list_all_iff dest: base64_char_ascii)
  then have "trim w = w" by (intro trim_id) (cases w; auto)
  moreover have "strip_prefix [123] w = None" using all by (cases w) auto
  ultimately show "unbrace_payload w = w" by (simp add: unbrace_payload_def)
  from all show "str_len w = length w" by (intro str_len_ascii) (auto simp: list_all_iff)
qed

lemma div_ceil_mono: "a \<le> b \<Longrightarrow> div_ceil a c \<le> div_ceil b c"
  by (simp add: div_ceil_def div_le_mono)

lemma base64_length_arith:
  "div_ceil n 3 * 4 div 4 * 3 - (3 - n mod 3) mod 3 = n" "(3 - n mod 3) mod 3 \<le> (2::nat)"
proof -
  define q r where "q = n div 3" and "r = n mod 3"
  then have n: "n = 3 * q + r" and "r < 3" by simp_all
  then consider "r = 0" | "r = 1" | "r = 2" by linarith
  then show "div_ceil n 3 * 4 div 4 * 3 - (3 - n mod 3) mod 3 = n"
  proof cases
    case 1
    with n show ?thesis by (simp add: div_ceil_def)
  next
    case 2
    have "(3 * q + 3) div 3 = q + 1" by simp
    with 2 n show ?thesis by (simp add: div_ceil_def)
  next
    case 3
    have "(3 * q + 4) div 3 = q + 1" by simp
    with 3 n have d: "div_ceil n 3 = q + 1" by (simp add: div_ceil_def)
    have m: "n mod 3 = 2" using 3 by (simp only: r_def)
    have "div_ceil n 3 * 4 div 4 * 3 - (3 - n mod 3) mod 3 = (q + 1) * 4 div 4 * 3 - (3 - 2) mod 3"
      by (simp only: d m)
    also have "\<dots> = 3 * q + 2" by simp
    also have "\<dots> = n" using n 3 by linarith
    finally show ?thesis .
  qed
  have "(3 - n mod 3) mod 3 < (3::nat)" by simp
  then show "(3 - n mod 3) mod 3 \<le> (2::nat)" by linarith
qed

lemma decoded_length_faithful:
  assumes "base64_faithful c bytes"
  shows "decoded_base64_length (base64_encode c bytes) = Inr (length bytes)"
proof -
  from assms have w: "list_all base64_char (base64_encode c bytes)"
    "length (base64_encode c bytes) = div_ceil (length bytes) 3 * 4"
    "length (takeWhile (\<lambda>b. b = 61) (rev (base64_encode c bytes))) = (3 - length bytes mod 3) mod 3"
    by (auto simp: base64_faithful_def Let_def)
  show ?thesis
    using base64_length_arith [of "length bytes"]
    by (simp add: decoded_base64_length_def Let_def base64_word [OF w(1)] w(2,3) res_simps not_less
        del: mult_2_right)
qed

lemma decode_layers_roundtrip:
  assumes b: "base64_faithful c bytes" and "reader bytes = Inr t" "read_duplicate_free c bytes = Inr ()"
    and "validate t (declared \<noteq> None) = Inr ()" "length bytes \<le> limit (declared \<noteq> None)"
    and "declared = None \<or> declared = Some (length bytes) \<and> bytes \<noteq> []"
  shows "decode_layers c reader validate identity mismatch (base64_encode c bytes) declared = Inr t"
proof -
  let ?w = "base64_encode c bytes"
  from b have w: "list_all base64_char ?w" "length ?w = div_ceil (length bytes) 3 * 4"
    "base64_decode c ?w = Inr bytes"
    by (auto simp: base64_faithful_def Let_def)
  have "length ?w \<le> div_ceil (limit (declared \<noteq> None)) 3 * 4"
    using div_ceil_mono [OF assms(5), of 3] w(2) by simp
  then show ?thesis
    using assms(2-6) base64_word [OF w(1)] w(3)
    by (auto simp: decode_layers_def Let_def require_def)
qed

lemma limit_encoded:
  "div_ceil (limit aggregate) 3 * 4 \<le>
   (if aggregate then max_timeline_aggregate_encoded_bytes else max_timeline_encoded_bytes)"
  by (simp add: limit_def max_timeline_aggregate_encoded_bytes_def max_timeline_aggregate_bytes_def
      max_timeline_encoded_bytes_def max_timeline_payload_bytes_def div_ceil_def)

lemma decode_envelope_roundtrip:
  assumes b: "base64_faithful c bytes" and "read_envelope c bytes = Inr t"
    and v: "validate_presentation_timeline t = Inr ()" and len: "length bytes \<le> limit aggregate"
  shows "decode_presentation_timeline_document c (base64_encode c bytes)
           (if aggregate then max_timeline_aggregate_encoded_bytes else max_timeline_encoded_bytes)
           (limit aggregate) aggregate = Inr t"
proof -
  let ?w = "base64_encode c bytes"
  from b have w: "list_all base64_char ?w" "length ?w = div_ceil (length bytes) 3 * 4"
    "base64_decode c ?w = Inr bytes"
    by (auto simp: base64_faithful_def Let_def)
  have "length ?w \<le> (if aggregate then max_timeline_aggregate_encoded_bytes else max_timeline_encoded_bytes)"
    using div_ceil_mono [OF len, of 3] limit_encoded [of aggregate] w(2) by linarith
  then show ?thesis
    using assms base64_word [OF w(1)] w(3)
    by (simp add: decode_presentation_timeline_document_def Let_def not_less)
qed

lemma document_version_faithful:
  assumes b: "base64_faithful c bytes" and "read_version c bytes = Inr v"
    and len: "length bytes \<le> limit (declared \<noteq> None)"
    and d: "declared = None \<or> declared = Some (length bytes)"
  shows "document_version_of c (base64_encode c bytes) declared = Inr v"
proof -
  let ?w = "base64_encode c bytes"
  from b have w: "list_all base64_char ?w" "length ?w = div_ceil (length bytes) 3 * 4"
    "base64_decode c ?w = Inr bytes"
    by (auto simp: base64_faithful_def Let_def)
  have "length ?w \<le> div_ceil (limit (declared \<noteq> None)) 3 * 4"
    using div_ceil_mono [OF len, of 3] w(2) by simp
  then show ?thesis
    using assms base64_word [OF w(1)] w(3)
    by (auto simp: document_version_of_def Let_def)
qed

lemma encode_layers_Inr:
  "encode_layers c writer validate t aggregate = Inr w \<Longrightarrow> writer t = Inr bytes \<Longrightarrow>
   validate t aggregate = Inr () \<and> length bytes \<le> limit aggregate \<and> w = base64_encode c bytes"
  by (auto simp: encode_layers_def res_simps split: if_splits)

lemma encode_document_Inr:
  assumes "encode_document c d aggregate = Inr w" "json_faithful c d bytes"
  shows "validate_document d aggregate = Inr () \<and> length bytes \<le> limit aggregate \<and>
         w = base64_encode c bytes \<and> read_version c bytes = Inr (document_version d)"
proof (cases d)
  case (LegacyDocument t)
  with assms show ?thesis
    by (auto simp: encode_multipart_presentation_timeline_def encode_presentation_timeline_def
        res_simps limit_def split: if_splits)
next
  case (LayeredDocument t)
  with assms encode_layers_Inr [of c "write_v4 c" v4_validate t aggregate w bytes] show ?thesis
    by (auto simp: encode_timeline_v4_def)
next
  case (NativeDocument t)
  with assms encode_layers_Inr [of c "write_v5 c" v5_validate t aggregate w bytes] show ?thesis
    by (auto simp: encode_timeline_v5_def)
next
  case (RichDocument t)
  with assms encode_layers_Inr [of c "write_v6 c" v6_validate t aggregate w bytes] show ?thesis
    by (auto simp: encode_timeline_v6_def)
qed

lemma multipart_roundtrip:
  assumes b: "base64_faithful c bytes" and "read_envelope c bytes = Inr t"
    and "validate_presentation_timeline t = Inr ()" and len: "length bytes \<le> limit True"
    and "pe_protocol_version t = 3"
  shows "decode_multipart_presentation_timeline c (base64_encode c bytes) (length bytes) = Inr t"
proof -
  let ?w = "base64_encode c bytes"
  from b have w: "list_all base64_char ?w" "length ?w = div_ceil (length bytes) 3 * 4"
    by (auto simp: base64_faithful_def Let_def)
  have "str_len ?w \<le> max_timeline_aggregate_encoded_bytes"
    using div_ceil_mono [OF len, of 3] limit_encoded [of True] base64_word(2) [OF w(1)] w(2)
    by simp
  moreover have "decode_presentation_timeline_document c ?w max_timeline_aggregate_encoded_bytes
      max_timeline_aggregate_bytes True = Inr t"
    using decode_envelope_roundtrip [OF assms(1-4)] by (simp add: limit_def)
  ultimately show ?thesis
    using assms decoded_length_faithful [OF b]
    by (simp add: decode_multipart_presentation_timeline_def
        decode_presentation_timeline_with_limit_def invalid_if_def limit_def)
qed

lemma document_roundtrip_lemma:
  assumes e: "encode_document c d aggregate = Inr w" and j: "json_faithful c d bytes"
    and b: "base64_faithful c bytes" and "bytes \<noteq> []"
  shows "decode_timeline_document c w (if aggregate then Some (length bytes) else None) = Inr d"
proof -
  let ?declared = "if aggregate then Some (length bytes) else None"
  note enc = encode_document_Inr [OF e j]
  have w: "w = base64_encode c bytes" and len: "length bytes \<le> limit (?declared \<noteq> None)"
    using enc by auto
  have v: "document_version_of c w ?declared = Inr (document_version d)"
    unfolding w using enc len by (intro document_version_faithful [OF b]) auto
  have dec: "decode_layers c reader validate identity mismatch w ?declared = Inr t"
    if "reader bytes = Inr t" "read_duplicate_free c bytes = Inr ()"
      "validate t aggregate = Inr ()" for reader validate identity mismatch and t :: 't
    unfolding w using that enc len assms(4) by (intro decode_layers_roundtrip [OF b]) auto
  show ?thesis
  proof (cases d)
    case (LegacyDocument t)
    from LegacyDocument enc j have t: "validate_presentation_timeline t = Inr ()"
      "read_envelope c bytes = Inr t" by auto
    have n: "pe_protocol_version t \<in> {1, 2, 3}" by (rule validated_delivery(1) [OF t(1)])
    show ?thesis
    proof (cases aggregate)
      case True
      with e LegacyDocument have "pe_protocol_version t = 3"
        by (auto simp: encode_multipart_presentation_timeline_def res_simps)
      with multipart_roundtrip [OF b t(2,1)] True v LegacyDocument len show ?thesis
        by (simp add: decode_timeline_document_def map_ok_def w)
    next
      case False
      from decode_envelope_roundtrip [OF b t(2,1), of False] False len
      have "decode_presentation_timeline c w = Inr t"
        by (simp add: decode_presentation_timeline_def decode_presentation_timeline_with_identity_def
            w limit_def t(1))
      with False v n LegacyDocument show ?thesis
        by (auto simp: decode_timeline_document_def map_ok_def)
    qed
  next
    case (LayeredDocument t)
    with validated_version_number [of d aggregate] enc j v dec [of "read_v4 c" t v4_validate]
    show ?thesis by (simp add: decode_timeline_document_def decode_timeline_v4_def map_ok_def)
  next
    case (NativeDocument t)
    with validated_version_number [of d aggregate] enc j v dec [of "read_v5 c" t v5_validate]
    show ?thesis by (simp add: decode_timeline_document_def decode_timeline_v5_def map_ok_def)
  next
    case (RichDocument t)
    with validated_version_number [of d aggregate] enc j v dec [of "read_v6 c" t v6_validate]
    show ?thesis
      by (simp add: decode_timeline_document_def decode_timeline_v6_def map_ok_def)
  qed
qed

section \<open>Properties\<close>

definition sample_span :: presentation_speech_span where
  "sample_span =
     \<lparr>sp_id = 1, sp_text = lit ''hello'', sp_logical_voice_id = None,
      sp_acss = \<lparr>na_rate = None, na_average_pitch = None, na_pitch_range = None, na_stress = None,
                 na_richness = None, na_volume = None\<rparr>,
      sp_rate_offset = None, sp_effects = Retain\<rparr>"

definition sample_tone :: rich_timeline_action where
  "sample_tone =
     \<lparr>rta_action =
        \<lparr>pa_id = lit ''beep'', pa_position = TextOffset 1 2 AffinityBefore,
         pa_lifecycle_anchor = RunAnchor,
         pa_action = ToneAction (F32_Fin 440) 50 ModeInsert (F32_Fin 1) (F32_Fin (1 / 2)) DryBus\<rparr>,
      rta_shape =
        Some \<lparr>ts_waveform = Sawtooth, ts_pulse_width = None, ts_end_frequency_hz = None,
              ts_envelope_curve = None, ts_envelope = None\<rparr>\<rparr>"

definition sample_rich :: presentation_timeline_v6 where
  "sample_rich =
     \<lparr>tb_protocol_version = 7, tb_generation = 1, tb_dispatch_id = 2, tb_registry_generation = 1,
      tb_delivery_policy = Replaceable, tb_replacement_key = Some (lit ''k''),
      tb_spans = [NativeLegacy sample_span], tb_actions = [sample_tone]\<rparr>"

text \<open>A codec that knows one document, whose bytes are three zeros.\<close>

definition sample_codec :: timeline_codec where
  "sample_codec =
     \<lparr>base64_encode = \<lambda>_. lit ''AAAA'', base64_decode = \<lambda>_. Inr [0, 0, 0],
      read_version = \<lambda>_. Inr 7, read_duplicate_free = \<lambda>_. Inr (),
      read_envelope = \<lambda>_. Inl [], read_v4 = \<lambda>_. Inl [], read_v5 = \<lambda>_. Inl [],
      read_v6 = \<lambda>_. Inr sample_rich,
      write_envelope = \<lambda>_. Inl [], write_v4 = \<lambda>_. Inl [], write_v5 = \<lambda>_. Inl [],
      write_v6 = \<lambda>_. Inr [0, 0, 0]\<rparr>"

lemma sample_valid: "v6_validate sample_rich aggregate = Inr ()"
  by (simp add: v6_validate_def sample_rich_def v5_validate_def validate_native_execution_def
      validate_version_def into_execution_def validation_projection_def require_def invalid_if_def
      validate_id_def validate_legacy_span_style_def validate_acss_def validate_named_def
      sample_span_def sample_tone_def validate_action_def validate_normalized_def
      validate_shape_def validate_tone_def default_shape_def text_eval
      max_protocol_id_bytes_def max_timeline_aggregate_spans_def max_timeline_spans_def
      max_timeline_parts_def max_timeline_actions_def max_timeline_tone_frequency_hz_def
      max_timeline_tone_duration_ms_def max_presentation_tone_duration_ms_def
      max_shaped_tone_frequency_hz_def starts_with_def utf8_len_def)

lemma sample_faithful: "base64_faithful sample_codec [0, 0, 0]"
  by (simp add: base64_faithful_def sample_codec_def text_eval div_ceil_def base64_char_def
      is_ascii_alphanumeric_def is_ascii_uppercase_def)

lemma sample_json: "json_faithful sample_codec (RichDocument sample_rich) [0, 0, 0]"
  by (simp add: sample_codec_def sample_rich_def)

lemma sample_encoded: "encode_document sample_codec (RichDocument sample_rich) False = Inr (lit ''AAAA'')"
  by (simp add: encode_timeline_v6_def encode_layers_def sample_valid)
     (simp add: sample_codec_def limit_def max_timeline_payload_bytes_def)

text \<open>
  C16: every document the decoder returns, of any version and over either transport, has spans
  with unique positive IDs and nonempty texts and actions with unique unreserved IDs; every action
  sits at one of its spans, a text offset between two characters of that span's text, and has
  audible parameters; the generation and the dispatch ID are positive.
\<close>

theorem decoded_document_sound:
  assumes "decode_timeline_document c payload declared = Inr d"
  shows "structure_ok (document_spans d) (document_actions d) \<and>
         0 < document_generation d \<and> 0 < document_dispatch_id d"
  by (rule validated_document [OF decoded_document_validates [OF assms]])

theorem decoded_document_sound_witness:
  "decode_timeline_document sample_codec (lit ''AAAA'') None = Inr (RichDocument sample_rich) \<and>
   structure_ok [(1, lit ''hello'')] [rta_action sample_tone]"
proof -
  have d: "decode_timeline_document sample_codec (lit ''AAAA'') None = Inr (RichDocument sample_rich)"
    using document_roundtrip_lemma [OF sample_encoded sample_json sample_faithful] by simp
  then show ?thesis
    using decoded_document_sound [OF d] by (simp add: sample_rich_def sample_span_def)
qed

text \<open>
  A document of any version that its encoder accepts is returned unchanged by the decoder
  that reads the version first, for one frame and, with its decoded size declared, for an
  aggregate.
\<close>

theorem document_roundtrip:
  assumes "encode_document c d aggregate = Inr w" "json_faithful c d bytes"
    and "base64_faithful c bytes" "bytes \<noteq> []"
  shows "decode_timeline_document c w (if aggregate then Some (length bytes) else None) = Inr d"
  by (rule document_roundtrip_lemma [OF assms])

text \<open>
  Splitting a valid version 6 or 7 document into the native document and a map of tone
  shapes loses nothing: the actions with the shapes looked up by ID are the original actions,
  and the native document is valid.
\<close>

theorem rich_parts_lossless:
  assumes "v6_validate t aggregate = Inr ()" "into_execution_parts t = (native, shapes)"
  shows "map (\<lambda>a. \<lparr>rta_action = a, rta_shape = shapes (pa_id a)\<rparr>) (tb_actions native) = tb_actions t \<and>
         v5_validate native aggregate = Inr ()"
  by (rule parts_lossless [OF assms])

text \<open>
  Two valid documents share a replacement domain, by the rules of their versions, exactly
  when both have a replacement domain and it is the same; coalescing in the reader and
  cancellation in the server therefore agree about what replaces what.
\<close>

theorem shares_domain_exact:
  assumes "validate_document a agg = Inr ()" "validate_document b agg' = Inr ()"
  shows "document_shares_domain a b \<longleftrightarrow>
           domain_from_timeline a = domain_from_timeline b \<and> domain_from_timeline a \<noteq> None"
  by (rule shares_domain_iff [OF assms])

end
