(* ===== verification/Speech_Text.thy ===== *)
theory Speech_Text
  imports Session_State Command_Line
begin

text \<open>
  Text preprocessing of the server (\<open>omnivox-cli/src/text.rs\<close>): splitting prepared speech into
  chunks of at most a number of words, punctuation expansion, camel-case splitting, the mapping
  of byte offsets through both, the inline codes of queue items, and resource paths. Slicing a
  string off a character boundary panics in Rust; here it is \<open>None\<close>. Upper and lower case are
  the Unicode properties of the standard library and stay parameters.
\<close>

section \<open>Slices\<close>

definition as_u32 :: "nat \<Rightarrow> nat" where
  "as_u32 n = n mod 4294967296"

lemma as_u32_id [simp]: "n \<le> u32_max \<Longrightarrow> as_u32 n = n"
  by (simp add: as_u32_def u32_max_def)

fun str_skip :: "nat \<Rightarrow> rstr \<Rightarrow> rstr option" where
  "str_skip n s =
     (if n = 0 then Some s
      else case s of [] \<Rightarrow> None
           | c # cs \<Rightarrow> if utf8_len c \<le> n then str_skip (n - utf8_len c) cs else None)"

declare str_skip.simps [simp del]

fun str_take :: "nat \<Rightarrow> rstr \<Rightarrow> rstr option" where
  "str_take n s =
     (if n = 0 then Some []
      else case s of [] \<Rightarrow> None
           | c # cs \<Rightarrow>
               if utf8_len c \<le> n then map_option ((#) c) (str_take (n - utf8_len c) cs) else None)"

declare str_take.simps [simp del]

text \<open>\<open>&s[a..b]\<close>.\<close>

definition slice :: "rstr \<Rightarrow> nat \<Rightarrow> nat \<Rightarrow> rstr option" where
  "slice s a b =
     (if a \<le> b then Option.bind (str_skip a s) (str_take (b - a)) else None)"

lemma str_skip_append [simp]: "str_skip (str_len p) (p @ r) = Some r"
  by (induction p) (simp_all add: str_skip.simps)

lemma str_take_append [simp]: "str_take (str_len w) (w @ r) = Some w"
  by (induction w) (simp_all add: str_take.simps)

lemma slice_append: "slice (p @ w @ r) (str_len p) (str_len p + str_len w) = Some w"
  by (simp add: slice_def)

section \<open>Words and chunk boundaries\<close>

record capitalization_tone =
  ct_id :: rstr
  ct_text_offset :: nat
  ct_frequency_hz :: f32
  ct_duration_ms :: nat

record prepared_speech_text =
  pst_text :: rstr
  pst_tones :: "capitalization_tone list"

record prepared_speech_chunk =
  pc_text :: rstr
  pc_tones :: "capitalization_tone list"
  pc_source_start :: nat
  pc_source_end :: nat

fun word_spans_from :: "nat \<Rightarrow> nat option \<Rightarrow> rstr \<Rightarrow> (nat \<times> nat) list" where
  "word_spans_from offset start [] = (case start of None \<Rightarrow> [] | Some s \<Rightarrow> [(s, offset)])"
| "word_spans_from offset start (c # cs) =
     (if is_whitespace c
      then (case start of None \<Rightarrow> [] | Some s \<Rightarrow> [(s, offset)]) @
           word_spans_from (offset + utf8_len c) None cs
      else word_spans_from (offset + utf8_len c)
             (case start of None \<Rightarrow> Some offset | Some s \<Rightarrow> Some s) cs)"

definition word_spans :: "rstr \<Rightarrow> (nat \<times> nat) list" where
  "word_spans text = word_spans_from 0 None text"

datatype chunk_boundary = Sentence | Clause

definition is_boundary_closer :: "rchar \<Rightarrow> bool" where
  "is_boundary_closer c \<longleftrightarrow> c \<in> {39, 34, 8217, 8221, 41, 93, 125}"

definition sentence_end :: "rchar \<Rightarrow> bool" where
  "sentence_end c \<longleftrightarrow> c \<in> {46, 33, 63, 8230, 12290, 65281, 65311}"

definition clause_end :: "rchar \<Rightarrow> bool" where
  "clause_end c \<longleftrightarrow> c \<in> {44, 59, 58, 8212, 8211}"

text \<open>The inner option is the source's result; the outer one is \<open>None\<close> for a panic.\<close>

definition boundary_after_word ::
    "rstr \<Rightarrow> (nat \<times> nat) list \<Rightarrow> nat \<Rightarrow> chunk_boundary option option" where
  "boundary_after_word text spans i =
     (if length spans \<le> i then None
      else let (start, finish) = spans ! i
           in Option.bind
                (if i + 1 < length spans
                 then map_option (list_ex (\<lambda>c. c = 13 \<or> c = 10))
                        (slice text finish (fst (spans ! (i + 1))))
                 else Some False) (\<lambda>newline.
              if newline then Some (Some Sentence)
              else map_option (\<lambda>word.
                     case dropWhile is_boundary_closer (rev word) of
                       [] \<Rightarrow> None
                     | d # _ \<Rightarrow>
                         if sentence_end d then Some Sentence
                         else if clause_end d then Some Clause else None)
                   (slice text start finish)))"

fun scan_boundaries ::
    "rstr \<Rightarrow> (nat \<times> nat) list \<Rightarrow> nat option \<Rightarrow> nat option \<Rightarrow> nat list \<Rightarrow>
     (nat option \<times> nat option) option" where
  "scan_boundaries text spans sentence clause [] = Some (sentence, clause)"
| "scan_boundaries text spans sentence clause (i # is) =
     Option.bind (boundary_after_word text spans i) (\<lambda>b.
       case b of
         Some Sentence \<Rightarrow> scan_boundaries text spans (Some (i + 1)) clause is
       | Some Clause \<Rightarrow> scan_boundaries text spans sentence (Some (i + 1)) is
       | None \<Rightarrow> scan_boundaries text spans sentence clause is)"

definition preferred_chunk_end ::
    "rstr \<Rightarrow> (nat \<times> nat) list \<Rightarrow> nat \<Rightarrow> nat \<Rightarrow> nat option" where
  "preferred_chunk_end text spans first_word hard_end =
     map_option (\<lambda>(sentence, clause).
         case sentence of Some e \<Rightarrow> e
         | None \<Rightarrow> (case clause of Some e \<Rightarrow> e | None \<Rightarrow> hard_end))
       (scan_boundaries text spans None None [first_word ..< hard_end])"

definition word_end_of :: "rstr \<Rightarrow> (nat \<times> nat) list \<Rightarrow> nat \<Rightarrow> nat \<Rightarrow> nat option" where
  "word_end_of text spans max_words first_word =
     (let hard_end = min (first_word + max_words) (length spans)
      in if hard_end = length spans then Some hard_end
         else preferred_chunk_end text spans first_word hard_end)"

definition chunk_of ::
    "prepared_speech_text \<Rightarrow> (nat \<times> nat) list \<Rightarrow> nat \<Rightarrow> nat \<Rightarrow> prepared_speech_chunk option" where
  "chunk_of prepared spans first_word word_end =
     (let start = fst (spans ! first_word); finish = snd (spans ! (word_end - 1))
      in map_option (\<lambda>text.
           \<lparr>pc_text = text,
            pc_tones =
              map (\<lambda>tone. tone\<lparr>ct_text_offset := ct_text_offset tone - as_u32 start\<rparr>)
                (filter (\<lambda>tone. start \<le> ct_text_offset tone \<and> ct_text_offset tone < finish)
                  (pst_tones prepared)),
            pc_source_start = as_u32 start, pc_source_end = as_u32 finish\<rparr>)
         (slice (pst_text prepared) start finish))"

definition end_within :: "nat \<Rightarrow> nat \<Rightarrow> nat option \<Rightarrow> bool" where
  "end_within a b x \<longleftrightarrow> (case x of None \<Rightarrow> True | Some e \<Rightarrow> a < e \<and> e \<le> b)"

lemma scan_boundaries_range:
  assumes "scan_boundaries text spans sentence clause js = Some (s, c)"
    and "end_within a b sentence" "end_within a b clause" "\<forall>i \<in> set js. a \<le> i \<and> i < b"
  shows "end_within a b s \<and> end_within a b c"
  using assms
proof (induction js arbitrary: sentence clause)
  case (Cons i js)
  from Cons.prems(1) obtain r where r: "boundary_after_word text spans i = Some r"
    by (auto simp: bind_eq_Some_conv)
  from Cons.prems(4) have i: "end_within a b (Some (i + 1))" "\<forall>i \<in> set js. a \<le> i \<and> i < b"
    by (simp_all add: end_within_def)
  show ?case
  proof (cases r)
    case None
    with Cons.prems(1) r have "scan_boundaries text spans sentence clause js = Some (s, c)" by simp
    then show ?thesis by (rule Cons.IH [OF _ Cons.prems(2,3) i(2)])
  next
    case (Some k)
    show ?thesis
    proof (cases k)
      case Sentence
      with Some Cons.prems(1) r have "scan_boundaries text spans (Some (i + 1)) clause js = Some (s, c)"
        by simp
      then show ?thesis by (rule Cons.IH [OF _ i(1) Cons.prems(3) i(2)])
    next
      case Clause
      with Some Cons.prems(1) r have "scan_boundaries text spans sentence (Some (i + 1)) js = Some (s, c)"
        by simp
      then show ?thesis by (rule Cons.IH [OF _ Cons.prems(2) i(1,2)])
    qed
  qed
qed auto

lemma preferred_chunk_end_range:
  assumes "preferred_chunk_end text spans first_word hard_end = Some e" "first_word < hard_end"
  shows "first_word < e \<and> e \<le> hard_end"
proof -
  from assms(1) obtain s c where
      b: "scan_boundaries text spans None None [first_word ..< hard_end] = Some (s, c)"
      and e: "(case s of Some e \<Rightarrow> e | None \<Rightarrow> (case c of Some e \<Rightarrow> e | None \<Rightarrow> hard_end)) = e"
    by (auto simp: preferred_chunk_end_def)
  have "end_within first_word hard_end s \<and> end_within first_word hard_end c"
    by (rule scan_boundaries_range [OF b]) (auto simp: end_within_def)
  with e assms(2) show ?thesis by (cases s; cases c) (auto simp: end_within_def)
qed

lemma word_end_of_range:
  assumes "word_end_of text spans max_words first_word = Some e" "0 < max_words"
    and "first_word < length spans"
  shows "first_word < e \<and> e \<le> length spans \<and> e \<le> first_word + max_words"
proof -
  let ?h = "min (first_word + max_words) (length spans)"
  from assms consider "e = ?h" | "preferred_chunk_end text spans first_word ?h = Some e"
    by (auto simp: word_end_of_def Let_def split: if_splits)
  then show ?thesis
    using assms(2,3) preferred_chunk_end_range [of "text" spans first_word ?h e] by cases auto
qed

text \<open>
  The loop over the words; \<open>max_words\<close> is positive where the source enters it, and the guard
  here only says so.
\<close>

function chunk_words ::
    "prepared_speech_text \<Rightarrow> (nat \<times> nat) list \<Rightarrow> nat \<Rightarrow> nat \<Rightarrow> prepared_speech_chunk list option"
    where
  "chunk_words prepared spans max_words first_word =
     (if max_words = 0 \<or> length spans \<le> first_word then Some []
      else case word_end_of (pst_text prepared) spans max_words first_word of
             None \<Rightarrow> None
           | Some word_end \<Rightarrow>
               (case chunk_of prepared spans first_word word_end of
                  None \<Rightarrow> None
                | Some chunk \<Rightarrow>
                    map_option ((#) chunk) (chunk_words prepared spans max_words word_end)))"
  by pat_completeness auto
termination
  by (relation "measure (\<lambda>(prepared, spans, max_words, first_word). length spans - first_word)")
     (auto dest!: word_end_of_range)

declare chunk_words.simps [simp del]

definition chunk_prepared_speech ::
    "prepared_speech_text \<Rightarrow> nat \<Rightarrow> prepared_speech_chunk list option" where
  "chunk_prepared_speech prepared max_words =
     (let spans = word_spans (pst_text prepared)
      in if length spans \<le> max_words \<or> max_words = 0
         then Some [\<lparr>pc_text = pst_text prepared, pc_tones = pst_tones prepared,
                     pc_source_start = 0, pc_source_end = as_u32 (str_len (pst_text prepared))\<rparr>]
         else chunk_words prepared spans max_words 0)"

section \<open>Chunks cover the text\<close>

text \<open>A text as words, each after a gap of whitespace, and a last gap.\<close>

abbreviation all_ws :: "rstr \<Rightarrow> bool" where "all_ws s \<equiv> list_all is_whitespace s"
abbreviation no_ws :: "rstr \<Rightarrow> bool" where "no_ws s \<equiv> list_all (\<lambda>c. \<not> is_whitespace c) s"

definition joined :: "(rstr \<times> rstr) list \<Rightarrow> rstr" where
  "joined ps = concat (map (\<lambda>(g, w). g @ w) ps)"

definition gapped :: "(rstr \<times> rstr) list \<Rightarrow> bool" where
  "gapped ps \<longleftrightarrow>
     list_all (\<lambda>(g, w). all_ws g \<and> w \<noteq> [] \<and> no_ws w) ps \<and>
     list_all (\<lambda>(g, w). g \<noteq> []) (tl ps)"

lemma joined_simps [simp]:
  "joined [] = []" "joined (p # ps) = fst p @ snd p @ joined ps" "joined (ps @ qs) = joined ps @ joined qs"
  by (auto simp: joined_def split: prod.splits)

lemma gapped_Cons:
  "gapped ((g, w) # ps) \<longleftrightarrow> all_ws g \<and> w \<noteq> [] \<and> no_ws w \<and> gapped ps \<and> (ps = [] \<or> fst (hd ps) \<noteq> [])"
  by (cases ps) (auto simp: gapped_def)

lemma decomposition: "\<exists>ps gl. s = joined ps @ gl \<and> gapped ps \<and> all_ws gl"
proof (induction "length s" arbitrary: s rule: less_induct)
  case less
  let ?g = "takeWhile is_whitespace s" and ?r = "dropWhile is_whitespace s"
  let ?w = "takeWhile (\<lambda>c. \<not> is_whitespace c) ?r" and ?q = "dropWhile (\<lambda>c. \<not> is_whitespace c) ?r"
  have g: "all_ws ?g" by (auto simp: list_all_iff dest: set_takeWhileD)
  show ?case
  proof (cases "?r = []")
    case True
    then have "s = joined [] @ ?g"
      using takeWhile_dropWhile_id [of is_whitespace s] by (metis append_Nil append_Nil2 joined_simps(1))
    moreover have "gapped []" by (simp add: gapped_def)
    ultimately show ?thesis using g by blast
  next
    case False
    then have hd: "\<not> is_whitespace (hd ?r)" by (rule hd_dropWhile)
    then have w: "?w \<noteq> []" "no_ws ?w"
      using False by (cases ?r; auto simp: list_all_iff dest: set_takeWhileD)+
    have s: "s = ?g @ ?w @ ?q" by simp
    then have "length ?q < length s" using w(1) by (metis length_append add_lessD1
      length_greater_0_conv less_add_same_cancel2 trans_less_add2)
    from less [OF this] obtain ps gl where q: "?q = joined ps @ gl" "gapped ps" "all_ws gl" by blast
    have "ps = [] \<or> fst (hd ps) \<noteq> []"
    proof (cases ps)
      case (Cons p qs)
      have "?q \<noteq> [] \<Longrightarrow> is_whitespace (hd ?q)" using hd_dropWhile by blast
      with Cons q show ?thesis
        by (cases p; cases "snd p") (auto simp: gapped_Cons)
    qed simp
    with q w g have "gapped ((?g, ?w) # ps)" by (simp add: gapped_Cons)
    moreover have "s = joined ((?g, ?w) # ps) @ gl" using s q(1) by simp
    ultimately show ?thesis using q(3) by blast
  qed
qed

lemma split_gap: "all_ws g \<Longrightarrow> split_ws_aux [] (g @ s) = split_ws_aux [] s"
  by (induction g) auto

lemma split_word:
  assumes "no_ws w" "w \<noteq> []" "s = [] \<or> is_whitespace (hd s)"
  shows "split_ws_aux [] (w @ s) = w # split_ws_aux [] s"
proof -
  have "split_ws_aux [] (w @ s) = split_ws_aux (rev w) s"
    using assms(1) split_ws_aux_word [of w "[]" s] by (simp add: list_all_iff)
  with assms(2,3) show ?thesis by (cases s) auto
qed

lemma rest_starts_ws:
  assumes "gapped ps" "all_ws gl" "ps = [] \<or> fst (hd ps) \<noteq> []"
  shows "joined ps @ gl = [] \<or> is_whitespace (hd (joined ps @ gl))"
proof (cases ps)
  case Nil
  with assms(2) show ?thesis by (cases gl) auto
next
  case (Cons p qs)
  with assms show ?thesis by (cases p; cases "fst p") (auto simp: gapped_Cons)
qed

lemma split_joined:
  assumes "gapped ps" "all_ws gl"
  shows "split_whitespace (joined ps @ gl) = map snd ps"
  using assms
proof (induction ps)
  case Nil
  then show ?case using split_gap [of gl "[]"] by (simp add: split_whitespace_def)
next
  case (Cons p ps)
  obtain g w where p: "p = (g, w)" by (cases p)
  from Cons.prems p have v: "all_ws g" "w \<noteq> []" "no_ws w" "gapped ps" "ps = [] \<or> fst (hd ps) \<noteq> []"
    by (auto simp: gapped_Cons)
  show ?case
    using Cons.IH [OF v(4) Cons.prems(2)] rest_starts_ws [OF v(4) Cons.prems(2) v(5)]
    by (simp add: split_whitespace_def p split_gap [OF v(1)] split_word [OF v(3,2)])
qed

lemma spans_gap: "all_ws g \<Longrightarrow> word_spans_from n None (g @ s) = word_spans_from (n + str_len g) None s"
  by (induction g arbitrary: n) (auto simp: add.assoc)

lemma spans_in_word:
  "no_ws w \<Longrightarrow> s = [] \<or> is_whitespace (hd s) \<Longrightarrow>
   word_spans_from n (Some a) (w @ s) = (a, n + str_len w) # word_spans_from (n + str_len w) None s"
proof (induction w arbitrary: n)
  case Nil
  then show ?case by (cases s) auto
qed (auto simp: add.assoc)

lemma spans_word:
  assumes "no_ws w" "w \<noteq> []" "s = [] \<or> is_whitespace (hd s)"
  shows "word_spans_from n None (w @ s) = (n, n + str_len w) # word_spans_from (n + str_len w) None s"
  using assms spans_in_word [of "tl w" s "n + utf8_len (hd w)" n]
  by (cases w) (auto simp: add.assoc)

fun spans_of :: "nat \<Rightarrow> (rstr \<times> rstr) list \<Rightarrow> (nat \<times> nat) list" where
  "spans_of n [] = []"
| "spans_of n ((g, w) # ps) =
     (n + str_len g, n + str_len g + str_len w) # spans_of (n + str_len g + str_len w) ps"

lemma spans_joined:
  assumes "gapped ps" "all_ws gl"
  shows "word_spans_from n None (joined ps @ gl) = spans_of n ps"
  using assms
proof (induction ps arbitrary: n)
  case Nil
  then show ?case using spans_gap [of gl n "[]"] by simp
next
  case (Cons p ps)
  obtain g w where p: "p = (g, w)" by (cases p)
  from Cons.prems p have v: "all_ws g" "w \<noteq> []" "no_ws w" "gapped ps" "ps = [] \<or> fst (hd ps) \<noteq> []"
    by (auto simp: gapped_Cons)
  show ?case
    using Cons.IH [OF v(4) Cons.prems(2)] rest_starts_ws [OF v(4) Cons.prems(2) v(5)]
    by (simp add: p spans_gap [OF v(1)] spans_word [OF v(3,2)])
qed

lemma spans_of_length [simp]: "length (spans_of n ps) = length ps"
  by (induction n ps rule: spans_of.induct) auto

lemma spans_of_nth:
  "i < length ps \<Longrightarrow>
   spans_of n ps ! i =
     (n + str_len (joined (take i ps)) + str_len (fst (ps ! i)),
      n + str_len (joined (take (Suc i) ps)))"
proof (induction n ps arbitrary: i rule: spans_of.induct)
  case (2 n g w ps)
  then show ?case by (cases i) (auto simp: add.assoc)
qed simp

lemma gapped_drop: "gapped ps \<Longrightarrow> gapped (drop i ps)"
proof (induction ps arbitrary: i)
  case (Cons p ps)
  then show ?case by (cases p; cases i) (auto simp: gapped_Cons)
qed simp

lemma gapped_take: "gapped ps \<Longrightarrow> gapped (take i ps)"
proof (induction ps arbitrary: i)
  case (Cons p ps)
  obtain g w where p: "p = (g, w)" by (cases p)
  show ?case
  proof (cases i)
    case 0
    then show ?thesis by (simp add: gapped_def)
  next
    case (Suc k)
    have "take k ps = [] \<or> hd (take k ps) = hd ps" by (cases k; cases ps) auto
    with Cons.IH [of k] Cons.prems Suc p show ?thesis by (auto simp: gapped_Cons)
  qed
qed simp

text \<open>The words from \<open>i\<close> to \<open>j\<close>, and the gap between two words, are slices of the text.\<close>

lemma slice_words:
  assumes g: "gapped ps" and ij: "i < j" "j \<le> length ps"
  shows "slice (joined ps @ gl) (fst (spans_of 0 ps ! i)) (snd (spans_of 0 ps ! (j - 1))) =
           Some (snd (ps ! i) @ joined (take (j - Suc i) (drop (Suc i) ps)))"
    and "split_whitespace (snd (ps ! i) @ joined (take (j - Suc i) (drop (Suc i) ps))) =
           map snd (take (j - i) (drop i ps))"
proof -
  let ?M = "snd (ps ! i) @ joined (take (j - Suc i) (drop (Suc i) ps))"
  let ?P = "joined (take i ps) @ fst (ps ! i)"
  have tj: "take j ps = take i ps @ ps ! i # take (j - Suc i) (drop (Suc i) ps)"
    using ij by (metis Suc_leI Suc_le_lessD add_diff_inverse_nat append_Cons append_assoc append_take_drop_id
      leD take_Suc_conv_app_nth take_add append_Nil less_le_trans)
  have t: "joined ps @ gl = ?P @ ?M @ (joined (drop j ps) @ gl)"
    using arg_cong [OF append_take_drop_id [of j ps], of joined] by (simp add: tj)
  have "snd (spans_of 0 ps ! (j - 1)) = str_len (joined (take j ps))"
    using ij spans_of_nth [of "j - 1" ps 0] by simp
  then have e: "snd (spans_of 0 ps ! (j - 1)) = str_len ?P + str_len ?M" by (simp add: tj)
  have "fst (spans_of 0 ps ! i) = str_len ?P" using ij spans_of_nth [of i ps 0] by simp
  then show "slice (joined ps @ gl) (fst (spans_of 0 ps ! i)) (snd (spans_of 0 ps ! (j - 1))) = Some ?M"
    unfolding e t by (metis slice_append)
  let ?qs = "([], snd (ps ! i)) # take (j - Suc i) (drop (Suc i) ps)"
  have d: "drop i ps = ps ! i # drop (Suc i) ps" using ij by (simp add: Cons_nth_drop_Suc)
  obtain g w where p: "ps ! i = (g, w)" by (cases "ps ! i")
  have "gapped (take (Suc (j - Suc i)) (drop i ps))" by (intro gapped_take gapped_drop g)
  then have q: "gapped ?qs" unfolding d p by (simp add: gapped_Cons)
  from split_joined [OF q, of "[]"] have "split_whitespace ?M = map snd ?qs" by simp
  also have "\<dots> = map snd (take (j - i) (drop i ps))"
  proof -
    have n: "j - i = Suc (j - Suc i)" using ij by simp
    show ?thesis unfolding n d by simp
  qed
  finally show "split_whitespace ?M = map snd (take (j - i) (drop i ps))" .
qed

lemma boundary_after_word_total:
  assumes g: "gapped ps" and gl: "all_ws gl" and i: "i < length ps"
  shows "boundary_after_word (joined ps @ gl) (spans_of 0 ps) i \<noteq> None"
proof -
  have w: "slice (joined ps @ gl) (fst (spans_of 0 ps ! i)) (snd (spans_of 0 ps ! i)) \<noteq> None"
    using slice_words(1) [OF g, of i "Suc i" gl] i by simp
  have n: "slice (joined ps @ gl) (snd (spans_of 0 ps ! i)) (fst (spans_of 0 ps ! Suc i)) \<noteq> None"
    if "Suc i < length ps"
  proof -
    let ?p = "joined (take (Suc i) ps)" and ?g = "fst (ps ! Suc i)"
    have "ps = take (Suc i) ps @ ps ! Suc i # drop (Suc (Suc i)) ps"
      using that by (rule id_take_nth_drop)
    then have "joined ps = joined (take (Suc i) ps @ ps ! Suc i # drop (Suc (Suc i)) ps)"
      by (rule arg_cong)
    then have "joined ps @ gl = ?p @ ?g @ snd (ps ! Suc i) @ joined (drop (Suc (Suc i)) ps) @ gl"
      by simp
    then show ?thesis
      using spans_of_nth [of i ps 0] spans_of_nth [of "Suc i" ps 0] that slice_append [of ?p ?g]
      by simp
  qed
  from w n i show ?thesis
    by (auto simp: boundary_after_word_def Let_def split: prod.splits)
qed

lemma scan_boundaries_total:
  assumes "gapped ps" "all_ws gl" "\<forall>i \<in> set js. i < length ps"
  shows "scan_boundaries (joined ps @ gl) (spans_of 0 ps) sentence clause js \<noteq> None"
  using assms(3)
proof (induction js arbitrary: sentence clause)
  case (Cons i js)
  then obtain r where "boundary_after_word (joined ps @ gl) (spans_of 0 ps) i = Some r"
    using boundary_after_word_total [OF assms(1,2), of i] by auto
  with Cons show ?case by (auto split: option.splits chunk_boundary.splits)
qed simp

lemma word_end_of_total:
  assumes "gapped ps" "all_ws gl"
  shows "word_end_of (joined ps @ gl) (spans_of 0 ps) max_words first_word \<noteq> None"
  using scan_boundaries_total [OF assms, of "[first_word ..< min (first_word + max_words) (length ps)]"]
  by (auto simp: word_end_of_def preferred_chunk_end_def Let_def)

text \<open>What a chunk is of the text it was cut from.\<close>

definition chunk_from :: "prepared_speech_text \<Rightarrow> prepared_speech_chunk \<Rightarrow> bool" where
  "chunk_from p c \<longleftrightarrow>
     slice (pst_text p) (pc_source_start c) (pc_source_end c) = Some (pc_text c) \<and>
     list_all (\<lambda>t. t\<lparr>ct_text_offset := pc_source_start c + ct_text_offset t\<rparr> \<in> set (pst_tones p))
       (pc_tones c)"

lemma slice_bounds:
  assumes "slice s a b = Some w"
  shows "a \<le> b" and "b \<le> str_len s"
proof -
  have skip: "str_skip n s = Some r \<Longrightarrow> n + str_len r = str_len s" for n s r
  proof (induction n s rule: str_skip.induct)
    case (1 n s)
    then show ?case
      by (subst (asm) (2) str_skip.simps) (auto split: if_splits list.splits)
  qed
  have take: "str_take n s = Some r \<Longrightarrow> str_len r = n \<and> n \<le> str_len s" for n s r
  proof (induction n s arbitrary: r rule: str_take.induct)
    case (1 n s)
    then show ?case
      by (subst (asm) (2) str_take.simps) (fastforce split: if_splits list.splits)
  qed
  from assms show "a \<le> b" by (auto simp: slice_def split: if_splits)
  from assms obtain r where "str_skip a s = Some r" "str_take (b - a) r = Some w"
    by (auto simp: slice_def bind_eq_Some_conv split: if_splits)
  from skip [OF this(1)] take [OF this(2)] \<open>a \<le> b\<close> show "b \<le> str_len s" by linarith
qed

lemma chunk_of_total:
  assumes g: "gapped ps" and t: "pst_text p = joined ps @ gl" and ij: "i < j" "j \<le> length ps"
    and len: "str_len (pst_text p) \<le> u32_max"
  obtains c where "chunk_of p (spans_of 0 ps) i j = Some c" "chunk_from p c"
    "split_whitespace (pc_text c) = map snd (take (j - i) (drop i ps))"
proof -
  let ?a = "fst (spans_of 0 ps ! i)" and ?b = "snd (spans_of 0 ps ! (j - 1))"
  obtain w where w: "slice (pst_text p) ?a ?b = Some w"
    "split_whitespace w = map snd (take (j - i) (drop i ps))"
    using slice_words [OF g ij] t by metis
  from slice_bounds [OF w(1)] len have "?a \<le> u32_max" "?b \<le> u32_max" by simp_all
  with w that show thesis by (auto simp: chunk_of_def Let_def chunk_from_def list_all_iff)
qed

lemma chunk_words_spec:
  assumes "gapped ps" "all_ws gl" "pst_text p = joined ps @ gl" "str_len (pst_text p) \<le> u32_max"
    and "0 < max_words" "spans = spans_of 0 ps"
  shows "\<exists>cs. chunk_words p spans max_words i = Some cs \<and>
              concat (map (\<lambda>c. split_whitespace (pc_text c)) cs) = map snd (drop i ps) \<and>
              list_all (\<lambda>c. chunk_from p c \<and> length (split_whitespace (pc_text c)) \<le> max_words) cs"
  using assms
proof (induction p spans max_words i rule: chunk_words.induct)
  case (1 p spans max_words i)
  note prems = 1(2-)
  show ?case
  proof (cases "length ps \<le> i")
    case True
    with prems(6) show ?thesis by (simp add: chunk_words.simps)
  next
    case False
    obtain j where j: "word_end_of (pst_text p) spans max_words i = Some j"
      using word_end_of_total [OF prems(1,2), of max_words i] prems(3,6) by auto
    from word_end_of_range [OF this prems(5)] False prems(6)
    have r: "i < j" "j \<le> length ps" "j \<le> i + max_words" by simp_all
    obtain c where c: "chunk_of p (spans_of 0 ps) i j = Some c" "chunk_from p c"
      "split_whitespace (pc_text c) = map snd (take (j - i) (drop i ps))"
      by (rule chunk_of_total [OF prems(1,3) r(1,2) prems(4)])
    have "\<not> (max_words = 0 \<or> length spans \<le> i)" using prems(5,6) False by simp
    from 1(1) [OF this j c(1) [folded prems(6)] prems]
    obtain cs where cs: "chunk_words p spans max_words j = Some cs"
      "concat (map (\<lambda>c. split_whitespace (pc_text c)) cs) = map snd (drop j ps)"
      "list_all (\<lambda>c. chunk_from p c \<and> length (split_whitespace (pc_text c)) \<le> max_words) cs"
      by blast
    have "drop i ps = take (j - i) (drop i ps) @ drop j ps"
      using append_take_drop_id [of "j - i" "drop i ps"] r(1) by simp
    then have d: "map snd (drop i ps) = map snd (take (j - i) (drop i ps)) @ map snd (drop j ps)"
      by (metis map_append)
    from c(1) have c': "chunk_of p spans i j = Some c" by (simp add: prems(6))
    have "chunk_words p spans max_words i = Some (c # cs)"
      using prems(5,6) False j c' cs(1) by (subst chunk_words.simps) simp
    with c(2,3) cs(2,3) d r show ?thesis by auto
  qed
qed

lemma chunk_prepared_spec:
  assumes "str_len (pst_text p) \<le> u32_max"
  shows "\<exists>cs. chunk_prepared_speech p max_words = Some cs \<and>
              concat (map (\<lambda>c. split_whitespace (pc_text c)) cs) = split_whitespace (pst_text p) \<and>
              list_all (\<lambda>c. chunk_from p c \<and>
                (max_words = 0 \<or> length (split_whitespace (pc_text c)) \<le> max_words)) cs"
proof -
  obtain ps gl where d: "pst_text p = joined ps @ gl" "gapped ps" "all_ws gl"
    using decomposition by blast
  have w: "split_whitespace (pst_text p) = map snd ps" unfolding d(1) by (rule split_joined [OF d(2,3)])
  have s: "word_spans (pst_text p) = spans_of 0 ps"
    unfolding d(1) word_spans_def by (rule spans_joined [OF d(2,3)])
  show ?thesis
  proof (cases "length ps \<le> max_words \<or> max_words = 0")
    case True
    have "slice (pst_text p) 0 (str_len (pst_text p)) = Some (pst_text p)"
      using slice_append [of "[]" "pst_text p" "[]"] by simp
    with True assms w s show ?thesis
      by (auto simp: chunk_prepared_speech_def Let_def chunk_from_def list_all_iff)
  next
    case False
    then have "0 < max_words" by simp
    from chunk_words_spec [OF d(2,3,1) assms this refl, of 0] False w s show ?thesis
      by (auto simp: chunk_prepared_speech_def Let_def list_all_iff)
  qed
qed

section \<open>Punctuation and camel case\<close>

definition legacy_speech_separator :: rstr where
  "legacy_speech_separator = lit ''[*]''"

lemma strip_separator:
  "strip_prefix legacy_speech_separator s = Some r \<Longrightarrow> s = 91 # 42 # 93 # r"
  by (auto simp: strip_prefix_Some legacy_speech_separator_def lit_def)

text \<open>The Unicode properties \<open>Uppercase\<close> and \<open>Lowercase\<close>.\<close>

record case_classes =
  is_uppercase :: "rchar \<Rightarrow> bool"
  is_lowercase :: "rchar \<Rightarrow> bool"

definition spoken_replacement :: "punctuation_table \<Rightarrow> rchar \<Rightarrow> rstr option" where
  "spoken_replacement table c = Option.bind (map_of table c) id"

definition replaced :: "punctuation_table \<Rightarrow> rchar \<Rightarrow> rstr" where
  "replaced table c =
     (case spoken_replacement table c of Some spoken \<Rightarrow> 32 # spoken @ [32] | None \<Rightarrow> [c])"

function apply_punctuation_table :: "punctuation_table \<Rightarrow> rstr \<Rightarrow> rstr" where
  "apply_punctuation_table table s =
     (case s of
        [] \<Rightarrow> []
      | c # cs \<Rightarrow>
          (case strip_prefix legacy_speech_separator s of
             Some rest \<Rightarrow> 32 # apply_punctuation_table table rest
           | None \<Rightarrow> replaced table c @ apply_punctuation_table table cs))"
  by pat_completeness auto
termination
  by (relation "measure (\<lambda>(table, s). length s)")
     (auto dest!: strip_separator)

declare apply_punctuation_table.simps [simp del]

fun insert_space_from :: "case_classes \<Rightarrow> bool \<Rightarrow> rstr \<Rightarrow> rstr" where
  "insert_space_from u prev_lower [] = []"
| "insert_space_from u prev_lower (c # cs) =
     (if is_uppercase u c \<and> prev_lower then [32] else []) @
     c # insert_space_from u (is_lowercase u c) cs"

definition insert_space_before_uppercase :: "case_classes \<Rightarrow> rstr \<Rightarrow> rstr" where
  "insert_space_before_uppercase u s = insert_space_from u False s"

definition prepare_speech_text :: "case_classes \<Rightarrow> rstr \<Rightarrow> tts_state \<Rightarrow> prepared_speech_text option" where
  "prepare_speech_text u s st =
     map_option (\<lambda>table.
       let processed = apply_punctuation_table table s
       in \<lparr>pst_text = (if st_split_caps st then insert_space_before_uppercase u processed
                       else processed),
           pst_tones = []\<rparr>)
       (punctuation_table_of st)"

section \<open>Offsets\<close>

record offset_mapper =
  om_pending :: "(nat \<times> nat) list"
  om_next :: nat
  om_mapped :: "nat list"

definition new_mapper :: "nat list \<Rightarrow> offset_mapper" where
  "new_mapper offsets =
     \<lparr>om_pending = sort_key fst (zip offsets [0 ..< length offsets]), om_next = 0,
      om_mapped = replicate (length offsets) 0\<rparr>"

function record_offset :: "offset_mapper \<Rightarrow> nat \<Rightarrow> nat \<Rightarrow> offset_mapper" where
  "record_offset m input output =
     (if om_next m < length (om_pending m) \<and> fst (om_pending m ! om_next m) = input
      then record_offset
             (m\<lparr>om_mapped := (om_mapped m)[snd (om_pending m ! om_next m) := as_u32 output],
                om_next := om_next m + 1\<rparr>) input output
      else m)"
  by pat_completeness auto
termination
  by (relation "measure (\<lambda>(m, input, output). length (om_pending m) - om_next m)") auto

declare record_offset.simps [simp del]

text \<open>
  The loops keep the bytes read and the output built so far; \<open>record\<close> is called before each
  step, inside the separator for each of its bytes, and at the end.
\<close>

function punctuate_offsets ::
    "punctuation_table \<Rightarrow> nat \<Rightarrow> rstr \<Rightarrow> rstr \<Rightarrow> offset_mapper \<Rightarrow> rstr \<times> offset_mapper" where
  "punctuate_offsets table position s output m =
     (let m1 = record_offset m position (str_len output)
      in case s of
           [] \<Rightarrow> (output, m1)
         | c # cs \<Rightarrow>
             (case strip_prefix legacy_speech_separator s of
                Some rest \<Rightarrow>
                  let output' = output @ [32]
                  in punctuate_offsets table (position + 3) rest output'
                       (foldl (\<lambda>m boundary. record_offset m (position + boundary) (str_len output'))
                          m1 [1, 2, 3])
              | None \<Rightarrow>
                  punctuate_offsets table (position + utf8_len c) cs (output @ replaced table c) m1))"
  by pat_completeness auto
termination
  by (relation "measure (\<lambda>(table, position, s, output, m). length s)")
     (auto dest!: strip_separator)

declare punctuate_offsets.simps [simp del]

definition apply_punctuation_with_offsets ::
    "punctuation_table \<Rightarrow> rstr \<Rightarrow> nat list \<Rightarrow> rstr \<times> nat list" where
  "apply_punctuation_with_offsets table s offsets =
     map_prod id om_mapped (punctuate_offsets table 0 s [] (new_mapper offsets))"

fun space_offsets ::
    "case_classes \<Rightarrow> bool \<Rightarrow> nat \<Rightarrow> rstr \<Rightarrow> rstr \<Rightarrow> offset_mapper \<Rightarrow> rstr \<times> offset_mapper" where
  "space_offsets u prev_lower position [] output m =
     (output, record_offset m position (str_len output))"
| "space_offsets u prev_lower position (c # cs) output m =
     (let output' = (if is_uppercase u c \<and> prev_lower then output @ [32] else output)
      in space_offsets u (is_lowercase u c) (position + utf8_len c) cs (output' @ [c])
           (record_offset m position (str_len output')))"

definition insert_space_with_offsets ::
    "case_classes \<Rightarrow> rstr \<Rightarrow> nat list \<Rightarrow> rstr \<times> nat list" where
  "insert_space_with_offsets u s offsets =
     map_prod id om_mapped (space_offsets u False 0 s [] (new_mapper offsets))"

definition prepare_speech_text_with_offsets ::
    "case_classes \<Rightarrow> rstr \<Rightarrow> tts_state \<Rightarrow> nat list \<Rightarrow> (prepared_speech_text \<times> nat list) option" where
  "prepare_speech_text_with_offsets u s st offsets =
     map_option (\<lambda>table.
       let (punctuated, offsets1) = apply_punctuation_with_offsets table s offsets;
           (split, offsets2) =
             (if st_split_caps st then insert_space_with_offsets u punctuated offsets1
              else (punctuated, offsets1))
       in (\<lparr>pst_text = split, pst_tones = []\<rparr>, offsets2))
       (punctuation_table_of st)"

section \<open>Mapped offsets\<close>

text \<open>
  A loop makes a list of record calls. When they are sorted and cover every requested offset,
  each offset is mapped to the output of the first call for it.
\<close>

definition run_calls :: "offset_mapper \<Rightarrow> (nat \<times> nat) list \<Rightarrow> offset_mapper" where
  "run_calls m calls = foldl (\<lambda>m (i, out). record_offset m i out) m calls"

lemma run_calls_simps [simp]:
  "run_calls m [] = m" "run_calls m ((i, out) # cs) = run_calls (record_offset m i out) cs"
  "run_calls m (cs @ ds) = run_calls (run_calls m cs) ds"
  by (simp_all add: run_calls_def)

fun write_all :: "nat \<Rightarrow> (nat \<times> nat) list \<Rightarrow> nat list \<Rightarrow> nat list" where
  "write_all out [] xs = xs"
| "write_all out (p # ps) xs = write_all out ps (xs[snd p := out])"

lemma record_offset_spec:
  "om_next m \<le> length (om_pending m) \<Longrightarrow>
   record_offset m input out =
     (let front = takeWhile (\<lambda>p. fst p = input) (drop (om_next m) (om_pending m))
      in m\<lparr>om_mapped := write_all (as_u32 out) front (om_mapped m),
           om_next := om_next m + length front\<rparr>)"
proof (induction m input out rule: record_offset.induct)
  case (1 m input out)
  show ?case
  proof (cases "om_next m < length (om_pending m) \<and> fst (om_pending m ! om_next m) = input")
    case True
    then have d: "drop (om_next m) (om_pending m) =
        om_pending m ! om_next m # drop (Suc (om_next m)) (om_pending m)"
      by (simp add: Cons_nth_drop_Suc)
    from 1 True show ?thesis
      by (subst record_offset.simps) (simp add: d Let_def)
  next
    case False
    have "takeWhile (\<lambda>p. fst p = input) (drop (om_next m) (om_pending m)) = []"
    proof (cases "om_next m < length (om_pending m)")
      case True
      with False have "drop (om_next m) (om_pending m) =
          om_pending m ! om_next m # drop (Suc (om_next m)) (om_pending m)"
        "fst (om_pending m ! om_next m) \<noteq> input"
        by (simp_all add: Cons_nth_drop_Suc)
      then show ?thesis by simp
    qed simp
    with False show ?thesis by (subst record_offset.simps) (auto simp: Let_def)
  qed
qed

fun write_mapped :: "(nat \<rightharpoonup> nat) \<Rightarrow> (nat \<times> nat) list \<Rightarrow> nat list \<Rightarrow> nat list" where
  "write_mapped f [] xs = xs"
| "write_mapped f (p # ps) xs = write_mapped f ps (xs[snd p := as_u32 (the (f (fst p)))])"

lemma write_mapped_append [simp]:
  "write_mapped f (ps @ qs) xs = write_mapped f qs (write_mapped f ps xs)"
  by (induction ps arbitrary: xs) auto

lemma write_all_mapped:
  "\<forall>p \<in> set ps. f (fst p) = Some out \<Longrightarrow> write_all (as_u32 out) ps xs = write_mapped f ps xs"
  by (induction ps arbitrary: xs) auto

lemma write_mapped_cong:
  "\<forall>p \<in> set ps. f (fst p) = g (fst p) \<Longrightarrow> write_mapped f ps xs = write_mapped g ps xs"
  by (induction ps arbitrary: xs) auto

lemma sorted_front:
  assumes "sorted (map fst rest)" "\<forall>p \<in> set rest. i \<le> fst p"
  shows "\<forall>p \<in> set (dropWhile (\<lambda>p. fst p = i) rest). i < fst p"
  using assms
proof (induction rest)
  case (Cons p rest)
  then show ?case by (cases "fst p = i") fastforce+
qed simp

lemma run_calls_spec:
  assumes "sorted (map fst calls)" "sorted (map fst rest)"
    and "om_next m \<le> length (om_pending m)" "drop (om_next m) (om_pending m) = rest"
    and "fst ` set rest \<subseteq> fst ` set calls"
  shows "om_mapped (run_calls m calls) = write_mapped (map_of calls) rest (om_mapped m)"
  using assms
proof (induction calls arbitrary: m rest)
  case Nil
  then show ?case by simp
next
  case (Cons c calls)
  obtain i out where c: "c = (i, out)" by (cases c)
  let ?front = "takeWhile (\<lambda>p. fst p = i) rest" and ?later = "dropWhile (\<lambda>p. fst p = i) rest"
  let ?m = "record_offset m i out"
  have r: "rest = ?front @ ?later" by simp
  have m: "om_mapped ?m = write_all (as_u32 out) ?front (om_mapped m)"
    "om_next ?m = om_next m + length ?front" "om_pending ?m = om_pending m"
    using record_offset_spec [OF Cons.prems(3)] Cons.prems(4) by (simp_all add: Let_def)
  have "\<forall>x \<in> fst ` set (c # calls). i \<le> x" using Cons.prems(1) c by auto
  with Cons.prems(5) have "\<forall>p \<in> set rest. i \<le> fst p" by (meson image_eqI subsetD)
  from sorted_front [OF Cons.prems(2) this] have b: "\<forall>p \<in> set ?later. i < fst p" .
  have "length ?front \<le> length rest" by (metis r length_append le_add1)
  then have n: "om_next ?m \<le> length (om_pending ?m)"
    using Cons.prems(3,4) m by (metis add_le_cancel_left length_drop le_add_diff_inverse)
  have d: "drop (om_next ?m) (om_pending ?m) = ?later"
    using Cons.prems(4) m by (metis append_eq_conv_conj drop_drop add.commute r)
  have "fst ` set ?later \<subseteq> fst ` set calls"
  proof
    fix x assume x: "x \<in> fst ` set ?later"
    with b have "i < x" by auto
    moreover from x have "x \<in> fst ` set rest" by (auto dest: set_dropWhileD)
    ultimately show "x \<in> fst ` set calls" using Cons.prems(5) c by auto
  qed
  moreover have "sorted (map fst ?later)"
    using Cons.prems(2) by (subst (asm) r) (simp only: map_append sorted_append)
  ultimately have "om_mapped (run_calls ?m calls) = write_mapped (map_of calls) ?later (om_mapped ?m)"
    using Cons.prems(1) n d by (intro Cons.IH) (simp_all add: c)
  also have "\<dots> = write_mapped (map_of (c # calls)) ?later (om_mapped ?m)"
    using b by (intro write_mapped_cong) (auto simp: c)
  also have "om_mapped ?m = write_mapped (map_of (c # calls)) ?front (om_mapped m)"
    unfolding m by (intro write_all_mapped) (auto simp: c dest: set_takeWhileD)
  finally show ?case using c r by (metis run_calls_simps(2) write_mapped_append)
qed

lemma write_mapped_length [simp]: "length (write_mapped f ps xs) = length xs"
  by (induction f ps xs rule: write_mapped.induct) auto

lemma write_mapped_other: "i \<notin> snd ` set ps \<Longrightarrow> write_mapped f ps xs ! i = xs ! i"
  by (induction f ps xs rule: write_mapped.induct) auto

lemma write_mapped_nth:
  "(offset, i) \<in> set ps \<Longrightarrow> distinct (map snd ps) \<Longrightarrow> i < length xs \<Longrightarrow>
   write_mapped f ps xs ! i = as_u32 (the (f offset))"
proof (induction f ps xs rule: write_mapped.induct)
  case (2 f p ps xs)
  show ?case
  proof (cases "p = (offset, i)")
    case True
    with 2 have "i \<notin> snd ` set ps" by simp
    with True 2(4) show ?thesis by (simp add: write_mapped_other)
  next
    case False
    with 2 show ?thesis by auto
  qed
qed simp

lemma new_mapper_spec:
  assumes "sorted (map fst calls)" "set offsets \<subseteq> fst ` set calls"
  shows "om_mapped (run_calls (new_mapper offsets) calls) =
         map (\<lambda>offset. as_u32 (the (map_of calls offset))) offsets"
proof -
  let ?z = "zip offsets [0 ..< length offsets]"
  let ?ps = "sort_key fst ?z" and ?xs = "replicate (length offsets) (0::nat)"
  have "distinct ?z" by (simp add: distinct_zipI2)
  then have d: "distinct (map snd ?ps)"
    by (auto simp: distinct_map inj_on_def in_set_zip)
  have "fst ` set ?ps \<subseteq> fst ` set calls" using assms(2) set_zip_leftD by fastforce
  then have "om_mapped (run_calls (new_mapper offsets) calls) = write_mapped (map_of calls) ?ps ?xs"
    using run_calls_spec [OF assms(1), of ?ps "new_mapper offsets"] by (simp add: new_mapper_def)
  also have "\<dots> = map (\<lambda>offset. as_u32 (the (map_of calls offset))) offsets"
  proof (rule nth_equalityI)
    fix i assume i: "i < length (write_mapped (map_of calls) ?ps ?xs)"
    then have "(offsets ! i, i) \<in> set ?ps" by (auto simp: in_set_zip)
    with d i show "write_mapped (map_of calls) ?ps ?xs ! i =
        map (\<lambda>offset. as_u32 (the (map_of calls offset))) offsets ! i"
      by (simp add: write_mapped_nth)
  qed simp
  finally show ?thesis .
qed

text \<open>The calls of the two loops.\<close>

function punct_calls :: "punctuation_table \<Rightarrow> nat \<Rightarrow> rstr \<Rightarrow> nat \<Rightarrow> (nat \<times> nat) list" where
  "punct_calls table position s out =
     (case s of
        [] \<Rightarrow> [(position, out)]
      | c # cs \<Rightarrow>
          (case strip_prefix legacy_speech_separator s of
             Some rest \<Rightarrow>
               (position, out) # (position + 1, out + 1) # (position + 2, out + 1) #
               (position + 3, out + 1) # punct_calls table (position + 3) rest (out + 1)
           | None \<Rightarrow>
               (position, out) #
               punct_calls table (position + utf8_len c) cs (out + str_len (replaced table c))))"
  by pat_completeness auto
termination
  by (relation "measure (\<lambda>(table, position, s, out). length s)") (auto dest!: strip_separator)

declare punct_calls.simps [simp del]

fun space_calls :: "case_classes \<Rightarrow> bool \<Rightarrow> nat \<Rightarrow> rstr \<Rightarrow> nat \<Rightarrow> (nat \<times> nat) list" where
  "space_calls u prev position [] out = [(position, out)]"
| "space_calls u prev position (c # cs) out =
     (let out' = out + (if is_uppercase u c \<and> prev then 1 else 0)
      in (position, out') #
         space_calls u (is_lowercase u c) (position + utf8_len c) cs (out' + utf8_len c))"

lemma punctuate_offsets_calls:
  "punctuate_offsets table position s w m =
   (w @ apply_punctuation_table table s,
    run_calls m (punct_calls table position s (str_len w)))"
proof (induction table position s w m rule: punctuate_offsets.induct)
  case (1 table position s w m)
  show ?case
  proof (cases s)
    case Nil
    then show ?thesis
      by (simp add: punctuate_offsets.simps punct_calls.simps apply_punctuation_table.simps)
  next
    case (Cons c cs)
    show ?thesis
    proof (cases "strip_prefix legacy_speech_separator s")
      case None
      with Cons 1(1) [OF refl Cons None] show ?thesis
        by (subst punctuate_offsets.simps, subst punct_calls.simps, subst apply_punctuation_table.simps)
           (simp add: Let_def)
    next
      case (Some rest)
      with Cons 1(2) [OF refl Cons Some refl] show ?thesis
        by (subst punctuate_offsets.simps, subst punct_calls.simps, subst apply_punctuation_table.simps)
           (simp add: Let_def utf8_len_ascii)
    qed
  qed
qed

lemma space_offsets_calls:
  "space_offsets u prev position s w m =
   (w @ insert_space_from u prev s, run_calls m (space_calls u prev position s (str_len w)))"
  by (induction u prev position s w m rule: space_offsets.induct)
     (auto simp: Let_def utf8_len_ascii add.assoc)

text \<open>
  What the calls from some position and output length promise of the rest of the text and of
  the output.
\<close>

definition calls_ok :: "nat \<Rightarrow> rstr \<Rightarrow> nat \<Rightarrow> rstr \<Rightarrow> (nat \<times> nat) list \<Rightarrow> bool" where
  "calls_ok position s out t calls \<longleftrightarrow>
     sorted (map fst calls) \<and> sorted (map snd calls) \<and>
     (\<forall>x y. s = x @ y \<longrightarrow> position + str_len x \<in> fst ` set calls) \<and>
     (\<forall>(i, n) \<in> set calls. position \<le> i \<and> (\<exists>x y. t = x @ y \<and> n = out + str_len x) \<and>
        (i = position + str_len s \<longrightarrow> n = out + str_len t))"

lemma calls_ok_Nil: "calls_ok position [] out [] [(position, out)]"
  by (simp add: calls_ok_def)

lemma calls_ok_Cons:
  assumes ok: "calls_ok (position + utf8_len c) cs (out + str_len (g @ r)) t calls"
  shows "calls_ok position (c # cs) out (g @ r @ t) ((position, out + str_len g) # calls)"
proof -
  from ok have s: "sorted (map fst calls)" "sorted (map snd calls)"
    and b: "\<And>x y. cs = x @ y \<Longrightarrow> position + utf8_len c + str_len x \<in> fst ` set calls"
    and c: "\<And>i n. (i, n) \<in> set calls \<Longrightarrow> position + utf8_len c \<le> i \<and>
        (\<exists>x y. t = x @ y \<and> n = out + str_len (g @ r) + str_len x) \<and>
        (i = position + utf8_len c + str_len cs \<longrightarrow> n = out + str_len (g @ r) + str_len t)"
    by (fastforce simp: calls_ok_def)+
  let ?calls = "(position, out + str_len g) # calls"
  have "sorted (map fst ?calls)" "sorted (map snd ?calls)" using s c by fastforce+
  moreover have "position + str_len x \<in> fst ` set ?calls" if "c # cs = x @ y" for x y
  proof (cases x)
    case (Cons d x')
    with that b [of x' y] show ?thesis by (auto simp: add.assoc)
  qed simp
  moreover have "position \<le> i \<and> (\<exists>x y. g @ r @ t = x @ y \<and> n = out + str_len x) \<and>
      (i = position + str_len (c # cs) \<longrightarrow> n = out + str_len (g @ r @ t))"
    if "(i, n) \<in> set ?calls" for i n
  proof (cases "(i, n) \<in> set calls")
    case True
    from c [OF True] obtain x y where x: "t = x @ y" "n = out + str_len (g @ r) + str_len x"
      "position + utf8_len c \<le> i"
      "i = position + utf8_len c + str_len cs \<longrightarrow> n = out + str_len (g @ r) + str_len t" by blast
    have "g @ r @ t = (g @ r @ x) @ y" "n = out + str_len (g @ r @ x)" using x(1,2) by simp_all
    then have "\<exists>x y. g @ r @ t = x @ y \<and> n = out + str_len x" by blast
    with x(3,4) show ?thesis by (auto simp: add.assoc)
  next
    case False
    with that have "i = position" "n = out + str_len g" by auto
    have "0 < utf8_len c" by simp
    then have "position < position + str_len (c # cs)" unfolding str_len_Cons by linarith
    with \<open>i = position\<close> have "i \<noteq> position + str_len (c # cs)" by linarith
    then show ?thesis using \<open>i = position\<close> \<open>n = out + str_len g\<close> by blast
  qed
  ultimately show ?thesis unfolding calls_ok_def by blast
qed

lemma calls_ok_again:
  assumes ok: "calls_ok position s out t calls" and e: "s = [] \<Longrightarrow> t = []"
  shows "calls_ok position s out t ((position, out) # calls)"
proof -
  from ok have c: "\<And>i n. (i, n) \<in> set calls \<Longrightarrow> position \<le> i \<and> out \<le> n"
    by (fastforce simp: calls_ok_def)
  with ok have "sorted (map fst ((position, out) # calls))" "sorted (map snd ((position, out) # calls))"
    by (auto simp: calls_ok_def)
  moreover have "position = position + str_len s \<longrightarrow> out = out + str_len t" using e by simp
  ultimately show ?thesis using ok by (auto simp: calls_ok_def)
qed

lemma calls_ok_separator:
  assumes ok: "calls_ok (position + 3) rest (out + 1) t calls" and e: "rest = [] \<Longrightarrow> t = []"
  shows "calls_ok position (91 # 42 # 93 # rest) out (32 # t)
    ((position, out) # (position + 1, out + 1) # (position + 2, out + 1) # (position + 3, out + 1) # calls)"
proof -
  have u: "utf8_len 91 = 1" "utf8_len 42 = 1" "utf8_len 93 = 1" by (simp_all add: utf8_len_def)
  have a: "position + 2 + 1 = position + 3" "position + 1 + 1 = position + 2" by simp_all
  have "calls_ok (position + 3) rest (out + 1) t ((position + 3, out + 1) # calls)"
    by (rule calls_ok_again [OF ok e])
  then have "calls_ok (position + 2) (93 # rest) (out + 1) t
      ((position + 2, out + 1) # (position + 3, out + 1) # calls)"
    using calls_ok_Cons [of "position + 2" 93 rest "out + 1" "[]" "[]"] unfolding u a by simp
  then have "calls_ok (position + 1) (42 # 93 # rest) (out + 1) t
      ((position + 1, out + 1) # (position + 2, out + 1) # (position + 3, out + 1) # calls)"
    using calls_ok_Cons [of "position + 1" 42 "93 # rest" "out + 1" "[]" "[]"] unfolding u a by simp
  then show ?thesis
    using calls_ok_Cons [of position 91 "42 # 93 # rest" out "[]" "[32]"] u by (simp add: utf8_len_ascii)
qed

lemma punct_calls_ok:
  "calls_ok position s out (apply_punctuation_table table s) (punct_calls table position s out)"
proof (induction table position s out rule: punct_calls.induct)
  case (1 table position s out)
  show ?case
  proof (cases s)
    case Nil
    then show ?thesis
      by (simp add: punct_calls.simps apply_punctuation_table.simps calls_ok_Nil)
  next
    case (Cons c cs)
    show ?thesis
    proof (cases "strip_prefix legacy_speech_separator s")
      case None
      with calls_ok_Cons [of position c cs out "[]" "replaced table c"] 1(1) [OF Cons None] Cons
      show ?thesis
        by (subst punct_calls.simps, subst apply_punctuation_table.simps) simp
    next
      case (Some rest)
      have "rest = [] \<Longrightarrow> apply_punctuation_table table rest = []"
        by (simp add: apply_punctuation_table.simps)
      from strip_separator [OF Some] calls_ok_separator [OF 1(2) [OF Cons Some] this] Some
      show ?thesis
        by (subst punct_calls.simps, subst apply_punctuation_table.simps) simp
    qed
  qed
qed

lemma space_calls_ok:
  "calls_ok position s out (insert_space_from u prev s) (space_calls u prev position s out)"
proof (induction u prev position s out rule: space_calls.induct)
  case (2 u prev position c cs out)
  let ?g = "if is_uppercase u c \<and> prev then [32] else []"
  have g: "str_len ?g = (if is_uppercase u c \<and> prev then 1 else 0)" by (simp add: utf8_len_ascii)
  from 2 calls_ok_Cons [of position c cs out ?g "[c]"] show ?case
    by (auto simp: Let_def g add.assoc utf8_len_ascii)
qed (simp add: calls_ok_Nil)

section \<open>Offsets keep their place\<close>

definition offsets_track :: "rstr \<Rightarrow> nat list \<Rightarrow> rstr \<Rightarrow> nat list \<Rightarrow> bool" where
  "offsets_track s offsets t mapped \<longleftrightarrow>
     length mapped = length offsets \<and> list_all (is_char_boundary t) mapped \<and>
     (\<forall>i < length offsets. \<forall>j < length offsets.
        offsets ! i \<le> offsets ! j \<longrightarrow> mapped ! i \<le> mapped ! j) \<and>
     (\<forall>i < length offsets. offsets ! i = str_len s \<longrightarrow> mapped ! i = str_len t)"

lemma map_of_mono:
  assumes "sorted (map fst calls)" "sorted (map snd calls)"
    and "map_of calls p = Some a" "map_of calls q = Some b" "p \<le> (q::nat)"
  shows "a \<le> (b::nat)"
  using assms
proof (induction calls)
  case (Cons c calls)
  obtain i out where c: "c = (i, out)" by (cases c)
  show ?case
  proof (cases "p = i")
    case True
    with Cons.prems c have "a = out" by simp
    moreover have "b = out \<or> b \<in> snd ` set calls"
      using Cons.prems(4) c by (auto split: if_splits dest!: map_of_SomeD) (metis image_eqI snd_conv)
    ultimately show ?thesis using Cons.prems(2) c by auto
  next
    case False
    with Cons.prems(3) c have p: "map_of calls p = Some a" by simp
    then have "p \<in> fst ` set calls" by (metis domI dom_map_of_conv_image_fst)
    with Cons.prems(1) c have "i \<le> p" by auto
    with False Cons.prems(5) have "i < q" by simp
    with Cons c p show ?thesis by simp
  qed
qed simp

lemma calls_track:
  assumes ok: "calls_ok 0 s 0 t calls" and o: "list_all (is_char_boundary s) offsets"
    and len: "str_len t \<le> u32_max"
  shows "offsets_track s offsets t (om_mapped (run_calls (new_mapper offsets) calls))"
proof -
  let ?f = "\<lambda>offset. the (map_of calls offset)"
  from ok have sorted: "sorted (map fst calls)" "sorted (map snd calls)"
    and all: "\<And>i n. (i, n) \<in> set calls \<Longrightarrow>
      (\<exists>x y. t = x @ y \<and> n = str_len x) \<and> (i = str_len s \<longrightarrow> n = str_len t)"
    by (fastforce simp: calls_ok_def)+
  have cover: "offset \<in> fst ` set calls" if "offset \<in> set offsets" for offset
    using that o ok by (auto simp: list_all_iff is_char_boundary_split calls_ok_def)
  have in_calls: "(offset, ?f offset) \<in> set calls \<and> map_of calls offset = Some (?f offset)"
    if "offset \<in> set offsets" for offset
    using cover [OF that] by (metis domIff dom_map_of_conv_image_fst map_of_SomeD option.collapse)
  have b: "is_char_boundary t (?f offset)" "?f offset \<le> u32_max" if "offset \<in> set offsets" for offset
  proof -
    from all [OF conjunct1 [OF in_calls [OF that]]]
    show "is_char_boundary t (?f offset)" by (auto simp: is_char_boundary_split)
    from is_char_boundary_le [OF this] len show "?f offset \<le> u32_max" by linarith
  qed
  have "om_mapped (run_calls (new_mapper offsets) calls) = map (\<lambda>offset. as_u32 (?f offset)) offsets"
    by (rule new_mapper_spec [OF sorted(1)]) (use cover in blast)
  also have "\<dots> = map ?f offsets" using b(2) by simp
  finally have m: "om_mapped (run_calls (new_mapper offsets) calls) = map ?f offsets" .
  have "?f (offsets ! i) \<le> ?f (offsets ! j)"
    if "i < length offsets" "j < length offsets" "offsets ! i \<le> offsets ! j" for i j
  proof -
    have "offsets ! i \<in> set offsets" "offsets ! j \<in> set offsets" using that by simp_all
    then show ?thesis
      using map_of_mono [OF sorted _ _ that(3)] in_calls by blast
  qed
  moreover have "?f (offsets ! i) = str_len t" if "i < length offsets" "offsets ! i = str_len s" for i
  proof -
    from that(1) have "offsets ! i \<in> set offsets" by simp
    from all [OF conjunct1 [OF in_calls [OF this]]] that(2) show ?thesis by blast
  qed
  ultimately show ?thesis
    using b(1) by (simp add: offsets_track_def m list_all_iff)
qed

lemma offsets_track_trans:
  assumes "offsets_track s a t b" "offsets_track t b u c"
  shows "offsets_track s a u c"
  using assms by (auto simp: offsets_track_def)

lemma space_longer: "str_len s \<le> str_len (insert_space_from u prev s)"
  by (induction u prev s rule: insert_space_from.induct) auto

lemma prepared_offsets_spec:
  assumes p: "prepare_speech_text_with_offsets u s st offsets = Some (p, mapped)"
    and o: "list_all (is_char_boundary s) offsets" and len: "str_len (pst_text p) \<le> u32_max"
  shows "prepare_speech_text u s st = Some p \<and> offsets_track s offsets (pst_text p) mapped"
proof -
  from p obtain table where table: "punctuation_table_of st = Some table"
    by (auto simp: prepare_speech_text_with_offsets_def)
  let ?t = "apply_punctuation_table table s"
  let ?o1 = "om_mapped (run_calls (new_mapper offsets) (punct_calls table 0 s 0))"
  let ?u = "insert_space_from u False ?t"
  let ?o2 = "om_mapped (run_calls (new_mapper ?o1) (space_calls u False 0 ?t 0))"
  have a: "apply_punctuation_with_offsets table s offsets = (?t, ?o1)"
    by (simp add: apply_punctuation_with_offsets_def punctuate_offsets_calls)
  have b: "insert_space_with_offsets u ?t ?o1 = (?u, ?o2)"
    by (simp add: insert_space_with_offsets_def space_offsets_calls)
  have t: "offsets_track s offsets ?t ?o1" if "str_len ?t \<le> u32_max"
    by (rule calls_track [OF punct_calls_ok o that])
  show ?thesis
  proof (cases "st_split_caps st")
    case True
    with p table a b have r: "p = \<lparr>pst_text = ?u, pst_tones = []\<rparr>" "mapped = ?o2"
      by (auto simp: prepare_speech_text_with_offsets_def)
    with len have l: "str_len ?u \<le> u32_max" by simp
    with space_longer [of ?t u False] have "str_len ?t \<le> u32_max" by linarith
    from t [OF this] have tr: "offsets_track s offsets ?t ?o1" .
    then have "list_all (is_char_boundary ?t) ?o1" by (simp add: offsets_track_def)
    from calls_track [OF space_calls_ok this l] tr r True table show ?thesis
      by (auto simp: prepare_speech_text_def insert_space_before_uppercase_def
          intro: offsets_track_trans)
  next
    case False
    with p table a have r: "p = \<lparr>pst_text = ?t, pst_tones = []\<rparr>" "mapped = ?o1"
      by (auto simp: prepare_speech_text_with_offsets_def)
    with t len False table show ?thesis by (simp add: prepare_speech_text_def)
  qed
qed

section \<open>Inline codes\<close>

text \<open>
  The three patterns are searched leftmost first. In \<open>\s+([^}]+)}]\<close> the group is everything up
  to the first closing character; the gap gives its last character back only when nothing else is
  left for the group.
\<close>

fun search_from :: "(rstr \<Rightarrow> 'a option) \<Rightarrow> rstr \<Rightarrow> 'a option" where
  "search_from f s =
     (case f s of
        Some r \<Rightarrow> Some r
      | None \<Rightarrow> (case s of [] \<Rightarrow> None | c # cs \<Rightarrow> search_from f cs))"

declare search_from.simps [simp del]

definition match_code :: "string \<Rightarrow> rchar \<Rightarrow> rstr \<Rightarrow> rstr option" where
  "match_code opening stop s =
     Option.bind (strip_prefix (lit opening) s) (\<lambda>r.
       let gap = takeWhile is_whitespace r; rest = dropWhile is_whitespace r;
           body = takeWhile (\<lambda>c. c \<noteq> stop) rest; closing = dropWhile (\<lambda>c. c \<noteq> stop) rest
       in if gap = [] \<or> \<not> starts_with closing [stop, 93] then None
          else if body \<noteq> [] then Some body
          else if 2 \<le> length gap then Some [last gap] else None)"

definition voice_re :: "rstr \<Rightarrow> rstr option" where
  "voice_re = search_from (match_code ''[{voice'' 125)"

definition pitch_re :: "rstr \<Rightarrow> rstr option" where
  "pitch_re = search_from (match_code ''[[pitch'' 93)"

definition logical_id_char :: "rchar \<Rightarrow> bool" where
  "logical_id_char c \<longleftrightarrow> is_ascii_alphanumeric c \<or> c = 95 \<or> c = 46 \<or> c = 45"

definition logical_voice_re :: "rstr \<Rightarrow> rstr option" where
  "logical_voice_re =
     search_from (\<lambda>s. Option.bind (strip_prefix (lit ''[[logical_voice'') s) (\<lambda>r.
       let gap = takeWhile is_whitespace r; rest = dropWhile is_whitespace r;
           body = takeWhile logical_id_char rest; closing = dropWhile logical_id_char rest
       in if gap \<noteq> [] \<and> body \<noteq> [] \<and> length body \<le> 128 \<and> starts_with closing [93, 93]
          then Some body else None))"

definition extract_voice :: "rstr \<Rightarrow> rstr option" where
  "extract_voice codes = voice_re codes"

definition extract_pitch :: "rstr \<Rightarrow> f32 option" where
  "extract_pitch codes =
     Option.bind (pitch_re codes)
       (\<lambda>s. case parse_finite_float s of Inl e \<Rightarrow> None | Inr x \<Rightarrow> Some x)"

definition extract_logical_voice :: "rstr \<Rightarrow> rstr option" where
  "extract_logical_voice codes = logical_voice_re codes"

section \<open>Resource paths\<close>

definition hex_digit :: "rchar \<Rightarrow> nat option" where
  "hex_digit c =
     (if is_ascii_digit c then Some (c - 48)
      else if 97 \<le> c \<and> c \<le> 102 then Some (c - 87)
      else if 65 \<le> c \<and> c \<le> 70 then Some (c - 55) else None)"

fun unicode_escape :: "nat \<Rightarrow> nat \<Rightarrow> rstr \<Rightarrow> rstr + (nat \<times> rstr)" where
  "unicode_escape 0 v cs = Inr (v, cs)"
| "unicode_escape (Suc n) v [] = Inl (lit ''incomplete '' @ [92] @ lit ''u escape in Tcl resource path'')"
| "unicode_escape (Suc n) v (c # cs) =
     (case hex_digit c of
        None \<Rightarrow> Inl (lit ''invalid '' @ [92] @ lit ''u escape in Tcl resource path'')
      | Some d \<Rightarrow> unicode_escape n (v * 16 + d) cs)"

definition is_scalar :: "nat \<Rightarrow> bool" where
  "is_scalar v \<longleftrightarrow> v < 55296 \<or> 57344 \<le> v \<and> v \<le> 1114111"

text \<open>The escapes of one character; \<open>u\<close> is read separately.\<close>

definition simple_escape :: "rchar \<Rightarrow> rchar option" where
  "simple_escape c =
     (if c = 92 \<or> c = 34 \<or> c = 36 \<or> c = 91 then Some c
      else if c = 110 then Some 10
      else if c = 114 then Some 13
      else if c = 116 then Some 9 else None)"

lemma unicode_escape_shorter: "unicode_escape n v cs = Inr (w, r) \<Longrightarrow> length r \<le> length cs"
  by (induction n v cs rule: unicode_escape.induct) (auto split: option.splits)

function decode_tcl_chars :: "rstr \<Rightarrow> rstr + rstr" where
  "decode_tcl_chars s =
     (case s of
        [] \<Rightarrow> Inr []
      | c # cs \<Rightarrow>
          if c \<noteq> 92 then map_sum id ((#) c) (decode_tcl_chars cs)
          else (case cs of
                  [] \<Rightarrow> Inl (lit ''trailing backslash in Tcl resource path'')
                | escaped # rest \<Rightarrow>
                    (case simple_escape escaped of
                       Some d \<Rightarrow> map_sum id ((#) d) (decode_tcl_chars rest)
                     | None \<Rightarrow>
                         if escaped = 117
                         then (case unicode_escape 4 0 rest of
                                 Inl e \<Rightarrow> Inl e
                               | Inr (v, rest') \<Rightarrow>
                                   if \<not> is_scalar v
                                   then Inl (lit ''invalid Unicode scalar in Tcl resource path'')
                                   else if v = 0
                                   then Inl (lit ''Tcl resource path cannot contain NUL'')
                                   else map_sum id ((#) v) (decode_tcl_chars rest'))
                         else Inl (lit ''unsupported Tcl escape '' @ [92] @ [escaped] @
                                   lit '' in resource path''))))"
  by pat_completeness auto
termination
  by (relation "measure length") (auto dest!: unicode_escape_shorter)

declare decode_tcl_chars.simps [simp del]

definition decode_tcl_resource_word :: "rstr \<Rightarrow> rstr + rstr" where
  "decode_tcl_resource_word argument =
     (if \<not> starts_with argument [34] then Inr argument
      else if str_len argument < 2 \<or> strip_suffix [34] argument = None
      then Inl (lit ''unterminated double-quoted Tcl resource path'')
      else decode_tcl_chars (butlast (tl argument)))"

text \<open>
  \<open>PathBuf::join\<close> on a Unix host: an absolute path replaces the base, and one separator is
  added where the base does not end with one. The home directory comes from the environment.
\<close>

definition path_join :: "rstr \<Rightarrow> rstr \<Rightarrow> rstr" where
  "path_join base rest =
     (if starts_with rest [47] then rest
      else if base = [] \<or> last base = 47 then base @ rest else base @ [47] @ rest)"

definition expand_tilde :: "rstr option \<Rightarrow> rstr \<Rightarrow> rstr" where
  "expand_tilde home path =
     (case strip_prefix (lit ''~/'') path of
        Some rest \<Rightarrow> (case home of Some h \<Rightarrow> path_join h rest | None \<Rightarrow> path)
      | None \<Rightarrow>
          if path = lit ''~'' then (case home of Some h \<Rightarrow> h | None \<Rightarrow> path) else path)"

definition parse_resource_path :: "rstr option \<Rightarrow> rstr \<Rightarrow> rstr + rstr" where
  "parse_resource_path home argument =
     map_sum id (expand_tilde home) (decode_tcl_resource_word argument)"

text \<open>How a client quotes a path: the characters that Tcl would substitute are escaped.\<close>

definition tcl_escape :: "rchar \<Rightarrow> rstr" where
  "tcl_escape c =
     (if c = 92 \<or> c = 34 \<or> c = 36 \<or> c = 91 then [92, c]
      else if c = 10 then [92, 110]
      else if c = 13 then [92, 114]
      else if c = 9 then [92, 116] else [c])"

definition tcl_quote :: "rstr \<Rightarrow> rstr" where
  "tcl_quote path = [34] @ concat (map tcl_escape path) @ [34]"

lemma decode_escaped: "decode_tcl_chars (concat (map tcl_escape path)) = Inr path"
proof (induction path)
  case (Cons c path)
  have "decode_tcl_chars (tcl_escape c @ s) = map_sum id ((#) c) (decode_tcl_chars s)" for s
    by (subst decode_tcl_chars.simps) (auto simp: tcl_escape_def simple_escape_def)
  with Cons show ?case by simp
qed (simp add: decode_tcl_chars.simps)

lemma decode_quoted: "decode_tcl_resource_word (tcl_quote path) = Inr path"
proof -
  have "strip_suffix [34] (tcl_quote path) = Some (34 # concat (map tcl_escape path))"
    by (simp add: strip_suffix_Some tcl_quote_def)
  moreover have "starts_with (tcl_quote path) [34]" by (simp add: starts_with_def tcl_quote_def)
  ultimately show ?thesis
    by (simp add: decode_tcl_resource_word_def decode_escaped butlast_append)
       (simp add: tcl_quote_def decode_escaped utf8_len_def)
qed

section \<open>Properties\<close>

text \<open>
  Chunking never slices off a character boundary, loses no word and reorders none: the words
  of the chunks are the words of the prepared text, every chunk is the part of the text at its
  source range, holds at most the given number of words when one is given, and carries tones of
  the text at their place.
\<close>

theorem chunks_cover:
  assumes "str_len (pst_text p) \<le> u32_max"
  shows "\<exists>cs. chunk_prepared_speech p max_words = Some cs \<and>
              concat (map (\<lambda>c. split_whitespace (pc_text c)) cs) = split_whitespace (pst_text p) \<and>
              list_all (\<lambda>c. chunk_from p c \<and>
                (max_words = 0 \<or> length (split_whitespace (pc_text c)) \<le> max_words)) cs"
  by (rule chunk_prepared_spec [OF assms])

text \<open>
  C17: preprocessing with offsets prepares the same text as without, and maps every requested
  character boundary to a character boundary of it, keeping the order and the end of the text.
\<close>

theorem offsets_keep_place:
  assumes "prepare_speech_text_with_offsets u s st offsets = Some (p, mapped)"
    and "list_all (is_char_boundary s) offsets" "str_len (pst_text p) \<le> u32_max"
  shows "prepare_speech_text u s st = Some p \<and> offsets_track s offsets (pst_text p) mapped"
  by (rule prepared_offsets_spec [OF assms])

theorem offsets_keep_place_witness:
  "prepare_speech_text_with_offsets
     \<lparr>is_uppercase = is_ascii_uppercase, is_lowercase = is_ascii_lowercase\<rparr> (lit ''[*]'')
     (from_speech_defaults default_speech) [3, 0] =
     Some (\<lparr>pst_text = [32], pst_tones = []\<rparr>, [1, 0]) \<and>
   offsets_track (lit ''[*]'') [3, 0] [32] [1, 0]"
proof -
  let ?u = "\<lparr>is_uppercase = is_ascii_uppercase, is_lowercase = is_ascii_lowercase\<rparr>"
  have p: "prepare_speech_text_with_offsets ?u (lit ''[*]'') (from_speech_defaults default_speech) [3, 0] =
      Some (\<lparr>pst_text = [32], pst_tones = []\<rparr>, [1, 0])"
    by (simp add: prepare_speech_text_with_offsets_def punctuation_table_of_def from_speech_defaults_def
        default_speech_def apply_punctuation_with_offsets_def insert_space_with_offsets_def
        punctuate_offsets.simps new_mapper_def is_ascii_uppercase_def
        record_offset.simps legacy_speech_separator_def text_eval utf8_len_def as_u32_def)
  have "list_all (is_char_boundary (lit ''[*]'')) [3, 0]" by (simp add: text_eval utf8_len_def)
  from offsets_keep_place [OF p this] p show ?thesis by (simp add: u32_max_def utf8_len_def)
qed

text \<open>
  A path quoted with Tcl's escapes is decoded unchanged.
\<close>

theorem tcl_roundtrip: "decode_tcl_resource_word (tcl_quote path) = Inr path"
  by (rule decode_quoted)

end
