(* ===== verification/Timeline_Transport.thy ===== *)
theory Timeline_Transport
  imports Timeline_Documents Speech_Text
begin

text \<open>
  Transport of presentations (\<open>omnivox-cli/src/transaction.rs\<close>, \<open>omnivox-tts/src/presentation.rs\<close>
  and the part headers of \<open>timeline_protocol.rs\<close>): framed scripts with their whitelist of
  commands, multipart assembly of timeline documents, the generations that absorb replays, and
  the choice between adjacent timelines. Base64 and JSON are the codec of
  \<open>Timeline_Documents\<close>; UTF-8 is decoded here.
\<close>

section \<open>Part headers\<close>

record timeline_part =
  mp_protocol_version :: nat
  mp_generation :: nat
  mp_dispatch_id :: nat
  mp_part_index :: nat
  mp_part_count :: nat
  mp_decoded_bytes :: nat
  mp_encoded_fragment :: rstr

definition parse_number :: "rstr \<Rightarrow> string \<Rightarrow> presentation_timeline_error + nat" where
  "parse_number field name =
     ok_or (parse_u64 field)
       (InvalidTimeline (lit ''timeline part '' @ lit name @ lit '' must be an unsigned integer''))"

text \<open>\<open>usize\<close> has 64 bits on the supported targets, so the conversions from \<open>u64\<close> do not fail.\<close>

definition decode_timeline_part_version ::
    "rstr \<Rightarrow> bool \<Rightarrow> presentation_timeline_error + timeline_part" where
  "decode_timeline_part_version arguments legacy_only =
     (let fields = split_whitespace arguments
      in and_then
        (invalid_if (length fields \<noteq> 7)
          (lit ''timeline part requires version, generation, dispatch ID, index, count, '' @
           lit ''decoded bytes, and fragment'')) (\<lambda>_.
      and_then (parse_number (fields ! 0) ''version'') (\<lambda>version.
      and_then (parse_number (fields ! 1) ''generation'') (\<lambda>generation.
      and_then (parse_number (fields ! 2) ''dispatch ID'') (\<lambda>dispatch_id.
      and_then (parse_number (fields ! 3) ''index'') (\<lambda>part_index.
      and_then (parse_number (fields ! 4) ''count'') (\<lambda>part_count.
      and_then (parse_number (fields ! 5) ''decoded byte count'') (\<lambda>decoded_bytes.
      let encoded_fragment = fields ! 6
      in and_then
        (invalid_if (version \<noteq> 3 \<and> (legacy_only \<or> \<not> (4 \<le> version \<and> version \<le> 7)))
          (lit ''unsupported timeline part version '' @ show_nat version)) (\<lambda>_.
      and_then
        (invalid_if (generation = 0) (lit ''timeline part generation must be positive'')) (\<lambda>_.
      and_then
        (invalid_if (dispatch_id = 0) (lit ''timeline part dispatch ID must be positive'')) (\<lambda>_.
      and_then
        (invalid_if (part_count = 0 \<or> max_timeline_parts < part_count)
          (lit ''timeline part count must be between 1 and '' @ show_nat max_timeline_parts)) (\<lambda>_.
      and_then
        (invalid_if (part_count \<le> part_index)
          (lit ''timeline part index must be less than its count'')) (\<lambda>_.
      and_then
        (invalid_if (decoded_bytes = 0 \<or> max_timeline_aggregate_bytes < decoded_bytes)
          (lit ''timeline decoded byte count must be between 1 and '' @
           show_nat max_timeline_aggregate_bytes)) (\<lambda>_.
      and_then
        (invalid_if (encoded_fragment = [] \<or> max_timeline_encoded_bytes < str_len encoded_fragment)
          (lit ''timeline encoded fragment must contain 1 to '' @
           show_nat max_timeline_encoded_bytes @ lit '' bytes'')) (\<lambda>_.
      and_then
        (invalid_if (\<not> list_all base64_char encoded_fragment)
          (lit ''timeline part fragment contains a non-Base64 character'')) (\<lambda>_.
      and_then
        (invalid_if (part_index + 1 < part_count \<and> 61 \<in> set encoded_fragment)
          (lit ''only the final timeline part may contain Base64 padding'')) (\<lambda>_.
      Inr \<lparr>mp_protocol_version = version, mp_generation = generation,
           mp_dispatch_id = dispatch_id, mp_part_index = part_index, mp_part_count = part_count,
           mp_decoded_bytes = decoded_bytes, mp_encoded_fragment = encoded_fragment\<rparr>)))))))))))))))))"

definition decode_presentation_timeline_part :: "rstr \<Rightarrow> presentation_timeline_error + timeline_part"
  where "decode_presentation_timeline_part arguments = decode_timeline_part_version arguments True"

definition decode_any_timeline_part :: "rstr \<Rightarrow> presentation_timeline_error + timeline_part" where
  "decode_any_timeline_part arguments = decode_timeline_part_version arguments False"

section \<open>Prepared presentations and generations\<close>

record prepared_presentation =
  fp_generation :: nat
  fp_commands :: "command list"

record prepared_structured_presentation =
  sp_generation :: nat
  sp_timeline :: timeline_document
  sp_letter :: bool

datatype timeline_rejection_kind = RejectedInvalid | RejectedStale

record structured_timeline_rejection =
  tr_identity :: "presentation_timeline_identity option"
  tr_kind :: timeline_rejection_kind
  tr_message :: rstr

datatype adjacent_timeline_selection =
  Coalesced prepared_structured_presentation nat
| PreserveOrder prepared_structured_presentation prepared_structured_presentation

text \<open>\<open>PresentationGenerations\<close> is its one field, the latest committed generation.\<close>

type_synonym presentation_generations = nat

definition prepare_decoded_timeline ::
    "presentation_generations \<Rightarrow> timeline_document \<Rightarrow> prepared_structured_presentation option" where
  "prepare_decoded_timeline latest t =
     (if document_generation t \<le> latest then None
      else Some \<lparr>sp_generation = document_generation t, sp_timeline = t, sp_letter = False\<rparr>)"

definition prepare_timeline ::
    "timeline_codec \<Rightarrow> presentation_generations \<Rightarrow> rstr \<Rightarrow>
     structured_timeline_rejection + prepared_structured_presentation" where
  "prepare_timeline c latest payload =
     and_then
       (map_err (\<lambda>e. \<lparr>tr_identity = de_identity e, tr_kind = RejectedInvalid,
                      tr_message = timeline_error_text (de_error e)\<rparr>)
         (decode_timeline_document c payload None))
       (\<lambda>t. if document_generation t \<le> latest
            then Inl \<lparr>tr_identity = document_identity t, tr_kind = RejectedStale,
                      tr_message =
                        lit ''structured timeline generation '' @ show_nat (document_generation t) @
                        lit '' is not newer than committed generation '' @ show_nat latest\<rparr>
            else Inr \<lparr>sp_generation = document_generation t, sp_timeline = t, sp_letter = False\<rparr>)"

definition commit_generation :: "nat \<Rightarrow> presentation_generations \<Rightarrow> presentation_generations" where
  "commit_generation generation latest = max latest generation"

definition prefer_newer_timeline ::
    "prepared_structured_presentation \<Rightarrow> prepared_structured_presentation \<Rightarrow>
     prepared_structured_presentation" where
  "prefer_newer_timeline current candidate =
     (if sp_generation current < sp_generation candidate then candidate else current)"

definition select_adjacent_timeline ::
    "prepared_structured_presentation \<Rightarrow> prepared_structured_presentation \<Rightarrow>
     adjacent_timeline_selection" where
  "select_adjacent_timeline current candidate =
     (if \<not> document_shares_domain (sp_timeline current) (sp_timeline candidate)
      then PreserveOrder current candidate
      else Coalesced (prefer_newer_timeline current candidate)
             (if sp_generation current < sp_generation candidate
              then document_dispatch_id (sp_timeline current)
              else document_dispatch_id (sp_timeline candidate)))"

definition prefer_newer :: "prepared_presentation \<Rightarrow> prepared_presentation \<Rightarrow> prepared_presentation"
  where
  "prefer_newer current candidate =
     (if fp_generation current < fp_generation candidate then candidate else current)"

section \<open>Multipart assembly\<close>

record multipart_assembler =
  ma_protocol_version :: nat
  ma_generation :: nat
  ma_dispatch_id :: nat
  ma_part_count :: nat
  ma_decoded_bytes :: nat
  ma_next_part_index :: nat
  ma_encoded_payload :: rstr

definition expected_encoded_bytes :: "nat \<Rightarrow> nat" where
  "expected_encoded_bytes decoded = div_ceil decoded 3 * 4"

definition is_complete :: "multipart_assembler \<Rightarrow> bool" where
  "is_complete a \<longleftrightarrow> ma_next_part_index a = ma_part_count a"

definition push_part :: "timeline_part \<Rightarrow> multipart_assembler \<Rightarrow> rstr + multipart_assembler" where
  "push_part part a =
     (if mp_protocol_version part \<noteq> ma_protocol_version a \<or> mp_generation part \<noteq> ma_generation a \<or>
         mp_dispatch_id part \<noteq> ma_dispatch_id a \<or> mp_part_count part \<noteq> ma_part_count a \<or>
         mp_decoded_bytes part \<noteq> ma_decoded_bytes a
      then Inl (lit ''multipart timeline metadata changed between parts'')
      else if mp_part_index part \<noteq> ma_next_part_index a
      then Inl (lit ''multipart timeline expected part '' @ show_nat (ma_next_part_index a) @
                lit '' but received '' @ show_nat (mp_part_index part))
      else if expected_encoded_bytes (ma_decoded_bytes a) <
                str_len (ma_encoded_payload a) + str_len (mp_encoded_fragment part)
      then Inl (lit ''multipart timeline contains more encoded data than declared'')
      else Inr (a\<lparr>ma_encoded_payload := ma_encoded_payload a @ mp_encoded_fragment part,
                  ma_next_part_index := ma_next_part_index a + 1\<rparr>))"

definition start_assembler :: "rstr \<Rightarrow> rstr + multipart_assembler" where
  "start_assembler arguments =
     and_then (map_err timeline_error_text (decode_any_timeline_part arguments)) (\<lambda>part.
       if mp_part_index part \<noteq> 0
       then Inl (lit ''multipart timeline must begin with part index 0'')
       else if max_timeline_aggregate_encoded_bytes < expected_encoded_bytes (mp_decoded_bytes part)
       then Inl (lit ''multipart timeline exceeds the encoded aggregate bound'')
       else push_part part
              \<lparr>ma_protocol_version = mp_protocol_version part, ma_generation = mp_generation part,
               ma_dispatch_id = mp_dispatch_id part, ma_part_count = mp_part_count part,
               ma_decoded_bytes = mp_decoded_bytes part, ma_next_part_index = 0,
               ma_encoded_payload = []\<rparr>)"

definition push :: "rstr \<Rightarrow> multipart_assembler \<Rightarrow> rstr + multipart_assembler" where
  "push arguments a =
     and_then (map_err timeline_error_text (decode_any_timeline_part arguments))
       (\<lambda>part. push_part part a)"

definition finish ::
    "timeline_codec \<Rightarrow> presentation_generations \<Rightarrow> multipart_assembler \<Rightarrow>
     rstr + prepared_structured_presentation option" where
  "finish c latest a =
     (if \<not> is_complete a
      then Inl (lit ''multipart timeline ended after '' @ show_nat (ma_next_part_index a) @
                lit '' of '' @ show_nat (ma_part_count a) @ lit '' parts'')
      else and_then
        (map_err (\<lambda>e. timeline_error_text (de_error e))
          (decode_timeline_document c (ma_encoded_payload a) (Some (ma_decoded_bytes a))))
        (\<lambda>t. if document_version t \<noteq> ma_protocol_version a \<or>
                document_generation t \<noteq> ma_generation a \<or>
                document_dispatch_id t \<noteq> ma_dispatch_id a
             then Inl (lit ''multipart timeline header does not match its decoded envelope'')
             else Inr (prepare_decoded_timeline latest t)))"

section \<open>UTF-8\<close>

definition utf8_bytes :: "rchar \<Rightarrow> nat list" where
  "utf8_bytes c =
     (if c < 128 then [c]
      else if c < 2048 then [192 + c div 64, 128 + c mod 64]
      else if c < 65536 then [224 + c div 4096, 128 + c div 64 mod 64, 128 + c mod 64]
      else [240 + c div 262144, 128 + c div 4096 mod 64, 128 + c div 64 mod 64, 128 + c mod 64])"

definition as_bytes :: "rstr \<Rightarrow> nat list" where
  "as_bytes s = concat (map utf8_bytes s)"

definition continuation :: "nat \<Rightarrow> bool" where
  "continuation b \<longleftrightarrow> 128 \<le> b \<and> b \<le> 191"

definition utf8_sequence :: "nat \<Rightarrow> nat list \<Rightarrow> (rchar \<times> nat list) option" where
  "utf8_sequence b bs =
     (if 194 \<le> b \<and> b \<le> 223
      then (case bs of
              b1 # r \<Rightarrow>
                if continuation b1 then Some ((b - 192) * 64 + (b1 - 128), r) else None
            | _ \<Rightarrow> None)
      else if 224 \<le> b \<and> b \<le> 239
      then (case bs of
              b1 # b2 # r \<Rightarrow>
                if (b = 224 \<longrightarrow> 160 \<le> b1) \<and> (b = 237 \<longrightarrow> b1 \<le> 159) \<and> continuation b1 \<and>
                   continuation b2
                then Some ((b - 224) * 4096 + (b1 - 128) * 64 + (b2 - 128), r) else None
            | _ \<Rightarrow> None)
      else if 240 \<le> b \<and> b \<le> 244
      then (case bs of
              b1 # b2 # b3 # r \<Rightarrow>
                if (b = 240 \<longrightarrow> 144 \<le> b1) \<and> (b = 244 \<longrightarrow> b1 \<le> 143) \<and> continuation b1 \<and>
                   continuation b2 \<and> continuation b3
                then Some ((b - 240) * 262144 + (b1 - 128) * 4096 + (b2 - 128) * 64 + (b3 - 128), r)
                else None
            | _ \<Rightarrow> None)
      else None)"

lemma utf8_sequence_shorter: "utf8_sequence b bs = Some (c, r) \<Longrightarrow> length r \<le> length bs"
  by (auto simp: utf8_sequence_def split: if_splits list.splits)

function from_utf8 :: "nat list \<Rightarrow> rstr option" where
  "from_utf8 [] = Some []"
| "from_utf8 (b # bs) =
     (if b < 128 then map_option ((#) b) (from_utf8 bs)
      else case utf8_sequence b bs of
             None \<Rightarrow> None
           | Some (c, r) \<Rightarrow> map_option ((#) c) (from_utf8 r))"
  by pat_completeness auto
termination
  by (relation "measure length") (auto dest!: utf8_sequence_shorter)

declare from_utf8.simps(2) [simp del]

lemma utf8_digits:
  "c div 4096 * 4096 + c div 64 mod 64 * 64 + c mod 64 = (c::nat)"
  "c div 262144 * 262144 + c div 4096 mod 64 * 4096 + c div 64 mod 64 * 64 + c mod 64 = c"
proof -
  have a: "c div 64 * 64 + c mod 64 = c" by simp
  have b: "c div 4096 * 64 + c div 64 mod 64 = c div 64"
    using div_mult_mod_eq [of "c div 64" 64] by (simp add: div_mult2_eq [symmetric])
  have d: "c div 262144 * 64 + c div 4096 mod 64 = c div 4096"
    using div_mult_mod_eq [of "c div 4096" 64] by (simp add: div_mult2_eq [symmetric])
  show "c div 4096 * 4096 + c div 64 mod 64 * 64 + c mod 64 = c" using a b by linarith
  show "c div 262144 * 262144 + c div 4096 mod 64 * 4096 + c div 64 mod 64 * 64 + c mod 64 = c"
    using a b d by linarith
qed

lemma utf8_sequence_bytes:
  assumes "is_scalar c" "128 \<le> c"
  shows "\<exists>b r. utf8_bytes c = b # r \<and> 128 \<le> b \<and> utf8_sequence b (r @ bs) = Some (c, bs)"
proof -
  have m: "x mod 64 < 64" for x :: nat by simp
  have cont: "continuation (128 + x mod 64)" for x
    using m [of x] by (simp add: continuation_def)
  consider "c < 2048" | "2048 \<le> c" "c < 65536" | "65536 \<le> c" by linarith
  then show ?thesis
  proof cases
    case 1
    with assms(2) have "2 \<le> c div 64" "c div 64 < 32" by linarith+
    with 1 assms(2) cont [of c] show ?thesis
      by (auto simp: utf8_bytes_def utf8_sequence_def)
  next
    case 2
    let ?h = "c div 4096" and ?m = "c div 64 mod 64"
    have h: "?h < 16" using 2 by linarith
    have b: "?h * 64 + ?m = c div 64"
      using div_mult_mod_eq [of "c div 64" 64] by (simp add: div_mult2_eq [symmetric])
    have lo: "?h = 0 \<longrightarrow> 32 \<le> ?m" using b 2 by linarith
    have hi: "?h = 13 \<longrightarrow> ?m \<le> 31"
      using b 2 assms(1) by (auto simp: is_scalar_def)
    with 2 h lo cont [of c] cont [of "c div 64"] utf8_digits(1) [of c] show ?thesis
      by (auto simp: utf8_bytes_def utf8_sequence_def)
  next
    case 3
    let ?h = "c div 262144" and ?m = "c div 4096 mod 64"
    have c: "c \<le> 1114111" using 3 assms(1) by (auto simp: is_scalar_def)
    have h: "?h \<le> 4" using c by linarith
    have b: "?h * 64 + ?m = c div 4096"
      using div_mult_mod_eq [of "c div 4096" 64] by (simp add: div_mult2_eq [symmetric])
    have lo: "?h = 0 \<longrightarrow> 16 \<le> ?m" using b 3 by linarith
    have hi: "?h = 4 \<longrightarrow> ?m \<le> 15" using b c by linarith
    with 3 h lo cont [of c] cont [of "c div 64"] cont [of "c div 4096"] utf8_digits(2) [of c]
    show ?thesis by (auto simp: utf8_bytes_def utf8_sequence_def)
  qed
qed

lemma from_utf8_as_bytes: "list_all is_scalar s \<Longrightarrow> from_utf8 (as_bytes s) = Some s"
proof (induction s)
  case (Cons c s)
  show ?case
  proof (cases "c < 128")
    case True
    with Cons show ?thesis by (simp add: as_bytes_def utf8_bytes_def from_utf8.simps(2))
  next
    case False
    with Cons.prems obtain b r where "utf8_bytes c = b # r" "128 \<le> b"
      "utf8_sequence b (r @ as_bytes s) = Some (c, as_bytes s)"
      using utf8_sequence_bytes [of c "as_bytes s"] by auto
    with Cons show ?thesis by (simp add: as_bytes_def from_utf8.simps(2))
  qed
qed (simp add: as_bytes_def)

lemma utf8_bytes_length: "length (utf8_bytes c) = utf8_len c"
  by (simp add: utf8_bytes_def utf8_len_def)

lemma as_bytes_length: "length (as_bytes s) = str_len s"
  by (induction s) (simp_all add: as_bytes_def utf8_bytes_length)

section \<open>Framed scripts\<close>

definition max_presentation_payload_bytes :: nat where
  "max_presentation_payload_bytes = 256 * 1024"

definition max_presentation_encoded_bytes :: nat where
  "max_presentation_encoded_bytes = (max_presentation_payload_bytes div 3) * 4 + 8"

definition max_presentation_commands :: nat where "max_presentation_commands = 4096"

record presentation_frame =
  pf_generation :: nat
  pf_script :: rstr

datatype presentation_frame_error =
  FrameInvalidArguments | FrameInvalidGeneration | FramePayloadTooLarge
| FrameInvalidBase64 rstr | FrameInvalidUtf8

definition encode_presentation_script ::
    "timeline_codec \<Rightarrow> rstr \<Rightarrow> presentation_frame_error + rstr" where
  "encode_presentation_script c script =
     (if max_presentation_payload_bytes < str_len script then Inl FramePayloadTooLarge
      else Inr (base64_encode c (as_bytes script)))"

definition frame_word :: "rstr \<Rightarrow> rstr option" where
  "frame_word word =
     Option.bind (strip_prefix [123] word) (\<lambda>r.
     Option.bind (strip_suffix [125] r) (\<lambda>payload.
       if list_ex (\<lambda>c. c \<in> {123, 125, 32, 9, 13, 10}) payload then None else Some payload))"

definition decode_presentation_frame ::
    "timeline_codec \<Rightarrow> rstr \<Rightarrow> presentation_frame_error + presentation_frame" where
  "decode_presentation_frame c arguments0 =
     (let arguments = trim arguments0;
          before = takeWhile (\<lambda>ch. \<not> is_whitespace ch) arguments;
          after = dropWhile (\<lambda>ch. \<not> is_whitespace ch) arguments
      in if after = [] then Inl FrameInvalidArguments
         else case parse_u64 before of
                None \<Rightarrow> Inl FrameInvalidGeneration
              | Some generation \<Rightarrow>
                  if generation = 0 then Inl FrameInvalidGeneration
                  else and_then (ok_or (frame_word (trim after)) FrameInvalidArguments) (\<lambda>encoded.
                    if max_presentation_encoded_bytes < str_len encoded
                    then Inl FramePayloadTooLarge
                    else and_then (map_err FrameInvalidBase64 (base64_decode c encoded)) (\<lambda>payload.
                      if max_presentation_payload_bytes < length payload
                      then Inl FramePayloadTooLarge
                      else and_then (ok_or (from_utf8 payload) FrameInvalidUtf8) (\<lambda>script.
                        Inr \<lparr>pf_generation = generation, pf_script = script\<rparr>))))"

text \<open>\<open>str::lines\<close>: a carriage return goes with the newline that ends its line.\<close>

function str_lines :: "rstr \<Rightarrow> rstr list" where
  "str_lines s =
     (if s = [] then []
      else let line = takeWhile (\<lambda>c. c \<noteq> 10) s; rest = dropWhile (\<lambda>c. c \<noteq> 10) s
           in if rest = [] then [line]
              else (case strip_suffix [13] line of Some l \<Rightarrow> l | None \<Rightarrow> line) #
                   str_lines (tl rest))"
  by pat_completeness auto
termination
proof (relation "measure length")
  fix s :: rstr and line rest
  assume "s \<noteq> []" "rest = dropWhile (\<lambda>c. c \<noteq> 10) s" "rest \<noteq> []"
  then have "length (tl rest) < length rest" "length rest \<le> length s"
    by (simp_all add: length_dropWhile_le)
  then show "(tl rest, s) \<in> measure length" by simp
qed simp

declare str_lines.simps [simp del]

datatype presentation_error =
  EmptyPresentation | TooManyCommands nat | MustEndWithDispatch | InvalidInside command_id

datatype prepare_error =
  FrameRejected presentation_frame_error | InvalidFramedCommand parse_error
| InvalidPresentation presentation_error

definition valid_float :: "rstr \<Rightarrow> bool" where
  "valid_float v \<longleftrightarrow> is_ok (parse_finite_float v)"

definition arguments_are :: "(rstr \<Rightarrow> bool) \<Rightarrow> rstr option \<Rightarrow> bool" where
  "arguments_are f arguments \<longleftrightarrow> (case arguments of None \<Rightarrow> False | Some v \<Rightarrow> f v)"

text \<open>Whether a resource path parses does not depend on the home directory.\<close>

definition command_allowed :: "command \<Rightarrow> bool" where
  "command_allowed cmd =
     (let arguments = cmd_args cmd
      in case cmd_id cmd of
           Queue \<Rightarrow> arguments \<noteq> None
         | Code \<Rightarrow> arguments \<noteq> None
         | Dispatch \<Rightarrow> arguments = None
         | command_id.Tone \<Rightarrow> arguments_are (\<lambda>v. is_ok (parse_tone_arguments v)) arguments
         | EmacsvoxTone \<Rightarrow> arguments_are (\<lambda>v. is_ok (parse_presentation_tone_item v)) arguments
         | Silence \<Rightarrow> arguments_are (\<lambda>v. is_ok (parse_silence_duration v)) arguments
         | AudioIcon \<Rightarrow> arguments_are (\<lambda>v. is_ok (parse_resource_path None v)) arguments
         | TtsSetPunctuationProfile \<Rightarrow> arguments_are valid_profile_id arguments
         | TtsSetPunctuations \<Rightarrow>
             arguments_are (\<lambda>v. parse_punctuation_level v \<noteq> None) arguments
         | TtsSetSpeechRate \<Rightarrow> arguments_are valid_float arguments
         | TtsSetCharacterScale \<Rightarrow> arguments_are valid_float arguments
         | TtsSetPitchMultiplier \<Rightarrow> arguments_are valid_float arguments
         | TtsSetSoundVolume \<Rightarrow> arguments_are valid_float arguments
         | TtsSetToneVolume \<Rightarrow> arguments_are valid_float arguments
         | TtsSetVoiceVolume \<Rightarrow> arguments_are valid_float arguments
         | TtsSplitCaps \<Rightarrow> arguments = Some (lit ''0'') \<or> arguments = Some (lit ''1'')
         | TtsSetCapitalizationPresentation \<Rightarrow>
             arguments_are (\<lambda>v. parse_capitalization v \<noteq> None) arguments
         | TtsSyncState \<Rightarrow>
             arguments_are (\<lambda>v.
               let fields = split_whitespace v
               in length fields = 4 \<and> parse_punctuation_level (fields ! 0) \<noteq> None \<and>
                  (fields ! 1 = lit ''0'' \<or> fields ! 1 = lit ''1'') \<and>
                  (fields ! 2 = lit ''0'' \<or> fields ! 2 = lit ''1'') \<and>
                  valid_float (fields ! 3)) arguments
         | TtsSetVoice \<Rightarrow> arguments_are (\<lambda>v. v \<noteq> []) arguments
         | TtsSetSpeechChannel \<Rightarrow> arguments_are (\<lambda>v. parse_channel_mode v \<noteq> None) arguments
         | TtsSetNotificationChannel \<Rightarrow> True
         | SetLang \<Rightarrow> True
         | SetNextLang \<Rightarrow> True
         | SetPreviousLang \<Rightarrow> True
         | SetPreferredLang \<Rightarrow> True
         | _ \<Rightarrow> False)"

definition validate_command :: "command \<Rightarrow> presentation_error + unit" where
  "validate_command cmd =
     (if command_allowed cmd then Inr () else Inl (InvalidInside (cmd_id cmd)))"

definition validate_commands :: "command list \<Rightarrow> presentation_error + unit" where
  "validate_commands commands =
     (if commands = [] then Inl EmptyPresentation
      else if max_presentation_commands < length commands
      then Inl (TooManyCommands (length commands))
      else let dispatches = length (filter (\<lambda>cmd. cmd_id cmd = Dispatch) commands)
           in if dispatches \<noteq> 1 \<or> cmd_id (last commands) \<noteq> Dispatch
              then Inl MustEndWithDispatch
              else check_each validate_command commands)"

definition prepare_presentation ::
    "timeline_codec \<Rightarrow> presentation_generations \<Rightarrow> rstr \<Rightarrow>
     prepare_error + prepared_presentation option" where
  "prepare_presentation c latest arguments =
     and_then (map_err FrameRejected (decode_presentation_frame c arguments)) (\<lambda>frame.
       if pf_generation frame \<le> latest then Inr None
       else and_then
         (map_err InvalidFramedCommand
           (try_collect parse_command
             (filter (\<lambda>line. trim line \<noteq> []) (str_lines (pf_script frame))))) (\<lambda>commands.
         and_then (map_err InvalidPresentation (validate_commands commands)) (\<lambda>_.
         Inr (Some \<lparr>fp_generation = pf_generation frame, fp_commands = commands\<rparr>))))"

section \<open>Accepted frames\<close>

text \<open>The commands that stop speech, leave the server or nest a transaction.\<close>

definition immediate_commands :: "command_id list" where
  "immediate_commands =
     [Stop, Letter, PlaySound, TtsSay, TtsReset, Version, OmnivoxControl, EmacsvoxTx,
      EmacsvoxTimeline, EmacsvoxLetter, EmacsvoxTimelinePart, EmacsvoxTrackedDispatch,
      EmacsvoxMarkerDispatch, TtsExit]"

lemma allowed_not_immediate: "command_allowed cmd \<Longrightarrow> cmd_id cmd \<notin> set immediate_commands"
  by (auto simp: command_allowed_def immediate_commands_def)

lemma one_dispatch_last:
  assumes "length (filter P xs) = 1" "xs \<noteq> []" "P (last xs)"
  shows "list_all (\<lambda>x. \<not> P x) (butlast xs)"
proof -
  from assms(2) obtain ys y where "xs = ys @ [y]" by (cases xs rule: rev_cases) auto
  with assms show ?thesis by (simp add: filter_empty_conv list_all_iff)
qed

lemma validated_commands:
  assumes "validate_commands commands = Inr ()"
  shows "commands \<noteq> [] \<and> length commands \<le> max_presentation_commands \<and>
         cmd_id (last commands) = Dispatch \<and>
         list_all (\<lambda>cmd. cmd_id cmd \<noteq> Dispatch) (butlast commands) \<and>
         list_all (\<lambda>cmd. command_allowed cmd \<and> cmd_id cmd \<notin> set immediate_commands) commands"
proof -
  from assms have v: "commands \<noteq> []" "length commands \<le> max_presentation_commands"
    "length (filter (\<lambda>cmd. cmd_id cmd = Dispatch) commands) = 1" "cmd_id (last commands) = Dispatch"
    "check_each validate_command commands = Inr ()"
    by (auto simp: validate_commands_def Let_def split: if_splits)
  from one_dispatch_last [OF v(3,1)] v(4)
  have "list_all (\<lambda>cmd. cmd_id cmd \<noteq> Dispatch) (butlast commands)" by simp
  moreover have "list_all command_allowed commands"
    using v(5) by (auto simp: res_simps validate_command_def list_all_iff split: if_splits)
  ultimately show ?thesis
    using v by (auto simp: list_all_iff dest: allowed_not_immediate)
qed

lemma frame_generation_positive:
  "decode_presentation_frame c arguments = Inr frame \<Longrightarrow> 0 < pf_generation frame"
  by (auto simp: decode_presentation_frame_def Let_def res_simps split: if_splits option.splits)

lemma prepared_commands:
  assumes "prepare_presentation c latest arguments = Inr (Some p)"
  shows "latest < fp_generation p \<and> validate_commands (fp_commands p) = Inr ()"
  using assms by (auto simp: prepare_presentation_def res_simps split: if_splits)

section \<open>Framing and its round trip\<close>

definition frame_arguments :: "nat \<Rightarrow> rstr \<Rightarrow> rstr" where
  "frame_arguments generation encoded = show_nat generation @ [32] @ [123] @ encoded @ [125]"

lemma digit_no_ws: "is_ascii_digit c \<Longrightarrow> \<not> is_whitespace c"
  by (auto simp: is_ascii_digit_def is_whitespace_def)

lemma show_nat_no_ws: "no_ws (show_nat n)"
  using show_nat_digits [of n] by (auto simp: list_all_iff dest: digit_no_ws)

lemma takeWhile_no_ws:
  "no_ws w \<Longrightarrow> takeWhile (\<lambda>c. \<not> is_whitespace c) (w @ 32 # s) = w \<and>
               dropWhile (\<lambda>c. \<not> is_whitespace c) (w @ 32 # s) = 32 # s"
  by (induction w) (auto simp: is_whitespace_def)

lemma trim_word: "no_ws w \<Longrightarrow> trim w = w"
  by (rule trim_id) (cases w; auto simp: list_all_iff)

lemma frame_roundtrip_lemma:
  assumes e: "encode_presentation_script c script = Inr w" and b: "base64_faithful c (as_bytes script)"
    and s: "list_all is_scalar script" and g: "0 < g" "g \<le> u64_max"
  shows "decode_presentation_frame c (frame_arguments g w) = Inr \<lparr>pf_generation = g, pf_script = script\<rparr>"
proof -
  from e have w: "w = base64_encode c (as_bytes script)"
    and len: "length (as_bytes script) \<le> max_presentation_payload_bytes"
    by (auto simp: encode_presentation_script_def as_bytes_length split: if_splits)
  from b have a: "list_all base64_char w" "length w = div_ceil (length (as_bytes script)) 3 * 4"
    "base64_decode c w = Inr (as_bytes script)"
    by (auto simp: base64_faithful_def Let_def w)
  let ?word = "[123] @ w @ [125]"
  have "\<not> is_whitespace 123" "\<not> is_whitespace 125" by (simp_all add: is_whitespace_def)
  with a(1) have word: "no_ws ?word" by (auto simp: list_all_iff dest: base64_char_ascii)
  have "show_nat g \<noteq> []" using show_nat_digits by blast
  then have t: "trim (frame_arguments g w) = frame_arguments g w"
    using show_nat_no_ws [of g]
    by (intro trim_id) (cases "show_nat g"; simp add: frame_arguments_def is_whitespace_def)
  have split: "takeWhile (\<lambda>c. \<not> is_whitespace c) (frame_arguments g w) = show_nat g"
    "dropWhile (\<lambda>c. \<not> is_whitespace c) (frame_arguments g w) = 32 # ?word"
    using takeWhile_no_ws [OF show_nat_no_ws, of g ?word] by (simp_all add: frame_arguments_def)
  have trim_word': "trim (32 # ?word) = ?word"
    using trim_word [OF word] by (simp add: trim_def trim_start_def is_whitespace_def)
  have "\<not> list_ex (\<lambda>c. c \<in> {123, 125, 32, 9, 13, 10}) w"
    using a(1) by (auto simp: list_ex_iff list_all_iff base64_char_def is_ascii_alphanumeric_def
        is_ascii_digit_def is_ascii_lowercase_def is_ascii_uppercase_def)
  then have word': "frame_word ?word = Some w"
    using strip_suffix_Some [of "[125]" "w @ [125]" w] by (simp add: frame_word_def)
  have "str_len w \<le> max_presentation_encoded_bytes"
    using div_ceil_mono [OF len, of 3] base64_word(2) [OF a(1)] a(2)
    by (simp add: max_presentation_encoded_bytes_def max_presentation_payload_bytes_def div_ceil_def)
  moreover have "\<exists>x \<in> set (frame_arguments g w). is_whitespace x"
    by (rule bexI [of _ 32]) (simp_all add: frame_arguments_def is_whitespace_def)
  ultimately show ?thesis
    using t split trim_word' word' a(3) len g parse_unsigned_show [OF g(2)] from_utf8_as_bytes [OF s]
    by (simp add: decode_presentation_frame_def parse_u64_def Let_def)
qed

section \<open>Assembly\<close>

text \<open>A protocol reader starts an assembler with the first part and pushes the others.\<close>

fun push_lines :: "rstr list \<Rightarrow> multipart_assembler \<Rightarrow> rstr + multipart_assembler" where
  "push_lines [] a = Inr a"
| "push_lines (l # ls) a = and_then (push l a) (push_lines ls)"

definition assemble :: "rstr list \<Rightarrow> rstr + multipart_assembler" where
  "assemble ls =
     (case ls of [] \<Rightarrow> Inl [] | l # rest \<Rightarrow> and_then (start_assembler l) (push_lines rest))"

definition assembler_ok :: "multipart_assembler \<Rightarrow> bool" where
  "assembler_ok a \<longleftrightarrow>
     0 < ma_next_part_index a \<and> ma_next_part_index a \<le> ma_part_count a \<and>
     ma_part_count a \<le> max_timeline_parts \<and>
     str_len (ma_encoded_payload a) \<le> expected_encoded_bytes (ma_decoded_bytes a) \<and>
     expected_encoded_bytes (ma_decoded_bytes a) \<le> max_timeline_aggregate_encoded_bytes \<and>
     list_all base64_char (ma_encoded_payload a)"

lemma decoded_part:
  assumes "decode_any_timeline_part arguments = Inr part"
  shows "mp_part_index part < mp_part_count part" "mp_part_count part \<le> max_timeline_parts"
    and "list_all base64_char (mp_encoded_fragment part)"
  using assms
  by (auto simp: decode_any_timeline_part_def decode_timeline_part_version_def Let_def res_simps)

lemma push_part_Inr:
  "push_part part a = Inr a' \<longleftrightarrow>
   mp_protocol_version part = ma_protocol_version a \<and> mp_generation part = ma_generation a \<and>
   mp_dispatch_id part = ma_dispatch_id a \<and> mp_part_count part = ma_part_count a \<and>
   mp_decoded_bytes part = ma_decoded_bytes a \<and> mp_part_index part = ma_next_part_index a \<and>
   str_len (ma_encoded_payload a) + str_len (mp_encoded_fragment part) \<le>
     expected_encoded_bytes (ma_decoded_bytes a) \<and>
   a' = a\<lparr>ma_encoded_payload := ma_encoded_payload a @ mp_encoded_fragment part,
          ma_next_part_index := ma_next_part_index a + 1\<rparr>"
  by (auto simp: push_part_def)

lemma start_ok:
  assumes "start_assembler l = Inr a"
  shows "assembler_ok a"
proof -
  from assms obtain part where p: "decode_any_timeline_part l = Inr part"
    "expected_encoded_bytes (mp_decoded_bytes part) \<le> max_timeline_aggregate_encoded_bytes"
    "push_part part
       \<lparr>ma_protocol_version = mp_protocol_version part, ma_generation = mp_generation part,
        ma_dispatch_id = mp_dispatch_id part, ma_part_count = mp_part_count part,
        ma_decoded_bytes = mp_decoded_bytes part, ma_next_part_index = 0,
        ma_encoded_payload = []\<rparr> = Inr a"
    by (auto simp: start_assembler_def res_simps split: if_splits)
  then show ?thesis
    using decoded_part [OF p(1)] by (auto simp: assembler_ok_def push_part_Inr)
qed

lemma push_ok:
  assumes "push l a = Inr a'" "assembler_ok a"
  shows "assembler_ok a'"
proof -
  from assms(1) obtain part where p: "decode_any_timeline_part l = Inr part" "push_part part a = Inr a'"
    by (auto simp: push_def res_simps)
  then show ?thesis
    using decoded_part [OF p(1)] assms(2) by (auto simp: assembler_ok_def push_part_Inr)
qed

lemma push_lines_ok: "push_lines ls a = Inr a' \<Longrightarrow> assembler_ok a \<Longrightarrow> assembler_ok a'"
  by (induction ls arbitrary: a) (auto simp: res_simps dest: push_ok)

lemma assemble_ok: "assemble ls = Inr a \<Longrightarrow> assembler_ok a"
  by (auto simp: assemble_def res_simps dest: start_ok push_lines_ok split: list.splits)

section \<open>Splitting and reassembling\<close>

fun join_sp :: "rstr list \<Rightarrow> rstr" where
  "join_sp [] = []"
| "join_sp [f] = f"
| "join_sp (f # g # fs) = f @ [32] @ join_sp (g # fs)"

lemma split_join_sp:
  "list_all (\<lambda>f. f \<noteq> [] \<and> no_ws f) fs \<Longrightarrow> split_whitespace (join_sp fs) = fs"
proof (induction fs rule: join_sp.induct)
  case (2 f)
  then show ?case using split_word [of f "[]"] by (simp add: split_whitespace_def)
next
  case (3 f g fs)
  have "split_ws_aux [] (f @ 32 # join_sp (g # fs)) = f # split_ws_aux [] (32 # join_sp (g # fs))"
    using 3(2) by (intro split_word) (auto simp: is_whitespace_def)
  also have "split_ws_aux [] (32 # join_sp (g # fs)) = g # fs"
    using 3 by (simp add: split_whitespace_def is_whitespace_def)
  finally show ?case by (simp add: split_whitespace_def)
qed (simp add: split_whitespace_def)

definition part_line :: "timeline_part \<Rightarrow> rstr" where
  "part_line p =
     join_sp [show_nat (mp_protocol_version p), show_nat (mp_generation p),
              show_nat (mp_dispatch_id p), show_nat (mp_part_index p), show_nat (mp_part_count p),
              show_nat (mp_decoded_bytes p), mp_encoded_fragment p]"

definition part_ok :: "timeline_part \<Rightarrow> bool" where
  "part_ok p \<longleftrightarrow>
     3 \<le> mp_protocol_version p \<and> mp_protocol_version p \<le> 7 \<and>
     0 < mp_generation p \<and> mp_generation p \<le> u64_max \<and>
     0 < mp_dispatch_id p \<and> mp_dispatch_id p \<le> u64_max \<and>
     mp_part_index p < mp_part_count p \<and> mp_part_count p \<le> max_timeline_parts \<and>
     0 < mp_decoded_bytes p \<and> mp_decoded_bytes p \<le> max_timeline_aggregate_bytes \<and>
     mp_encoded_fragment p \<noteq> [] \<and> str_len (mp_encoded_fragment p) \<le> max_timeline_encoded_bytes \<and>
     list_all base64_char (mp_encoded_fragment p) \<and>
     (mp_part_index p + 1 < mp_part_count p \<longrightarrow> 61 \<notin> set (mp_encoded_fragment p))"

lemma decode_part_line:
  assumes "part_ok p"
  shows "decode_any_timeline_part (part_line p) = Inr p"
proof -
  have bounds: "max_timeline_parts \<le> u64_max" "max_timeline_aggregate_bytes \<le> u64_max" "7 \<le> u64_max"
    by (simp_all add: max_timeline_parts_def max_timeline_aggregate_bytes_def u64_max_def)
  with assms have "mp_protocol_version p \<le> u64_max" "mp_part_index p \<le> u64_max"
    "mp_part_count p \<le> u64_max" "mp_decoded_bytes p \<le> u64_max"
    unfolding part_ok_def by linarith+
  then have n: "parse_u64 (show_nat (mp_protocol_version p)) = Some (mp_protocol_version p)"
    "parse_u64 (show_nat (mp_generation p)) = Some (mp_generation p)"
    "parse_u64 (show_nat (mp_dispatch_id p)) = Some (mp_dispatch_id p)"
    "parse_u64 (show_nat (mp_part_index p)) = Some (mp_part_index p)"
    "parse_u64 (show_nat (mp_part_count p)) = Some (mp_part_count p)"
    "parse_u64 (show_nat (mp_decoded_bytes p)) = Some (mp_decoded_bytes p)"
    using assms by (simp_all add: parse_u64_def parse_unsigned_show part_ok_def)
  have "split_whitespace (part_line p) =
      [show_nat (mp_protocol_version p), show_nat (mp_generation p), show_nat (mp_dispatch_id p),
       show_nat (mp_part_index p), show_nat (mp_part_count p), show_nat (mp_decoded_bytes p),
       mp_encoded_fragment p]"
    unfolding part_line_def
    using assms show_nat_no_ws show_nat_digits
    by (intro split_join_sp) (auto simp: part_ok_def list_all_iff dest: base64_char_ascii)
  then show ?thesis
    using assms n
    by (auto simp: decode_any_timeline_part_def decode_timeline_part_version_def Let_def
        parse_number_def invalid_if_def part_ok_def)
qed

definition document_part :: "timeline_document \<Rightarrow> nat \<Rightarrow> rstr list \<Rightarrow> nat \<Rightarrow> timeline_part" where
  "document_part d decoded fragments i =
     \<lparr>mp_protocol_version = document_version d, mp_generation = document_generation d,
      mp_dispatch_id = document_dispatch_id d, mp_part_index = i, mp_part_count = length fragments,
      mp_decoded_bytes = decoded, mp_encoded_fragment = fragments ! i\<rparr>"

definition part_lines :: "timeline_document \<Rightarrow> nat \<Rightarrow> rstr list \<Rightarrow> rstr list" where
  "part_lines d decoded fragments =
     map (\<lambda>i. part_line (document_part d decoded fragments i)) [0 ..< length fragments]"

text \<open>A split a client may send: at most 64 nonempty bounded fragments, padding in the last.\<close>

definition fragments_ok :: "rstr list \<Rightarrow> bool" where
  "fragments_ok fragments \<longleftrightarrow>
     fragments \<noteq> [] \<and> length fragments \<le> max_timeline_parts \<and>
     list_all (\<lambda>f. f \<noteq> [] \<and> str_len f \<le> max_timeline_encoded_bytes) fragments \<and>
     list_all (\<lambda>f. 61 \<notin> set f) (butlast fragments)"

definition assembler_at :: "timeline_document \<Rightarrow> nat \<Rightarrow> rstr list \<Rightarrow> nat \<Rightarrow> multipart_assembler" where
  "assembler_at d decoded fragments k =
     \<lparr>ma_protocol_version = document_version d, ma_generation = document_generation d,
      ma_dispatch_id = document_dispatch_id d, ma_part_count = length fragments,
      ma_decoded_bytes = decoded, ma_next_part_index = k,
      ma_encoded_payload = concat (take k fragments)\<rparr>"

lemma str_len_concat_take:
  "k < length fragments \<Longrightarrow>
   str_len (concat (take k fragments)) + str_len (fragments ! k) \<le> str_len (concat fragments)"
proof -
  assume "k < length fragments"
  then have "concat fragments = concat (take k fragments) @ fragments ! k @ concat (drop (Suc k) fragments)"
    by (metis append_take_drop_id concat.simps(2) concat_append Cons_nth_drop_Suc)
  then show ?thesis by (metis add.assoc le_add1 str_len_append)
qed

lemma push_at:
  assumes p: "part_ok (document_part d decoded fragments k)" and k: "k < length fragments"
    and len: "str_len (concat fragments) \<le> expected_encoded_bytes decoded"
  shows "push_part (document_part d decoded fragments k) (assembler_at d decoded fragments k) =
         Inr (assembler_at d decoded fragments (Suc k))"
  using str_len_concat_take [OF k] len k
  by (simp add: push_part_Inr document_part_def assembler_at_def take_Suc_conv_app_nth)

lemma push_lines_at:
  assumes ok: "\<And>i. i < length fragments \<Longrightarrow> part_ok (document_part d decoded fragments i)"
    and len: "str_len (concat fragments) \<le> expected_encoded_bytes decoded"
    and "k \<le> length fragments"
  shows "push_lines (map (\<lambda>i. part_line (document_part d decoded fragments i)) [k ..< length fragments])
           (assembler_at d decoded fragments k) = Inr (assembler_at d decoded fragments (length fragments))"
  using assms(3)
proof (induction "length fragments - k" arbitrary: k)
  case 0
  then show ?case by simp
next
  case (Suc n)
  then have k: "k < length fragments" by simp
  then have "[k ..< length fragments] = k # [Suc k ..< length fragments]" by (rule upt_conv_Cons)
  moreover have "push (part_line (document_part d decoded fragments k))
      (assembler_at d decoded fragments k) = Inr (assembler_at d decoded fragments (Suc k))"
    using push_at [OF ok [OF k] k len] decode_part_line [OF ok [OF k]] by (simp add: push_def)
  ultimately show ?case using Suc by simp
qed

lemma assemble_at:
  assumes ok: "\<And>i. i < length fragments \<Longrightarrow> part_ok (document_part d decoded fragments i)"
    and len: "str_len (concat fragments) \<le> expected_encoded_bytes decoded" and "fragments \<noteq> []"
  shows "assemble (part_lines d decoded fragments) =
         Inr (assembler_at d decoded fragments (length fragments))"
proof -
  from assms(3) have k: "0 < length fragments" by simp
  then have l: "part_lines d decoded fragments = part_line (document_part d decoded fragments 0) #
      map (\<lambda>i. part_line (document_part d decoded fragments i)) [1 ..< length fragments]"
    unfolding part_lines_def by (subst upt_conv_Cons) simp_all
  have "decoded \<le> max_timeline_aggregate_bytes"
    using ok [OF k] by (simp add: part_ok_def document_part_def)
  then have m: "expected_encoded_bytes decoded \<le> max_timeline_aggregate_encoded_bytes"
    using div_ceil_mono [of decoded max_timeline_aggregate_bytes 3]
    by (simp add: expected_encoded_bytes_def max_timeline_aggregate_encoded_bytes_def)
  have "start_assembler (part_line (document_part d decoded fragments 0)) =
      Inr (assembler_at d decoded fragments 1)"
    using push_at [OF ok [OF k] k len] decode_part_line [OF ok [OF k]] m
    by (simp add: start_assembler_def document_part_def assembler_at_def)
  then show ?thesis
    using push_lines_at [OF ok len, of 1] k by (simp add: l assemble_def Suc_leI)
qed

lemma multipart_transport_lemma:
  assumes e: "encode_document c d True = Inr w" and j: "json_faithful c d bytes"
    and b: "base64_faithful c bytes" and w: "w = concat fragments" and f: "fragments_ok fragments"
    and u: "document_generation d \<le> u64_max" "document_dispatch_id d \<le> u64_max"
  shows "\<exists>a. assemble (part_lines d (length bytes) fragments) = Inr a \<and>
             finish c latest a = Inr (prepare_decoded_timeline latest d)"
proof -
  note enc = encode_document_Inr [OF e j]
  have word: "list_all base64_char w" "length w = expected_encoded_bytes (length bytes)"
    using b enc by (auto simp: base64_faithful_def Let_def expected_encoded_bytes_def)
  have ne: "fragments \<noteq> []" "w \<noteq> []"
    using f w by (cases fragments; auto simp: fragments_ok_def)+
  then have bytes: "bytes \<noteq> []" using word(2) by (auto simp: expected_encoded_bytes_def div_ceil_def)
  have v: "3 \<le> document_version d \<and> document_version d \<le> 7"
  proof (cases d)
    case (LegacyDocument t)
    with e show ?thesis by (auto simp: encode_multipart_presentation_timeline_def res_simps)
  qed (use validated_version_number [of d True] enc in auto)
  have "part_ok (document_part d (length bytes) fragments i)" if i: "i < length fragments" for i
  proof -
    have m: "fragments ! i \<in> set fragments" using i by simp
    then have "list_all base64_char (fragments ! i)"
      using word(1) unfolding w by (auto simp: list_all_iff)
    moreover have "61 \<notin> set (fragments ! i)" if "i + 1 < length fragments"
    proof -
      have "fragments ! i = butlast fragments ! i" "i < length (butlast fragments)"
        using that by (simp_all add: nth_butlast)
      with f show ?thesis by (metis fragments_ok_def list_all_length)
    qed
    ultimately show ?thesis
      using f i m u v bytes enc validated_document [of d True]
      by (auto simp: part_ok_def document_part_def fragments_ok_def list_all_iff limit_def w Suc_le_eq)
  qed
  moreover have "str_len (concat fragments) \<le> expected_encoded_bytes (length bytes)"
    using base64_word(2) [OF word(1)] word(2) w by simp
  ultimately have "assemble (part_lines d (length bytes) fragments) =
      Inr (assembler_at d (length bytes) fragments (length fragments))"
    using assemble_at [OF _ _ ne(1)] by blast
  moreover have "decode_timeline_document c w (Some (length bytes)) = Inr d"
    using document_roundtrip_lemma [OF e j b bytes] by simp
  ultimately show ?thesis
    by (auto simp: finish_def is_complete_def assembler_at_def w)
qed

section \<open>Properties\<close>

text \<open>A codec that knows the script \<open>d\<close>.\<close>

definition script_codec :: timeline_codec where
  "script_codec = sample_codec\<lparr>base64_encode := \<lambda>_. lit ''ZA=='', base64_decode := \<lambda>_. Inr [100]\<rparr>"

lemma script_bytes: "as_bytes (lit ''d'') = [100]"
  by (simp add: as_bytes_def utf8_bytes_def text_eval)

lemma script_codec_faithful: "base64_faithful script_codec (as_bytes (lit ''d''))"
  unfolding script_bytes
  by (simp add: base64_faithful_def script_codec_def text_eval div_ceil_def base64_char_def
      is_ascii_alphanumeric_def is_ascii_uppercase_def)

lemma script_encoded: "encode_presentation_script script_codec (lit ''d'') = Inr (lit ''ZA=='')"
  by (simp add: encode_presentation_script_def script_codec_def max_presentation_payload_bytes_def
      text_eval utf8_len_def)

lemma script_decoded:
  "decode_presentation_frame script_codec (frame_arguments 1 (lit ''ZA=='')) =
   Inr \<lparr>pf_generation = 1, pf_script = lit ''d''\<rparr>"
  by (rule frame_roundtrip_lemma [OF script_encoded script_codec_faithful])
     (simp_all add: u64_max_def is_scalar_def text_eval)

text \<open>
  A framed presentation that is prepared is newer than every committed one, ends with its only
  dispatch, and holds at most 4096 commands, each of which is allowed in a frame and none of which
  interrupts speech, answers a query, nests a transaction or ends the server.
\<close>

theorem framed_commands_deferred:
  assumes "prepare_presentation c latest arguments = Inr (Some p)"
  shows "latest < fp_generation p \<and> length (fp_commands p) \<le> max_presentation_commands \<and>
         cmd_id (last (fp_commands p)) = Dispatch \<and>
         list_all (\<lambda>cmd. cmd_id cmd \<noteq> Dispatch) (butlast (fp_commands p)) \<and>
         list_all (\<lambda>cmd. command_allowed cmd \<and> cmd_id cmd \<notin> set immediate_commands) (fp_commands p)"
  using prepared_commands [OF assms] validated_commands by blast

text \<open>
  A script of Unicode scalar values within the payload bound, framed with a positive
  generation, is decoded to that generation and that script.
\<close>

theorem frame_roundtrip:
  assumes "encode_presentation_script c script = Inr w" "base64_faithful c (as_bytes script)"
    and "list_all is_scalar script" "0 < g" "g \<le> u64_max"
  shows "decode_presentation_frame c (frame_arguments g w) =
         Inr \<lparr>pf_generation = g, pf_script = script\<rparr>"
  by (rule frame_roundtrip_lemma [OF assms])

text \<open>
  C18: the encoding of a document split into fragments and sent as parts in order is reassembled,
  and finishing the assembly prepares exactly that document, or absorbs it when its generation is
  not newer than the committed one.
\<close>

theorem multipart_transport:
  assumes "encode_document c d True = Inr w" "json_faithful c d bytes" "base64_faithful c bytes"
    and "w = concat fragments" "fragments_ok fragments"
    and "document_generation d \<le> u64_max" "document_dispatch_id d \<le> u64_max"
  shows "\<exists>a. assemble (part_lines d (length bytes) fragments) = Inr a \<and>
             finish c latest a = Inr (prepare_decoded_timeline latest d)"
  by (rule multipart_transport_lemma [OF assms])

theorem multipart_transport_witness:
  "\<exists>a. assemble (part_lines (RichDocument sample_rich) 3 [lit ''AA'', lit ''AA'']) = Inr a \<and>
       finish sample_codec 0 a =
         Inr (Some \<lparr>sp_generation = 1, sp_timeline = RichDocument sample_rich, sp_letter = False\<rparr>)"
proof -
  have e: "encode_document sample_codec (RichDocument sample_rich) True = Inr (lit ''AAAA'')"
    by (simp add: encode_timeline_v6_def encode_layers_def sample_valid)
       (simp add: sample_codec_def limit_def max_timeline_aggregate_bytes_def)
  have f: "fragments_ok [lit ''AA'', lit ''AA'']"
    by (simp add: fragments_ok_def max_timeline_parts_def max_timeline_encoded_bytes_def
        max_timeline_payload_bytes_def text_eval utf8_len_def)
  have w: "lit ''AAAA'' = concat [lit ''AA'', lit ''AA'']" by (simp add: text_eval)
  from multipart_transport [OF e sample_json sample_faithful w f, of 0] show ?thesis
    by (simp add: sample_rich_def u64_max_def prepare_decoded_timeline_def numeral_3_eq_3)
qed

text \<open>
  Whatever lines arrive, an assembly that has not been rejected holds only Base64 characters,
  never more of them than its declared size needs nor more than the aggregate bound, and never
  more parts than it announced.
\<close>

theorem assembler_bounded:
  assumes "assemble ls = Inr a"
  shows "assembler_ok a"
  by (rule assemble_ok [OF assms])

end
