(* ===== verification/Synth_Requests.thy ===== *)
theory Synth_Requests
  imports Timeline_Transport Work_Queue Routing_Snapshot
begin

text \<open>
  The messages the protocol reader hands to the synthesis worker, after
  \<open>omnivox-cli/src/server.rs\<close>: the keyed cancellation registry, the pending legacy batch, the
  request enumeration with its memory accounting (\<open>omnivox-cli/src/routing.rs\<close> for the captured
  routing), admission to the bounded queue, and the records written for retired requests. Shared
  objects behind \<open>Arc\<close> are explicit: a cancellation token is the number its allocation got, and
  the registry and the set of cancelled tokens are one state that every operation threads.
\<close>

section \<open>Lifecycle timings\<close>

text \<open>
  \<open>RequestLifecycle\<close> of \<open>lifecycle.rs\<close>. An \<open>Instant\<close> is its microseconds since the origin of the
  monotonic clock; a stored time is offset by one, zero meaning that nothing was recorded.
\<close>

record request_lifecycle =
  rl_admitted_at :: "nat option"
  rl_audio_queued_us :: nat
  rl_mixer_source_started_us :: nat

definition new_lifecycle :: request_lifecycle where
  "new_lifecycle = \<lparr>rl_admitted_at = None, rl_audio_queued_us = 0, rl_mixer_source_started_us = 0\<rparr>"

definition commit_lifecycle :: "nat \<Rightarrow> request_lifecycle \<Rightarrow> request_lifecycle" where
  "commit_lifecycle now l =
     (if rl_admitted_at l = None then l\<lparr>rl_admitted_at := Some now\<rparr> else l)"

definition elapsed_us_at :: "nat \<Rightarrow> request_lifecycle \<Rightarrow> nat option" where
  "elapsed_us_at observed l =
     map_option (\<lambda>a. min u64_max (saturating_sub observed a)) (rl_admitted_at l)"

definition record_first_elapsed :: "nat \<Rightarrow> nat \<Rightarrow> request_lifecycle \<Rightarrow> nat" where
  "record_first_elapsed stored observed l =
     (case elapsed_us_at observed l of
        None \<Rightarrow> stored
      | Some e \<Rightarrow> if stored = 0 then u64_saturating_add e 1 else stored)"

definition record_audio_queued_at :: "nat \<Rightarrow> request_lifecycle \<Rightarrow> request_lifecycle" where
  "record_audio_queued_at now l =
     l\<lparr>rl_audio_queued_us := record_first_elapsed (rl_audio_queued_us l) now l\<rparr>"

definition record_mixer_source_started :: "nat \<Rightarrow> request_lifecycle \<Rightarrow> request_lifecycle" where
  "record_mixer_source_started now l =
     l\<lparr>rl_mixer_source_started_us := record_first_elapsed (rl_mixer_source_started_us l) now l\<rparr>"

definition recorded_elapsed :: "nat \<Rightarrow> nat option" where
  "recorded_elapsed stored = (if stored = 0 then None else Some (stored - 1))"

section \<open>Keyed cancellation\<close>

text \<open>
  \<open>cr_active\<close> is the map behind the registry's mutex, \<open>cr_cancelled\<close> the tokens on which
  \<open>cancel\<close> was called, and \<open>cr_next\<close> names the next token allocated.
\<close>

record cancellation_registry =
  cr_active :: "replacement_domain \<rightharpoonup> nat"
  cr_cancelled :: "nat set"
  cr_next :: nat

record keyed_lease =
  kl_domain :: replacement_domain
  kl_token :: nat
  kl_active :: bool

definition empty_cancellations :: cancellation_registry where
  "empty_cancellations = \<lparr>cr_active = Map.empty, cr_cancelled = {}, cr_next = 0\<rparr>"

definition prepare_lease ::
    "replacement_domain \<Rightarrow> cancellation_registry \<Rightarrow> keyed_lease \<times> cancellation_registry" where
  "prepare_lease d r =
     (\<lparr>kl_domain = d, kl_token = cr_next r, kl_active = False\<rparr>, r\<lparr>cr_next := cr_next r + 1\<rparr>)"

definition activate_lease ::
    "keyed_lease \<Rightarrow> cancellation_registry \<Rightarrow> keyed_lease \<times> cancellation_registry" where
  "activate_lease l r =
     (if kl_active l then (l, r)
      else (l\<lparr>kl_active := True\<rparr>,
            r\<lparr>cr_active := (cr_active r)(kl_domain l \<mapsto> kl_token l),
              cr_cancelled :=
                (case cr_active r (kl_domain l) of
                   None \<Rightarrow> cr_cancelled r | Some previous \<Rightarrow> insert previous (cr_cancelled r))\<rparr>))"

definition drop_lease :: "keyed_lease \<Rightarrow> cancellation_registry \<Rightarrow> cancellation_registry" where
  "drop_lease l r =
     (if \<not> kl_active l then r
      else if cr_active r (kl_domain l) = Some (kl_token l)
      then r\<lparr>cr_active := (cr_active r)(kl_domain l := None)\<rparr> else r)"

section \<open>The pending batch\<close>

definition max_pending_items :: nat where "max_pending_items = 4096"
definition max_pending_payload_bytes :: nat where "max_pending_payload_bytes = 16 * 1024 * 1024"

datatype pending_overflow = ItemCount nat | PayloadBytes nat

fun pending_overflow_text :: "pending_overflow \<Rightarrow> rstr" where
  "pending_overflow_text (ItemCount n) =
     lit ''legacy transaction has '' @ show_nat n @ lit '' items; limit is '' @
       show_nat max_pending_items"
| "pending_overflow_text (PayloadBytes n) =
     lit ''legacy transaction has '' @ show_nat n @ lit '' payload bytes; limit is '' @
       show_nat max_pending_payload_bytes"

record pending_batch =
  pb_items :: "queue_item list"
  pb_payload_bytes :: nat
  pb_overflow :: "pending_overflow option"

definition empty_batch :: pending_batch where
  "empty_batch = \<lparr>pb_items = [], pb_payload_bytes = 0, pb_overflow = None\<rparr>"

fun queue_item_payload_bytes :: "queue_item \<Rightarrow> nat" where
  "queue_item_payload_bytes (SpeechItem s) = str_len s"
| "queue_item_payload_bytes (CodeItem s) = str_len s"
| "queue_item_payload_bytes (AudioIconItem path) = str_len path"
| "queue_item_payload_bytes _ = 0"

definition pending_push :: "queue_item \<Rightarrow> pending_batch \<Rightarrow> pending_overflow option \<times> pending_batch"
    where
  "pending_push item b =
     (if pb_overflow b \<noteq> None then (None, b)
      else
        let attempted_items = usize_saturating_add (length (pb_items b)) 1;
            attempted_bytes =
              usize_saturating_add (pb_payload_bytes b) (queue_item_payload_bytes item);
            overflow =
              (if max_pending_items < attempted_items then Some (ItemCount attempted_items)
               else if max_pending_payload_bytes < attempted_bytes
               then Some (PayloadBytes attempted_bytes) else None)
        in case overflow of
             Some ov \<Rightarrow>
               (Some ov, \<lparr>pb_items = [], pb_payload_bytes = 0, pb_overflow = Some ov\<rparr>)
           | None \<Rightarrow>
               (None, b\<lparr>pb_items := pb_items b @ [item], pb_payload_bytes := attempted_bytes\<rparr>))"

definition pending_is_empty :: "pending_batch \<Rightarrow> bool" where
  "pending_is_empty b \<longleftrightarrow> pb_items b = [] \<and> pb_overflow b = None"

definition pending_take :: "pending_batch \<Rightarrow> (pending_overflow + queue_item list) \<times> pending_batch"
    where
  "pending_take b =
     (case pb_overflow b of
        Some ov \<Rightarrow> (Inl ov, \<lparr>pb_items = [], pb_payload_bytes = 0, pb_overflow = None\<rparr>)
      | None \<Rightarrow> (Inr (pb_items b), b\<lparr>pb_items := [], pb_payload_bytes := 0\<rparr>))"

definition pending_clear :: "pending_batch \<Rightarrow> pending_batch" where
  "pending_clear b = \<lparr>pb_items = [], pb_payload_bytes = 0, pb_overflow = None\<rparr>"

section \<open>Memory accounting\<close>

text \<open>
  \<open>memory_layout\<close> holds what the sources take from the compiler (\<open>size_of\<close> at each type) and
  from the JSON library (the length \<open>to_vec\<close> writes, \<open>None\<close> for an error), and what they read of
  the native parameters, whose types are parameters here.
\<close>

record ('n, 'c) memory_layout =
  of_string :: nat
  of_usize :: nat
  of_queue_item :: nat
  of_speech_span :: nat
  of_mixed_span :: nat
  of_timeline_action :: nat
  of_rich_action :: nat
  of_voice_selector :: nat
  of_voice_choice :: nat
  of_engine_choice :: nat
  of_logical_definition :: nat
  of_layered_definition :: nat
  of_engine_definition :: nat
  of_engine_descriptor :: nat
  of_voice_descriptor :: nat
  of_espeak_variant :: nat
  of_dimension :: nat
  of_native_extension :: nat
  of_native_entry :: nat
  of_parameter_descriptor :: nat
  native_parameter_count :: "'n \<Rightarrow> nat"
  definition_json_len :: "'n engine_layered_voice_definition \<Rightarrow> nat option"
  catalogue_json_len :: "'c \<Rightarrow> nat option"
  catalogue_parameter_count :: "'c \<Rightarrow> nat"

text \<open>\<open>iter().map(f).fold(base, usize::saturating_add)\<close>.\<close>

definition sat_sum :: "nat \<Rightarrow> ('a \<Rightarrow> nat) \<Rightarrow> 'a list \<Rightarrow> nat" where
  "sat_sum base f xs = foldl (\<lambda>b x. usize_saturating_add b (f x)) base xs"

definition opt_len :: "rstr option \<Rightarrow> nat" where
  "opt_len s = (case s of None \<Rightarrow> 0 | Some t \<Rightarrow> str_len t)"

fun voice_selector_payload_bytes :: "voice_selector \<Rightarrow> nat" where
  "voice_selector_payload_bytes (Exact v) =
     usize_saturating_add (str_len (pv_engine_id v)) (str_len (pv_voice_id v))"
| "voice_selector_payload_bytes (EngineDefault e) = str_len e"
| "voice_selector_payload_bytes (Properties e l g) =
     usize_saturating_add (opt_len e) (opt_len l)"

definition layered_definition_payload_bytes ::
    "('n, 'c) memory_layout \<Rightarrow> layered_voice_definition \<Rightarrow> nat" where
  "layered_definition_payload_bytes ml d =
     usize_saturating_add
       (usize_saturating_add
          (usize_saturating_add (of_layered_definition ml) (str_len (ld_id d)))
          (opt_len (ld_language d)))
       (sat_sum 0 (\<lambda>c. usize_saturating_add
                        (usize_saturating_add (of_voice_choice ml) (str_len (vc_id c)))
                        (voice_selector_payload_bytes (vc_selector c)))
          (ld_choices d))"

definition engine_definition_payload_bytes ::
    "('n, 'c) memory_layout \<Rightarrow> 'n engine_layered_voice_definition \<Rightarrow> nat" where
  "engine_definition_payload_bytes ml d =
     foldl (\<lambda>b c. usize_saturating_add (usize_saturating_add b (of_engine_choice ml))
                   (case evc_native c of
                      None \<Rightarrow> 0
                    | Some n \<Rightarrow> usize_saturating_mul (native_parameter_count ml n)
                                 (of_native_entry ml + 8 * of_usize ml)))
       (usize_saturating_add
          (case definition_json_len ml d of None \<Rightarrow> usize_max | Some n \<Rightarrow> n)
          (of_engine_definition ml))
       (el_choices d)"

definition logical_definition_payload_bytes ::
    "('n, 'c) memory_layout \<Rightarrow> logical_voice_definition \<Rightarrow> nat" where
  "logical_definition_payload_bytes ml d =
     usize_saturating_add
       (usize_saturating_add
          (usize_saturating_add (str_len (lv_id d)) (opt_len (lv_language d)))
          (usize_saturating_mul (length (lv_preferences d)) (of_voice_selector ml)))
       (sat_sum 0 voice_selector_payload_bytes (lv_preferences d))"

definition string_vec_payload_bytes :: "('n, 'c) memory_layout \<Rightarrow> rstr list \<Rightarrow> nat" where
  "string_vec_payload_bytes ml ss =
     sat_sum (usize_saturating_mul (length ss) (of_string ml)) str_len ss"

definition fallback_policy_payload_bytes :: "('n, 'c) memory_layout \<Rightarrow> fallback_policy \<Rightarrow> nat"
    where
  "fallback_policy_payload_bytes ml p =
     usize_saturating_add
       (usize_saturating_add (string_vec_payload_bytes ml (fp_preferred_engines p))
          (string_vec_payload_bytes ml (fp_fallback_engines p)))
       (case fp_global_default p of None \<Rightarrow> 0 | Some sel \<Rightarrow> voice_selector_payload_bytes sel)"

fun availability_payload_bytes :: "availability \<Rightarrow> nat" where
  "availability_payload_bytes Available = 0"
| "availability_payload_bytes (Unavailable why) = str_len why"

fun engine_health_payload_bytes :: "engine_health \<Rightarrow> nat" where
  "engine_health_payload_bytes Healthy = 0"
| "engine_health_payload_bytes (Degraded why) = str_len why"
| "engine_health_payload_bytes (Failed why) = str_len why"

text \<open>\<open>size_of_val\<close> of a slice is its length times the element size.\<close>

definition voice_payload_bytes :: "voice_descriptor \<Rightarrow> nat" where
  "voice_payload_bytes v =
     usize_saturating_add
       (usize_saturating_add
          (usize_saturating_add
             (usize_saturating_add (str_len (pv_engine_id (vd_id v)))
                (str_len (pv_voice_id (vd_id v))))
             (str_len (vd_display_name v)))
          (opt_len (vd_language v)))
       (availability_payload_bytes (vd_availability v))"

definition engine_descriptor_payload_bytes ::
    "('n, 'c) memory_layout \<Rightarrow> engine_descriptor \<Rightarrow> nat" where
  "engine_descriptor_payload_bytes ml d =
     sat_sum (str_len (ed_id d)) id
       [str_len (ed_display_name d), opt_len (ed_version d),
        availability_payload_bytes (ed_availability d),
        engine_health_payload_bytes (ed_health d),
        length (ed_espeak_variants d) * of_espeak_variant ml,
        sat_sum 0 (\<lambda>v. usize_saturating_add (str_len (ev_id v)) (str_len (ev_display_name v)))
          (ed_espeak_variants d),
        usize_saturating_mul (length (ec_post_synthesis_dimensions (ed_capabilities d)))
          (of_dimension ml),
        sat_sum (length (ec_native_extensions (ed_capabilities d)) * of_native_extension ml)
          (\<lambda>x. usize_saturating_add (str_len (ne_id x)) (str_len (ne_description x)))
          (ec_native_extensions (ed_capabilities d)),
        sat_sum (length (ed_voices d) * of_voice_descriptor ml) voice_payload_bytes (ed_voices d),
        opt_len (ed_default_voice_id d)]"

text \<open>
  \<open>EngineSelectionPermissions::retained_bytes\<close> folds a saturating sum over two sets; the order of
  the members does not matter.
\<close>

definition retained_bytes :: "('n, 'c) memory_layout \<Rightarrow> engine_selection_permissions \<Rightarrow> nat" where
  "retained_bytes ml p =
     min usize_max
       ((\<Sum>i \<in> esp_disabled p. usize_saturating_add (str_len i) (of_string ml)) +
        (\<Sum>i \<in> esp_explicit_only p. usize_saturating_add (str_len i) (of_string ml)))"

definition catalogue_payload_bytes :: "('n, 'c) memory_layout \<Rightarrow> 'c \<Rightarrow> nat" where
  "catalogue_payload_bytes ml c =
     usize_saturating_add
       (case catalogue_json_len ml c of None \<Rightarrow> usize_max | Some n \<Rightarrow> n)
       (usize_saturating_mul (catalogue_parameter_count ml c) (of_parameter_descriptor ml))"

definition routing_payload_bytes ::
    "('n, 'c) memory_layout \<Rightarrow> ('n, 'c) routing_snapshot \<Rightarrow> nat" where
  "routing_payload_bytes ml s =
     sat_sum
       (sat_sum (usize_saturating_mul (length (rsn_definitions s)) (of_logical_definition ml))
          (logical_definition_payload_bytes ml) (rsn_definitions s))
       id
       [sat_sum 0 (catalogue_payload_bytes ml) (rsn_parameter_catalogues s),
        sat_sum 0 (layered_definition_payload_bytes ml) (rsn_layered_definitions s),
        sat_sum 0 (engine_definition_payload_bytes ml) (rsn_engine_definitions s),
        fallback_policy_payload_bytes ml (rsn_fallback_policy s),
        sat_sum (usize_saturating_mul (length (rsn_inventory s)) (of_engine_descriptor ml))
          (engine_descriptor_payload_bytes ml) (rsn_inventory s),
        string_vec_payload_bytes ml (rsn_disabled_engine_ids s),
        retained_bytes ml (rsn_engine_permissions s)]"

definition queue_items_payload_bytes :: "('n, 'c) memory_layout \<Rightarrow> queue_item list \<Rightarrow> nat" where
  "queue_items_payload_bytes ml items =
     sat_sum (length items * of_queue_item ml) queue_item_payload_bytes items"

definition legacy_span_bytes :: "presentation_speech_span \<Rightarrow> nat" where
  "legacy_span_bytes s =
     usize_saturating_add
       (usize_saturating_add (str_len (sp_text s)) (opt_len (sp_logical_voice_id s)))
       (case sp_effects s of ReplaceState i st \<Rightarrow> str_len i | _ \<Rightarrow> 0)"

fun mixed_span_bytes :: "mixed_speech_span \<Rightarrow> nat" where
  "mixed_span_bytes (MixedLegacy s) = legacy_span_bytes s"
| "mixed_span_bytes (MixedLayered s) =
     usize_saturating_add (str_len (ls_text s)) (str_len (ls_logical_voice_id s))"
| "mixed_span_bytes (MixedEngineLayered s) =
     usize_saturating_add (str_len (ls_text s)) (str_len (ls_logical_voice_id s))"

definition actions_payload_bytes ::
    "('n, 'c) memory_layout \<Rightarrow> presentation_timeline_action list \<Rightarrow> nat" where
  "actions_payload_bytes ml actions =
     sat_sum (length actions * of_timeline_action ml)
       (\<lambda>a. usize_saturating_add (str_len (pa_id a))
              (case pa_action a of AudioAction path m v p b \<Rightarrow> str_len path | _ \<Rightarrow> 0))
       actions"

text \<open>
  A rich document is counted as its native projection plus the extra size of its actions, a native
  one as its execution form. \<open>extra\<close> is the difference of two type sizes, the larger first.
\<close>

definition layered_payload_bytes ::
    "('n, 'c) memory_layout \<Rightarrow> presentation_timeline_v4 \<Rightarrow> nat" where
  "layered_payload_bytes ml t =
     usize_saturating_add
       (usize_saturating_add (opt_len (tb_replacement_key t))
          (sat_sum (length (tb_spans t) * of_mixed_span ml) mixed_span_bytes (tb_spans t)))
       (actions_payload_bytes ml (tb_actions t))"

fun timeline_payload_bytes :: "('n, 'c) memory_layout \<Rightarrow> timeline_document \<Rightarrow> nat" where
  "timeline_payload_bytes ml (LegacyDocument t) =
     usize_saturating_add
       (usize_saturating_add (opt_len (pe_replacement_key t))
          (sat_sum (length (pe_spans t) * of_speech_span ml) legacy_span_bytes (pe_spans t)))
       (actions_payload_bytes ml (pe_actions t))"
| "timeline_payload_bytes ml (LayeredDocument t) = layered_payload_bytes ml t"
| "timeline_payload_bytes ml (NativeDocument t) = layered_payload_bytes ml (into_execution t)"
| "timeline_payload_bytes ml (RichDocument t) =
     usize_saturating_add
       (layered_payload_bytes ml (into_execution (fst (into_execution_parts t))))
       (usize_saturating_mul (length (tb_actions t)) (of_rich_action ml - of_timeline_action ml))"

section \<open>Requests\<close>

datatype dispatch_tracking = TrackCompletion nat | TrackMarkers nat

fun tracking_identifier :: "dispatch_tracking \<Rightarrow> nat" where
  "tracking_identifier (TrackCompletion i) = i"
| "tracking_identifier (TrackMarkers i) = i"

datatype preview_target =
  IndividualPreview voice_selector
| CompletePreview f32 "rstr list"
| LayeredPreview f32 "rstr list" voice_style_patch "f32 option"
| NativePreview f32 "rstr list" voice_style_patch "f32 option"

fun preview_payload_bytes :: "preview_target \<Rightarrow> nat" where
  "preview_payload_bytes (IndividualPreview sel) = voice_selector_payload_bytes sel"
| "preview_payload_bytes (CompletePreview r ids) = sum_list (map str_len ids)"
| "preview_payload_bytes (LayeredPreview r ids c p) = sum_list (map str_len ids)"
| "preview_payload_bytes (NativePreview r ids c p) = sum_list (map str_len ids)"

text \<open>
  Every variant carries its lifecycle and generation stamp (\<open>sr_lifecycle\<close>, \<open>sr_gen\<close>) and the
  state it was admitted with; \<open>sr_body\<close> is the rest of the variant.
\<close>

datatype ('n, 'c) synth_body =
  SynthBatch "queue_item list" "('n, 'c) routing_snapshot" "dispatch_tracking option"
| SynthTimeline timeline_document bool "('n, 'c) routing_snapshot" "keyed_lease option"
| SynthPreview nat rstr preview_target "('n, 'c) routing_snapshot"
| SynthImmediate rstr "('n, 'c) routing_snapshot"
| SynthLetter rstr "('n, 'c) routing_snapshot"
| SynthSound rstr

record ('n, 'c) synth_request =
  sr_body :: "('n, 'c) synth_body"
  sr_state :: tts_state
  sr_lifecycle :: request_lifecycle
  sr_gen :: nat

fun body_lease :: "('n, 'c) synth_body \<Rightarrow> keyed_lease option" where
  "body_lease (SynthTimeline t letter routing lease) = lease"
| "body_lease _ = None"

definition request_lease :: "('n, 'c) synth_request \<Rightarrow> keyed_lease option" where
  "request_lease w = body_lease (sr_body w)"

text \<open>
  \<open>commit_admission\<close> runs while the queue is locked. Its effect on the request is
  \<open>commit_admission\<close>, its effect on the shared registry \<open>commit_registry\<close>.
\<close>

fun activated_body :: "('n, 'c) synth_body \<Rightarrow> ('n, 'c) synth_body" where
  "activated_body (SynthTimeline t letter routing (Some l)) =
     SynthTimeline t letter routing (Some (l\<lparr>kl_active := True\<rparr>))"
| "activated_body b = b"

definition commit_admission :: "nat \<Rightarrow> ('n, 'c) synth_request \<Rightarrow> ('n, 'c) synth_request" where
  "commit_admission now w =
     w\<lparr>sr_body := activated_body (sr_body w), sr_lifecycle := commit_lifecycle now (sr_lifecycle w)\<rparr>"

definition commit_registry ::
    "('n, 'c) synth_request \<Rightarrow> cancellation_registry \<Rightarrow> cancellation_registry" where
  "commit_registry w r =
     (case request_lease w of None \<Rightarrow> r | Some l \<Rightarrow> snd (activate_lease l r))"

definition drop_request ::
    "('n, 'c) synth_request \<Rightarrow> cancellation_registry \<Rightarrow> cancellation_registry" where
  "drop_request w r = (case request_lease w of None \<Rightarrow> r | Some l \<Rightarrow> drop_lease l r)"

definition diagnostic_kind :: "('n, 'c) synth_request \<Rightarrow> string" where
  "diagnostic_kind w =
     (case sr_body w of
        SynthBatch i r t \<Rightarrow> ''batch'' | SynthTimeline t l r c \<Rightarrow> ''timeline''
      | SynthPreview i t p r \<Rightarrow> ''preview'' | SynthImmediate t r \<Rightarrow> ''immediate''
      | SynthLetter t r \<Rightarrow> ''letter'' | SynthSound p \<Rightarrow> ''sound'')"

definition diagnostic_identifier :: "('n, 'c) synth_request \<Rightarrow> nat option" where
  "diagnostic_identifier w =
     (case sr_body w of
        SynthBatch i r t \<Rightarrow> map_option tracking_identifier t
      | SynthTimeline t l r c \<Rightarrow> Some (document_dispatch_id t)
      | SynthPreview i t p r \<Rightarrow> Some i
      | _ \<Rightarrow> None)"

definition diagnostic_protocol_generation :: "('n, 'c) synth_request \<Rightarrow> nat option" where
  "diagnostic_protocol_generation w =
     (case sr_body w of SynthTimeline t l r c \<Rightarrow> Some (document_generation t) | _ \<Rightarrow> None)"

definition request_payload_bytes :: "('n, 'c) memory_layout \<Rightarrow> ('n, 'c) synth_request \<Rightarrow> nat" where
  "request_payload_bytes ml w =
     (let voice = str_len (st_current_voice (sr_state w))
      in case sr_body w of
           SynthBatch items r t \<Rightarrow>
             sat_sum (queue_items_payload_bytes ml items) id [voice, routing_payload_bytes ml r]
         | SynthTimeline t l r c \<Rightarrow>
             sat_sum (timeline_payload_bytes ml t) id [voice, routing_payload_bytes ml r]
         | SynthPreview i s p r \<Rightarrow>
             sat_sum (str_len s) id
               [preview_payload_bytes p, voice, routing_payload_bytes ml r]
         | SynthImmediate s r \<Rightarrow> sat_sum (str_len s) id [voice, routing_payload_bytes ml r]
         | SynthLetter s r \<Rightarrow> sat_sum (str_len s) id [voice, routing_payload_bytes ml r]
         | SynthSound p \<Rightarrow> sat_sum (str_len p) id [voice])"

definition request_replaceable :: "('n, 'c) synth_request \<Rightarrow> bool" where
  "request_replaceable w =
     (case sr_body w of SynthTimeline t l r c \<Rightarrow> document_policy t = Replaceable | _ \<Rightarrow> False)"

fun bodies_share_domain :: "('n, 'c) synth_body \<Rightarrow> ('n, 'c) synth_body \<Rightarrow> bool" where
  "bodies_share_domain (SynthTimeline t l r c) (SynthTimeline u l' r' c') = document_shares_domain t u"
| "bodies_share_domain _ _ = False"

definition requests_share_domain ::
    "('n, 'c) synth_request \<Rightarrow> ('n, 'c) synth_request \<Rightarrow> bool" where
  "requests_share_domain w v = bodies_share_domain (sr_body w) (sr_body v)"

text \<open>The implementation of \<open>BoundedWork\<close>, and the channel it is queued on.\<close>

definition synth_work :: "('n, 'c) memory_layout \<Rightarrow> ('n, 'c) synth_request bounded_work" where
  "synth_work ml =
     \<lparr>queued_payload_bytes = request_payload_bytes ml, work_generation = sr_gen,
      is_replaceable = request_replaceable, shares_replacement_domain = requests_share_domain\<rparr>"

definition synthesis_queue_limits :: work_queue_limits where
  "synthesis_queue_limits = \<lparr>max_items = 32, max_payload_bytes = 32 * 1024 * 1024\<rparr>"

definition synthesis_channel :: "('n, 'c) synth_request queue_state option" where
  "synthesis_channel = bounded_work_queue synthesis_queue_limits"

section \<open>Status records\<close>

datatype batch_status = BatchCompleted | BatchCancelled | BatchFailed

fun retirement_status :: "retirement_reason \<Rightarrow> batch_status" where
  "retirement_status Replaced = BatchCancelled"
| "retirement_status EvictedForCapacity = BatchCancelled"
| "retirement_status StaleGeneration = BatchCancelled"
| "retirement_status Saturated = BatchFailed"
| "retirement_status ReceiverClosed = BatchFailed"

fun retirement_message :: "retirement_reason \<Rightarrow> rstr" where
  "retirement_message Replaced = lit ''superseded by newer replaceable presentation''"
| "retirement_message EvictedForCapacity =
     lit ''evicted replaceable presentation to preserve bounded queue capacity''"
| "retirement_message StaleGeneration = lit ''cancelled by a newer interrupt generation''"
| "retirement_message Saturated =
     lit ''synthesis queue is full of ordered or urgent work, or payload limit was exceeded''"
| "retirement_message ReceiverClosed = lit ''synthesis worker is unavailable''"

fun tracked_status_name :: "batch_status \<Rightarrow> rstr" where
  "tracked_status_name BatchCompleted = lit ''completed''"
| "tracked_status_name BatchCancelled = lit ''cancelled''"
| "tracked_status_name BatchFailed = lit ''failed''"

definition tracked_status_record :: "nat \<Rightarrow> batch_status \<Rightarrow> rstr" where
  "tracked_status_record identifier status =
     lit ''__EMACSVOX_TRACKED__'' @ lit '' '' @ show_nat identifier @ lit '' '' @
       tracked_status_name status"

text \<open>
  What a retired request writes. The preview records are response envelopes the JSON library
  prints: the constructor keeps the fields the sources fill in, the others being empty.
\<close>

datatype status_record =
  TrackedLine rstr
| PreviewStatus nat batch_status voice_selector rstr
| VoicePreviewStatus nat batch_status rstr f32 "rstr list"
| VoicePreviewV2Status nat batch_status rstr f32 "rstr list"
| VoicePreviewV3Status nat batch_status rstr f32 "rstr list"

definition report_retired_synthesis :: "('n, 'c) synth_request retired_work \<Rightarrow> status_record list"
    where
  "report_retired_synthesis rw =
     (let status = retirement_status (rw_reason rw); message = retirement_message (rw_reason rw)
      in case sr_body (rw_work rw) of
           SynthBatch items r (Some tracking) \<Rightarrow>
             [TrackedLine (tracked_status_record (tracking_identifier tracking) status)]
         | SynthTimeline t l r c \<Rightarrow>
             [TrackedLine (tracked_status_record (document_dispatch_id t) status)]
         | SynthPreview i s p r \<Rightarrow>
             (case p of
                IndividualPreview sel \<Rightarrow> [PreviewStatus i status sel message]
              | CompletePreview rate ids \<Rightarrow> [VoicePreviewStatus i status message rate ids]
              | LayeredPreview rate ids c pl \<Rightarrow> [VoicePreviewV2Status i status message rate ids]
              | NativePreview rate ids c pl \<Rightarrow> [VoicePreviewV3Status i status message rate ids])
         | _ \<Rightarrow> [])"

section \<open>Admission, retirement and hand-over\<close>

text \<open>
  The reader's side and what the worker's side does to the shared state: \<open>sy_running\<close> are the
  requests the worker or the playback tracker still owns, \<open>sy_written\<close> the records printed.
\<close>

record ('n, 'c) synthesis_state =
  sy_queue :: "('n, 'c) synth_request queue_state"
  sy_cancellations :: cancellation_registry
  sy_running :: "('n, 'c) synth_request list"
  sy_written :: "status_record list"

text \<open>A retired request is reported and then dropped, in the order of the retired list.\<close>

definition report_and_drop ::
    "('n, 'c) synth_request retired_work list \<Rightarrow> ('n, 'c) synthesis_state \<Rightarrow>
     ('n, 'c) synthesis_state" where
  "report_and_drop rws s =
     s\<lparr>sy_cancellations := fold (\<lambda>rw. drop_request (rw_work rw)) rws (sy_cancellations s),
       sy_written := sy_written s @ concat (map report_retired_synthesis rws)\<rparr>"

definition enqueue_synthesis ::
    "('n, 'c) memory_layout \<Rightarrow> nat \<Rightarrow> ('n, 'c) synth_request \<Rightarrow> ('n, 'c) synthesis_state \<Rightarrow>
     bool \<times> ('n, 'c) synthesis_state" where
  "enqueue_synthesis ml now request s =
     (let (outcome, q) =
            try_send_with_commit (synth_work ml) synthesis_queue_limits (commit_admission now)
              request (sy_queue s);
          r = (if accepted outcome then commit_registry request (sy_cancellations s)
               else sy_cancellations s)
      in (accepted outcome,
          report_and_drop (retired outcome) (s\<lparr>sy_queue := q, sy_cancellations := r\<rparr>)))"

definition cancel_queued_synthesis_before ::
    "('n, 'c) memory_layout \<Rightarrow> nat \<Rightarrow> ('n, 'c) synthesis_state \<Rightarrow> ('n, 'c) synthesis_state" where
  "cancel_queued_synthesis_before ml generation s =
     (let (gone, q) = retire_before_generation (synth_work ml) generation (sy_queue s)
      in report_and_drop gone (s\<lparr>sy_queue := q\<rparr>))"

text \<open>
  The worker's \<open>recv\<close> moves a request out of the queue; when its last owner is done with it,
  its lease is dropped.
\<close>

definition receive_synthesis :: "('n, 'c) synthesis_state \<Rightarrow> ('n, 'c) synthesis_state" where
  "receive_synthesis s =
     (case recv (sy_queue s) of
        (Received w, q) \<Rightarrow> s\<lparr>sy_queue := q, sy_running := sy_running s @ [w]\<rparr>
      | (r, q) \<Rightarrow> s\<lparr>sy_queue := q\<rparr>)"

definition release_synthesis :: "nat \<Rightarrow> ('n, 'c) synthesis_state \<Rightarrow> ('n, 'c) synthesis_state" where
  "release_synthesis i s =
     (if i < length (sy_running s)
      then s\<lparr>sy_running := take i (sy_running s) @ drop (Suc i) (sy_running s),
             sy_cancellations := drop_request (sy_running s ! i) (sy_cancellations s)\<rparr>
      else s)"

text \<open>
  The reader prepares a lease for a replaceable timeline just before it submits it
  (\<open>run_server\<close>, \<open>execute_structured_presentation\<close>); every other request has none.
\<close>

definition submit_timeline ::
    "('n, 'c) memory_layout \<Rightarrow> nat \<Rightarrow> timeline_document \<Rightarrow> bool \<Rightarrow> tts_state \<Rightarrow>
     ('n, 'c) routing_snapshot \<Rightarrow> nat \<Rightarrow> ('n, 'c) synthesis_state \<Rightarrow> bool \<times> ('n, 'c) synthesis_state"
    where
  "submit_timeline ml now t letter st routing gen s =
     (let (lease, r) =
            (case domain_from_timeline t of
               None \<Rightarrow> (None, sy_cancellations s)
             | Some d \<Rightarrow> let (l, r) = prepare_lease d (sy_cancellations s) in (Some l, r))
      in enqueue_synthesis ml now
           \<lparr>sr_body = SynthTimeline t letter routing lease,
            sr_state = (if letter then st\<lparr>st_punctuation_profile := None\<rparr> else st),
            sr_lifecycle = new_lifecycle, sr_gen = gen\<rparr>
           (s\<lparr>sy_cancellations := r\<rparr>))"

datatype ('n, 'c) synthesis_op =
  SubmitTimeline nat timeline_document bool tts_state "('n, 'c) routing_snapshot" nat
| SubmitOther nat "('n, 'c) synth_request"
| RetireBelow nat
| Receive
| Release nat
| CloseReceiver
| CloseSender

text \<open>\<open>SubmitOther\<close> stands for the requests without a lease; any other request is ignored.\<close>

fun synthesis_step ::
    "('n, 'c) memory_layout \<Rightarrow> ('n, 'c) synthesis_op \<Rightarrow> ('n, 'c) synthesis_state \<Rightarrow>
     ('n, 'c) synthesis_state" where
  "synthesis_step ml (SubmitTimeline now t letter st routing gen) s =
     snd (submit_timeline ml now t letter st routing gen s)"
| "synthesis_step ml (SubmitOther now w) s =
     (case sr_body w of
        SynthTimeline t letter routing lease \<Rightarrow> s | _ \<Rightarrow> snd (enqueue_synthesis ml now w s))"
| "synthesis_step ml (RetireBelow gen) s = cancel_queued_synthesis_before ml gen s"
| "synthesis_step ml Receive s = receive_synthesis s"
| "synthesis_step ml (Release i) s = release_synthesis i s"
| "synthesis_step ml CloseReceiver s = s\<lparr>sy_queue := drop_receiver (sy_queue s)\<rparr>"
| "synthesis_step ml CloseSender s = s\<lparr>sy_queue := drop_sender (sy_queue s)\<rparr>"

definition initial_synthesis :: "('n, 'c) synthesis_state" where
  "initial_synthesis =
     \<lparr>sy_queue = \<lparr>entries = [], payload_bytes = 0, sender_closed = False, receiver_alive = True\<rparr>,
      sy_cancellations = empty_cancellations, sy_running = [], sy_written = []\<rparr>"

section \<open>The pending batch is all or nothing\<close>

definition batch_fits :: "queue_item list \<Rightarrow> bool" where
  "batch_fits items \<longleftrightarrow>
     length items \<le> max_pending_items \<and>
     sum_list (map queue_item_payload_bytes items) \<le> max_pending_payload_bytes"

definition push_all :: "queue_item list \<Rightarrow> pending_batch \<Rightarrow> pending_batch" where
  "push_all items b = fold (\<lambda>i b. snd (pending_push i b)) items b"

definition collected :: "queue_item list \<Rightarrow> pending_batch \<Rightarrow> bool" where
  "collected items b \<longleftrightarrow>
     (if batch_fits items
      then b = \<lparr>pb_items = items,
                pb_payload_bytes = sum_list (map queue_item_payload_bytes items),
                pb_overflow = None\<rparr>
      else \<exists>ov. b = \<lparr>pb_items = [], pb_payload_bytes = 0, pb_overflow = Some ov\<rparr>)"

lemma batch_fits_prefix: "batch_fits (items @ [i]) \<Longrightarrow> batch_fits items"
  by (simp add: batch_fits_def)

lemma saturating_exceeds:
  "m < usize_max \<Longrightarrow> m < usize_saturating_add a b \<longleftrightarrow> m < a + b"
  by (simp add: usize_saturating_add_def min_def)

lemma collected_push:
  assumes "collected items b"
  shows "collected (items @ [i]) (snd (pending_push i b))"
proof (cases "batch_fits items")
  case True
  with assms have b: "b = \<lparr>pb_items = items,
      pb_payload_bytes = sum_list (map queue_item_payload_bytes items),
      pb_overflow = None\<rparr>"
    by (simp add: collected_def)
  have "max_pending_items < usize_max" "max_pending_payload_bytes < usize_max"
    by (simp_all add: max_pending_items_def max_pending_payload_bytes_def usize_max_def)
  note exceeds = this [THEN saturating_exceeds]
  show ?thesis
  proof (cases "batch_fits (items @ [i])")
    case True
    moreover from this have
      "usize_saturating_add (sum_list (map queue_item_payload_bytes items))
         (queue_item_payload_bytes i) =
       sum_list (map queue_item_payload_bytes items) + queue_item_payload_bytes i"
      by (simp add: batch_fits_def usize_saturating_add_def usize_max_def
          max_pending_payload_bytes_def)
    ultimately show ?thesis
      by (simp add: b collected_def pending_push_def Let_def exceeds) (simp add: batch_fits_def)
  next
    case False
    then show ?thesis
      by (auto simp: b collected_def pending_push_def Let_def exceeds batch_fits_def)
  qed
next
  case False
  with assms obtain ov where b: "b = \<lparr>pb_items = [], pb_payload_bytes = 0, pb_overflow = Some ov\<rparr>"
    by (auto simp: collected_def)
  from False batch_fits_prefix [of items i] have "\<not> batch_fits (items @ [i])" by blast
  then show ?thesis by (simp add: b collected_def pending_push_def)
qed

lemma collected_push_all: "collected (xs @ ys) (push_all ys (push_all xs empty_batch))"
proof -
  have "collected zs (push_all zs empty_batch)" for zs
  proof (induction zs rule: rev_induct)
    case Nil
    then show ?case
      by (simp add: push_all_def collected_def batch_fits_def empty_batch_def)
  next
    case (snoc z zs)
    then show ?case using collected_push [OF snoc.IH] by (simp add: push_all_def)
  qed
  from this [of "xs @ ys"] show ?thesis by (simp add: push_all_def)
qed

definition pending_ok :: "pending_batch \<Rightarrow> bool" where
  "pending_ok b \<longleftrightarrow>
     batch_fits (pb_items b) \<and>
     pb_payload_bytes b = sum_list (map queue_item_payload_bytes (pb_items b)) \<and>
     (pb_items b = [] \<or> pb_overflow b = None)"

lemma pending_ok_empty [simp]: "pending_ok empty_batch" "pending_ok (pending_clear b)"
  by (simp_all add: pending_ok_def empty_batch_def pending_clear_def batch_fits_def)

lemma pending_ok_push: "pending_ok b \<Longrightarrow> pending_ok (snd (pending_push i b))"
proof (cases "pb_overflow b")
  case None
  moreover assume "pending_ok b"
  ultimately have "collected (pb_items b) b" by (simp add: collected_def pending_ok_def)
  from collected_push [OF this, of i] show ?thesis
    by (auto simp: collected_def pending_ok_def batch_fits_def split: if_splits)
qed (simp add: pending_push_def)

lemma pending_ok_take: "pending_ok b \<Longrightarrow> pending_ok (snd (pending_take b))"
  by (simp add: pending_take_def pending_ok_def batch_fits_def split: option.split)

lemma pending_take_empties: "pending_is_empty (snd (pending_take b))"
  by (simp add: pending_take_def pending_is_empty_def split: option.split)

section \<open>Live leases\<close>

lemma prepare_lease_simps [simp]:
  "kl_domain (fst (prepare_lease d r)) = d" "kl_token (fst (prepare_lease d r)) = cr_next r"
  "\<not> kl_active (fst (prepare_lease d r))" "snd (prepare_lease d r) = r\<lparr>cr_next := Suc (cr_next r)\<rparr>"
  by (simp_all add: prepare_lease_def)

lemma drop_inactive [simp]: "\<not> kl_active l \<Longrightarrow> drop_lease l r = r"
  by (simp add: drop_lease_def)

text \<open>
  The registry agrees with the leases somebody still owns: each is active, has a token of its own,
  and is registered for its domain unless it was cancelled; a registered token belongs to an owned
  lease and is not cancelled.
\<close>

definition leases_ok :: "keyed_lease list \<Rightarrow> cancellation_registry \<Rightarrow> bool" where
  "leases_ok ls r \<longleftrightarrow>
     distinct (map kl_token ls) \<and>
     (\<forall>l \<in> set ls. kl_active l \<and> kl_token l < cr_next r \<and>
        (kl_token l \<in> cr_cancelled r \<or> cr_active r (kl_domain l) = Some (kl_token l))) \<and>
     (\<forall>d t. cr_active r d = Some t \<longrightarrow>
        t \<notin> cr_cancelled r \<and> (\<exists>l \<in> set ls. kl_domain l = d \<and> kl_token l = t)) \<and>
     (\<forall>t \<in> cr_cancelled r. t < cr_next r)"

lemma leases_ok_mset: "mset ls = mset ls' \<Longrightarrow> leases_ok ls r \<longleftrightarrow> leases_ok ls' r"
proof -
  assume m: "mset ls = mset ls'"
  then have "mset (map kl_token ls) = mset (map kl_token ls')" by simp
  then have "distinct (map kl_token ls) \<longleftrightarrow> distinct (map kl_token ls')"
    by (rule mset_eq_imp_distinct_iff)
  with mset_eq_setD [OF m] show ?thesis by (simp add: leases_ok_def)
qed

lemma leases_ok_skip: "leases_ok ls r \<Longrightarrow> leases_ok ls (r\<lparr>cr_next := Suc (cr_next r)\<rparr>)"
  by (fastforce simp: leases_ok_def)

lemma leases_okD:
  assumes "leases_ok ls r"
  shows "distinct (map kl_token ls)"
    and "l \<in> set ls \<Longrightarrow> kl_active l"
    and "l \<in> set ls \<Longrightarrow> kl_token l < cr_next r"
    and "l \<in> set ls \<Longrightarrow> kl_token l \<notin> cr_cancelled r \<Longrightarrow>
         cr_active r (kl_domain l) = Some (kl_token l)"
    and "cr_active r d = Some t \<Longrightarrow> t \<notin> cr_cancelled r"
    and "cr_active r d = Some t \<Longrightarrow> \<exists>l \<in> set ls. kl_domain l = d \<and> kl_token l = t"
    and "t \<in> cr_cancelled r \<Longrightarrow> t < cr_next r"
  using assms by (auto simp: leases_ok_def)

lemma leases_okI:
  assumes "distinct (map kl_token ls)"
    and "\<And>l. l \<in> set ls \<Longrightarrow> kl_active l"
    and "\<And>l. l \<in> set ls \<Longrightarrow> kl_token l < cr_next r"
    and "\<And>l. l \<in> set ls \<Longrightarrow> kl_token l \<notin> cr_cancelled r \<Longrightarrow>
         cr_active r (kl_domain l) = Some (kl_token l)"
    and "\<And>d t. cr_active r d = Some t \<Longrightarrow> t \<notin> cr_cancelled r"
    and "\<And>d t. cr_active r d = Some t \<Longrightarrow> \<exists>l \<in> set ls. kl_domain l = d \<and> kl_token l = t"
    and "\<And>t. t \<in> cr_cancelled r \<Longrightarrow> t < cr_next r"
  shows "leases_ok ls r"
  using assms unfolding leases_ok_def by blast

lemma activate_registry:
  assumes "\<not> kl_active l"
  shows "cr_active (snd (activate_lease l r)) = (cr_active r)(kl_domain l \<mapsto> kl_token l)"
    and "cr_next (snd (activate_lease l r)) = cr_next r"
    and "cr_cancelled (snd (activate_lease l r)) =
         cr_cancelled r \<union> {t. cr_active r (kl_domain l) = Some t}"
  using assms by (auto simp: activate_lease_def split: option.split)

lemma leases_ok_activate:
  assumes ok: "leases_ok ls r" and l: "kl_token l = cr_next r" "\<not> kl_active l"
  shows "leases_ok (l\<lparr>kl_active := True\<rparr> # ls)
           (snd (activate_lease l (r\<lparr>cr_next := Suc (cr_next r)\<rparr>)))"
proof -
  note D = leases_okD [OF ok]
  have fresh3: "kl_token m \<noteq> cr_next r" if "m \<in> set ls" for m
    using D(3) [OF that] by simp
  have fresh: "cr_next r \<notin> cr_cancelled r" "cr_active r d \<noteq> Some (cr_next r)"
    "m \<in> set ls \<Longrightarrow> kl_token m \<noteq> cr_next r" for d m
    using D(7) [of "cr_next r"] D(6) [of d "cr_next r"] fresh3 by auto
  have old: "\<exists>m \<in> set ls. kl_domain m = d \<and> kl_token m = t" if "cr_active r d = Some t" for d t
    using D(6) [OF that] .
  have other: "d = d'" if active: "cr_active r d = Some t" "cr_active r d' = Some t" for d d' t
    using old [OF active(1)] old [OF active(2)] D(1) by (auto simp: distinct_map dest: inj_onD)
  show ?thesis
  proof (rule leases_okI, goal_cases)
    case 1
    then show ?case using D(1) fresh(3) l(1) by force
  next
    case (4 m)
    then show ?case using D(4) [of m] l by (auto simp: activate_registry [OF l(2)] split: if_splits)
  next
    case (5 d t)
    then show ?case using D(5) [of d t] fresh l other
      by (auto simp: activate_registry [OF l(2)] split: if_splits)
  next
    case (6 d t)
    then show ?case using old [of d t]
      by (auto simp: activate_registry [OF l(2)] split: if_splits)
  next
    case (7 t)
    then show ?case using D(7) [of t] old [of "kl_domain l" t]
      by (auto simp: activate_registry [OF l(2)] intro: less_SucI dest!: D(3))
  qed (use D l in \<open>auto simp: activate_registry [OF l(2)] intro: less_SucI\<close>)
qed

lemma leases_ok_drop:
  assumes ok: "leases_ok (l # ls) r"
  shows "leases_ok ls (drop_lease l r)"
proof -
  note D = leases_okD [OF ok]
  have keep: "cr_active (drop_lease l r) d =
      (if d = kl_domain l \<and> cr_active r d = Some (kl_token l) then None else cr_active r d)"
    "cr_cancelled (drop_lease l r) = cr_cancelled r" "cr_next (drop_lease l r) = cr_next r" for d
    using D(2) [of l] by (auto simp: drop_lease_def)
  show ?thesis
  proof (rule leases_okI, goal_cases)
    case (4 m)
    then show ?case using D(1) D(4) [of m] by (auto simp: keep intro: rev_image_eqI)
  next
    case (6 d t)
    then show ?case using D(6) [of d t] by (auto simp: keep split: if_splits)
  qed (use D in \<open>auto simp: keep split: if_splits\<close>)
qed

lemma leases_ok_drops: "leases_ok (gone @ ls) r \<Longrightarrow> leases_ok ls (fold drop_lease gone r)"
  by (induction gone arbitrary: r) (auto dest: leases_ok_drop)

lemma leases_ok_unique:
  assumes "leases_ok ls r" "l \<in> set ls" "l' \<in> set ls" "kl_domain l = kl_domain l'"
    and "kl_token l \<notin> cr_cancelled r" "kl_token l' \<notin> cr_cancelled r"
  shows "l = l'"
proof -
  note D = leases_okD [OF assms(1)]
  from D(4) [OF assms(2,5)] D(4) [OF assms(3,6)] assms(4) have "kl_token l = kl_token l'" by simp
  with D(1) assms(2,3) show ?thesis by (auto simp: distinct_map dest: inj_onD)
qed

section \<open>The invariant of the shared state\<close>

lemma synthesis_limits_ok [simp]: "limits_ok synthesis_queue_limits"
  by (simp add: limits_ok_def synthesis_queue_limits_def usize_max_def)

lemma synth_work_simps [simp]:
  "queued_payload_bytes (synth_work ml) = request_payload_bytes ml"
  "work_generation (synth_work ml) = sr_gen"
  "is_replaceable (synth_work ml) = request_replaceable"
  "shares_replacement_domain (synth_work ml) = requests_share_domain"
  by (simp_all add: synth_work_def)

lemma activated_body_simps [simp]:
  "body_lease (activated_body b) = map_option (\<lambda>l. l\<lparr>kl_active := True\<rparr>) (body_lease b)"
  "bodies_share_domain (activated_body b) c = bodies_share_domain b c"
  "bodies_share_domain c (activated_body b) = bodies_share_domain c b"
  by (cases b rule: activated_body.cases; cases c; simp)+

lemma request_lease_commit [simp]:
  "request_lease (commit_admission now w) =
     map_option (\<lambda>l. l\<lparr>kl_active := True\<rparr>) (request_lease w)"
  by (simp add: request_lease_def commit_admission_def)

lemma shares_commit [simp]:
  "requests_share_domain (commit_admission now w) v = requests_share_domain w v"
  "requests_share_domain v (commit_admission now w) = requests_share_domain v w"
  by (simp_all add: requests_share_domain_def commit_admission_def)

lemma document_shares_sym: "document_shares_domain a b = document_shares_domain b a"
  by (cases a; cases b) (auto simp: envelope_shares_domain_def body_shares_domain_def)

lemma requests_share_sym: "requests_share_domain w v = requests_share_domain v w"
  unfolding requests_share_domain_def
  by (cases "sr_body w"; cases "sr_body v") (auto simp: document_shares_sym)

definition leases_of :: "('n, 'c) synth_request list \<Rightarrow> keyed_lease list" where
  "leases_of ws = List.map_filter request_lease ws"

definition live_leases :: "('n, 'c) synthesis_state \<Rightarrow> keyed_lease list" where
  "live_leases s = leases_of (map qw_work (entries (sy_queue s)) @ sy_running s)"

definition domains_apart :: "('n, 'c) synth_request queued_work list \<Rightarrow> bool" where
  "domains_apart = sorted_wrt (\<lambda>p q. \<not> requests_share_domain (qw_work p) (qw_work q))"

definition synthesis_inv :: "('n, 'c) synthesis_state \<Rightarrow> bool" where
  "synthesis_inv s \<longleftrightarrow>
     queue_inv synthesis_queue_limits (sy_queue s) \<and> domains_apart (entries (sy_queue s)) \<and>
     leases_ok (live_leases s) (sy_cancellations s)"

lemma leases_of_simps [simp]:
  "leases_of [] = []"
  "leases_of (w # ws) =
     (case request_lease w of None \<Rightarrow> leases_of ws | Some l \<Rightarrow> l # leases_of ws)"
  by (simp_all add: leases_of_def List.map_filter_def split: option.split)

lemma leases_of_append [simp]: "leases_of (xs @ ys) = leases_of xs @ leases_of ys"
  by (simp add: leases_of_def List.map_filter_def)

lemma leases_of_mset: "mset xs = mset ys \<Longrightarrow> mset (leases_of xs) = mset (leases_of ys)"
  by (simp add: leases_of_def List.map_filter_def mset_filter)

lemma drop_requests:
  "fold (\<lambda>rw. drop_request (rw_work rw)) rws r = fold drop_lease (leases_of (map rw_work rws)) r"
  by (induction rws arbitrary: r) (auto simp: drop_request_def split: option.split)

lemma report_and_drop_simps [simp]:
  "sy_queue (report_and_drop rws s) = sy_queue s"
  "sy_running (report_and_drop rws s) = sy_running s"
  "sy_cancellations (report_and_drop rws s) =
     fold drop_lease (leases_of (map rw_work rws)) (sy_cancellations s)"
  "sy_written (report_and_drop rws s) =
     sy_written s @ concat (map report_retired_synthesis rws)"
  by (simp_all add: report_and_drop_def drop_requests)

lemma sorted_wrt_subseq: "subseq xs ys \<Longrightarrow> sorted_wrt P ys \<Longrightarrow> sorted_wrt P xs"
  by (induction rule: list_emb.induct) (auto dest: subseq_subset)

text \<open>What \<open>enqueue_synthesis\<close> does, from the outcome of the bounded queue.\<close>

lemma enqueue_cases:
  assumes "queue_inv synthesis_queue_limits (sy_queue s)"
    and "enqueue_synthesis ml now w s = (ok, s')"
  obtains (accepted) kept gone where "ok"
      "entries (sy_queue s') =
         kept @ [QueuedWork (request_payload_bytes ml w) (commit_admission now w)]"
      "subseq kept (entries (sy_queue s))"
      "\<forall>q \<in> set kept. \<not> requests_share_domain w (qw_work q)"
      "mset (map qw_work (entries (sy_queue s))) =
         mset (map qw_work kept) + mset (map rw_work gone)"
      "s' = report_and_drop gone (s\<lparr>sy_queue := sy_queue s',
              sy_cancellations := commit_registry w (sy_cancellations s)\<rparr>)"
  | (rejected) why where "\<not> ok"
      "s' = report_and_drop [RetiredWork w why] s"
proof -
  obtain out q where send:
    "try_send_with_commit (synth_work ml) synthesis_queue_limits (commit_admission now) w
       (sy_queue s) = (out, q)" by fastforce
  show thesis
  proof (cases "accepted out")
    case True
    from admission_outcome [OF assms(1) synthesis_limits_ok send True] obtain kept where
      "entries q = kept @ [QueuedWork (request_payload_bytes ml w) (commit_admission now w)]"
      "subseq kept (entries (sy_queue s))"
      "\<forall>q \<in> set kept. \<not> requests_share_domain w (qw_work q)"
      "mset (map qw_work (entries (sy_queue s))) =
         mset (map qw_work kept) + mset (map rw_work (retired out))" by auto
    with assms(2) send True show thesis
      by (intro accepted [of kept "retired out"]) (auto simp: enqueue_synthesis_def)
  next
    case False
    from rejection_effect [OF assms(1) synthesis_limits_ok send False] assms(2) send False
    show thesis by (intro rejected) (auto simp: enqueue_synthesis_def)
  qed
qed

lemma enqueue_queue_inv:
  "queue_inv synthesis_queue_limits (sy_queue s) \<Longrightarrow>
   queue_inv synthesis_queue_limits (sy_queue (snd (enqueue_synthesis ml now w s)))"
  using try_send_inv [OF synthesis_limits_ok, of "sy_queue s" "synth_work ml" "commit_admission now" w]
  by (simp add: enqueue_synthesis_def split_def Let_def)

lemma enqueue_domains_apart:
  assumes "queue_inv synthesis_queue_limits (sy_queue s)" "domains_apart (entries (sy_queue s))"
  shows "domains_apart (entries (sy_queue (snd (enqueue_synthesis ml now w s))))"
proof (cases "enqueue_synthesis ml now w s")
  case (Pair ok s')
  show ?thesis
  proof (cases rule: enqueue_cases [OF assms(1) Pair, case_names accepted rejected])
    case (accepted kept gone)
    from accepted(4) have "\<not> requests_share_domain (qw_work q) w" if "q \<in> set kept" for q
      using that by (simp add: requests_share_sym [of "qw_work q"])
    with assms(2) sorted_wrt_subseq [OF accepted(3)] Pair accepted(2) show ?thesis
      by (simp add: domains_apart_def sorted_wrt_append)
  qed (use assms Pair in auto)
qed

text \<open>
  A request may be submitted when it has no lease, or the inactive lease that was allocated last.
\<close>

definition submittable :: "('n, 'c) synth_request \<Rightarrow> ('n, 'c) synthesis_state \<Rightarrow> bool" where
  "submittable w s \<longleftrightarrow>
     leases_ok (live_leases s) (sy_cancellations s) \<and>
     (case request_lease w of
        None \<Rightarrow> True
      | Some l \<Rightarrow> \<not> kl_active l \<and>
          leases_ok (l\<lparr>kl_active := True\<rparr> # live_leases s)
            (commit_registry w (sy_cancellations s)))"

lemma enqueue_leases:
  assumes "queue_inv synthesis_queue_limits (sy_queue s)" "submittable w s"
  shows "leases_ok (live_leases (snd (enqueue_synthesis ml now w s)))
           (sy_cancellations (snd (enqueue_synthesis ml now w s)))"
proof (cases "enqueue_synthesis ml now w s")
  case (Pair ok s')
  show ?thesis
  proof (cases rule: enqueue_cases [OF assms(1) Pair, case_names accepted rejected])
    case (accepted kept gone)
    let ?new = "leases_of [commit_admission now w]"
    have "leases_ok (?new @ live_leases s) (commit_registry w (sy_cancellations s))"
      using assms(2) by (auto simp: submittable_def commit_registry_def split: option.splits)
    moreover have "mset (?new @ live_leases s) =
        mset (leases_of (map rw_work gone) @ live_leases s')"
      using leases_of_mset [of "map qw_work (entries (sy_queue s))"
          "map qw_work kept @ map rw_work gone"] accepted(2,5) arg_cong [OF accepted(6), of sy_running]
      by (simp add: live_leases_def split: option.split)
    ultimately have "leases_ok (leases_of (map rw_work gone) @ live_leases s')
        (commit_registry w (sy_cancellations s))"
      using leases_ok_mset by blast
    from leases_ok_drops [OF this] show ?thesis
      using Pair arg_cong [OF accepted(6), of sy_cancellations] by simp
  next
    case (rejected why)
    with assms(2) Pair show ?thesis
      by (auto simp: submittable_def live_leases_def split: option.splits)
  qed
qed

lemma enqueue_inv:
  "synthesis_inv s \<Longrightarrow> submittable w s \<Longrightarrow> synthesis_inv (snd (enqueue_synthesis ml now w s))"
  unfolding synthesis_inv_def
  by (intro conjI enqueue_queue_inv enqueue_domains_apart enqueue_leases) blast+

lemma submit_timeline_inv:
  assumes "synthesis_inv s"
  shows "synthesis_inv (snd (submit_timeline ml now t letter st routing gen s))"
proof (cases "domain_from_timeline t")
  case None
  with assms have "submittable \<lparr>sr_body = SynthTimeline t letter routing None,
      sr_state = (if letter then st\<lparr>st_punctuation_profile := None\<rparr> else st),
      sr_lifecycle = new_lifecycle, sr_gen = gen\<rparr> s"
    by (simp add: submittable_def synthesis_inv_def request_lease_def)
  from enqueue_inv [OF assms this, of ml now] None show ?thesis by (simp add: submit_timeline_def)
next
  case (Some d)
  let ?l = "fst (prepare_lease d (sy_cancellations s))"
  let ?s = "s\<lparr>sy_cancellations := (sy_cancellations s)\<lparr>cr_next := Suc (cr_next (sy_cancellations s))\<rparr>\<rparr>"
  let ?w = "\<lparr>sr_body = SynthTimeline t letter routing (Some ?l),
      sr_state = (if letter then st\<lparr>st_punctuation_profile := None\<rparr> else st),
      sr_lifecycle = new_lifecycle, sr_gen = gen\<rparr>"
  have ok: "leases_ok (live_leases s) (sy_cancellations s)" and live: "live_leases ?s = live_leases s"
    using assms by (simp_all add: synthesis_inv_def live_leases_def)
  from assms leases_ok_skip [OF ok] have "synthesis_inv ?s"
    by (simp add: synthesis_inv_def live)
  moreover from leases_ok_activate [OF ok, of ?l] leases_ok_skip [OF ok]
  have "submittable ?w ?s"
    by (simp add: submittable_def live request_lease_def commit_registry_def)
  ultimately have "synthesis_inv (snd (enqueue_synthesis ml now ?w ?s))" by (rule enqueue_inv)
  then show ?thesis
    using Some by (simp add: submit_timeline_def prepare_lease_def)
qed

lemma mset_filter_split:
  "image_mset f (mset xs) =
     image_mset f (mset (filter (\<lambda>x. \<not> P x) xs)) + image_mset f (mset (filter P xs))"
  by (induction xs) auto

lemma retire_keeps_inv:
  assumes "synthesis_inv s"
  shows "synthesis_inv (cancel_queued_synthesis_before ml g s)"
proof -
  obtain gone q where r: "retire_before_generation (synth_work ml) g (sy_queue s) = (gone, q)"
    by fastforce
  have qi: "queue_inv synthesis_queue_limits (sy_queue s)" and
    ok: "leases_ok (live_leases s) (sy_cancellations s)"
    using assms by (simp_all add: synthesis_inv_def)
  note eff = interrupt_effect [OF qi synthesis_limits_ok r]
  have "mset (map qw_work (entries (sy_queue s))) =
      mset (map rw_work gone) + mset (map qw_work (entries q))"
    using eff mset_filter_split [of qw_work "entries (sy_queue s)" "\<lambda>q. g \<le> sr_gen (qw_work q)"]
    by (simp add: filter_map o_def not_le)
  then have "mset (map qw_work (entries (sy_queue s)) @ sy_running s) =
      mset (map rw_work gone @ map qw_work (entries q) @ sy_running s)" by simp
  from leases_of_mset [OF this] have
    "mset (live_leases s) =
       mset (leases_of (map rw_work gone) @ leases_of (map qw_work (entries q) @ sy_running s))"
    by (simp only: live_leases_def leases_of_append)
  from leases_ok_drops [OF ok [unfolded leases_ok_mset [OF this]]] r
  have "leases_ok (live_leases (cancel_queued_synthesis_before ml g s))
      (sy_cancellations (cancel_queued_synthesis_before ml g s))"
    by (simp add: cancel_queued_synthesis_before_def live_leases_def)
  moreover have "queue_inv synthesis_queue_limits q"
    using retire_before_inv [OF synthesis_limits_ok qi, of "synth_work ml" g] r by simp
  moreover have "domains_apart (entries q)"
    using assms eff by (simp add: synthesis_inv_def domains_apart_def sorted_wrt_filter)
  ultimately show ?thesis
    using r by (simp add: synthesis_inv_def cancel_queued_synthesis_before_def)
qed

lemma receive_keeps_inv:
  assumes "synthesis_inv s"
  shows "synthesis_inv (receive_synthesis s)"
proof (cases "entries (sy_queue s)")
  case Nil
  with assms show ?thesis by (simp add: receive_synthesis_def recv_def)
next
  case (Cons q qs)
  have "mset (live_leases (receive_synthesis s)) = mset (live_leases s)"
    using Cons by (simp add: receive_synthesis_def recv_def live_leases_def split: option.split)
  from leases_ok_mset [OF this] assms recv_inv [of synthesis_queue_limits "sy_queue s"] Cons
  show ?thesis
    by (simp add: synthesis_inv_def receive_synthesis_def recv_def domains_apart_def)
qed

lemma release_keeps_inv:
  assumes "synthesis_inv s"
  shows "synthesis_inv (release_synthesis i s)"
proof (cases "i < length (sy_running s)")
  case True
  let ?rest = "take i (sy_running s) @ drop (Suc i) (sy_running s)"
  have ok: "leases_ok (live_leases s) (sy_cancellations s)"
    using assms by (simp add: synthesis_inv_def)
  have "mset (map qw_work (entries (sy_queue s)) @ sy_running s) =
      mset ([sy_running s ! i] @ map qw_work (entries (sy_queue s)) @ ?rest)"
    by (subst id_take_nth_drop [OF True]) simp
  from leases_of_mset [OF this] have
    "mset (live_leases s) =
      mset (leases_of [sy_running s ! i] @ leases_of (map qw_work (entries (sy_queue s)) @ ?rest))"
    by (simp only: live_leases_def leases_of_append)
  from leases_ok_drops [OF ok [unfolded leases_ok_mset [OF this]]] True assms show ?thesis
    by (auto simp: synthesis_inv_def release_synthesis_def live_leases_def drop_request_def
        split: option.splits)
qed (use assms in \<open>simp add: release_synthesis_def\<close>)

lemma synthesis_step_inv: "synthesis_inv s \<Longrightarrow> synthesis_inv (synthesis_step ml op s)"
proof (cases op)
  case (SubmitOther now w)
  assume inv: "synthesis_inv s"
  show ?thesis
  proof (cases "request_lease w")
    case None
    with inv have "submittable w s" by (simp add: submittable_def synthesis_inv_def)
    from enqueue_inv [OF inv this] inv SubmitOther show ?thesis
      by (simp split: synth_body.split)
  next
    case (Some l)
    with inv SubmitOther show ?thesis
      by (cases "sr_body w") (simp_all add: request_lease_def)
  qed
next
  case CloseReceiver
  assume "synthesis_inv s"
  with CloseReceiver show ?thesis
    by (simp add: synthesis_inv_def drop_receiver_def queue_inv_def live_leases_def)
next
  case CloseSender
  assume "synthesis_inv s"
  with CloseSender show ?thesis
    by (simp add: synthesis_inv_def drop_sender_def queue_inv_def live_leases_def)
qed (simp_all add: submit_timeline_inv retire_keeps_inv receive_keeps_inv release_keeps_inv)

interpretation synthesis: invariant_machine "synthesis_step ml" synthesis_inv for ml
  by unfold_locales (rule synthesis_step_inv)

lemma initial_synthesis_inv: "synthesis_inv initial_synthesis"
  by (simp add: synthesis_inv_def initial_synthesis_def queue_inv_def domains_apart_def
      live_leases_def leases_ok_def empty_cancellations_def synthesis_queue_limits_def
      total_bytes_def)

lemma synthesis_run_inv: "synthesis_inv (fold (synthesis_step ml) ops initial_synthesis)"
  using synthesis.inv_run [OF initial_synthesis_inv] .

lemma fold_drop_cancelled [simp]: "cr_cancelled (fold drop_lease ls r) = cr_cancelled r"
  by (induction ls arbitrary: r) (auto simp: drop_lease_def)

text \<open>An accepted replaceable timeline cancels the previous holder of its domain, and nothing else.\<close>

lemma submit_supersedes:
  assumes inv: "synthesis_inv s" and d: "domain_from_timeline t = Some d"
    and sub: "submit_timeline ml now t letter st routing gen s = (True, s')"
  shows "cr_cancelled (sy_cancellations s') =
           cr_cancelled (sy_cancellations s) \<union> {k. cr_active (sy_cancellations s) d = Some k}"
    and "cr_active (sy_cancellations s') d = Some (cr_next (sy_cancellations s))"
proof -
  let ?r = "sy_cancellations s"
  let ?l = "\<lparr>kl_domain = d, kl_token = cr_next ?r, kl_active = False\<rparr>"
  let ?w = "\<lparr>sr_body = SynthTimeline t letter routing (Some ?l),
      sr_state = (if letter then st\<lparr>st_punctuation_profile := None\<rparr> else st),
      sr_lifecycle = new_lifecycle, sr_gen = gen\<rparr>"
  let ?s = "s\<lparr>sy_cancellations := ?r\<lparr>cr_next := Suc (cr_next ?r)\<rparr>\<rparr>"
  have enq: "enqueue_synthesis ml now ?w ?s = (True, s')"
    using sub d by (simp add: submit_timeline_def prepare_lease_def)
  have qi: "queue_inv synthesis_queue_limits (sy_queue ?s)" using inv by (simp add: synthesis_inv_def)
  from enqueue_cases [OF qi enq] obtain kept gone where
    new: "entries (sy_queue s') =
        kept @ [QueuedWork (request_payload_bytes ml ?w) (commit_admission now ?w)]"
    and s': "s' = report_and_drop gone (?s\<lparr>sy_queue := sy_queue s',
        sy_cancellations := commit_registry ?w (sy_cancellations ?s)\<rparr>)"
    by blast
  from arg_cong [OF s', of sy_cancellations]
  show cancelled: "cr_cancelled (sy_cancellations s') =
      cr_cancelled ?r \<union> {k. cr_active ?r d = Some k}"
    by (simp add: commit_registry_def request_lease_def activate_registry)
  have inv': "leases_ok (live_leases s') (sy_cancellations s')"
    using submit_timeline_inv [OF inv, of ml now t letter st routing gen] sub
    by (simp add: synthesis_inv_def)
  have ok: "leases_ok (live_leases s) ?r" using inv by (simp add: synthesis_inv_def)
  have "?l\<lparr>kl_active := True\<rparr> \<in> set (live_leases s')"
    using new by (simp add: live_leases_def request_lease_def commit_admission_def)
  moreover have "cr_next ?r \<notin> cr_cancelled (sy_cancellations s')"
    using leases_okD(6) [OF ok, of d "cr_next ?r"] leases_okD(7) [OF ok, of "cr_next ?r"]
      leases_okD(3) [OF ok] by (fastforce simp: cancelled)
  ultimately show "cr_active (sy_cancellations s') d = Some (cr_next ?r)"
    using leases_okD(4) [OF inv', of "?l\<lparr>kl_active := True\<rparr>"] by simp
qed

section \<open>Properties\<close>

text \<open>
  The pending batch is all or nothing: whatever is pushed onto an empty batch, taking it
  returns exactly the pushed items if their number and their bytes are within the limits, and
  the overflow otherwise, never a part of them; and after the take the batch is empty again.
\<close>

theorem pending_all_or_nothing:
  "(case fst (pending_take (push_all items empty_batch)) of
      Inr taken \<Rightarrow> taken = items \<and> batch_fits items
    | Inl ov \<Rightarrow> \<not> batch_fits items) \<and>
   pending_is_empty (snd (pending_take (push_all items empty_batch)))"
  using collected_push_all [of "[]" items]
  by (auto simp: push_all_def collected_def pending_take_def pending_is_empty_def
      split: option.splits if_splits)

text \<open>
  C19: after any run of submissions, interrupts, hand-overs and releases, the cancellation
  registry holds exactly the tokens of the owned leases that were not cancelled. As it is a map,
  two presentations of one replacement domain are never live together without one being
  cancelled, and no token stays registered when its owner is gone.
\<close>

theorem registry_holds_live_leases:
  "cr_active (sy_cancellations (fold (synthesis_step ml) ops initial_synthesis)) d = Some token \<longleftrightarrow>
   (\<exists>l \<in> set (live_leases (fold (synthesis_step ml) ops initial_synthesis)).
      kl_domain l = d \<and> kl_token l = token \<and>
      token \<notin> cr_cancelled (sy_cancellations (fold (synthesis_step ml) ops initial_synthesis)))"
proof -
  let ?s = "fold (synthesis_step ml) ops initial_synthesis"
  have "leases_ok (live_leases ?s) (sy_cancellations ?s)"
    using synthesis_run_inv [of ml ops] by (simp add: synthesis_inv_def)
  from leases_okD(4,5,6) [OF this] show ?thesis by blast
qed

text \<open>
  C20: in every reachable state, an accepted replaceable timeline cancels exactly the token
  registered for its domain, if there is one, and is registered itself with a fresh token.
\<close>

theorem submission_supersedes:
  assumes "s = fold (synthesis_step ml) ops initial_synthesis"
    and "domain_from_timeline t = Some d"
    and "submit_timeline ml now t letter st routing gen s = (True, s')"
  shows "cr_cancelled (sy_cancellations s') =
           cr_cancelled (sy_cancellations s) \<union> {k. cr_active (sy_cancellations s) d = Some k} \<and>
         cr_active (sy_cancellations s') d = Some (cr_next (sy_cancellations s))"
  using submit_supersedes [OF _ assms(2,3)] synthesis_run_inv [of ml ops] assms(1) by simp

text \<open>
  In every reachable state, no two queued requests belong to one replacement domain, and
  the queue is within its 32 entries.
\<close>

theorem queued_domains_distinct:
  assumes "q = entries (sy_queue (fold (synthesis_step ml) ops initial_synthesis))"
    and "i < length q" "j < length q" "i \<noteq> j"
  shows "\<not> requests_share_domain (qw_work (q ! i)) (qw_work (q ! j)) \<and> length q \<le> 32"
proof -
  have inv: "synthesis_inv (fold (synthesis_step ml) ops initial_synthesis)"
    by (rule synthesis_run_inv)
  then have "domains_apart q" by (simp add: synthesis_inv_def assms(1))
  from sorted_wrt_nth_less [OF this [unfolded domains_apart_def], of i j]
    sorted_wrt_nth_less [OF this [unfolded domains_apart_def], of j i]
  have "\<not> requests_share_domain (qw_work (q ! i)) (qw_work (q ! j))"
    using assms(2-4) by (cases i j rule: linorder_cases) (simp_all add: requests_share_sym)
  with inv show ?thesis
    by (simp add: synthesis_inv_def assms(1) queue_inv_def synthesis_queue_limits_def)
qed

section \<open>The properties at a concrete run\<close>

definition sample_layout :: "(nat, nat) memory_layout" where
  "sample_layout =
     \<lparr>of_string = 24, of_usize = 8, of_queue_item = 48, of_speech_span = 200, of_mixed_span = 300,
      of_timeline_action = 120, of_rich_action = 160, of_voice_selector = 72, of_voice_choice = 200,
      of_engine_choice = 250, of_logical_definition = 150, of_layered_definition = 150,
      of_engine_definition = 150, of_engine_descriptor = 400, of_voice_descriptor = 120,
      of_espeak_variant = 48, of_dimension = 1, of_native_extension = 48, of_native_entry = 64,
      of_parameter_descriptor = 300, native_parameter_count = id, definition_json_len = \<lambda>_. Some 100,
      catalogue_json_len = Some, catalogue_parameter_count = id\<rparr>"

definition sample_routing :: "(nat, nat) routing_snapshot" where
  "sample_routing =
     \<lparr>rsn_definitions = [], rsn_registry_generation = 1, rsn_layered_definitions = [],
      rsn_engine_definitions = [], rsn_parameter_catalogues = [7], rsn_preview_choice_index = None,
      rsn_fallback_policy =
        \<lparr>fp_preferred_engines = [lit ''espeak''], fp_allow_same_language = True,
         fp_global_default = None, fp_fallback_engines = []\<rparr>,
      rsn_inventory = [], rsn_disabled_engine_ids = [], rsn_engine_permissions = default_permissions\<rparr>"

definition sample_submission :: "(nat, nat) synthesis_op" where
  "sample_submission =
     SubmitTimeline 5 (RichDocument sample_rich) False (from_speech_defaults default_speech)
       sample_routing 0"

abbreviation sample_submit ::
    "(nat, nat) synthesis_state \<Rightarrow> bool \<times> (nat, nat) synthesis_state" where
  "sample_submit \<equiv> submit_timeline sample_layout 6 (RichDocument sample_rich) False
     (from_speech_defaults default_speech) sample_routing 0"

lemma sample_domain: "domain_from_timeline (RichDocument sample_rich) =
    Some \<lparr>rd_protocol_version = 7, rd_replacement_key = Some (lit ''k'')\<rparr>"
  by (simp add: domain_from_timeline_def sample_rich_def)

lemma sample_lengths:
  "str_len (st_current_voice (from_speech_defaults default_speech)) = 5"
  "str_len (lit ''hello'') = 5" "str_len (lit ''k'') = 1" "str_len (lit ''beep'') = 4"
  "str_len (lit ''espeak'') = 6"
  by (simp_all add: from_speech_defaults_def default_speech_def lit_Cons utf8_len_def)

lemma sample_sums:
  "usize_saturating_add 0 a = min usize_max a" "usize_saturating_mul a 0 = 0"
  "a < 100000 \<Longrightarrow> b < 100000 \<Longrightarrow> usize_saturating_add a b = a + b"
  "a < 100000 \<Longrightarrow> b < 100000 \<Longrightarrow> usize_saturating_mul a b = a * b"
  "a < 100000 \<Longrightarrow> min usize_max a = a"
proof -
  have "a * b < 100000 * 100000" if "a < 100000" "b < 100000"
    using mult_strict_mono [of a 100000 b 100000] that by simp
  then show "a < 100000 \<Longrightarrow> b < 100000 \<Longrightarrow> usize_saturating_mul a b = a * b"
    by (fastforce simp: usize_saturating_mul_def usize_max_def)
qed (auto simp: usize_saturating_mul_def usize_saturating_add_def usize_max_def)

lemma sample_routing_bytes: "routing_payload_bytes sample_layout sample_routing = 2137"
  by (simp add: sat_sum_def sample_layout_def sample_routing_def
      opt_len_def routing_payload_bytes_def catalogue_payload_bytes_def
      fallback_policy_payload_bytes_def string_vec_payload_bytes_def retained_bytes_def
      default_permissions_def sample_lengths sample_sums)

lemma sample_timeline_bytes:
  "timeline_payload_bytes sample_layout (RichDocument sample_rich) = 470"
  by (simp add: sample_rich_def sat_sum_def layered_payload_bytes_def
      into_execution_def into_execution_parts_def validation_projection_def
      sample_span_def sample_tone_def sample_layout_def legacy_span_bytes_def
      opt_len_def actions_payload_bytes_def sample_lengths sample_sums)

lemma sample_payload:
  "request_payload_bytes sample_layout
     \<lparr>sr_body = SynthTimeline (RichDocument sample_rich) letter sample_routing lease,
      sr_state = from_speech_defaults default_speech, sr_lifecycle = lc, sr_gen = g\<rparr> = 2612"
  by (simp add: request_payload_bytes_def sat_sum_def sample_routing_bytes
      sample_timeline_bytes sample_lengths sample_sums del: timeline_payload_bytes.simps)

text \<open>Two submissions of one domain: the second finds the first still queued.\<close>

abbreviation sample_request :: "nat \<Rightarrow> bool \<Rightarrow> nat option \<Rightarrow> (nat, nat) synth_request" where
  "sample_request token active admitted \<equiv>
     \<lparr>sr_body = SynthTimeline (RichDocument sample_rich) False sample_routing
        (Some \<lparr>kl_domain = \<lparr>rd_protocol_version = 7, rd_replacement_key = Some (lit ''k'')\<rparr>,
               kl_token = token, kl_active = active\<rparr>),
      sr_state = from_speech_defaults default_speech,
      sr_lifecycle = new_lifecycle\<lparr>rl_admitted_at := admitted\<rparr>, sr_gen = 0\<rparr>"

lemma sample_policy [simp]: "tb_delivery_policy sample_rich = Replaceable"
  by (simp add: sample_rich_def)

lemma sample_first_state:
  "entries (sy_queue (synthesis_step sample_layout sample_submission initial_synthesis)) =
     [QueuedWork 2612 (sample_request 0 True (Some 5))]"
  "receiver_alive (sy_queue (synthesis_step sample_layout sample_submission initial_synthesis))"
  "payload_bytes (sy_queue (synthesis_step sample_layout sample_submission initial_synthesis)) = 2612"
  "cr_next (sy_cancellations (synthesis_step sample_layout sample_submission initial_synthesis)) = 1"
  by (simp_all add: sample_submission_def submit_timeline_def sample_domain prepare_lease_def
      enqueue_synthesis_def Let_def try_send_with_commit_def sample_payload
      synthesis_queue_limits_def sample_sums exceeds_limits_def kept_entries_def commit_admission_def commit_lifecycle_def
      new_lifecycle_def initial_synthesis_def empty_cancellations_def retired_entries_def
      commit_registry_def request_lease_def activate_lease_def)

lemma sample_second_accepted:
  "fst (sample_submit (synthesis_step sample_layout sample_submission initial_synthesis))"
  by (simp add: submit_timeline_def sample_domain prepare_lease_def enqueue_synthesis_def Let_def
      split_def try_send_with_commit_def sample_payload synthesis_queue_limits_def sample_sums
      exceeds_limits_def sample_first_state requests_share_domain_def
      body_shares_domain_def
      saturating_sub_def new_lifecycle_def)

theorem submission_supersedes_witness:
  "cr_active
     (sy_cancellations
        (snd (sample_submit (fold (synthesis_step sample_layout) [sample_submission]
                               initial_synthesis))))
     \<lparr>rd_protocol_version = 7, rd_replacement_key = Some (lit ''k'')\<rparr> = Some 1"
proof -
  let ?s = "fold (synthesis_step sample_layout) [sample_submission] initial_synthesis"
  have "sample_submit ?s = (True, snd (sample_submit ?s))"
    using sample_second_accepted by (simp add: prod_eq_iff)
  from submission_supersedes [OF refl sample_domain this] show ?thesis
    by (simp add: sample_first_state)
qed

end
