(* ===== verification/Voice_Previews.thy ===== *)
theory Voice_Previews
  imports Control_Protocol Synth_Requests Routing_Snapshot
begin

text \<open>
  Auditions of unsaved voices (\<open>omnivox-tts/src/voice_preview_v2.rs\<close>, \<open>voice_preview_v3.rs\<close> and the
  preparation of previews in \<open>omnivox-cli/src/server.rs\<close>): the checks of a request, its routing
  through a registry of its own that never touches the live ones, and the terminal event, which is
  shortened until it can be sent.
\<close>

section \<open>Limits\<close>

definition private_preview_voice_id :: rstr where
  "private_preview_voice_id = lit ''__omnivox_preview__''"

definition preview_logical_voice_id :: rstr where
  "preview_logical_voice_id = lit ''omnivox.preview''"

definition max_preview_text_bytes :: nat where "max_preview_text_bytes = 16 * 1024"
definition max_accepted_audio_choices :: nat where "max_accepted_audio_choices = 32"
definition max_preview_message_bytes :: nat where "max_preview_message_bytes = 1024"
definition max_audio_choice_identity_bytes :: nat where
  "max_audio_choice_identity_bytes = 32 * 1024"
definition max_native_audio_choice_bytes :: nat where
  "max_native_audio_choice_bytes = 48 * 1024"

section \<open>Validation\<close>

definition validate_pan :: "f32 option \<Rightarrow> rstr + unit" where
  "validate_pan pan =
     (if (case pan of None \<Rightarrow> False
          | Some p \<Rightarrow> \<not> is_finite p \<or> \<not> f32_in (F32_Fin 0) (F32_Fin 1) p)
      then Inl (lit ''placement pan must be null or finite in [0, 1]'') else Inr ())"

definition layered_draft :: "voice_choice private_preview_voice \<Rightarrow> layered_voice_definition" where
  "layered_draft v =
     \<lparr>ld_id = private_preview_voice_id, ld_language = pp_language v, ld_shared = pp_shared v,
      ld_choices = pp_choices v\<rparr>"

definition native_draft :: "native_choice private_preview_voice \<Rightarrow> native_definition" where
  "native_draft v =
     \<lparr>el_id = private_preview_voice_id, el_language = pp_language v, el_shared = pp_shared v,
      el_choices = pp_choices v\<rparr>"

definition preview_text_error :: rstr where
  "preview_text_error =
     lit ''preview text must contain 1..='' @ show_nat max_preview_text_bytes @ lit '' UTF-8 bytes''"

definition preview_text_ok :: "rstr \<Rightarrow> bool" where
  "preview_text_ok s \<longleftrightarrow> s \<noteq> [] \<and> str_len s \<le> max_preview_text_bytes"

definition rate_ok :: "f32 \<Rightarrow> bool" where
  "rate_ok r \<longleftrightarrow> is_finite r \<and> f32_in (F32_Fin 0) (F32_Fin 2) r"

definition expected_rate_check :: "string \<Rightarrow> f32 option \<Rightarrow> f32 \<Rightarrow> rstr + unit" where
  "expected_rate_check invalid expected base_rate =
     (case expected of
        None \<Rightarrow> Inr ()
      | Some x \<Rightarrow>
          if \<not> rate_ok x then Inl (lit invalid)
          else if \<not> f32_eq x base_rate
          then Inl (lit ''Comparison rate changed; restart comparison'') else Inr ())"

text \<open>A registry of its own checks the engines a request disables.\<close>

definition check_disabled :: "rstr list \<Rightarrow> rstr + unit" where
  "check_disabled ids =
     (case register_policy 1
             \<lparr>preferred_engine_ids = [], fallback_engine_ids = [], disabled_engine_ids = ids\<rparr>
             (new_routing_registry (lit ''preview'')) of
        Inl e \<Rightarrow> Inl (policy_error_message e) | Inr r \<Rightarrow> Inr ())"

definition choice_position :: "rstr \<Rightarrow> voice_choice list \<Rightarrow> nat option" where
  "choice_position cid choices =
     (let n = length (takeWhile (\<lambda>c. vc_id c \<noteq> cid) choices)
      in if n < length choices then Some n else None)"

definition select_choice :: "preview_selection \<Rightarrow> voice_choice list \<Rightarrow> rstr + nat option" where
  "select_choice selection choices =
     (case selection of
        AutomaticSelection \<Rightarrow> Inr None
      | ChoiceSelection cid \<Rightarrow>
          and_then (ok_or (choice_position cid choices)
                     (lit ''preview choice ID is absent from the draft'')) (\<lambda>n. Inr (Some n)))"

definition validate_preview_v2 :: "voice_preview_request_v2 \<Rightarrow> f32 \<Rightarrow> rstr + nat option" where
  "validate_preview_v2 q base_rate =
     and_then (if preview_text_ok (yq_text q) then Inr () else Inl preview_text_error) (\<lambda>_.
     and_then (if rate_ok base_rate then Inr ()
               else Inl (lit ''base rate must be finite in [0, 2]'')) (\<lambda>_.
     and_then (expected_rate_check ''expected base rate must be finite in [0, 2]''
                (yq_expected_base_rate q) base_rate) (\<lambda>_.
     and_then (map_err tuning_error_text (validate_layered (layered_draft (yq_voice q)))) (\<lambda>_.
     and_then (map_err tuning_error_text (validate_patch (yq_style q))) (\<lambda>_.
     and_then (validate_pan (yq_placement_pan q)) (\<lambda>_.
     and_then (map_err voices_error_text (validate_registration [] (yq_fallback_policy q))) (\<lambda>_.
     and_then (check_disabled (yq_disabled_engine_ids q)) (\<lambda>_.
     select_choice (yq_selection q) (pp_choices (yq_voice q))))))))))"

definition common_request :: "voice_preview_request_v3 \<Rightarrow> voice_preview_request_v2" where
  "common_request q =
     (let common = common_projection (native_draft (yq_voice q))
      in \<lparr>yq_text = yq_text q,
          yq_voice = \<lparr>pp_language = ld_language common, pp_shared = ld_shared common,
                      pp_choices = ld_choices common\<rparr>,
          yq_style = yq_style q, yq_placement_pan = yq_placement_pan q,
          yq_selection = yq_selection q, yq_fallback_policy = yq_fallback_policy q,
          yq_disabled_engine_ids = yq_disabled_engine_ids q,
          yq_expected_base_rate = yq_expected_base_rate q\<rparr>)"

definition validate_preview_v3 :: "voice_preview_request_v3 \<Rightarrow> f32 \<Rightarrow> rstr + nat option" where
  "validate_preview_v3 q base_rate =
     and_then (map_err native_error_text (validate_engine_layered (native_draft (yq_voice q)))) (\<lambda>_.
       validate_preview_v2 (common_request q) base_rate)"

section \<open>Terminal events\<close>

text \<open>Room for one identity and an escaped message is reserved before a preview is admitted.\<close>

definition empty_terminal :: "f32 \<Rightarrow> rstr list \<Rightarrow> 'i layered_preview_response" where
  "empty_terminal base_rate disabled =
     \<lparr>yr_status = PreviewCancelled, yr_accepted_audio = [], yr_accepted_truncated = False,
      yr_last_started = None, yr_message = None, yr_base_rate = base_rate,
      yr_disabled_engine_ids = disabled\<rparr>"

definition metadata_budget ::
    "('l, 's) control_codec \<Rightarrow> ('i layered_preview_response \<Rightarrow> ('l, 's) control_response) \<Rightarrow> nat \<Rightarrow>
     f32 \<Rightarrow> rstr list \<Rightarrow> rstr + unit" where
  "metadata_budget codec wrap identity_bytes base_rate disabled =
     and_then (cc_response codec (reply (Some u64_max) (wrap (empty_terminal base_rate disabled))))
       (\<lambda>fixed.
         if max_control_payload_bytes <
              usize_saturating_add (usize_saturating_add (length fixed) identity_bytes)
                (6 * max_preview_message_bytes)
         then Inl (lit ''preview frozen metadata leaves insufficient terminal output space'')
         else Inr ())"

definition clip_message :: "rstr \<Rightarrow> rstr" where
  "clip_message m =
     truncate_bytes m (boundary_below m (min (str_len m) max_preview_message_bytes))"

definition clip_response :: "'i layered_preview_response \<Rightarrow> 'i layered_preview_response" where
  "clip_response r0 =
     (let r = (if max_accepted_audio_choices < length (yr_accepted_audio r0)
               then r0\<lparr>yr_accepted_audio := take max_accepted_audio_choices (yr_accepted_audio r0),
                       yr_accepted_truncated := True\<rparr>
               else r0)
      in r\<lparr>yr_message := map_option clip_message (yr_message r)\<rparr>)"

text \<open>The loop: the last accepted entry is dropped until the event can be written.\<close>

function shrink_event ::
    "('l, 's) control_codec \<Rightarrow> ('i layered_preview_response \<Rightarrow> ('l, 's) control_response) \<Rightarrow> nat \<Rightarrow>
     'i layered_preview_response \<Rightarrow> control_codec_error + rstr" where
  "shrink_event codec wrap i r =
     (case format_control_event codec (reply (Some i) (wrap r)) of
        Inr event \<Rightarrow> Inr event
      | Inl CcPayloadTooLarge \<Rightarrow>
          if yr_accepted_audio r = [] then Inl CcPayloadTooLarge
          else shrink_event codec wrap i
                 (r\<lparr>yr_accepted_audio := butlast (yr_accepted_audio r), yr_accepted_truncated := True\<rparr>)
      | Inl e \<Rightarrow> Inl e)"
  by pat_completeness auto
termination
  by (relation "measure (\<lambda>(codec, wrap, i, r). length (yr_accepted_audio r))") auto

declare shrink_event.simps [simp del]

definition bounded_event ::
    "('l, 's) control_codec \<Rightarrow> ('i layered_preview_response \<Rightarrow> ('l, 's) control_response) \<Rightarrow> nat \<Rightarrow>
     'i layered_preview_response \<Rightarrow> control_codec_error + rstr" where
  "bounded_event codec wrap i r = shrink_event codec wrap i (clip_response r)"

section \<open>Preparation\<close>

text \<open>Serialized sizes and the codec of replies, as in \<open>control_env\<close>.\<close>

definition effective_disabled :: "rstr list \<Rightarrow> routing_policy_registry \<Rightarrow> rstr list" where
  "effective_disabled requested applied =
     push_missing (disabled_engine_ids (rp_policy applied)) requested"

definition private_registry :: "('e, 'f) engine_registry \<Rightarrow> native_patch logical_voice_registry" where
  "private_registry engines = with_engine_permissions (er_permissions engines)"

definition inventory_of :: "('e, 'f) engine_registry \<Rightarrow> engine_descriptor list" where
  "inventory_of engines = snd (snapshot_registry engines)"

type_synonym session_routing = "(native_patch, parameter_catalogue) routing_snapshot"

definition restrict_choice :: "nat option \<Rightarrow> session_routing \<Rightarrow> rstr + session_routing" where
  "restrict_choice index routing =
     (case index of
        None \<Rightarrow> Inr routing
      | Some i \<Rightarrow> map_err lit (restrict_preview_to_choice i routing))"

definition prepare_voice_preview_v2 ::
    "('l, 's) control_codec \<Rightarrow> voice_preview_request_v2 \<Rightarrow> f32 \<Rightarrow> ('e, 'f) engine_registry \<Rightarrow>
     routing_policy_registry \<Rightarrow> rstr + session_routing \<times> preview_target" where
  "prepare_voice_preview_v2 codec q base_rate engines applied =
     and_then (validate_preview_v2 q base_rate) (\<lambda>index.
     let disabled = effective_disabled (yq_disabled_engine_ids q) applied
     in and_then
       (metadata_budget codec PreviewVoiceCompletedV2 max_audio_choice_identity_bytes base_rate
         disabled) (\<lambda>_.
     and_then
       (map_err tuning_error_text
         (register_v2 1 [Layered (layered_draft (yq_voice q))] (yq_fallback_policy q)
           (inventory_of engines) (private_registry engines))) (\<lambda>(registration, own).
     and_then (restrict_choice index (capture_voice_preview own engines disabled)) (\<lambda>routing.
       Inr (routing, LayeredPreview base_rate disabled (yq_style q) (yq_placement_pan q))))))"

definition prepare_voice_preview_v3 ::
    "('l, 's) control_env \<Rightarrow> voice_preview_request_v3 \<Rightarrow> f32 \<Rightarrow> ('e, 'f) engine_registry \<Rightarrow>
     routing_policy_registry \<Rightarrow> parameter_catalogue list \<Rightarrow>
     rstr + session_routing \<times> preview_target" where
  "prepare_voice_preview_v3 env q base_rate engines applied catalogues =
     and_then (validate_preview_v3 q base_rate) (\<lambda>index.
     let disabled = effective_disabled (yq_disabled_engine_ids q) applied
     in and_then
       (metadata_budget (ce_codec env) PreviewVoiceCompletedV3 max_native_audio_choice_bytes base_rate
         disabled) (\<lambda>_.
     and_then
       (map_err native_error_text
         (and_then (new_snapshot (inventory_of engines) (map KnownReady catalogues)) (\<lambda>s.
           register_v3 (ce_registration_size env) (ce_acknowledgement_size env)
             \<lparr>rv_generation = 1, rv_definitions = [EngineLayered (native_draft (yq_voice q))],
              rv_policy = yq_fallback_policy q\<rparr>
             s (private_registry engines)))) (\<lambda>(registration, own).
     and_then
       (restrict_choice index
         (with_parameter_catalogues catalogues (capture_voice_preview own engines disabled)))
       (\<lambda>routing.
       Inr (routing, NativePreview base_rate disabled (yq_style q) (yq_placement_pan q))))))"

definition apply_preview_rate_offset ::
    "normalized_acss \<Rightarrow> int option \<Rightarrow> f32 \<Rightarrow> rstr + normalized_acss" where
  "apply_preview_rate_offset acss rate_offset base_rate =
     (case rate_offset of
        None \<Rightarrow> Inr acss
      | Some n \<Rightarrow>
          if \<not> (-20 \<le> n \<and> n \<le> 20)
          then Inl (lit ''preview rate offset must be between -20 and 20 points'')
          else if na_rate acss \<noteq> None
          then Inl (lit ''preview cannot combine absolute rate and rate offset'')
          else Inr (if n = 0 then acss else acss\<lparr>na_rate := Some (apply_rate_offset base_rate n)\<rparr>))"

definition prepare_voice_preview ::
    "voice_preview_request \<Rightarrow> f32 \<Rightarrow> ('e, 'f) engine_registry \<Rightarrow> routing_policy_registry \<Rightarrow>
     rstr + session_routing \<times> preview_target" where
  "prepare_voice_preview q base_rate engines applied =
     and_then (if preview_text_ok (vq_text q) then Inr () else Inl preview_text_error) (\<lambda>_.
     and_then (expected_rate_check ''expected base rate must be finite and between zero and two''
                (vq_expected_base_rate q) base_rate) (\<lambda>_.
     and_then (apply_preview_rate_offset (vq_acss q) (vq_rate_offset q) base_rate) (\<lambda>acss.
     and_then (check_disabled (vq_disabled_engine_ids q)) (\<lambda>_.
     let disabled = effective_disabled (vq_disabled_engine_ids q) applied
     in and_then
       (map_err voices_error_text
         (register_voices 1
           [\<lparr>lv_id = preview_logical_voice_id, lv_language = vq_language q,
             lv_preferences = vq_preferences q, lv_acss = acss, lv_effects = vq_effects q\<rparr>]
           (vq_fallback_policy q) (inventory_of engines) (private_registry engines)))
       (\<lambda>(registration, own).
       Inr (capture_voice_preview own engines disabled, CompletePreview base_rate disabled))))))"

definition resolution_error_text :: "voice_resolution_error \<Rightarrow> rstr" where
  "resolution_error_text e =
     lit ''no usable physical voice for logical voice '' @ ve_logical_voice_id e"

text \<open>The audition of one exact selector; \<open>Inl\<close> is the message of its failed status.\<close>

definition dispatch_preview ::
    "exact_preview_request \<Rightarrow> f32 \<Rightarrow> engine_descriptor list \<Rightarrow> ('e, 'f) engine_registry \<Rightarrow>
     routing_policy_registry \<Rightarrow> rstr + session_routing \<times> preview_target" where
  "dispatch_preview q speech_rate inventory engines applied =
     and_then (if xq_text q = [] then Inl (lit ''preview text must not be empty'')
               else if max_preview_text_bytes < str_len (xq_text q)
               then Inl (lit ''preview text exceeds the '' @ show_nat max_preview_text_bytes @
                         lit ''-byte limit'')
               else Inr ()) (\<lambda>_.
     and_then (apply_preview_rate_offset (xq_acss q) (xq_rate_offset q) speech_rate) (\<lambda>acss.
     and_then
       (map_err voices_error_text
         (register_voices 1
           [\<lparr>lv_id = preview_logical_voice_id, lv_language = xq_language q,
             lv_preferences = [xq_selector q], lv_acss = acss, lv_effects = xq_effects q\<rparr>]
           empty_policy inventory (private_registry engines))) (\<lambda>(registration, own).
     and_then
       (case lg_bindings registration of
          [Resolved r] \<Rightarrow> Inr ()
        | [Unresolved e] \<Rightarrow> Inl (resolution_error_text e)
        | _ \<Rightarrow> Inl (lit ''preview route did not produce one binding'')) (\<lambda>_.
       Inr (capture_preview own engines applied, IndividualPreview (xq_selector q))))))"

section \<open>An audition stays private and inside its restrictions\<close>

text \<open>
  The routing of a draft: its disabled engines, and with a selected choice nothing but that choice.
\<close>

definition draft_routing ::
    "rstr list \<Rightarrow> engine_selection_permissions \<Rightarrow> nat option \<Rightarrow> voice_selector list \<Rightarrow>
     session_routing \<Rightarrow> bool" where
  "draft_routing disabled perms index selectors r \<longleftrightarrow>
     rsn_disabled_engine_ids r = disabled \<and> rsn_engine_permissions r = perms \<and>
     rsn_preview_choice_index r = index \<and>
     (\<exists>d. rsn_definitions r = [d] \<and>
        (case index of
           None \<Rightarrow> lv_preferences d = selectors
         | Some i \<Rightarrow> i < length selectors \<and> lv_preferences d = [selectors ! i] \<and>
                     rsn_fallback_policy r = empty_policy))"

lemma private_registry_simps [simp]:
  "lr_generation (private_registry engines) = 0" "lr_permissions (private_registry engines) = er_permissions engines"
  by (simp_all add: private_registry_def with_engine_permissions_def)

lemma stored_definitions [simp]:
  "store_bindings inventory r0 = (reg, r) \<Longrightarrow>
   lr_definitions r = lr_definitions r0 \<and> lr_registered r = lr_registered r0"
  by (auto simp: store_bindings_def Let_def)

lemma replaced_private:
  assumes "replace_definitions 1 [d] policy inventory (private_registry engines) = Inr (reg, r)"
  shows "\<exists>p s. admit_definition d = Inr (s, p) \<and> lr_definitions r = [p] \<and> lr_registered r = [s]"
proof -
  from assms obtain admitted r0 where a: "try_collect admit_definition [d] = Inr admitted"
    "(reg, r) = store_bindings inventory r0"
    "published 1 (map fst admitted) (map snd admitted) policy (private_registry engines) r0"
    by (rule replace_definitions_Inr) blast
  from a(1) obtain s p where sp: "admit_definition d = Inr (s, p)" "admitted = [(s, p)]"
    by (auto simp: and_then_Inr)
  with a(2,3) stored_definitions [OF a(2) [symmetric]] show ?thesis
    by (auto simp: published_def)
qed

lemma restricted_draft:
  assumes "restrict_choice index (r :: session_routing) = Inr r'"
    and "rsn_definitions r = [d]" "lv_preferences d = selectors" "rsn_preview_choice_index r = None"
    and "(rsn_layered_definitions r = [ld] \<and> rsn_engine_definitions r = [] \<and>
          selectors = map vc_selector (ld_choices ld)) \<or>
         (rsn_layered_definitions r = [] \<and> rsn_engine_definitions r = [el] \<and>
          selectors = map evc_selector (el_choices el))"
  shows "draft_routing (rsn_disabled_engine_ids r) (rsn_engine_permissions r) index selectors r'"
  using assms
  by (auto simp: restrict_choice_def restrict_preview_to_choice_def draft_routing_def res_simps
      split: option.splits if_splits)

lemma captured_simps [simp]:
  "rsn_definitions (capture_voice_preview r engines ids) = lr_definitions r"
  "rsn_layered_definitions (capture_voice_preview r engines ids) = layered_definitions r"
  "rsn_engine_definitions (capture_voice_preview r engines ids) = engine_definitions r"
  "rsn_preview_choice_index (capture_voice_preview r engines ids) = None"
  "rsn_disabled_engine_ids (capture_voice_preview r engines ids) = ids"
  "rsn_engine_permissions (capture_voice_preview r engines ids) = er_permissions engines"
  by (simp_all add: capture_voice_preview_def replace_inventory_def)

lemma prepared_v2:
  assumes "prepare_voice_preview_v2 codec q rate engines applied = Inr (routing, target)"
  shows "\<exists>index. validate_preview_v2 q rate = Inr index \<and>
    draft_routing (effective_disabled (yq_disabled_engine_ids q) applied) (er_permissions engines)
      index (map vc_selector (pp_choices (yq_voice q))) routing"
proof -
  let ?ids = "effective_disabled (yq_disabled_engine_ids q) applied"
  from assms obtain index reg own where v: "validate_preview_v2 q rate = Inr index"
    and r: "register_v2 1 [Layered (layered_draft (yq_voice q))] (yq_fallback_policy q)
      (inventory_of engines) (private_registry engines) = Inr (reg, own)"
    and c: "restrict_choice index (capture_voice_preview own engines ?ids) = Inr routing"
    by (auto simp: prepare_voice_preview_v2_def and_then_Inr map_err_Inr Let_def)
  from replaced_private [OF register_v2_Inr [OF r]]
  have "lr_definitions own = [legacy_projection (layered_draft (yq_voice q))]"
    "lr_registered own = [Layered (layered_draft (yq_voice q))]"
    by (auto simp: and_then_Inr)
  with restricted_draft [OF c] v show ?thesis
    by (simp add: layered_definitions_def engine_definitions_def List.map_filter_def
        legacy_projection_def layered_draft_def)
qed

lemma prepared_v3:
  assumes "prepare_voice_preview_v3 env q rate engines applied catalogues = Inr (routing, target)"
  shows "\<exists>index. validate_preview_v3 q rate = Inr index \<and>
    draft_routing (effective_disabled (yq_disabled_engine_ids q) applied) (er_permissions engines)
      index (map evc_selector (pp_choices (yq_voice q))) routing"
proof -
  let ?ids = "effective_disabled (yq_disabled_engine_ids q) applied"
  from assms obtain index s ack own where v: "validate_preview_v3 q rate = Inr index"
    and r: "register_v3 (ce_registration_size env) (ce_acknowledgement_size env)
      \<lparr>rv_generation = 1, rv_definitions = [EngineLayered (native_draft (yq_voice q))],
       rv_policy = yq_fallback_policy q\<rparr> s (private_registry engines) = Inr (ack, own)"
    and c: "restrict_choice index (with_parameter_catalogues catalogues
      (capture_voice_preview own engines ?ids)) = Inr routing"
    by (auto simp: prepare_voice_preview_v3_def and_then_Inr map_err_Inr Let_def)
  from r obtain reg where
    "replace_definitions 1 [EngineLayered (native_draft (yq_voice q))] (yq_fallback_policy q)
      (cs_inventory s) (private_registry engines) = Inr (reg, own)"
    by (rule register_v3_Inr) auto
  from replaced_private [OF this]
  have "lr_definitions own = [legacy_projection (common_projection (native_draft (yq_voice q)))]"
    "lr_registered own = [EngineLayered (native_draft (yq_voice q))]"
    by auto
  with restricted_draft [OF c] v show ?thesis
    by (simp add: with_parameter_catalogues_def layered_definitions_def engine_definitions_def
        List.map_filter_def legacy_projection_def common_projection_def native_draft_def o_def)
qed

lemma audition_engine:
  assumes "resolve_current_with_text (replace_inventory current routing) lid t engines = Inr route"
  shows "\<exists>d \<in> set current. ed_id d \<notin> set (rsn_disabled_engine_ids routing) \<and>
    engine_usable t (rsn_engine_permissions routing) d \<and> engine_offers d (ro_realized route)"
proof -
  from resolve_current_with_text_Inr [OF assms] obtain d where
    d: "d \<in> set current" and u: "engine_usable t (rsn_engine_permissions routing)
        (if ed_id d \<in> set (rsn_disabled_engine_ids routing) then disabled_descriptor d else d)"
      "engine_offers (if ed_id d \<in> set (rsn_disabled_engine_ids routing) then disabled_descriptor d else d)
        (ro_realized route)"
    by (auto simp: voice_usable_def replace_inventory_def)
  from u(1) have "ed_id d \<notin> set (rsn_disabled_engine_ids routing)"
    by (auto simp: engine_usable_def engine_can_synthesize_def disabled_descriptor_def split: if_splits)
  with d u show ?thesis by auto
qed

lemma only_preference:
  assumes "resolve_voice_with_permissions engines d empty_policy t perms = Inr r"
    and "lv_preferences d = [sel]"
  shows "vr_reason r = Preferred \<and> evaluate_selector engines [] t perms sel = Inr (vr_realized r)"
proof -
  have "all_stages d empty_policy = [(StPreference 0, Preferred, sel)]"
    using assms(2)
    by (simp add: all_stages_def preference_stages_def same_language_stages_def
        preferred_engine_stages_def global_default_stages_def fallback_engine_stages_def
        empty_policy_def)
  with assms(1) show ?thesis
    by (auto simp: resolve_stages empty_policy_def split: sum.splits)
qed

text \<open>A selected choice is heard through its own selector or not at all.\<close>

lemma audition_choice:
  assumes "resolve_current_with_text (replace_inventory current routing) lid t engines = Inr route"
    and "draft_routing disabled perms (Some i) selectors routing"
  shows "i < length selectors \<and>
    vr_reason (ro_resolution route) = (if i = 0 then Preferred else ExplicitAlternative i) \<and>
    evaluate_selector (rsn_inventory (replace_inventory current routing)) [] t perms (selectors ! i) =
      Inr (ro_realized route)"
proof -
  from assms(2) obtain d where d: "rsn_definitions routing = [d]" "i < length selectors"
    "lv_preferences d = [selectors ! i]" "rsn_fallback_policy routing = empty_policy"
    "rsn_preview_choice_index routing = Some i" "rsn_engine_permissions routing = perms"
    by (auto simp: draft_routing_def)
  from assms(1) d obtain res where
    res: "resolve_voice_with_permissions (rsn_inventory (replace_inventory current routing)) d empty_policy
        t perms = Inr res"
    and r: "ro_resolution route = (if 0 < i then res\<lparr>vr_reason := ExplicitAlternative i\<rparr> else res)"
      "ro_realized route = vr_realized res"
    by (auto simp: resolve_current_with_text_def route_from_resolution_def Let_def res_simps
        replace_inventory_def split: if_splits)
  from only_preference [OF res d(3)] d(2) r show ?thesis by simp
qed

lemma choice_position_Some:
  "choice_position cid choices = Some i \<Longrightarrow> i < length choices \<and> vc_id (choices ! i) = cid"
proof -
  assume a: "choice_position cid choices = Some i"
  then have i: "i = length (takeWhile (\<lambda>c. vc_id c \<noteq> cid) choices)" "i < length choices"
    by (auto simp: choice_position_def Let_def split: if_splits)
  from nth_length_takeWhile [of "\<lambda>c. vc_id c \<noteq> cid" choices] i show ?thesis by auto
qed

lemma select_choice_Inr:
  "select_choice selection choices = Inr index \<Longrightarrow>
   (case selection of
      AutomaticSelection \<Rightarrow> index = None
    | ChoiceSelection cid \<Rightarrow> \<exists>i. index = Some i \<and> i < length choices \<and> vc_id (choices ! i) = cid)"
  by (auto simp: select_choice_def res_simps dest: choice_position_Some
      split: preview_selection.splits option.splits)

lemma validated_v2:
  "validate_preview_v2 q rate = Inr index \<Longrightarrow>
   select_choice (yq_selection q) (pp_choices (yq_voice q)) = Inr index \<and>
   preview_text_ok (yq_text q) \<and> rate_ok rate \<and> validate_layered (layered_draft (yq_voice q)) = Inr () \<and>
   validate_patch (yq_style q) = Inr ()"
  by (auto simp: validate_preview_v2_def and_then_Inr map_err_Inr split: if_splits)

lemma validated_v3:
  assumes "validate_preview_v3 q rate = Inr index"
  shows "case yq_selection q of
      AutomaticSelection \<Rightarrow> index = None
    | ChoiceSelection cid \<Rightarrow> \<exists>i. index = Some i \<and> i < length (pp_choices (yq_voice q)) \<and>
        evc_id (pp_choices (yq_voice q) ! i) = cid"
proof -
  from assms have "validate_preview_v2 (common_request q) rate = Inr index"
    by (auto simp: validate_preview_v3_def and_then_Inr)
  from select_choice_Inr [OF conjunct1 [OF validated_v2 [OF this]]] show ?thesis
    by (auto simp: common_request_def Let_def common_projection_def native_draft_def
        split: preview_selection.splits)
qed

lemma set_effective_disabled [simp]:
  "set (effective_disabled ids applied) = set ids \<union> set (disabled_engine_ids (rp_policy applied))"
  by (auto simp: effective_disabled_def set_push_missing)

lemma preview_v2_confined:
  assumes "prepare_voice_preview_v2 codec q rate engines applied = Inr (routing, target)"
    and "resolve_current_with_text (replace_inventory current routing) lid t registry = Inr route"
  shows "(\<exists>d \<in> set current. ed_id d \<notin> set (yq_disabled_engine_ids q) \<union>
            set (disabled_engine_ids (rp_policy applied)) \<and>
          engine_usable t (er_permissions engines) d \<and> engine_offers d (ro_realized route)) \<and>
    (case yq_selection q of
       AutomaticSelection \<Rightarrow> True
     | ChoiceSelection cid \<Rightarrow> \<exists>i < length (pp_choices (yq_voice q)).
         vc_id (pp_choices (yq_voice q) ! i) = cid \<and>
         evaluate_selector (rsn_inventory (replace_inventory current routing)) [] t
           (er_permissions engines) (vc_selector (pp_choices (yq_voice q) ! i)) =
             Inr (ro_realized route))"
proof -
  from prepared_v2 [OF assms(1)] obtain index where v: "validate_preview_v2 q rate = Inr index"
    and d: "draft_routing (effective_disabled (yq_disabled_engine_ids q) applied)
      (er_permissions engines) index (map vc_selector (pp_choices (yq_voice q))) routing" by blast
  from d have "rsn_disabled_engine_ids routing = effective_disabled (yq_disabled_engine_ids q) applied"
    "rsn_engine_permissions routing = er_permissions engines" by (simp_all add: draft_routing_def)
  with audition_engine [OF assms(2)] select_choice_Inr [OF conjunct1 [OF validated_v2 [OF v]]]
    audition_choice [OF assms(2)] d
  show ?thesis by (fastforce split: preview_selection.splits)
qed

lemma preview_v3_confined:
  assumes "prepare_voice_preview_v3 env q rate engines applied catalogues = Inr (routing, target)"
    and "resolve_current_with_text (replace_inventory current routing) lid t registry = Inr route"
  shows "(\<exists>d \<in> set current. ed_id d \<notin> set (yq_disabled_engine_ids q) \<union>
            set (disabled_engine_ids (rp_policy applied)) \<and>
          engine_usable t (er_permissions engines) d \<and> engine_offers d (ro_realized route)) \<and>
    (case yq_selection q of
       AutomaticSelection \<Rightarrow> True
     | ChoiceSelection cid \<Rightarrow> \<exists>i < length (pp_choices (yq_voice q)).
         evc_id (pp_choices (yq_voice q) ! i) = cid \<and>
         evaluate_selector (rsn_inventory (replace_inventory current routing)) [] t
           (er_permissions engines) (evc_selector (pp_choices (yq_voice q) ! i)) =
             Inr (ro_realized route))"
proof -
  from prepared_v3 [OF assms(1)] obtain index where v: "validate_preview_v3 q rate = Inr index"
    and d: "draft_routing (effective_disabled (yq_disabled_engine_ids q) applied)
      (er_permissions engines) index (map evc_selector (pp_choices (yq_voice q))) routing" by blast
  from d have "rsn_disabled_engine_ids routing = effective_disabled (yq_disabled_engine_ids q) applied"
    "rsn_engine_permissions routing = er_permissions engines" by (simp_all add: draft_routing_def)
  with audition_engine [OF assms(2)] validated_v3 [OF v] audition_choice [OF assms(2)] d
  show ?thesis by (fastforce split: preview_selection.splits)
qed

section \<open>A terminal event is shortened, never falsified\<close>

definition keep_choices :: "nat \<Rightarrow> 'i layered_preview_response \<Rightarrow> 'i layered_preview_response" where
  "keep_choices n r =
     r\<lparr>yr_accepted_audio := take n (yr_accepted_audio r),
       yr_accepted_truncated := yr_accepted_truncated r \<or> n < length (yr_accepted_audio r)\<rparr>"

lemma keep_choices_all [simp]: "length (yr_accepted_audio r) \<le> n \<Longrightarrow> keep_choices n r = r"
  by (simp add: keep_choices_def)

lemma shrink_event_spec:
  "\<exists>n \<le> length (yr_accepted_audio r).
     shrink_event codec wrap i r = format_control_event codec (reply (Some i) (wrap (keep_choices n r))) \<and>
     (shrink_event codec wrap i r = Inl CcPayloadTooLarge \<longrightarrow> n = 0) \<and>
     (\<forall>m. n < m \<and> m \<le> length (yr_accepted_audio r) \<longrightarrow>
        format_control_event codec (reply (Some i) (wrap (keep_choices m r))) = Inl CcPayloadTooLarge)"
proof (induction codec wrap i r rule: shrink_event.induct)
  case (1 codec wrap i r)
  let ?f = "\<lambda>r. format_control_event codec (reply (Some i) (wrap r))"
  let ?acc = "yr_accepted_audio r"
  note step = shrink_event.simps [of codec wrap i r]
  consider (big) "?f r = Inl CcPayloadTooLarge" "?acc \<noteq> []"
    | (stop) "?f r \<noteq> Inl CcPayloadTooLarge \<or> ?acc = []" by blast
  then show ?case
  proof cases
    case stop
    then have "shrink_event codec wrap i r = ?f r"
      by (auto simp: step split: sum.splits control_codec_error.splits)
    with stop show ?thesis by (intro exI [of _ "length ?acc"]) auto
  next
    case big
    let ?r = "r\<lparr>yr_accepted_audio := butlast ?acc, yr_accepted_truncated := True\<rparr>"
    from big have eq: "shrink_event codec wrap i r = shrink_event codec wrap i ?r"
      by (simp add: step)
    have kept: "keep_choices m ?r = keep_choices m r" if "m \<le> length ?acc - 1" for m
      using that big(2) by (cases ?acc rule: rev_cases) (auto simp: keep_choices_def)
    have len: "length (yr_accepted_audio ?r) = length ?acc - 1" by simp
    from 1 [OF big(1) refl big(2), unfolded len] obtain n where n: "n \<le> length ?acc - 1"
      "shrink_event codec wrap i ?r = ?f (keep_choices n ?r)"
      "shrink_event codec wrap i ?r = Inl CcPayloadTooLarge \<longrightarrow> n = 0"
      "\<forall>m. n < m \<and> m \<le> length ?acc - 1 \<longrightarrow> ?f (keep_choices m ?r) = Inl CcPayloadTooLarge"
      by blast
    have "?f (keep_choices m r) = Inl CcPayloadTooLarge" if "n < m" "m \<le> length ?acc" for m
    proof (cases "m = length ?acc")
      case True
      with big show ?thesis by simp
    next
      case False
      with that have m: "m \<le> length ?acc - 1" by simp
      with n(4) that(1) have "?f (keep_choices m ?r) = Inl CcPayloadTooLarge" by blast
      then show ?thesis unfolding kept [OF m] .
    qed
    moreover have "n \<le> length ?acc" using n(1) by simp
    moreover have "shrink_event codec wrap i r = ?f (keep_choices n r)"
      using n(2) eq kept [OF n(1)] by simp
    moreover have "shrink_event codec wrap i r = Inl CcPayloadTooLarge \<longrightarrow> n = 0"
      using n(3) eq by simp
    ultimately show ?thesis by blast
  qed
qed

lemma clip_message_spec: "str_len (clip_message m) \<le> 1024 \<and> (\<exists>rest. m = clip_message m @ rest)"
  using bounded_message_spec [of m]
  by (auto simp: clip_message_def bounded_message_def max_preview_message_bytes_def)

lemma clip_response_keeps:
  "clip_response r =
     (keep_choices max_accepted_audio_choices r)\<lparr>yr_message := map_option clip_message (yr_message r)\<rparr>"
  by (simp add: clip_response_def keep_choices_def)

lemma bounded_event_spec:
  "\<exists>n \<le> min max_accepted_audio_choices (length (yr_accepted_audio r)).
     bounded_event codec wrap i r =
       format_control_event codec (reply (Some i) (wrap
         ((keep_choices n r)\<lparr>yr_message := map_option clip_message (yr_message r)\<rparr>))) \<and>
     (bounded_event codec wrap i r = Inl CcPayloadTooLarge \<longrightarrow> n = 0) \<and>
     (\<forall>m. n < m \<and> m \<le> min max_accepted_audio_choices (length (yr_accepted_audio r)) \<longrightarrow>
        format_control_event codec (reply (Some i) (wrap
          ((keep_choices m r)\<lparr>yr_message := map_option clip_message (yr_message r)\<rparr>))) =
          Inl CcPayloadTooLarge)"
proof -
  define k where "k = min max_accepted_audio_choices (length (yr_accepted_audio r))"
  define f where "f m = format_control_event codec (reply (Some i) (wrap
    ((keep_choices m r)\<lparr>yr_message := map_option clip_message (yr_message r)\<rparr>)))" for m
  have kept: "format_control_event codec (reply (Some i) (wrap (keep_choices m (clip_response r)))) = f m"
    if "m \<le> k" for m
    using that
    by (auto simp: clip_response_keeps keep_choices_def k_def f_def min_absorb1
        intro!: arg_cong [where f = "\<lambda>r. format_control_event codec (reply (Some i) (wrap r))"]
          layered_preview_response.equality)
  have len: "length (yr_accepted_audio (clip_response r)) = k"
    by (simp add: clip_response_keeps keep_choices_def k_def min.commute)
  from shrink_event_spec [of "clip_response r" codec wrap i] obtain n where n: "n \<le> k"
    "shrink_event codec wrap i (clip_response r) =
       format_control_event codec (reply (Some i) (wrap (keep_choices n (clip_response r))))"
    "shrink_event codec wrap i (clip_response r) = Inl CcPayloadTooLarge \<longrightarrow> n = 0"
    "\<forall>m. n < m \<and> m \<le> k \<longrightarrow> format_control_event codec
       (reply (Some i) (wrap (keep_choices m (clip_response r)))) = Inl CcPayloadTooLarge"
    unfolding len by blast
  have "bounded_event codec wrap i r = f n" using n(1,2) by (simp add: bounded_event_def kept)
  moreover have "bounded_event codec wrap i r = Inl CcPayloadTooLarge \<longrightarrow> n = 0"
    using n(3) by (simp add: bounded_event_def)
  moreover have "f m = Inl CcPayloadTooLarge" if "n < m" "m \<le> k" for m
    using n(4) that kept by simp
  ultimately show ?thesis using n(1) unfolding k_def f_def by blast
qed

section \<open>Properties\<close>

text \<open>
  C33: An audition of an unsaved layered voice stays inside its restrictions, whatever the worker's
  inventory is by then: the voice that is heard is offered by a usable engine that neither the
  request nor the routing policy in force nor the local configuration disables, and when one choice
  was selected it is the voice that choice's own selector gives, never a fallback.
\<close>
theorem preview_confined:
  assumes "prepare_voice_preview_v2 codec q rate engines applied = Inr (routing, target)"
    and "resolve_current_with_text (replace_inventory current routing) lid t registry = Inr route"
  shows "(\<exists>d. d \<in> set current \<and> ed_id d \<notin> set (yq_disabled_engine_ids q) \<union>
            set (disabled_engine_ids (rp_policy applied)) \<and>
          engine_usable t (er_permissions engines) d \<and> engine_offers d (ro_realized route)) \<and>
    (case yq_selection q of
       AutomaticSelection \<Rightarrow> True
     | ChoiceSelection cid \<Rightarrow> \<exists>i. i < length (pp_choices (yq_voice q)) \<and>
         vc_id (pp_choices (yq_voice q) ! i) = cid \<and>
         evaluate_selector (rsn_inventory (replace_inventory current routing)) [] t
           (er_permissions engines) (vc_selector (pp_choices (yq_voice q) ! i)) =
             Inr (ro_realized route))"
  using preview_v2_confined [OF assms] by (auto split: preview_selection.splits)

definition sample_draft :: voice_preview_request_v2 where
  "sample_draft =
     \<lparr>yq_text = lit ''a'',
      yq_voice = \<lparr>pp_language = None,
        pp_shared = \<lparr>ss_acss = no_acss, ss_rate_offset = None, ss_effects = no_effects\<rparr>,
        pp_choices = [\<lparr>vc_id = lit ''first'',
          vc_selector = Exact (PhysicalVoiceId (lit ''e'') (lit ''v'')),
          vc_adjustments = no_patch\<rparr>]\<rparr>,
      yq_style = no_patch, yq_placement_pan = None, yq_selection = ChoiceSelection (lit ''first''),
      yq_fallback_policy = empty_policy, yq_disabled_engine_ids = [], yq_expected_base_rate = None\<rparr>"

definition sample_preview_codec :: "(unit, unit) control_codec" where
  "sample_preview_codec =
     \<lparr>cc_decode = \<lambda>_. Inl [], cc_encode = \<lambda>_. [], cc_tree = \<lambda>_. Inl [], cc_request = \<lambda>_. Inl [],
      cc_identity = \<lambda>_. Inl [], cc_response = \<lambda>_. Inr [123, 125]\<rparr>"

definition sample_engines :: "(engine_descriptor, unit) engine_registry" where
  "sample_engines =
     (new_registry None)\<lparr>er_entries :=
       [(lit ''e'', \<lparr>re_engine = Some (Bare sample_engine), re_descriptor = sample_engine,
                     re_retry = None, re_rescanning = False\<rparr>)]\<rparr>"

definition sample_applied :: routing_policy_registry where
  "sample_applied = new_routing_registry (lit ''e'')"

lemma sample_draft_valid: "validate_preview_v2 sample_draft (F32_Fin 1) = Inr (Some 0)"
proof -
  have "validate_layered (layered_draft (yq_voice sample_draft)) = Inr ()"
    "map_err voices_error_text (validate_registration [] (yq_fallback_policy sample_draft)) = Inr ()"
    "check_disabled (yq_disabled_engine_ids sample_draft) = Inr ()"
    "validate_patch (yq_style sample_draft) = Inr ()"
    "select_choice (yq_selection sample_draft) (pp_choices (yq_voice sample_draft)) = Inr (Some 0)"
    by code_simp+
  moreover have "preview_text_ok (yq_text sample_draft)" "rate_ok (F32_Fin 1)"
    by (simp_all add: preview_text_ok_def sample_draft_def max_preview_text_bytes_def rate_ok_def
        f32_in_def lit_Cons utf8_len_def)
  ultimately show ?thesis
    by (simp add: validate_preview_v2_def expected_rate_check_def sample_draft_def
        validate_pan_def)
qed

definition sample_draft_registration ::
    "choice_tuning_error + logical_voice_registration \<times> native_patch logical_voice_registry" where
  "sample_draft_registration =
     register_v2 1 [Layered (layered_draft (yq_voice sample_draft))] empty_policy
       (inventory_of sample_engines) (private_registry sample_engines)"

definition sample_audition :: "route_error + engine_descriptor logical_route" where
  "sample_audition =
     (case sample_draft_registration of
        Inl e \<Rightarrow> Inl NativeRoutingRequired
      | Inr (reg, r) \<Rightarrow>
          (case restrict_choice (Some 0)
                  (capture_voice_preview r sample_engines (effective_disabled [] sample_applied)) of
             Inl e \<Rightarrow> Inl NativeRoutingRequired
           | Inr routing \<Rightarrow>
               resolve_current_with_text (replace_inventory [sample_engine] routing)
                 private_preview_voice_id None sample_engines))"

lemma sample_auditions: "is_ok sample_audition"
  by code_simp

theorem preview_confined_witness:
  "\<exists>d. d \<in> set [sample_engine] \<and> ed_id d \<notin> set (disabled_engine_ids (rp_policy sample_applied)) \<and>
     engine_usable None (er_permissions sample_engines) d"
proof -
  from sample_auditions obtain reg r routing route where
    r: "sample_draft_registration = Inr (reg, r)"
    and c: "restrict_choice (Some 0)
      (capture_voice_preview r sample_engines (effective_disabled [] sample_applied)) = Inr routing"
    and a: "resolve_current_with_text (replace_inventory [sample_engine] routing)
      private_preview_voice_id None sample_engines = Inr route"
    unfolding sample_audition_def is_ok_iff by (auto split: sum.splits)
  have budget: "metadata_budget sample_preview_codec PreviewVoiceCompletedV2 max_audio_choice_identity_bytes x ids =
      Inr ()" for x ids
    by (simp add: metadata_budget_def sample_preview_codec_def max_audio_choice_identity_bytes_def
        max_control_payload_bytes_def usize_saturating_add_def usize_max_def
        max_preview_message_bytes_def)
  have "yq_disabled_engine_ids sample_draft = []" "yq_fallback_policy sample_draft = empty_policy"
    by (simp_all add: sample_draft_def)
  with r c have "prepare_voice_preview_v2 sample_preview_codec sample_draft (F32_Fin 1) sample_engines
      sample_applied = Inr (routing, LayeredPreview (F32_Fin 1) (effective_disabled [] sample_applied)
        (yq_style sample_draft) (yq_placement_pan sample_draft))"
    by (simp add: prepare_voice_preview_v2_def sample_draft_valid budget Let_def
        sample_draft_registration_def)
  from preview_confined [OF this a] show ?thesis by blast
qed

text \<open>
  C34: The terminal event of a layered preview tells what happened: whatever is sent is the reply
  with its status, its last started voice, its rate and its disabled engines untouched, with a
  prefix of at most 1024 bytes of its message and a prefix of at most 32 of its accepted voices,
  marked as truncated if any is missing; no longer prefix can be sent, and the event is given up as
  too large only when it is too large without any.
\<close>
theorem terminal_event_faithful:
  "\<exists>n message.
     n \<le> min 32 (length (yr_accepted_audio r)) \<and>
     (case (yr_message r, message) of
        (None, None) \<Rightarrow> True
      | (Some full, Some m) \<Rightarrow> str_len m \<le> 1024 \<and> (\<exists>rest. full = m @ rest)
      | _ \<Rightarrow> False) \<and>
     bounded_event codec wrap i r =
       format_control_event codec (reply (Some i) (wrap
         (r\<lparr>yr_accepted_audio := take n (yr_accepted_audio r),
            yr_accepted_truncated := yr_accepted_truncated r \<or> n < length (yr_accepted_audio r),
            yr_message := message\<rparr>))) \<and>
     (if bounded_event codec wrap i r = Inl CcPayloadTooLarge then n = 0 else True) \<and>
     list_all (\<lambda>m. format_control_event codec (reply (Some i) (wrap
         ((keep_choices m r)\<lparr>yr_message := message\<rparr>))) = Inl CcPayloadTooLarge)
       [Suc n..<Suc (min 32 (length (yr_accepted_audio r)))]"
proof -
  from bounded_event_spec [of r codec wrap i] obtain n where
    n: "n \<le> min 32 (length (yr_accepted_audio r))"
    and e: "bounded_event codec wrap i r = format_control_event codec (reply (Some i) (wrap
      ((keep_choices n r)\<lparr>yr_message := map_option clip_message (yr_message r)\<rparr>)))"
    and z: "bounded_event codec wrap i r = Inl CcPayloadTooLarge \<longrightarrow> n = 0"
    and l: "\<forall>m. n < m \<and> m \<le> min 32 (length (yr_accepted_audio r)) \<longrightarrow>
      format_control_event codec (reply (Some i) (wrap
        ((keep_choices m r)\<lparr>yr_message := map_option clip_message (yr_message r)\<rparr>))) =
        Inl CcPayloadTooLarge"
    unfolding max_accepted_audio_choices_def by blast
  have m: "case (yr_message r, map_option clip_message (yr_message r)) of
        (None, None) \<Rightarrow> True
      | (Some full, Some m) \<Rightarrow> str_len m \<le> 1024 \<and> (\<exists>rest. full = m @ rest)
      | _ \<Rightarrow> False"
    using clip_message_spec by (cases "yr_message r") auto
  have a: "list_all (\<lambda>m. format_control_event codec (reply (Some i) (wrap
        ((keep_choices m r)\<lparr>yr_message := map_option clip_message (yr_message r)\<rparr>))) =
        Inl CcPayloadTooLarge) [Suc n..<Suc (min 32 (length (yr_accepted_audio r)))]"
    unfolding list_all_iff
  proof
    fix m assume "m \<in> set [Suc n..<Suc (min 32 (length (yr_accepted_audio r)))]"
    then have "n < m \<and> m \<le> min 32 (length (yr_accepted_audio r))"
      unfolding set_upt atLeastLessThan_iff by linarith
    with l show "format_control_event codec (reply (Some i) (wrap
        ((keep_choices m r)\<lparr>yr_message := map_option clip_message (yr_message r)\<rparr>))) =
        Inl CcPayloadTooLarge" by blast
  qed
  have e': "bounded_event codec wrap i r =
       format_control_event codec (reply (Some i) (wrap
         (r\<lparr>yr_accepted_audio := take n (yr_accepted_audio r),
            yr_accepted_truncated := yr_accepted_truncated r \<or> n < length (yr_accepted_audio r),
            yr_message := map_option clip_message (yr_message r)\<rparr>)))"
    unfolding e keep_choices_def by (rule refl)
  have z': "if bounded_event codec wrap i r = Inl CcPayloadTooLarge then n = 0 else True"
    using z by argo
  show ?thesis
    by (intro exI [of _ n] exI [of _ "map_option clip_message (yr_message r)"] conjI n m e' z' a)
qed

end
