(* ===== verification/Presentation_Preparation.thy ===== *)
theory Presentation_Preparation
  imports Frame_Timeline Synthesis Speech_Text Timeline_Documents
begin

text \<open>
  Preparation of an admitted presentation before any engine is called, after the timeline part of
  \<open>omnivox-cli/src/pipeline.rs\<close>: the budget of decoded samples, the audio resources of the
  actions, the layout of a span's text into chunks with the place of every action, and the
  preflight the reader runs on the same layout at admission. The file loader, the letter case
  mapping and the length limit of the marker protocol are parameters. \<open>cancelled\<close> is polled at
  many points: a preparation threads the list of answers the polls get, an exhausted list
  answering no.
\<close>

section \<open>Polling for cancellation\<close>

datatype preparation_error = PreparationCancelled | PreparationInvalid rstr

type_synonym 'a preparation = "bool list \<Rightarrow> preparation_error + 'a \<times> bool list"

definition prepared :: "'a \<Rightarrow> 'a preparation" where
  "prepared x polls = Inr (x, polls)"

definition prepare_bind :: "'a preparation \<Rightarrow> ('a \<Rightarrow> 'b preparation) \<Rightarrow> 'b preparation" where
  "prepare_bind p f polls = and_then (p polls) (\<lambda>(x, rest). f x rest)"

definition from_result :: "preparation_error + 'a \<Rightarrow> 'a preparation" where
  "from_result r polls = and_then r (\<lambda>x. Inr (x, polls))"

definition check_cancelled :: "unit preparation" where
  "check_cancelled polls =
     (case polls of
        [] \<Rightarrow> Inr ((), []) | p # rest \<Rightarrow> if p then Inl PreparationCancelled else Inr ((), rest))"

fun prepare_each :: "('a \<Rightarrow> 'b preparation) \<Rightarrow> 'a list \<Rightarrow> 'b list preparation" where
  "prepare_each f [] = prepared []"
| "prepare_each f (x # xs) =
     prepare_bind (f x) (\<lambda>y. prepare_bind (prepare_each f xs) (\<lambda>ys. prepared (y # ys)))"

section \<open>The budget of decoded samples\<close>

text \<open>\<open>MAX_AUDIO_CACHE_SAMPLES\<close>: 64 MiB of four-byte samples.\<close>

definition max_presentation_decoded_pcm_samples :: nat where
  "max_presentation_decoded_pcm_samples = 64 * 1024 * 1024 div 4"

definition max_effect_tail_frames :: nat where "max_effect_tail_frames = 44100 * 4"

text \<open>A loaded buffer is its allocation and its number of samples.\<close>

record shared_audio =
  au_allocation :: nat
  au_samples :: nat

record pcm_budget =
  bu_limit :: nat
  bu_retained :: nat
  bu_shared :: "nat set"

definition new_budget :: "nat \<Rightarrow> pcm_budget" where
  "new_budget n = \<lparr>bu_limit = n, bu_retained = 0, bu_shared = {}\<rparr>"

definition reserve :: "rstr \<Rightarrow> nat \<Rightarrow> pcm_budget \<Rightarrow> preparation_error + pcm_budget" where
  "reserve action_id samples b =
     (let total = usize_saturating_add (bu_retained b) samples
      in if bu_limit b < total
         then Inl (PreparationInvalid
                (lit ''action '' @ action_id @ lit '' would retain '' @ show_nat total @
                 lit '' decoded PCM samples; presentation maximum is '' @ show_nat (bu_limit b)))
         else Inr (b\<lparr>bu_retained := total\<rparr>))"

definition retain_shared :: "rstr \<Rightarrow> shared_audio \<Rightarrow> pcm_budget \<Rightarrow> preparation_error + pcm_budget"
    where
  "retain_shared action_id audio b =
     (if au_allocation audio \<in> bu_shared b then Inr b
      else and_then (reserve action_id (au_samples audio) b) (\<lambda>b.
        Inr (b\<lparr>bu_shared := insert (au_allocation audio) (bu_shared b)\<rparr>)))"

definition retain_private :: "rstr \<Rightarrow> nat \<Rightarrow> pcm_budget \<Rightarrow> preparation_error + pcm_budget" where
  "retain_private action_id samples b = reserve action_id samples b"

definition canonical_samples_for_duration_ms :: "nat \<Rightarrow> nat" where
  "canonical_samples_for_duration_ms ms = usize_saturating_mul (usize_saturating_mul 44100 ms div 1000) 2"

definition effect_tail_samples :: "presentation_effect_bus \<Rightarrow> nat" where
  "effect_tail_samples b = (if b = SpeechBus then usize_saturating_mul max_effect_tail_frames 2 else 0)"

section \<open>Resources\<close>

datatype timeline_audio_resource =
  FileResource shared_audio f32
| ToneResource f32 nat f32 tone_shape
| SilenceResource nat

text \<open>\<open>!=\<close> on floats, a NaN being different from everything.\<close>

definition f32_differs :: "f32 \<Rightarrow> f32 \<Rightarrow> bool" where
  "f32_differs a b \<longleftrightarrow> \<not> f32_eq a b"

text \<open>The resource of one action; \<open>None\<close> is the \<open>continue\<close> of a semantic event.\<close>

definition prepare_resource ::
    "(rstr \<Rightarrow> rstr + shared_audio) \<Rightarrow> tts_state \<Rightarrow> presentation_timeline_action \<Rightarrow> pcm_budget \<Rightarrow>
     (timeline_audio_resource option \<times> pcm_budget) preparation" where
  "prepare_resource load st a b =
     (case pa_action a of
        AudioAction path mode vol pan fx \<Rightarrow>
          prepare_bind
            (from_result (map_err (\<lambda>e. PreparationInvalid
               (lit ''action '' @ pa_id a @ lit '': '' @ e)) (load path))) (\<lambda>audio.
          prepare_bind check_cancelled (\<lambda>_.
          prepare_bind (from_result (retain_shared (pa_id a) audio b)) (\<lambda>b.
          prepare_bind
            (from_result
               (if f32_differs (st_sound_volume st) (F32_Fin 1) \<or>
                   ar_channel_mode (st_sound_routing st) \<noteq> BothChannels \<or>
                   f32_differs pan (F32_Fin (1 / 2)) \<or> fx = SpeechBus
                then retain_private (pa_id a)
                       (usize_saturating_add (au_samples audio) (effect_tail_samples fx)) b
                else Inr b)) (\<lambda>b.
          from_result
            (if au_samples audio = 0
             then Inl (PreparationInvalid
                    (lit ''action '' @ pa_id a @ lit '' decoded to empty audio''))
             else Inr (Some (FileResource audio pan), b))))))
      | ToneAction frequency duration mode vol pan fx \<Rightarrow>
          prepare_bind
            (from_result (retain_private (pa_id a)
               (usize_saturating_add (canonical_samples_for_duration_ms duration)
                  (effect_tail_samples fx)) b)) (\<lambda>b.
          prepared (Some (ToneResource frequency duration pan default_shape), b))
      | SilenceAction duration \<Rightarrow>
          prepare_bind
            (from_result (retain_private (pa_id a) (canonical_samples_for_duration_ms duration) b))
            (\<lambda>b. prepared (Some (SilenceResource duration), b))
      | presentation_action.SemanticEvent \<Rightarrow> prepared (None, b))"

fun prepare_resources_from ::
    "(rstr \<Rightarrow> rstr + shared_audio) \<Rightarrow> tts_state \<Rightarrow> presentation_timeline_action list \<Rightarrow>
     (rstr \<rightharpoonup> timeline_audio_resource) \<Rightarrow> pcm_budget \<Rightarrow>
     ((rstr \<rightharpoonup> timeline_audio_resource) \<times> pcm_budget) preparation" where
  "prepare_resources_from load st [] resources b = prepared (resources, b)"
| "prepare_resources_from load st (a # actions) resources b =
     prepare_bind check_cancelled (\<lambda>_.
     prepare_bind (prepare_resource load st a b) (\<lambda>(resource, b).
     prepare_resources_from load st actions
       (case resource of None \<Rightarrow> resources | Some r \<Rightarrow> resources(pa_id a \<mapsto> r)) b))"

definition prepare_timeline_resources_with_sample_limit ::
    "(rstr \<Rightarrow> rstr + shared_audio) \<Rightarrow> tts_state \<Rightarrow> presentation_timeline_action list \<Rightarrow> nat \<Rightarrow>
     (rstr \<rightharpoonup> timeline_audio_resource) preparation" where
  "prepare_timeline_resources_with_sample_limit load st actions sample_limit =
     prepare_bind (prepare_resources_from load st actions Map.empty (new_budget sample_limit))
       (\<lambda>(resources, b). prepared resources)"

definition prepare_timeline_resources ::
    "(rstr \<Rightarrow> rstr + shared_audio) \<Rightarrow> tts_state \<Rightarrow> presentation_timeline_action list \<Rightarrow>
     (rstr \<rightharpoonup> timeline_audio_resource) preparation" where
  "prepare_timeline_resources load st actions =
     prepare_timeline_resources_with_sample_limit load st actions
       max_presentation_decoded_pcm_samples"

text \<open>The shapes come as the pairs of a hash map in the order it is walked.\<close>

fun apply_tone_shapes ::
    "(rstr \<times> tone_shape) list \<Rightarrow> (rstr \<rightharpoonup> timeline_audio_resource) \<Rightarrow>
     preparation_error + (rstr \<rightharpoonup> timeline_audio_resource)" where
  "apply_tone_shapes [] resources = Inr resources"
| "apply_tone_shapes ((i, shape) # shapes) resources =
     (case resources i of
        Some (ToneResource frequency duration pan old) \<Rightarrow>
          apply_tone_shapes shapes (resources(i \<mapsto> ToneResource frequency duration pan shape))
      | _ \<Rightarrow> Inl (PreparationInvalid (lit ''shape '' @ i @ lit '' has no tone resource'')))"

section \<open>Layout\<close>

definition max_timeline_actions_per_speech_window :: nat where
  "max_timeline_actions_per_speech_window = 512"
definition max_timeline_actions_per_window :: nat where
  "max_timeline_actions_per_window = 4096"

definition max_window_actions :: nat where
  "max_window_actions =
     min (min max_timeline_actions_per_speech_window max_synthesis_anchors)
       max_timeline_actions_per_window"

text \<open>\<open>entry(span).or_insert_with(Vec::new).push(action)\<close>.\<close>

definition index_timeline_actions ::
    "presentation_timeline_action list \<Rightarrow> nat \<rightharpoonup> presentation_timeline_action list" where
  "index_timeline_actions actions =
     fold (\<lambda>a m. let i = position_span_id (pa_position a)
                  in m(i \<mapsto> (case m i of None \<Rightarrow> [] | Some xs \<Rightarrow> xs) @ [a]))
       actions Map.empty"

record action_position =
  ap_chunk_index :: nat
  ap_local_offset :: nat
  ap_affinity :: anchor_affinity

record span_layout =
  sl_chunks :: "prepared_speech_chunk list"
  sl_positions :: "action_position list"

fun text_offset_of :: "presentation_timeline_action \<Rightarrow> nat option" where
  "text_offset_of a =
     (case pa_position a of
        Timeline_Documents.TextOffset i n f \<Rightarrow> Some n
      | Timeline_Documents.SpanBoundary i f \<Rightarrow> None)"

fun anchor_affinity_of :: "presentation_affinity \<Rightarrow> anchor_affinity" where
  "anchor_affinity_of presentation_affinity.AffinityBefore = anchor_affinity.AffinityBefore"
| "anchor_affinity_of presentation_affinity.AffinityAfter = anchor_affinity.AffinityAfter"

text \<open>\<open>partition_point\<close> on a list the predicate splits is the length of its prefix.\<close>

definition partition_point :: "('a \<Rightarrow> bool) \<Rightarrow> 'a list \<Rightarrow> nat" where
  "partition_point P xs = length (takeWhile P xs)"

definition locate_timeline_chunk ::
    "prepared_speech_chunk list \<Rightarrow> nat \<Rightarrow> anchor_affinity \<Rightarrow> nat" where
  "locate_timeline_chunk chunks offset affinity =
     (case affinity of
        anchor_affinity.AffinityBefore \<Rightarrow>
          min (partition_point (\<lambda>c. pc_source_end c \<le> offset) chunks) (length chunks - 1)
      | anchor_affinity.AffinityAfter \<Rightarrow>
          saturating_sub (partition_point (\<lambda>c. pc_source_start c < offset) chunks) 1)"

text \<open>
  The positions of the actions in order, consuming the mapped offsets. \<open>None\<close> is a panic: an
  index out of range, or \<open>clamp\<close> with its bounds the wrong way round.
\<close>

definition position_in_chunk ::
    "prepared_speech_chunk list \<Rightarrow> nat \<Rightarrow> anchor_affinity \<Rightarrow> action_position option" where
  "position_in_chunk chunks offset affinity =
     (let i = locate_timeline_chunk chunks offset affinity
      in if length chunks \<le> i \<or> pc_source_end (chunks ! i) < pc_source_start (chunks ! i) then None
         else Some \<lparr>ap_chunk_index = i,
                    ap_local_offset =
                      max (pc_source_start (chunks ! i)) (min (pc_source_end (chunks ! i)) offset) -
                      pc_source_start (chunks ! i),
                    ap_affinity = affinity\<rparr>)"

fun action_positions ::
    "prepared_speech_chunk list \<Rightarrow> nat list \<Rightarrow> presentation_timeline_action list \<Rightarrow>
     action_position list option" where
  "action_positions chunks mapped [] = Some []"
| "action_positions chunks mapped (a # actions) =
     (case pa_position a of
        Timeline_Documents.SpanBoundary i f \<Rightarrow>
          (let (offset, affinity) =
                 (case f of
                    presentation_affinity.AffinityBefore \<Rightarrow> (0, anchor_affinity.AffinityBefore)
                  | presentation_affinity.AffinityAfter \<Rightarrow>
                      (if chunks = [] then 0 else pc_source_end (last chunks),
                       anchor_affinity.AffinityAfter))
           in Option.bind (position_in_chunk chunks offset affinity) (\<lambda>p.
                map_option ((#) p) (action_positions chunks mapped actions)))
      | Timeline_Documents.TextOffset i n f \<Rightarrow>
          (case mapped of
             [] \<Rightarrow> None
           | offset # rest \<Rightarrow>
               Option.bind (position_in_chunk chunks offset (anchor_affinity_of f)) (\<lambda>p.
                 map_option ((#) p) (action_positions chunks rest actions))))"

definition prepare_timeline_text_layout ::
    "case_classes \<Rightarrow> nat \<Rightarrow> rstr \<Rightarrow> presentation_timeline_action list \<Rightarrow> tts_state \<Rightarrow>
     span_layout option" where
  "prepare_timeline_text_layout u i s actions st =
     Option.bind
       (prepare_speech_text_with_offsets u s st (List.map_filter text_offset_of actions))
       (\<lambda>(p, mapped).
          let named = p\<lparr>pst_tones :=
                map (\<lambda>(n, t). t\<lparr>ct_id := lit ''omnivox.cap.'' @ show_nat i @ lit ''.'' @ show_nat n\<rparr>)
                  (zip [0 ..< length (pst_tones p)] (pst_tones p))\<rparr>
          in Option.bind (chunk_prepared_speech named (st_max_chunk_words st)) (\<lambda>chunks.
               map_option (\<lambda>ps. \<lparr>sl_chunks = chunks, sl_positions = ps\<rparr>)
                 (action_positions chunks mapped actions)))"

definition chunk_action_counts :: "span_layout \<Rightarrow> nat list" where
  "chunk_action_counts l =
     fold (\<lambda>p counts. counts[ap_chunk_index p := counts ! ap_chunk_index p + 1])
       (sl_positions l) (map (\<lambda>c. length (pc_tones c)) (sl_chunks l))"

definition validate_timeline_span_layout :: "nat \<Rightarrow> span_layout \<Rightarrow> rstr + unit" where
  "validate_timeline_span_layout i l =
     check_each (\<lambda>(n, count).
       if max_window_actions < count
       then Inl (lit ''span '' @ show_nat i @ lit '' chunk '' @ show_nat (n + 1) @ lit '' contains '' @
                 show_nat count @ lit '' actions including capitalization anchors; maximum is '' @
                 show_nat max_window_actions)
       else Inr ())
       (zip [0 ..< length (chunk_action_counts l)] (chunk_action_counts l))"

section \<open>Admission preflight\<close>

text \<open>
  What the reader checks before a presentation may displace other work. \<open>None\<close> is a panic of the
  layout; \<open>preflight\<close> is \<open>preflight_v3_utterance_text\<close> of the marker protocol.
\<close>

fun option_each :: "('a \<Rightarrow> ('e + unit) option) \<Rightarrow> 'a list \<Rightarrow> ('e + unit) option" where
  "option_each f [] = Some (Inr ())"
| "option_each f (x # xs) =
     (case f x of None \<Rightarrow> None | Some (Inl e) \<Rightarrow> Some (Inl e) | Some (Inr u) \<Rightarrow> option_each f xs)"

definition validate_presentation_timeline_action_windows ::
    "case_classes \<Rightarrow> presentation_timeline_envelope \<Rightarrow> tts_state \<Rightarrow> (rstr + unit) option" where
  "validate_presentation_timeline_action_windows u t st =
     (let by_span = index_timeline_actions (pe_actions t)
      in option_each (\<lambda>s.
           case by_span (sp_id s) of
             None \<Rightarrow> Some (Inr ())
           | Some actions \<Rightarrow>
               map_option (validate_timeline_span_layout (sp_id s))
                 (prepare_timeline_text_layout u (sp_id s) (sp_text s) actions st))
           (pe_spans t))"

definition validate_presentation_timeline_v4_action_windows ::
    "case_classes \<Rightarrow> (nat \<Rightarrow> rstr \<Rightarrow> rstr + unit) \<Rightarrow> presentation_timeline_v4 \<Rightarrow> tts_state \<Rightarrow>
     (rstr + unit) option" where
  "validate_presentation_timeline_v4_action_windows u preflight t st =
     (let by_span = index_timeline_actions (tb_actions t)
      in option_each (\<lambda>s.
           map_option (\<lambda>layout.
             and_then (validate_timeline_span_layout (mixed_id s) layout) (\<lambda>_.
               check_each (\<lambda>c. preflight (tb_dispatch_id t) (pc_text c)) (sl_chunks layout)))
             (prepare_timeline_text_layout u (mixed_id s) (mixed_text s)
               (case by_span (mixed_id s) of None \<Rightarrow> [] | Some actions \<Rightarrow> actions) st))
           (tb_spans t))"

section \<open>Prepared spans\<close>

datatype timeline_chunk_action_kind =
  ChunkAudio timeline_audio_resource audio_action_mode f32 effect_bus
| ChunkSemanticEvent

record timeline_chunk_action =
  ca_id :: rstr
  ca_text_offset :: nat
  ca_affinity :: anchor_affinity
  ca_kind :: timeline_chunk_action_kind

datatype prepared_timeline_style =
  EngineLayeredStyle voice_style_patch "f32 option"
| LegacyStyle normalized_acss presentation_effect_directive
| LayeredStyle voice_style_patch "f32 option"

record prepared_timeline_span =
  ts_id :: nat
  ts_logical_voice_id :: "rstr option"
  ts_style :: prepared_timeline_style
  ts_chunks :: "prepared_speech_chunk list"
  ts_actions :: "timeline_chunk_action list list"

fun convert_audio_mode :: "presentation_audio_mode \<Rightarrow> audio_action_mode" where
  "convert_audio_mode ModeInsert = audio_action_mode.Insert"
| "convert_audio_mode ModeOverlay = audio_action_mode.Overlay"

fun convert_effect_bus :: "presentation_effect_bus \<Rightarrow> effect_bus" where
  "convert_effect_bus DryBus = effect_bus.Dry"
| "convert_effect_bus SpeechBus = effect_bus.Speech"

definition required_resource ::
    "(rstr \<rightharpoonup> timeline_audio_resource) \<Rightarrow> rstr \<Rightarrow> string \<Rightarrow>
     preparation_error + timeline_audio_resource" where
  "required_resource resources i missing =
     ok_or (resources i) (PreparationInvalid (lit ''action '' @ i @ lit missing))"

definition chunk_action_kind ::
    "(rstr \<rightharpoonup> timeline_audio_resource) \<Rightarrow> presentation_timeline_action \<Rightarrow>
     preparation_error + timeline_chunk_action_kind" where
  "chunk_action_kind resources a =
     (case pa_action a of
        AudioAction path mode vol pan fx \<Rightarrow>
          and_then (required_resource resources (pa_id a) '' has no prepared resource'') (\<lambda>r.
            Inr (ChunkAudio r (convert_audio_mode mode) vol (convert_effect_bus fx)))
      | ToneAction frequency duration mode vol pan fx \<Rightarrow>
          and_then (required_resource resources (pa_id a) '' has no prepared resource'') (\<lambda>r.
            Inr (ChunkAudio r (convert_audio_mode mode) vol (convert_effect_bus fx)))
      | SilenceAction duration \<Rightarrow>
          and_then (required_resource resources (pa_id a) '' has no prepared silence'') (\<lambda>r.
            Inr (ChunkAudio r audio_action_mode.Insert (F32_Fin 1) effect_bus.Dry))
      | presentation_action.SemanticEvent \<Rightarrow> Inr ChunkSemanticEvent)"

fun place_actions ::
    "(rstr \<rightharpoonup> timeline_audio_resource) \<Rightarrow> (presentation_timeline_action \<times> action_position) list \<Rightarrow>
     timeline_chunk_action list list \<Rightarrow> timeline_chunk_action list list preparation" where
  "place_actions resources [] by_chunk = prepared by_chunk"
| "place_actions resources ((a, p) # rest) by_chunk =
     prepare_bind check_cancelled (\<lambda>_.
     prepare_bind (from_result (chunk_action_kind resources a)) (\<lambda>kind.
     place_actions resources rest
       (by_chunk[ap_chunk_index p := by_chunk ! ap_chunk_index p @
          [\<lparr>ca_id = pa_id a, ca_text_offset = ap_local_offset p, ca_affinity = ap_affinity p,
            ca_kind = kind\<rparr>]])))"

text \<open>A preparation whose layout panics is \<open>None\<close>.\<close>

definition prepare_timeline_span_data ::
    "case_classes \<Rightarrow> nat \<Rightarrow> rstr \<Rightarrow> rstr option \<Rightarrow> prepared_timeline_style \<Rightarrow>
     presentation_timeline_action list \<Rightarrow> tts_state \<Rightarrow> (rstr \<rightharpoonup> timeline_audio_resource) \<Rightarrow>
     prepared_timeline_span preparation option" where
  "prepare_timeline_span_data u i s voice style actions st resources =
     map_option (\<lambda>layout.
       prepare_bind check_cancelled (\<lambda>_.
       prepare_bind
         (from_result (map_err PreparationInvalid (validate_timeline_span_layout i layout))) (\<lambda>_.
       prepare_bind
         (place_actions resources (zip actions (sl_positions layout))
            (replicate (length (sl_chunks layout)) [])) (\<lambda>by_chunk.
       prepared \<lparr>ts_id = i, ts_logical_voice_id = voice, ts_style = style,
                 ts_chunks = sl_chunks layout, ts_actions = by_chunk\<rparr>))))
       (prepare_timeline_text_layout u i s actions st)"

definition prepare_timeline_span ::
    "case_classes \<Rightarrow> presentation_speech_span \<Rightarrow> presentation_timeline_action list \<Rightarrow> tts_state \<Rightarrow>
     (rstr \<rightharpoonup> timeline_audio_resource) \<Rightarrow> prepared_timeline_span preparation option" where
  "prepare_timeline_span u s actions st resources =
     (let acss = (case sp_rate_offset s of
                    None \<Rightarrow> sp_acss s
                  | Some offset \<Rightarrow>
                      if offset = 0 then sp_acss s
                      else (sp_acss s)\<lparr>na_rate := Some (apply_rate_offset (st_speech_rate st) offset)\<rparr>)
      in map_option (\<lambda>p.
           prepare_bind check_cancelled (\<lambda>_. prepare_bind check_cancelled (\<lambda>_. p)))
           (prepare_timeline_span_data u (sp_id s) (sp_text s) (sp_logical_voice_id s)
              (LegacyStyle acss (sp_effects s)) actions st resources))"

fun spans_each :: "('a \<Rightarrow> 'b preparation option) \<Rightarrow> 'a list \<Rightarrow> bool list \<Rightarrow>
    (preparation_error + 'b list \<times> bool list) option" where
  "spans_each f [] polls = Some (prepared [] polls)"
| "spans_each f (x # xs) polls =
     (case f x of
        None \<Rightarrow> None
      | Some p \<Rightarrow>
          (case p polls of
             Inl e \<Rightarrow> Some (Inl e)
           | Inr (y, rest) \<Rightarrow>
               map_option (\<lambda>r. and_then r (\<lambda>(ys, rest). Inr (y # ys, rest)))
                 (spans_each f xs rest)))"

text \<open>
  A failure of an earlier span comes before a panic of a later one; within a span, \<open>None\<close> says
  that its layout panics whatever its polls answer.
\<close>

definition prepare_timeline_spans ::
    "case_classes \<Rightarrow> presentation_timeline_envelope \<Rightarrow> tts_state \<Rightarrow>
     (rstr \<rightharpoonup> timeline_audio_resource) \<Rightarrow> bool list \<Rightarrow>
     (preparation_error + prepared_timeline_span list \<times> bool list) option" where
  "prepare_timeline_spans u t st resources polls =
     (case prepare_bind check_cancelled (\<lambda>_. check_cancelled) polls of
        Inl e \<Rightarrow> Some (Inl e)
      | Inr (_, polls) \<Rightarrow>
          (let by_span = index_timeline_actions (pe_actions t)
           in spans_each (\<lambda>s.
                map_option (\<lambda>p. prepare_bind check_cancelled (\<lambda>_. p))
                  (prepare_timeline_span u s
                    (case by_span (sp_id s) of None \<Rightarrow> [] | Some actions \<Rightarrow> actions) st resources))
                (pe_spans t) polls))"

text \<open>
  What \<open>process_presentation_timeline\<close> prepares before it renders; \<open>voice\<close> is the legacy voice of
  its engine.
\<close>

definition prepare_legacy_timeline ::
    "case_classes \<Rightarrow> (rstr \<Rightarrow> rstr + shared_audio) \<Rightarrow> presentation_timeline_envelope \<Rightarrow> rstr \<Rightarrow>
     tts_state \<Rightarrow> bool list \<Rightarrow>
     (preparation_error + prepared_timeline_span list \<times> bool list) option" where
  "prepare_legacy_timeline u load t voice st polls =
     (let st = st\<lparr>st_current_voice := voice\<rparr>
      in case prepare_timeline_resources load st (pe_actions t) polls of
           Inl e \<Rightarrow> Some (Inl e)
         | Inr (resources, polls) \<Rightarrow> prepare_timeline_spans u t st resources polls)"

section \<open>Mixed timelines\<close>

text \<open>\<open>prepare_isolated_letter\<close>; the case mapping of a character is a parameter.\<close>

definition prepare_isolated_letter :: "case_classes \<Rightarrow> (rchar \<Rightarrow> rstr) \<Rightarrow> rstr \<Rightarrow> rstr \<times> bool" where
  "prepare_isolated_letter u to_lower s =
     (concat (map to_lower s), case s of [] \<Rightarrow> False | c # cs \<Rightarrow> is_uppercase u c)"

definition prepare_mixed_span ::
    "case_classes \<Rightarrow> mixed_speech_span \<Rightarrow> presentation_timeline_action list \<Rightarrow> tts_state \<Rightarrow>
     (rstr \<rightharpoonup> timeline_audio_resource) \<Rightarrow> prepared_timeline_span preparation option" where
  "prepare_mixed_span u s actions st resources =
     (case s of
        MixedLegacy l \<Rightarrow> prepare_timeline_span u l actions st resources
      | MixedEngineLayered l \<Rightarrow>
          prepare_timeline_span_data u (ls_id l) (ls_text l) (Some (ls_logical_voice_id l))
            (EngineLayeredStyle (ls_context l) (ls_placement l)) actions st resources
      | MixedLayered l \<Rightarrow>
          prepare_timeline_span_data u (ls_id l) (ls_text l) (Some (ls_logical_voice_id l))
            (LayeredStyle (ls_context l) (ls_placement l)) actions st resources)"

definition isolate_letter :: "(rstr \<times> bool) option \<Rightarrow> prepared_timeline_span \<Rightarrow> prepared_timeline_span"
    where
  "isolate_letter letter s =
     (case letter of
        None \<Rightarrow> s
      | Some (text, uppercase) \<Rightarrow>
          s\<lparr>ts_chunks := [\<lparr>pc_text = text, pc_tones = [], pc_source_start = 0,
                           pc_source_end = as_u32 (str_len text)\<rparr>],
            ts_actions := [[]]\<rparr>)"

text \<open>The closure \<open>prepare\<close> of \<open>process_mixed_timeline\<close>.\<close>

definition prepare_mixed_timeline ::
    "case_classes \<Rightarrow> (nat \<Rightarrow> rstr \<Rightarrow> rstr + unit) \<Rightarrow> (rstr \<Rightarrow> rstr + shared_audio) \<Rightarrow>
     (rstr \<times> tone_shape) list \<Rightarrow> presentation_timeline_v4 \<Rightarrow> (rstr \<times> bool) option \<Rightarrow> tts_state \<Rightarrow>
     bool list \<Rightarrow> (preparation_error + prepared_timeline_span list \<times> bool list) option" where
  "prepare_mixed_timeline u preflight load shapes t letter st polls =
     (case prepare_bind (prepare_timeline_resources load st (tb_actions t))
             (\<lambda>r. from_result (apply_tone_shapes shapes r)) polls of
        Inl e \<Rightarrow> Some (Inl e)
      | Inr (resources, polls) \<Rightarrow>
          (let by_span = index_timeline_actions (tb_actions t)
           in spans_each (\<lambda>s.
                map_option (\<lambda>p.
                  prepare_bind check_cancelled (\<lambda>_.
                  prepare_bind p (\<lambda>span.
                  let span = isolate_letter letter span
                  in prepare_bind
                       (from_result (map_err PreparationInvalid
                         (check_each (\<lambda>c. preflight (tb_dispatch_id t) (pc_text c))
                            (ts_chunks span)))) (\<lambda>_.
                     prepared span))))
                  (prepare_mixed_span u s
                    (case by_span (mixed_id s) of None \<Rightarrow> [] | Some actions \<Rightarrow> actions)
                    st resources))
                (tb_spans t) polls))"

section \<open>The monad and the index\<close>

lemma prepare_bind_Inr:
  "prepare_bind p f polls = Inr (y, rest) \<longleftrightarrow>
     (\<exists>x mid. p polls = Inr (x, mid) \<and> f x mid = Inr (y, rest))"
  by (cases "p polls") (auto simp: prepare_bind_def)

lemma from_result_Inr: "from_result r polls = Inr (y, rest) \<longleftrightarrow> r = Inr y \<and> rest = polls"
  by (cases r) (auto simp: from_result_def)

lemma prepared_Inr: "prepared x polls = Inr (y, rest) \<longleftrightarrow> y = x \<and> rest = polls"
  by (auto simp: prepared_def)

lemmas preparation_simps = prepare_bind_Inr from_result_Inr prepared_Inr

lemma uncancelled [simp]: "check_cancelled [] = Inr ((), [])"
  by (simp add: check_cancelled_def)

lemma prepare_bind_uncancelled [simp]:
  "prepare_bind check_cancelled f [] = f () []"
  "p [] = Inr (x, []) \<Longrightarrow> prepare_bind p f [] = f x []"
  by (simp_all add: prepare_bind_def)

lemma index_timeline_actions:
  "index_timeline_actions actions i =
     (let mine = filter (\<lambda>a. position_span_id (pa_position a) = i) actions
      in if mine = [] then None else Some mine)"
  by (induction actions rule: rev_induct)
    (auto simp: index_timeline_actions_def Let_def split: option.splits if_splits)

lemma indexed_actions:
  "(case index_timeline_actions actions i of None \<Rightarrow> [] | Some xs \<Rightarrow> xs) =
     filter (\<lambda>a. position_span_id (pa_position a) = i) actions"
  by (simp add: index_timeline_actions Let_def)

section \<open>Cancellation only interrupts\<close>

text \<open>
  A preparation that the answers of its polls can interrupt and not change: with any answers it is
  cancelled, which takes an answer that says so, or ends as it does when nobody cancels.
\<close>

definition interruptible :: "'a preparation \<Rightarrow> bool" where
  "interruptible p \<longleftrightarrow>
     (\<forall>polls. p polls = Inl PreparationCancelled \<and> True \<in> set polls \<or>
        (case p [] of
           Inl e \<Rightarrow> p polls = Inl e
         | Inr (x, _) \<Rightarrow> \<exists>rest. p polls = Inr (x, rest) \<and> set rest \<subseteq> set polls))"

named_theorems interrupts

lemma interruptibleI:
  assumes "\<And>polls. p polls = Inl PreparationCancelled \<and> True \<in> set polls \<or>
     (case p [] of
        Inl e \<Rightarrow> p polls = Inl e
      | Inr (x, _) \<Rightarrow> \<exists>rest. p polls = Inr (x, rest) \<and> set rest \<subseteq> set polls)"
  shows "interruptible p"
  using assms by (simp add: interruptible_def)

lemma interrupted_or:
  assumes "interruptible p"
  obtains "p polls = Inl PreparationCancelled" "True \<in> set polls"
  | e where "p [] = Inl e" "p polls = Inl e"
  | x rest where "p [] = Inr (x, [])" "p polls = Inr (x, rest)" "set rest \<subseteq> set polls"
proof -
  have "\<exists>rest. p [] = Inr (x, rest) \<and> rest = []" if "p [] = Inr (x, r)" for x r
    using assms that by (force simp: interruptible_def dest: spec [of _ "[]"])
  with assms [unfolded interruptible_def, THEN spec, of polls] that show ?thesis
    by (cases "p []") (auto split: sum.splits prod.splits)
qed

lemma prepared_interruptible [interrupts]: "interruptible (prepared x)"
  by (simp add: interruptible_def prepared_def)

lemma from_result_interruptible [interrupts]: "interruptible (from_result r)"
  by (cases r) (simp_all add: interruptible_def from_result_def)

lemma check_cancelled_interruptible [interrupts]: "interruptible check_cancelled"
  by (auto simp: interruptible_def check_cancelled_def split: list.splits)

lemma prepare_bind_interruptible [interrupts]:
  assumes p: "interruptible p" and f: "\<And>x. interruptible (f x)"
  shows "interruptible (prepare_bind p f)"
proof (rule interruptibleI)
  fix polls
  show "prepare_bind p f polls = Inl PreparationCancelled \<and> True \<in> set polls \<or>
     (case prepare_bind p f [] of
        Inl e \<Rightarrow> prepare_bind p f polls = Inl e
      | Inr (x, _) \<Rightarrow> \<exists>rest. prepare_bind p f polls = Inr (x, rest) \<and> set rest \<subseteq> set polls)"
  proof (cases rule: interrupted_or [OF p, of polls])
    case (3 x rest)
    show ?thesis
      by (cases rule: interrupted_or [OF f, of x rest]) (use 3 in \<open>auto simp: prepare_bind_def\<close>)
  qed (auto simp: prepare_bind_def)
qed

lemma place_actions_interruptible [interrupts]: "interruptible (place_actions resources pairs by_chunk)"
proof (induction pairs arbitrary: by_chunk)
  case (Cons ap pairs)
  then show ?case by (cases ap) (simp add: interrupts)
qed (simp add: interrupts)

lemma prepare_resource_interruptible [interrupts]: "interruptible (prepare_resource load st a b)"
  by (auto simp: prepare_resource_def split: presentation_action.split intro!: interrupts)

lemma prepare_resources_from_interruptible [interrupts]:
  "interruptible (prepare_resources_from load st actions resources b)"
  by (induction actions arbitrary: resources b) (auto split: prod.split intro!: interrupts)

lemma prepare_timeline_resources_interruptible:
  "interruptible (prepare_timeline_resources load st actions)"
  by (auto simp: prepare_timeline_resources_def prepare_timeline_resources_with_sample_limit_def
      split: prod.split intro!: interrupts)

lemma prepare_timeline_span_interruptible:
  assumes "prepare_timeline_span u s actions st resources = Some p"
  shows "interruptible p"
  using assms
  by (auto simp: prepare_timeline_span_def prepare_timeline_span_data_def Let_def intro!: interrupts)

lemma spans_each_interrupted:
  assumes "\<forall>x \<in> set xs. \<forall>p. f x = Some p \<longrightarrow> interruptible p" "spans_each f xs [] = Some (Inr (ys, []))"
  shows "spans_each f xs polls = Some (Inl PreparationCancelled) \<and> True \<in> set polls \<or>
     (\<exists>rest. spans_each f xs polls = Some (Inr (ys, rest)) \<and> set rest \<subseteq> set polls)"
  using assms
proof (induction xs arbitrary: ys polls)
  case Nil
  then show ?case by (simp add: prepared_def)
next
  case (Cons x xs)
  from Cons.prems(2) obtain p where p: "f x = Some p" by (auto split: option.splits)
  with Cons.prems(1) have i: "interruptible p" by simp
  show ?case
  proof (cases rule: interrupted_or [OF i, of polls])
    case (3 y rest)
    with Cons.prems(2) p obtain zs where zs: "spans_each f xs [] = Some (Inr (zs, []))" "ys = y # zs"
      by (auto simp: res_simps)
    with Cons.IH [of zs rest] Cons.prems(1) 3 p show ?thesis by auto
  qed (use p Cons.prems(2) in auto)
qed

section \<open>Where actions are placed\<close>

text \<open>
  The chunk of an offset: anchored before, the first chunk that ends after it (or the last chunk);
  anchored after, the last chunk that starts before it (or the first chunk).
\<close>

definition placed_at ::
    "prepared_speech_chunk list \<Rightarrow> nat \<Rightarrow> anchor_affinity \<Rightarrow> action_position \<Rightarrow> bool" where
  "placed_at chunks offset affinity p \<longleftrightarrow>
     ap_affinity p = affinity \<and> ap_chunk_index p < length chunks \<and>
     ap_local_offset p \<le>
       pc_source_end (chunks ! ap_chunk_index p) - pc_source_start (chunks ! ap_chunk_index p) \<and>
     (pc_source_start (chunks ! ap_chunk_index p) \<le> offset \<and>
      offset \<le> pc_source_end (chunks ! ap_chunk_index p) \<longrightarrow>
        pc_source_start (chunks ! ap_chunk_index p) + ap_local_offset p = offset) \<and>
     (case affinity of
        anchor_affinity.AffinityBefore \<Rightarrow>
          (\<forall>j < ap_chunk_index p. pc_source_end (chunks ! j) \<le> offset) \<and>
          (offset < pc_source_end (chunks ! ap_chunk_index p) \<or>
           ap_chunk_index p = length chunks - 1)
      | anchor_affinity.AffinityAfter \<Rightarrow>
          (\<forall>j. 0 < j \<and> j \<le> ap_chunk_index p \<longrightarrow> pc_source_start (chunks ! j) < offset) \<and>
          (ap_chunk_index p + 1 < length chunks \<longrightarrow>
             offset \<le> pc_source_start (chunks ! (ap_chunk_index p + 1)) \<or>
             ap_chunk_index p = 0 \<and> offset \<le> pc_source_start (chunks ! 0)))"

lemma partition_point_le: "partition_point P xs \<le> length xs"
  by (simp add: partition_point_def length_takeWhile_le)

lemma partition_point_before: "j < partition_point P xs \<Longrightarrow> P (xs ! j)"
proof -
  assume j: "j < partition_point P xs"
  then have l: "j < length (takeWhile P xs)" by (simp add: partition_point_def)
  from nth_mem [OF this] takeWhile_nth [OF l] show ?thesis by (auto dest: set_takeWhileD)
qed

lemma partition_point_at: "partition_point P xs < length xs \<Longrightarrow> \<not> P (xs ! partition_point P xs)"
  by (simp add: partition_point_def nth_length_takeWhile)

lemma located_placed:
  assumes "position_in_chunk chunks offset affinity = Some p"
  shows "placed_at chunks offset affinity p"
proof -
  let ?i = "locate_timeline_chunk chunks offset affinity"
  from assms have p: "?i < length chunks" "pc_source_start (chunks ! ?i) \<le> pc_source_end (chunks ! ?i)"
    "ap_chunk_index p = ?i" "ap_affinity p = affinity"
    "ap_local_offset p = max (pc_source_start (chunks ! ?i)) (min (pc_source_end (chunks ! ?i)) offset) -
       pc_source_start (chunks ! ?i)"
    by (auto simp: position_in_chunk_def Let_def split: if_splits)
  show ?thesis
  proof (cases affinity)
    case AffinityBefore
    let ?q = "partition_point (\<lambda>c. pc_source_end c \<le> offset) chunks"
    from AffinityBefore have i: "?i = min ?q (length chunks - 1)"
      by (simp add: locate_timeline_chunk_def)
    have "\<forall>j < ?i. pc_source_end (chunks ! j) \<le> offset"
      using partition_point_before [of _ "\<lambda>c. pc_source_end c \<le> offset" chunks] i by auto
    moreover have "offset < pc_source_end (chunks ! ?i) \<or> ?i = length chunks - 1"
      using partition_point_at [of "\<lambda>c. pc_source_end c \<le> offset" chunks] i p(1)
      by (cases "?q \<le> length chunks - 1") auto
    ultimately show ?thesis using p AffinityBefore by (auto simp: placed_at_def)
  next
    case AffinityAfter
    let ?q = "partition_point (\<lambda>c. pc_source_start c < offset) chunks"
    from AffinityAfter have i: "?i = ?q - 1"
      by (simp add: locate_timeline_chunk_def saturating_sub_def)
    have "pc_source_start (chunks ! j) < offset" if "0 < j" "j \<le> ?i" for j
      using partition_point_before [of j "\<lambda>c. pc_source_start c < offset" chunks] i that by simp
    moreover have "offset \<le> pc_source_start (chunks ! (?i + 1)) \<or>
        ?i = 0 \<and> offset \<le> pc_source_start (chunks ! 0)" if "?i + 1 < length chunks"
      using partition_point_at [of "\<lambda>c. pc_source_start c < offset" chunks] i that
      by (cases "?q = 0") (auto simp: not_less, fastforce)
    ultimately show ?thesis using p AffinityAfter by (auto simp: placed_at_def)
  qed
qed

definition chunks_ok :: "prepared_speech_chunk list \<Rightarrow> bool" where
  "chunks_ok chunks \<longleftrightarrow> chunks \<noteq> [] \<and> list_all (\<lambda>c. pc_source_start c \<le> pc_source_end c) chunks"

lemma located_total:
  assumes "chunks_ok chunks"
  shows "\<exists>p. position_in_chunk chunks offset affinity = Some p"
proof -
  let ?i = "locate_timeline_chunk chunks offset affinity"
  have "?i < length chunks"
    using assms partition_point_le [of "\<lambda>c. pc_source_start c < offset" chunks]
    by (cases affinity)
      (auto simp: locate_timeline_chunk_def chunks_ok_def saturating_sub_def min_def neq_Nil_conv)
  with assms show ?thesis
    by (auto simp: position_in_chunk_def Let_def chunks_ok_def list_all_length not_less)
qed

text \<open>The offset an action asks for, after the text was prepared.\<close>

fun requested_places ::
    "prepared_speech_chunk list \<Rightarrow> nat list \<Rightarrow> presentation_timeline_action list \<Rightarrow>
     (nat \<times> anchor_affinity) list" where
  "requested_places chunks mapped [] = []"
| "requested_places chunks mapped (a # actions) =
     (case pa_position a of
        Timeline_Documents.SpanBoundary i f \<Rightarrow>
          (case f of
             presentation_affinity.AffinityBefore \<Rightarrow> (0, anchor_affinity.AffinityBefore)
           | presentation_affinity.AffinityAfter \<Rightarrow>
               (pc_source_end (last chunks), anchor_affinity.AffinityAfter)) #
          requested_places chunks mapped actions
      | Timeline_Documents.TextOffset i n f \<Rightarrow>
          (hd mapped, anchor_affinity_of f) # requested_places chunks (tl mapped) actions)"

lemma action_positions_total:
  assumes "chunks_ok chunks" "length mapped = length (List.map_filter text_offset_of actions)"
  shows "\<exists>ps. action_positions chunks mapped actions = Some ps \<and>
     list_all2 (\<lambda>(offset, affinity) p. placed_at chunks offset affinity p)
       (requested_places chunks mapped actions) ps"
  using assms(2)
proof (induction actions arbitrary: mapped)
  case Nil
  then show ?case by simp
next
  case (Cons a actions)
  show ?case
  proof (cases "pa_position a")
    case (TextOffset i n f)
    with Cons.prems obtain m rest where m: "mapped = m # rest"
      "length rest = length (List.map_filter text_offset_of actions)"
      by (cases mapped) (auto simp: List.map_filter_def)
    obtain p where p: "position_in_chunk chunks m (anchor_affinity_of f) = Some p"
      using located_total [OF assms(1)] by blast
    from Cons.IH [OF m(2)] p located_placed [OF p] m(1) TextOffset show ?thesis by auto
  next
    case (SpanBoundary i f)
    with Cons.prems have len: "length mapped = length (List.map_filter text_offset_of actions)"
      by (simp add: List.map_filter_def)
    obtain p where p: "position_in_chunk chunks
        (case f of presentation_affinity.AffinityBefore \<Rightarrow> 0
         | presentation_affinity.AffinityAfter \<Rightarrow> pc_source_end (last chunks))
        (anchor_affinity_of f) = Some p"
      using located_total [OF assms(1)] by blast
    from assms(1) have "chunks \<noteq> []" by (simp add: chunks_ok_def)
    with Cons.IH [OF len] p located_placed [OF p] SpanBoundary show ?thesis
      by (cases f) auto
  qed
qed

lemma chunk_prepared_ok:
  assumes "str_len (pst_text p) \<le> u32_max"
  shows "\<exists>chunks. chunk_prepared_speech p max_words = Some chunks \<and> chunks_ok chunks \<and>
     list_all (chunk_from p) chunks"
proof -
  from chunk_prepared_spec [OF assms, of max_words] obtain cs where
    cs: "chunk_prepared_speech p max_words = Some cs" "list_all (chunk_from p) cs"
    unfolding list_all_iff by blast
  have "cs \<noteq> []"
  proof (cases "length (word_spans (pst_text p)) \<le> max_words \<or> max_words = 0")
    case True
    with cs(1) show ?thesis by (auto simp: chunk_prepared_speech_def)
  next
    case False
    then have "chunk_words p (word_spans (pst_text p)) max_words 0 = Some cs"
      using cs(1) by (simp add: chunk_prepared_speech_def Let_def)
    with False show ?thesis
      by (subst (asm) chunk_words.simps) (auto split: option.splits if_splits)
  qed
  moreover have "list_all (\<lambda>c. pc_source_start c \<le> pc_source_end c) cs"
    using cs(2) slice_bounds(1) by (fastforce simp: list_all_iff chunk_from_def)
  ultimately show ?thesis using cs by (auto simp: chunks_ok_def)
qed

lemma prepared_text_same:
  assumes "prepare_speech_text_with_offsets u s st offsets = Some (p, mapped)"
  shows "prepare_speech_text u s st = Some p"
proof -
  from assms obtain table where table: "punctuation_table_of st = Some table"
    by (auto simp: prepare_speech_text_with_offsets_def)
  with assms show ?thesis
    by (auto simp: prepare_speech_text_with_offsets_def prepare_speech_text_def
        apply_punctuation_with_offsets_def punctuate_offsets_calls insert_space_with_offsets_def
        space_offsets_calls insert_space_before_uppercase_def Let_def split: if_splits)
qed

lemma prepared_no_tones:
  assumes "prepare_speech_text_with_offsets u s st offsets = Some (p, mapped)"
  shows "pst_tones p = []" "p\<lparr>pst_tones := []\<rparr> = p"
  using prepared_text_same [OF assms] by (auto simp: prepare_speech_text_def Let_def)

text \<open>What the layout of a span needs in order not to panic.\<close>

definition span_preparable ::
    "case_classes \<Rightarrow> rstr \<Rightarrow> presentation_timeline_action list \<Rightarrow> tts_state \<Rightarrow> bool" where
  "span_preparable u s actions st \<longleftrightarrow>
     list_all (is_char_boundary s) (List.map_filter text_offset_of actions) \<and>
     (case prepare_speech_text u s st of
        None \<Rightarrow> False | Some p \<Rightarrow> str_len (pst_text p) \<le> u32_max)"

lemma layout_total:
  assumes "span_preparable u s actions st"
  shows "\<exists>p mapped chunks ps.
    prepare_speech_text_with_offsets u s st (List.map_filter text_offset_of actions) = Some (p, mapped) \<and>
    prepare_timeline_text_layout u i s actions st =
      Some \<lparr>sl_chunks = chunks, sl_positions = ps\<rparr> \<and>
    chunk_prepared_speech p (st_max_chunk_words st) = Some chunks \<and> chunks_ok chunks \<and>
    list_all (\<lambda>c. pc_tones c = []) chunks \<and>
    list_all2 (\<lambda>(offset, affinity) p. placed_at chunks offset affinity p)
      (requested_places chunks mapped actions) ps"
proof -
  let ?o = "List.map_filter text_offset_of actions"
  from assms obtain table where "punctuation_table_of st = Some table"
    by (auto simp: span_preparable_def prepare_speech_text_def split: option.splits)
  then obtain p mapped where pm: "prepare_speech_text_with_offsets u s st ?o = Some (p, mapped)"
    by (fastforce simp: prepare_speech_text_with_offsets_def)
  have len: "str_len (pst_text p) \<le> u32_max"
    using assms prepared_text_same [OF pm] by (simp add: span_preparable_def)
  from prepared_offsets_spec [OF pm _ len] assms have lm: "length mapped = length ?o"
    by (auto simp: span_preparable_def offsets_track_def)
  obtain chunks where c: "chunk_prepared_speech p (st_max_chunk_words st) = Some chunks"
    "chunks_ok chunks" "list_all (chunk_from p) chunks" using chunk_prepared_ok [OF len] by blast
  from c(3) have "list_all (\<lambda>c. pc_tones c = []) chunks"
    using prepared_no_tones(1) [OF pm] by (auto simp: list_all_iff chunk_from_def)
  moreover note c
  moreover obtain ps where "action_positions chunks mapped actions = Some ps"
    "list_all2 (\<lambda>(offset, affinity) p. placed_at chunks offset affinity p)
       (requested_places chunks mapped actions) ps"
    using action_positions_total [OF c(2) lm] by blast
  ultimately show ?thesis using pm
    by (simp add: prepare_timeline_text_layout_def prepared_no_tones [OF pm])
qed

section \<open>What the preflight promises\<close>

lemma option_each_ok:
  "option_each f xs = Some (Inr ()) \<longleftrightarrow> (\<forall>x \<in> set xs. f x = Some (Inr ()))"
  by (induction xs) (auto split: option.splits sum.splits)

lemma validate_timeline_span_layout_ok:
  "validate_timeline_span_layout i l = Inr () \<longleftrightarrow>
     list_all (\<lambda>n. n \<le> max_window_actions) (chunk_action_counts l)"
  unfolding validate_timeline_span_layout_def check_each_Inr
  by (force simp: list_all_length set_zip not_less split: if_splits)

lemma punctuation_same_voice [simp]:
  "punctuation_table_of (st\<lparr>st_current_voice := v\<rparr>) = punctuation_table_of st"
  by (simp add: punctuation_table_of_def split: option.split)

lemma layout_same_voice:
  "prepare_timeline_text_layout u i s actions (st\<lparr>st_current_voice := v\<rparr>) =
     prepare_timeline_text_layout u i s actions st"
  "span_preparable u s actions (st\<lparr>st_current_voice := v\<rparr>) = span_preparable u s actions st"
  by (simp_all add: prepare_timeline_text_layout_def prepare_speech_text_with_offsets_def
      prepare_speech_text_def span_preparable_def)

text \<open>Every audible action has its resource.\<close>

definition covered :: "(rstr \<rightharpoonup> timeline_audio_resource) \<Rightarrow> presentation_timeline_action list \<Rightarrow> bool"
    where
  "covered resources actions \<longleftrightarrow>
     list_all (\<lambda>a. pa_action a = presentation_action.SemanticEvent \<or> resources (pa_id a) \<noteq> None)
       actions"

lemma chunk_action_kind_covered:
  "pa_action a = presentation_action.SemanticEvent \<or> resources (pa_id a) \<noteq> None \<Longrightarrow>
   \<exists>k. chunk_action_kind resources a = Inr k"
  by (cases "pa_action a") (auto simp: chunk_action_kind_def required_resource_def)

lemma place_actions_ok:
  assumes "covered resources (map fst pairs)" "\<forall>(a, p) \<in> set pairs. ap_chunk_index p < length by_chunk"
  shows "\<exists>by'. place_actions resources pairs by_chunk [] = Inr (by', []) \<and>
     length by' = length by_chunk \<and>
     mset (map ca_id (concat by')) = mset (map ca_id (concat by_chunk)) + mset (map (pa_id \<circ> fst) pairs)"
  using assms
proof (induction pairs arbitrary: by_chunk)
  case Nil
  then show ?case by (simp add: prepared_def)
next
  case (Cons ap pairs)
  obtain a p where ap: "ap = (a, p)" by fastforce
  with Cons.prems(1) have "pa_action a = presentation_action.SemanticEvent \<or> resources (pa_id a) \<noteq> None"
    by (simp add: covered_def)
  then obtain k where k: "chunk_action_kind resources a = Inr k" using chunk_action_kind_covered by blast
  let ?new = "\<lparr>ca_id = pa_id a, ca_text_offset = ap_local_offset p, ca_affinity = ap_affinity p,
      ca_kind = k\<rparr>"
  let ?by = "by_chunk[ap_chunk_index p := by_chunk ! ap_chunk_index p @ [?new]]"
  have i: "ap_chunk_index p < length by_chunk" using Cons.prems(2) ap by simp
  have "mset (map ca_id (concat ?by)) = mset (map ca_id (concat by_chunk)) + {#pa_id a#}"
    by (subst (3) id_take_nth_drop [OF i], subst upd_conv_take_nth_drop [OF i]) simp
  moreover have "covered resources (map fst pairs)"
    "\<forall>(a, p) \<in> set pairs. ap_chunk_index p < length ?by"
    using Cons.prems by (auto simp: covered_def)
  from Cons.IH [OF this] obtain by' where "place_actions resources pairs ?by [] = Inr (by', [])"
    "length by' = length ?by"
    "mset (map ca_id (concat by')) = mset (map ca_id (concat ?by)) + mset (map (pa_id \<circ> fst) pairs)"
    by blast
  ultimately show ?case
    by (simp add: ap k prepare_bind_def from_result_def o_def)
qed

text \<open>A span is prepared when its layout passes the check and its actions have resources.\<close>

lemma span_data_ok:
  assumes "span_preparable u s actions st" "covered resources actions"
    and "map_option (validate_timeline_span_layout i) (prepare_timeline_text_layout u i s actions st) =
         Some (Inr ())"
  shows "\<exists>p span. prepare_timeline_span_data u i s voice style actions st resources = Some p \<and>
     p [] = Inr (span, []) \<and> ts_id span = i \<and> ts_style span = style \<and>
     mset (map ca_id (concat (ts_actions span))) = mset (map pa_id actions)"
proof -
  from layout_total [OF assms(1), of i] obtain chunks ps mapped where
    l: "prepare_timeline_text_layout u i s actions st = Some \<lparr>sl_chunks = chunks, sl_positions = ps\<rparr>"
    and place: "list_all2 (\<lambda>(offset, affinity) p. placed_at chunks offset affinity p)
      (requested_places chunks mapped actions) ps" by blast
  have len: "length (requested_places chunks mapped actions) = length actions" for mapped
    by (induction actions arbitrary: mapped) (auto split: presentation_timeline_position.split)
  have "\<forall>p \<in> set ps. ap_chunk_index p < length chunks"
    using place by (fastforce simp: list_all2_conv_all_nth in_set_conv_nth placed_at_def)
  then have in_range: "\<forall>(a, p) \<in> set (zip actions ps).
      ap_chunk_index p < length (replicate (length chunks) ([] :: timeline_chunk_action list))"
    by (auto dest: set_zip_rightD)
  have lps: "length ps = length actions" using list_all2_lengthD [OF place] len by simp
  then have "covered resources (map fst (zip actions ps))" using assms(2) by simp
  from place_actions_ok [OF this in_range] obtain by' where
    by': "place_actions resources (zip actions ps) (replicate (length chunks) []) [] = Inr (by', [])"
    "mset (map ca_id (concat by')) = mset (map (pa_id \<circ> fst) (zip actions ps))"
    by (auto simp: concat_replicate_trivial)
  have "map (pa_id \<circ> fst) (zip actions ps) = map pa_id actions"
    using lps by (metis map_fst_zip map_map)
  with by' l assms(3) show ?thesis
    by (auto simp: prepare_timeline_span_data_def prepare_bind_def from_result_def prepared_def)
qed

lemma legacy_span_ok:
  assumes "span_preparable u (sp_text s) actions st" "covered resources actions"
    and "map_option (validate_timeline_span_layout (sp_id s))
           (prepare_timeline_text_layout u (sp_id s) (sp_text s) actions st) = Some (Inr ())"
  shows "\<exists>p span. prepare_timeline_span u s actions st resources = Some p \<and>
     p [] = Inr (span, []) \<and> ts_id span = sp_id s \<and>
     mset (map ca_id (concat (ts_actions span))) = mset (map pa_id actions)"
  using span_data_ok [OF assms, of "sp_logical_voice_id s"]
  by (fastforce simp: prepare_timeline_span_def Let_def)

lemma spans_each_ok:
  assumes "\<forall>x \<in> set xs. \<exists>p y. f x = Some p \<and> p [] = Inr (y, []) \<and> R x y"
  shows "\<exists>ys. spans_each f xs [] = Some (Inr (ys, [])) \<and> list_all2 R xs ys"
  using assms
proof (induction xs)
  case Nil
  then show ?case by (simp add: prepared_def)
next
  case (Cons x xs)
  then obtain p y ys where "f x = Some p" "p [] = Inr (y, [])" "R x y"
    "spans_each f xs [] = Some (Inr (ys, []))" "list_all2 R xs ys" by fastforce
  then show ?case by auto
qed

text \<open>A span without actions needs no check: nothing is announced in its chunks.\<close>

lemma empty_layout_ok:
  assumes "span_preparable u s [] st"
  shows "map_option (validate_timeline_span_layout i) (prepare_timeline_text_layout u i s [] st) =
           Some (Inr ())"
proof -
  from layout_total [OF assms, of i] obtain chunks ps mapped where
    l: "prepare_timeline_text_layout u i s [] st = Some \<lparr>sl_chunks = chunks, sl_positions = ps\<rparr>"
    "list_all (\<lambda>c. pc_tones c = []) chunks"
    "list_all2 (\<lambda>(offset, affinity) p. placed_at chunks offset affinity p)
       (requested_places chunks mapped []) ps" by blast
  from l(3) have "ps = []" by simp
  moreover note l(2)
  then have "map (\<lambda>c. length (pc_tones c)) chunks = replicate (length chunks) 0"
    by (induction chunks) auto
  ultimately show ?thesis
    by (simp add: l(1) validate_timeline_span_layout_ok chunk_action_counts_def list_all_iff)
qed

lemma legacy_admission_prepares:
  assumes ok: "validate_presentation_timeline_action_windows u t st = Some (Inr ())"
    and pre: "\<forall>s \<in> set (pe_spans t). span_preparable u (sp_text s)
      (filter (\<lambda>a. position_span_id (pa_position a) = sp_id s) (pe_actions t)) st"
    and cov: "covered resources (pe_actions t)"
  shows "\<exists>spans. prepare_timeline_spans u t (st\<lparr>st_current_voice := v\<rparr>) resources [] =
           Some (Inr (spans, [])) \<and>
         list_all2 (\<lambda>s span. ts_id span = sp_id s \<and>
           mset (map ca_id (concat (ts_actions span))) =
             mset (map pa_id (filter (\<lambda>a. position_span_id (pa_position a) = sp_id s) (pe_actions t))))
           (pe_spans t) spans"
proof -
  let ?st = "st\<lparr>st_current_voice := v\<rparr>"
  let ?mine = "\<lambda>s. filter (\<lambda>a. position_span_id (pa_position a) = sp_id s) (pe_actions t)"
  have one: "\<exists>p span. map_option (\<lambda>p. prepare_bind check_cancelled (\<lambda>_. p))
        (prepare_timeline_span u s
          (case index_timeline_actions (pe_actions t) (sp_id s) of None \<Rightarrow> [] | Some xs \<Rightarrow> xs)
          ?st resources) = Some p \<and> p [] = Inr (span, []) \<and>
      (ts_id span = sp_id s \<and>
       mset (map ca_id (concat (ts_actions span))) = mset (map pa_id (?mine s)))"
    if s: "s \<in> set (pe_spans t)" for s
  proof -
    have prep: "span_preparable u (sp_text s) (?mine s) st" using pre s by blast
    have "map_option (validate_timeline_span_layout (sp_id s))
        (prepare_timeline_text_layout u (sp_id s) (sp_text s) (?mine s) st) = Some (Inr ())"
    proof (cases "?mine s = []")
      case True
      with empty_layout_ok [of u "sp_text s" st "sp_id s"] prep show ?thesis by simp
    next
      case False
      with ok s show ?thesis
        by (auto simp: validate_presentation_timeline_action_windows_def Let_def option_each_ok
            index_timeline_actions split: if_splits)
    qed
    moreover have "covered resources (?mine s)" using cov by (auto simp: covered_def list_all_iff)
    ultimately obtain p span where
      "prepare_timeline_span u s (?mine s) ?st resources = Some p" "p [] = Inr (span, [])"
      "ts_id span = sp_id s" "mset (map ca_id (concat (ts_actions span))) = mset (map pa_id (?mine s))"
      using legacy_span_ok [of u s "?mine s" ?st resources] prep by (auto simp: layout_same_voice)
    then show ?thesis by (simp add: indexed_actions)
  qed
  then have "\<forall>s \<in> set (pe_spans t). \<exists>p span. map_option (\<lambda>p. prepare_bind check_cancelled (\<lambda>_. p))
        (prepare_timeline_span u s
          (case index_timeline_actions (pe_actions t) (sp_id s) of None \<Rightarrow> [] | Some xs \<Rightarrow> xs)
          ?st resources) = Some p \<and> p [] = Inr (span, []) \<and>
      (ts_id span = sp_id s \<and>
       mset (map ca_id (concat (ts_actions span))) = mset (map pa_id (?mine s)))" by blast
  from spans_each_ok [OF this] show ?thesis
    by (simp only: prepare_timeline_spans_def Let_def prepare_bind_uncancelled uncancelled sum.case
        prod.case)
qed

text \<open>Spans that are prepared when nobody cancels are prepared or cancelled.\<close>

lemma spans_interrupted:
  assumes "\<exists>spans. prepare_timeline_spans u t st resources [] = Some (Inr (spans, [])) \<and> P spans"
  shows "prepare_timeline_spans u t st resources polls = Some (Inl PreparationCancelled) \<and>
       True \<in> set polls \<or>
     (\<exists>spans rest. prepare_timeline_spans u t st resources polls = Some (Inr (spans, rest)) \<and> P spans)"
proof -
  let ?f = "\<lambda>s. map_option (\<lambda>p. prepare_bind check_cancelled (\<lambda>_. p))
    (prepare_timeline_span u s
      (case index_timeline_actions (pe_actions t) (sp_id s) of None \<Rightarrow> [] | Some xs \<Rightarrow> xs) st resources)"
  have i: "\<forall>s \<in> set (pe_spans t). \<forall>p. ?f s = Some p \<longrightarrow> interruptible p"
    by (auto dest: prepare_timeline_span_interruptible intro!: interrupts)
  from assms obtain spans where spans: "spans_each ?f (pe_spans t) [] = Some (Inr (spans, []))" "P spans"
    by (auto simp: prepare_timeline_spans_def prepare_bind_def check_cancelled_def Let_def)
  have two: "interruptible (prepare_bind check_cancelled (\<lambda>_. check_cancelled))"
    by (intro interrupts)
  show ?thesis
  proof (cases rule: interrupted_or [OF two, of polls])
    case (3 x rest)
    from spans_each_interrupted [OF i spans(1), of rest] 3 spans(2) show ?thesis
      by (auto simp: prepare_timeline_spans_def Let_def)
  qed (auto simp: prepare_timeline_spans_def prepare_bind_def check_cancelled_def)
qed

section \<open>What a presentation may retain\<close>

text \<open>Two buffers of one allocation are the same buffer.\<close>

definition shares_allocations :: "(rstr \<Rightarrow> rstr + shared_audio) \<Rightarrow> bool" where
  "shares_allocations load \<longleftrightarrow>
     (\<forall>p q a b. load p = Inr a \<longrightarrow> load q = Inr b \<longrightarrow> au_allocation a = au_allocation b \<longrightarrow> a = b)"

definition file_audios :: "(rstr \<rightharpoonup> timeline_audio_resource) \<Rightarrow> shared_audio set" where
  "file_audios resources = {a. \<exists>i pan. resources i = Some (FileResource a pan)}"

text \<open>The buffers the budget has counted are loaded ones, and their samples fit what it retains.\<close>

definition budget_ok ::
    "(rstr \<Rightarrow> rstr + shared_audio) \<Rightarrow> nat \<Rightarrow> (rstr \<rightharpoonup> timeline_audio_resource) \<Rightarrow> pcm_budget \<Rightarrow> bool"
    where
  "budget_ok load n resources b \<longleftrightarrow>
     bu_limit b = n \<and> bu_retained b \<le> n \<and>
     (\<exists>audios. finite audios \<and> bu_shared b = au_allocation ` audios \<and>
        (\<forall>a \<in> audios. \<exists>p. load p = Inr a) \<and>
        (\<Sum>a \<in> audios. au_samples a) \<le> bu_retained b \<and> file_audios resources \<subseteq> audios)"

lemma reserve_Inr:
  "n < usize_max \<Longrightarrow> bu_limit b = n \<Longrightarrow> bu_retained b \<le> n \<Longrightarrow> reserve i k b = Inr b' \<longleftrightarrow>
   bu_retained b + k \<le> n \<and> b' = b\<lparr>bu_retained := bu_retained b + k\<rparr>"
  by (auto simp: reserve_def Let_def usize_saturating_add_def min_def)

lemma retain_private_ok:
  assumes "n < usize_max" "budget_ok load n resources b" "retain_private i k b = Inr b'"
  shows "budget_ok load n resources b'"
  using assms by (fastforce simp: budget_ok_def retain_private_def reserve_Inr)

lemma retain_shared_ok:
  assumes n: "n < usize_max" and sh: "shares_allocations load"
    and ok: "budget_ok load n resources b" and l: "load p = Inr a"
    and r: "retain_shared i a b = Inr b'"
  shows "budget_ok load n (resources(j \<mapsto> FileResource a pan)) b'"
proof -
  from ok obtain audios where au: "finite audios" "bu_shared b = au_allocation ` audios"
    "\<forall>a \<in> audios. \<exists>p. load p = Inr a" "(\<Sum>a \<in> audios. au_samples a) \<le> bu_retained b"
    "file_audios resources \<subseteq> audios" and lim: "bu_limit b = n" "bu_retained b \<le> n"
    by (auto simp: budget_ok_def)
  have fs: "file_audios (resources(j \<mapsto> FileResource a pan)) \<subseteq> insert a audios"
    using au(5) by (auto simp: file_audios_def split: if_splits)
  show ?thesis
  proof (cases "au_allocation a \<in> bu_shared b")
    case True
    with au(2) obtain c where c: "c \<in> audios" "au_allocation c = au_allocation a" by auto
    with au(3) sh l have "c = a" unfolding shares_allocations_def by blast
    with c fs au lim True r show ?thesis
      by (auto simp: budget_ok_def retain_shared_def insert_absorb intro!: exI [of _ audios])
  next
    case False
    with r reserve_Inr [OF n lim] have b': "bu_retained b + au_samples a \<le> n"
      "b' = b\<lparr>bu_retained := bu_retained b + au_samples a,
              bu_shared := insert (au_allocation a) (bu_shared b)\<rparr>"
      by (auto simp: retain_shared_def res_simps)
    from False au(2) have "a \<notin> audios" by auto
    with au b' lim fs l show ?thesis
      by (auto simp: budget_ok_def intro!: exI [of _ "insert a audios"])
  qed
qed

lemma budget_ok_keep:
  assumes "budget_ok load n resources b" "\<And>a pan. r \<noteq> FileResource a pan"
  shows "budget_ok load n (resources(j \<mapsto> r)) b"
proof -
  have "file_audios (resources(j \<mapsto> r)) \<subseteq> file_audios resources"
    using assms(2) by (auto simp: file_audios_def split: if_splits)
  with assms(1) show ?thesis unfolding budget_ok_def by fastforce
qed

lemma prepare_resource_ok:
  assumes "n < usize_max" "shares_allocations load" "budget_ok load n resources b"
    and "prepare_resource load st a b polls = Inr ((r, b'), rest)"
  shows "budget_ok load n (case r of None \<Rightarrow> resources | Some x \<Rightarrow> resources(pa_id a \<mapsto> x)) b' \<and>
         (pa_action a = presentation_action.SemanticEvent \<or> r \<noteq> None)"
proof (cases "pa_action a")
  case (AudioAction path mode vol pan fx)
  from assms(4) obtain audio b1 where l: "load path = Inr audio"
    and b1: "retain_shared (pa_id a) audio b = Inr b1" and r: "r = Some (FileResource audio pan)"
    and b': "b' = b1 \<or> (\<exists>k. retain_private (pa_id a) k b1 = Inr b')"
    by (auto simp: prepare_resource_def AudioAction preparation_simps res_simps split: if_splits)
  from retain_shared_ok [OF assms(1,2,3) l b1, of "pa_id a" pan] b' r show ?thesis
    by (auto intro: retain_private_ok [OF assms(1)])
next
  case (ToneAction frequency duration mode vol pan fx)
  with assms show ?thesis
    by (auto simp: prepare_resource_def preparation_simps
        intro!: budget_ok_keep intro: retain_private_ok)
next
  case (SilenceAction duration)
  with assms show ?thesis
    by (auto simp: prepare_resource_def preparation_simps
        intro!: budget_ok_keep intro: retain_private_ok)
next
  case SemanticEvent
  with assms show ?thesis by (auto simp: prepare_resource_def preparation_simps)
qed

lemma prepare_resources_from_ok:
  assumes "n < usize_max" "shares_allocations load" "budget_ok load n resources b"
    and "prepare_resources_from load st actions resources b polls = Inr ((final, b'), rest)"
  shows "budget_ok load n final b' \<and> covered final actions \<and> dom resources \<subseteq> dom final"
  using assms(3,4)
proof (induction actions arbitrary: resources b polls)
  case Nil
  then show ?case by (simp add: prepared_def covered_def)
next
  case (Cons a actions)
  from Cons.prems(2) obtain r b1 mid mid' where
    r: "prepare_resource load st a b mid = Inr ((r, b1), mid')"
    and rest: "prepare_resources_from load st actions
      (case r of None \<Rightarrow> resources | Some x \<Rightarrow> resources(pa_id a \<mapsto> x)) b1 mid' = Inr ((final, b'), rest)"
    by (auto simp: preparation_simps)
  note one = prepare_resource_ok [OF assms(1,2) Cons.prems(1) r]
  from Cons.IH [OF conjunct1 [OF one] rest] one show ?case
    by (auto simp: covered_def split: option.splits)
qed

lemma validated_offsets:
  assumes "validate_presentation_timeline t = Inr ()" "s \<in> set (pe_spans t)"
  shows "list_all (is_char_boundary (sp_text s)) (List.map_filter text_offset_of
           (filter (\<lambda>a. position_span_id (pa_position a) = sp_id s) (pe_actions t)))"
proof -
  from assms(1) have v: "validate_actions (span_map (pe_spans t)) {} (pe_actions t) = Inr ()"
    by (auto simp: validate_presentation_timeline_def Let_def res_simps)
  have d: "distinct (map sp_id (pe_spans t))"
    using validated_envelope [OF assms(1)] by (simp add: structure_ok_def comp_def)
  have "is_char_boundary (sp_text s) n"
    if a: "a \<in> set (pe_actions t)" "pa_position a = Timeline_Documents.TextOffset (sp_id s) n f" for a n f
  proof -
    from validate_actions_ids [OF v] a obtain x where
      x: "span_map (pe_spans t) (sp_id s) = Some x" "is_char_boundary (sp_text x) n"
      by (auto simp: list_all_iff action_checked_def)
    from span_map_member [OF x(1)] d assms(2) have "x = s" by (auto simp: distinct_map dest: inj_onD)
    with x(2) show ?thesis by simp
  qed
  then show ?thesis
    by (auto simp: list_all_iff List.map_filter_def split: presentation_timeline_position.splits)
qed

lemma resources_prepared:
  assumes "shares_allocations load" "prepare_timeline_resources load st actions polls = Inr (resources, rest)"
  shows "covered resources actions \<and>
    (\<Sum>a \<in> file_audios resources. au_samples a) \<le> max_presentation_decoded_pcm_samples"
proof -
  let ?n = max_presentation_decoded_pcm_samples
  from assms(2) obtain b where
    "prepare_resources_from load st actions Map.empty (new_budget ?n) polls = Inr ((resources, b), rest)"
    by (auto simp: prepare_timeline_resources_def prepare_timeline_resources_with_sample_limit_def
        preparation_simps)
  moreover have "?n < usize_max" by (simp add: max_presentation_decoded_pcm_samples_def usize_max_def)
  moreover have "budget_ok load ?n Map.empty (new_budget ?n)"
    by (auto simp: budget_ok_def new_budget_def file_audios_def intro!: exI [of _ "{}"])
  ultimately have ok: "budget_ok load ?n resources b" "covered resources actions"
    using prepare_resources_from_ok [OF _ assms(1)] by blast+
  then obtain audios where au: "finite audios" "(\<Sum>a \<in> audios. au_samples a) \<le> bu_retained b"
    "file_audios resources \<subseteq> audios" "bu_retained b \<le> ?n" by (auto simp: budget_ok_def)
  from sum_mono2 [OF au(1,3), of au_samples] au(2,4) ok(2) show ?thesis by simp
qed

section \<open>Properties\<close>

text \<open>
  C21: of a validated presentation that passed the preflight of the reader, whose prepared texts
  are below the 4 GiB the offsets count, the worker's preparation fails only when it is cancelled
  or when its resources do (a sound file that cannot be used, more samples than allowed): no window
  limit, missing resource or panic can fail it, whatever the polls for cancellation answer.
  Otherwise every span is there, in order, and each of its actions is placed in one of its chunks,
  none lost or doubled.
\<close>

theorem admitted_timeline_prepares:
  assumes "validate_presentation_timeline t = Inr ()"
    and "validate_presentation_timeline_action_windows u t st = Some (Inr ())"
    and "\<forall>s \<in> set (pe_spans t). case prepare_speech_text u (sp_text s) st of
           None \<Rightarrow> False | Some p \<Rightarrow> str_len (pst_text p) \<le> u32_max"
    and "shares_allocations load"
  shows "case prepare_legacy_timeline u load t v st polls of
      None \<Rightarrow> False
    | Some (Inl e) \<Rightarrow>
        e = PreparationCancelled \<and> True \<in> set polls \<or>
        prepare_timeline_resources load (st\<lparr>st_current_voice := v\<rparr>) (pe_actions t) [] = Inl e
    | Some (Inr (spans, rest)) \<Rightarrow>
        list_all2 (\<lambda>s span. ts_id span = sp_id s \<and>
          mset (map ca_id (concat (ts_actions span))) =
            mset (map pa_id (filter (\<lambda>a. position_span_id (pa_position a) = sp_id s) (pe_actions t))))
          (pe_spans t) spans"
proof (cases rule: interrupted_or [OF prepare_timeline_resources_interruptible,
    of load "st\<lparr>st_current_voice := v\<rparr>" "pe_actions t" polls])
  case (3 resources rest)
  have "covered resources (pe_actions t)"
    using resources_prepared [OF assms(4) 3(2)] by blast
  moreover have "\<forall>s \<in> set (pe_spans t). span_preparable u (sp_text s)
      (filter (\<lambda>a. position_span_id (pa_position a) = sp_id s) (pe_actions t)) st"
    using assms(3) validated_offsets [OF assms(1)] by (simp add: span_preparable_def)
  ultimately show ?thesis
    using spans_interrupted [OF legacy_admission_prepares [OF assms(2)], of resources v rest] 3
    by (auto simp: prepare_legacy_timeline_def Let_def)
qed (auto simp: prepare_legacy_timeline_def Let_def)

text \<open>
  C22: the file buffers a prepared presentation shares hold at most 16777216 samples together, each
  allocation counted once however many actions play it.
\<close>

theorem decoded_samples_bounded:
  assumes "shares_allocations load"
    and "prepare_timeline_resources load st actions polls = Inr (resources, rest)"
  shows "(\<Sum>a \<in> file_audios resources. au_samples a) \<le> 16777216"
  using resources_prepared [OF assms] by (simp add: max_presentation_decoded_pcm_samples_def)

text \<open>
  C23: the layout of a span places every action in the chunk its prepared offset asks for: anchored
  before, the first chunk that ends after the offset, anchored after, the last chunk that starts
  before it, at the same distance into the chunk; the layout does not panic.
\<close>

theorem actions_placed_in_chunks:
  assumes "span_preparable u s actions st"
  shows "\<exists>p mapped chunks ps.
    prepare_speech_text_with_offsets u s st (List.map_filter text_offset_of actions) = Some (p, mapped) \<and>
    prepare_timeline_text_layout u i s actions st = Some \<lparr>sl_chunks = chunks, sl_positions = ps\<rparr> \<and>
    list_all2 (\<lambda>(offset, affinity) p. placed_at chunks offset affinity p)
      (requested_places chunks mapped actions) ps"
  using layout_total [OF assms, of i] by blast

section \<open>The properties at concrete presentations\<close>

definition plain_state :: tts_state where
  "plain_state = (from_speech_defaults default_speech)
     \<lparr>st_punctuation_tables := empty_tables, st_split_caps := False\<rparr>"

definition ascii_classes :: case_classes where
  "ascii_classes = \<lparr>is_uppercase = is_ascii_uppercase, is_lowercase = is_ascii_lowercase\<rparr>"

definition sample_envelope :: presentation_timeline_envelope where
  "sample_envelope =
     \<lparr>pe_protocol_version = 1, pe_generation = 1, pe_dispatch_id = 2, pe_delivery_policy = None,
      pe_replacement_key = None, pe_spans = [sample_span],
      pe_actions =
        [\<lparr>pa_id = lit ''beep'',
          pa_position = Timeline_Documents.TextOffset 1 2 presentation_affinity.AffinityBefore,
          pa_lifecycle_anchor = RunAnchor, pa_action = AudioAction (lit ''b.wav'') ModeInsert
            (F32_Fin 1) (F32_Fin (1 / 2)) DryBus\<rparr>]\<rparr>"

definition sample_loader :: "rstr \<Rightarrow> rstr + shared_audio" where
  "sample_loader path = Inr \<lparr>au_allocation = 7, au_samples = 441\<rparr>"

lemma plain_table: "punctuation_table_of plain_state = Some []"
  by (simp add: plain_state_def punctuation_table_of_def from_speech_defaults_def default_speech_def
      empty_tables_def)

lemma plain_table_text: "apply_punctuation_table [] s = s" if "91 \<notin> set s"
  using that
proof (induction s)
  case (Cons c cs)
  then show ?case
    by (subst apply_punctuation_table.simps)
      (auto simp: legacy_speech_separator_def lit_Cons replaced_def spoken_replacement_def)
qed (simp add: apply_punctuation_table.simps)

lemma sample_text:
  "prepare_speech_text ascii_classes (lit ''hello'') plain_state =
     Some \<lparr>pst_text = lit ''hello'', pst_tones = []\<rparr>"
proof -
  have "91 \<notin> set (lit ''hello'')" by (simp add: lit_Cons)
  then show ?thesis
    by (simp add: prepare_speech_text_def plain_table plain_table_text)
      (simp add: plain_state_def)
qed

lemma sample_length: "str_len (lit ''hello'') = 5"
  by (simp add: lit_Cons utf8_len_def)

lemma sample_preparable:
  "span_preparable ascii_classes (lit ''hello'') (pe_actions sample_envelope) plain_state"
  by (simp add: span_preparable_def sample_text sample_length u32_max_def)
    (simp add: sample_envelope_def List.map_filter_def lit_Cons utf8_len_def)

theorem actions_placed_in_chunks_witness:
  "\<exists>layout. prepare_timeline_text_layout ascii_classes 1 (lit ''hello'') (pe_actions sample_envelope)
     plain_state = Some layout"
  using actions_placed_in_chunks [OF sample_preparable, of 1] by blast

lemma sample_shares: "shares_allocations sample_loader"
  by (simp add: shares_allocations_def sample_loader_def)

lemma sample_resources:
  "\<exists>resources. prepare_timeline_resources sample_loader plain_state (pe_actions sample_envelope) [] =
     Inr (resources, []) \<and> resources (lit ''beep'') = Some (FileResource \<lparr>au_allocation = 7, au_samples = 441\<rparr> (F32_Fin (1 / 2)))"
  by (simp add: prepare_timeline_resources_def prepare_timeline_resources_with_sample_limit_def
      sample_envelope_def prepare_resource_def prepare_bind_def from_result_def prepared_def
      sample_loader_def retain_shared_def reserve_def new_budget_def plain_state_def
      from_speech_defaults_def default_speech_def f32_differs_def f32_eq_def default_audio_routing_def
      max_presentation_decoded_pcm_samples_def usize_saturating_add_def usize_max_def Let_def)

theorem decoded_samples_bounded_witness:
  "\<exists>resources. resources (lit ''beep'') \<noteq> None \<and> (\<Sum>a \<in> file_audios resources. au_samples a) \<le> 16777216"
  using sample_resources decoded_samples_bounded [OF sample_shares] by fastforce

lemma sample_ids:
  "validate_id (lit ''beep'') k = Inr ()" "\<not> starts_with (lit ''beep'') (lit ''omnivox.'')"
  "is_char_boundary (lit ''hello'') 2" "lit ''b.wav'' \<noteq> []" "str_len (lit ''b.wav'') = 5"
  by (simp_all add: validate_id_def invalid_if_def max_protocol_id_bytes_def starts_with_def lit_Cons
      utf8_len_def)

lemma sample_validated: "validate_presentation_timeline sample_envelope = Inr ()"
proof -
  have "validate_legacy_span_style sample_span = Inr ()"
    by (simp add: validate_legacy_span_style_def validate_acss_def validate_named_def sample_span_def)
  then show ?thesis
    by (simp add: validate_presentation_timeline_def sample_envelope_def validate_delivery_def
        invalid_if_def max_timeline_spans_def max_timeline_actions_def span_map_def
        sample_ids sample_length validate_action_def validate_normalized_def
        max_timeline_resource_path_bytes_def Let_def)
      (simp add: sample_span_def lit_Cons utf8_len_def)
qed

lemma sample_admitted:
  "validate_presentation_timeline_action_windows ascii_classes sample_envelope plain_state =
     Some (Inr ())"
proof -
  obtain chunks ps mapped where
    l: "prepare_timeline_text_layout ascii_classes 1 (lit ''hello'') (pe_actions sample_envelope)
      plain_state = Some \<lparr>sl_chunks = chunks, sl_positions = ps\<rparr>"
    and no_tones: "list_all (\<lambda>c. pc_tones c = []) chunks"
    and place: "list_all2 (\<lambda>(offset, affinity) p. placed_at chunks offset affinity p)
      (requested_places chunks mapped (pe_actions sample_envelope)) ps"
    using layout_total [OF sample_preparable, of 1] by blast
  then obtain p where p: "ps = [p]" "ap_chunk_index p < length chunks"
    by (auto simp: sample_envelope_def placed_at_def list_all2_Cons1)
  have zero: "map (\<lambda>c. length (pc_tones c)) chunks = replicate (length chunks) 0"
    using no_tones by (induction chunks) auto
  have "list_all (\<lambda>n. n \<le> max_window_actions) ((replicate (length chunks) 0)[ap_chunk_index p := 1])"
    using p(2) by (auto simp: list_all_length nth_list_update max_window_actions_def max_synthesis_anchors_def
        max_timeline_actions_per_speech_window_def max_timeline_actions_per_window_def)
  with p have "validate_timeline_span_layout 1 \<lparr>sl_chunks = chunks, sl_positions = ps\<rparr> = Inr ()"
    by (simp add: validate_timeline_span_layout_ok chunk_action_counts_def zero)
  with l show ?thesis
    by (simp add: validate_presentation_timeline_action_windows_def index_timeline_actions Let_def)
      (simp add: sample_envelope_def sample_span_def)
qed

theorem admitted_timeline_prepares_witness:
  "\<exists>span rest. prepare_legacy_timeline ascii_classes sample_loader sample_envelope
       (st_current_voice plain_state) plain_state [] = Some (Inr ([span], rest)) \<and>
     mset (map ca_id (concat (ts_actions span))) = {#lit ''beep''#}"
proof -
  let ?v = "st_current_voice plain_state"
  let ?r = "prepare_legacy_timeline ascii_classes sample_loader sample_envelope ?v plain_state []"
  have "\<forall>s \<in> set (pe_spans sample_envelope). case prepare_speech_text ascii_classes (sp_text s) plain_state of
      None \<Rightarrow> False | Some p \<Rightarrow> str_len (pst_text p) \<le> u32_max"
    by (simp add: sample_envelope_def sample_span_def sample_text sample_length u32_max_def)
  note ok = admitted_timeline_prepares [OF sample_validated sample_admitted this sample_shares,
      where v = ?v and polls = "[]"]
  obtain resources where "prepare_timeline_resources sample_loader plain_state
      (pe_actions sample_envelope) [] = Inr (resources, [])" using sample_resources by blast
  with ok obtain spans rest where r: "?r = Some (Inr (spans, rest))"
    by (auto split: option.splits sum.splits)
  with ok obtain span where "spans = [span]"
    "mset (map ca_id (concat (ts_actions span))) = {#lit ''beep''#}"
    by (auto simp: sample_envelope_def sample_span_def list_all2_Cons1)
  with r show ?thesis by (intro exI [of _ span] exI [of _ rest]) simp
qed

end
