(* ===== verification/Protocol_Input.thy ===== *)
theory Protocol_Input
  imports Synth_Requests Presentation_Preparation
begin

text \<open>
  How the server reads its input (\<open>omnivox-cli/src/server.rs\<close>): bounded lines from the byte
  stream, parsed commands from the line channel, and whole structured submissions, which may span
  several lines and are checked against the session before anything is displaced for them.

  A byte source is the list of its buffer fills: \<open>Inl\<close> is an I/O error, an empty fill or the end
  of the list is the end of the input. The line channel is the list of what its receiver sees;
  \<open>TimeoutIn\<close> stands for a deadline that passes, and the end of the list for a sender that is gone.
  Where time decides between a line and a timeout, the list holds either, so every timing of the
  sources is a list.
\<close>

section \<open>Bounded lines\<close>

definition max_protocol_line_bytes :: nat where
  "max_protocol_line_bytes = 512 * 1024"

datatype bounded_protocol_line = Line rstr | Oversized nat | InvalidUtf8 nat

type_synonym byte_source = "(rstr + nat list) list"

record line_progress =
  lp_stored :: "nat list"
  lp_total :: nat
  lp_last :: "nat option"
  lp_saw_input :: bool

definition no_progress :: line_progress where
  "no_progress = \<lparr>lp_stored = [], lp_total = 0, lp_last = None, lp_saw_input = False\<rparr>"

definition line_content :: "nat list \<Rightarrow> nat list" where
  "line_content available = takeWhile (\<lambda>b. b \<noteq> 10) available"

text \<open>One buffer fill: at most one byte more than the limit is ever kept.\<close>

definition absorb_content :: "nat list \<Rightarrow> line_progress \<Rightarrow> line_progress" where
  "absorb_content content p =
     \<lparr>lp_stored = lp_stored p @
        take (min (length content)
               (saturating_sub (usize_saturating_add max_protocol_line_bytes 1)
                 (length (lp_stored p)))) content,
      lp_total = usize_saturating_add (lp_total p) (length content),
      lp_last = (if content = [] then lp_last p else Some (last content)),
      lp_saw_input = True\<rparr>"

text \<open>The loop: what it has read when it breaks (\<open>None\<close> at the end of the input), and the rest.\<close>

fun line_loop :: "byte_source \<Rightarrow> line_progress \<Rightarrow> (rstr + line_progress option) \<times> byte_source" where
  "line_loop [] p = (Inr (if lp_saw_input p then Some p else None), [])"
| "line_loop (Inl e # r) p = (Inl e, r)"
| "line_loop (Inr available # r) p =
     (if available = [] then (Inr (if lp_saw_input p then Some p else None), r)
      else let content = line_content available;
               p' = absorb_content content p;
               rest = drop (length content + 1) available
           in if 10 \<in> set available
              then (Inr (Some p'), if rest = [] then r else Inr rest # r)
              else line_loop r p')"

definition finish_line :: "line_progress \<Rightarrow> bounded_protocol_line" where
  "finish_line p =
     (let trailing = lp_last p = Some 13;
          logical = saturating_sub (lp_total p) (if trailing then 1 else 0)
      in if max_protocol_line_bytes < logical then Oversized logical
         else case from_utf8 (if trailing then butlast (lp_stored p) else lp_stored p) of
                Some line \<Rightarrow> Line line
              | None \<Rightarrow> InvalidUtf8 logical)"

definition read_bounded_protocol_line ::
    "byte_source \<Rightarrow> (rstr + bounded_protocol_line option) \<times> byte_source" where
  "read_bounded_protocol_line reader =
     (case line_loop reader no_progress of
        (Inl e, r) \<Rightarrow> (Inl e, r)
      | (Inr None, r) \<Rightarrow> (Inr None, r)
      | (Inr (Some p), r) \<Rightarrow> (Inr (Some (finish_line p)), r))"

section \<open>A line does not depend on the buffering\<close>

text \<open>The line at the start of a byte string, and the bytes after it.\<close>

definition line_of_bytes :: "nat list \<Rightarrow> bounded_protocol_line option" where
  "line_of_bytes bytes =
     (if bytes = [] then None
      else let content = line_content bytes;
               trailing = content \<noteq> [] \<and> last content = 13;
               body = if trailing then butlast content else content;
               size = min usize_max (length content) - (if trailing then 1 else 0)
           in if max_protocol_line_bytes < size then Some (Oversized size)
              else case from_utf8 body of
                     Some line \<Rightarrow> Some (Line line) | None \<Rightarrow> Some (InvalidUtf8 size))"

definition after_line :: "nat list \<Rightarrow> nat list" where
  "after_line bytes = drop (length (line_content bytes) + 1) bytes"

text \<open>A source without errors and without an early end, and its bytes.\<close>

definition unbroken :: "byte_source \<Rightarrow> bool" where
  "unbroken src = list_all (\<lambda>c. case c of Inl e \<Rightarrow> False | Inr b \<Rightarrow> b \<noteq> []) src"

definition source_bytes :: "byte_source \<Rightarrow> nat list" where
  "source_bytes src = concat (map (\<lambda>c. case c of Inl e \<Rightarrow> [] | Inr b \<Rightarrow> b) src)"

lemma source_simps [simp]:
  "unbroken []" "unbroken (Inr b # r) \<longleftrightarrow> b \<noteq> [] \<and> unbroken r" "\<not> unbroken (Inl e # r)"
  "source_bytes [] = []" "source_bytes (Inr b # r) = b @ source_bytes r"
  by (simp_all add: unbroken_def source_bytes_def)

text \<open>What the loop has read after the content \<open>bytes\<close>.\<close>

definition progress_of :: "nat list \<Rightarrow> line_progress" where
  "progress_of bytes =
     \<lparr>lp_stored = take (max_protocol_line_bytes + 1) bytes,
      lp_total = min usize_max (length bytes),
      lp_last = (if bytes = [] then None else Some (last bytes)), lp_saw_input = True\<rparr>"

lemma limit_small: "usize_saturating_add max_protocol_line_bytes 1 = max_protocol_line_bytes + 1"
  "max_protocol_line_bytes + 1 < usize_max"
  by (simp_all add: usize_saturating_add_def usize_max_def max_protocol_line_bytes_def)

lemma absorb_content_eq:
  "absorb_content content p =
     \<lparr>lp_stored = lp_stored p @ take (Suc max_protocol_line_bytes - length (lp_stored p)) content,
      lp_total = min usize_max (lp_total p + length content),
      lp_last = (if content = [] then lp_last p else Some (last content)), lp_saw_input = True\<rparr>"
  using limit_small(1)
  by (simp add: absorb_content_def saturating_sub_def usize_saturating_add_def min_def)

lemma absorb_progress: "absorb_content content (progress_of bytes) = progress_of (bytes @ content)"
proof -
  have "take (Suc max_protocol_line_bytes - min (length bytes) (Suc max_protocol_line_bytes)) content =
      take (Suc max_protocol_line_bytes - length bytes) content"
    by (cases "length bytes \<le> Suc max_protocol_line_bytes") simp_all
  then show ?thesis
    by (auto simp: absorb_content_eq progress_of_def min.commute)
qed

lemma absorb_first: "absorb_content content no_progress = progress_of content"
  by (auto simp: absorb_content_eq no_progress_def progress_of_def)

lemma content_without_newline: "10 \<notin> set b \<Longrightarrow> line_content (b @ r) = b @ line_content r"
  by (induction b) (auto simp: line_content_def)

lemma content_with_newline: "10 \<in> set b \<Longrightarrow> line_content (b @ r) = line_content b"
  by (induction b) (auto simp: line_content_def)

lemma content_shorter: "10 \<in> set b \<Longrightarrow> length (line_content b) < length b"
  by (induction b) (auto simp: line_content_def)

lemma line_loop_progress:
  assumes "unbroken src"
  shows "fst (line_loop src (progress_of bytes)) =
           Inr (Some (progress_of (bytes @ line_content (source_bytes src)))) \<and>
         unbroken (snd (line_loop src (progress_of bytes))) \<and>
         source_bytes (snd (line_loop src (progress_of bytes))) = after_line (source_bytes src)"
  using assms
proof (induction src arbitrary: bytes)
  case Nil
  then show ?case by (simp add: progress_of_def line_content_def after_line_def)
next
  case (Cons c src)
  then obtain b where c: "c = Inr b" "b \<noteq> []" "unbroken src"
    by (cases c) (simp_all)
  show ?case
  proof (cases "10 \<in> set b")
    case True
    with c content_shorter [OF True] show ?thesis
      by (auto simp: Let_def absorb_progress content_with_newline after_line_def)
  next
    case False
    then have "line_content b = b"
      using content_without_newline [of b "[]"] by (simp add: line_content_def)
    with False c Cons.IH [OF c(3), of "bytes @ b"] show ?thesis
      by (simp add: Let_def absorb_progress content_without_newline after_line_def)
  qed
qed

lemma line_loop_first:
  assumes "unbroken src" "src \<noteq> []"
  shows "fst (line_loop src no_progress) =
           Inr (Some (progress_of (line_content (source_bytes src)))) \<and>
         unbroken (snd (line_loop src no_progress)) \<and>
         source_bytes (snd (line_loop src no_progress)) = after_line (source_bytes src)"
proof -
  from assms obtain b r where src: "src = Inr b # r" "b \<noteq> []" "unbroken r"
    by (cases src; cases "hd src") auto
  have "absorb_content (line_content b) no_progress = absorb_content (line_content b) (progress_of [])"
    by (simp add: absorb_first absorb_progress)
  then have "line_loop src no_progress = line_loop src (progress_of [])"
    using src by simp
  with line_loop_progress [OF assms(1), of "[]"] show ?thesis by simp
qed

lemma finish_progress:
  assumes "bytes \<noteq> []"
  shows "Some (finish_line (progress_of (line_content bytes))) = line_of_bytes bytes"
proof -
  let ?c = "line_content bytes"
  let ?n = "max_protocol_line_bytes"
  have small: "take (?n + 1) ?c = ?c" if "length ?c \<le> ?n + 1" using that by simp
  show ?thesis
  proof (cases "?c \<noteq> [] \<and> last ?c = 13")
    case True
    then have t: "lp_last (progress_of ?c) = Some 13" by (simp add: progress_of_def)
    show ?thesis
    proof (cases "?n < min usize_max (length ?c) - 1")
      case True
      with \<open>?c \<noteq> [] \<and> last ?c = 13\<close> t assms show ?thesis
        by (simp add: finish_line_def line_of_bytes_def Let_def progress_of_def saturating_sub_def)
    next
      case False
      with limit_small(2) have "length ?c \<le> ?n + 1" by simp
      with small False \<open>?c \<noteq> [] \<and> last ?c = 13\<close> t assms show ?thesis
        by (simp add: finish_line_def line_of_bytes_def Let_def progress_of_def saturating_sub_def
            split: option.split)
    qed
  next
    case nt: False
    then have t: "lp_last (progress_of ?c) \<noteq> Some 13" by (auto simp: progress_of_def)
    show ?thesis
    proof (cases "?n < min usize_max (length ?c)")
      case True
      with nt t assms show ?thesis
        by (auto simp: finish_line_def line_of_bytes_def Let_def progress_of_def saturating_sub_def)
    next
      case False
      with limit_small(2) have "length ?c \<le> ?n + 1" by simp
      with small False nt t assms show ?thesis
        by (auto simp: finish_line_def line_of_bytes_def Let_def progress_of_def saturating_sub_def
            split: option.split)
    qed
  qed
qed

lemma read_line_bytes:
  assumes "unbroken src"
  shows "fst (read_bounded_protocol_line src) = Inr (line_of_bytes (source_bytes src)) \<and>
         unbroken (snd (read_bounded_protocol_line src)) \<and>
         source_bytes (snd (read_bounded_protocol_line src)) = after_line (source_bytes src)"
proof (cases "src = []")
  case True
  then show ?thesis
    by (simp add: read_bounded_protocol_line_def no_progress_def line_of_bytes_def after_line_def)
next
  case False
  with assms have "source_bytes src \<noteq> []" by (cases src; cases "hd src") auto
  from finish_progress [OF this] line_loop_first [OF assms False] show ?thesis
    by (cases "line_loop src no_progress") (simp add: read_bounded_protocol_line_def)
qed

text \<open>Whatever the source, the loop never keeps more than one byte above the limit.\<close>

lemma loop_retains_little:
  assumes "fst (line_loop src p) = Inr (Some q)" "length (lp_stored p) \<le> max_protocol_line_bytes + 1"
  shows "length (lp_stored q) \<le> max_protocol_line_bytes + 1"
  using assms
proof (induction src p rule: line_loop.induct)
  case (3 available r p)
  have "length (lp_stored (absorb_content c p)) \<le> max_protocol_line_bytes + 1" for c
    using 3(3) by (auto simp: absorb_content_eq)
  with 3 show ?case by (auto simp: Let_def split: if_splits)
qed (auto split: if_splits)

section \<open>The reader thread\<close>

datatype input_event = LineIn rstr | ErrorIn rstr | TimeoutIn

text \<open>
  The thread sends every well-formed line, drops the others and ends with the input or with an
  error. A source of \<open>n\<close> fills gives at most as many lines as it has bytes and fills.
\<close>

definition source_size :: "byte_source \<Rightarrow> nat" where
  "source_size src = sum_list (map (\<lambda>c. case c of Inl e \<Rightarrow> 1 | Inr b \<Rightarrow> Suc (length b)) src)"

lemma source_size_simps [simp]:
  "source_size [] = 0" "source_size (Inl e # r) = Suc (source_size r)"
  "source_size (Inr b # r) = Suc (length b) + source_size r"
  by (simp_all add: source_size_def)

lemma line_loop_shrinks:
  "fst (line_loop src p) = Inr (Some q) \<Longrightarrow> \<not> lp_saw_input p \<Longrightarrow>
   source_size (snd (line_loop src p)) < source_size src"
  and line_loop_no_longer: "source_size (snd (line_loop src p)) \<le> source_size src"
proof -
  show le: "source_size (snd (line_loop src p)) \<le> source_size src" for src p
    by (induction src p rule: line_loop.induct) (auto simp: Let_def le_SucI trans_le_add2)
  show "fst (line_loop src p) = Inr (Some q) \<Longrightarrow> \<not> lp_saw_input p \<Longrightarrow>
   source_size (snd (line_loop src p)) < source_size src"
  proof (induction src p rule: line_loop.induct)
    case (3 available r p)
    from le [of r] show ?case
      by (cases "10 \<in> set available") (use 3(2,3) in \<open>auto simp: Let_def le_imp_less_Suc trans_le_add2\<close>)
  qed auto
qed

lemma read_line_shrinks:
  "read_bounded_protocol_line src = (Inr (Some l), r) \<Longrightarrow> source_size r < source_size src"
  using line_loop_shrinks [of src no_progress]
  by (cases "line_loop src no_progress")
    (auto simp: read_bounded_protocol_line_def no_progress_def split: sum.splits option.splits)

function input_thread :: "byte_source \<Rightarrow> input_event list" where
  "input_thread src =
     (case read_bounded_protocol_line src of
        (Inl e, r) \<Rightarrow> [ErrorIn e]
      | (Inr None, r) \<Rightarrow> []
      | (Inr (Some l), r) \<Rightarrow>
          (case l of Line s \<Rightarrow> LineIn s # input_thread r | _ \<Rightarrow> input_thread r))"
  by pat_completeness auto
termination
  by (relation "measure source_size") (auto dest: sym [THEN read_line_shrinks] simp: read_line_shrinks)

declare input_thread.simps [simp del]

text \<open>The lines of a byte string, as they are to be accepted.\<close>

function byte_lines :: "nat list \<Rightarrow> nat list list" where
  "byte_lines bytes = (if bytes = [] then [] else line_content bytes # byte_lines (after_line bytes))"
  by pat_completeness auto
termination
  by (relation "measure length") (auto simp: after_line_def)

declare byte_lines.simps [simp del]

definition strip_cr :: "nat list \<Rightarrow> nat list" where
  "strip_cr l = (if l \<noteq> [] \<and> last l = 13 then butlast l else l)"

definition accepted_line :: "nat list \<Rightarrow> rstr option" where
  "accepted_line l =
     (if length (strip_cr l) \<le> max_protocol_line_bytes then from_utf8 (strip_cr l) else None)"

lemma line_of_bytes_accepted:
  assumes "bytes \<noteq> []"
  shows "(case line_of_bytes bytes of Some (Line s) \<Rightarrow> Some s | _ \<Rightarrow> None) =
           accepted_line (line_content bytes) \<and> line_of_bytes bytes \<noteq> None"
  using assms limit_small(2)
  by (auto simp: line_of_bytes_def accepted_line_def strip_cr_def Let_def min_def
      split: option.splits)

lemma input_thread_lines:
  "unbroken src \<Longrightarrow>
   input_thread src = map LineIn (List.map_filter accepted_line (byte_lines (source_bytes src)))"
proof (induction src rule: input_thread.induct)
  case (1 src)
  obtain o' r where rd: "read_bounded_protocol_line src = (o', r)" by fastforce
  from read_line_bytes [OF 1(4)] rd have b: "o' = Inr (line_of_bytes (source_bytes src))"
    "unbroken r" "source_bytes r = after_line (source_bytes src)" by simp_all
  show ?case
  proof (cases "source_bytes src = []")
    case True
    with b rd show ?thesis
      by (simp add: input_thread.simps [of src] byte_lines.simps [of "[]"] line_of_bytes_def
          List.map_filter_def)
  next
    case False
    from line_of_bytes_accepted [OF this] obtain l where l: "line_of_bytes (source_bytes src) = Some l"
      "(case l of Line s \<Rightarrow> Some s | _ \<Rightarrow> None) = accepted_line (line_content (source_bytes src))"
      by (cases "line_of_bytes (source_bytes src)") auto
have ih: "input_thread r = map LineIn (List.map_filter accepted_line (byte_lines (source_bytes r)))"
      using 1(1-3) rd b l by (cases l) simp_all
    show ?thesis
      using rd b l ih False
      by (cases l) (simp_all add: input_thread.simps [of src] byte_lines.simps [of "source_bytes src"]
          List.map_filter_def flip: l(2))
  qed
qed

section \<open>Commands from the line channel\<close>

definition parse_input_line :: "rstr \<Rightarrow> command option" where
  "parse_input_line line0 =
     (let line = trim line0
      in if line = [] then None
         else case parse_command line of Inr cmd \<Rightarrow> Some cmd | Inl e \<Rightarrow> None)"

fun receive_command :: "input_event list \<Rightarrow> (rstr + command option) \<times> input_event list" where
  "receive_command [] = (Inr None, [])"
| "receive_command (LineIn l # r) =
     (case parse_input_line l of Some cmd \<Rightarrow> (Inr (Some cmd), r) | None \<Rightarrow> receive_command r)"
| "receive_command (ErrorIn e # r) = (Inl e, r)"
| "receive_command (TimeoutIn # r) = receive_command r"

text \<open>Times are milliseconds.\<close>

definition presentation_coalesce_quiet_window :: nat where "presentation_coalesce_quiet_window = 20"
definition presentation_coalesce_max_window :: nat where "presentation_coalesce_max_window = 80"

definition replaceable_coalescing_deadline :: "nat \<Rightarrow> nat \<Rightarrow> nat" where
  "replaceable_coalescing_deadline burst_started now =
     min (now + presentation_coalesce_quiet_window) (burst_started + presentation_coalesce_max_window)"

definition structured_policy_uses_reader_coalescing :: "presentation_delivery_policy \<Rightarrow> bool" where
  "structured_policy_uses_reader_coalescing p \<longleftrightarrow> p = Replaceable"

definition begin_keyed_cancellation ::
    "timeline_document \<Rightarrow> cancellation_registry \<Rightarrow> keyed_lease option \<times> cancellation_registry" where
  "begin_keyed_cancellation t r =
     (case domain_from_timeline t of
        None \<Rightarrow> (None, r)
      | Some d \<Rightarrow> let (l, r') = prepare_lease d r in (Some l, r'))"

datatype timed_command = TimedCommand command | TimedOut | InputClosed

fun receive_command_until ::
    "input_event list \<Rightarrow> (rstr + timed_command) \<times> input_event list" where
  "receive_command_until [] = (Inr InputClosed, [])"
| "receive_command_until (LineIn l # r) =
     (case parse_input_line l of
        Some cmd \<Rightarrow> (Inr (TimedCommand cmd), r)
      | None \<Rightarrow> receive_command_until r)"
| "receive_command_until (ErrorIn e # r) = (Inl e, r)"
| "receive_command_until (TimeoutIn # r) = (Inr TimedOut, r)"

lemma receive_until_shorter:
  "receive_command_until ev = (Inr (TimedCommand cmd), r) \<Longrightarrow> length r < length ev"
  "receive_command_until ev = (x, r) \<Longrightarrow> length r \<le> length ev"
  by (induction ev rule: receive_command_until.induct) (auto split: option.splits)

lemma receive_shorter:
  "receive_command ev = (Inr (Some cmd), r) \<Longrightarrow> length r < length ev"
  "receive_command ev = (x, r) \<Longrightarrow> length r \<le> length ev"
  by (induction ev rule: receive_command.induct) (auto split: option.splits)

section \<open>Structured submissions\<close>

record rejected_submission =
  rj_dispatch_id :: nat
  rj_status :: batch_status

record aborted_submission =
  ab_generation :: nat
  ab_dispatch_id :: nat
  ab_status :: batch_status
  ab_deferred_command :: "command option"
  ab_input_closed :: bool

datatype structured_read =
  ReadPrepared prepared_structured_presentation
| ReadRejected rejected_submission
| ReadUnowned
| ReadAborted aborted_submission

text \<open>What the reader only calls: the codecs, the case classes and the marker preflight.\<close>

record reader_env =
  re_codec :: timeline_codec
  re_classes :: case_classes
  re_preflight :: "nat \<Rightarrow> rstr \<Rightarrow> rstr + unit"

definition command_payload :: "command \<Rightarrow> rstr" where
  "command_payload cmd = (case cmd_args cmd of None \<Rightarrow> [] | Some a \<Rightarrow> a)"

definition layered_native_span :: "native_speech_span \<Rightarrow> bool" where
  "layered_native_span s = (case s of NativeLegacy _ \<Rightarrow> False | _ \<Rightarrow> True)"

definition one_span :: "('s \<Rightarrow> bool) \<Rightarrow> 's list \<Rightarrow> bool" where
  "one_span P spans \<longleftrightarrow> length spans = 1 \<and> P (spans ! 0)"

definition validate_palette_letter :: "timeline_document \<Rightarrow> rstr + unit" where
  "validate_palette_letter t =
     (let valid =
            (case t of
               LayeredDocument d \<Rightarrow>
                 one_span (\<lambda>s. case s of MixedLayered _ \<Rightarrow> True | _ \<Rightarrow> False) (tb_spans d) \<and>
                 tb_actions d = []
             | RichDocument d \<Rightarrow> one_span layered_native_span (tb_spans d) \<and> tb_actions d = []
             | NativeDocument d \<Rightarrow> one_span layered_native_span (tb_spans d) \<and> tb_actions d = []
             | LegacyDocument d \<Rightarrow> False);
          chars = (case span_text t 0 of None \<Rightarrow> [] | Some s \<Rightarrow> s)
      in if valid \<and> document_policy t = Ordered \<and> document_key t = None \<and>
            (case chars of
               [] \<Rightarrow> False
             | c # rest \<Rightarrow> \<not> is_control c \<and> \<not> is_whitespace c \<and> rest = [])
         then Inr ()
         else Inl (lit ''palette letter requires one visible Unicode scalar in one layered span, ordered delivery and no actions''))"

text \<open>The check of the document against the session; \<open>None\<close> is a panic of the text layout.\<close>

definition check_document ::
    "('b) reader_env_scheme \<Rightarrow> timeline_document \<Rightarrow> tts_state \<Rightarrow> 'n logical_voice_registry \<Rightarrow>
     (rstr + unit) option" where
  "check_document env t st voices =
     (let windows = validate_presentation_timeline_v4_action_windows (re_classes env) (re_preflight env);
          check = (\<lambda>valid execution.
            case map_err timeline_error_text valid of
              Inl e \<Rightarrow> Some (Inl e)
            | Inr _ \<Rightarrow> windows execution st)
      in case t of
           LegacyDocument d \<Rightarrow>
             if list_ex (\<lambda>s. case sp_logical_voice_id s of
                               None \<Rightarrow> False | Some i \<Rightarrow> is_engine_layered voices i) (pe_spans d)
             then Some (Inl (lit ''engine-layered definitions require timeline version 5''))
             else validate_presentation_timeline_action_windows (re_classes env) d st
         | RichDocument d \<Rightarrow>
             check (v6_validate_registry d voices) (into_execution (fst (into_execution_parts d)))
         | NativeDocument d \<Rightarrow> check (v5_validate_registry d voices) (into_execution d)
         | LayeredDocument d \<Rightarrow> check (v4_validate_registry d voices) d)"

definition check_presentation ::
    "('b) reader_env_scheme \<Rightarrow> prepared_structured_presentation \<Rightarrow> tts_state \<Rightarrow>
     'n logical_voice_registry \<Rightarrow> (rstr + unit) option" where
  "check_presentation env p st voices =
     (case (if sp_letter p then validate_palette_letter (sp_timeline p) else Inr ()) of
        Inl e \<Rightarrow> Some (Inl e)
      | Inr _ \<Rightarrow> check_document env (sp_timeline p) st voices)"

definition validate_structured_admission ::
    "('b) reader_env_scheme \<Rightarrow> structured_read \<Rightarrow> tts_state \<Rightarrow> 'n logical_voice_registry \<Rightarrow>
     structured_read option" where
  "validate_structured_admission env r st voices =
     (case r of
        ReadPrepared p \<Rightarrow>
          map_option (\<lambda>v. case v of
              Inr _ \<Rightarrow> ReadPrepared p
            | Inl e \<Rightarrow> ReadRejected \<lparr>rj_dispatch_id = document_dispatch_id (sp_timeline p),
                                       rj_status = BatchFailed\<rparr>)
            (check_presentation env p st voices)
      | _ \<Rightarrow> Some r)"

definition prepare_structured_presentation ::
    "('b) reader_env_scheme \<Rightarrow> presentation_generations \<Rightarrow> command \<Rightarrow> structured_read" where
  "prepare_structured_presentation env latest cmd =
     (case prepare_timeline (re_codec env) latest (command_payload cmd) of
        Inr p \<Rightarrow> ReadPrepared (p\<lparr>sp_letter := (cmd_id cmd = EmacsvoxLetter)\<rparr>)
      | Inl rejection \<Rightarrow>
          (case tr_identity rejection of
             None \<Rightarrow> ReadUnowned
           | Some i \<Rightarrow> ReadRejected
               \<lparr>rj_dispatch_id = pi_dispatch_id i,
                rj_status = (case tr_kind rejection of
                               RejectedInvalid \<Rightarrow> BatchFailed | RejectedStale \<Rightarrow> BatchCancelled)\<rparr>))"

text \<open>The end of a complete assembly.\<close>

definition finished_submission ::
    "('b) reader_env_scheme \<Rightarrow> presentation_generations \<Rightarrow> multipart_assembler \<Rightarrow> nat \<Rightarrow> nat \<Rightarrow>
     structured_read" where
  "finished_submission env latest a generation dispatch =
     (let aborted = (\<lambda>status. ReadAborted
            \<lparr>ab_generation = generation, ab_dispatch_id = dispatch, ab_status = status,
             ab_deferred_command = None, ab_input_closed = False\<rparr>)
      in case finish (re_codec env) latest a of
           Inr (Some p) \<Rightarrow> ReadPrepared p
         | Inr None \<Rightarrow> aborted BatchCancelled
         | Inl e \<Rightarrow> aborted BatchFailed)"

definition starts_new_submission :: "command \<Rightarrow> nat \<Rightarrow> nat \<Rightarrow> bool" where
  "starts_new_submission cmd generation dispatch =
     (case start_assembler (command_payload cmd) of
        Inl e \<Rightarrow> False
      | Inr n \<Rightarrow> ma_generation n \<noteq> generation \<or> ma_dispatch_id n \<noteq> dispatch)"

text \<open>The loop over the parts; the outer option is \<open>None\<close> for a panic, \<open>Inl\<close> an input error.\<close>

function submission_loop ::
    "('b) reader_env_scheme \<Rightarrow> presentation_generations \<Rightarrow> tts_state \<Rightarrow> 'n logical_voice_registry \<Rightarrow>
     nat \<Rightarrow> nat \<Rightarrow> multipart_assembler \<Rightarrow> input_event list \<Rightarrow>
     (rstr + structured_read) option \<times> input_event list" where
  "submission_loop env latest st voices generation dispatch a events =
     (let aborted = (\<lambda>status deferred closed. Some (Inr (ReadAborted
            \<lparr>ab_generation = generation, ab_dispatch_id = dispatch, ab_status = status,
             ab_deferred_command = deferred, ab_input_closed = closed\<rparr>)))
      in if is_complete a
         then (map_option Inr (validate_structured_admission env
                 (finished_submission env latest a generation dispatch) st voices), events)
         else case receive_command_until events of
                (Inl e, r) \<Rightarrow> (Some (Inl e), r)
              | (Inr TimedOut, r) \<Rightarrow> (aborted BatchFailed None False, r)
              | (Inr InputClosed, r) \<Rightarrow> (aborted BatchFailed None True, r)
              | (Inr (TimedCommand next), r) \<Rightarrow>
                  if cmd_id next \<noteq> EmacsvoxTimelinePart
                  then (aborted (if cmd_id next = Stop then BatchCancelled else BatchFailed)
                          (Some next) False, r)
                  else case push (command_payload next) a of
                         Inl e \<Rightarrow>
                           (aborted BatchFailed
                              (if starts_new_submission next generation dispatch
                               then Some next else None) False, r)
                       | Inr a' \<Rightarrow>
                           submission_loop env latest st voices generation dispatch a' r)"
  by pat_completeness auto
termination
  by (relation "measure (\<lambda>(env, latest, st, voices, generation, dispatch, a, events). length events)")
    (auto dest: sym [THEN receive_until_shorter(1)] simp: receive_until_shorter(1))

declare submission_loop.simps [simp del]

definition read_structured_submission ::
    "('b) reader_env_scheme \<Rightarrow> presentation_generations \<Rightarrow> command \<Rightarrow> tts_state \<Rightarrow>
     'n logical_voice_registry \<Rightarrow> input_event list \<Rightarrow>
     (rstr + structured_read) option \<times> input_event list" where
  "read_structured_submission env latest first_command st voices events =
     (if cmd_id first_command = EmacsvoxTimeline
      then (map_option Inr (validate_structured_admission env
              (prepare_structured_presentation env latest first_command) st voices), events)
      else case start_assembler (command_payload first_command) of
             Inl e \<Rightarrow> (Some (Inr ReadUnowned), events)
           | Inr a \<Rightarrow>
               submission_loop env latest st voices (ma_generation a) (ma_dispatch_id a) a events)"

text \<open>A whole legacy transaction; a profile the session does not know rejects all of it.\<close>

definition admit_presentation ::
    "('b) reader_env_scheme \<Rightarrow> presentation_generations \<Rightarrow> command \<Rightarrow> tts_state \<Rightarrow>
     prepared_presentation option" where
  "admit_presentation env latest cmd st =
     (case prepare_presentation (re_codec env) latest (command_payload cmd) of
        Inr (Some p) \<Rightarrow>
          if list_ex (\<lambda>cmd. cmd_id cmd = TtsSetPunctuationProfile \<and>
               map_of (pt_profiles (st_punctuation_tables st)) (command_payload cmd) = None)
               (fp_commands p)
          then None else Some p
      | _ \<Rightarrow> None)"

section \<open>What a submission that is read guarantees\<close>

text \<open>A presentation decoded from its frame or its parts, newer than every committed one.\<close>

definition decoded_newer ::
    "timeline_codec \<Rightarrow> presentation_generations \<Rightarrow> prepared_structured_presentation \<Rightarrow> bool" where
  "decoded_newer c latest p \<longleftrightarrow>
     (\<exists>payload declared. decode_timeline_document c payload declared = Inr (sp_timeline p)) \<and>
     sp_generation p = document_generation (sp_timeline p) \<and> latest < sp_generation p"

lemma finish_newer:
  "finish c latest a = Inr (Some p) \<Longrightarrow> decoded_newer c latest p \<and> \<not> sp_letter p"
  by (auto simp: finish_def prepare_decoded_timeline_def decoded_newer_def res_simps split: if_splits)
    blast

lemma prepare_newer:
  "prepare_timeline c latest payload = Inr p \<Longrightarrow> decoded_newer c latest p \<and> \<not> sp_letter p"
  by (auto simp: prepare_timeline_def decoded_newer_def res_simps split: if_splits)
    blast

lemma prepare_structured_newer:
  assumes "prepare_structured_presentation env latest cmd = ReadPrepared p"
  shows "decoded_newer (re_codec env) latest p \<and> (sp_letter p \<longleftrightarrow> cmd_id cmd = EmacsvoxLetter)"
proof -
  from assms obtain q where q: "prepare_timeline (re_codec env) latest (command_payload cmd) = Inr q"
    "p = q\<lparr>sp_letter := (cmd_id cmd = EmacsvoxLetter)\<rparr>"
    by (auto simp: prepare_structured_presentation_def split: sum.splits option.splits)
  with prepare_newer [OF q(1)] show ?thesis by (simp add: decoded_newer_def)
qed

lemma validated_admission:
  assumes "validate_structured_admission env r st voices = Some (ReadPrepared p)"
  shows "r = ReadPrepared p \<and> check_document env (sp_timeline p) st voices = Some (Inr ()) \<and>
         (sp_letter p \<longrightarrow> validate_palette_letter (sp_timeline p) = Inr ())"
proof -
  from assms obtain q v where q: "r = ReadPrepared q" "check_presentation env q st voices = Some v"
    "(case v of Inr _ \<Rightarrow> ReadPrepared q
      | Inl e \<Rightarrow> ReadRejected \<lparr>rj_dispatch_id = document_dispatch_id (sp_timeline q),
                                rj_status = BatchFailed\<rparr>) = ReadPrepared p"
    by (auto simp: validate_structured_admission_def split: structured_read.splits)
  then have "v = Inr ()" "q = p" by (cases v; simp)+
  with q show ?thesis
    by (auto simp: check_presentation_def split: sum.splits if_splits)
qed

lemma finished_prepared:
  "finished_submission env latest a g d = ReadPrepared p \<Longrightarrow>
   decoded_newer (re_codec env) latest p \<and> \<not> sp_letter p"
  by (auto simp: finished_submission_def Let_def dest: finish_newer split: sum.splits option.splits)

lemma submission_loop_prepared:
  "submission_loop env latest st voices g d a ev = (Some (Inr (ReadPrepared p)), r) \<Longrightarrow>
   decoded_newer (re_codec env) latest p \<and> \<not> sp_letter p \<and>
   check_document env (sp_timeline p) st voices = Some (Inr ())"
proof (induction env latest st voices g d a ev rule: submission_loop.induct)
  case (1 env latest st voices g d a ev)
  show ?case
  proof (cases "is_complete a")
    case True
    with 1(2) obtain x where
      "validate_structured_admission env (finished_submission env latest a g d) st voices = Some x"
      "x = ReadPrepared p"
      by (auto simp: submission_loop.simps [of env])
    with validated_admission [of env _ st voices p] finished_prepared show ?thesis by blast
  next
    case False
    obtain x r' where rc: "receive_command_until ev = (x, r')" by fastforce
    with 1(2) False obtain cmd where cmd: "x = Inr (TimedCommand cmd)" "cmd_id cmd = EmacsvoxTimelinePart"
      by (auto simp: submission_loop.simps [of env] Let_def
          split: sum.splits timed_command.splits if_splits)
    with 1(2) False rc obtain a' where a': "push (command_payload cmd) a = Inr a'"
      "submission_loop env latest st voices g d a' r' = (Some (Inr (ReadPrepared p)), r)"
      by (auto simp: submission_loop.simps [of env] Let_def split: sum.splits)
    from 1(1) [OF _ False rc [symmetric] cmd(1) refl _ a'(1)] cmd(2) a'(2) show ?thesis by blast
  qed
qed

lemma read_submission_prepared:
  assumes "read_structured_submission env latest cmd st voices ev = (Some (Inr (ReadPrepared p)), r)"
  shows "decoded_newer (re_codec env) latest p \<and>
         (sp_letter p \<longrightarrow> validate_palette_letter (sp_timeline p) = Inr ()) \<and>
         check_document env (sp_timeline p) st voices = Some (Inr ())"
proof (cases "cmd_id cmd = EmacsvoxTimeline")
  case True
  with assms validated_admission [of env _ st voices p]
    prepare_structured_newer [of env latest cmd p] show ?thesis
    by (fastforce simp: read_structured_submission_def)
next
  case False
  with assms show ?thesis
    by (auto simp: read_structured_submission_def dest: submission_loop_prepared split: sum.splits)
qed

text \<open>The commands still in the channel, and the one a read hands on.\<close>

definition parsed_commands :: "input_event list \<Rightarrow> command list" where
  "parsed_commands ev =
     List.map_filter (\<lambda>e. case e of LineIn l \<Rightarrow> parse_input_line l | _ \<Rightarrow> None) ev"

lemma parsed_commands_simps [simp]:
  "parsed_commands [] = []"
  "parsed_commands (e # ev) =
     (case e of LineIn l \<Rightarrow> (case parse_input_line l of None \<Rightarrow> [] | Some cmd \<Rightarrow> [cmd]) | _ \<Rightarrow> []) @
     parsed_commands ev"
  by (auto simp: parsed_commands_def List.map_filter_def split: input_event.splits option.splits)

lemma receive_until_commands:
  "receive_command_until ev = (x, r) \<Longrightarrow>
   parsed_commands ev =
     (case x of Inr (TimedCommand cmd) \<Rightarrow> [cmd] | _ \<Rightarrow> []) @ parsed_commands r"
  by (induction ev rule: receive_command_until.induct) (auto split: option.splits)

lemma receive_commands:
  "receive_command ev = (Inr x, r) \<Longrightarrow>
   parsed_commands ev = (case x of None \<Rightarrow> [] | Some cmd \<Rightarrow> [cmd]) @ parsed_commands r \<and>
   (x = None \<longrightarrow> parsed_commands ev = [])"
  by (induction ev rule: receive_command.induct) (auto split: option.splits)

definition handed_on :: "(rstr + structured_read) option \<Rightarrow> command list" where
  "handed_on out =
     (case out of
        Some (Inr (ReadAborted ab)) \<Rightarrow>
          (case ab_deferred_command ab of None \<Rightarrow> [] | Some cmd \<Rightarrow> [cmd])
      | _ \<Rightarrow> [])"

text \<open>A part that starts no submission other than the one being read.\<close>

definition ongoing_part :: "nat \<Rightarrow> nat \<Rightarrow> command \<Rightarrow> bool" where
  "ongoing_part generation dispatch cmd \<longleftrightarrow>
     cmd_id cmd = EmacsvoxTimelinePart \<and> \<not> starts_new_submission cmd generation dispatch"

lemma pushed_part:
  assumes "push (command_payload cmd) a = Inr a'"
  shows "\<not> starts_new_submission cmd (ma_generation a) (ma_dispatch_id a) \<and>
    ma_generation a' = ma_generation a \<and> ma_dispatch_id a' = ma_dispatch_id a"
proof -
  from assms obtain part where part: "decode_any_timeline_part (command_payload cmd) = Inr part"
    "push_part part a = Inr a'" by (auto simp: push_def res_simps)
  then have same: "mp_generation part = ma_generation a" "mp_dispatch_id part = ma_dispatch_id a"
    "ma_generation a' = ma_generation a" "ma_dispatch_id a' = ma_dispatch_id a"
    by (auto simp: push_part_def split: if_splits)
  have "ma_generation n = mp_generation part \<and> ma_dispatch_id n = mp_dispatch_id part"
    if "start_assembler (command_payload cmd) = Inr n" for n
    using that part(1) by (auto simp: start_assembler_def res_simps push_part_def split: if_splits)
  with same show ?thesis by (auto simp: starts_new_submission_def split: sum.splits)
qed

lemma handed_on_validated:
  assumes "\<And>ab. r = ReadAborted ab \<Longrightarrow> ab_deferred_command ab = None"
  shows "handed_on (map_option Inr (validate_structured_admission env r st voices)) = []"
  using assms
  by (cases r) (auto simp: validate_structured_admission_def handed_on_def
      split: option.splits sum.splits)

text \<open>
  The commands \<open>taken\<close> from the channel are those of the submission, the one handed on is not.
\<close>

definition divided ::
    "(command \<Rightarrow> bool) \<Rightarrow> input_event list \<Rightarrow> command list \<Rightarrow> input_event list \<Rightarrow> bool" where
  "divided own ev handed r \<longleftrightarrow>
     (\<exists>taken. parsed_commands ev = taken @ handed @ parsed_commands r \<and> list_all own taken \<and>
        list_all (\<lambda>cmd. \<not> own cmd) handed)"

lemma divided_nothing: "parsed_commands ev = parsed_commands r \<Longrightarrow> divided own ev [] r"
  by (auto simp: divided_def)

lemma divided_taken:
  "parsed_commands ev = cmd # parsed_commands r' \<Longrightarrow> own cmd \<Longrightarrow> divided own r' handed r \<Longrightarrow>
   divided own ev handed r"
  unfolding divided_def by (elim exE conjE, rule exI [of _ "cmd # _"]) simp

lemma submission_loop_keeps:
  "submission_loop env latest st voices g d a ev = (out, r) \<Longrightarrow>
   ma_generation a = g \<Longrightarrow> ma_dispatch_id a = d \<Longrightarrow> divided (ongoing_part g d) ev (handed_on out) r"
proof (induction env latest st voices g d a ev rule: submission_loop.induct)
  case (1 env latest st voices g d a ev)
  note loop = submission_loop.simps [of env latest st voices g d a ev]
  show ?case
  proof (cases "is_complete a")
    case True
    have "handed_on (map_option Inr (validate_structured_admission env
        (finished_submission env latest a g d) st voices)) = []"
      by (rule handed_on_validated)
        (auto simp: finished_submission_def Let_def split: sum.splits option.splits)
    with True 1(2) loop show ?thesis by (auto intro: divided_nothing)
  next
    case False
    obtain x r' where rc: "receive_command_until ev = (x, r')" by fastforce
    note seen = receive_until_commands [OF rc]
    consider (part) cmd where "x = Inr (TimedCommand cmd)" "cmd_id cmd = EmacsvoxTimelinePart"
      | (other) "\<nexists>cmd. x = Inr (TimedCommand cmd) \<and> cmd_id cmd = EmacsvoxTimelinePart" by blast
    then show ?thesis
    proof cases
      case other
      with 1(2) False loop rc seen show ?thesis
        by (auto simp: handed_on_def divided_def ongoing_part_def
            split: sum.splits timed_command.splits)
    next
      case part
      show ?thesis
      proof (cases "push (command_payload cmd) a")
        case (Inl e)
        with part False 1(2) loop rc
        have "out = Some (Inr (ReadAborted \<lparr>ab_generation = g, ab_dispatch_id = d,
            ab_status = BatchFailed,
            ab_deferred_command = (if starts_new_submission cmd g d then Some cmd else None),
            ab_input_closed = False\<rparr>))" "r = r'" by simp_all
        with part seen show ?thesis
          unfolding divided_def
          by (intro exI [of _ "if starts_new_submission cmd g d then [] else [cmd]"])
            (simp add: handed_on_def ongoing_part_def)
      next
        case (Inr a')
        note same = pushed_part [OF Inr]
        from Inr part False 1(2) loop rc
        have "submission_loop env latest st voices g d a' r' = (out, r)" by simp
        with 1(1) [OF _ False rc [symmetric] part(1) refl _ Inr] part(2) same 1(3,4)
        have "divided (ongoing_part g d) r' (handed_on out) r" by simp
        moreover have "ongoing_part g d cmd" using part(2) same 1(3,4) by (simp add: ongoing_part_def)
        moreover have "parsed_commands ev = cmd # parsed_commands r'" using seen part(1) by simp
        ultimately show ?thesis by (metis divided_taken)
      qed
    qed
  qed
qed

text \<open>The further commands of the submission that \<open>opening\<close> starts.\<close>

definition of_submission :: "command \<Rightarrow> command \<Rightarrow> bool" where
  "of_submission opening cmd \<longleftrightarrow>
     (case start_assembler (command_payload opening) of
        Inl e \<Rightarrow> False
      | Inr a \<Rightarrow> ongoing_part (ma_generation a) (ma_dispatch_id a) cmd)"

lemma read_submission_keeps:
  assumes "read_structured_submission env latest cmd st voices ev = (out, r)"
  shows "divided (of_submission cmd) ev (handed_on out) r"
proof (cases "cmd_id cmd = EmacsvoxTimeline")
  case True
  have "handed_on (map_option Inr (validate_structured_admission env
      (prepare_structured_presentation env latest cmd) st voices)) = []"
    by (rule handed_on_validated)
      (auto simp: prepare_structured_presentation_def split: sum.splits option.splits)
  with True assms show ?thesis
    by (auto simp: read_structured_submission_def intro: divided_nothing)
next
  case False
  show ?thesis
  proof (cases "start_assembler (command_payload cmd)")
    case (Inl e)
    with False assms show ?thesis
      by (auto simp: read_structured_submission_def handed_on_def intro: divided_nothing)
  next
    case (Inr a)
    with False assms
    have "divided (ongoing_part (ma_generation a) (ma_dispatch_id a)) ev (handed_on out) r"
      by (intro submission_loop_keeps) (simp_all add: read_structured_submission_def)
    moreover have "of_submission cmd = ongoing_part (ma_generation a) (ma_dispatch_id a)"
      using Inr by (auto simp: of_submission_def fun_eq_iff)
    ultimately show ?thesis by simp
  qed
qed

lemma one_char: "(case s of [] \<Rightarrow> False | c # rest \<Rightarrow> P c \<and> rest = []) \<longleftrightarrow> (\<exists>c. s = [c] \<and> P c)"
  by (cases s) auto

lemma palette_letter_text:
  "validate_palette_letter t = Inr () \<Longrightarrow>
   document_policy t = Ordered \<and>
   (\<exists>c. map snd (document_spans t) = [[c]] \<and> \<not> is_control c \<and> \<not> is_whitespace c) \<and>
   document_actions t = []"
  by (cases t)
    (auto simp: validate_palette_letter_def Let_def one_span_def nth_text_def length_Suc_conv
      split: list.splits if_splits)

lemma letter_admission:
  assumes "validate_structured_admission env (prepare_structured_presentation env latest cmd) st voices =
      Some (ReadPrepared p)" "cmd_id cmd = EmacsvoxLetter"
  shows "latest < sp_generation p \<and> document_actions (sp_timeline p) = [] \<and>
    (\<exists>c. map snd (document_spans (sp_timeline p)) = [[c]] \<and> \<not> is_control c \<and> \<not> is_whitespace c)"
  using validated_admission [OF assms(1)] prepare_structured_newer [of env latest cmd p] assms(2)
    palette_letter_text [of "sp_timeline p"]
  by (simp add: decoded_newer_def)

section \<open>Properties\<close>

text \<open>
  C24: the commands the server sees do not depend on how the bytes of its input are buffered: they
  are the lines between newlines, a carriage return at the end removed, that hold at most 524288
  bytes of valid UTF-8. A longer or malformed line is dropped alone, the next one is read in full.
\<close>

theorem input_ignores_buffering:
  assumes "unbroken src"
  shows "input_thread src =
           map LineIn (List.map_filter accepted_line (byte_lines (source_bytes src)))"
  by (rule input_thread_lines [OF assms])

theorem input_ignores_buffering_witness:
  "input_thread [Inr [115], Inr [13], Inr [10, 255, 10], Inr [100, 10, 108]] =
     [LineIn (lit ''s''), LineIn (lit ''d''), LineIn (lit ''l'')]"
proof -
  have "unbroken [Inr [115], Inr [13], Inr [10, 255, 10], Inr [100, 10, 108]]" by simp
  from input_ignores_buffering [OF this] show ?thesis
    by (simp add: byte_lines.simps line_content_def after_line_def accepted_line_def strip_cr_def
        max_protocol_line_bytes_def from_utf8.simps utf8_sequence_def List.map_filter_def lit_Cons)
qed

text \<open>
  C25: reading a structured submission, whatever arrives while its parts are awaited, loses no
  command: those it takes from the channel are parts that start no other submission, and the one
  that aborts it, be it a stop, another command or the first part of the next submission, is handed
  on to be handled next, before everything that is still in the channel.
\<close>

theorem submission_loses_no_command:
  "\<exists>taken. parsed_commands events =
      taken @
      handed_on (fst (read_structured_submission env latest cmd st voices events)) @
      parsed_commands (snd (read_structured_submission env latest cmd st voices events)) \<and>
    list_all (of_submission cmd) taken \<and>
    list_all (\<lambda>next. \<not> of_submission cmd next)
      (handed_on (fst (read_structured_submission env latest cmd st voices events)))"
  using read_submission_keeps [of env latest cmd st voices events]
  unfolding divided_def by (metis prod.collapse)

text \<open>
  C26: a submission that is read as prepared, from one frame or from parts, was decoded into a
  sound document with a generation above every committed one, and has passed the registry and
  action-window checks of the session as it is.
\<close>

theorem prepared_submission_admitted:
  assumes "read_structured_submission env latest cmd st voices events =
             (Some (Inr (ReadPrepared p)), rest)"
  shows "latest < document_generation (sp_timeline p) \<and>
         structure_ok (document_spans (sp_timeline p)) (document_actions (sp_timeline p)) \<and>
         check_document env (sp_timeline p) st voices = Some (Inr ())"
proof -
  from read_submission_prepared [OF assms] have d: "decoded_newer (re_codec env) latest p"
    "check_document env (sp_timeline p) st voices = Some (Inr ())" by blast+
  then obtain payload declared where
    "decode_timeline_document (re_codec env) payload declared = Inr (sp_timeline p)"
    by (auto simp: decoded_newer_def)
  from validated_document [OF decoded_document_validates [OF this]] d show ?thesis
    by (simp add: decoded_newer_def)
qed

definition sample_env :: reader_env where
  "sample_env =
     \<lparr>re_codec = sample_codec\<lparr>read_version := \<lambda>_. Inr 1, read_envelope := \<lambda>_. Inr sample_envelope\<rparr>,
      re_classes = ascii_classes, re_preflight = \<lambda>_ _. Inr ()\<rparr>"

abbreviation sample_submission_command :: command where
  "sample_submission_command \<equiv> \<lparr>cmd_id = EmacsvoxTimeline, cmd_args = Some (lit ''AAAA'')\<rparr>"

lemma sample_unbraced: "unbrace_payload (lit ''AAAA'') = lit ''AAAA''" "str_len (lit ''AAAA'') = 4"
  by (simp_all add: unbrace_payload_def trim_def trim_start_def trim_end_def is_whitespace_def
      lit_Cons utf8_len_def)

lemma sample_decoded:
  "decode_timeline_document (re_codec sample_env) (lit ''AAAA'') None = Inr (LegacyDocument sample_envelope)"
proof -
  let ?c = "re_codec sample_env"
  have c: "base64_decode ?c = (\<lambda>_. Inr [0, 0, 0])" "read_version ?c = (\<lambda>_. Inr 1)"
    "read_envelope ?c = (\<lambda>_. Inr sample_envelope)"
    by (simp_all add: sample_env_def sample_codec_def)
  have "document_version_of ?c (lit ''AAAA'') None = Inr 1"
    by (simp add: document_version_of_def c sample_unbraced limit_def div_ceil_def max_timeline_payload_bytes_def
        max_timeline_encoded_bytes_def)
  then show ?thesis
    by (simp add: decode_timeline_document_def c sample_unbraced decode_presentation_timeline_def
        decode_presentation_timeline_with_identity_def decode_presentation_timeline_document_def
        sample_validated max_timeline_payload_bytes_def max_timeline_encoded_bytes_def map_ok_def)
qed

lemma sample_read:
  "read_structured_submission sample_env 0 sample_submission_command plain_state
     sample_voice_registry [] =
   (Some (Inr (ReadPrepared \<lparr>sp_generation = 1, sp_timeline = LegacyDocument sample_envelope,
      sp_letter = False\<rparr>)), [])"
proof -
  have "check_document sample_env (LegacyDocument sample_envelope) plain_state sample_voice_registry =
      Some (Inr ())"
    using sample_admitted
    by (simp add: check_document_def sample_env_def) (simp add: sample_envelope_def sample_span_def)
  then show ?thesis
    by (simp add: read_structured_submission_def prepare_structured_presentation_def
        prepare_timeline_def command_payload_def sample_decoded validate_structured_admission_def
        check_presentation_def) (simp add: sample_envelope_def)
qed

theorem prepared_submission_admitted_witness:
  "structure_ok (document_spans (LegacyDocument sample_envelope)) (pe_actions sample_envelope)"
  using prepared_submission_admitted [OF sample_read] by simp

end
