(* ===== verification/Session_Commands.thy ===== *)
theory Session_Commands
  imports Voice_Previews Presentation_Preparation Protocol_Input
begin

text \<open>
  The commands of a session (\<open>handle_command\<close> in \<open>omnivox-cli/src/server.rs\<close>): settings,
  accumulation and dispatch of legacy batches, interrupting commands, previews and control
  requests. \<open>session\<close> holds the local variables of \<open>run_server\<close> with the shared structures they
  reach; what the host is told to do and what is written to standard output are kept in order.

  The generation counter is a natural number: \<open>2 ^ 64\<close> interrupting commands are out of reach. The
  counter the workers read is written in \<open>interrupt\<close> only and equals \<open>se_gen\<close>.
\<close>

section \<open>Settings\<close>

text \<open>An argument that is present and read without an error changes the state.\<close>

definition with_arg :: "command \<Rightarrow> (rstr \<Rightarrow> 's \<Rightarrow> 's) \<Rightarrow> 's \<Rightarrow> 's" where
  "with_arg cmd f s = (case cmd_args cmd of None \<Rightarrow> s | Some a \<Rightarrow> f a s)"

definition with_float :: "command \<Rightarrow> (f32 \<Rightarrow> tts_state \<Rightarrow> tts_state) \<Rightarrow> tts_state \<Rightarrow> tts_state" where
  "with_float cmd f =
     with_arg cmd (\<lambda>a s. case parse_finite_float a of Inl e \<Rightarrow> s | Inr x \<Rightarrow> f x s)"

definition set_level :: "rstr \<Rightarrow> tts_state \<Rightarrow> tts_state" where
  "set_level a s =
     (case parse_punctuation_level a of
        None \<Rightarrow> s
      | Some l \<Rightarrow> s\<lparr>st_punctuation_level := l, st_punctuation_profile := None\<rparr>)"

definition sync_state :: "rstr \<Rightarrow> tts_state \<Rightarrow> tts_state" where
  "sync_state a s =
     (let parts = split_whitespace a
      in if length parts < 4 then s
         else let s1 = (set_level (parts ! 0) s)\<lparr>st_split_caps := (parts ! 1 = lit ''1'')\<rparr>
              in case parse_finite_float (parts ! 3) of
                   Inl e \<Rightarrow> s1 | Inr r \<Rightarrow> s1\<lparr>st_speech_rate := normalize_rate r\<rparr>)"

definition set_speech_channel :: "rstr \<Rightarrow> tts_state \<Rightarrow> tts_state" where
  "set_speech_channel a s =
     (case parse_channel_mode a of
        None \<Rightarrow> s
      | Some m \<Rightarrow> s\<lparr>st_speech_routing := (st_speech_routing s)\<lparr>ar_channel_mode := m\<rparr>\<rparr>)"

definition known_profile :: "rstr \<Rightarrow> tts_state \<Rightarrow> bool" where
  "known_profile p s \<longleftrightarrow> map_of (pt_profiles (st_punctuation_tables s)) p \<noteq> None"

definition select_profile :: "rstr \<Rightarrow> tts_state \<Rightarrow> tts_state" where
  "select_profile p s = s\<lparr>st_punctuation_profile := Some p\<rparr>"

text \<open>The arms that only change the settings; every other command leaves them alone.\<close>

definition settings_command :: "command \<Rightarrow> tts_state \<Rightarrow> tts_state" where
  "settings_command cmd s =
     (case cmd_id cmd of
        TtsSetSpeechRate \<Rightarrow> with_float cmd (\<lambda>r s. s\<lparr>st_speech_rate := normalize_rate r\<rparr>) s
      | TtsSetVoice \<Rightarrow> with_arg cmd (\<lambda>a s. s\<lparr>st_current_voice := a\<rparr>) s
      | TtsSetPitchMultiplier \<Rightarrow> with_float cmd (\<lambda>x s. s\<lparr>st_pitch_multiplier := x\<rparr>) s
      | TtsSetVoiceVolume \<Rightarrow> with_float cmd (\<lambda>x s. s\<lparr>st_voice_volume := x\<rparr>) s
      | TtsSetToneVolume \<Rightarrow> with_float cmd (\<lambda>x s. s\<lparr>st_tone_volume := x\<rparr>) s
      | TtsSetSoundVolume \<Rightarrow> with_float cmd (\<lambda>x s. s\<lparr>st_sound_volume := x\<rparr>) s
      | TtsSetCharacterScale \<Rightarrow> with_float cmd (\<lambda>x s. s\<lparr>st_character_scale := x\<rparr>) s
      | TtsSplitCaps \<Rightarrow> with_arg cmd (\<lambda>a s. s\<lparr>st_split_caps := (a = lit ''1'')\<rparr>) s
      | TtsSetCapitalizationPresentation \<Rightarrow>
          with_arg cmd (\<lambda>a s. case parse_capitalization a of
            None \<Rightarrow> s | Some p \<Rightarrow> s\<lparr>st_capitalization_presentation := p\<rparr>) s
      | TtsSetPunctuations \<Rightarrow> with_arg cmd set_level s
      | TtsSyncState \<Rightarrow> with_arg cmd sync_state s
      | TtsSetSpeechChannel \<Rightarrow> with_arg cmd set_speech_channel s
      | _ \<Rightarrow> s)"

definition deprecated_reply :: "command_id \<Rightarrow> ('l, 's) control_response_envelope option" where
  "deprecated_reply c =
     map_option
       (\<lambda>(name, replacement). error_response None UnsupportedOperation
          (lit ''deprecated command '' @ lit name @ lit '' is unsupported; '' @ lit replacement))
       (case c of
          SetLang \<Rightarrow> Some (''set_lang'', ''register language-aware logical voices'')
        | SetNextLang \<Rightarrow> Some (''set_next_lang'', ''select a language-aware logical voice'')
        | SetPreviousLang \<Rightarrow> Some (''set_previous_lang'', ''select a language-aware logical voice'')
        | SetPreferredLang \<Rightarrow>
            Some (''set_preferred_lang'', ''configure logical-voice language selectors'')
        | TtsSetNotificationChannel \<Rightarrow>
            Some (''tts_set_notification_channel'',
              ''start a separate Omnivox process with OMNIVOX_AUDIO_TARGET'')
        | _ \<Rightarrow> None)"

section \<open>Legacy batches\<close>

definition queue_pending_item :: "queue_item \<Rightarrow> pending_batch \<Rightarrow> pending_batch" where
  "queue_pending_item item b = snd (pending_push item b)"

text \<open>The item an accumulation command queues, if its argument is well formed.\<close>

definition pending_item :: "rstr option \<Rightarrow> command \<Rightarrow> queue_item option" where
  "pending_item home cmd =
     (case cmd_args cmd of
        None \<Rightarrow> None
      | Some a \<Rightarrow>
          (case cmd_id cmd of
             Queue \<Rightarrow> Some (SpeechItem a)
           | Code \<Rightarrow> Some (CodeItem a)
           | command_id.Tone \<Rightarrow>
               (case parse_tone_arguments a of
                  Inl e \<Rightarrow> None
                | Inr t \<Rightarrow> Some (ToneItem (tc_frequency_hz t) (tc_duration_ms t) Independent))
           | EmacsvoxTone \<Rightarrow>
               (case parse_presentation_tone_item a of Inl e \<Rightarrow> None | Inr item \<Rightarrow> Some item)
           | Silence \<Rightarrow>
               (case parse_silence_duration a of Inl e \<Rightarrow> None | Inr d \<Rightarrow> Some (SilenceItem d))
           | AudioIcon \<Rightarrow>
               (case parse_resource_path home a of Inl e \<Rightarrow> None | Inr p \<Rightarrow> Some (AudioIconItem p))
           | _ \<Rightarrow> None))"

text \<open>A dispatch identifier is a positive \<open>u64\<close>.\<close>

definition dispatch_identifier :: "command \<Rightarrow> nat option" where
  "dispatch_identifier cmd =
     Option.bind (Option.bind (cmd_args cmd) parse_u64)
       (\<lambda>i. if 0 < i then Some i else None)"

section \<open>The session\<close>

text \<open>What a command asks of the host: audio and engines to stop, threads to start.\<close>

datatype ('l, 'f) host_action =
  StopSpeech | StopAllAudio | StopEngines
| StartRescan rstr "'f engine_factory"
| StartExplanation nat 'l f32

record ('e, 'f, 'l, 's) session =
  se_settings :: tts_state
  se_pending :: pending_batch
  se_gen :: nat
  se_registries :: control_state
  se_engines :: "('e, 'f) engine_registry"
  se_health :: runtime_health
  se_latest :: presentation_generations
  se_synthesis :: "(native_patch, parameter_catalogue) synthesis_state"
  se_replies :: "('l, 's) control_response_envelope list"
  se_host :: "('l, 'f) host_action list"
  se_exited :: bool

text \<open>
  What the process is started with. The digest of a profile (SHA-256 of its JSON), the status of
  the voice library and of the engine configuration are documents the session only passes on.
\<close>

record ('l, 's) session_env = reader_env +
  en_layout :: "(native_patch, parameter_catalogue) memory_layout"
  en_home :: "rstr option"
  en_version :: rstr
  en_preferred_engine :: rstr
  en_control :: "('l, 's) control_env"
  en_profile_digest :: "punctuation_profile \<Rightarrow> rstr"
  en_library :: "nat \<Rightarrow> engine_descriptor list \<Rightarrow> rstr list \<Rightarrow> 's"
  en_configuration :: "nat \<Rightarrow> engine_descriptor list \<Rightarrow> 's option"

text \<open>
  What the surroundings decide while a command runs: two readings of the clock, the catalogues the
  cache holds for engines that still run, and the error of a thread that cannot start.
\<close>

record moment =
  mo_now :: nat
  mo_later :: nat
  mo_catalogues :: "parameter_catalogue list"
  mo_spawn_error :: "rstr option"

definition write_reply ::
    "('l, 's) control_response_envelope \<Rightarrow> ('e, 'f, 'l, 's) session \<Rightarrow> ('e, 'f, 'l, 's) session" where
  "write_reply e s = s\<lparr>se_replies := se_replies s @ [e]\<rparr>"

definition write_status ::
    "status_record \<Rightarrow> ('e, 'f, 'l, 's) session \<Rightarrow> ('e, 'f, 'l, 's) session" where
  "write_status r s =
     s\<lparr>se_synthesis := (se_synthesis s)\<lparr>sy_written := sy_written (se_synthesis s) @ [r]\<rparr>\<rparr>"

definition disabled_now :: "('e, 'f, 'l, 's) session \<Rightarrow> rstr list" where
  "disabled_now s = disabled_engine_ids (rp_policy (ct_policy (se_registries s)))"

definition cached_catalogues :: "moment \<Rightarrow> ('e, 'f, 'l, 's) session \<Rightarrow> parameter_catalogue list" where
  "cached_catalogues m s =
     filter (\<lambda>c. ca_engine_id c \<notin> set (disabled_now s) \<and>
                 registry_engine (se_engines s) (ca_engine_id c) \<noteq> None) (mo_catalogues m)"

definition captured_routing :: "('e, 'f, 'l, 's) session \<Rightarrow> session_routing" where
  "captured_routing s =
     capture_with_policy (ct_voices (se_registries s)) (se_engines s) (ct_policy (se_registries s))"

definition submit_body ::
    "('l, 's) session_env \<Rightarrow> moment \<Rightarrow> (native_patch, parameter_catalogue) synth_body \<Rightarrow>
     ('e, 'f, 'l, 's) session \<Rightarrow> ('e, 'f, 'l, 's) session" where
  "submit_body env m body s =
     s\<lparr>se_synthesis := snd (enqueue_synthesis (en_layout env) (mo_now m)
         \<lparr>sr_body = body, sr_state = se_settings s, sr_lifecycle = new_lifecycle, sr_gen = se_gen s\<rparr>
         (se_synthesis s))\<rparr>"

definition interrupt :: "bool \<Rightarrow> bool \<Rightarrow> ('e, 'f, 'l, 's) session \<Rightarrow> ('e, 'f, 'l, 's) session" where
  "interrupt stop_speech_only stop_engine s =
     s\<lparr>se_gen := se_gen s + 1,
       se_host := se_host s @ [if stop_speech_only then StopSpeech else StopAllAudio] @
         (if stop_engine then [StopEngines] else [])\<rparr>"

definition cancel_older ::
    "('l, 's) session_env \<Rightarrow> ('e, 'f, 'l, 's) session \<Rightarrow> ('e, 'f, 'l, 's) session" where
  "cancel_older env s =
     s\<lparr>se_synthesis := cancel_queued_synthesis_before (en_layout env) (se_gen s) (se_synthesis s)\<rparr>"

definition clear_pending :: "('e, 'f, 'l, 's) session \<Rightarrow> ('e, 'f, 'l, 's) session" where
  "clear_pending s = s\<lparr>se_pending := pending_clear (se_pending s)\<rparr>"

section \<open>Speech commands\<close>

definition dispatch_pending ::
    "('l, 's) session_env \<Rightarrow> moment \<Rightarrow> ('e, 'f, 'l, 's) session \<Rightarrow> ('e, 'f, 'l, 's) session" where
  "dispatch_pending env m s =
     (if pending_is_empty (se_pending s) then s
      else case pending_take (se_pending s) of
             (Inr items, b) \<Rightarrow>
               let s' = s\<lparr>se_pending := b\<rparr>
               in if items = [] then s'
                  else submit_body env m (SynthBatch items (captured_routing s) None) s'
           | (Inl e, b) \<Rightarrow> s\<lparr>se_pending := b\<rparr>)"

definition dispatch_tracked ::
    "('l, 's) session_env \<Rightarrow> moment \<Rightarrow> (nat \<Rightarrow> dispatch_tracking) \<Rightarrow> command \<Rightarrow>
     ('e, 'f, 'l, 's) session \<Rightarrow> ('e, 'f, 'l, 's) session" where
  "dispatch_tracked env m tracking cmd s =
     (case dispatch_identifier cmd of
        None \<Rightarrow> s
      | Some i \<Rightarrow>
          (case pending_take (se_pending s) of
             (Inr items, b) \<Rightarrow>
               submit_body env m (SynthBatch items (captured_routing s) (Some (tracking i)))
                 (s\<lparr>se_pending := b\<rparr>)
           | (Inl e, b) \<Rightarrow>
               write_status (TrackedLine (tracked_status_record i BatchFailed)) (s\<lparr>se_pending := b\<rparr>)))"

definition speak_now ::
    "('l, 's) session_env \<Rightarrow> moment \<Rightarrow> (rstr \<Rightarrow> session_routing \<Rightarrow>
     (native_patch, parameter_catalogue) synth_body) \<Rightarrow> command \<Rightarrow>
     ('e, 'f, 'l, 's) session \<Rightarrow> ('e, 'f, 'l, 's) session" where
  "speak_now env m body cmd s =
     (case cmd_args cmd of
        None \<Rightarrow> s
      | Some a \<Rightarrow>
          let s' = cancel_older env (interrupt True False s)
          in submit_body env m (body a (captured_routing s')) s')"

definition play_sound ::
    "('l, 's) session_env \<Rightarrow> moment \<Rightarrow> command \<Rightarrow> ('e, 'f, 'l, 's) session \<Rightarrow>
     ('e, 'f, 'l, 's) session" where
  "play_sound env m cmd s =
     (case cmd_args cmd of
        None \<Rightarrow> s
      | Some a \<Rightarrow> (case parse_resource_path (en_home env) a of
                    Inl e \<Rightarrow> s | Inr p \<Rightarrow> submit_body env m (SynthSound p) s))"

definition version_text :: "rstr \<Rightarrow> rstr" where
  "version_text v =
     lit ''Omnivox version '' @ concat (map (\<lambda>c. if c = 46 then lit '' dot '' else [c]) v)"

definition stop_session ::
    "('l, 's) session_env \<Rightarrow> ('e, 'f, 'l, 's) session \<Rightarrow> ('e, 'f, 'l, 's) session" where
  "stop_session env s = clear_pending (cancel_older env (interrupt False True s))"

definition reset_session ::
    "('l, 's) session_env \<Rightarrow> ('e, 'f, 'l, 's) session \<Rightarrow> ('e, 'f, 'l, 's) session" where
  "reset_session env s =
     (let s' = cancel_older env (interrupt False True s)
      in clear_pending (s'\<lparr>se_settings := reset_state (se_settings s')\<rparr>))"

section \<open>Control requests of a live session\<close>

definition profile_descriptors ::
    "('l, 's) session_env \<Rightarrow> tts_state \<Rightarrow> punctuation_profile_descriptor list" where
  "profile_descriptors env st =
     map (\<lambda>(i, p). \<lparr>ppd_id = i, ppd_fallback = pp_fallback p, ppd_sha256 = en_profile_digest env p\<rparr>)
       (pt_profiles (st_punctuation_tables st))"

definition unknown_profile_reply :: "nat option \<Rightarrow> ('l, 's) control_response_envelope" where
  "unknown_profile_reply i =
     error_response i InvalidConfiguration
       (lit ''unknown punctuation profile; current selection unchanged'')"

definition choose_profile ::
    "nat \<Rightarrow> rstr \<Rightarrow> ('e, 'f, 'l, 's) session \<Rightarrow> ('e, 'f, 'l, 's) session" where
  "choose_profile i p s =
     (if known_profile p (se_settings s)
      then write_reply (reply (Some i) (PunctuationProfileSelected p))
             (s\<lparr>se_settings := select_profile p (se_settings s)\<rparr>)
      else write_reply (unknown_profile_reply (Some i)) s)"

text \<open>An accepted preview is queued; a refused one is answered at once.\<close>

definition submit_preview ::
    "('l, 's) session_env \<Rightarrow> moment \<Rightarrow> nat \<Rightarrow> rstr \<Rightarrow> rstr + session_routing \<times> preview_target \<Rightarrow>
     (rstr \<Rightarrow> ('e, 'f, 'l, 's) session \<Rightarrow> ('e, 'f, 'l, 's) session) \<Rightarrow>
     ('e, 'f, 'l, 's) session \<Rightarrow> ('e, 'f, 'l, 's) session" where
  "submit_preview env m i words outcome refuse s =
     (case outcome of
        Inl message \<Rightarrow> refuse message s
      | Inr (routing, target) \<Rightarrow> submit_body env m (SynthPreview i words target routing) s)"

definition refuse_with_error ::
    "nat \<Rightarrow> rstr \<Rightarrow> ('e, 'f, 'l, 's) session \<Rightarrow> ('e, 'f, 'l, 's) session" where
  "refuse_with_error i message =
     write_reply (error_response (Some i) InvalidConfiguration message)"

fun rescan_error_text :: "rescan_error \<Rightarrow> rstr" where
  "rescan_error_text RescanDisabled = lit ''disabled by local engine configuration''"
| "rescan_error_text (RescanUnknown e) = lit ''unknown engine '' @ e"
| "rescan_error_text (RescanInProgress e) =
     lit ''engine '' @ e @ lit '' rescan is already in progress''"
| "rescan_error_text (RescanNoFailure e) =
     lit ''engine '' @ e @ lit '' has no startup failure to rescan''"

fun probe_error_text :: "probe_error \<Rightarrow> rstr" where
  "probe_error_text (NoFailureToRecover e) =
     lit ''engine '' @ e @ lit '' has no runtime failure to recover''"
| "probe_error_text (ProbeInProgress e) =
     lit ''engine '' @ e @ lit '' recovery probe is already in progress''"

text \<open>\<open>EngineRegistry::request_rescan\<close> with the spawn of its thread.\<close>

definition start_rescan ::
    "moment \<Rightarrow> rstr \<Rightarrow> ('e, 'f, 'l, 's) session \<Rightarrow> (rstr + unit) \<times> ('e, 'f, 'l, 's) session" where
  "start_rescan m eid s =
     (case request_rescan eid (se_engines s) of
        Inl e \<Rightarrow> (Inl (rescan_error_text e), s)
      | Inr (factory, engines) \<Rightarrow>
          (case mo_spawn_error m of
             None \<Rightarrow>
               (Inr (), s\<lparr>se_engines := engines, se_host := se_host s @ [StartRescan eid factory]\<rparr>)
           | Some err \<Rightarrow>
               (Inl (lit ''Could not start engine rescan: '' @ err),
                s\<lparr>se_engines :=
                    (case spawn_failed eid err engines of None \<Rightarrow> engines | Some r \<Rightarrow> r)\<rparr>)))"

definition start_probe ::
    "rstr \<Rightarrow> ('e, 'f, 'l, 's) session \<Rightarrow> (rstr + unit) \<times> ('e, 'f, 'l, 's) session" where
  "start_probe eid s =
     (let (outcome, h) = request_probe eid (se_health s)
      in (map_err probe_error_text outcome, s\<lparr>se_health := h\<rparr>))"

text \<open>\<open>registry_snapshot\<close>: the inventory of the registry with the circuits projected on it.\<close>

definition health_snapshot ::
    "nat \<Rightarrow> ('e, 'f, 'l, 's) session \<Rightarrow> inventory_snapshot \<times> ('e, 'f, 'l, 's) session" where
  "health_snapshot now s =
     (let (g, ds) = snapshot_registry (se_engines s);
          (inventory, h) = snapshot_at g ds now (se_health s)
      in (inventory, s\<lparr>se_health := h\<rparr>))"

definition recover_engine ::
    "moment \<Rightarrow> inventory_snapshot \<Rightarrow> nat \<Rightarrow> rstr \<Rightarrow> ('e, 'f, 'l, 's) session \<Rightarrow>
     ('e, 'f, 'l, 's) session" where
  "recover_engine m inventory i eid s =
     (if \<not> list_ex (\<lambda>d. ed_id d = eid) (is_engines inventory)
      then refuse_with_error i (lit ''unknown engine '' @ eid) s
      else if eid \<in> set (disabled_now s)
      then refuse_with_error i
             (lit ''engine '' @ eid @ lit '' is disabled by runtime routing policy'') s
      else case (if registry_engine (se_engines s) eid = None then start_rescan m eid s
                 else start_probe eid s) of
             (Inl message, s') \<Rightarrow> refuse_with_error i message s'
           | (Inr _, s') \<Rightarrow>
               let (later, s'') = health_snapshot (mo_later m) s'
               in write_reply (reply (Some i) (EngineRecoveryProbeRequested
                    (inventory_generation (ct_policy (se_registries s'')) (is_generation later)) eid))
                    s'')"

text \<open>The requests a live server answers itself; \<open>None\<close> hands the payload to the shared dispatch.\<close>

fun live_request ::
    "('l, 's) session_env \<Rightarrow> moment \<Rightarrow> inventory_snapshot \<Rightarrow> nat \<Rightarrow> 'l control_request \<Rightarrow>
     ('e, 'f, 'l, 's) session \<Rightarrow> ('e, 'f, 'l, 's) session option" where
  "live_request env m inventory i GetPunctuationProfiles s =
     Some (write_reply (reply (Some i) (PunctuationProfiles (profile_descriptors env (se_settings s)))) s)"
| "live_request env m inventory i (SetPunctuationProfile p) s = Some (choose_profile i p s)"
| "live_request env m inventory i (ExplainVoiceParameters l) s =
     Some (s\<lparr>se_host := se_host s @ [StartExplanation i l (st_speech_rate (se_settings s))]\<rparr>)"
| "live_request env m inventory i (PreviewVoiceV3 q) s =
     Some (submit_preview env m i (yq_text q)
       (if i = 0 then Inl (lit ''native preview requires a positive request ID'')
        else prepare_voice_preview_v3 (en_control env) q (st_speech_rate (se_settings s))
               (se_engines s) (ct_policy (se_registries s)) (cached_catalogues m s))
       (refuse_with_error i) s)"
| "live_request env m inventory i (PreviewVoiceV2 q) s =
     Some (submit_preview env m i (yq_text q)
       (prepare_voice_preview_v2 (ce_codec (en_control env)) q (st_speech_rate (se_settings s))
          (se_engines s) (ct_policy (se_registries s)))
       (refuse_with_error i) s)"
| "live_request env m inventory i (PreviewVoice q) s =
     Some (submit_preview env m i (vq_text q)
       (prepare_voice_preview q (st_speech_rate (se_settings s)) (se_engines s)
          (ct_policy (se_registries s)))
       (refuse_with_error i) s)"
| "live_request env m inventory i (Preview q) s =
     Some (submit_preview env m i (xq_text q)
       (dispatch_preview q (st_speech_rate (se_settings s))
          (project_disabled (ct_policy (se_registries s)) (is_engines inventory))
          (se_engines s) (ct_policy (se_registries s)))
       (\<lambda>message. write_status (PreviewStatus i BatchFailed (xq_selector q) message)) s)"
| "live_request env m inventory i (RequestEngineRecoveryProbe eid) s =
     Some (recover_engine m inventory i eid s)"
| "live_request env m inventory i request s = None"

definition live_envelope ::
    "('l, 's) session_env \<Rightarrow> rstr \<Rightarrow> 'l control_request_envelope option" where
  "live_envelope env payload =
     (case decode_request (ce_codec (en_control env)) payload of
        Inl e \<Rightarrow> None
      | Inr r \<Rightarrow> if rq_protocol_version r = control_protocol_version then Some r else None)"

fun registers_native :: "'l control_request \<Rightarrow> bool" where
  "registers_native (RegisterLogicalVoicesV3 r) = True"
| "registers_native _ = False"

definition shared_request ::
    "('l, 's) session_env \<Rightarrow> moment \<Rightarrow> inventory_snapshot \<Rightarrow> rstr \<Rightarrow>
     'l control_request_envelope option \<Rightarrow> ('e, 'f, 'l, 's) session \<Rightarrow> ('e, 'f, 'l, 's) session" where
  "shared_request env m inventory payload request s =
     (let engines = is_engines inventory;
          policy = ct_policy (se_registries s);
          generation' = inventory_generation policy (is_generation inventory);
          (runtime, h) = statuses_at engines (disabled_now s) (mo_later m) (se_health s);
          cached = (if pred_option (\<lambda>r. registers_native (rq_request r)) request \<and> request \<noteq> None
                    then cached_catalogues m s else []);
          (response, registries) =
            process_control_request (en_control env)
              \<lparr>cx_server_version = en_version env, cx_inventory_generation = is_generation inventory,
               cx_preferred_engine_id = en_preferred_engine env, cx_engines = engines,
               cx_engine_runtime = runtime,
               cx_voice_library = Some (en_library env generation' engines (disabled_now s)),
               cx_knowledge = map KnownReady cached,
               cx_configuration = en_configuration env generation' engines\<rparr>
              payload (se_registries s)
      in write_reply response (s\<lparr>se_health := h, se_registries := registries\<rparr>))"

definition control_command ::
    "('l, 's) session_env \<Rightarrow> moment \<Rightarrow> command \<Rightarrow> ('e, 'f, 'l, 's) session \<Rightarrow>
     ('e, 'f, 'l, 's) session" where
  "control_command env m cmd s =
     (let (inventory, s') = health_snapshot (mo_now m) s;
          payload = command_payload cmd; request = live_envelope env payload
      in case Option.bind request
                (\<lambda>r. live_request env m inventory (rq_request_id r) (rq_request r) s') of
           Some s'' \<Rightarrow> s''
         | None \<Rightarrow> shared_request env m inventory payload request s')"

section \<open>The command handler\<close>

definition is_settings_command :: "command_id \<Rightarrow> bool" where
  "is_settings_command c \<longleftrightarrow>
     c \<in> {TtsSetSpeechRate, TtsSetVoice, TtsSetPitchMultiplier, TtsSetVoiceVolume, TtsSetToneVolume,
          TtsSetSoundVolume, TtsSetCharacterScale, TtsSplitCaps, TtsSetCapitalizationPresentation,
          TtsSetPunctuations, TtsSyncState, TtsSetSpeechChannel}"

text \<open>The arms that change settings, answer a deprecated command or queue an item.\<close>

definition quiet_command ::
    "('l, 's) session_env \<Rightarrow> command \<Rightarrow> ('e, 'f, 'l, 's) session \<Rightarrow> ('e, 'f, 'l, 's) session" where
  "quiet_command env cmd s =
     (if is_settings_command (cmd_id cmd)
      then s\<lparr>se_settings := settings_command cmd (se_settings s)\<rparr>
      else case deprecated_reply (cmd_id cmd) of
             Some r \<Rightarrow> write_reply r s
           | None \<Rightarrow>
               (case pending_item (en_home env) cmd of
                  Some item \<Rightarrow> s\<lparr>se_pending := queue_pending_item item (se_pending s)\<rparr>
                | None \<Rightarrow> s))"

definition handle_command ::
    "('l, 's) session_env \<Rightarrow> moment \<Rightarrow> command \<Rightarrow> ('e, 'f, 'l, 's) session \<Rightarrow>
     ('e, 'f, 'l, 's) session" where
  "handle_command env m cmd s =
     (case cmd_id cmd of
        Dispatch \<Rightarrow> dispatch_pending env m s
      | EmacsvoxTrackedDispatch \<Rightarrow> dispatch_tracked env m TrackCompletion cmd s
      | EmacsvoxMarkerDispatch \<Rightarrow> dispatch_tracked env m TrackMarkers cmd s
      | Stop \<Rightarrow> stop_session env s
      | TtsSay \<Rightarrow> speak_now env m SynthImmediate cmd s
      | Letter \<Rightarrow> speak_now env m SynthLetter cmd s
      | PlaySound \<Rightarrow> play_sound env m cmd s
      | Version \<Rightarrow>
          submit_body env m (SynthImmediate (version_text (en_version env)) (captured_routing s)) s
      | OmnivoxControl \<Rightarrow> control_command env m cmd s
      | TtsSetPunctuationProfile \<Rightarrow>
          (case cmd_args cmd of
             None \<Rightarrow> s
           | Some p \<Rightarrow>
               if known_profile p (se_settings s)
               then s\<lparr>se_settings := select_profile p (se_settings s)\<rparr>
               else write_reply (unknown_profile_reply None) s)
      | TtsReset \<Rightarrow> reset_session env s
      | TtsExit \<Rightarrow> s\<lparr>se_exited := True\<rparr>
      | _ \<Rightarrow> quiet_command env cmd s)"

section \<open>What every command keeps\<close>

text \<open>Settings a worker can speak with: finite values and a punctuation profile that exists.\<close>

definition settings_ok :: "tts_state \<Rightarrow> tts_state \<Rightarrow> bool" where
  "settings_ok host st \<longleftrightarrow>
     validate_speech_defaults (st_speech_defaults host) = Inr () \<and>
     same_host host st \<and> rate_ok (st_speech_rate st) \<and> is_finite (st_pitch_multiplier st) \<and>
     is_finite (st_voice_volume st) \<and> is_finite (st_tone_volume st) \<and>
     is_finite (st_sound_volume st) \<and> is_finite (st_character_scale st) \<and>
     punctuation_table_of st \<noteq> None"

lemma finite_between: "f32_in (F32_Fin a) (F32_Fin b) x \<Longrightarrow> is_finite x"
  by (cases x) (auto simp: f32_in_def)

lemma normalized_rate_ok: "is_finite r \<Longrightarrow> rate_ok (normalize_rate r)"
  using normalize_rate_range [of r] by (auto simp: rate_ok_def intro: finite_between)

lemma table_of_level [simp]: "st_punctuation_profile st = None \<Longrightarrow> punctuation_table_of st \<noteq> None"
  by (simp add: punctuation_table_of_def)

lemma table_of_cong:
  "st_punctuation_profile s = st_punctuation_profile t \<Longrightarrow>
   st_punctuation_tables s = st_punctuation_tables t \<Longrightarrow>
   (punctuation_table_of s \<noteq> None) = (punctuation_table_of t \<noteq> None)"
  by (simp add: punctuation_table_of_def split: option.split)

lemma settings_reset:
  assumes "settings_ok host st"
  shows "settings_ok host (reset_state st)"
proof -
  have "st_speech_defaults st = st_speech_defaults host"
    using assms(1) by (simp add: settings_ok_def same_host_def)
  moreover have "same_host host (reset_state st)"
    using assms same_host_trans [OF _ same_host_reset] by (simp add: settings_ok_def)
  ultimately show ?thesis
    using assms
    by (auto simp: settings_ok_def rate_ok_def validate_speech_defaults_def res_simps split: if_splits)
qed

lemma settings_reset_host: "settings_ok host st \<Longrightarrow> reset_state st = reset_state host"
  using reset_same_host [of host st] by (simp add: settings_ok_def)

lemma with_arg_ok:
  "settings_ok host s \<Longrightarrow> (\<And>a. settings_ok host (f a s)) \<Longrightarrow> settings_ok host (with_arg cmd f s)"
  by (simp add: with_arg_def split: option.split)

lemma with_float_ok:
  "settings_ok host s \<Longrightarrow> (\<And>x. is_finite x \<Longrightarrow> settings_ok host (f x s)) \<Longrightarrow>
   settings_ok host (with_float cmd f s)"
  by (auto simp: with_float_def with_arg_def dest: parse_finite_float_finite
      split: option.split sum.split)

text \<open>A change of one setting leaves the tables, the profile and the host part alone.\<close>

lemma settings_update [simp]:
  "settings_ok host s \<Longrightarrow> rate_ok r \<Longrightarrow> settings_ok host (s\<lparr>st_speech_rate := r\<rparr>)"
  "settings_ok host s \<Longrightarrow> is_finite x \<Longrightarrow> settings_ok host (s\<lparr>st_pitch_multiplier := x\<rparr>)"
  "settings_ok host s \<Longrightarrow> is_finite x \<Longrightarrow> settings_ok host (s\<lparr>st_voice_volume := x\<rparr>)"
  "settings_ok host s \<Longrightarrow> is_finite x \<Longrightarrow> settings_ok host (s\<lparr>st_tone_volume := x\<rparr>)"
  "settings_ok host s \<Longrightarrow> is_finite x \<Longrightarrow> settings_ok host (s\<lparr>st_sound_volume := x\<rparr>)"
  "settings_ok host s \<Longrightarrow> is_finite x \<Longrightarrow> settings_ok host (s\<lparr>st_character_scale := x\<rparr>)"
  "settings_ok host s \<Longrightarrow> settings_ok host (s\<lparr>st_current_voice := v\<rparr>)"
  "settings_ok host s \<Longrightarrow> settings_ok host (s\<lparr>st_split_caps := b\<rparr>)"
  "settings_ok host s \<Longrightarrow> settings_ok host (s\<lparr>st_capitalization_presentation := c\<rparr>)"
  "settings_ok host s \<Longrightarrow> settings_ok host (s\<lparr>st_speech_routing := a\<rparr>)"
  "settings_ok host s \<Longrightarrow>
   settings_ok host (s\<lparr>st_punctuation_level := l, st_punctuation_profile := None\<rparr>)"
  by (auto simp: settings_ok_def same_host_def punctuation_table_of_def split: option.splits)

lemma settings_select:
  "settings_ok host s \<Longrightarrow> known_profile p s \<Longrightarrow> settings_ok host (select_profile p s)"
  by (auto simp: select_profile_def known_profile_def settings_ok_def same_host_def
      punctuation_table_of_def)

lemma settings_level: "settings_ok host s \<Longrightarrow> settings_ok host (set_level a s)"
  by (simp add: set_level_def split: option.split)

lemma settings_sync: "settings_ok host s \<Longrightarrow> settings_ok host (sync_state a s)"
  by (auto simp: sync_state_def Let_def settings_level normalized_rate_ok
      dest: parse_finite_float_finite split: sum.split)

lemma settings_command_ok: "settings_ok host s \<Longrightarrow> settings_ok host (settings_command cmd s)"
  unfolding settings_command_def
  by (auto split: command_id.split option.split
      intro!: with_arg_ok with_float_ok settings_level settings_sync
      simp: normalized_rate_ok set_speech_channel_def)

section \<open>The session invariant\<close>

definition requests_all ::
    "(('n, 'c) synth_request \<Rightarrow> bool) \<Rightarrow> ('n, 'c) synthesis_state \<Rightarrow> bool" where
  "requests_all P s \<longleftrightarrow> list_all P (map qw_work (entries (sy_queue s)) @ sy_running s)"

lemma enqueue_requests:
  assumes "queue_inv synthesis_queue_limits (sy_queue s)" "requests_all P s" "P (commit_admission now w)"
  shows "requests_all P (snd (enqueue_synthesis ml now w s))"
proof (cases "enqueue_synthesis ml now w s")
  case (Pair ok s')
  show ?thesis
  proof (cases rule: enqueue_cases [OF assms(1) Pair, case_names accepted rejected])
    case (accepted kept gone)
    from accepted(3) have "set kept \<subseteq> set (entries (sy_queue s))"
      by (rule subseq_subset)
    moreover have "sy_running s' = sy_running s" using arg_cong [OF accepted(6), of sy_running] by simp
    ultimately show ?thesis
      using assms(2,3) Pair accepted(2) by (auto simp: requests_all_def list_all_iff)
  qed (use assms Pair in \<open>auto simp: requests_all_def\<close>)
qed

lemma cancel_requests:
  assumes "queue_inv synthesis_queue_limits (sy_queue s)" "requests_all P s"
  shows "requests_all P (cancel_queued_synthesis_before ml g s)"
proof -
  obtain gone q where r: "retire_before_generation (synth_work ml) g (sy_queue s) = (gone, q)"
    by fastforce
  from interrupt_effect [OF assms(1) synthesis_limits_ok r] assms(2) r show ?thesis
    by (auto simp: requests_all_def cancel_queued_synthesis_before_def list_all_iff)
qed

lemma cancel_generation:
  assumes "queue_inv synthesis_queue_limits (sy_queue s)"
  shows "list_all (\<lambda>q. g \<le> sr_gen (qw_work q))
    (entries (sy_queue (cancel_queued_synthesis_before ml g s)))"
proof -
  obtain gone q where r: "retire_before_generation (synth_work ml) g (sy_queue s) = (gone, q)"
    by fastforce
  from interrupt_effect [OF assms synthesis_limits_ok r] r show ?thesis
    by (auto simp: cancel_queued_synthesis_before_def list_all_iff)
qed

text \<open>A request was stamped by now, and its speaking state names a table that exists.\<close>

definition request_ok :: "nat \<Rightarrow> ('n, 'c) synth_request \<Rightarrow> bool" where
  "request_ok g w \<longleftrightarrow> sr_gen w \<le> g \<and> punctuation_table_of (sr_state w) \<noteq> None"

definition session_inv ::
    "tts_state \<Rightarrow> engine_selection_permissions \<Rightarrow> rstr list \<Rightarrow> ('e, 'f, 'l, 's) session \<Rightarrow> bool" where
  "session_inv host perms disabled s \<longleftrightarrow>
     settings_ok host (se_settings s) \<and> pending_ok (se_pending s) \<and>
     control_inv perms disabled (se_registries s) \<and> registry_inv (se_engines s) \<and>
     synthesis_inv (se_synthesis s) \<and> requests_all (request_ok (se_gen s)) (se_synthesis s)"

lemma session_inv_update [simp]:
  "session_inv host perms dis (s\<lparr>se_replies := rs\<rparr>) = session_inv host perms dis s"
  "session_inv host perms dis (s\<lparr>se_host := hs\<rparr>) = session_inv host perms dis s"
  "session_inv host perms dis (s\<lparr>se_health := h\<rparr>) = session_inv host perms dis s"
  "session_inv host perms dis (s\<lparr>se_latest := g\<rparr>) = session_inv host perms dis s"
  "session_inv host perms dis (s\<lparr>se_exited := x\<rparr>) = session_inv host perms dis s"
  "session_inv host perms dis (write_reply e s) = session_inv host perms dis s"
  "session_inv host perms dis (write_status r s) = session_inv host perms dis s"
  by (simp_all add: session_inv_def write_reply_def write_status_def requests_all_def
      synthesis_inv_def live_leases_def)

lemma session_inv_pending [intro]:
  "session_inv host perms dis s \<Longrightarrow> pending_ok b \<Longrightarrow> session_inv host perms dis (s\<lparr>se_pending := b\<rparr>)"
  by (simp add: session_inv_def)

lemma session_inv_settings [intro]:
  "session_inv host perms dis s \<Longrightarrow> settings_ok host st \<Longrightarrow>
   session_inv host perms dis (s\<lparr>se_settings := st\<rparr>)"
  by (simp add: session_inv_def)

lemma request_ok_commit [simp]: "request_ok g (commit_admission now w) = request_ok g w"
  by (simp add: request_ok_def commit_admission_def)

lemma requests_all_mono:
  "requests_all P s \<Longrightarrow> (\<And>w. P w \<Longrightarrow> Q w) \<Longrightarrow> requests_all Q s"
  by (auto simp: requests_all_def list_all_iff)

lemma request_ok_mono: "request_ok g w \<Longrightarrow> g \<le> g' \<Longrightarrow> request_ok g' w"
  by (simp add: request_ok_def)

lemma submit_body_inv:
  assumes "session_inv host perms dis s" "body_lease body = None"
  shows "session_inv host perms dis (submit_body env m body s)"
proof -
  let ?w = "\<lparr>sr_body = body, sr_state = se_settings s, sr_lifecycle = new_lifecycle, sr_gen = se_gen s\<rparr>"
  from assms have inv: "synthesis_inv (se_synthesis s)" "requests_all (request_ok (se_gen s)) (se_synthesis s)"
    and ok: "request_ok (se_gen s) ?w"
    by (simp_all add: session_inv_def request_ok_def settings_ok_def)
  from assms(2) inv(1) have "submittable ?w (se_synthesis s)"
    by (simp add: submittable_def synthesis_inv_def request_lease_def)
  from enqueue_inv [OF inv(1) this] enqueue_requests [OF _ inv(2)] ok inv(1) assms(1) show ?thesis
    by (simp add: session_inv_def submit_body_def synthesis_inv_def)
qed

lemma interrupted_inv:
  assumes "session_inv host perms dis s"
  shows "session_inv host perms dis (cancel_older env (interrupt a b s))"
proof -
  from assms have "synthesis_inv (se_synthesis s)"
    "requests_all (request_ok (se_gen s + 1)) (se_synthesis s)"
    using requests_all_mono [of "request_ok (se_gen s)" "se_synthesis s" "request_ok (se_gen s + 1)"]
    by (auto simp: session_inv_def request_ok_def)
  with retire_keeps_inv cancel_requests assms show ?thesis
    by (fastforce simp: session_inv_def cancel_older_def interrupt_def synthesis_inv_def)
qed

lemma taken_inv:
  "session_inv host perms dis s \<Longrightarrow> pending_take (se_pending s) = (x, b) \<Longrightarrow>
   session_inv host perms dis (s\<lparr>se_pending := b\<rparr>)"
  using pending_ok_take [of "se_pending s"] by (auto simp: session_inv_def)

lemma dispatch_pending_inv:
  "session_inv host perms dis s \<Longrightarrow> session_inv host perms dis (dispatch_pending env m s)"
  by (auto simp: dispatch_pending_def Let_def intro!: submit_body_inv dest: taken_inv
      split: prod.split sum.split)

lemma dispatch_tracked_inv:
  "session_inv host perms dis s \<Longrightarrow> session_inv host perms dis (dispatch_tracked env m t cmd s)"
  by (auto simp: dispatch_tracked_def intro!: submit_body_inv dest: taken_inv
      split: option.split prod.split sum.split)

lemma clear_pending_inv:
  "session_inv host perms dis s \<Longrightarrow> session_inv host perms dis (clear_pending s)"
  by (simp add: clear_pending_def session_inv_pending)

lemma stop_session_inv:
  "session_inv host perms dis s \<Longrightarrow> session_inv host perms dis (stop_session env s)"
  by (simp add: stop_session_def clear_pending_inv interrupted_inv)

lemma reset_session_inv:
  assumes "session_inv host perms dis s"
  shows "session_inv host perms dis (reset_session env s)"
proof -
  have "session_inv host perms dis (cancel_older env (interrupt False True s))"
    by (rule interrupted_inv [OF assms])
  then show ?thesis
    unfolding reset_session_def Let_def
    by (intro clear_pending_inv session_inv_settings settings_reset)
      (simp_all add: session_inv_def)
qed

lemma speak_now_inv:
  assumes "session_inv host perms dis s" "\<And>a r. body_lease (body a r) = None"
  shows "session_inv host perms dis (speak_now env m body cmd s)"
  using assms by (simp add: speak_now_def Let_def submit_body_inv interrupted_inv split: option.split)

lemma play_sound_inv:
  "session_inv host perms dis s \<Longrightarrow> session_inv host perms dis (play_sound env m cmd s)"
  by (simp add: play_sound_def submit_body_inv split: option.split sum.split)

lemma submit_preview_inv:
  assumes "session_inv host perms dis s" "\<And>message. session_inv host perms dis (refuse message s)"
  shows "session_inv host perms dis (submit_preview env m i words outcome refuse s)"
  using assms by (auto simp: submit_preview_def submit_body_inv split: sum.split)

lemma refuse_with_error_inv [simp]:
  "session_inv host perms dis (refuse_with_error i message s) = session_inv host perms dis s"
  by (simp add: refuse_with_error_def)

lemma choose_profile_inv:
  "session_inv host perms dis s \<Longrightarrow> session_inv host perms dis (choose_profile i p s)"
  by (auto simp: choose_profile_def intro!: session_inv_settings settings_select)
    (simp add: session_inv_def)

lemma health_snapshot_same:
  "health_snapshot now s = (x, s') \<Longrightarrow> \<exists>h. s' = s\<lparr>se_health := h\<rparr>"
  by (auto simp: health_snapshot_def split: prod.splits)

lemma start_rescan_inv:
  assumes "session_inv host perms dis s"
  shows "session_inv host perms dis (snd (start_rescan m eid s))"
proof -
  have r: "registry_inv (se_engines s)" using assms by (simp add: session_inv_def)
  have spawn: "registry_inv r''"
    if "request_rescan eid (se_engines s) = Inr (f, r')" "spawn_failed eid err r' = Some r''"
    for f r' r'' err
  proof -
    have "registry_inv r'" by (rule request_rescan_inv [OF r that(1)])
    moreover from that(1) obtain e where e: "lookup_entry r' eid = Some e" "re_retry e = Some f"
      by (auto simp: request_rescan_Inr)
    ultimately show ?thesis
      using that(2) by (auto simp: spawn_failed_def intro: finish_rescan_inv)
  qed
  show ?thesis
    using assms request_rescan_inv [OF r] spawn
    by (auto simp: start_rescan_def session_inv_def split: sum.split option.split)
qed

lemma start_probe_inv:
  "session_inv host perms dis s \<Longrightarrow> session_inv host perms dis (snd (start_probe eid s))"
  by (simp add: start_probe_def Let_def split_def)

lemma recover_engine_inv:
  assumes "session_inv host perms dis s"
  shows "session_inv host perms dis (recover_engine m inventory i eid s)"
proof -
  define out where "out = (if registry_engine (se_engines s) eid = None then start_rescan m eid s
    else start_probe eid s)"
  have "session_inv host perms dis (snd out)"
    by (simp add: out_def start_rescan_inv start_probe_inv assms)
  with assms show ?thesis
    unfolding recover_engine_def out_def [symmetric]
    by (auto dest: health_snapshot_same split: prod.split sum.split)
qed

lemma live_request_inv:
  "live_request env m inventory i request s = Some s' \<Longrightarrow> session_inv host perms dis s \<Longrightarrow>
   session_inv host perms dis s'"
  by (cases request) (auto simp: choose_profile_inv recover_engine_inv intro!: submit_preview_inv)

lemma shared_request_inv:
  assumes "session_inv host perms dis s"
  shows "session_inv host perms dis (shared_request env m inventory payload request s)"
proof -
  have registries: "session_inv host perms dis
      (s\<lparr>se_health := h, se_registries := snd (process_control_request e cx p (se_registries s))\<rparr>)"
    for h e cx p
    using assms process_inv [of perms dis "se_registries s" e cx p] by (simp add: session_inv_def)
  show ?thesis
    unfolding shared_request_def Let_def split_def by (simp add: registries)
qed

lemma control_command_inv:
  assumes "session_inv host perms dis s"
  shows "session_inv host perms dis (control_command env m cmd s)"
proof -
  obtain inventory s' where h: "health_snapshot (mo_now m) s = (inventory, s')" by fastforce
  with health_snapshot_same [OF h] assms have "session_inv host perms dis s'" by auto
  then show ?thesis
    by (auto simp: control_command_def h Let_def shared_request_inv bind_eq_Some_conv
        dest: live_request_inv split: option.split)
qed

lemma queued_item_inv:
  "session_inv host perms dis s \<Longrightarrow>
   session_inv host perms dis (s\<lparr>se_pending := queue_pending_item item (se_pending s)\<rparr>)"
  by (simp add: session_inv_def queue_pending_item_def pending_ok_push)

lemma quiet_command_inv:
  assumes "session_inv host perms dis s"
  shows "session_inv host perms dis (quiet_command env cmd s)"
proof -
  have "settings_ok host (se_settings s)" using assms by (simp add: session_inv_def)
  from settings_command_ok [OF this] have
    "session_inv host perms dis (s\<lparr>se_settings := settings_command cmd (se_settings s)\<rparr>)"
    by (rule session_inv_settings [OF assms])
  with assms show ?thesis
    by (simp add: quiet_command_def queued_item_inv split: option.split)
qed

lemma profile_command_inv:
  assumes "session_inv host perms dis s" "known_profile p (se_settings s)"
  shows "session_inv host perms dis (s\<lparr>se_settings := select_profile p (se_settings s)\<rparr>)"
  using assms by (intro session_inv_settings settings_select) (simp_all add: session_inv_def)

lemma handle_command_inv:
  assumes "session_inv host perms dis s"
  shows "session_inv host perms dis (handle_command env m cmd s)"
  using assms
  by (cases "cmd_id cmd")
    (simp_all add: handle_command_def dispatch_pending_inv dispatch_tracked_inv stop_session_inv
      reset_session_inv speak_now_inv play_sound_inv control_command_inv
      submit_body_inv quiet_command_inv profile_command_inv split: option.split)

section \<open>Runs of a session\<close>

text \<open>
  Commands in the order the reader takes them, interleaved with what the worker, the circuits and
  the engine registry do meanwhile. After \<open>tts_exit\<close> the process is gone.
\<close>

datatype ('e, 'f) session_event =
  CommandEvent moment command
| WorkerReceives
| WorkerReleases nat
| HealthEvent health_op
| RegistryEvent "('e, 'f) registry_op"

fun session_step ::
    "('l, 's) session_env \<Rightarrow> ('e, 'f) session_event \<Rightarrow> ('e, 'f, 'l, 's) session \<Rightarrow>
     ('e, 'f, 'l, 's) session" where
  "session_step env ev s =
     (if se_exited s then s
      else case ev of
             CommandEvent m cmd \<Rightarrow> handle_command env m cmd s
           | WorkerReceives \<Rightarrow> s\<lparr>se_synthesis := receive_synthesis (se_synthesis s)\<rparr>
           | WorkerReleases i \<Rightarrow> s\<lparr>se_synthesis := release_synthesis i (se_synthesis s)\<rparr>
           | HealthEvent h \<Rightarrow> s\<lparr>se_health := health_step h (se_health s)\<rparr>
           | RegistryEvent r \<Rightarrow> s\<lparr>se_engines := registry_step r (se_engines s)\<rparr>)"

definition session_start ::
    "tts_state \<Rightarrow> rstr \<Rightarrow> local_routing_policy \<Rightarrow> ('e, 'f) engine_registry \<Rightarrow>
     ('e, 'f, 'l, 's) session" where
  "session_start settings preferred lp engines =
     \<lparr>se_settings = settings, se_pending = empty_batch, se_gen = 0,
      se_registries = control_start (er_permissions engines) preferred lp, se_engines = engines,
      se_health = new_health, se_latest = 0, se_synthesis = initial_synthesis, se_replies = [],
      se_host = [], se_exited = False\<rparr>"

definition session_run ::
    "('l, 's) session_env \<Rightarrow> ('e, 'f) session_event list \<Rightarrow> ('e, 'f, 'l, 's) session \<Rightarrow>
     ('e, 'f, 'l, 's) session" where
  "session_run env evs s = fold (session_step env) evs s"

lemma received_requests: "requests_all P s \<Longrightarrow> requests_all P (receive_synthesis s)"
  by (auto simp: requests_all_def receive_synthesis_def recv_def list_all_iff
      split: list.splits option.splits)

lemma released_requests: "requests_all P s \<Longrightarrow> requests_all P (release_synthesis i s)"
  by (auto simp: requests_all_def release_synthesis_def list_all_iff
      dest: in_set_takeD in_set_dropD)

lemma session_step_inv:
  "session_inv host perms dis s \<Longrightarrow> session_inv host perms dis (session_step env ev s)"
  using handle_command_inv [of host perms dis s env] registry_step_inv [of "se_engines s"]
    receive_keeps_inv [of "se_synthesis s"] release_keeps_inv [of "se_synthesis s"]
    received_requests [of _ "se_synthesis s"] released_requests [of _ "se_synthesis s"]
  by (cases ev) (simp_all add: session_inv_def)

interpretation session: invariant_machine "session_step env" "session_inv host perms dis"
  for env :: "('l, 's) session_env" and host perms dis
  by unfold_locales (rule session_step_inv)

lemma session_start_inv:
  assumes "settings_ok settings settings" "registry_inv engines"
  shows "session_inv settings (er_permissions engines) (lp_disabled_engine_ids lp)
    (session_start settings preferred lp engines)"
  using assms
  by (simp add: session_inv_def session_start_def control_inv_def control_start_def
      initial_voices_wf with_local_policy_def initial_synthesis_inv requests_all_def)
    (simp add: initial_synthesis_def)

lemma session_run_inv:
  assumes "settings_ok settings settings" "registry_inv engines"
  shows "session_inv settings (er_permissions engines) (lp_disabled_engine_ids lp)
    (session_run env evs (session_start settings preferred lp engines))"
  unfolding session_run_def by (rule session.inv_run [OF session_start_inv [OF assms]])

text \<open>The generation counter is the clock of the session.\<close>

lemma submit_body_gen [simp]: "se_gen (submit_body env m body s) = se_gen s"
  by (simp add: submit_body_def)

lemma quiet_gen [simp]:
  "se_gen (write_reply e s) = se_gen s" "se_gen (write_status r s) = se_gen s"
  "se_gen (cancel_older env s) = se_gen s" "se_gen (clear_pending s) = se_gen s"
  "se_gen (interrupt a b s) = se_gen s + 1" "se_gen (refuse_with_error i message s) = se_gen s"
  "se_gen (choose_profile i p s) = se_gen s"
  by (simp_all add: write_reply_def write_status_def cancel_older_def clear_pending_def
      interrupt_def refuse_with_error_def choose_profile_def)

lemma start_gen:
  "start_rescan m eid s = (x, s') \<Longrightarrow> se_gen s' = se_gen s"
  "start_probe eid s = (x, s') \<Longrightarrow> se_gen s' = se_gen s"
  "health_snapshot now s = (y, s') \<Longrightarrow> se_gen s' = se_gen s"
  by (auto simp: start_rescan_def start_probe_def health_snapshot_def Let_def
      split: sum.splits option.splits prod.splits)

lemma recover_gen [simp]:
  fixes s :: "('e, 'f, 'l, 's) session"
  shows "se_gen (recover_engine m inventory i eid s) = se_gen s"
proof -
  have "se_gen (snd (start_rescan m eid s)) = se_gen s" "se_gen (snd (start_probe eid s)) = se_gen s"
    "se_gen (snd (health_snapshot now s')) = se_gen s'"
    for now and s' :: "('e, 'f, 'l, 's) session"
    by (metis start_gen prod.collapse)+
  then show ?thesis by (simp add: recover_engine_def Let_def split_def split: sum.split)
qed

lemma preview_gen:
  "(\<And>message. se_gen (refuse message s) = se_gen s) \<Longrightarrow>
   se_gen (submit_preview env m i words outcome refuse s) = se_gen s"
  by (simp add: submit_preview_def split: sum.split)

lemma live_gen: "live_request env m inventory i request s = Some s' \<Longrightarrow> se_gen s' = se_gen s"
  by (cases request) (auto simp: preview_gen)

lemma control_gen [simp]: "se_gen (control_command env m cmd s) = se_gen s"
  by (auto simp: control_command_def shared_request_def Let_def split_def bind_eq_Some_conv
      dest!: live_gen split: option.split) (simp_all add: health_snapshot_def split_def Let_def)

lemma quiet_command_gen [simp]: "se_gen (quiet_command env cmd s) = se_gen s"
  by (simp add: quiet_command_def split: option.split)

definition interrupting :: "command \<Rightarrow> bool" where
  "interrupting cmd \<longleftrightarrow>
     cmd_id cmd \<in> {Stop, TtsReset} \<or> (cmd_id cmd \<in> {TtsSay, Letter} \<and> cmd_args cmd \<noteq> None)"

lemma handle_command_gen:
  "se_gen (handle_command env m cmd s) = se_gen s + (if interrupting cmd then 1 else 0)"
  by (cases "cmd_id cmd")
    (simp_all add: handle_command_def interrupting_def dispatch_pending_def dispatch_tracked_def
      stop_session_def reset_session_def speak_now_def play_sound_def Let_def
      split: option.split sum.split prod.split)

lemma session_step_gen: "se_gen s \<le> se_gen (session_step env ev s)"
  by (cases ev) (simp_all add: handle_command_gen)

interpretation session_clock: clocked_machine "session_step env" se_gen
  for env :: "('l, 's) session_env"
  by unfold_locales (rule session_step_gen)

section \<open>What the commands do to a session\<close>

text \<open>Commands that only collect items: the batch holds all of them or none.\<close>

definition handle_all ::
    "('l, 's) session_env \<Rightarrow> (moment \<times> command) list \<Rightarrow> ('e, 'f, 'l, 's) session \<Rightarrow>
     ('e, 'f, 'l, 's) session" where
  "handle_all env cmds s = fold (\<lambda>(m, cmd). handle_command env m cmd) cmds s"

lemma handle_all_simps [simp]:
  "handle_all env [] s = s"
  "handle_all env ((m, cmd) # cmds) s = handle_all env cmds (handle_command env m cmd s)"
  "handle_all env (xs @ ys) s = handle_all env ys (handle_all env xs s)"
  by (simp_all add: handle_all_def)

lemma item_command:
  "pending_item (en_home env) cmd = Some item \<Longrightarrow>
   handle_command env m cmd s = s\<lparr>se_pending := queue_pending_item item (se_pending s)\<rparr>"
  by (cases "cmd_id cmd")
    (simp_all add: pending_item_def handle_command_def quiet_command_def is_settings_command_def
      deprecated_reply_def split: option.splits)

lemma item_commands:
  "map (pending_item (en_home env) \<circ> snd) cmds = map Some items \<Longrightarrow>
   handle_all env cmds s = s\<lparr>se_pending := push_all items (se_pending s)\<rparr>"
proof (induction cmds arbitrary: s items)
  case Nil
  then show ?case by (simp add: push_all_def)
next
  case (Cons c cmds)
  obtain m cmd where c: "c = (m, cmd)" by fastforce
  with Cons.prems obtain i is' where i: "items = i # is'" "pending_item (en_home env) cmd = Some i"
    "map (pending_item (en_home env) \<circ> snd) cmds = map Some is'"
    by (cases items) (simp_all add: o_def)
  from Cons.IH [OF i(3)] show ?case
    by (simp add: c i(1) item_command [OF i(2)] push_all_def queue_pending_item_def)
qed

text \<open>An interrupting stop leaves nothing queued and answers for everything it retires.\<close>

lemma cancelled_all:
  assumes "queue_inv synthesis_queue_limits (sy_queue s)" "requests_all (request_ok g) s" "g < g'"
  shows "entries (sy_queue (cancel_queued_synthesis_before ml g' s)) = [] \<and>
    sy_running (cancel_queued_synthesis_before ml g' s) = sy_running s \<and>
    sy_written (cancel_queued_synthesis_before ml g' s) = sy_written s @
      concat (map (\<lambda>q. report_retired_synthesis (RetiredWork (qw_work q) retirement_reason.StaleGeneration))
        (entries (sy_queue s)))"
proof -
  obtain gone q where r: "retire_before_generation (synth_work ml) g' (sy_queue s) = (gone, q)"
    by fastforce
  note eff = interrupt_effect [OF assms(1) synthesis_limits_ok r]
  have older: "\<forall>x \<in> set (entries (sy_queue s)). sr_gen (qw_work x) < g'"
    using assms(2,3)
    by (auto simp: requests_all_def request_ok_def list_all_iff intro: le_less_trans)
  then have "entries q = []" using eff by (simp add: filter_empty_conv not_le)
  moreover have "map rw_work gone = map qw_work (entries (sy_queue s))"
    using eff older by (simp add: filter_map filter_True o_def)
  moreover have "map (\<lambda>r. RetiredWork (rw_work r) retirement_reason.StaleGeneration) gone = gone"
    using eff by (intro map_idI) (metis retired_work.collapse)
  then have "gone = map (\<lambda>w. RetiredWork w retirement_reason.StaleGeneration) (map rw_work gone)"
    by (simp add: o_def)
  ultimately have "entries q = []"
    "gone = map (\<lambda>q. RetiredWork (qw_work q) retirement_reason.StaleGeneration) (entries (sy_queue s))"
    by (simp_all add: o_def)
  with r show ?thesis by (simp add: cancel_queued_synthesis_before_def o_def)
qed

text \<open>A framed command other than the dispatch touches settings, batch and replies only.\<close>

definition only_settings :: "('e, 'f, 'l, 's) session \<Rightarrow> ('e, 'f, 'l, 's) session \<Rightarrow> bool" where
  "only_settings s s' \<longleftrightarrow>
     (\<exists>st b rs. s' = s\<lparr>se_settings := st, se_pending := b, se_replies := rs\<rparr>)"

lemma only_settings_refl [simp]: "only_settings s s"
  unfolding only_settings_def
  by (intro exI [of _ "se_settings s"] exI [of _ "se_pending s"] exI [of _ "se_replies s"]) simp

lemma only_settings_trans:
  "only_settings s t \<Longrightarrow> only_settings t u \<Longrightarrow> only_settings s u"
  by (fastforce simp: only_settings_def)

lemma only_settings_updates:
  "only_settings s (s\<lparr>se_settings := st\<rparr>)" "only_settings s (s\<lparr>se_pending := b\<rparr>)"
  "only_settings s (write_reply e s)"
  unfolding only_settings_def write_reply_def
  by (rule exI [of _ st] exI [of _ "se_settings s"], rule exI [of _ "se_pending s"] exI [of _ b],
    rule exI [of _ "se_replies s"] exI [of _ "se_replies s @ [e]"], simp)+

lemma framed_command:
  assumes "cmd_id cmd \<notin> set immediate_commands" "cmd_id cmd \<noteq> Dispatch"
  shows "only_settings s (handle_command env m cmd s)"
  using assms
  by (cases "cmd_id cmd")
    (simp_all add: immediate_commands_def handle_command_def quiet_command_def
      only_settings_updates split: option.split)

lemma framed_commands:
  "list_all (\<lambda>c. cmd_id (snd c) \<notin> set immediate_commands \<and> cmd_id (snd c) \<noteq> Dispatch) cmds \<Longrightarrow>
   only_settings s (handle_all env cmds s)"
proof (induction cmds arbitrary: s)
  case (Cons c cmds)
  obtain m cmd where c: "c = (m, cmd)" by fastforce
  with Cons.prems have "only_settings s (handle_command env m cmd s)" by (simp add: framed_command)
  with Cons.IH [of "handle_command env m cmd s"] Cons.prems c show ?case
    by (auto intro: only_settings_trans)
qed simp

text \<open>
  \<open>execute_presentation\<close>: the generation is committed and every command handled, each at its own
  moment.
\<close>

definition execute_presentation ::
    "('l, 's) session_env \<Rightarrow> (nat \<Rightarrow> moment) \<Rightarrow> prepared_presentation \<Rightarrow> ('e, 'f, 'l, 's) session \<Rightarrow>
     ('e, 'f, 'l, 's) session" where
  "execute_presentation env ms p s =
     handle_all env (map (\<lambda>(i, cmd). (ms i, cmd)) (enumerate 0 (fp_commands p)))
       (s\<lparr>se_latest := commit_generation (fp_generation p) (se_latest s)\<rparr>)"

definition admit_synthesis ::
    "('l, 's) session_env \<Rightarrow> moment \<Rightarrow> (native_patch, parameter_catalogue) synth_request \<Rightarrow>
     ('e, 'f, 'l, 's) session \<Rightarrow> (native_patch, parameter_catalogue) synthesis_state" where
  "admit_synthesis env m w s = snd (enqueue_synthesis (en_layout env) (mo_now m) w (se_synthesis s))"

lemma executed_presentation:
  assumes "validate_commands (fp_commands p) = Inr ()"
  obtains m t where "only_settings (s\<lparr>se_latest := commit_generation (fp_generation p) (se_latest s)\<rparr>) t"
    "execute_presentation env ms p s = dispatch_pending env m t"
proof -
  let ?s = "s\<lparr>se_latest := commit_generation (fp_generation p) (se_latest s)\<rparr>"
  note v = validated_commands [OF assms]
  then obtain cs c where cs: "fp_commands p = cs @ [c]" "cmd_id c = Dispatch"
    by (cases "fp_commands p" rule: rev_cases) auto
  let ?f = "\<lambda>(i, cmd). (ms i, cmd)"
  have "list_all (\<lambda>c. cmd_id (snd c) \<notin> set immediate_commands \<and> cmd_id (snd c) \<noteq> Dispatch)
      (map ?f (enumerate 0 cs))"
    using v cs by (auto simp: list_all_iff in_set_enumerate_eq)
  from framed_commands [OF this] have "only_settings ?s (handle_all env (map ?f (enumerate 0 cs)) ?s)" .
  moreover have "execute_presentation env ms p s =
      dispatch_pending env (ms (length cs)) (handle_all env (map ?f (enumerate 0 cs)) ?s)"
    using cs by (simp add: execute_presentation_def enumerate_append_eq handle_command_def)
  ultimately show thesis by (rule that)
qed

section \<open>Properties\<close>

text \<open>
  C35: Whatever commands arrive in whatever order, between whatever the worker, the circuits and the
  registry do: the settings stay values speech can be made with, finite with a rate in [0, 2] and a
  punctuation table that exists, a reset always leads back to the same state, and every request that
  is queued or running carries such a table, so that no worker ever indexes a profile that is gone.
\<close>
theorem settings_always_speakable:
  assumes "settings_ok host host" "registry_inv engines"
  shows "let s = session_run env evs (session_start host preferred lp engines)
    in rate_ok (st_speech_rate (se_settings s)) \<and> is_finite (st_pitch_multiplier (se_settings s)) \<and>
       is_finite (st_voice_volume (se_settings s)) \<and> is_finite (st_tone_volume (se_settings s)) \<and>
       is_finite (st_sound_volume (se_settings s)) \<and> is_finite (st_character_scale (se_settings s)) \<and>
       punctuation_table_of (se_settings s) \<noteq> None \<and>
       reset_state (se_settings s) = reset_state host \<and>
       requests_all (\<lambda>w. punctuation_table_of (sr_state w) \<noteq> None) (se_synthesis s)"
proof -
  note inv = session_run_inv [OF assms, of lp env evs preferred]
  then have "settings_ok host (se_settings (session_run env evs (session_start host preferred lp engines)))"
    "requests_all (\<lambda>w. punctuation_table_of (sr_state w) \<noteq> None)
      (se_synthesis (session_run env evs (session_start host preferred lp engines)))"
    by (auto simp: session_inv_def request_ok_def elim!: requests_all_mono)
  then show ?thesis
    using settings_reset_host by (simp add: Let_def) (simp add: settings_ok_def)
qed

text \<open>
  C36: A stop or a reset silences the session: audio and engines are stopped, the batch is empty, no
  request is left in the queue, each one that was there has had its status written, in order, and
  nothing queued before the command can be mistaken for newer work, for the generation moved on by
  one; a reset also leads back to the settings of the start, a stop leaves them.
\<close>
theorem stop_silences:
  assumes "settings_ok host host" "registry_inv engines" "cmd_id cmd = Stop \<or> cmd_id cmd = TtsReset"
  shows "let s = session_run env evs (session_start host preferred lp engines);
        s' = handle_command env m cmd s
    in pending_is_empty (se_pending s') \<and> entries (sy_queue (se_synthesis s')) = [] \<and>
       sy_running (se_synthesis s') = sy_running (se_synthesis s) \<and>
       sy_written (se_synthesis s') = sy_written (se_synthesis s) @
         concat (map (\<lambda>q. report_retired_synthesis (RetiredWork (qw_work q) retirement_reason.StaleGeneration))
           (entries (sy_queue (se_synthesis s)))) \<and>
       se_gen s' = se_gen s + 1 \<and> se_host s' = se_host s @ [StopAllAudio, StopEngines] \<and>
       se_settings s' = (if cmd_id cmd = Stop then se_settings s else reset_state host) \<and>
       se_registries s' = se_registries s"
proof -
  define s where "s = session_run env evs (session_start host preferred lp engines)"
  have inv: "session_inv host (er_permissions engines) (lp_disabled_engine_ids lp) s"
    unfolding s_def by (rule session_run_inv [OF assms(1,2)])
  then have "reset_state (se_settings s) = reset_state host"
    by (simp add: session_inv_def settings_reset_host)
  moreover have "queue_inv synthesis_queue_limits (sy_queue (se_synthesis s))"
    "requests_all (request_ok (se_gen s)) (se_synthesis s)"
    using inv by (simp_all add: session_inv_def synthesis_inv_def)
  from cancelled_all [OF this, of "Suc (se_gen s)" "en_layout env"] have
    "entries (sy_queue (cancel_queued_synthesis_before (en_layout env) (Suc (se_gen s))
        (se_synthesis s))) = []"
    "sy_running (cancel_queued_synthesis_before (en_layout env) (Suc (se_gen s)) (se_synthesis s)) =
      sy_running (se_synthesis s)"
    "sy_written (cancel_queued_synthesis_before (en_layout env) (Suc (se_gen s)) (se_synthesis s)) =
      sy_written (se_synthesis s) @
        concat (map (\<lambda>q. report_retired_synthesis (RetiredWork (qw_work q) retirement_reason.StaleGeneration))
          (entries (sy_queue (se_synthesis s))))"
    by simp_all
  ultimately show ?thesis
    using assms(3) unfolding s_def [symmetric] Let_def
    by (elim disjE) (simp_all add: handle_command_def stop_session_def reset_session_def Let_def
      clear_pending_def cancel_older_def interrupt_def pending_is_empty_def pending_clear_def)
qed

text \<open>
  C37: A legacy batch is spoken whole or not at all: when commands collect items into an empty batch
  and a tracked dispatch follows, the session submits one request with exactly those items in their
  order, or, when they exceed the limits, submits nothing and answers that the dispatch failed.
  Either way the batch is empty for the next one and nothing else has changed.
\<close>
theorem tracked_batch_whole:
  assumes "map (pending_item (en_home env) \<circ> snd) cmds = map Some items"
    and "se_pending s = empty_batch"
    and "cmd_id cmd = EmacsvoxTrackedDispatch" "dispatch_identifier cmd = Some i"
  shows "handle_command env m cmd (handle_all env cmds s) =
    (if batch_fits items
     then submit_body env m (SynthBatch items (captured_routing s) (Some (TrackCompletion i))) s
     else write_status (TrackedLine (tracked_status_record i BatchFailed)) s)"
proof -
  have collect: "handle_all env cmds s = s\<lparr>se_pending := push_all items empty_batch\<rparr>"
    unfolding item_commands [OF assms(1)] assms(2) ..
  have restore: "t\<lparr>se_pending := empty_batch\<rparr> = t" if "se_pending t = empty_batch" for t
    using that by simp
  from collected_push_all [of "[]" items] have "collected items (push_all items empty_batch)"
    by (simp add: push_all_def)
  then show ?thesis
    using assms(3,4) restore [OF assms(2)]
    by (auto simp: handle_command_def dispatch_tracked_def collect collected_def pending_take_def
        captured_routing_def empty_batch_def split: if_splits)
qed

text \<open>
  C38: A framed presentation never interrupts: running its commands leaves the generation, the
  registries, the engines, their circuits, the host and everything running untouched, commits its
  own generation, and queues at most one request, a batch with the settings it has set itself.
\<close>
theorem framed_never_interrupts:
  assumes "prepare_presentation c latest arguments = Inr (Some p)"
  shows "let s' = execute_presentation env ms p s
    in se_gen s' = se_gen s \<and> se_host s' = se_host s \<and> se_registries s' = se_registries s \<and>
       se_engines s' = se_engines s \<and> se_health s' = se_health s \<and> se_exited s' = se_exited s \<and>
       se_latest s' = max (se_latest s) (fp_generation p) \<and>
       (if se_synthesis s' = se_synthesis s then True
        else \<exists>m items. se_synthesis s' = admit_synthesis env m
          \<lparr>sr_body = SynthBatch items (captured_routing s) None, sr_state = se_settings s',
           sr_lifecycle = new_lifecycle, sr_gen = se_gen s\<rparr> s)"
proof -
  from prepared_commands [OF assms] have "validate_commands (fp_commands p) = Inr ()" by blast
  then obtain m t where t: "execute_presentation env ms p s = dispatch_pending env m t"
    and "only_settings (s\<lparr>se_latest := commit_generation (fp_generation p) (se_latest s)\<rparr>) t"
    by (rule executed_presentation)
  then obtain st b rs where "t = s\<lparr>se_latest := commit_generation (fp_generation p) (se_latest s),
      se_settings := st, se_pending := b, se_replies := rs\<rparr>"
    by (auto simp: only_settings_def)
  then show ?thesis
    by (auto simp: t dispatch_pending_def Let_def submit_body_def admit_synthesis_def
        captured_routing_def commit_generation_def max.commute split: sum.split prod.split)
qed

section \<open>The theorems at concrete sessions\<close>

definition sample_host :: tts_state where
  "sample_host = from_speech_defaults default_speech"

lemma sample_defaults_valid: "validate_speech_defaults default_speech = Inr ()"
  by code_simp

lemma sample_host_ok: "settings_ok sample_host sample_host"
proof -
  have "rate_ok (sd_rate default_speech)" "is_finite (sd_pitch default_speech)"
    "is_finite (sd_voice_volume default_speech)" "is_finite (sd_tone_volume default_speech)"
    "is_finite (sd_sound_volume default_speech)" "is_finite (sd_character_scale default_speech)"
    by code_simp+
  then show ?thesis
    by (simp add: settings_ok_def sample_host_def from_speech_defaults_def sample_defaults_valid)
qed

definition sample_events :: "(engine_descriptor, unit) session_event list" where
  "sample_events =
     [CommandEvent \<lparr>mo_now = 1, mo_later = 2, mo_catalogues = [], mo_spawn_error = None\<rparr>
        \<lparr>cmd_id = TtsSetSpeechRate, cmd_args = Some (lit ''150'')\<rparr>, WorkerReceives]"

definition sample_run :: "('l, 's) session_env \<Rightarrow> (engine_descriptor, unit, 'l, 's) session" where
  "sample_run env =
     session_run env sample_events
       (session_start sample_host (lit ''espeak'') default_local_policy sample_registry)"

theorem settings_always_speakable_witness:
  "\<forall>env :: (unit, unit) session_env.
     punctuation_table_of (se_settings (sample_run env)) \<noteq> None \<and>
     reset_state (se_settings (sample_run env)) = reset_state sample_host"
proof (intro allI)
  fix env :: "(unit, unit) session_env"
  from settings_always_speakable [OF sample_host_ok sample_registry_inv, of env sample_events
      "lit ''espeak''" default_local_policy] show
    "punctuation_table_of (se_settings (sample_run env)) \<noteq> None \<and>
     reset_state (se_settings (sample_run env)) = reset_state sample_host"
    unfolding sample_run_def Let_def by blast
qed

theorem stop_silences_witness:
  "\<forall>(env :: (unit, unit) session_env) m.
     entries (sy_queue (se_synthesis
       (handle_command env m \<lparr>cmd_id = Stop, cmd_args = None\<rparr> (sample_run env)))) = [] \<and>
     se_gen (handle_command env m \<lparr>cmd_id = Stop, cmd_args = None\<rparr> (sample_run env)) =
       se_gen (sample_run env) + 1"
proof (intro allI)
  fix env :: "(unit, unit) session_env" and m :: moment
  let ?stop = "\<lparr>cmd_id = Stop, cmd_args = None\<rparr>"
  have "cmd_id ?stop = Stop \<or> cmd_id ?stop = TtsReset" by simp
  from stop_silences [OF sample_host_ok sample_registry_inv this, where env = env and m = m
      and evs = sample_events and preferred = "lit ''espeak''" and lp = default_local_policy] show
    "entries (sy_queue (se_synthesis (handle_command env m ?stop (sample_run env)))) = [] \<and>
     se_gen (handle_command env m ?stop (sample_run env)) = se_gen (sample_run env) + 1"
    unfolding sample_run_def Let_def by blast
qed

theorem tracked_batch_whole_witness:
  "\<forall>(env :: (unit, unit) session_env) m.
     handle_command env m \<lparr>cmd_id = EmacsvoxTrackedDispatch, cmd_args = Some (lit ''7'')\<rparr>
       (handle_all env [(m, \<lparr>cmd_id = Queue, cmd_args = Some (lit ''a'')\<rparr>)]
         (session_start sample_host (lit ''espeak'') default_local_policy sample_registry)) =
     submit_body env m (SynthBatch [SpeechItem (lit ''a'')]
         (captured_routing
           (session_start sample_host (lit ''espeak'') default_local_policy sample_registry
              :: (engine_descriptor, unit, unit, unit) session)) (Some (TrackCompletion 7)))
       (session_start sample_host (lit ''espeak'') default_local_policy sample_registry)"
proof (intro allI)
  fix env :: "(unit, unit) session_env" and m :: moment
  let ?s = "session_start sample_host (lit ''espeak'') default_local_policy sample_registry
    :: (engine_descriptor, unit, unit, unit) session"
  let ?c = "\<lparr>cmd_id = EmacsvoxTrackedDispatch, cmd_args = Some (lit ''7'')\<rparr>"
  have item: "map (pending_item (en_home env) \<circ> snd)
      [(m, \<lparr>cmd_id = Queue, cmd_args = Some (lit ''a'')\<rparr>)] = map Some [SpeechItem (lit ''a'')]"
    by (simp add: pending_item_def)
  have i: "dispatch_identifier ?c = Some 7"
    by (simp add: dispatch_identifier_def parse_u64_def parse_unsigned_def strip_plus_def
        u64_max_def text_eval digit_value_def is_ascii_digit_def)
  have "batch_fits [SpeechItem (lit ''a'')]"
    by (simp add: batch_fits_def max_pending_items_def max_pending_payload_bytes_def text_eval utf8_len_def)
  with tracked_batch_whole [OF item _ _ i, of ?s m] show
    "handle_command env m ?c (handle_all env [(m, \<lparr>cmd_id = Queue, cmd_args = Some (lit ''a'')\<rparr>)] ?s) =
     submit_body env m (SynthBatch [SpeechItem (lit ''a'')] (captured_routing ?s)
       (Some (TrackCompletion 7))) ?s"
    by (simp add: session_start_def)
qed

lemma sample_frame:
  "prepare_presentation script_codec 0 (frame_arguments 1 (lit ''ZA=='')) =
     Inr (Some \<lparr>fp_generation = 1, fp_commands = [\<lparr>cmd_id = Dispatch, cmd_args = None\<rparr>]\<rparr>)"
proof -
  have t: "trim [100] = [100]"
    by (simp add: trim_def trim_start_def trim_end_def is_whitespace_def)
  show ?thesis
    unfolding prepare_presentation_def script_decoded
    by (simp add: str_lines.simps parse_command_def
        command_captures_def command_id_from_str_def command_names_def validate_commands_def
        validate_command_def command_allowed_def max_presentation_commands_def text_eval id_char_def t
        is_ascii_lowercase_def)
qed

theorem framed_never_interrupts_witness:
  "\<forall>(env :: (unit, unit) session_env) ms.
     se_gen (execute_presentation env ms
       \<lparr>fp_generation = 1, fp_commands = [\<lparr>cmd_id = Dispatch, cmd_args = None\<rparr>]\<rparr>
       (sample_run env)) = se_gen (sample_run env)"
proof (intro allI)
  fix env :: "(unit, unit) session_env" and ms
  from framed_never_interrupts [OF sample_frame, of env ms "sample_run env"] show
    "se_gen (execute_presentation env ms
       \<lparr>fp_generation = 1, fp_commands = [\<lparr>cmd_id = Dispatch, cmd_args = None\<rparr>]\<rparr>
       (sample_run env)) = se_gen (sample_run env)"
    unfolding Let_def by blast
qed

end
