(* ===== verification/Spec2Isabelle.thy ===== *)
theory Spec2Isabelle
  imports Work_Queue Frame_Timeline Runtime_Fallback Session_Commands
begin

text \<open>
  Verification of omnivox, the speech server of an Emacspeak-like client. The repository is a
  Rust workspace; this development models the part that decides what is spoken, by which engine
  and with which settings, from the bytes of standard input to the requests an engine receives
  and back to the validated result.

  \<^bold>\<open>How the program works.\<close> A client writes command lines to the server. The input thread of
  \<open>omnivox-cli/src/server.rs\<close> reads bounded lines and \<open>omnivox-core/src/command.rs\<close> parses them.
  Settings commands change the session state (\<open>omnivox-core/src/state.rs\<close>); control commands
  replace two generation-safe registries, the routing policy and the logical voices
  (\<open>omnivox-tts\<close>); speech commands build presentations, legacy ones from pending commands and
  structured ones from Base64 timelines that may span several lines. Each presentation is
  admitted to a bounded, lane-aware work queue and retired by newer work. When it is executed,
  its text is split into chunks, each chunk is routed to an engine by the resolver over the
  inventory of the engine registry, with circuit breakers and bounded runtime fallback, the
  result an engine returns is validated, and its markers place the actions of the timeline.

  \<^bold>\<open>Theories.\<close> Each theory opens with what it holds; sources are under \<open>src/\<close>.
    \<^item> \<open>Rust_Prelude\<close>, \<open>Rust_Float\<close>: strings as Unicode scalar values with UTF-8 lengths,
      \<open>Result\<close> as a sum, \<open>?\<close> as \<open>and_then\<close>, \<open>BTreeMap\<close> as sorted entries, saturating and
      checked arithmetic; \<open>f32\<close> as rationals with infinities, NaN and IEEE rounding.
    \<^item> \<open>Interfaces\<close>: the locales. \<open>invariant_machine\<close> (operations that keep an invariant),
      \<open>clocked_machine\<close> (a counter that never falls), \<open>generation_gate\<close> (registrations ordered by
      generation) and \<open>selector_evaluation\<close>. Each is interpreted on the definitions of the
      components that provide it: the work queue, the circuit breaker, the routing policy, the
      engine registry, the logical voices (both registration paths) and the resolver.
    \<^item> \<open>Command_Line\<close> (\<open>command.rs\<close>), \<open>Protocol_Input\<close> (\<open>server.rs\<close>: the bounded line reader,
      the input thread, command reception and multipart submissions), \<open>Session_State\<close>
      (\<open>state.rs\<close>, \<open>cli.rs\<close> defaults), \<open>Tone_Command\<close> (tone arguments in \<open>pipeline.rs\<close>).
    \<^item> \<open>Frame_Timeline\<close> (\<open>omnivox-core/src/timeline.rs\<close>), \<open>Timeline_Documents\<close> (structured,
      concatenated, rich and mixed documents), \<open>Timeline_Transport\<close> (parts and their assembler,
      generations and replays), \<open>Speech_Text\<close> (\<open>text.rs\<close>: punctuation, capitals, chunks with
      offsets), \<open>Synth_Requests\<close> (leases, replacement, retirement, pending commands) and
      \<open>Presentation_Preparation\<close> (\<open>pipeline.rs\<close> before any engine is called).
    \<^item> \<open>Contracts\<close>, \<open>Resolver\<close>, \<open>Routing_Policy\<close>, \<open>Engine_Registry\<close>, \<open>Voice_Eligibility\<close>,
      \<open>Voice_Choices\<close>, \<open>Logical_Voices\<close>, \<open>Synthesis\<close>, \<open>Native_Parameters\<close>, \<open>Native_Choices\<close>:
      the files of those names in \<open>omnivox-tts/src\<close>, with \<open>engine_voice_choices.rs\<close> and
      \<open>logical_voices/native.rs\<close> in the last.
    \<^item> \<open>Engine_Health\<close> (\<open>health.rs\<close>), \<open>Work_Queue\<close> (\<open>work_queue.rs\<close>), \<open>Routing_Snapshot\<close> and
      \<open>Runtime_Fallback\<close> (\<open>routing.rs\<close>).
  \<^bold>\<open>What the lemmas show.\<close> Every component has its state, one definition per operation with all
  its error branches, an invariant with its preservation, and lemmas for what each operation
  does on success and on refusal. The properties, numbered \<open>C1\<close> to \<open>C40\<close>, build on them:
  nothing that arrives on the wire can make a bounded structure exceed its bound or a decoded
  value leave its range; every accepted document, registration or result is sound in the sense
  the next component relies on; a refused one changes nothing; newer work retires older work
  and never the reverse; probes of broken engines are exclusive and are given back; runtime
  fallback ends after at most four engine calls on different targets; and a plan of native
  parameters orders them so that side effects are undone.

  \<^bold>\<open>Conventions.\<close> Unsigned integers are \<open>nat\<close>, with the width written out where the source
  wraps, saturates or checks; \<open>option\<close> around a result is a panic of the source, so that a
  theorem giving \<open>Some\<close> says it cannot happen. An enum of errors keeps its constructors; a
  message is kept where the protocol shows it. Loops over lists are structural recursions,
  \<open>while\<close> loops are \<open>function\<close>s with a termination proof (the parser, the assembler, the Kahn
  order of native parameters); no fuel is used.

  \<^bold>\<open>Parameters.\<close> Code outside \<open>src/\<close> is an argument: Base64 and serde decoding, the sizes of
  JSON texts, the engines themselves (what an engine call returns), the audio loader, hash
  functions and the clock. The hypotheses on them are the documented ones, and each property
  with hypotheses has a witness at a concrete instance.

  \<^bold>\<open>Not modelled.\<close> Audio rendering and playback (\<open>omnivox-audio\<close>, the rendering half of
  \<open>pipeline.rs\<close>, progressive playback) are numerical signal processing on device callbacks;
  the helper processes, their hosts and the \<open>-sys\<close> crates are FFI and process I/O; threads,
  locks and channels appear as the sequences of operations they serialise; voice acquisition,
  the voice library, diagnostics, remote forwarding and installation are file and network I/O;
  logging is left out everywhere.
\<close>

end
